(* ===== verification/Prelude.thy ===== *)
theory Prelude
  imports Main "HOL-Library.Word"
begin

unbundle bit_operations_syntax

text \<open>
  Shared ground of the development: the machine integers of the sources as words, the parts of
  the Rust core library that the components use (\<open>Result\<close> with the question-mark operator,
  checked and saturating arithmetic, slices, big-endian byte conversions), and the lemmas on them
  that carry the proofs of the components.

  Conventions. \<open>u8\<close>, \<open>u16\<close>, \<open>u32\<close> and \<open>u64\<close> are words of their width.
  \<open>usize\<close> is the 64-bit \<open>usize\<close> of the supported targets: it counts elements of a
  vector or bytes of a buffer and is written as a \<^typ>\<open>nat\<close> whose checked additions
  test the bound \<open>2 ^ 64\<close>. \<open>Duration\<close> is a number of nanoseconds. \<open>Result<T, E>\<close>
  is a sum with the error on the left.
\<close>

section \<open>Types\<close>

type_synonym u8 = "8 word"
type_synonym u16 = "16 word"
type_synonym u32 = "32 word"
type_synonym u64 = "64 word"
type_synonym usize = nat
type_synonym duration = nat
type_synonym bytes = "u8 list"

named_theorems result_simps \<open>inversion of successful results\<close>
named_theorems word_nat_simps \<open>arithmetic of words through their natural-number values\<close>

section \<open>Results\<close>

text \<open>\<open>and_then r f\<close> is \<open>let x = r?; f(x)\<close>: an error returns at once.\<close>

definition and_then :: "'e + 'a \<Rightarrow> ('a \<Rightarrow> 'e + 'b) \<Rightarrow> 'e + 'b" where
  "and_then r f = (case r of Inl e \<Rightarrow> Inl e | Inr x \<Rightarrow> f x)"

definition ok_or :: "'e \<Rightarrow> 'a option \<Rightarrow> 'e + 'a" where
  "ok_or e x = (case x of None \<Rightarrow> Inl e | Some y \<Rightarrow> Inr y)"

definition map_err :: "('e \<Rightarrow> 'f) \<Rightarrow> 'e + 'a \<Rightarrow> 'f + 'a" where
  "map_err f r = (case r of Inl e \<Rightarrow> Inl (f e) | Inr x \<Rightarrow> Inr x)"

text \<open>\<open>require c e\<close> is an early return of the error \<open>e\<close> unless \<open>c\<close> holds.\<close>

definition require :: "bool \<Rightarrow> 'e \<Rightarrow> 'e + unit" where
  "require c e = (if c then Inr () else Inl e)"

definition is_ok :: "'e + 'a \<Rightarrow> bool" where
  "is_ok r = (case r of Inl _ \<Rightarrow> False | Inr _ \<Rightarrow> True)"

lemma and_then_simps [simp]:
  "and_then (Inl e) f = Inl e"
  "and_then (Inr x) f = f x"
  by (simp_all add: and_then_def)

lemma and_then_eq_Inr [result_simps]:
  "and_then r f = Inr y \<longleftrightarrow> (\<exists>x. r = Inr x \<and> f x = Inr y)"
  by (cases r) auto

lemma and_then_eq_Inl [result_simps]:
  "and_then r f = Inl e \<longleftrightarrow> r = Inl e \<or> (\<exists>x. r = Inr x \<and> f x = Inl e)"
  by (cases r) auto

lemma ok_or_simps [simp]:
  "ok_or e None = Inl e"
  "ok_or e (Some x) = Inr x"
  by (simp_all add: ok_or_def)

lemma ok_or_eq_Inr [result_simps]: "ok_or e x = Inr y \<longleftrightarrow> x = Some y"
  by (cases x) auto

lemma ok_or_eq_Inl [result_simps]: "ok_or e x = Inl e' \<longleftrightarrow> x = None \<and> e' = e"
  by (cases x) auto

lemma map_err_simps [simp]:
  "map_err f (Inl e) = Inl (f e)"
  "map_err f (Inr x) = Inr x"
  by (simp_all add: map_err_def)

lemma map_err_eq_Inr [result_simps]: "map_err f r = Inr y \<longleftrightarrow> r = Inr y"
  by (cases r) auto

lemma map_err_eq_Inl [result_simps]: "map_err f r = Inl e \<longleftrightarrow> (\<exists>e'. r = Inl e' \<and> e = f e')"
  by (cases r) auto

lemma require_simps [simp]:
  "require True e = Inr ()"
  "require False e = Inl e"
  by (simp_all add: require_def)

lemma require_eq_Inr [result_simps]: "require c e = Inr u \<longleftrightarrow> c"
  by (simp add: require_def)

lemma require_eq_Inl [result_simps]: "require c e = Inl e' \<longleftrightarrow> \<not> c \<and> e' = e"
  by (auto simp: require_def)

lemma is_ok_simps [simp]:
  "is_ok (Inr x)"
  "\<not> is_ok (Inl e)"
  by (simp_all add: is_ok_def)

lemma is_ok_iff: "is_ok r \<longleftrightarrow> (\<exists>x. r = Inr x)"
  by (cases r) auto

section \<open>Checked and saturating arithmetic\<close>

definition checked_add :: "'a::len word \<Rightarrow> 'a word \<Rightarrow> 'a word option" where
  "checked_add a b = (if unat a + unat b < 2 ^ LENGTH('a) then Some (a + b) else None)"

definition saturating_add :: "'a::len word \<Rightarrow> 'a word \<Rightarrow> 'a word" where
  "saturating_add a b = (if unat a + unat b < 2 ^ LENGTH('a) then a + b else - 1)"

definition saturating_sub :: "'a::len word \<Rightarrow> 'a word \<Rightarrow> 'a word" where
  "saturating_sub a b = (if a < b then 0 else a - b)"

definition saturating_mul :: "'a::len word \<Rightarrow> 'a word \<Rightarrow> 'a word" where
  "saturating_mul a b = (if unat a * unat b < 2 ^ LENGTH('a) then a * b else - 1)"

definition checked_mul :: "'a::len word \<Rightarrow> 'a word \<Rightarrow> 'a word option" where
  "checked_mul a b = (if unat a * unat b < 2 ^ LENGTH('a) then Some (a * b) else None)"

text \<open>The bound of \<open>usize\<close> on the supported 64-bit targets.\<close>

definition usize_limit :: nat where
  "usize_limit = 2 ^ 64"

definition checked_add_usize :: "usize \<Rightarrow> usize \<Rightarrow> usize option" where
  "checked_add_usize a b = (if a + b < usize_limit then Some (a + b) else None)"

lemma unat_max_word [word_nat_simps]: "unat (- 1 :: 'a::len word) = 2 ^ LENGTH('a) - 1"
  by (simp add: unsigned_minus_1_eq_mask mask_eq_exp_minus_1)

lemma checked_add_eq_Some [result_simps]:
  "checked_add a b = Some c \<longleftrightarrow> unat a + unat b < 2 ^ LENGTH('a) \<and> c = a + (b :: 'a::len word)"
  by (auto simp: checked_add_def)

lemma checked_add_eq_None [result_simps]:
  "checked_add a b = None \<longleftrightarrow> 2 ^ LENGTH('a) \<le> unat a + unat (b :: 'a::len word)"
  by (auto simp: checked_add_def)

lemma unat_add_no_overflow [word_nat_simps]:
  "unat a + unat b < 2 ^ LENGTH('a) \<Longrightarrow> unat (a + b :: 'a::len word) = unat a + unat b"
  by (simp add: unat_word_ariths)

lemma unat_checked_add: "checked_add a b = Some c \<Longrightarrow> unat c = unat a + unat b"
  by (auto simp: result_simps word_nat_simps)

lemma unat_saturating_add [word_nat_simps]:
  "unat (saturating_add a b :: 'a::len word) = min (unat a + unat b) (2 ^ LENGTH('a) - 1)"
  by (auto simp: saturating_add_def word_nat_simps)

lemma unat_saturating_sub [word_nat_simps]:
  "unat (saturating_sub a b) = unat a - unat b"
  by (simp add: saturating_sub_def word_less_nat_alt unat_sub word_le_nat_alt)

lemma unat_saturating_mul [word_nat_simps]:
  "unat (saturating_mul a b :: 'a::len word) = min (unat a * unat b) (2 ^ LENGTH('a) - 1)"
  by (auto simp: saturating_mul_def word_nat_simps unat_word_ariths)

lemma unat_of_nat_small [word_nat_simps]:
  "n < 2 ^ LENGTH('a) \<Longrightarrow> unat (of_nat n :: 'a::len word) = n"
  by (simp add: unat_of_nat)

lemma unat_min [word_nat_simps]: "unat (min a b) = min (unat a) (unat b)"
  by (auto simp: min_def word_le_nat_alt)

lemma unat_max [word_nat_simps]: "unat (max a b) = max (unat a) (unat b)"
  by (auto simp: max_def word_le_nat_alt)

lemmas word_order_nat = word_le_nat_alt word_less_nat_alt word_unat_eq_iff

lemma unat_2_power: "k < LENGTH('a) \<Longrightarrow> unat (2 ^ k :: 'a::len word) = 2 ^ k"
  by (metis of_nat_numeral of_nat_power power_strict_increasing_iff one_less_numeral_iff
      semiring_norm(76) unat_of_nat_small)

lemma unat_le_max: "unat (a :: 'a::len word) \<le> 2 ^ LENGTH('a) - 1"
  using unsigned_less [of a, where 'a = nat] by linarith

lemma saturating_add_ge: "a \<le> saturating_add a b"
  using unat_le_max [of a] by (simp add: word_le_nat_alt unat_saturating_add)

lemma saturating_add_0 [simp]: "saturating_add 0 a = a" "saturating_add a 0 = a"
  by (simp_all add: saturating_add_def)

section \<open>Slices\<close>

text \<open>\<open>get xs i\<close> is \<open>xs.get(i)\<close>, \<open>slice xs a b\<close> is \<open>xs.get(a..b)\<close>.\<close>

definition get :: "'a list \<Rightarrow> usize \<Rightarrow> 'a option" where
  "get xs i = (if i < length xs then Some (xs ! i) else None)"

definition slice :: "'a list \<Rightarrow> usize \<Rightarrow> usize \<Rightarrow> 'a list option" where
  "slice xs a b = (if a \<le> b \<and> b \<le> length xs then Some (take (b - a) (drop a xs)) else None)"

text \<open>\<open>splice xs a ys\<close> is \<open>xs[a..a + ys.len()].copy_from_slice(ys)\<close> for a range inside \<open>xs\<close>.\<close>

definition splice :: "'a list \<Rightarrow> usize \<Rightarrow> 'a list \<Rightarrow> 'a list" where
  "splice xs a ys = take a xs @ ys @ drop (a + length ys) xs"

lemma get_append [simp]: "get (pre @ x # post) (length pre) = Some x"
  by (simp add: get_def)

lemma get_eq_Some [result_simps]: "get xs i = Some x \<longleftrightarrow> i < length xs \<and> x = xs ! i"
  by (auto simp: get_def)

lemma get_eq_None [result_simps]: "get xs i = None \<longleftrightarrow> length xs \<le> i"
  by (auto simp: get_def)

lemma slice_eq_Some [result_simps]:
  "slice xs a b = Some ys \<longleftrightarrow> a \<le> b \<and> b \<le> length xs \<and> ys = take (b - a) (drop a xs)"
  by (auto simp: slice_def)

lemma slice_eq_None [result_simps]: "slice xs a b = None \<longleftrightarrow> b < a \<or> length xs < b"
  by (auto simp: slice_def)

lemma slice_append [simp]:
  "slice (pre @ ys @ post) (length pre) (length pre + length ys) = Some ys"
  by (simp add: slice_def)

lemma length_splice [simp]:
  "a + length ys \<le> length xs \<Longrightarrow> length (splice xs a ys) = length xs"
  by (simp add: splice_def)

lemma map_nth_upt_take: "n \<le> length xs \<Longrightarrow> map (nth xs) [0 ..< n] = take n xs"
  by (metis map_nth take_map take_upt add_0)

text \<open>The bytes of a string literal, all of whose characters are ASCII.\<close>

definition ascii :: "string \<Rightarrow> bytes" where
  "ascii s = map of_char s"

text \<open>The decimal digits of a number, and a byte in two hexadecimal ones.\<close>

fun decimal :: "nat \<Rightarrow> bytes" where
  "decimal n = (if n < 10 then [of_nat (48 + n)] else decimal (n div 10) @ [of_nat (48 + n mod 10)])"

declare decimal.simps [simp del]

definition hex_char :: "nat \<Rightarrow> char" where
  "hex_char d = ''0123456789abcdef'' ! d"

definition hex_byte :: "u8 \<Rightarrow> string" where
  "hex_byte b = [hex_char (unat b div 16), hex_char (unat b mod 16)]"

section \<open>Big-endian byte strings\<close>

text \<open>\<open>to_be_bytes n w\<close> gives the \<open>n\<close> low bytes of \<open>w\<close>, the most significant first; at
  \<open>n = LENGTH('a) div 8\<close> it is Rust's \<open>to_be_bytes\<close>.\<close>

primrec to_be_bytes :: "nat \<Rightarrow> 'a::len word \<Rightarrow> bytes" where
  "to_be_bytes 0 w = []"
| "to_be_bytes (Suc n) w = to_be_bytes n (drop_bit 8 w) @ [ucast w]"

definition from_be_bytes :: "bytes \<Rightarrow> 'a::len word" where
  "from_be_bytes bs = foldl (\<lambda>acc b. push_bit 8 acc OR ucast b) 0 bs"

lemma length_to_be_bytes [simp]: "length (to_be_bytes n w) = n"
  by (induction n arbitrary: w) auto

lemma from_be_bytes_snoc:
  "from_be_bytes (bs @ [b]) = push_bit 8 (from_be_bytes bs) OR ucast b"
  by (simp add: from_be_bytes_def)

lemma from_to_be_bytes:
  "from_be_bytes (to_be_bytes n w) = take_bit (8 * n) (w :: 'a::len word)"
proof (induction n arbitrary: w)
  case 0
  then show ?case by (simp add: from_be_bytes_def)
next
  case (Suc n)
  show ?case
    by (rule bit_eqI) (auto simp: from_be_bytes_snoc Suc bit_simps)
qed

lemma from_to_be_bytes_full [simp]:
  "from_be_bytes (to_be_bytes 2 w) = (w :: u16)"
  "from_be_bytes (to_be_bytes 4 x) = (x :: u32)"
  "from_be_bytes (to_be_bytes 8 y) = (y :: u64)"
  using take_bit_length_eq [of w] take_bit_length_eq [of x] take_bit_length_eq [of y]
  by (simp_all add: from_to_be_bytes)

lemma to_be_bytes_eq_iff:
  "to_be_bytes 2 w = to_be_bytes 2 w' \<longleftrightarrow> w = (w' :: u16)"
  "to_be_bytes 4 x = to_be_bytes 4 x' \<longleftrightarrow> x = (x' :: u32)"
  "to_be_bytes 8 y = to_be_bytes 8 y' \<longleftrightarrow> y = (y' :: u64)"
  by (metis from_to_be_bytes_full)+

lemma to_be_bytes_2: "to_be_bytes 2 w = [ucast (drop_bit 8 w), ucast w]"
  by (simp add: numeral_2_eq_2)

lemma nth_to_be_bytes_0: "to_be_bytes (Suc n) w ! 0 = ucast (drop_bit (8 * n) w)"
proof (induction n arbitrary: w)
  case 0
  then show ?case by simp
next
  case (Suc n)
  have "to_be_bytes (Suc (Suc n)) w ! 0 = to_be_bytes (Suc n) (drop_bit 8 w) ! 0"
    by (simp add: nth_append)
  then show ?case
    using Suc [of "drop_bit 8 w"] by (simp add: algebra_simps)
qed


section \<open>Bit fields through natural numbers\<close>

lemma unat_drop_bit [word_nat_simps]: "unat (drop_bit k v) = unat v div 2 ^ k"
  by (simp add: unat_drop_bit_eq drop_bit_nat_def)

lemma unat_take_bit [word_nat_simps]: "unat (take_bit k v) = unat v mod 2 ^ k"
  by (simp add: unsigned_take_bit_eq take_bit_nat_def)

lemma unat_ucast_mod [word_nat_simps]:
  "unat (ucast v :: 'a::len word) = unat v mod 2 ^ LENGTH('a)"
  by (simp add: unsigned_ucast_eq take_bit_nat_def)

lemma drop_bit_small: "unat v < 2 ^ k \<Longrightarrow> drop_bit k v = (0 :: 'a::len word)"
  by (simp add: word_unat_eq_iff unat_drop_bit)

lemma take_bit_small: "unat v < 2 ^ k \<Longrightarrow> take_bit k v = (v :: 'a::len word)"
  by (simp add: word_unat_eq_iff unat_take_bit)

lemma from_be_bytes_Cons:
  "from_be_bytes (b # bs) = push_bit (8 * length bs) (ucast b) OR from_be_bytes bs"
  by (induction bs rule: rev_induct)
    (simp_all add: from_be_bytes_def push_bit_or or.assoc flip: append_Cons)

lemma bit_from_be_bytes_bound: "bit (from_be_bytes bs) n \<Longrightarrow> n < 8 * length bs"
proof (induction bs arbitrary: n rule: rev_induct)
  case Nil
  then show ?case by (simp add: from_be_bytes_def)
next
  case (snoc b bs)
  then show ?case
    by (fastforce simp: from_be_bytes_snoc bit_simps dest: bit_imp_le_length)
qed

lemma to_from_be_bytes:
  "8 * length bs \<le> LENGTH('a) \<Longrightarrow> to_be_bytes (length bs) (from_be_bytes bs :: 'a::len word) = bs"
proof (induction bs rule: rev_induct)
  case (snoc b bs)
  let ?x = "from_be_bytes bs :: 'a word"
  have low: "bit ?x k \<Longrightarrow> k + 8 < LENGTH('a)" for k
    using bit_from_be_bytes_bound [of bs k, where 'a = 'a] snoc.prems by simp
  have "drop_bit 8 (push_bit 8 ?x OR ucast b) = ?x"
    by (rule bit_word_eqI) (auto simp: bit_simps dest: low bit_imp_le_length)
  moreover have "(ucast (push_bit 8 ?x OR ucast b) :: u8) = b"
    using snoc.prems by (intro bit_word_eqI) (auto simp: bit_simps dest: bit_imp_le_length)
  ultimately show ?case
    using snoc by (simp add: from_be_bytes_snoc)
qed simp

lemma from_be_bytes_inj:
  "from_be_bytes bs = (from_be_bytes cs :: 'a::len word) \<Longrightarrow> length bs = length cs \<Longrightarrow>
     8 * length bs \<le> LENGTH('a) \<Longrightarrow> bs = cs"
  by (metis to_from_be_bytes)

text \<open>The two top bits of the first byte are the two top bits of the word.\<close>

lemma first_byte_top_bits:
  "unat (drop_bit 6 (to_be_bytes (Suc n) w ! 0)) = unat (drop_bit (8 * n + 6) w) mod 4"
proof -
  have mod_div: "a mod 256 div 64 = a div 64 mod 4" for a :: nat
    using mod_mult2_eq [of a 64 4] by simp
  have "unat (drop_bit 6 (to_be_bytes (Suc n) w ! 0)) = (unat w div 2 ^ (8 * n)) mod 256 div 64"
    unfolding nth_to_be_bytes_0 by (simp add: unat_drop_bit unat_ucast_mod)
  also have "\<dots> = (unat w div 2 ^ (8 * n)) div 64 mod 4"
    by (rule mod_div)
  also have "\<dots> = unat (drop_bit (8 * n + 6) w) mod 4"
    by (simp add: unat_drop_bit power_add div_mult2_eq)
  finally show ?thesis .
qed

section \<open>UTF-8\<close>

text \<open>The byte sequences that \<open>String::from_utf8\<close> accepts (Unicode, table 3-7: no overlong forms,
  no surrogates, nothing above \<open>U+10FFFF\<close>). A \<open>String\<close> is a byte sequence that satisfies it.\<close>

definition in_range :: "u8 \<Rightarrow> u8 \<Rightarrow> u8 \<Rightarrow> bool" where
  "in_range lo hi b \<longleftrightarrow> lo \<le> b \<and> b \<le> hi"

fun utf8_valid :: "bytes \<Rightarrow> bool" where
  "utf8_valid [] = True"
| "utf8_valid (b # bs) =
     (if b < 0x80 then utf8_valid bs
      else if in_range 0xc2 0xdf b then
        (case bs of c # cs \<Rightarrow> in_range 0x80 0xbf c \<and> utf8_valid cs | _ \<Rightarrow> False)
      else if in_range 0xe0 0xef b then
        (case bs of c # d # ds \<Rightarrow>
           in_range (if b = 0xe0 then 0xa0 else 0x80) (if b = 0xed then 0x9f else 0xbf) c
           \<and> in_range 0x80 0xbf d \<and> utf8_valid ds
         | _ \<Rightarrow> False)
      else if in_range 0xf0 0xf4 b then
        (case bs of c # d # e # es \<Rightarrow>
           in_range (if b = 0xf0 then 0x90 else 0x80) (if b = 0xf4 then 0x8f else 0xbf) c
           \<and> in_range 0x80 0xbf d \<and> in_range 0x80 0xbf e \<and> utf8_valid es
         | _ \<Rightarrow> False)
      else False)"

end
