(* ===== verification/Protocol_Error.thy ===== *)
theory Protocol_Error
  imports Prelude
begin

text \<open>
  The error values of the crate \<open>udp-protocol\<close>: \<open>ProtocolError\<close> of \<open>error.rs\<close> and the
  \<open>ReplayError\<close> and \<open>CryptoError\<close> of \<open>crypto.rs\<close> that it wraps. The constructors and
  their payloads are those of the enums; \<open>&'static str\<close> payloads are strings.
\<close>

datatype replay_error = Duplicate | TooOld

datatype crypto_error =
    RandomnessUnavailable
  | InvalidPeerPublicKey
  | InvalidSharedSecret
  | KeyDerivationFailed
  | AuthenticationFailed
  | Replay replay_error
  | EncryptedPayloadTooShort

datatype protocol_error =
    DatagramTooShort usize usize
  | DatagramTooLarge usize usize
  | InvalidMagic u16 u16
  | UnsupportedVersion u8
  | InvalidPacketType u8
  | InvalidFlags u16
  | InvalidHeaderLength usize usize
  | PayloadLengthMismatch usize usize
  | ChecksumMismatch u32 u32
  | EmptyPacket
  | TooManyFrames usize
  | UnknownFrameType u8
  | FrameTooLarge usize usize
  | Truncated string
  | VarIntOverflow
  | InvalidVarIntLength usize
  | InvalidValue string
  | InvalidAckRanges
  | AckRangeCountExceeded usize
  | InvalidUtf8 string
  | EncryptedPacketRequiresKeys
  | EncryptionNotAllowed
  | Crypto crypto_error

end
