(* ===== verification/Varint.thy ===== *)
theory Varint
  imports Protocol_Error
begin

unbundle bit_operations_syntax

text \<open>
  The QUIC-style variable-length integers of \<open>udp-protocol/src/varint.rs\<close>. The two top bits of
  the first byte select a length of 1, 2, 4 or 8 bytes; values are limited to 62 bits. An encoder
  appends to an output buffer and returns the longer buffer; a decoder reads at an offset and
  returns the value with the advanced offset. Callers drop the buffer when an encoder fails.
\<close>

section \<open>Model\<close>

definition MAX_VALUE :: u64 where
  "MAX_VALUE = push_bit 62 1 - 1"

definition encoded_len :: "u64 \<Rightarrow> protocol_error + usize" where
  "encoded_len value =
     (if value \<le> 0x3f then Inr 1
      else if value \<le> 0x3fff then Inr 2
      else if value \<le> 0x3fffffff then Inr 4
      else if value \<le> MAX_VALUE then Inr 8
      else Inl VarIntOverflow)"

definition varint_encode :: "u64 \<Rightarrow> bytes \<Rightarrow> protocol_error + bytes" where
  "varint_encode value output =
     and_then (encoded_len value) (\<lambda>len.
       if len = 1 then Inr (output @ [ucast value])
       else if len = 2 then Inr (output @ to_be_bytes 2 ((ucast value :: u16) OR 0x4000))
       else if len = 4 then Inr (output @ to_be_bytes 4 ((ucast value :: u32) OR 0x80000000))
       else if len = 8 then Inr (output @ to_be_bytes 8 (value OR 0xc000000000000000))
       else Inl (InvalidVarIntLength len))"

definition varint_decode :: "bytes \<Rightarrow> usize \<Rightarrow> protocol_error + u64 \<times> usize" where
  "varint_decode input offset =
     and_then (ok_or (Truncated ''varint'') (get input offset)) (\<lambda>first.
     let len = 2 ^ unat (drop_bit 6 first) in
     and_then (ok_or VarIntOverflow (checked_add_usize offset len)) (\<lambda>stop.
     and_then (ok_or (Truncated ''varint'') (slice input offset stop)) (\<lambda>bs.
     and_then
       (if len = 1 then Inr (ucast (bs ! 0 AND 0x3f))
        else if len = 2 then Inr (ucast (from_be_bytes [bs ! 0, bs ! 1] AND (0x3fff :: u16)))
        else if len = 4 then
          Inr (ucast (from_be_bytes [bs ! 0, bs ! 1, bs ! 2, bs ! 3] AND (0x3fffffff :: u32)))
        else if len = 8 then
          Inr (from_be_bytes [bs ! 0 AND 0x3f, bs ! 1, bs ! 2, bs ! 3, bs ! 4, bs ! 5, bs ! 6, bs ! 7])
        else Inl (InvalidVarIntLength len)) (\<lambda>value.
     Inr (value, stop)))))"

section \<open>What the encoder writes\<close>

definition varint_bytes :: "u64 \<Rightarrow> bytes" where
  "varint_bytes v =
     (if v \<le> 0x3f then [ucast v]
      else if v \<le> 0x3fff then to_be_bytes 2 ((ucast v :: u16) OR 0x4000)
      else if v \<le> 0x3fffffff then to_be_bytes 4 ((ucast v :: u32) OR 0x80000000)
      else to_be_bytes 8 (v OR 0xc000000000000000))"

lemma MAX_VALUE_nat: "unat MAX_VALUE = 2 ^ 62 - 1"
  by (simp add: MAX_VALUE_def)

lemma varint_encode_eq:
  "varint_encode v out =
     (if v \<le> MAX_VALUE then Inr (out @ varint_bytes v) else Inl VarIntOverflow)"
proof (cases "v \<le> 0x3fffffff")
  case True
  then have "v \<le> MAX_VALUE"
    by (rule order_trans) (simp add: MAX_VALUE_def)
  then show ?thesis
    by (simp add: varint_encode_def encoded_len_def varint_bytes_def)
next
  case False
  then have "\<not> v \<le> 0x3f" "\<not> v \<le> 0x3fff"
    by (auto simp: word_le_nat_alt)
  with False show ?thesis
    by (simp add: varint_encode_def encoded_len_def varint_bytes_def)
qed

lemma length_varint_bytes:
  "length (varint_bytes v) \<in> {1, 2, 4, 8}"
  by (simp add: varint_bytes_def)



section \<open>Round trip\<close>

lemma varint_decode_at:
  assumes len: "length bs = 2 ^ unat (drop_bit 6 (bs ! 0))"
    and fits: "length pre + length bs < usize_limit"
  shows "varint_decode (pre @ bs @ post) (length pre) =
    and_then
       (if length bs = 1 then Inr (ucast (bs ! 0 AND 0x3f))
        else if length bs = 2 then Inr (ucast (from_be_bytes bs AND (0x3fff :: u16)))
        else if length bs = 4 then Inr (ucast (from_be_bytes bs AND (0x3fffffff :: u32)))
        else if length bs = 8 then Inr (from_be_bytes ((bs ! 0 AND 0x3f) # tl bs))
        else Inl (InvalidVarIntLength (length bs)))
       (\<lambda>value. Inr (value, length pre + length bs))"
proof -
  have "bs \<noteq> []"
    using len by auto
  then have first: "get (pre @ bs @ post) (length pre) = Some (bs ! 0)"
    by (cases bs) auto
  have "length bs = 2 \<Longrightarrow> [bs ! 0, bs ! 1] = bs"
    by (auto simp: numeral_2_eq_2 length_Suc_conv)
  moreover have "length bs = 4 \<Longrightarrow> [bs ! 0, bs ! 1, bs ! 2, bs ! 3] = bs"
    by (auto simp: numeral_eq_Suc length_Suc_conv)
  moreover have "length bs = 8 \<Longrightarrow> [bs ! 1, bs ! 2, bs ! 3, bs ! 4, bs ! 5, bs ! 6, bs ! 7] = tl bs"
    by (auto simp: numeral_eq_Suc length_Suc_conv)
  ultimately show ?thesis
    unfolding varint_decode_def first ok_or_simps and_then_simps Let_def len [symmetric]
    using fits by (simp add: checked_add_usize_def)
qed

lemma AND_mask:
  "w1 AND 0x3f = take_bit 6 (w1 :: u8)"
  "w2 AND 0x3fff = take_bit 14 (w2 :: u16)"
  "w4 AND 0x3fffffff = take_bit 30 (w4 :: u32)"
  by (simp_all add: take_bit_eq_mask mask_eq_exp_minus_1)

lemma varint_tag:
  assumes "v \<le> MAX_VALUE"
  shows "unat (drop_bit 6 (varint_bytes v ! 0)) =
    (if v \<le> 0x3f then 0 else if v \<le> 0x3fff then 1 else if v \<le> 0x3fffffff then 2 else 3)"
proof -
  have "unat v < 2 ^ 6 \<Longrightarrow> drop_bit 6 (ucast v :: u8) = 0"
    by (rule drop_bit_small) (simp add: unat_ucast_mod)
  moreover have "unat v < 2 ^ 14 \<Longrightarrow> drop_bit 14 ((ucast v :: u16) OR 0x4000) = 1"
    using drop_bit_small [of "ucast v :: u16" 14] by (simp add: drop_bit_or unat_ucast_mod)
  moreover have "unat v < 2 ^ 30 \<Longrightarrow> drop_bit 30 ((ucast v :: u32) OR 0x80000000) = 2"
    using drop_bit_small [of "ucast v :: u32" 30] by (simp add: drop_bit_or unat_ucast_mod)
  moreover have "drop_bit 62 (v OR 0xc000000000000000) = 3"
    using assms drop_bit_small [of v 62] by (simp add: drop_bit_or word_le_nat_alt MAX_VALUE_nat)
  ultimately show ?thesis
    using first_byte_top_bits [of 1 "(ucast v :: u16) OR 0x4000"]
      first_byte_top_bits [of 3 "(ucast v :: u32) OR 0x80000000"]
      first_byte_top_bits [of 7 "v OR 0xc000000000000000"]
    by (auto simp: varint_bytes_def word_le_nat_alt numeral_2_eq_2 [symmetric]
        simp del: to_be_bytes.simps drop_bit_or)
qed

lemma from_be_bytes_mask_first:
  assumes "length bs = 8"
  shows "from_be_bytes (take_bit 6 (bs ! 0) # tl bs) = (take_bit 62 (from_be_bytes bs) :: u64)"
proof -
  obtain b t where bs: "bs = b # t" and t: "length t = 7"
    using assms by (cases bs) auto
  show ?thesis
    by (rule bit_eqI)
      (auto simp: bs from_be_bytes_Cons t bit_simps dest: bit_from_be_bytes_bound bit_imp_le_length)
qed

lemma varint_decode_bytes:
  assumes v: "v \<le> MAX_VALUE" and fits: "length pre + length (varint_bytes v) < usize_limit"
  shows "varint_decode (pre @ varint_bytes v @ post) (length pre) =
    Inr (v, length pre + length (varint_bytes v))"
proof -
  have len: "length (varint_bytes v) = 2 ^ unat (drop_bit 6 (varint_bytes v ! 0))"
    unfolding varint_tag [OF v] by (simp add: varint_bytes_def)
  have 1: "unat v < 2 ^ 6 \<Longrightarrow> ucast (take_bit 6 (ucast v :: u8)) = v"
    by (simp add: word_unat_eq_iff unat_ucast_mod unat_take_bit)
  have 2: "unat v < 2 ^ 14 \<Longrightarrow> ucast (take_bit 14 ((ucast v :: u16) OR 0x4000)) = v"
    by (simp add: word_unat_eq_iff unat_ucast_mod take_bit_or unat_take_bit)
  have 4: "unat v < 2 ^ 30 \<Longrightarrow> ucast (take_bit 30 ((ucast v :: u32) OR 0x80000000)) = v"
    by (simp add: word_unat_eq_iff unat_ucast_mod take_bit_or unat_take_bit)
  have "take_bit 62 (v OR 0xc000000000000000) = v"
    using v take_bit_small [of v 62] by (simp add: take_bit_or word_le_nat_alt MAX_VALUE_nat)
  with 1 2 4 show ?thesis
    unfolding varint_decode_at [OF len fits] AND_mask
    by (auto simp: varint_bytes_def word_le_nat_alt from_be_bytes_mask_first
        simp del: to_be_bytes.simps take_bit_or)
qed

section \<open>What the decoder accepts\<close>

lemma bits_below_le:
  assumes "\<And>n. bit v n \<Longrightarrow> n < k" "k < LENGTH('a)"
  shows "unat (v :: 'a::len word) < 2 ^ k"
proof -
  have "take_bit k v = v"
    using assms(1) by (auto intro!: bit_eqI simp: bit_simps)
  then have "unat v mod 2 ^ k = unat v"
    by (metis unat_take_bit)
  then show ?thesis
    by (metis mod_less_divisor zero_less_numeral zero_less_power)
qed

lemma from_be_bytes_masked_le: "from_be_bytes ((b AND 0x3f) # bs) \<le> MAX_VALUE"
  if "length bs = 7"
proof -
  have "n < 62" if "bit (from_be_bytes (take_bit 6 b # bs) :: u64) n" for n
    using that \<open>length bs = 7\<close>
    by (fastforce simp: from_be_bytes_Cons bit_simps dest: bit_from_be_bytes_bound)
  then have "unat (from_be_bytes (take_bit 6 b # bs) :: u64) < 2 ^ 62"
    by (rule bits_below_le) simp_all
  then show ?thesis
    by (simp add: AND_mask word_le_nat_alt MAX_VALUE_nat)
qed

lemma varint_decode_ok:
  assumes "varint_decode input offset = Inr (v, stop)"
  shows "v \<le> MAX_VALUE" "offset < stop" "stop \<le> length input"
proof -
  show "offset < stop" "stop \<le> length input"
    using assms
    by (auto simp: varint_decode_def Let_def result_simps checked_add_usize_def split: if_splits)
  have "ucast (w1 AND 0x3f :: u8) \<le> MAX_VALUE" "ucast (w2 AND 0x3fff :: u16) \<le> MAX_VALUE"
    "ucast (w4 AND 0x3fffffff :: u32) \<le> MAX_VALUE" for w1 w2 w4
    by (simp_all add: AND_mask word_le_nat_alt MAX_VALUE_nat unat_ucast_mod unat_take_bit)
  then show "v \<le> MAX_VALUE"
    using assms from_be_bytes_masked_le
    by (auto simp: varint_decode_def Let_def result_simps split: if_splits)
qed

section \<open>Properties\<close>

text \<open>Variable-length integers: encoding succeeds exactly for values below \<open>2 ^ 62\<close>, uses 1, 2, 4 or
  8 bytes, and decoding at the place of the encoding gives the value back and stops right behind it,
  whatever surrounds it.\<close>

theorem varint_round_trip:
  assumes "length out + 8 < usize_limit"
  shows "case varint_encode v out of
       Inr buf \<Rightarrow> unat v < 2 ^ 62 \<and> length buf - length out \<in> {1, 2, 4, 8}
         \<and> varint_decode (buf @ rest) (length out) = Inr (v, length buf)
     | Inl e \<Rightarrow> e = VarIntOverflow \<and> unat v \<ge> 2 ^ 62"
proof (cases "v \<le> MAX_VALUE")
  case True
  have len: "length (varint_bytes v) \<in> {1, 2, 4, 8}"
    by (rule length_varint_bytes)
  then have "length out + length (varint_bytes v) < usize_limit"
    using assms by auto
  with True len varint_decode_bytes [of v out rest] show ?thesis
    by (simp add: varint_encode_eq word_le_nat_alt MAX_VALUE_nat)
qed (simp add: varint_encode_eq word_le_nat_alt MAX_VALUE_nat)

theorem varint_round_trip_witness:
  "varint_decode ([9] @ [0x7f, 0xff] @ [1, 2]) 1 = Inr (0x3fff, 3)"
proof -
  have "varint_encode 0x3fff [9] = Inr [9, 0x7f, 0xff]"
    by (simp add: varint_encode_def encoded_len_def to_be_bytes_2)
  with varint_round_trip [of "[9]" "0x3fff" "[1, 2]"] show ?thesis
    by (simp add: usize_limit_def)
qed

end
