(* ===== verification/Cursor.thy ===== *)
theory Cursor
  imports Prelude
begin

text \<open>
  Reading and writing with a cursor, for the codecs of both protocols. A \<open>Reader\<close> of the sources holds an
  input slice, which never changes, and an offset. A reader is therefore a function of the slice and the
  offset that returns the value read with the new offset; a failing reader leaves the cursor unused, since
  every caller returns the error at once. A writer appends to the output or fails.

  The locale \<open>safe_decoder\<close> states what a reader promises about its cursor and its values; \<open>wire_codec\<close> adds
  that it reads back what its writer wrote, whatever surrounds it. Every pair of the protocols interprets
  them.
\<close>

section \<open>Sequencing\<close>

type_synonym ('e, 'a) reader = "bytes \<Rightarrow> usize \<Rightarrow> 'e + 'a \<times> usize"
type_synonym ('e, 'a) writer = "'a \<Rightarrow> bytes \<Rightarrow> 'e + bytes"

definition then_read :: "('e, 'a) reader \<Rightarrow> ('a \<Rightarrow> ('e, 'b) reader) \<Rightarrow> ('e, 'b) reader" where
  "then_read d f = (\<lambda>input offset. and_then (d input offset) (\<lambda>(x, offset'). f x input offset'))"

definition return_read :: "'a \<Rightarrow> ('e, 'a) reader" where
  "return_read x = (\<lambda>input offset. Inr (x, offset))"

definition lift_read :: "'e + 'a \<Rightarrow> ('e, 'a) reader" where
  "lift_read r = (\<lambda>input offset. and_then r (\<lambda>x. Inr (x, offset)))"

definition map_read :: "('a \<Rightarrow> 'b) \<Rightarrow> ('e, 'a) reader \<Rightarrow> ('e, 'b) reader" where
  "map_read g d = then_read d (\<lambda>x. return_read (g x))"

section \<open>What a decoder reads\<close>

text \<open>\<open>reads d bs x\<close>: placed anywhere in an input, the bytes \<open>bs\<close> are read by \<open>d\<close> as \<open>x\<close>,
  and exactly they are consumed.\<close>

definition reads :: "('e, 'a) reader \<Rightarrow> bytes \<Rightarrow> 'a \<Rightarrow> bool" where
  "reads d bs x \<longleftrightarrow>
     (\<forall>pre post. length pre + length bs < usize_limit \<longrightarrow>
        d (pre @ bs @ post) (length pre) = Inr (x, length pre + length bs))"

lemma readsI:
  "(\<And>pre post. length pre + length bs < usize_limit \<Longrightarrow>
     d (pre @ bs @ post) (length pre) = Inr (x, length pre + length bs)) \<Longrightarrow> reads d bs x"
  by (simp add: reads_def)

lemma readsD:
  "reads d bs x \<Longrightarrow> length pre + length bs < usize_limit \<Longrightarrow>
     d (pre @ bs @ post) (length pre) = Inr (x, length pre + length bs)"
  by (simp add: reads_def)

lemma reads_return [intro]: "reads (return_read x) [] x"
  by (rule readsI) (simp add: return_read_def)

lemma reads_lift [intro]: "reads (lift_read (Inr x)) [] x"
  by (rule readsI) (simp add: lift_read_def)

lemma reads_then [intro]:
  assumes d: "reads d bs x" and f: "reads (f x) cs y"
  shows "reads (then_read d f) (bs @ cs) y"
proof (rule readsI)
  fix pre post :: bytes
  assume len: "length pre + length (bs @ cs) < usize_limit"
  have "d (pre @ bs @ cs @ post) (length pre) = Inr (x, length pre + length bs)"
    using readsD [OF d, of pre "cs @ post"] len by simp
  moreover have "f x ((pre @ bs) @ cs @ post) (length (pre @ bs)) =
      Inr (y, length (pre @ bs) + length cs)"
    by (rule readsD [OF f]) (use len in simp)
  ultimately show "then_read d f (pre @ (bs @ cs) @ post) (length pre) =
      Inr (y, length pre + length (bs @ cs))"
    by (simp add: then_read_def)
qed

lemma reads_map: "reads d bs x \<Longrightarrow> reads (then_read d (\<lambda>x. return_read (g x))) bs (g x)"
  using reads_then [of d bs x "\<lambda>x. return_read (g x)" "[]" "g x"] by auto

lemma reads_map_read: "reads d bs x \<Longrightarrow> reads (map_read g d) bs (g x)"
  by (simp add: map_read_def reads_map)

section \<open>What a decoder promises\<close>

text \<open>\<open>safe_read d P\<close>: a successful read moves the cursor forward, never beyond the input, and
  its value satisfies \<open>P\<close>.\<close>

definition safe_read :: "('e, 'a) reader \<Rightarrow> ('a \<Rightarrow> bool) \<Rightarrow> bool" where
  "safe_read d P \<longleftrightarrow>
     (\<forall>input offset x offset'. offset \<le> length input \<longrightarrow> d input offset = Inr (x, offset') \<longrightarrow>
        offset \<le> offset' \<and> offset' \<le> length input \<and> P x)"

lemma safe_readI:
  assumes "\<And>input offset x offset'. offset \<le> length input \<Longrightarrow> d input offset = Inr (x, offset') \<Longrightarrow>
     offset \<le> offset' \<and> offset' \<le> length input \<and> P x"
  shows "safe_read d P"
  unfolding safe_read_def using assms by blast

lemma safe_readD:
  assumes "safe_read d P" "offset \<le> length input" "d input offset = Inr (x, offset')"
  shows "offset \<le> offset'" "offset' \<le> length input" "P x"
  using assms unfolding safe_read_def by blast+

lemma safe_read_mono: "safe_read d P \<Longrightarrow> (\<And>x. P x \<Longrightarrow> Q x) \<Longrightarrow> safe_read d Q"
  unfolding safe_read_def by blast

lemma safe_return: "P x \<Longrightarrow> safe_read (return_read x) P"
  by (rule safe_readI) (simp add: return_read_def)

lemma safe_lift: "(\<And>x. r = Inr x \<Longrightarrow> P x) \<Longrightarrow> safe_read (lift_read r) P"
  by (rule safe_readI) (auto simp: lift_read_def result_simps)

lemma safe_then:
  assumes "safe_read d P" and "\<And>x. P x \<Longrightarrow> safe_read (f x) Q"
  shows "safe_read (then_read d f) Q"
proof (rule safe_readI)
  fix input offset y offset''
  assume off: "offset \<le> length input" and r: "then_read d f input offset = Inr (y, offset'')"
  then obtain x offset' where d: "d input offset = Inr (x, offset')"
    and f: "f x input offset' = Inr (y, offset'')"
    by (auto simp: then_read_def result_simps)
  note 1 = safe_readD [OF assms(1) off d]
  note 2 = safe_readD [OF assms(2) [OF 1(3)] 1(2) f]
  show "offset \<le> offset'' \<and> offset'' \<le> length input \<and> Q y"
    using 1 2 by linarith
qed

lemma safe_map_read: "safe_read d P \<Longrightarrow> (\<And>x. P x \<Longrightarrow> Q (g x)) \<Longrightarrow> safe_read (map_read g d) Q"
  unfolding map_read_def by (erule safe_then) (simp add: safe_return)

section \<open>Loops over a sequence of fields\<close>

text \<open>\<open>for x in xs { write(x, output)?; }\<close> and \<open>for _ in 0..n { xs.push(read(input, offset)?); }\<close>.\<close>

primrec write_all :: "('e, 'a) writer \<Rightarrow> ('e, 'a list) writer" where
  "write_all w [] output = Inr output"
| "write_all w (x # xs) output = and_then (w x output) (\<lambda>output. write_all w xs output)"

primrec read_many :: "('e, 'a) reader \<Rightarrow> nat \<Rightarrow> ('e, 'a list) reader" where
  "read_many d 0 = return_read []"
| "read_many d (Suc n) =
     then_read d (\<lambda>x. then_read (read_many d n) (\<lambda>xs. return_read (x # xs)))"

section \<open>Interfaces\<close>

locale safe_decoder =
  fixes dec :: "('e, 'a) reader" and valid :: "'a \<Rightarrow> bool"
  assumes safe: "safe_read dec valid"
begin

lemma decoded_valid: "dec input 0 = Inr (x, stop) \<Longrightarrow> valid x \<and> stop \<le> length input"
  using safe_readD [OF safe, of 0 input x stop] by simp

lemma safe_many: "safe_read (read_many dec n) (\<lambda>xs. length xs = n \<and> (\<forall>x \<in> set xs. valid x))"
proof (induction n)
  case 0
  then show ?case by (simp add: safe_return)
next
  case (Suc n)
  show ?case
    unfolding read_many.simps
    by (rule safe_then [OF safe], rule safe_then [OF Suc]) (auto intro!: safe_return)
qed

end

locale wire_codec = safe_decoder +
  fixes enc :: "('e, 'a) writer"
  assumes write_reads:
    "valid x \<Longrightarrow> enc x out = Inr buf \<Longrightarrow> \<exists>bs. buf = out @ bs \<and> reads dec bs x"
begin

lemma round_trip:
  assumes "valid x" "enc x [] = Inr bs" "length bs < usize_limit"
  shows "dec bs 0 = Inr (x, length bs)"
proof -
  from write_reads [OF assms(1,2)] have "reads dec bs x"
    by auto
  from readsD [OF this, of "[]" "[]"] assms(3) show ?thesis
    by simp
qed

lemma write_injective:
  assumes "valid x" "valid y" "enc x [] = Inr bs" "enc y [] = Inr bs" "length bs < usize_limit"
  shows "x = y"
  using round_trip [OF assms(1,3,5)] round_trip [OF assms(2,4,5)] by simp

lemma write_all_reads:
  assumes "\<forall>x \<in> set xs. valid x" "write_all enc xs out = Inr buf"
  shows "\<exists>bs. buf = out @ bs \<and> reads (read_many dec (length xs)) bs xs"
  using assms
proof (induction xs arbitrary: out)
  case Nil
  then show ?case
    by (auto intro: exI [of _ "[]"])
next
  case (Cons x xs)
  then obtain out1 where "enc x out = Inr out1" and rest: "write_all enc xs out1 = Inr buf"
    by (auto simp: result_simps)
  then obtain b where b: "out1 = out @ b" "reads dec b x"
    using write_reads Cons.prems(1) by force
  obtain c where c: "buf = out1 @ c" "reads (read_many dec (length xs)) c xs"
    using Cons.IH [OF _ rest] Cons.prems(1) by auto
  have "reads (read_many dec (length (x # xs))) (b @ c) (x # xs)"
    using reads_then [OF b(2) reads_map [OF c(2)]] by simp
  with b c show ?case
    by auto
qed

end

end
