(* ===== verification/Wire.thy ===== *)
theory Wire
  imports Varint Cursor
begin

text \<open>
  The wire fields of the transport: the cursor \<open>Reader\<close> and \<open>write_blob\<close> of \<open>udp-protocol/src/frame.rs\<close>, over
  the combinators of \<open>Cursor\<close>. The variable-length integer is the first interpretation of its interface.
\<close>

type_synonym 'a decoder = "(protocol_error, 'a) reader"
type_synonym 'a encoder = "(protocol_error, 'a) writer"

section \<open>The reader\<close>

definition read_exact :: "usize \<Rightarrow> string \<Rightarrow> bytes decoder" where
  "read_exact len ctxt input offset =
     and_then (ok_or (Truncated ctxt) (checked_add_usize offset len)) (\<lambda>stop.
     and_then (ok_or (Truncated ctxt) (slice input offset stop)) (\<lambda>bs.
     Inr (bs, stop)))"

definition read_u8 :: "u8 decoder" where
  "read_u8 input offset =
     and_then (ok_or (Truncated ''frame'') (get input offset)) (\<lambda>byte.
     Inr (byte, offset + 1))"

definition read_u16 :: "u16 decoder" where
  "read_u16 = then_read (read_exact 2 ''u16'') (\<lambda>bs. return_read (from_be_bytes bs))"

definition read_u32 :: "u32 decoder" where
  "read_u32 = then_read (read_exact 4 ''u32'') (\<lambda>bs. return_read (from_be_bytes bs))"

definition read_u64 :: "u64 decoder" where
  "read_u64 = then_read (read_exact 8 ''u64'') (\<lambda>bs. return_read (from_be_bytes bs))"

definition read_varint :: "u64 decoder" where
  "read_varint input offset = varint_decode input offset"

definition read_array :: "nat \<Rightarrow> bytes decoder" where
  "read_array n = read_exact n ''fixed-size field''"

text \<open>On a 64-bit target \<open>usize::try_from(length)\<close> succeeds for every \<open>u64\<close>.\<close>

definition read_blob :: "usize \<Rightarrow> string \<Rightarrow> bytes decoder" where
  "read_blob maximum ctxt =
     then_read read_varint (\<lambda>len.
     if unat len > maximum then lift_read (Inl (FrameTooLarge maximum (unat len)))
     else read_exact (unat len) ctxt)"

definition reader_finish :: "unit decoder" where
  "reader_finish input offset =
     (if offset = length input then Inr ((), offset)
      else Inl (InvalidValue ''trailing frame bytes''))"

definition write_bytes :: "bytes encoder" where
  "write_bytes bs output = Inr (output @ bs)"

definition write_blob :: "usize \<Rightarrow> bytes encoder" where
  "write_blob maximum bs output =
     (if length bs > maximum then Inl (FrameTooLarge maximum (length bs))
      else and_then (varint_encode (of_nat (length bs)) output) (\<lambda>output.
        Inr (output @ bs)))"

section \<open>What the fields read and promise\<close>

lemma reads_varint [intro]:
  "v \<le> MAX_VALUE \<Longrightarrow> reads read_varint (varint_bytes v) v"
  by (rule readsI) (simp add: read_varint_def varint_decode_bytes)

lemma reads_exact [intro]: "n = length bs \<Longrightarrow> reads (read_exact n ctxt) bs bs"
  by (rule readsI) (simp add: read_exact_def checked_add_usize_def)

lemma reads_array [intro]: "n = length bs \<Longrightarrow> reads (read_array n) bs bs"
  by (simp add: read_array_def reads_exact)

lemma reads_u8 [intro]: "reads read_u8 [b] b"
  by (rule readsI) (simp add: read_u8_def)

lemma reads_words [intro]:
  "reads read_u16 (to_be_bytes 2 w) w"
  "reads read_u32 (to_be_bytes 4 x) x"
  "reads read_u64 (to_be_bytes 8 y) y"
  unfolding read_u16_def read_u32_def read_u64_def
  using reads_map [OF reads_exact [of 2 "to_be_bytes 2 w" "''u16''"], of "from_be_bytes :: _ \<Rightarrow> u16"]
    reads_map [OF reads_exact [of 4 "to_be_bytes 4 x" "''u32''"], of "from_be_bytes :: _ \<Rightarrow> u32"]
    reads_map [OF reads_exact [of 8 "to_be_bytes 8 y" "''u64''"], of "from_be_bytes :: _ \<Rightarrow> u64"]
  by (simp_all del: to_be_bytes.simps)

lemma reads_blob [intro]:
  assumes "length bs \<le> maximum" "length bs < 2 ^ 62"
  shows "reads (read_blob maximum ctxt) (varint_bytes (of_nat (length bs)) @ bs) bs"
proof -
  have n: "unat (of_nat (length bs) :: u64) = length bs"
    using assms by (simp add: unat_of_nat)
  then have "(of_nat (length bs) :: u64) \<le> MAX_VALUE"
    using assms by (simp add: word_le_nat_alt MAX_VALUE_nat)
  then show ?thesis
    unfolding read_blob_def using assms n by (intro reads_then reads_varint) auto
qed

lemmas reads_rules =
  reads_then reads_return reads_lift reads_varint reads_array reads_u8 reads_words reads_blob

lemma safe_exact: "safe_read (read_exact n ctxt) (\<lambda>bs. length bs = n)"
  by (rule safe_readI)
    (auto simp: read_exact_def result_simps checked_add_usize_def split: if_splits)

lemma safe_array: "safe_read (read_array n) (\<lambda>bs. length bs = n)"
  by (simp add: read_array_def safe_exact)

lemma safe_u8: "safe_read read_u8 (\<lambda>_. True)"
  by (rule safe_readI) (auto simp: read_u8_def result_simps)

lemma safe_words:
  "safe_read read_u16 (\<lambda>_. True)" "safe_read read_u32 (\<lambda>_. True)" "safe_read read_u64 (\<lambda>_. True)"
  unfolding read_u16_def read_u32_def read_u64_def
  by (rule safe_then [OF safe_exact] safe_return TrueI)+

lemma safe_varint: "safe_read read_varint (\<lambda>v. v \<le> MAX_VALUE)"
  by (rule safe_readI) (auto simp: read_varint_def dest: varint_decode_ok)

lemma safe_blob: "safe_read (read_blob maximum ctxt) (\<lambda>bs. length bs \<le> maximum)"
  unfolding read_blob_def
  by (rule safe_then [OF safe_varint])
    (auto intro: safe_lift safe_read_mono [OF safe_exact])

lemmas safe_rules =
  safe_then safe_array safe_u8 safe_words safe_varint safe_blob safe_lift safe_return

interpretation varint: wire_codec read_varint "\<lambda>v. v \<le> MAX_VALUE" varint_encode
  by unfold_locales (auto simp: safe_varint varint_encode_eq)

end
