(* ===== verification/Ack.thy ===== *)
theory Ack
  imports Wire "HOL-Library.Product_Lexorder" "HOL-Library.Multiset"
begin

text \<open>
  Acknowledgement ranges and the ACK frame, \<open>udp-protocol/src/ack.rs\<close>. A range is a closed
  interval of packet numbers; a range set is kept in strictly descending order with at least one
  missing number between neighbours. The wire codec of the frame is shown to be inverse, and the
  constructors to accept exactly the canonical lists.
\<close>

section \<open>Model\<close>

type_synonym packet_number = u64

definition MAX_ACK_RANGES :: usize where
  "MAX_ACK_RANGES = 32"

record ack_range =
  range_start :: packet_number
  range_end :: packet_number

definition ack_range_new :: "packet_number \<Rightarrow> packet_number \<Rightarrow> protocol_error + ack_range" where
  "ack_range_new s e =
     (if s > e then Inl InvalidAckRanges else Inr \<lparr>range_start = s, range_end = e\<rparr>)"

definition ack_range_contains :: "ack_range \<Rightarrow> packet_number \<Rightarrow> bool" where
  "ack_range_contains r p \<longleftrightarrow> range_start r \<le> p \<and> p \<le> range_end r"

type_synonym ack_ranges = "ack_range list"

text \<open>\<open>sort_by\<close> with the reversed comparison of \<open>(end, start)\<close>; the key determines the range.\<close>

definition sort_descending :: "ack_range list \<Rightarrow> ack_range list" where
  "sort_descending rs = rev (sort_key (\<lambda>r. (range_end r, range_start r)) rs)"

text \<open>The loop of \<open>from_descending\<close>, with the previous range.\<close>

fun check_descending :: "ack_range option \<Rightarrow> ack_range list \<Rightarrow> protocol_error + unit" where
  "check_descending prev [] = Inr ()"
| "check_descending prev (r # rs) =
     (if range_start r > range_end r then Inl InvalidAckRanges
      else if (case prev of None \<Rightarrow> False
               | Some p \<Rightarrow>
                   range_end r \<ge> range_start p
                   \<or> (range_start p \<noteq> 0 \<and> saturating_add (range_end r) 1 \<ge> range_start p))
      then Inl InvalidAckRanges
      else check_descending (Some r) rs)"

definition from_descending :: "ack_range list \<Rightarrow> protocol_error + ack_ranges" where
  "from_descending rs =
     (if rs = [] \<or> length rs > MAX_ACK_RANGES then
        Inl (if rs = [] then InvalidAckRanges else AckRangeCountExceeded MAX_ACK_RANGES)
      else and_then (check_descending None rs) (\<lambda>_. Inr rs))"

definition ack_ranges_new :: "ack_range list \<Rightarrow> protocol_error + ack_ranges" where
  "ack_ranges_new rs =
     (if rs = [] then Inl InvalidAckRanges else from_descending (sort_descending rs))"

definition ack_ranges_single :: "packet_number \<Rightarrow> ack_ranges" where
  "ack_ranges_single p = [\<lparr>range_start = p, range_end = p\<rparr>]"

text \<open>\<open>self.0[0].end\<close>; the type's constructors never produce an empty list.\<close>

definition ack_ranges_largest :: "ack_ranges \<Rightarrow> packet_number" where
  "ack_ranges_largest rs = range_end (rs ! 0)"

definition ack_ranges_contains :: "ack_ranges \<Rightarrow> packet_number \<Rightarrow> bool" where
  "ack_ranges_contains rs p \<longleftrightarrow> (\<exists>r \<in> set rs. ack_range_contains r p)"

definition ack_range_encode :: "ack_range encoder" where
  "ack_range_encode r output =
     and_then (varint_encode (range_start r) output) (\<lambda>output.
     varint_encode (range_end r) output)"

definition ack_range_decode :: "ack_range decoder" where
  "ack_range_decode =
     then_read read_varint (\<lambda>s.
     then_read read_varint (\<lambda>e.
     return_read \<lparr>range_start = s, range_end = e\<rparr>))"

definition ack_ranges_encode :: "ack_ranges encoder" where
  "ack_ranges_encode rs output =
     (if length rs > MAX_ACK_RANGES then Inl (AckRangeCountExceeded MAX_ACK_RANGES)
      else and_then (varint_encode (of_nat (length rs)) output) (\<lambda>output.
        write_all ack_range_encode rs output))"

definition ack_ranges_decode :: "ack_ranges decoder" where
  "ack_ranges_decode =
     then_read read_varint (\<lambda>count.
     if count = 0 then lift_read (Inl InvalidAckRanges)
     else if unat count > MAX_ACK_RANGES then
       lift_read (Inl (AckRangeCountExceeded MAX_ACK_RANGES))
     else then_read (read_many ack_range_decode (unat count)) (\<lambda>rs.
       lift_read (from_descending rs)))"

record ack_frame =
  ack_largest :: packet_number
  ack_delay :: duration
  ack_ranges :: ack_ranges

definition as_micros :: "duration \<Rightarrow> nat" where
  "as_micros d = d div 1000"

definition from_micros :: "u64 \<Rightarrow> duration" where
  "from_micros m = unat m * 1000"

definition ack_frame_validate :: "ack_frame \<Rightarrow> protocol_error + unit" where
  "ack_frame_validate f =
     (if ack_ranges f = [] \<or> ack_ranges_largest (ack_ranges f) \<noteq> ack_largest f then
        Inl InvalidAckRanges
      else if as_micros (ack_delay f) \<ge> 2 ^ 64 then Inl (InvalidValue ''ack_delay'')
      else Inr ())"

definition ack_frame_new :: "duration \<Rightarrow> ack_ranges \<Rightarrow> protocol_error + ack_frame" where
  "ack_frame_new delay rs =
     (let f = \<lparr>ack_largest = ack_ranges_largest rs, ack_delay = delay, ack_ranges = rs\<rparr>
      in and_then (ack_frame_validate f) (\<lambda>_. Inr f))"

definition ack_frame_encode :: "ack_frame encoder" where
  "ack_frame_encode f output =
     and_then (ack_frame_validate f) (\<lambda>_.
     and_then (varint_encode (ack_largest f) output) (\<lambda>output.
     and_then (varint_encode (of_nat (as_micros (ack_delay f))) output) (\<lambda>output.
     ack_ranges_encode (ack_ranges f) output)))"

definition ack_frame_decode :: "ack_frame decoder" where
  "ack_frame_decode =
     then_read read_varint (\<lambda>largest.
     then_read read_varint (\<lambda>delay_micros.
     then_read ack_ranges_decode (\<lambda>rs.
     let f = \<lparr>ack_largest = largest, ack_delay = from_micros delay_micros, ack_ranges = rs\<rparr>
     in then_read (lift_read (ack_frame_validate f)) (\<lambda>_. return_read f))))"

section \<open>Canonical range sets\<close>

text \<open>\<open>apart p r\<close>: the range \<open>r\<close> lies below \<open>p\<close> and some packet number separates them.\<close>

definition apart :: "ack_range \<Rightarrow> ack_range \<Rightarrow> bool" where
  "apart p r \<longleftrightarrow> unat (range_end r) + 1 < unat (range_start p)"

definition canonical :: "ack_range list \<Rightarrow> bool" where
  "canonical rs \<longleftrightarrow> sorted_wrt apart rs \<and> (\<forall>r \<in> set rs. range_start r \<le> range_end r)"

definition valid_ranges :: "ack_ranges \<Rightarrow> bool" where
  "valid_ranges rs \<longleftrightarrow> rs \<noteq> [] \<and> length rs \<le> MAX_ACK_RANGES \<and> canonical rs"

lemma not_apart_iff:
  "range_end r \<ge> range_start p
     \<or> (range_start p \<noteq> 0 \<and> saturating_add (range_end r) 1 \<ge> range_start p)
   \<longleftrightarrow> \<not> apart p r"
  using unsigned_less [of "range_start p", where 'a = nat]
  by (auto simp: apart_def word_le_nat_alt word_nat_simps word_unat_eq_iff)

lemma apart_trans: "range_start q \<le> range_end q \<Longrightarrow> apart p q \<Longrightarrow> apart q r \<Longrightarrow> apart p r"
  by (simp add: apart_def word_le_nat_alt)

lemma canonical_simps [simp]:
  "canonical []"
  "canonical (r # rs) \<longleftrightarrow>
     range_start r \<le> range_end r \<and> (\<forall>q \<in> set rs. apart r q) \<and> canonical rs"
  by (auto simp: canonical_def)

lemma check_descending_Some:
  "check_descending (Some p) rs = Inr () \<longleftrightarrow> canonical rs \<and> (\<forall>r \<in> set rs. apart p r)"
proof (induction rs arbitrary: p)
  case (Cons r rs)
  show ?case
    by (auto simp: Cons.IH not_apart_iff not_less intro: apart_trans)
qed simp

lemma check_descending_None: "check_descending None rs = Inr () \<longleftrightarrow> canonical rs"
  by (cases rs) (auto simp: check_descending_Some not_less)

lemma from_descending_ok:
  "from_descending rs = Inr rs' \<longleftrightarrow> rs' = rs \<and> valid_ranges rs"
  by (auto simp: from_descending_def result_simps valid_ranges_def check_descending_None)

lemma canonical_sorted:
  "canonical rs \<Longrightarrow> sorted (map (\<lambda>r. (range_end r, range_start r)) (rev rs))"
proof (induction rs)
  case (Cons r rs)
  have "\<forall>q \<in> set rs. range_end q < range_end r"
    using Cons.prems by (auto simp: apart_def word_order_nat)
  with Cons show ?case
    by (auto simp: sorted_append less_imp_le)
qed simp

lemma sort_descending_canonical: "canonical rs \<Longrightarrow> sort_descending rs = rs"
proof -
  assume "canonical rs"
  then have "sort_key (\<lambda>r. (range_end r, range_start r)) rs = rev rs"
    by (intro sort_key_inj_key_eq canonical_sorted) (auto simp: inj_on_def)
  then show ?thesis
    by (simp add: sort_descending_def)
qed

lemma mem_sort_descending [simp]: "set (sort_descending rs) = set rs"
  by (simp add: sort_descending_def)

lemma length_sort_descending [simp]: "length (sort_descending rs) = length rs"
  by (simp add: sort_descending_def)

lemma ack_ranges_new_canonical:
  "valid_ranges rs \<Longrightarrow> ack_ranges_new rs = Inr rs"
  by (auto simp: ack_ranges_new_def valid_ranges_def sort_descending_canonical from_descending_ok)

lemma largest_is_max:
  assumes "valid_ranges rs" "ack_ranges_contains rs p"
  shows "p \<le> ack_ranges_largest rs"
proof -
  obtain r rest where rs: "rs = r # rest" "\<forall>q \<in> set rest. apart r q"
    using assms(1) by (cases rs) (auto simp: valid_ranges_def)
  with assms show ?thesis
    by (auto simp: ack_ranges_contains_def ack_ranges_largest_def ack_range_contains_def
        valid_ranges_def apart_def word_le_nat_alt)
qed

section \<open>The wire codec\<close>

definition valid_ack_frame :: "ack_frame \<Rightarrow> bool" where
  "valid_ack_frame f \<longleftrightarrow>
     valid_ranges (ack_ranges f) \<and> ack_largest f = ack_ranges_largest (ack_ranges f)
     \<and> ack_delay f mod 1000 = 0"

interpretation ack_range_codec: wire_codec ack_range_decode "\<lambda>_. True" ack_range_encode
proof
  show "safe_read ack_range_decode (\<lambda>_. True)"
    unfolding ack_range_decode_def
    by (rule safe_then [OF safe_varint], rule safe_then [OF safe_varint], rule safe_return) simp
next
  fix r out buf
  assume w: "ack_range_encode r out = Inr buf"
  obtain s e where r: "r = \<lparr>range_start = s, range_end = e\<rparr>"
    by (cases r) simp
  from w have le: "s \<le> MAX_VALUE" "e \<le> MAX_VALUE"
    and buf: "buf = out @ varint_bytes s @ varint_bytes e @ []"
    by (auto simp: ack_range_encode_def result_simps varint_encode_eq r split: if_splits)
  have "reads ack_range_decode (varint_bytes s @ varint_bytes e @ []) r"
    unfolding ack_range_decode_def r
    by (rule reads_rules le)+
  with buf show "\<exists>bs. buf = out @ bs \<and> reads ack_range_decode bs r"
    by blast
qed

lemma ack_ranges_reads:
  assumes "valid_ranges rs" "ack_ranges_encode rs out = Inr buf"
  shows "\<exists>bs. buf = out @ bs \<and> reads ack_ranges_decode bs rs"
proof -
  have n: "0 < length rs" "length rs \<le> 32" "unat (of_nat (length rs) :: u64) = length rs"
    using assms(1) by (auto simp: valid_ranges_def MAX_ACK_RANGES_def unat_of_nat)
  then have max: "of_nat (length rs) \<le> MAX_VALUE"
    by (simp add: word_le_nat_alt MAX_VALUE_nat)
  have w: "write_all ack_range_encode rs (out @ varint_bytes (of_nat (length rs))) = Inr buf"
    using assms(2) max
    by (simp add: ack_ranges_encode_def result_simps varint_encode_eq split: if_splits)
  obtain bs where buf: "buf = (out @ varint_bytes (of_nat (length rs))) @ bs"
    and bs: "reads (read_many ack_range_decode (length rs)) bs rs"
    using ack_range_codec.write_all_reads [OF _ w] by auto
  have "reads (lift_read (from_descending rs)) [] rs"
    using from_descending_ok [of rs rs] assms(1) by (simp add: reads_lift)
  then have "reads (then_read (read_many ack_range_decode (length rs))
      (\<lambda>rs. lift_read (from_descending rs))) (bs @ []) rs"
    by (rule reads_then [OF bs])
  then have "reads ack_ranges_decode (varint_bytes (of_nat (length rs)) @ bs @ []) rs"
    unfolding ack_ranges_decode_def using n
    by (intro reads_then [OF reads_varint [OF max]]) (auto simp: MAX_ACK_RANGES_def word_unat_eq_iff)
  with buf show ?thesis
    by auto
qed

lemma safe_ack_ranges: "safe_read ack_ranges_decode valid_ranges"
  unfolding ack_ranges_decode_def
  by (rule safe_then [OF safe_varint])
    (auto simp: from_descending_ok intro!: safe_lift safe_then [OF ack_range_codec.safe_many])

interpretation ack_codec: wire_codec ack_frame_decode valid_ack_frame ack_frame_encode
proof
  show "safe_read ack_frame_decode valid_ack_frame"
    unfolding ack_frame_decode_def Let_def
    by (rule safe_then [OF safe_varint], rule safe_then [OF safe_varint],
        rule safe_then [OF safe_ack_ranges], rule safe_then [OF safe_lift], assumption, rule safe_return)
      (auto simp: valid_ack_frame_def ack_frame_validate_def from_micros_def split: if_splits)
next
  fix f out buf
  assume v: "valid_ack_frame f" and w: "ack_frame_encode f out = Inr buf"
  obtain l d rs where f: "f = \<lparr>ack_largest = l, ack_delay = d, ack_ranges = rs\<rparr>"
    by (cases f) simp
  let ?m = "of_nat (as_micros d) :: u64"
  from w have ok: "ack_frame_validate f = Inr ()" and le: "l \<le> MAX_VALUE" "?m \<le> MAX_VALUE"
    and rest: "ack_ranges_encode rs (out @ varint_bytes l @ varint_bytes ?m) = Inr buf"
    by (auto simp: ack_frame_encode_def result_simps varint_encode_eq f split: if_splits)
  obtain bs where buf: "buf = (out @ varint_bytes l @ varint_bytes ?m) @ bs"
    and bs: "reads ack_ranges_decode bs rs"
    using ack_ranges_reads [OF _ rest] v by (auto simp: valid_ack_frame_def f)
  have m: "from_micros ?m = d"
    using ok v by (auto simp: ack_frame_validate_def valid_ack_frame_def f from_micros_def as_micros_def
        unat_of_nat split: if_splits)
  have "reads ack_frame_decode (varint_bytes l @ varint_bytes ?m @ bs @ [] @ []) f"
    unfolding ack_frame_decode_def Let_def
    by (rule reads_rules le bs)+ (use ok m in \<open>auto simp: f intro: reads_rules\<close>)
  with buf show "\<exists>bs. buf = out @ bs \<and> reads ack_frame_decode bs f"
    by auto
qed

section \<open>Properties\<close>

lemma sort_descending_unique: "canonical cs \<Longrightarrow> mset cs = mset rs \<Longrightarrow> sort_descending rs = cs"
proof -
  assume c: "canonical cs" and m: "mset cs = mset rs"
  have "sort_key (\<lambda>r. (range_end r, range_start r)) rs = rev cs"
    using m canonical_sorted [OF c]
    by (intro sort_key_inj_key_eq) (auto simp: inj_on_def)
  then show ?thesis
    by (simp add: sort_descending_def)
qed

text \<open>Acknowledgement ranges: \<open>AckRanges::new\<close> accepts a list exactly when some order of it is
  canonical (non-empty, at most 32 ranges, descending, neither overlapping nor adjacent), and returns
  that order; \<open>contains\<close> is unaffected by the reordering.\<close>

theorem ack_ranges_new_iff:
  "(ack_ranges_new rs = Inr cs \<longleftrightarrow> valid_ranges cs \<and> mset cs = mset rs)
     \<and> ack_ranges_contains (sort_descending rs) p = ack_ranges_contains rs p"
proof
  have m: "mset (sort_descending rs) = mset rs"
    by (simp add: sort_descending_def)
  show "ack_ranges_new rs = Inr cs \<longleftrightarrow> valid_ranges cs \<and> mset cs = mset rs"
  proof
    assume "ack_ranges_new rs = Inr cs"
    then show "valid_ranges cs \<and> mset cs = mset rs"
      using m by (auto simp: ack_ranges_new_def from_descending_ok split: if_splits)
  next
    assume cs: "valid_ranges cs \<and> mset cs = mset rs"
    then have "sort_descending rs = cs" "rs \<noteq> []"
      by (auto simp: valid_ranges_def intro: sort_descending_unique)
    with cs show "ack_ranges_new rs = Inr cs"
      by (simp add: ack_ranges_new_def from_descending_ok)
  qed
qed (simp add: ack_ranges_contains_def)

end
