(* ===== verification/Frame.thy ===== *)
theory Frame
  imports Ack
begin

text \<open>
  The frames of \<open>udp-protocol/src/frame.rs\<close>: their structs as records, the enum \<open>Frame\<close>, the
  encoder and decoder of each body, and \<open>Frame::encode\<close> and \<open>Frame::decode\<close>. Fixed-size arrays
  \<open>[u8; N]\<close> are byte lists whose length \<open>valid_frame\<close> states; a \<open>String\<close> is a byte list that
  satisfies \<open>utf8_valid\<close>.
\<close>

section \<open>Frames\<close>

type_synonym stream_id = u64

definition MAX_FRAME_BODY_LEN :: usize where "MAX_FRAME_BODY_LEN = 65535"
definition MAX_COOKIE_LEN :: usize where "MAX_COOKIE_LEN = 128"
definition MAX_CLOSE_REASON_LEN :: usize where "MAX_CLOSE_REASON_LEN = 1024"
definition MAX_RETRY_COOKIE_LEN :: usize where "MAX_RETRY_COOKIE_LEN = 64"
definition NONCE_LEN :: usize where "NONCE_LEN = 16"
definition X25519_PUBLIC_KEY_LEN :: usize where "X25519_PUBLIC_KEY_LEN = 32"
definition FINISHED_TAG_LEN :: usize where "FINISHED_TAG_LEN = 16"
definition FIXED_HEADER_LEN :: usize where "FIXED_HEADER_LEN = 30"

lemmas frame_limits =
  MAX_FRAME_BODY_LEN_def MAX_COOKIE_LEN_def MAX_CLOSE_REASON_LEN_def MAX_RETRY_COOKIE_LEN_def
  NONCE_LEN_def X25519_PUBLIC_KEY_LEN_def FINISHED_TAG_LEN_def FIXED_HEADER_LEN_def

record client_hello =
  ch_client_nonce :: bytes
  ch_client_public_key :: bytes
  ch_max_datagram_size :: u16
  ch_max_streams :: u32
  ch_initial_connection_window :: u64
  ch_initial_stream_window :: u64
  ch_cookie :: bytes

record server_hello =
  sh_server_nonce :: bytes
  sh_server_public_key :: bytes
  sh_server_finished :: bytes
  sh_max_datagram_size :: u16
  sh_max_streams :: u32
  sh_initial_connection_window :: u64
  sh_initial_stream_window :: u64
  sh_cookie :: bytes

record handshake_ack =
  ha_cookie :: bytes
  ha_client_finished :: bytes

record retry =
  retry_cookie :: bytes

record stream_open =
  so_stream_id :: stream_id
  so_initial_receive_window :: u64
  so_bidirectional :: bool

record stream_data =
  sd_stream_id :: stream_id
  sd_offset :: u64
  sd_fin :: bool
  sd_data :: bytes

record reset_stream =
  rs_stream_id :: stream_id
  rs_error_code :: u32
  rs_final_offset :: u64

record max_stream_data =
  msd_stream_id :: stream_id
  msd_max_offset :: u64

record max_data =
  md_max_offset :: u64

record ping =
  ping_nonce :: u64

record pong =
  pong_nonce :: u64

record connection_close =
  cc_error_code :: u32
  cc_frame_type :: u8
  cc_reason :: bytes

datatype frame =
    ClientHello client_hello
  | ServerHello server_hello
  | HandshakeAck handshake_ack
  | Retry retry
  | Ack ack_frame
  | StreamOpen stream_open
  | StreamData stream_data
  | ResetStream reset_stream
  | MaxStreamData max_stream_data
  | MaxData max_data
  | Ping ping
  | Pong pong
  | ConnectionClose connection_close

definition is_ack_eliciting :: "frame \<Rightarrow> bool" where
  "is_ack_eliciting f = (case f of Ack _ \<Rightarrow> False | Retry _ \<Rightarrow> False | _ \<Rightarrow> True)"

fun type_code :: "frame \<Rightarrow> u8" where
  "type_code (ClientHello _) = 1"
| "type_code (ServerHello _) = 2"
| "type_code (HandshakeAck _) = 3"
| "type_code (Retry _) = 13"
| "type_code (Ack _) = 4"
| "type_code (StreamOpen _) = 5"
| "type_code (StreamData _) = 6"
| "type_code (ResetStream _) = 7"
| "type_code (MaxStreamData _) = 8"
| "type_code (MaxData _) = 9"
| "type_code (Ping _) = 10"
| "type_code (Pong _) = 11"
| "type_code (ConnectionClose _) = 12"

section \<open>Frame bodies\<close>

definition validate_hello :: "u16 \<Rightarrow> u32 \<Rightarrow> u64 \<Rightarrow> u64 \<Rightarrow> protocol_error + unit" where
  "validate_hello max_datagram_size max_streams initial_connection_window initial_stream_window =
     (if unat max_datagram_size < FIXED_HEADER_LEN then Inl (InvalidValue ''max_datagram_size'')
      else if max_streams = 0 then Inl (InvalidValue ''max_streams'')
      else if initial_connection_window = 0 then Inl (InvalidValue ''initial_connection_window'')
      else if initial_stream_window = 0 then Inl (InvalidValue ''initial_stream_window'')
      else Inr ())"

definition client_hello_encode :: "client_hello encoder" where
  "client_hello_encode h output =
     and_then (validate_hello (ch_max_datagram_size h) (ch_max_streams h)
       (ch_initial_connection_window h) (ch_initial_stream_window h)) (\<lambda>_.
     write_blob MAX_COOKIE_LEN (ch_cookie h)
       (output @ ch_client_nonce h @ ch_client_public_key h
        @ to_be_bytes 2 (ch_max_datagram_size h) @ to_be_bytes 4 (ch_max_streams h)
        @ to_be_bytes 8 (ch_initial_connection_window h)
        @ to_be_bytes 8 (ch_initial_stream_window h)))"

definition client_hello_decode :: "client_hello decoder" where
  "client_hello_decode =
     then_read (read_array NONCE_LEN) (\<lambda>nonce.
     then_read (read_array X25519_PUBLIC_KEY_LEN) (\<lambda>key.
     then_read read_u16 (\<lambda>mds.
     then_read read_u32 (\<lambda>ms.
     then_read read_u64 (\<lambda>icw.
     then_read read_u64 (\<lambda>isw.
     then_read (read_blob MAX_COOKIE_LEN ''client cookie'') (\<lambda>cookie.
     then_read (lift_read (validate_hello mds ms icw isw)) (\<lambda>_.
     return_read
       \<lparr>ch_client_nonce = nonce, ch_client_public_key = key, ch_max_datagram_size = mds,
        ch_max_streams = ms, ch_initial_connection_window = icw, ch_initial_stream_window = isw,
        ch_cookie = cookie\<rparr>))))))))"

definition server_hello_encode :: "server_hello encoder" where
  "server_hello_encode h output =
     and_then (validate_hello (sh_max_datagram_size h) (sh_max_streams h)
       (sh_initial_connection_window h) (sh_initial_stream_window h)) (\<lambda>_.
     write_blob MAX_COOKIE_LEN (sh_cookie h)
       (output @ sh_server_nonce h @ sh_server_public_key h @ sh_server_finished h
        @ to_be_bytes 2 (sh_max_datagram_size h) @ to_be_bytes 4 (sh_max_streams h)
        @ to_be_bytes 8 (sh_initial_connection_window h)
        @ to_be_bytes 8 (sh_initial_stream_window h)))"

definition server_hello_decode :: "server_hello decoder" where
  "server_hello_decode =
     then_read (read_array NONCE_LEN) (\<lambda>nonce.
     then_read (read_array X25519_PUBLIC_KEY_LEN) (\<lambda>key.
     then_read (read_array FINISHED_TAG_LEN) (\<lambda>finished.
     then_read read_u16 (\<lambda>mds.
     then_read read_u32 (\<lambda>ms.
     then_read read_u64 (\<lambda>icw.
     then_read read_u64 (\<lambda>isw.
     then_read (read_blob MAX_COOKIE_LEN ''server cookie'') (\<lambda>cookie.
     then_read (lift_read (validate_hello mds ms icw isw)) (\<lambda>_.
     return_read
       \<lparr>sh_server_nonce = nonce, sh_server_public_key = key, sh_server_finished = finished,
        sh_max_datagram_size = mds, sh_max_streams = ms, sh_initial_connection_window = icw,
        sh_initial_stream_window = isw, sh_cookie = cookie\<rparr>)))))))))"

definition handshake_ack_encode :: "handshake_ack encoder" where
  "handshake_ack_encode a output =
     and_then (write_blob MAX_COOKIE_LEN (ha_cookie a) output) (\<lambda>output.
     Inr (output @ ha_client_finished a))"

definition handshake_ack_decode :: "handshake_ack decoder" where
  "handshake_ack_decode =
     then_read (read_blob MAX_COOKIE_LEN ''handshake cookie'') (\<lambda>cookie.
     then_read (read_array FINISHED_TAG_LEN) (\<lambda>finished.
     return_read \<lparr>ha_cookie = cookie, ha_client_finished = finished\<rparr>))"

definition retry_encode :: "retry encoder" where
  "retry_encode r output = write_blob MAX_RETRY_COOKIE_LEN (retry_cookie r) output"

definition retry_decode :: "retry decoder" where
  "retry_decode =
     then_read (read_blob MAX_RETRY_COOKIE_LEN ''retry cookie'') (\<lambda>cookie.
     return_read \<lparr>retry_cookie = cookie\<rparr>)"

definition bool_byte :: "bool \<Rightarrow> u8" where
  "bool_byte b = (if b then 1 else 0)"

text \<open>\<open>match reader.read_u8()? { 0 => false, 1 => true, _ => return Err(..) }\<close>\<close>

definition read_flag :: "string \<Rightarrow> bool decoder" where
  "read_flag field =
     then_read read_u8 (\<lambda>b.
     if b = 0 then return_read False
     else if b = 1 then return_read True
     else lift_read (Inl (InvalidValue field)))"

definition stream_open_encode :: "stream_open encoder" where
  "stream_open_encode s output =
     (if so_initial_receive_window s = 0 then Inl (InvalidValue ''initial_receive_window'')
      else
        and_then (varint_encode (so_stream_id s) output) (\<lambda>output.
        and_then (varint_encode (so_initial_receive_window s) output) (\<lambda>output.
        Inr (output @ [bool_byte (so_bidirectional s)]))))"

definition stream_open_decode :: "stream_open decoder" where
  "stream_open_decode =
     then_read read_varint (\<lambda>sid.
     then_read read_varint (\<lambda>window.
     then_read (read_flag ''stream direction'') (\<lambda>bidi.
     if window = 0 then lift_read (Inl (InvalidValue ''initial_receive_window''))
     else return_read
       \<lparr>so_stream_id = sid, so_initial_receive_window = window, so_bidirectional = bidi\<rparr>)))"

definition stream_data_encode :: "stream_data encoder" where
  "stream_data_encode s output =
     and_then (varint_encode (sd_stream_id s) output) (\<lambda>output.
     and_then (varint_encode (sd_offset s) output) (\<lambda>output.
     write_blob MAX_FRAME_BODY_LEN (sd_data s) (output @ [bool_byte (sd_fin s)])))"

definition stream_data_decode :: "stream_data decoder" where
  "stream_data_decode =
     then_read read_varint (\<lambda>sid.
     then_read read_varint (\<lambda>off.
     then_read (read_flag ''stream FIN flag'') (\<lambda>fin.
     then_read (read_blob MAX_FRAME_BODY_LEN ''stream data'') (\<lambda>data.
     then_read (lift_read
       (ok_or (InvalidValue ''stream offset'') (checked_add off (of_nat (length data))))) (\<lambda>_.
     return_read \<lparr>sd_stream_id = sid, sd_offset = off, sd_fin = fin, sd_data = data\<rparr>)))))"

definition reset_stream_encode :: "reset_stream encoder" where
  "reset_stream_encode r output =
     and_then (varint_encode (rs_stream_id r) output) (\<lambda>output.
     varint_encode (rs_final_offset r) (output @ to_be_bytes 4 (rs_error_code r)))"

definition reset_stream_decode :: "reset_stream decoder" where
  "reset_stream_decode =
     then_read read_varint (\<lambda>sid.
     then_read read_u32 (\<lambda>code.
     then_read read_varint (\<lambda>final.
     return_read \<lparr>rs_stream_id = sid, rs_error_code = code, rs_final_offset = final\<rparr>)))"

definition max_stream_data_encode :: "max_stream_data encoder" where
  "max_stream_data_encode m output =
     and_then (varint_encode (msd_stream_id m) output) (\<lambda>output.
     varint_encode (msd_max_offset m) output)"

definition max_stream_data_decode :: "max_stream_data decoder" where
  "max_stream_data_decode =
     then_read read_varint (\<lambda>sid.
     then_read read_varint (\<lambda>mx.
     return_read \<lparr>msd_stream_id = sid, msd_max_offset = mx\<rparr>))"

definition max_data_encode :: "max_data encoder" where
  "max_data_encode m output = varint_encode (md_max_offset m) output"

definition max_data_decode :: "max_data decoder" where
  "max_data_decode = then_read read_varint (\<lambda>mx. return_read \<lparr>md_max_offset = mx\<rparr>)"

definition ping_encode :: "ping encoder" where
  "ping_encode p output = Inr (output @ to_be_bytes 8 (ping_nonce p))"

definition ping_decode :: "ping decoder" where
  "ping_decode = then_read read_u64 (\<lambda>n. return_read \<lparr>ping_nonce = n\<rparr>)"

definition pong_encode :: "pong encoder" where
  "pong_encode p output = Inr (output @ to_be_bytes 8 (pong_nonce p))"

definition pong_decode :: "pong decoder" where
  "pong_decode = then_read read_u64 (\<lambda>n. return_read \<lparr>pong_nonce = n\<rparr>)"

definition connection_close_encode :: "connection_close encoder" where
  "connection_close_encode c output =
     (if length (cc_reason c) > MAX_CLOSE_REASON_LEN then
        Inl (FrameTooLarge MAX_CLOSE_REASON_LEN (length (cc_reason c)))
      else write_blob MAX_CLOSE_REASON_LEN (cc_reason c)
        (output @ to_be_bytes 4 (cc_error_code c) @ [cc_frame_type c]))"

definition connection_close_decode :: "connection_close decoder" where
  "connection_close_decode =
     then_read read_u32 (\<lambda>code.
     then_read read_u8 (\<lambda>ty.
     then_read (read_blob MAX_CLOSE_REASON_LEN ''close reason'') (\<lambda>reason.
     if utf8_valid reason then
       return_read \<lparr>cc_error_code = code, cc_frame_type = ty, cc_reason = reason\<rparr>
     else lift_read (Inl (InvalidUtf8 ''close reason'')))))"

section \<open>The frame codec\<close>

fun frame_encode_body :: "frame encoder" where
  "frame_encode_body (ClientHello v) output = client_hello_encode v output"
| "frame_encode_body (ServerHello v) output = server_hello_encode v output"
| "frame_encode_body (HandshakeAck v) output = handshake_ack_encode v output"
| "frame_encode_body (Retry v) output = retry_encode v output"
| "frame_encode_body (Ack v) output = ack_frame_encode v output"
| "frame_encode_body (StreamOpen v) output = stream_open_encode v output"
| "frame_encode_body (StreamData v) output = stream_data_encode v output"
| "frame_encode_body (ResetStream v) output = reset_stream_encode v output"
| "frame_encode_body (MaxStreamData v) output = max_stream_data_encode v output"
| "frame_encode_body (MaxData v) output = max_data_encode v output"
| "frame_encode_body (Ping v) output = ping_encode v output"
| "frame_encode_body (Pong v) output = pong_encode v output"
| "frame_encode_body (ConnectionClose v) output = connection_close_encode v output"

definition frame_encode :: "frame encoder" where
  "frame_encode f output =
     and_then (frame_encode_body f []) (\<lambda>body.
     if length body > MAX_FRAME_BODY_LEN then
       Inl (FrameTooLarge MAX_FRAME_BODY_LEN (length body))
     else
       and_then (varint_encode (of_nat (length body)) (output @ [type_code f])) (\<lambda>output.
       Inr (output @ body)))"

definition frame_decode_body :: "u8 \<Rightarrow> frame decoder" where
  "frame_decode_body frame_type =
     (if frame_type = 1 then map_read ClientHello client_hello_decode
      else if frame_type = 2 then map_read ServerHello server_hello_decode
      else if frame_type = 3 then map_read HandshakeAck handshake_ack_decode
      else if frame_type = 13 then map_read Retry retry_decode
      else if frame_type = 4 then map_read Ack ack_frame_decode
      else if frame_type = 5 then map_read StreamOpen stream_open_decode
      else if frame_type = 6 then map_read StreamData stream_data_decode
      else if frame_type = 7 then map_read ResetStream reset_stream_decode
      else if frame_type = 8 then map_read MaxStreamData max_stream_data_decode
      else if frame_type = 9 then map_read MaxData max_data_decode
      else if frame_type = 10 then map_read Ping ping_decode
      else if frame_type = 11 then map_read Pong pong_decode
      else if frame_type = 12 then map_read ConnectionClose connection_close_decode
      else lift_read (Inl (UnknownFrameType frame_type)))"

definition frame_decode :: "u8 \<Rightarrow> bytes \<Rightarrow> protocol_error + frame" where
  "frame_decode frame_type body =
     and_then (frame_decode_body frame_type body 0) (\<lambda>(f, offset).
     and_then (reader_finish body offset) (\<lambda>_. Inr f))"

section \<open>Valid frames\<close>

text \<open>What the types of the sources and the checks of the decoders fix about a frame.\<close>

definition valid_client_hello :: "client_hello \<Rightarrow> bool" where
  "valid_client_hello h \<longleftrightarrow>
     length (ch_client_nonce h) = NONCE_LEN \<and> length (ch_client_public_key h) = X25519_PUBLIC_KEY_LEN
     \<and> length (ch_cookie h) \<le> MAX_COOKIE_LEN
     \<and> validate_hello (ch_max_datagram_size h) (ch_max_streams h)
         (ch_initial_connection_window h) (ch_initial_stream_window h) = Inr ()"

definition valid_server_hello :: "server_hello \<Rightarrow> bool" where
  "valid_server_hello h \<longleftrightarrow>
     length (sh_server_nonce h) = NONCE_LEN \<and> length (sh_server_public_key h) = X25519_PUBLIC_KEY_LEN
     \<and> length (sh_server_finished h) = FINISHED_TAG_LEN \<and> length (sh_cookie h) \<le> MAX_COOKIE_LEN
     \<and> validate_hello (sh_max_datagram_size h) (sh_max_streams h)
         (sh_initial_connection_window h) (sh_initial_stream_window h) = Inr ()"

definition valid_handshake_ack :: "handshake_ack \<Rightarrow> bool" where
  "valid_handshake_ack a \<longleftrightarrow>
     length (ha_cookie a) \<le> MAX_COOKIE_LEN \<and> length (ha_client_finished a) = FINISHED_TAG_LEN"

definition valid_retry :: "retry \<Rightarrow> bool" where
  "valid_retry r \<longleftrightarrow> length (retry_cookie r) \<le> MAX_RETRY_COOKIE_LEN"

definition valid_stream_open :: "stream_open \<Rightarrow> bool" where
  "valid_stream_open s \<longleftrightarrow>
     so_stream_id s \<le> MAX_VALUE \<and> so_initial_receive_window s \<le> MAX_VALUE
     \<and> so_initial_receive_window s \<noteq> 0"

definition valid_stream_data :: "stream_data \<Rightarrow> bool" where
  "valid_stream_data s \<longleftrightarrow>
     sd_stream_id s \<le> MAX_VALUE \<and> sd_offset s \<le> MAX_VALUE
     \<and> length (sd_data s) \<le> MAX_FRAME_BODY_LEN"

definition valid_reset_stream :: "reset_stream \<Rightarrow> bool" where
  "valid_reset_stream r \<longleftrightarrow> rs_stream_id r \<le> MAX_VALUE \<and> rs_final_offset r \<le> MAX_VALUE"

definition valid_max_stream_data :: "max_stream_data \<Rightarrow> bool" where
  "valid_max_stream_data m \<longleftrightarrow> msd_stream_id m \<le> MAX_VALUE \<and> msd_max_offset m \<le> MAX_VALUE"

definition valid_max_data :: "max_data \<Rightarrow> bool" where
  "valid_max_data m \<longleftrightarrow> md_max_offset m \<le> MAX_VALUE"

definition valid_connection_close :: "connection_close \<Rightarrow> bool" where
  "valid_connection_close c \<longleftrightarrow>
     length (cc_reason c) \<le> MAX_CLOSE_REASON_LEN \<and> utf8_valid (cc_reason c)"

fun valid_frame :: "frame \<Rightarrow> bool" where
  "valid_frame (ClientHello v) = valid_client_hello v"
| "valid_frame (ServerHello v) = valid_server_hello v"
| "valid_frame (HandshakeAck v) = valid_handshake_ack v"
| "valid_frame (Retry v) = valid_retry v"
| "valid_frame (Ack v) = valid_ack_frame v"
| "valid_frame (StreamOpen v) = valid_stream_open v"
| "valid_frame (StreamData v) = valid_stream_data v"
| "valid_frame (ResetStream v) = valid_reset_stream v"
| "valid_frame (MaxStreamData v) = valid_max_stream_data v"
| "valid_frame (MaxData v) = valid_max_data v"
| "valid_frame (Ping _) = True"
| "valid_frame (Pong _) = True"
| "valid_frame (ConnectionClose v) = valid_connection_close v"

lemmas valid_frame_defs =
  valid_client_hello_def valid_server_hello_def valid_handshake_ack_def valid_retry_def
  valid_stream_open_def valid_stream_data_def valid_reset_stream_def valid_max_stream_data_def
  valid_max_data_def valid_connection_close_def

section \<open>Each body codec\<close>

lemma reads_flag: "reads (read_flag field) [bool_byte b] b"
proof -
  have "reads (read_flag field) ([bool_byte b] @ []) b"
    unfolding read_flag_def by (rule reads_then [OF reads_u8]) (auto simp: bool_byte_def)
  then show ?thesis by simp
qed

lemma safe_flag: "safe_read (read_flag field) (\<lambda>_. True)"
  unfolding read_flag_def by (rule safe_then [OF safe_u8]) (auto intro: safe_return safe_lift)

lemma write_blob_eq:
  "maximum < 2 ^ 62 \<Longrightarrow> write_blob maximum bs out = Inr buf \<longleftrightarrow>
     length bs \<le> maximum \<and> buf = out @ varint_bytes (of_nat (length bs)) @ bs"
  by (auto simp: write_blob_def varint_encode_eq result_simps word_le_nat_alt MAX_VALUE_nat
      unat_of_nat_small)

lemma blob_limits:
  "MAX_COOKIE_LEN < 2 ^ 62" "MAX_RETRY_COOKIE_LEN < 2 ^ 62" "MAX_FRAME_BODY_LEN < 2 ^ 62"
  "MAX_CLOSE_REASON_LEN < 2 ^ 62"
  by (simp_all add: frame_limits)

lemmas write_blob_eqs = blob_limits [THEN write_blob_eq]

interpretation client_hello_codec: wire_codec client_hello_decode valid_client_hello client_hello_encode
proof
  show "safe_read client_hello_decode valid_client_hello"
    unfolding client_hello_decode_def
    by (assumption | rule safe_rules)+ (auto simp: valid_frame_defs)
next
  fix x out buf
  assume v: "valid_client_hello x" and w: "client_hello_encode x out = Inr buf"
  obtain n k ds ms cw sw c where x: "x = \<lparr>ch_client_nonce = n, ch_client_public_key = k,
      ch_max_datagram_size = ds, ch_max_streams = ms, ch_initial_connection_window = cw,
      ch_initial_stream_window = sw, ch_cookie = c\<rparr>"
    by (cases x) simp
  let ?bs = "n @ k @ to_be_bytes 2 ds @ to_be_bytes 4 ms @ to_be_bytes 8 cw @ to_be_bytes 8 sw
    @ (varint_bytes (of_nat (length c)) @ c) @ [] @ []"
  have "NONCE_LEN = length n" "X25519_PUBLIC_KEY_LEN = length k" "length c \<le> MAX_COOKIE_LEN"
    "length c < 2 ^ 62" "reads (lift_read (validate_hello ds ms cw sw)) [] ()"
    using v by (auto simp: x valid_client_hello_def frame_limits)
  note ok = this
  have "reads client_hello_decode ?bs x"
    unfolding client_hello_decode_def x by (rule reads_rules(1,2,5-) ok)+
  moreover have "buf = out @ ?bs"
    using w by (auto simp: x client_hello_encode_def result_simps write_blob_eqs)
  ultimately show "\<exists>bs. buf = out @ bs \<and> reads client_hello_decode bs x"
    by blast
qed

interpretation server_hello_codec: wire_codec server_hello_decode valid_server_hello server_hello_encode
proof
  show "safe_read server_hello_decode valid_server_hello"
    unfolding server_hello_decode_def
    by (assumption | rule safe_rules)+ (auto simp: valid_frame_defs)
next
  fix x out buf
  assume v: "valid_server_hello x" and w: "server_hello_encode x out = Inr buf"
  obtain n k t ds ms cw sw c where x: "x = \<lparr>sh_server_nonce = n, sh_server_public_key = k,
      sh_server_finished = t, sh_max_datagram_size = ds, sh_max_streams = ms,
      sh_initial_connection_window = cw, sh_initial_stream_window = sw, sh_cookie = c\<rparr>"
    by (cases x) simp
  let ?bs = "n @ k @ t @ to_be_bytes 2 ds @ to_be_bytes 4 ms @ to_be_bytes 8 cw @ to_be_bytes 8 sw
    @ (varint_bytes (of_nat (length c)) @ c) @ [] @ []"
  have "NONCE_LEN = length n" "X25519_PUBLIC_KEY_LEN = length k" "FINISHED_TAG_LEN = length t"
    "length c \<le> MAX_COOKIE_LEN" "length c < 2 ^ 62"
    "reads (lift_read (validate_hello ds ms cw sw)) [] ()"
    using v by (auto simp: x valid_server_hello_def frame_limits)
  note ok = this
  have "reads server_hello_decode ?bs x"
    unfolding server_hello_decode_def x by (rule reads_rules(1,2,5-) ok)+
  moreover have "buf = out @ ?bs"
    using w by (auto simp: x server_hello_encode_def result_simps write_blob_eqs)
  ultimately show "\<exists>bs. buf = out @ bs \<and> reads server_hello_decode bs x"
    by blast
qed

interpretation handshake_ack_codec:
  wire_codec handshake_ack_decode valid_handshake_ack handshake_ack_encode
proof
  show "safe_read handshake_ack_decode valid_handshake_ack"
    unfolding handshake_ack_decode_def
    by (assumption | rule safe_rules)+ (auto simp: valid_frame_defs)
next
  fix x out buf
  assume v: "valid_handshake_ack x" and w: "handshake_ack_encode x out = Inr buf"
  obtain c t where x: "x = \<lparr>ha_cookie = c, ha_client_finished = t\<rparr>"
    by (cases x) simp
  let ?bs = "(varint_bytes (of_nat (length c)) @ c) @ t @ []"
  have "FINISHED_TAG_LEN = length t" "length c \<le> MAX_COOKIE_LEN" "length c < 2 ^ 62"
    using v by (auto simp: x valid_handshake_ack_def frame_limits)
  note ok = this
  have "reads handshake_ack_decode ?bs x"
    unfolding handshake_ack_decode_def x by (rule reads_rules ok)+
  moreover have "buf = out @ ?bs"
    using w by (auto simp: x handshake_ack_encode_def result_simps write_blob_eqs)
  ultimately show "\<exists>bs. buf = out @ bs \<and> reads handshake_ack_decode bs x"
    by blast
qed

interpretation retry_codec: wire_codec retry_decode valid_retry retry_encode
proof
  show "safe_read retry_decode valid_retry"
    unfolding retry_decode_def
    by (assumption | rule safe_rules)+ (auto simp: valid_frame_defs)
next
  fix x out buf
  assume v: "valid_retry x" and w: "retry_encode x out = Inr buf"
  obtain c where x: "x = \<lparr>retry_cookie = c\<rparr>"
    by (cases x) simp
  let ?bs = "(varint_bytes (of_nat (length c)) @ c) @ []"
  have "length c \<le> MAX_RETRY_COOKIE_LEN" "length c < 2 ^ 62"
    using v by (auto simp: x valid_retry_def frame_limits)
  note ok = this
  have "reads retry_decode ?bs x"
    unfolding retry_decode_def x by (rule reads_rules ok)+
  moreover have "buf = out @ ?bs"
    using w by (auto simp: x retry_encode_def write_blob_eqs)
  ultimately show "\<exists>bs. buf = out @ bs \<and> reads retry_decode bs x"
    by blast
qed

interpretation stream_open_codec: wire_codec stream_open_decode valid_stream_open stream_open_encode
proof
  show "safe_read stream_open_decode valid_stream_open"
    unfolding stream_open_decode_def
    by (rule safe_then [OF safe_varint], rule safe_then [OF safe_varint],
        rule safe_then [OF safe_flag])
      (auto simp: valid_frame_defs intro: safe_lift safe_return)
next
  fix x out buf
  assume v: "valid_stream_open x" and w: "stream_open_encode x out = Inr buf"
  obtain i r b where x: "x = \<lparr>so_stream_id = i, so_initial_receive_window = r, so_bidirectional = b\<rparr>"
    by (cases x) simp
  let ?bs = "varint_bytes i @ varint_bytes r @ [bool_byte b] @ []"
  have ok: "i \<le> MAX_VALUE" "r \<le> MAX_VALUE" "r \<noteq> 0"
    using v by (auto simp: x valid_stream_open_def)
  have "reads stream_open_decode ?bs x"
    unfolding stream_open_decode_def x using ok(3)
    by (intro reads_then [OF reads_varint [OF ok(1)]] reads_then [OF reads_varint [OF ok(2)]]
        reads_then [OF reads_flag]) auto
  moreover have "buf = out @ ?bs"
    using w ok by (auto simp: x stream_open_encode_def result_simps varint_encode_eq)
  ultimately show "\<exists>bs. buf = out @ bs \<and> reads stream_open_decode bs x"
    by blast
qed

interpretation stream_data_codec: wire_codec stream_data_decode valid_stream_data stream_data_encode
proof
  show "safe_read stream_data_decode valid_stream_data"
    unfolding stream_data_decode_def
    by (assumption | rule safe_rules safe_flag)+ (auto simp: valid_frame_defs)
next
  fix x out buf
  assume v: "valid_stream_data x" and w: "stream_data_encode x out = Inr buf"
  obtain i p b d where x: "x = \<lparr>sd_stream_id = i, sd_offset = p, sd_fin = b, sd_data = d\<rparr>"
    by (cases x) simp
  let ?bs = "varint_bytes i @ varint_bytes p @ [bool_byte b]
    @ (varint_bytes (of_nat (length d)) @ d) @ [] @ []"
  have ok: "i \<le> MAX_VALUE" "p \<le> MAX_VALUE" "length d \<le> MAX_FRAME_BODY_LEN" "length d < 2 ^ 62"
    using v by (auto simp: x valid_stream_data_def frame_limits)
  then have "checked_add p (of_nat (length d)) = Some (p + of_nat (length d))"
    by (simp add: result_simps unat_of_nat_small word_le_nat_alt MAX_VALUE_nat frame_limits)
  then have fits: "reads (lift_read (ok_or e (checked_add p (of_nat (length d))))) []
      (p + of_nat (length d))" for e
    by (simp add: reads_lift)
  have "reads stream_data_decode ?bs x"
    unfolding stream_data_decode_def x by (rule reads_rules(1,2,4-) fits reads_flag ok)+
  moreover have "buf = out @ ?bs"
    using w ok by (auto simp: x stream_data_encode_def result_simps varint_encode_eq write_blob_eqs)
  ultimately show "\<exists>bs. buf = out @ bs \<and> reads stream_data_decode bs x"
    by blast
qed

interpretation reset_stream_codec: wire_codec reset_stream_decode valid_reset_stream reset_stream_encode
proof
  show "safe_read reset_stream_decode valid_reset_stream"
    unfolding reset_stream_decode_def
    by (assumption | rule safe_rules)+ (auto simp: valid_frame_defs)
next
  fix x out buf
  assume v: "valid_reset_stream x" and w: "reset_stream_encode x out = Inr buf"
  obtain i c p where x: "x = \<lparr>rs_stream_id = i, rs_error_code = c, rs_final_offset = p\<rparr>"
    by (cases x) simp
  let ?bs = "varint_bytes i @ to_be_bytes 4 c @ varint_bytes p @ []"
  have ok: "i \<le> MAX_VALUE" "p \<le> MAX_VALUE"
    using v by (auto simp: x valid_frame_defs)
  have "reads reset_stream_decode ?bs x"
    unfolding reset_stream_decode_def x by (rule reads_rules ok)+
  moreover have "buf = out @ ?bs"
    using w ok by (auto simp: x reset_stream_encode_def result_simps varint_encode_eq)
  ultimately show "\<exists>bs. buf = out @ bs \<and> reads reset_stream_decode bs x"
    by blast
qed

interpretation max_stream_data_codec: wire_codec max_stream_data_decode valid_max_stream_data max_stream_data_encode
proof
  show "safe_read max_stream_data_decode valid_max_stream_data"
    unfolding max_stream_data_decode_def
    by (assumption | rule safe_rules)+ (auto simp: valid_frame_defs)
next
  fix x out buf
  assume v: "valid_max_stream_data x" and w: "max_stream_data_encode x out = Inr buf"
  obtain i p where x: "x = \<lparr>msd_stream_id = i, msd_max_offset = p\<rparr>"
    by (cases x) simp
  let ?bs = "varint_bytes i @ varint_bytes p @ []"
  have ok: "i \<le> MAX_VALUE" "p \<le> MAX_VALUE"
    using v by (auto simp: x valid_frame_defs)
  have "reads max_stream_data_decode ?bs x"
    unfolding max_stream_data_decode_def x by (rule reads_rules ok)+
  moreover have "buf = out @ ?bs"
    using w ok by (auto simp: x max_stream_data_encode_def result_simps varint_encode_eq)
  ultimately show "\<exists>bs. buf = out @ bs \<and> reads max_stream_data_decode bs x"
    by blast
qed

interpretation max_data_codec: wire_codec max_data_decode valid_max_data max_data_encode
proof
  show "safe_read max_data_decode valid_max_data"
    unfolding max_data_decode_def
    by (assumption | rule safe_rules)+ (auto simp: valid_frame_defs)
next
  fix x out buf
  assume v: "valid_max_data x" and w: "max_data_encode x out = Inr buf"
  obtain p where x: "x = \<lparr>md_max_offset = p\<rparr>"
    by (cases x) simp
  let ?bs = "varint_bytes p @ []"
  have ok: "p \<le> MAX_VALUE"
    using v by (auto simp: x valid_frame_defs)
  have "reads max_data_decode ?bs x"
    unfolding max_data_decode_def x by (rule reads_rules ok)+
  moreover have "buf = out @ ?bs"
    using w ok by (auto simp: x max_data_encode_def result_simps varint_encode_eq)
  ultimately show "\<exists>bs. buf = out @ bs \<and> reads max_data_decode bs x"
    by blast
qed

interpretation ping_codec: wire_codec ping_decode "\<lambda>_. True" ping_encode
proof
  show "safe_read ping_decode (\<lambda>_. True)"
    unfolding ping_decode_def
    by (rule safe_rules TrueI)+
next
  fix x out buf
  assume w: "ping_encode x out = Inr buf"
  obtain n where x: "x = \<lparr>ping_nonce = n\<rparr>"
    by (cases x) simp
  let ?bs = "to_be_bytes 8 n @ []"
  have "reads ping_decode ?bs x"
    unfolding ping_decode_def x by (rule reads_rules)+
  moreover have "buf = out @ ?bs"
    using w by (auto simp: x ping_encode_def)
  ultimately show "\<exists>bs. buf = out @ bs \<and> reads ping_decode bs x"
    by blast
qed

interpretation pong_codec: wire_codec pong_decode "\<lambda>_. True" pong_encode
proof
  show "safe_read pong_decode (\<lambda>_. True)"
    unfolding pong_decode_def
    by (rule safe_rules TrueI)+
next
  fix x out buf
  assume w: "pong_encode x out = Inr buf"
  obtain n where x: "x = \<lparr>pong_nonce = n\<rparr>"
    by (cases x) simp
  let ?bs = "to_be_bytes 8 n @ []"
  have "reads pong_decode ?bs x"
    unfolding pong_decode_def x by (rule reads_rules)+
  moreover have "buf = out @ ?bs"
    using w by (auto simp: x pong_encode_def)
  ultimately show "\<exists>bs. buf = out @ bs \<and> reads pong_decode bs x"
    by blast
qed

interpretation connection_close_codec:
  wire_codec connection_close_decode valid_connection_close connection_close_encode
proof
  show "safe_read connection_close_decode valid_connection_close"
    unfolding connection_close_decode_def
    by (rule safe_then [OF safe_words(2)], rule safe_then [OF safe_u8], rule safe_then [OF safe_blob])
      (auto simp: valid_frame_defs intro: safe_lift safe_return)
next
  fix x out buf
  assume v: "valid_connection_close x" and w: "connection_close_encode x out = Inr buf"
  obtain c t r where x: "x = \<lparr>cc_error_code = c, cc_frame_type = t, cc_reason = r\<rparr>"
    by (cases x) simp
  let ?bs = "to_be_bytes 4 c @ [t] @ (varint_bytes (of_nat (length r)) @ r) @ []"
  have ok: "length r \<le> MAX_CLOSE_REASON_LEN" "length r < 2 ^ 62" and u: "utf8_valid r"
    using v by (auto simp: x valid_connection_close_def frame_limits)
  have "reads connection_close_decode ?bs x"
    unfolding connection_close_decode_def x using u
    by (intro reads_then [OF reads_words(2)] reads_then [OF reads_u8] reads_then [OF reads_blob [OF ok]])
      auto
  moreover have "buf = out @ ?bs"
    using w ok(1) by (auto simp: x connection_close_encode_def write_blob_eqs)
  ultimately show "\<exists>bs. buf = out @ bs \<and> reads connection_close_decode bs x"
    by blast
qed

section \<open>The whole codec\<close>

lemma frame_body_reads:
  assumes "valid_frame f" "frame_encode_body f out = Inr buf"
  shows "\<exists>bs. buf = out @ bs \<and> reads (frame_decode_body (type_code f)) bs f"
  using assms
  by (cases f)
    (auto simp: frame_decode_body_def intro: reads_map_read
      dest: client_hello_codec.write_reads server_hello_codec.write_reads
        handshake_ack_codec.write_reads retry_codec.write_reads ack_codec.write_reads
        stream_open_codec.write_reads stream_data_codec.write_reads reset_stream_codec.write_reads
        max_stream_data_codec.write_reads max_data_codec.write_reads ping_codec.write_reads [OF TrueI]
        pong_codec.write_reads [OF TrueI] connection_close_codec.write_reads)

lemma safe_frame_body: "safe_read (frame_decode_body t) (\<lambda>f. valid_frame f \<and> type_code f = t)"
  unfolding frame_decode_body_def
  by (auto intro!: safe_lift
      safe_map_read [OF client_hello_codec.safe] safe_map_read [OF server_hello_codec.safe]
      safe_map_read [OF handshake_ack_codec.safe] safe_map_read [OF retry_codec.safe]
      safe_map_read [OF ack_codec.safe] safe_map_read [OF stream_open_codec.safe]
      safe_map_read [OF stream_data_codec.safe] safe_map_read [OF reset_stream_codec.safe]
      safe_map_read [OF max_stream_data_codec.safe] safe_map_read [OF max_data_codec.safe]
      safe_map_read [OF ping_codec.safe] safe_map_read [OF pong_codec.safe]
      safe_map_read [OF connection_close_codec.safe])

interpretation frame_body: safe_decoder "frame_decode_body t" "\<lambda>f. valid_frame f \<and> type_code f = t"
  for t
  by unfold_locales (rule safe_frame_body)

lemma frame_decode_encode:
  assumes "valid_frame f" "frame_encode_body f [] = Inr body" "length body < usize_limit"
  shows "frame_decode (type_code f) body = Inr f"
proof -
  from frame_body_reads [OF assms(1,2)] have "reads (frame_decode_body (type_code f)) body f"
    by auto
  from readsD [OF this, of "[]" "[]"] assms(3) show ?thesis
    by (simp add: frame_decode_def reader_finish_def)
qed

lemma frame_decode_valid:
  "frame_decode t body = Inr f \<Longrightarrow> valid_frame f \<and> type_code f = t"
  by (auto simp: frame_decode_def result_simps dest: frame_body.decoded_valid)

end
