(* ===== verification/Core_Error.thy ===== *)
theory Core_Error
  imports Protocol_Error
begin

text \<open>
  The error values of the crates \<open>time-wheel\<close> (\<open>error.rs\<close>) and \<open>reliable-core\<close> (\<open>error.rs\<close> and the
  \<open>ConnectionConfigError\<close> of \<open>config.rs\<close>). Constructors that another enum also has carry the
  initials of their enum.
\<close>

datatype config_error =
    ZeroTick
  | TickRangeOverflow
  | InvalidLevelCount usize usize
  | InvalidSlotCount usize usize
  | SlotBudgetExceeded usize usize
  | DerivedRangeOverflow usize

datatype timer_error =
    DelayOverflow
  | ElapsedOverflow
  | ClockOverflow
  | DeadlineOverflow
  | StaleTimerId
  | InvariantViolation

datatype connection_config_error =
    DatagramSizeTooSmall
  | DatagramSizeTooLarge
  | ZeroMaxStreams
  | ZeroWindow
  | ZeroBuffer
  | InvalidCongestionWindow
  | InvalidTimeout
  | InvalidKeepalive
  | Wheel_CE config_error

datatype core_error =
    InvalidConfig connection_config_error
  | Protocol protocol_error
  | Timer timer_error
  | ConnectionIdMismatch
  | InvalidState string
  | InvalidPacketType_CE
  | InvalidStreamId u64
  | StreamLimit
  | UnknownStream u64
  | StreamReset_CE u64 u32
  | FlowControlViolation "u64 option"
  | ReceiveBufferFull
  | SendBufferFull
  | InvalidOffset
  | AckForUnsentPacket
  | RetransmissionLimit
  | RandomnessUnavailable_CE
  | Crypto_CE crypto_error

end
