(* ===== verification/Send_Stream.thy ===== *)
theory Send_Stream
  imports Frame Core_Error
begin

text \<open>
  The sending side of one stream, \<open>reliable-core/src/send.rs\<close>: written data is cut into chunks that
  wait in a queue, lost chunks return to its front. The lemmas show that a write is all or nothing,
  that the queue always consists of pieces of the data written, at their offsets, that the byte count
  is exact, and that a write never exceeds the peer's window or the buffer.
\<close>

section \<open>Model\<close>

record queued_frame =
  qf_frame :: frame
  qf_retransmit_count :: u32

definition queued_frame_new :: "frame \<Rightarrow> queued_frame" where
  "queued_frame_new f = \<lparr>qf_frame = f, qf_retransmit_count = 0\<rparr>"

definition queued_frame_with_count :: "frame \<Rightarrow> u32 \<Rightarrow> queued_frame" where
  "queued_frame_with_count f n = \<lparr>qf_frame = f, qf_retransmit_count = n\<rparr>"

definition queued_frame_stream_data :: "stream_id \<Rightarrow> u64 \<Rightarrow> bool \<Rightarrow> bytes \<Rightarrow> u32 \<Rightarrow> queued_frame" where
  "queued_frame_stream_data sid offset fin data n =
     \<lparr>qf_frame = StreamData \<lparr>sd_stream_id = sid, sd_offset = offset, sd_fin = fin, sd_data = data\<rparr>,
      qf_retransmit_count = n\<rparr>"

record pending_data =
  pd_offset :: u64
  pd_data :: bytes
  pd_fin :: bool
  pd_retransmit_count :: u32

record send_stream =
  ss_stream_id :: stream_id
  ss_max_offset :: u64
  ss_next_offset :: u64
  ss_queued_bytes :: usize
  ss_fin_requested :: bool
  ss_fin_sent :: bool
  ss_queue :: "pending_data list"

definition send_stream_new :: "stream_id \<Rightarrow> u64 \<Rightarrow> send_stream" where
  "send_stream_new sid max_off =
     \<lparr>ss_stream_id = sid, ss_max_offset = max_off, ss_next_offset = 0, ss_queued_bytes = 0,
      ss_fin_requested = False, ss_fin_sent = False, ss_queue = []\<rparr>"

definition ss_has_pending_data :: "send_stream \<Rightarrow> bool" where
  "ss_has_pending_data s \<longleftrightarrow> ss_queue s \<noteq> []"

text \<open>\<open>data.chunks(n)\<close>, for \<open>n > 0\<close>.\<close>

function chunks :: "nat \<Rightarrow> bytes \<Rightarrow> bytes list" where
  "chunks n xs = (if xs = [] \<or> n = 0 then [] else take n xs # chunks n (drop n xs))"
  by auto
termination
  by (relation "measure (\<lambda>(n, xs). length xs)") auto

declare chunks.simps [simp del]

text \<open>The loop of \<open>write\<close>: the queue grows by one chunk each round.\<close>

fun push_chunks :: "u64 \<Rightarrow> bytes list \<Rightarrow> pending_data list \<Rightarrow> (core_error + u64) \<times> pending_data list" where
  "push_chunks offset [] queue = (Inr offset, queue)"
| "push_chunks offset (chunk # cs) queue =
     (case checked_add offset (of_nat (length chunk)) of
        None \<Rightarrow> (Inl InvalidOffset, queue)
      | Some chunk_end \<Rightarrow>
          push_chunks chunk_end cs (queue @
            [\<lparr>pd_offset = offset, pd_data = chunk, pd_fin = False, pd_retransmit_count = 0\<rparr>]))"

definition mark_last_fin :: "pending_data list \<Rightarrow> pending_data list" where
  "mark_last_fin queue = (if queue = [] then [] else butlast queue @ [(last queue)\<lparr>pd_fin := True\<rparr>])"

definition ss_write ::
  "send_stream \<Rightarrow> bytes \<Rightarrow> bool \<Rightarrow> usize \<Rightarrow> usize \<Rightarrow> (core_error + usize) \<times> send_stream" where
  "ss_write s data fin max_buffer max_chunk =
     (if ss_fin_requested s \<or> ss_fin_sent s then (Inl (InvalidState ''write after FIN''), s)
      else
        let available = max_buffer - ss_queued_bytes s;
            accepted = min (length data) available
        in
        if accepted \<noteq> length data then (Inl SendBufferFull, s)
        else
          case checked_add (ss_next_offset s) (of_nat (length data)) of
            None \<Rightarrow> (Inl InvalidOffset, s)
          | Some stop \<Rightarrow>
              if stop > ss_max_offset s then
                (Inl (FlowControlViolation (Some (ss_stream_id s))), s)
              else
                case push_chunks (ss_next_offset s) (chunks (max max_chunk 1) data) (ss_queue s) of
                  (Inl e, queue) \<Rightarrow> (Inl e, s\<lparr>ss_queue := queue\<rparr>)
                | (Inr offset, queue) \<Rightarrow>
                    let s = s\<lparr>ss_queue := queue, ss_next_offset := offset,
                          ss_queued_bytes := min (ss_queued_bytes s + accepted) (usize_limit - 1)\<rparr>
                    in
                    if fin then
                      let s = s\<lparr>ss_fin_requested := True\<rparr> in
                      if data = [] then
                        (Inr accepted, s\<lparr>ss_queue := ss_queue s @
                          [\<lparr>pd_offset = offset, pd_data = [], pd_fin = True, pd_retransmit_count = 0\<rparr>]\<rparr>)
                      else (Inr accepted, s\<lparr>ss_queue := mark_last_fin (ss_queue s)\<rparr>)
                    else (Inr accepted, s))"

definition ss_pop_sendable :: "send_stream \<Rightarrow> pending_data option \<times> send_stream" where
  "ss_pop_sendable s =
     (case ss_queue s of
        [] \<Rightarrow> (None, s)
      | item # rest \<Rightarrow>
          (Some item,
           s\<lparr>ss_queue := rest, ss_queued_bytes := ss_queued_bytes s - length (pd_data item),
             ss_fin_sent := (ss_fin_sent s \<or> pd_fin item)\<rparr>))"

definition ss_front_sendable :: "send_stream \<Rightarrow> pending_data option" where
  "ss_front_sendable s = (case ss_queue s of [] \<Rightarrow> None | item # _ \<Rightarrow> Some item)"

definition ss_requeue :: "send_stream \<Rightarrow> stream_data \<Rightarrow> u32 \<Rightarrow> send_stream" where
  "ss_requeue s f n =
     s\<lparr>ss_queue := \<lparr>pd_offset = sd_offset f, pd_data = sd_data f, pd_fin = sd_fin f,
         pd_retransmit_count = n\<rparr> # ss_queue s,
       ss_queued_bytes := min (ss_queued_bytes s + length (sd_data f)) (usize_limit - 1),
       ss_fin_sent := (if sd_fin f then False else ss_fin_sent s)\<rparr>"

definition ss_update_window :: "send_stream \<Rightarrow> u64 \<Rightarrow> send_stream" where
  "ss_update_window s max_off = s\<lparr>ss_max_offset := max (ss_max_offset s) max_off\<rparr>"

section \<open>Chunks\<close>

lemma concat_chunks: "0 < n \<Longrightarrow> concat (chunks n xs) = xs"
  by (induction n xs rule: chunks.induct) (subst chunks.simps, auto)

lemma chunks_bounded: "c \<in> set (chunks n xs) \<Longrightarrow> c \<noteq> [] \<and> length c \<le> n"
proof (induction n xs rule: chunks.induct)
  case (1 n xs)
  show ?case
  proof (cases "xs = [] \<or> n = 0")
    case True
    with "1.prems" show ?thesis
      by (simp add: chunks.simps)
  next
    case False
    with "1.prems" have "c = take n xs \<or> c \<in> set (chunks n (drop n xs))"
      by (subst (asm) chunks.simps) auto
    with False "1.IH" [OF False] show ?thesis
      by auto
  qed
qed

section \<open>The queue carries the data written\<close>

text \<open>\<open>w\<close> is everything written so far. A pending item is a piece of it; the end mark only stands
  at its end.\<close>

definition piece_of :: "bytes \<Rightarrow> pending_data \<Rightarrow> bool" where
  "piece_of w p \<longleftrightarrow>
     unat (pd_offset p) + length (pd_data p) \<le> length w
     \<and> take (length (pd_data p)) (drop (unat (pd_offset p)) w) = pd_data p"

text \<open>The positions of the stream that an item carries.\<close>

definition pd_span :: "pending_data \<Rightarrow> nat set" where
  "pd_span p = {unat (pd_offset p) ..< unat (pd_offset p) + length (pd_data p)}"

lemma pd_span_fin [simp]: "pd_span (p\<lparr>pd_fin := b\<rparr>) = pd_span p"
  by (simp add: pd_span_def)

definition queue_bytes :: "pending_data list \<Rightarrow> nat" where
  "queue_bytes q = sum_list (map (\<lambda>p. length (pd_data p)) q)"

definition ss_inv :: "bytes \<Rightarrow> send_stream \<Rightarrow> bool" where
  "ss_inv w s \<longleftrightarrow>
     unat (ss_next_offset s) = length w \<and> ss_next_offset s \<le> ss_max_offset s
     \<and> (\<forall>p \<in> set (ss_queue s). piece_of w p)
     \<and> (\<forall>p \<in> set (ss_queue s). pd_fin p \<longrightarrow>
          ss_fin_requested s \<and> unat (pd_offset p) + length (pd_data p) = length w)
     \<and> ss_queued_bytes s = queue_bytes (ss_queue s) \<and> ss_queued_bytes s < usize_limit"

lemma piece_of_append: "piece_of w p \<Longrightarrow> piece_of (w @ data) p"
  by (simp add: piece_of_def)

lemma queue_bytes_simps [simp]:
  "queue_bytes [] = 0"
  "queue_bytes (p # q) = length (pd_data p) + queue_bytes q"
  "queue_bytes (q @ q') = queue_bytes q + queue_bytes q'"
  by (simp_all add: queue_bytes_def)

lemma push_chunks_correct:
  assumes "unat offset = length w" "length (w @ concat cs) < 2 ^ 64"
    and "\<forall>p \<in> set q. piece_of w p"
  shows "\<exists>offset' ps. push_chunks offset cs q = (Inr offset', q @ ps)
     \<and> unat offset' = length (w @ concat cs)
     \<and> (\<forall>p \<in> set (q @ ps). piece_of (w @ concat cs) p)
     \<and> map pd_data ps = cs \<and> (\<forall>p \<in> set ps. \<not> pd_fin p)
     \<and> \<Union> (pd_span ` set ps) = {length w ..< length (w @ concat cs)}
     \<and> (ps \<noteq> [] \<longrightarrow> unat (pd_offset (last ps)) + length (pd_data (last ps)) = length (w @ concat cs))"
  using assms
proof (induction cs arbitrary: offset w q)
  case (Cons c cs)
  let ?p = "\<lparr>pd_offset = offset, pd_data = c, pd_fin = False, pd_retransmit_count = 0\<rparr>"
  have n: "unat (of_nat (length c) :: u64) = length c"
    using Cons.prems(2) by (intro unat_of_nat_small) simp
  then have add: "checked_add offset (of_nat (length c)) = Some (offset + of_nat (length c))"
    and off: "unat (offset + of_nat (length c)) = length (w @ c)"
    using Cons.prems by (auto simp: result_simps word_nat_simps)
  have "piece_of (w @ c) ?p"
    using Cons.prems(1) by (simp add: piece_of_def)
  then have q: "\<forall>p \<in> set (q @ [?p]). piece_of (w @ c) p"
    using Cons.prems(3) piece_of_append by auto
  obtain offset' ps where IH: "push_chunks (offset + of_nat (length c)) cs (q @ [?p]) = (Inr offset', (q @ [?p]) @ ps)"
    "unat offset' = length ((w @ c) @ concat cs)"
    "\<forall>p \<in> set ((q @ [?p]) @ ps). piece_of ((w @ c) @ concat cs) p"
    "map pd_data ps = cs" "\<forall>p \<in> set ps. \<not> pd_fin p"
    "\<Union> (pd_span ` set ps) = {length (w @ c) ..< length ((w @ c) @ concat cs)}"
    "ps \<noteq> [] \<longrightarrow> unat (pd_offset (last ps)) + length (pd_data (last ps)) = length ((w @ c) @ concat cs)"
    using Cons.IH [OF off _ q] Cons.prems(2) by auto
  have "cs = [] \<longleftrightarrow> ps = []"
    using IH(4) by auto
  moreover have "pd_span ?p \<union> {length (w @ c) ..< length ((w @ c) @ concat cs)} = {length w ..< length (w @ concat (c # cs))}"
    using Cons.prems(1) by (auto simp: pd_span_def)
  then have "\<Union> (pd_span ` set (?p # ps)) = {length w ..< length (w @ concat (c # cs))}"
    using IH(6) by simp
  ultimately show ?case
    using IH(1-5,7) add Cons.prems(1) by (intro exI [of _ offset'] exI [of _ "?p # ps"]) auto
qed simp

lemma mark_last_fin_append:
  "ps \<noteq> [] \<Longrightarrow> mark_last_fin (q @ ps) = q @ butlast ps @ [(last ps)\<lparr>pd_fin := True\<rparr>]"
  by (simp add: mark_last_fin_def butlast_append)

lemma piece_of_fin [simp]: "piece_of w (p\<lparr>pd_fin := b\<rparr>) = piece_of w p"
  by (simp add: piece_of_def)

text \<open>Why a write is refused, in the order of the checks.\<close>

definition ss_refuses :: "send_stream \<Rightarrow> bytes \<Rightarrow> usize \<Rightarrow> core_error option" where
  "ss_refuses s data max_buffer =
     (if ss_fin_requested s \<or> ss_fin_sent s then Some (InvalidState ''write after FIN'')
      else if max_buffer - ss_queued_bytes s < length data then Some SendBufferFull
      else if 2 ^ 64 \<le> unat (ss_next_offset s) + length data then Some InvalidOffset
      else if unat (ss_max_offset s) < unat (ss_next_offset s) + length data then
        Some (FlowControlViolation (Some (ss_stream_id s)))
      else None)"

lemma ss_write_refused:
  assumes "length data < 2 ^ 64" "ss_refuses s data max_buffer = Some e"
  shows "ss_write s data fin max_buffer max_chunk = (Inl e, s)"
proof -
  have n: "unat (of_nat (length data) :: u64) = length data"
    using assms(1) by (simp add: unat_of_nat_small)
  show ?thesis
    using assms n
    by (auto simp: ss_refuses_def ss_write_def Let_def checked_add_def word_less_nat_alt word_nat_simps
        min_def not_le split: if_splits)
qed

lemma ss_write_pieces:
  assumes inv: "ss_inv w s" and acc: "ss_refuses s data max_buffer = None"
    and lim: "max_buffer < usize_limit"
  shows "\<exists>s' ps. ss_write s data fin max_buffer max_chunk = (Inr (length data), s')
     \<and> ss_inv (w @ data) s' \<and> ss_queue s' = ss_queue s @ ps \<and> concat (map pd_data ps) = data
     \<and> (\<forall>p \<in> set ps. length (pd_data p) \<le> max max_chunk 1)
     \<and> ss_queued_bytes s' \<le> max (ss_queued_bytes s) max_buffer \<and> ss_fin_requested s' = fin
     \<and> \<Union> (pd_span ` set ps) = {length w ..< length (w @ data)}"
proof -
  have st: "\<not> ss_fin_requested s" "\<not> ss_fin_sent s"
    and room: "length data \<le> max_buffer - ss_queued_bytes s"
    and fits: "unat (ss_next_offset s) + length data < 2 ^ 64"
    and win: "unat (ss_next_offset s) + length data \<le> unat (ss_max_offset s)"
    using acc by (auto simp: ss_refuses_def not_less not_le split: if_splits)
  let ?cs = "chunks (max max_chunk 1) data"
  have cs: "concat ?cs = data" "\<forall>c \<in> set ?cs. c \<noteq> [] \<and> length c \<le> max max_chunk 1"
    using concat_chunks [of "max max_chunk 1" data] chunks_bounded by auto
  have inv': "unat (ss_next_offset s) = length w" "\<forall>p \<in> set (ss_queue s). piece_of w p"
    "\<forall>p \<in> set (ss_queue s). \<not> pd_fin p" "ss_queued_bytes s = queue_bytes (ss_queue s)"
    using inv st by (auto simp: ss_inv_def)
  obtain offset ps where push: "push_chunks (ss_next_offset s) ?cs (ss_queue s) = (Inr offset, ss_queue s @ ps)"
    and off: "unat offset = length (w @ data)"
    and pieces: "\<forall>p \<in> set (ss_queue s @ ps). piece_of (w @ data) p"
    and ps: "map pd_data ps = ?cs" "\<forall>p \<in> set ps. \<not> pd_fin p"
      "\<Union> (pd_span ` set ps) = {length w ..< length (w @ data)}"
    and lst: "ps \<noteq> [] \<longrightarrow> unat (pd_offset (last ps)) + length (pd_data (last ps)) = length (w @ data)"
    using push_chunks_correct [OF inv'(1) _ inv'(2), of ?cs] fits inv'(1) unfolding cs(1) by auto
  have "concat (map pd_data ps) = data"
    using ps(1) cs(1) by simp
  then have bytes: "queue_bytes ps = length data"
    by (auto simp: queue_bytes_def length_concat comp_def)
  have psne: "ps = [] \<longleftrightarrow> data = []"
    using ps(1) cs by (metis concat.simps(1) concat_eq_Nil_conv list.map_disc_iff list.set_intros(1) neq_Nil_conv)
  have add: "checked_add (ss_next_offset s) (of_nat (length data)) = Some (ss_next_offset s + of_nat (length data))"
    "\<not> ss_next_offset s + of_nat (length data) > ss_max_offset s"
    using fits win by (auto simp: result_simps unat_of_nat_small word_less_nat_alt word_nat_simps)
  have sat: "min (ss_queued_bytes s + length data) (usize_limit - 1) = ss_queued_bytes s + length data"
    using room lim inv by (auto simp: ss_inv_def)
  define qs where "qs = (if fin then if data = []
      then [\<lparr>pd_offset = offset, pd_data = [], pd_fin = True, pd_retransmit_count = 0\<rparr>]
      else butlast ps @ [(last ps)\<lparr>pd_fin := True\<rparr>] else ps)"
  define s' where "s' = s\<lparr>ss_queue := ss_queue s @ qs, ss_next_offset := offset,
      ss_queued_bytes := ss_queued_bytes s + length data, ss_fin_requested := fin\<rparr>"
  have res: "ss_write s data fin max_buffer max_chunk = (Inr (length data), s')"
    using st room add push sat psne
    by (auto simp: ss_write_def Let_def min_def s'_def qs_def mark_last_fin_append)
  have same: "data \<noteq> [] \<or> \<not> fin \<Longrightarrow> map pd_data qs = map pd_data ps"
    using psne by (cases ps rule: rev_cases) (auto simp: qs_def)
  have datas: "concat (map pd_data qs) = data"
    using same \<open>concat (map pd_data ps) = data\<close> by (cases "data = [] \<and> fin") (auto simp: qs_def)
  have qbytes: "queue_bytes qs = length data"
    using datas by (auto simp: queue_bytes_def length_concat comp_def)
  have qpieces: "\<forall>p \<in> set qs. piece_of (w @ data) p"
    using pieces psne off by (cases ps rule: rev_cases) (auto simp: qs_def piece_of_def)
  have qfin: "\<forall>p \<in> set qs. pd_fin p \<longrightarrow> fin \<and> unat (pd_offset p) + length (pd_data p) = length (w @ data)"
    using psne off lst ps(2) by (cases ps rule: rev_cases) (auto simp: qs_def)
  have qlen: "\<forall>p \<in> set qs. length (pd_data p) \<le> max max_chunk 1"
  proof -
    have "set (map pd_data qs) \<subseteq> set ?cs \<union> {[]}"
      using same ps(1) by (cases "data = [] \<and> fin") (auto simp: qs_def)
    then have "pd_data p \<in> set ?cs \<union> {[]}" if "p \<in> set qs" for p
      using that by auto
    then show ?thesis
      using cs(2) by fastforce
  qed
  have qspan: "\<Union> (pd_span ` set qs) = {length w ..< length (w @ data)}"
    using ps(3) psne by (cases ps rule: rev_cases) (auto simp: qs_def pd_span_def)
  have "ss_inv (w @ data) s'"
    using inv inv' pieces qpieces qfin qbytes off win room lim
    by (auto simp: ss_inv_def s'_def word_le_nat_alt)
  then show ?thesis
    using res datas qlen room qspan by (intro exI [of _ s'] exI [of _ qs]) (auto simp: s'_def)
qed

lemma ss_inv_pop:
  "ss_inv w s \<Longrightarrow> ss_pop_sendable s = (x, s') \<Longrightarrow>
     ss_inv w s' \<and> (\<forall>p. x = Some p \<longrightarrow> piece_of w p \<and> ss_queue s = p # ss_queue s')"
  by (auto simp: ss_pop_sendable_def ss_inv_def split: list.splits)

lemma ss_inv_requeue:
  assumes "ss_inv w s" "piece_of w \<lparr>pd_offset = sd_offset f, pd_data = sd_data f, pd_fin = sd_fin f,
       pd_retransmit_count = n\<rparr>"
    and "sd_fin f \<Longrightarrow> ss_fin_requested s \<and> unat (sd_offset f) + length (sd_data f) = length w"
    and "ss_queued_bytes s + length (sd_data f) < usize_limit"
  shows "ss_inv w (ss_requeue s f n)"
  using assms by (auto simp: ss_requeue_def ss_inv_def)

lemma ss_inv_window: "ss_inv w s \<Longrightarrow> ss_inv w (ss_update_window s m)"
  by (auto simp: ss_inv_def ss_update_window_def le_max_iff_disj)

lemma send_stream_new_inv: "ss_inv [] (send_stream_new sid m)"
  by (simp add: ss_inv_def send_stream_new_def usize_limit_def)

section \<open>Properties\<close>

text \<open>Writing is all or nothing: a write is refused, with the stream unchanged, exactly after a FIN,
  when the buffer has no room for all the data, when offsets overflow or when the peer's window is
  exceeded; otherwise all of it is queued behind what is there, cut into chunks of at most the chunk
  size whose concatenation is the data, every queued item is a piece of everything written at its
  offset, the end mark stands only at its end, and the byte count is exact and within the buffer.\<close>

theorem write_all_or_nothing:
  assumes "ss_inv w s" "length data < 2 ^ 64" "max_buffer < usize_limit"
  shows "case ss_refuses s data max_buffer of
       Some e \<Rightarrow> ss_write s data fin max_buffer max_chunk = (Inl e, s)
     | None \<Rightarrow> (\<exists>s' ps. ss_write s data fin max_buffer max_chunk = (Inr (length data), s')
         \<and> ss_inv (w @ data) s' \<and> ss_queue s' = ss_queue s @ ps \<and> concat (map pd_data ps) = data
         \<and> (\<forall>p \<in> set ps. length (pd_data p) \<le> max max_chunk 1)
         \<and> ss_queued_bytes s' \<le> max (ss_queued_bytes s) max_buffer \<and> ss_fin_requested s' = fin)"
proof (cases "ss_refuses s data max_buffer")
  case None
  obtain s' ps where "ss_write s data fin max_buffer max_chunk = (Inr (length data), s')" "ss_inv (w @ data) s'"
    "ss_queue s' = ss_queue s @ ps" "concat (map pd_data ps) = data" "\<forall>p \<in> set ps. length (pd_data p) \<le> max max_chunk 1"
    "ss_queued_bytes s' \<le> max (ss_queued_bytes s) max_buffer" "ss_fin_requested s' = fin"
    using ss_write_pieces [OF assms(1) None assms(3), of fin max_chunk] by blast
  with None show ?thesis
    by auto
next
  case (Some e)
  with ss_write_refused [OF assms(2) Some] show ?thesis
    by simp
qed

theorem write_all_or_nothing_witness:
  "\<exists>s' ps. ss_write (send_stream_new 4 100) [1, 2, 3] True 50 2 = (Inr 3, s')
     \<and> ss_inv [1, 2, 3] s' \<and> ss_queue s' = ps \<and> concat (map pd_data ps) = [1, 2, 3]"
proof -
  have "ss_refuses (send_stream_new 4 100) [1, 2, 3] 50 = None"
    by (simp add: ss_refuses_def send_stream_new_def)
  with write_all_or_nothing [OF send_stream_new_inv [of 4 100], of "[1, 2, 3]" 50 True 2] show ?thesis
    by (auto simp: usize_limit_def send_stream_new_def)
qed

text \<open>The send queue keeps carrying the data written: taking the next item, putting a lost piece back
  and widening the window all preserve it, and what is taken is a piece of the data at its offset.\<close>

theorem send_queue_carries_data:
  assumes "ss_inv w s"
  shows "(ss_pop_sendable s = (x, s1) \<longrightarrow>
       ss_inv w s1 \<and> (\<forall>p. x = Some p \<longrightarrow> piece_of w p \<and> ss_queue s = p # ss_queue s1))
     \<and> (piece_of w \<lparr>pd_offset = sd_offset f, pd_data = sd_data f, pd_fin = sd_fin f, pd_retransmit_count = n\<rparr>
        \<and> (sd_fin f \<longrightarrow> ss_fin_requested s \<and> unat (sd_offset f) + length (sd_data f) = length w)
        \<and> ss_queued_bytes s + length (sd_data f) < usize_limit
        \<longrightarrow> ss_inv w (ss_requeue s f n))
     \<and> ss_inv w (ss_update_window s m)"
  using ss_inv_pop [OF assms] ss_inv_requeue [OF assms] ss_inv_window [OF assms] by blast

theorem send_queue_carries_data_witness:
  "ss_inv [] (ss_update_window (send_stream_new 4 100) 200)
   \<and> ss_inv [] (ss_requeue (send_stream_new 4 100) \<lparr>sd_stream_id = 4, sd_offset = 0, sd_fin = False, sd_data = []\<rparr> 1)"
  using send_queue_carries_data [OF send_stream_new_inv [of 4 100], of None "send_stream_new 4 100"
      "\<lparr>sd_stream_id = 4, sd_offset = 0, sd_fin = False, sd_data = []\<rparr>" 1 200]
  by (simp add: piece_of_def send_stream_new_def usize_limit_def)

end
