(* ===== verification/Receive_Stream.thy ===== *)
theory Receive_Stream
  imports Btree_Map Core_Error
begin

text \<open>
  Reassembly of one incoming stream, \<open>reliable-core/src/receive.rs\<close>: segments that arrive out of
  order wait in an ordered map, contiguous data moves to the queue of bytes ready to be read. The
  lemmas show that the positions covered grow by exactly the positions of the accepted data, that the
  result counts the positions that were new, and that the bytes delivered are the bytes sent, in order
  and without gaps, whatever the order, overlap or repetition of the arrivals.
\<close>

section \<open>Model\<close>

type_synonym segments = "(u64, bytes) btree_map"

record receive_stream =
  rcv_stream_id :: u64
  rcv_next_offset :: u64
  rcv_final_offset :: "u64 option"
  rcv_max_offset :: u64
  rcv_segments :: segments
  rcv_ready :: bytes

definition receive_stream_new :: "u64 \<Rightarrow> u64 \<Rightarrow> receive_stream" where
  "receive_stream_new sid max_off =
     \<lparr>rcv_stream_id = sid, rcv_next_offset = 0, rcv_final_offset = None, rcv_max_offset = max_off,
      rcv_segments = [], rcv_ready = []\<rparr>"

definition rcv_set_max_offset :: "receive_stream \<Rightarrow> u64 \<Rightarrow> receive_stream" where
  "rcv_set_max_offset r max_off = r\<lparr>rcv_max_offset := max_off\<rparr>"

text \<open>The loop of \<open>uncovered_ranges\<close> over the existing segments, with the cursor.\<close>

fun uncovered_loop :: "u64 \<Rightarrow> u64 \<Rightarrow> segments \<Rightarrow> (u64 \<times> u64) list" where
  "uncovered_loop stop cursor [] = (if cursor < stop then [(cursor, stop)] else [])"
| "uncovered_loop stop cursor ((existing_start, existing_data) # segs) =
     (let existing_end = saturating_add existing_start (of_nat (length existing_data)) in
      if existing_end \<le> cursor then uncovered_loop stop cursor segs
      else
        let gap = (if existing_start > cursor then [(cursor, min existing_start stop)] else []);
            cursor = max cursor existing_end
        in gap @ (if cursor \<ge> stop then [] else uncovered_loop stop cursor segs))"

definition uncovered_ranges :: "receive_stream \<Rightarrow> u64 \<Rightarrow> u64 \<Rightarrow> (u64 \<times> u64) list" where
  "uncovered_ranges r offset stop =
     (if offset = stop then []
      else uncovered_loop stop (max offset (rcv_next_offset r))
        (takeWhile (\<lambda>(s, _). s < stop) (rcv_segments r)))"

text \<open>\<open>while let Some(data) = self.segments.remove(&self.next_offset)\<close>\<close>

function deliver_contiguous :: "receive_stream \<Rightarrow> (core_error + unit) \<times> receive_stream" where
  "deliver_contiguous r =
     (case bt_get (rcv_segments r) (rcv_next_offset r) of
        None \<Rightarrow> (Inr (), r)
      | Some data \<Rightarrow>
          let r = r\<lparr>rcv_segments := bt_remove (rcv_next_offset r) (rcv_segments r)\<rparr> in
          (case checked_add (rcv_next_offset r) (of_nat (length data)) of
             None \<Rightarrow> (Inl InvalidOffset, r)
           | Some next \<Rightarrow>
               deliver_contiguous (r\<lparr>rcv_next_offset := next, rcv_ready := rcv_ready r @ data\<rparr>)))"
  by pat_completeness auto
termination
  by (relation "measure (\<lambda>r. length (rcv_segments r))") (auto dest: length_bt_remove)

declare deliver_contiguous.simps [simp del]

text \<open>The loop of \<open>insert\<close> over the uncovered ranges: the map and the number of new bytes.\<close>

fun insert_chunks ::
  "u64 \<Rightarrow> bytes \<Rightarrow> (u64 \<times> u64) list \<Rightarrow> segments \<Rightarrow> usize \<Rightarrow> (core_error + usize) \<times> segments" where
  "insert_chunks offset data [] segs n = (Inr n, segs)"
| "insert_chunks offset data ((s, e) # us) segs n =
     (case slice data (unat (s - offset)) (unat (e - offset)) of
        None \<Rightarrow> (Inl InvalidOffset, segs)
      | Some chunk \<Rightarrow>
          insert_chunks offset data us (bt_insert s chunk segs)
            (min (n + length chunk) (usize_limit - 1)))"

definition rcv_insert ::
  "receive_stream \<Rightarrow> u64 \<Rightarrow> bytes \<Rightarrow> bool \<Rightarrow> (core_error + usize) \<times> receive_stream" where
  "rcv_insert r offset data fin =
     (case checked_add offset (of_nat (length data)) of
        None \<Rightarrow> (Inl InvalidOffset, r)
      | Some stop \<Rightarrow>
          if stop > rcv_max_offset r then
            (Inl (FlowControlViolation (Some (rcv_stream_id r))), r)
          else if fin \<and> (\<exists>f. rcv_final_offset r = Some f \<and> f \<noteq> stop) then (Inl InvalidOffset, r)
          else if \<not> fin \<and> (\<exists>f. rcv_final_offset r = Some f \<and> stop > f) then (Inl InvalidOffset, r)
          else
            let r = (if fin then r\<lparr>rcv_final_offset := Some stop\<rparr> else r);
                (n, segs) = insert_chunks offset data (uncovered_ranges r offset stop) (rcv_segments r) 0;
                r = r\<lparr>rcv_segments := segs\<rparr>
            in
            case n of
              Inl e \<Rightarrow> (Inl e, r)
            | Inr new_bytes \<Rightarrow>
                (case deliver_contiguous r of
                   (Inl e, r) \<Rightarrow> (Inl e, r)
                 | (Inr _, r) \<Rightarrow> (Inr new_bytes, r)))"

fun sum_ranges :: "(u64 \<times> u64) list \<Rightarrow> usize \<Rightarrow> core_error + usize" where
  "sum_ranges [] acc = Inr acc"
| "sum_ranges ((s, e) # us) acc =
     and_then (ok_or InvalidOffset (checked_add_usize acc (unat (e - s)))) (\<lambda>acc.
     sum_ranges us acc)"

definition rcv_new_bytes :: "receive_stream \<Rightarrow> u64 \<Rightarrow> bytes \<Rightarrow> core_error + usize" where
  "rcv_new_bytes r offset data =
     and_then (ok_or InvalidOffset (checked_add offset (of_nat (length data)))) (\<lambda>stop.
     if stop > rcv_max_offset r then Inl (FlowControlViolation (Some (rcv_stream_id r)))
     else sum_ranges (uncovered_ranges r offset stop) 0)"

definition rcv_read :: "receive_stream \<Rightarrow> usize \<Rightarrow> bytes \<times> receive_stream" where
  "rcv_read r max_len =
     (let amount = min max_len (length (rcv_ready r))
      in (take amount (rcv_ready r), r\<lparr>rcv_ready := drop amount (rcv_ready r)\<rparr>))"

definition rcv_readable :: "receive_stream \<Rightarrow> bool" where
  "rcv_readable r \<longleftrightarrow> rcv_ready r \<noteq> []"

definition rcv_is_finished :: "receive_stream \<Rightarrow> bool" where
  "rcv_is_finished r \<longleftrightarrow>
     (\<exists>f. rcv_final_offset r = Some f \<and> rcv_next_offset r = f \<and> rcv_ready r = [])"

definition rcv_buffered_len :: "receive_stream \<Rightarrow> usize" where
  "rcv_buffered_len r = length (rcv_ready r) + sum_list (map length (bt_values (rcv_segments r)))"

section \<open>Segments\<close>

definition seg_span :: "u64 \<times> bytes \<Rightarrow> nat set" where
  "seg_span sd = {unat (fst sd) ..< unat (fst sd) + length (snd sd)}"

definition seg_set :: "segments \<Rightarrow> nat set" where
  "seg_set segs = (\<Union>sd \<in> set segs. seg_span sd)"

definition before :: "u64 \<times> bytes \<Rightarrow> u64 \<times> bytes \<Rightarrow> bool" where
  "before a b \<longleftrightarrow> unat (fst a) + length (snd a) \<le> unat (fst b)"

definition seg_fits :: "u64 \<times> bytes \<Rightarrow> bool" where
  "seg_fits sd \<longleftrightarrow> snd sd \<noteq> [] \<and> unat (fst sd) + length (snd sd) < 2 ^ 64"

text \<open>Segments are non-empty, in order, and do not overlap.\<close>

definition seg_ok :: "segments \<Rightarrow> bool" where
  "seg_ok segs \<longleftrightarrow> sorted_wrt before segs \<and> (\<forall>sd \<in> set segs. seg_fits sd)"

lemma seg_ok_simps [simp]:
  "seg_ok []"
  "seg_ok (sd # segs) \<longleftrightarrow> seg_fits sd \<and> (\<forall>x \<in> set segs. before sd x) \<and> seg_ok segs"
  by (auto simp: seg_ok_def)

lemma seg_set_simps [simp]:
  "seg_set [] = {}"
  "seg_set (sd # segs) = seg_span sd \<union> seg_set segs"
  "seg_set (xs @ ys) = seg_set xs \<union> seg_set ys"
  by (auto simp: seg_set_def)

lemma seg_ok_keys: "seg_ok segs \<Longrightarrow> bt_inv segs"
proof (induction segs)
  case (Cons sd segs)
  then have "\<forall>x \<in> set segs. unat (fst sd) < unat (fst x)"
    by (auto simp: before_def seg_fits_def neq_Nil_conv)
  with Cons show ?case
    by (cases sd) (auto simp: bt_keys_def word_less_nat_alt)
qed simp

lemma seg_end: "seg_fits sd \<Longrightarrow> unat (saturating_add (fst sd) (of_nat (length (snd sd)))) = unat (fst sd) + length (snd sd)"
  by (auto simp: seg_fits_def unat_saturating_add unat_of_nat_small)

lemma span_before: "seg_fits x \<Longrightarrow> seg_fits y \<Longrightarrow> seg_span x \<inter> seg_span y = {} \<Longrightarrow> before x y \<or> before y x"
  by (force simp: seg_span_def before_def seg_fits_def)

lemma seg_ok_insert:
  assumes "seg_ok segs" "seg_fits (s, d)" "seg_span (s, d) \<inter> seg_set segs = {}"
  shows "seg_ok (bt_insert s d segs) \<and> set (bt_insert s d segs) = insert (s, d) (set segs)"
  using assms
proof (induction s d segs rule: bt_insert.induct)
  case (2 k v k' v' m)
  have d: "before (k, v) (k', v') \<or> before (k', v') (k, v)"
    using "2.prems" by (intro span_before) auto
  have "k \<noteq> k'"
    using "2.prems" by (force simp: seg_span_def seg_fits_def)
  moreover have "before (k, v) x" if "before (k, v) (k', v')" "before (k', v') x" for x
    using that by (simp add: before_def)
  moreover have "before (k, v) (k', v') \<Longrightarrow> k < k'" "before (k', v') (k, v) \<Longrightarrow> k' < k"
    using "2.prems" by (auto simp: before_def seg_fits_def word_less_nat_alt neq_Nil_conv)
  ultimately show ?case
    using 2 d by (auto simp: Int_Un_distrib)
qed simp

section \<open>Uncovered ranges\<close>

definition range_set :: "(u64 \<times> u64) list \<Rightarrow> nat set" where
  "range_set us = (\<Union>(a, b) \<in> set us. {unat a ..< unat b})"

text \<open>The ranges found: in order, non-empty, not overlapping, between the bounds.\<close>

definition ranges_ok :: "nat \<Rightarrow> nat \<Rightarrow> (u64 \<times> u64) list \<Rightarrow> bool" where
  "ranges_ok lo hi us \<longleftrightarrow>
     sorted_wrt (\<lambda>x y. unat (snd x) \<le> unat (fst y)) us
     \<and> (\<forall>(a, b) \<in> set us. lo \<le> unat a \<and> unat a < unat b \<and> unat b \<le> hi)"

lemma range_set_simps [simp]:
  "range_set [] = {}"
  "range_set ((a, b) # us) = {unat a ..< unat b} \<union> range_set us"
  by (auto simp: range_set_def)

lemma finite_range_set: "finite (range_set us)"
  by (auto simp: range_set_def)

lemma ranges_ok_simps [simp]:
  "ranges_ok lo hi []"
  "ranges_ok lo hi ((a, b) # us) \<longleftrightarrow> lo \<le> unat a \<and> unat a < unat b \<and> unat b \<le> hi
     \<and> (\<forall>y \<in> set us. unat b \<le> unat (fst y)) \<and> ranges_ok lo hi us"
  by (auto simp: ranges_ok_def)

lemma ranges_ok_mono: "ranges_ok lo hi us \<Longrightarrow> lo' \<le> lo \<Longrightarrow> ranges_ok lo' hi us"
  by (force simp: ranges_ok_def)

lemma ranges_ok_lower: "ranges_ok lo hi us \<Longrightarrow> y \<in> set us \<Longrightarrow> lo \<le> unat (fst y)"
  by (force simp: ranges_ok_def)

lemma uncovered_loop_correct:
  assumes "seg_ok segs"
  shows "ranges_ok (unat c) (unat e) (uncovered_loop e c (takeWhile (\<lambda>(s, _). s < e) segs))
     \<and> range_set (uncovered_loop e c (takeWhile (\<lambda>(s, _). s < e) segs))
         = {unat c ..< unat e} - seg_set segs"
  using assms
proof (induction segs arbitrary: c)
  case Nil
  then show ?case
    by (simp add: word_less_nat_alt)
next
  case (Cons sd segs)
  obtain s d where sd: "sd = (s, d)"
    by fastforce
  let ?stop = "saturating_add s (of_nat (length d))"
  have stop: "unat ?stop = unat s + length d"
    using Cons.prems seg_end [of sd] by (simp add: sd)
  show ?case
  proof (cases "s < e")
    case False
    then have "seg_set (sd # segs) \<inter> {unat c ..< unat e} = {}"
      using Cons.prems by (fastforce simp: sd seg_set_def seg_span_def before_def word_less_nat_alt)
    with False show ?thesis
      by (auto simp: sd word_less_nat_alt)
  next
    case True
    have ok: "seg_ok segs" and later: "\<And>n. n \<in> seg_set segs \<Longrightarrow> unat s + length d \<le> n"
      using Cons.prems by (auto simp: sd seg_set_def seg_span_def before_def)
    note IH = Cons.IH [OF ok]
    show ?thesis
    proof (cases "?stop \<le> c")
      case le: True
      then show ?thesis
        using True IH [of c] stop by (auto simp: sd seg_span_def word_le_nat_alt)
    next
      case gt: False
      show ?thesis
      proof (cases "?stop \<ge> e")
        case True
        then show ?thesis
          using \<open>s < e\<close> gt stop later
          by (auto simp: sd Let_def seg_span_def word_le_nat_alt word_less_nat_alt unat_min unat_max
              dest!: later)
      next
        case False
        then show ?thesis
          using \<open>s < e\<close> gt stop later IH [of ?stop]
          by (auto simp: sd Let_def seg_span_def word_le_nat_alt word_less_nat_alt unat_min unat_max
              max_def dest!: later dest: ranges_ok_lower elim: ranges_ok_mono)
      qed
    qed
  qed
qed

section \<open>Insertion and delivery\<close>

text \<open>\<open>stream_holds src segs\<close>: the segments carry the bytes of the sender's stream \<open>src\<close>.\<close>

definition stream_holds :: "(nat \<Rightarrow> u8) \<Rightarrow> segments \<Rightarrow> bool" where
  "stream_holds src segs \<longleftrightarrow>
     (\<forall>(s, d) \<in> set segs. d = map src [unat s ..< unat s + length d])"

definition covered :: "receive_stream \<Rightarrow> nat set" where
  "covered r = {..< unat (rcv_next_offset r)} \<union> seg_set (rcv_segments r)"

definition rcv_inv :: "receive_stream \<Rightarrow> bool" where
  "rcv_inv r \<longleftrightarrow> seg_ok (rcv_segments r)
     \<and> (\<forall>sd \<in> set (rcv_segments r). rcv_next_offset r < fst sd)
     \<and> length (rcv_ready r) \<le> unat (rcv_next_offset r)"

text \<open>The bytes still to be read are the last ones delivered, and the waiting segments agree too.\<close>

definition rcv_carries :: "(nat \<Rightarrow> u8) \<Rightarrow> receive_stream \<Rightarrow> bool" where
  "rcv_carries src r \<longleftrightarrow> stream_holds src (rcv_segments r)
     \<and> rcv_ready r = map src [unat (rcv_next_offset r) - length (rcv_ready r) ..< unat (rcv_next_offset r)]"

lemma chunk_of_stream:
  assumes "data = map src [p ..< p + length data]" "p \<le> a" "a \<le> b" "b \<le> p + length data"
  shows "take (b - a) (drop (a - p) data) = map src [a ..< b]"
proof -
  have "take (b - a) (drop (a - p) data) = map src (take (b - a) (drop (a - p) [p ..< p + length data]))"
    by (subst assms(1)) (simp add: take_map drop_map)
  also have "take (b - a) (drop (a - p) [p ..< p + length data]) = [a ..< b]"
    using assms(2-4) by (simp add: drop_upt take_upt)
  finally show ?thesis .
qed

lemma insert_chunks_correct:
  assumes "seg_ok segs" "ranges_ok (unat offset) (unat offset + length data) us"
    and "range_set us \<inter> seg_set segs = {}" "unat offset + length data < 2 ^ 64"
    and "n + card (range_set us) < usize_limit"
  shows "\<exists>segs'. insert_chunks offset data us segs n = (Inr (n + card (range_set us)), segs')
     \<and> seg_ok segs' \<and> seg_set segs' = seg_set segs \<union> range_set us
     \<and> fst ` set segs' = fst ` set segs \<union> fst ` set us
     \<and> (stream_holds src segs \<longrightarrow> data = map src [unat offset ..< unat offset + length data]
          \<longrightarrow> stream_holds src segs')"
  using assms
proof (induction us arbitrary: segs n)
  case (Cons u us)
  obtain a b where u: "u = (a, b)"
    by fastforce
  have ab: "unat offset \<le> unat a" "unat a < unat b" "unat b \<le> unat offset + length data"
    using Cons.prems(2) by (auto simp: u)
  have sub: "unat (a - offset) = unat a - unat offset" "unat (b - offset) = unat b - unat offset"
    using ab by (simp_all add: unat_sub word_le_nat_alt)
  let ?chunk = "take (unat b - unat a) (drop (unat a - unat offset) data)"
  have len: "length ?chunk = unat b - unat a"
    using ab by simp
  have slice: "slice data (unat (a - offset)) (unat (b - offset)) = Some ?chunk"
    unfolding sub using ab by (auto simp: slice_def)
  have span: "seg_span (a, ?chunk) = {unat a ..< unat b}"
    using ab len by (simp add: seg_span_def)
  have fits: "seg_fits (a, ?chunk)"
    using ab len unsigned_less [of b, where 'a = nat] by (auto simp: seg_fits_def)
  have ins: "seg_ok (bt_insert a ?chunk segs)" "set (bt_insert a ?chunk segs) = insert (a, ?chunk) (set segs)"
    using seg_ok_insert [OF Cons.prems(1) fits] Cons.prems(3) span by (auto simp: u)
  have set': "seg_set (bt_insert a ?chunk segs) = seg_set segs \<union> {unat a ..< unat b}"
    using ins(2) span by (auto simp: seg_set_def)
  have disj: "{unat a ..< unat b} \<inter> range_set us = {}"
    using Cons.prems(2) by (fastforce simp: u range_set_def)
  have card: "card (range_set (u # us)) = (unat b - unat a) + card (range_set us)"
    using disj finite_range_set [of us] by (simp add: u card_Un_disjoint)
  have min: "min (n + length ?chunk) (usize_limit - 1) = n + (unat b - unat a)"
    using Cons.prems(5) len card by simp
  have "data = map src [unat offset ..< unat offset + length data] \<Longrightarrow>
      ?chunk = map src [unat a ..< unat a + length ?chunk]"
    using chunk_of_stream [of data src "unat offset" "unat a" "unat b"] ab len by simp
  then have holds: "stream_holds src segs \<Longrightarrow> data = map src [unat offset ..< unat offset + length data]
      \<Longrightarrow> stream_holds src (bt_insert a ?chunk segs)"
    using ins(2) by (simp add: stream_holds_def)
  have hyps: "ranges_ok (unat offset) (unat offset + length data) us"
    "range_set us \<inter> seg_set (bt_insert a ?chunk segs) = {}"
    "n + (unat b - unat a) + card (range_set us) < usize_limit"
    using Cons.prems disj set' card by (auto simp: u)
  note IH = Cons.IH [OF ins(1) hyps(1,2) Cons.prems(4) hyps(3)]
  have "insert_chunks offset data (u # us) segs n =
      insert_chunks offset data us (bt_insert a ?chunk segs) (n + (unat b - unat a))"
    unfolding u by (simp only: insert_chunks.simps slice option.case min)
  moreover have "n + (unat b - unat a) + card (range_set us) = n + card (range_set (u # us))"
    using card by simp
  moreover have "seg_set (bt_insert a ?chunk segs) \<union> range_set us = seg_set segs \<union> range_set (u # us)"
    "fst ` set (bt_insert a ?chunk segs) \<union> fst ` set us = fst ` set segs \<union> fst ` set (u # us)"
    using set' ins(2) by (auto simp: u)
  ultimately show ?case
    using IH holds by metis
qed simp

lemma map_upt_split: "p \<le> q \<Longrightarrow> q \<le> r \<Longrightarrow> map f [p ..< r] = map f [p ..< q] @ map f [q ..< r]"
  by (metis le_Suc_ex map_append upt_add_eq_append)

lemma deliver_contiguous_correct:
  assumes "seg_ok (rcv_segments r)" "\<forall>sd \<in> set (rcv_segments r). rcv_next_offset r \<le> fst sd"
    and "length (rcv_ready r) \<le> unat (rcv_next_offset r)"
  shows "\<exists>r'. deliver_contiguous r = (Inr (), r') \<and> rcv_inv r' \<and> covered r' = covered r
     \<and> (rcv_carries src r \<longrightarrow> rcv_carries src r')
     \<and> rcv_final_offset r' = rcv_final_offset r \<and> rcv_max_offset r' = rcv_max_offset r
     \<and> rcv_stream_id r' = rcv_stream_id r
     \<and> unat (rcv_next_offset r') - length (rcv_ready r') = unat (rcv_next_offset r) - length (rcv_ready r)"
  using assms
proof (induction r rule: deliver_contiguous.induct)
  case (1 r)
  let ?next = "rcv_next_offset r"
  show ?case
  proof (cases "bt_get (rcv_segments r) ?next")
    case None
    have "?next \<notin> fst ` set (rcv_segments r)"
      using None by (simp add: bt_get_def map_of_eq_None_iff)
    then have "rcv_inv r"
      using "1.prems" by (force simp: rcv_inv_def order_le_less)
    with None show ?thesis
      by (simp add: deliver_contiguous.simps)
  next
    case (Some d)
    have inv: "bt_inv (rcv_segments r)"
      using "1.prems" seg_ok_keys by blast
    have mem: "(?next, d) \<in> set (rcv_segments r)"
      using bt.entries_get [OF inv] Some by simp
    have fits: "seg_fits (?next, d)"
      using "1.prems"(1) mem by (auto simp: seg_ok_def)
    have sum: "unat (?next + of_nat (length d)) = unat ?next + length d"
      and add: "checked_add ?next (of_nat (length d)) = Some (?next + of_nat (length d))"
      using fits by (auto simp: seg_fits_def unat_of_nat_small result_simps word_nat_simps)
    let ?segs = "bt_remove ?next (rcv_segments r)"
    let ?r = "r\<lparr>rcv_segments := ?segs, rcv_next_offset := ?next + of_nat (length d),
        rcv_ready := rcv_ready r @ d\<rparr>"
    have segs: "set ?segs = set (rcv_segments r) - {(?next, d)}"
      using bt.entries_remove [OF inv, of ?next] mem bt.entries_get [OF inv] by auto
    have ok: "seg_ok ?segs"
      using "1.prems"(1) by (auto simp: seg_ok_def bt_remove_def intro: sorted_wrt_filter)
    have after: "unat ?next + length d \<le> unat (fst sd)" if "sd \<in> set ?segs" for sd
    proof -
      have "sd \<in> set (rcv_segments r)" "fst sd \<noteq> ?next"
        using that by (auto simp: bt_remove_def)
      then have "before (?next, d) sd \<or> before sd (?next, d)"
        using "1.prems"(1) mem by (auto simp: seg_ok_def sorted_wrt_iff_nth_less in_set_conv_nth)
          (metis nat_neq_iff fst_conv snd_conv)
      moreover have "unat ?next \<le> unat (fst sd)" "seg_fits sd"
        using "1.prems"(1,2) \<open>sd \<in> set (rcv_segments r)\<close> by (auto simp: word_le_nat_alt seg_ok_def)
      ultimately show ?thesis
        by (auto simp: before_def seg_fits_def neq_Nil_conv)
    qed
    have cov: "covered ?r = covered r"
    proof -
      have "seg_set (rcv_segments r) = seg_span (?next, d) \<union> seg_set ?segs"
        using segs mem by (auto simp: seg_set_def)
      then show ?thesis
        using sum by (auto simp: covered_def seg_span_def)
    qed
    have carries: "rcv_carries src r \<Longrightarrow> rcv_carries src ?r"
    proof -
      assume c: "rcv_carries src r"
      then have "d = map src [unat ?next ..< unat ?next + length d]"
        using mem by (auto simp: rcv_carries_def stream_holds_def)
      moreover have "stream_holds src ?segs"
        using c segs by (auto simp: rcv_carries_def stream_holds_def)
      ultimately show "rcv_carries src ?r"
        using c "1.prems"(3) sum map_upt_split [of "unat ?next - length (rcv_ready r)" "unat ?next"
            "unat ?next + length d" src]
        by (simp add: rcv_carries_def)
    qed
    have "\<exists>r'. deliver_contiguous ?r = (Inr (), r') \<and> rcv_inv r' \<and> covered r' = covered ?r
       \<and> (rcv_carries src ?r \<longrightarrow> rcv_carries src r')
       \<and> rcv_final_offset r' = rcv_final_offset ?r \<and> rcv_max_offset r' = rcv_max_offset ?r
       \<and> rcv_stream_id r' = rcv_stream_id ?r
       \<and> unat (rcv_next_offset r') - length (rcv_ready r') = unat (rcv_next_offset ?r) - length (rcv_ready ?r)"
      using "1.IH" [OF Some refl, of "?next + of_nat (length d)"] add ok after sum "1.prems"(3)
      by (simp add: word_le_nat_alt)
    moreover have "deliver_contiguous r = deliver_contiguous ?r"
      using Some add by (subst deliver_contiguous.simps) simp
    ultimately show ?thesis
      using cov carries sum by auto
  qed
qed

lemma uncovered_ranges_correct:
  assumes "rcv_inv r" "offset \<le> stop"
  shows "ranges_ok (unat (max offset (rcv_next_offset r))) (unat stop) (uncovered_ranges r offset stop)"
    and "range_set (uncovered_ranges r offset stop) = {unat offset ..< unat stop} - covered r"
  using uncovered_loop_correct [of "rcv_segments r" "max offset (rcv_next_offset r)" stop] assms
  by (auto simp: uncovered_ranges_def rcv_inv_def covered_def unat_max word_le_nat_alt)

lemma rcv_insert_accepted:
  assumes inv: "rcv_inv r" and fits: "unat offset + length data < 2 ^ 64"
    and lim: "offset + of_nat (length data) \<le> rcv_max_offset r"
    and fin: "\<And>f. rcv_final_offset r = Some f \<Longrightarrow>
      if fin then f = offset + of_nat (length data) else offset + of_nat (length data) \<le> f"
  shows "\<exists>r'. rcv_insert r offset data fin =
       (Inr (card ({unat offset ..< unat offset + length data} - covered r)), r')
     \<and> rcv_inv r' \<and> covered r' = covered r \<union> {unat offset ..< unat offset + length data}
     \<and> (rcv_carries src r \<and> data = map src [unat offset ..< unat offset + length data]
          \<longrightarrow> rcv_carries src r')
     \<and> rcv_final_offset r' = (if fin then Some (offset + of_nat (length data)) else rcv_final_offset r)
     \<and> rcv_max_offset r' = rcv_max_offset r
     \<and> unat (rcv_next_offset r') - length (rcv_ready r') = unat (rcv_next_offset r) - length (rcv_ready r)"
proof -
  let ?stop = "offset + of_nat (length data)"
  have stop: "unat ?stop = unat offset + length data"
    and add: "checked_add offset (of_nat (length data)) = Some ?stop"
    using fits by (auto simp: unat_of_nat_small result_simps word_nat_simps)
  define r0 where "r0 = (if fin then r\<lparr>rcv_final_offset := Some ?stop\<rparr> else r)"
  have r0: "rcv_inv r0" "covered r0 = covered r" "rcv_segments r0 = rcv_segments r"
    "rcv_next_offset r0 = rcv_next_offset r" "rcv_ready r0 = rcv_ready r" "rcv_max_offset r0 = rcv_max_offset r"
    "rcv_carries src r0 = rcv_carries src r"
    using inv by (auto simp: r0_def rcv_inv_def covered_def rcv_carries_def)
  let ?us = "uncovered_ranges r0 offset ?stop"
  note us = uncovered_ranges_correct [OF r0(1), of offset ?stop]
  have le: "offset \<le> ?stop"
    using stop by (simp add: word_le_nat_alt)
  have set: "range_set ?us = {unat offset ..< unat offset + length data} - covered r"
    using us(2) [OF le] r0(2) stop by simp
  have rok: "ranges_ok (unat offset) (unat offset + length data) ?us"
    using ranges_ok_mono [OF us(1) [OF le]] stop by (simp add: unat_max)
  have "card (range_set ?us) \<le> length data"
    unfolding set by (rule order_trans [OF card_mono [of "{unat offset ..< unat offset + length data}"]]) auto
  then have small: "0 + card (range_set ?us) < usize_limit"
    using fits by (simp add: usize_limit_def)
  have disj: "range_set ?us \<inter> seg_set (rcv_segments r) = {}"
    unfolding set by (auto simp: covered_def)
  have ok: "seg_ok (rcv_segments r)"
    using inv by (simp add: rcv_inv_def)
  obtain segs where segs: "insert_chunks offset data ?us (rcv_segments r) 0 =
      (Inr (card (range_set ?us)), segs)" "seg_ok segs"
    "seg_set segs = seg_set (rcv_segments r) \<union> range_set ?us"
    "fst ` set segs = fst ` set (rcv_segments r) \<union> fst ` set ?us"
    "stream_holds src (rcv_segments r) \<longrightarrow> data = map src [unat offset ..< unat offset + length data]
       \<longrightarrow> stream_holds src segs"
    using insert_chunks_correct [OF ok rok disj fits small, of src] by auto
  let ?r1 = "r0\<lparr>rcv_segments := segs\<rparr>"
  have "rcv_next_offset r \<le> fst sd" if "sd \<in> set segs" for sd
  proof -
    have "fst sd \<in> fst ` set (rcv_segments r) \<or> fst sd \<in> fst ` set ?us"
      using segs(4) that by blast
    then show ?thesis
      using inv us(1) [OF le] r0(4)
      by (auto simp: rcv_inv_def ranges_ok_def word_le_nat_alt word_less_nat_alt unat_max
          intro: less_imp_le)
  qed
  then obtain r' where r': "deliver_contiguous ?r1 = (Inr (), r')" "rcv_inv r'" "covered r' = covered ?r1"
    "rcv_carries src ?r1 \<longrightarrow> rcv_carries src r'"
    "rcv_final_offset r' = rcv_final_offset ?r1" "rcv_max_offset r' = rcv_max_offset ?r1"
    "unat (rcv_next_offset r') - length (rcv_ready r') = unat (rcv_next_offset ?r1) - length (rcv_ready ?r1)"
    using deliver_contiguous_correct [of ?r1 src] segs(2) r0 inv by (auto simp: rcv_inv_def)
  have "covered ?r1 = covered r \<union> {unat offset ..< unat offset + length data}"
    using segs(3) set r0 by (auto simp: covered_def)
  moreover have "rcv_insert r offset data fin = (Inr (card (range_set ?us)), r')"
    using add lim fin segs(1) r'(1) r0(3)
    by (auto simp: rcv_insert_def Let_def r0_def [symmetric] not_less split: if_splits)
  moreover have "rcv_carries src r \<and> data = map src [unat offset ..< unat offset + length data]
      \<longrightarrow> rcv_carries src ?r1"
    using segs(5) r0 by (simp add: rcv_carries_def)
  moreover have "rcv_final_offset r0 = (if fin then Some ?stop else rcv_final_offset r)"
    by (simp add: r0_def)
  ultimately show ?thesis
    using r' r0 set by auto
qed

text \<open>The three reasons to refuse data: the offsets overflow, the end lies beyond the advertised window,
  or the end contradicts a final offset announced before.\<close>

definition rcv_refuses :: "receive_stream \<Rightarrow> u64 \<Rightarrow> bytes \<Rightarrow> bool \<Rightarrow> core_error option" where
  "rcv_refuses r offset data fin =
     (if 2 ^ 64 \<le> unat offset + length data then Some InvalidOffset
      else if unat (rcv_max_offset r) < unat offset + length data then
        Some (FlowControlViolation (Some (rcv_stream_id r)))
      else case rcv_final_offset r of
        None \<Rightarrow> None
      | Some f \<Rightarrow>
          if (if fin then unat f \<noteq> unat offset + length data else unat f < unat offset + length data)
          then Some InvalidOffset else None)"

lemma rcv_insert_refused:
  assumes "length data < 2 ^ 64" "rcv_refuses r offset data fin = Some e"
  shows "rcv_insert r offset data fin = (Inl e, r)"
proof (cases "2 ^ 64 \<le> unat offset + length data")
  case True
  with assms show ?thesis
    by (simp add: rcv_refuses_def rcv_insert_def checked_add_def unat_of_nat_small)
next
  case False
  then have "checked_add offset (of_nat (length data)) = Some (offset + of_nat (length data))"
    "unat (offset + of_nat (length data)) = unat offset + length data"
    using assms(1) by (auto simp: unat_of_nat_small result_simps word_nat_simps)
  with False assms(2) show ?thesis
    by (auto simp: rcv_refuses_def rcv_insert_def word_less_nat_alt word_unat_eq_iff
        split: if_splits option.splits)
qed

lemma rcv_insert_taken:
  assumes "rcv_inv r" "rcv_refuses r offset data fin = None"
  shows "\<exists>r'. rcv_insert r offset data fin =
       (Inr (card ({unat offset ..< unat offset + length data} - covered r)), r')
     \<and> rcv_inv r' \<and> covered r' = covered r \<union> {unat offset ..< unat offset + length data}
     \<and> (rcv_carries src r \<and> data = map src [unat offset ..< unat offset + length data]
          \<longrightarrow> rcv_carries src r')
     \<and> unat (rcv_next_offset r') - length (rcv_ready r') = unat (rcv_next_offset r) - length (rcv_ready r)"
proof -
  have fits: "unat offset + length data < 2 ^ 64"
    using assms(2) by (simp add: rcv_refuses_def split: if_splits)
  then have stop: "unat (offset + of_nat (length data)) = unat offset + length data"
    by (simp add: unat_of_nat_small word_nat_simps)
  have "offset + of_nat (length data) \<le> rcv_max_offset r"
    using assms(2) stop by (simp add: rcv_refuses_def word_le_nat_alt split: if_splits)
  moreover have "if fin then f = offset + of_nat (length data) else offset + of_nat (length data) \<le> f"
    if "rcv_final_offset r = Some f" for f
    using assms(2) stop that
    by (auto simp: rcv_refuses_def word_le_nat_alt word_unat_eq_iff split: if_splits)
  ultimately show ?thesis
    using rcv_insert_accepted [OF assms(1) fits, of fin src] by blast
qed

text \<open>The next offset is the first position not covered, so all contiguous data has been delivered.\<close>

lemma next_offset_first_gap:
  "rcv_inv r \<Longrightarrow> unat (rcv_next_offset r) \<notin> covered r \<and> {..< unat (rcv_next_offset r)} \<subseteq> covered r"
  by (auto simp: rcv_inv_def covered_def seg_set_def seg_span_def word_less_nat_alt)

section \<open>Sequences of arrivals and reads\<close>

datatype rcv_op = Arrive u64 bytes bool | Read usize | Widen u64

text \<open>Runs a sequence of operations and collects what the reads return.\<close>

fun rcv_run :: "receive_stream \<Rightarrow> rcv_op list \<Rightarrow> bytes \<times> receive_stream" where
  "rcv_run r [] = ([], r)"
| "rcv_run r (Arrive offset data fin # ops) = rcv_run (snd (rcv_insert r offset data fin)) ops"
| "rcv_run r (Read n # ops) =
     (let (bs, r') = rcv_read r n; (cs, r'') = rcv_run r' ops in (bs @ cs, r''))"
| "rcv_run r (Widen m # ops) = rcv_run (rcv_set_max_offset r m) ops"

text \<open>Every arrival carries a piece of the stream \<open>src\<close>.\<close>

fun sent_from :: "(nat \<Rightarrow> u8) \<Rightarrow> rcv_op \<Rightarrow> bool" where
  "sent_from src (Arrive offset data fin) \<longleftrightarrow>
     length data < 2 ^ 64 \<and> data = map src [unat offset ..< unat offset + length data]"
| "sent_from src (Read n) \<longleftrightarrow> True"
| "sent_from src (Widen m) \<longleftrightarrow> True"

definition read_position :: "receive_stream \<Rightarrow> nat" where
  "read_position r = unat (rcv_next_offset r) - length (rcv_ready r)"

lemma set_max_offset_simps [simp]:
  "rcv_inv (rcv_set_max_offset r m) = rcv_inv r"
  "rcv_carries src (rcv_set_max_offset r m) = rcv_carries src r"
  "read_position (rcv_set_max_offset r m) = read_position r"
  "covered (rcv_set_max_offset r m) = covered r"
  "rcv_final_offset (rcv_set_max_offset r m) = rcv_final_offset r"
  by (simp_all add: rcv_set_max_offset_def rcv_inv_def rcv_carries_def read_position_def covered_def)

lemma arrival_keeps:
  assumes "rcv_inv r" "rcv_carries src r" "sent_from src (Arrive offset data fin)"
  shows "rcv_inv (snd (rcv_insert r offset data fin)) \<and> rcv_carries src (snd (rcv_insert r offset data fin))
     \<and> read_position (snd (rcv_insert r offset data fin)) = read_position r"
proof (cases "rcv_refuses r offset data fin")
  case None
  obtain r' where "rcv_insert r offset data fin =
       (Inr (card ({unat offset ..< unat offset + length data} - covered r)), r')" "rcv_inv r'"
    "rcv_carries src r'" "read_position r' = read_position r"
    using rcv_insert_taken [OF assms(1) None, of src] assms(2,3) unfolding read_position_def by auto
  then show ?thesis
    by simp
next
  case (Some e)
  with rcv_insert_refused [OF _ Some] assms show ?thesis
    by simp
qed

lemma read_keeps:
  assumes "rcv_inv r" "rcv_carries src r" "rcv_read r n = (bs, r')"
  shows "rcv_inv r' \<and> rcv_carries src r' \<and> read_position r' = read_position r + length bs
     \<and> bs = map src [read_position r ..< read_position r']"
proof -
  let ?k = "min n (length (rcv_ready r))" and ?p = "read_position r" and ?q = "unat (rcv_next_offset r)"
  have p: "?p + length (rcv_ready r) = ?q"
    using assms(1) by (simp add: read_position_def rcv_inv_def)
  have r': "bs = take ?k (rcv_ready r)" "r' = r\<lparr>rcv_ready := drop ?k (rcv_ready r)\<rparr>"
    using assms(3) by (auto simp: rcv_read_def Let_def)
  have ready: "rcv_ready r = map src [?p ..< ?q]"
    using assms(2) by (simp add: rcv_carries_def read_position_def)
  have pos: "read_position r' = ?p + ?k"
    using p by (simp add: r' read_position_def)
  have "bs = map src [?p ..< ?p + ?k]" "rcv_ready r' = map src [?p + ?k ..< ?q]"
    using p by (simp_all add: r' ready take_map drop_map take_upt drop_upt)
  moreover have "length (rcv_ready r') = ?q - (?p + ?k)"
    using p by (simp add: r')
  ultimately show ?thesis
    using assms(1,2) pos p by (auto simp: r' rcv_inv_def rcv_carries_def)
qed

lemma rcv_run_in_order:
  assumes "rcv_inv r" "rcv_carries src r" "\<forall>op \<in> set ops. sent_from src op" "rcv_run r ops = (out, r')"
  shows "out = map src [read_position r ..< read_position r'] \<and> read_position r \<le> read_position r'
     \<and> rcv_inv r' \<and> rcv_carries src r'"
  using assms
proof (induction r ops arbitrary: out rule: rcv_run.induct)
  case (2 r offset data fin ops)
  then show ?case
    using arrival_keeps [of r src offset data fin] by simp
next
  case (3 r n ops)
  obtain bs r1 cs where "rcv_read r n = (bs, r1)" "rcv_run r1 ops = (cs, r')" "out = bs @ cs"
    using "3.prems"(4) by (auto simp: Let_def split: prod.splits)
  with 3 read_keeps [of r src n bs r1] show ?case
    using map_upt_split [of "read_position r" "read_position r1" "read_position r'" src] by fastforce
qed simp_all

fun op_within :: "nat \<Rightarrow> rcv_op \<Rightarrow> bool" where
  "op_within n (Arrive offset data fin) \<longleftrightarrow> unat offset + length data \<le> n"
| "op_within n (Read k) \<longleftrightarrow> True"
| "op_within n (Widen m) \<longleftrightarrow> True"

lemma arrival_covers:
  assumes "rcv_inv r" "length data < 2 ^ 64" "unat offset + length data \<le> n" "covered r \<subseteq> {..< n}"
  shows "covered (snd (rcv_insert r offset data fin)) \<subseteq> {..< n} \<and> rcv_inv (snd (rcv_insert r offset data fin))"
proof (cases "rcv_refuses r offset data fin")
  case None
  obtain m r' where "rcv_insert r offset data fin = (Inr m, r')" "rcv_inv r'"
    "covered r' = covered r \<union> {unat offset ..< unat offset + length data}"
    using rcv_insert_taken [OF assms(1) None, of "\<lambda>_. 0"] by auto
  with assms show ?thesis
    by auto
next
  case (Some e)
  with rcv_insert_refused [OF assms(2) Some] assms show ?thesis
    by simp
qed

lemma rcv_run_within:
  assumes "rcv_inv r" "rcv_carries src r" "\<forall>op \<in> set ops. sent_from src op" "\<forall>op \<in> set ops. op_within n op"
    and "covered r \<subseteq> {..< n}" "rcv_run r ops = (out, r')"
  shows "covered r' \<subseteq> {..< n}"
  using assms
proof (induction r ops arbitrary: out rule: rcv_run.induct)
  case (2 r offset data fin ops)
  then show ?case
    using arrival_keeps [of r src offset data fin] arrival_covers [of r data offset n fin] by simp
next
  case (3 r k ops)
  obtain bs r1 cs where r1: "rcv_read r k = (bs, r1)" "rcv_run r1 ops = (cs, r')"
    using "3.prems"(6) by (auto simp: Let_def split: prod.splits)
  have "covered r1 = covered r"
    using r1(1) by (auto simp: rcv_read_def Let_def covered_def)
  moreover have "rcv_inv r1" "rcv_carries src r1"
    using read_keeps [OF "3.prems"(1,2) r1(1)] by blast+
  ultimately show ?case
    using "3.IH" [OF refl r1(1) [symmetric], of cs] "3.prems"(3-5) r1(2) by simp
qed simp_all

lemma receive_stream_new_inv: "rcv_inv (receive_stream_new sid m)" "rcv_carries src (receive_stream_new sid m)"
  by (simp_all add: rcv_inv_def rcv_carries_def receive_stream_new_def stream_holds_def)

text \<open>The positions of the arrivals that are not refused.\<close>

fun arrived :: "receive_stream \<Rightarrow> rcv_op list \<Rightarrow> nat set" where
  "arrived r [] = {}"
| "arrived r (Arrive offset data fin # ops) =
     (if rcv_refuses r offset data fin = None then {unat offset ..< unat offset + length data} else {})
     \<union> arrived (snd (rcv_insert r offset data fin)) ops"
| "arrived r (Read n # ops) = arrived (snd (rcv_read r n)) ops"
| "arrived r (Widen m # ops) = arrived (rcv_set_max_offset r m) ops"

lemma rcv_run_covered:
  assumes "rcv_inv r" "rcv_carries src r" "\<forall>op \<in> set ops. sent_from src op" "rcv_run r ops = (out, r')"
  shows "covered r' = covered r \<union> arrived r ops"
  using assms
proof (induction r ops arbitrary: out rule: rcv_run.induct)
  case (2 r offset data fin ops)
  have IH: "covered r' = covered (snd (rcv_insert r offset data fin)) \<union> arrived (snd (rcv_insert r offset data fin)) ops"
    using 2 arrival_keeps [of r src offset data fin] by simp
  show ?case
  proof (cases "rcv_refuses r offset data fin")
    case None
    then have "covered (snd (rcv_insert r offset data fin)) = covered r \<union> {unat offset ..< unat offset + length data}"
      using rcv_insert_taken [OF "2.prems"(1) None] by (metis snd_conv)
    with IH None show ?thesis
      by auto
  next
    case (Some e)
    then show ?thesis
      using IH rcv_insert_refused [OF _ Some] "2.prems"(3) by simp
  qed
next
  case (3 r n ops)
  obtain bs r1 cs where r1: "rcv_read r n = (bs, r1)" "rcv_run r1 ops = (cs, r')"
    using "3.prems"(4) by (auto simp: Let_def split: prod.splits)
  have "covered r1 = covered r"
    using r1(1) by (auto simp: rcv_read_def Let_def covered_def)
  moreover have "rcv_inv r1" "rcv_carries src r1"
    using read_keeps [OF "3.prems"(1,2) r1(1)] by blast+
  ultimately show ?case
    using "3.IH" [OF refl r1(1) [symmetric], of cs] "3.prems"(3) r1 by simp
qed simp_all

text \<open>A final offset comes from an end mark.\<close>

lemma deliver_final: "rcv_final_offset (snd (deliver_contiguous r)) = rcv_final_offset r"
proof (induction r rule: deliver_contiguous.induct)
  case (1 r)
  then show ?case
    by (subst deliver_contiguous.simps) (auto simp: Let_def split: option.splits)
qed

lemma insert_final:
  "rcv_final_offset (snd (rcv_insert r offset data fin)) = rcv_final_offset r
   \<or> fin \<and> unat offset + length data < 2 ^ 64
     \<and> rcv_final_offset (snd (rcv_insert r offset data fin)) = Some (offset + of_nat (length data))"
  if "length data < 2 ^ 64"
proof -
  have "rcv_final_offset y = rcv_final_offset x" if "deliver_contiguous x = (z, y)" for x y z
    using deliver_final [of x] that by simp
  then show ?thesis
    using that
    by (auto simp: rcv_insert_def Let_def checked_add_def unat_of_nat_small
        split: option.splits sum.splits prod.splits if_splits)
qed

lemma rcv_run_final:
  assumes "\<forall>op \<in> set ops. sent_from src op" "rcv_run r ops = (out, r')" "rcv_final_offset r' = Some f"
  shows "rcv_final_offset r = Some f
     \<or> (\<exists>offset data. Arrive offset data True \<in> set ops \<and> unat offset + length data = unat f)"
  using assms
proof (induction r ops arbitrary: out rule: rcv_run.induct)
  case (2 r offset data fin ops)
  have len: "length data < 2 ^ 64"
    using "2.prems"(1) by simp
  then have stop: "unat (of_nat (length data) :: u64) = length data"
    by (simp add: unat_of_nat_small)
  let ?r = "snd (rcv_insert r offset data fin)"
  have "rcv_final_offset ?r = Some f
      \<or> (\<exists>offset data. Arrive offset data True \<in> set ops \<and> unat offset + length data = unat f)"
    using "2.IH" [of out] "2.prems" by simp
  then show ?case
    using insert_final [OF len, of r offset fin] stop by (auto simp: word_nat_simps dest!: spec [of _ offset] spec [of _ data])
next
  case (3 r n ops)
  obtain bs r1 cs where r1: "rcv_read r n = (bs, r1)" "rcv_run r1 ops = (cs, r')"
    using "3.prems"(2) by (auto simp: Let_def split: prod.splits)
  have "rcv_final_offset r1 = rcv_final_offset r"
    using r1(1) by (auto simp: rcv_read_def Let_def)
  then show ?case
    using "3.IH" [OF refl r1(1) [symmetric], of cs] "3.prems" r1 by auto
qed auto

text \<open>What has been read and what is ready to be read is the longest prefix of the stream that has arrived.\<close>

lemma delivered_prefix:
  assumes "\<forall>op \<in> set ops. sent_from src op" "rcv_run (receive_stream_new sid window) ops = (out, r)"
  shows "out @ rcv_ready r = map src [0 ..< unat (rcv_next_offset r)]"
    "{..< unat (rcv_next_offset r)} \<subseteq> arrived (receive_stream_new sid window) ops"
    "unat (rcv_next_offset r) \<notin> arrived (receive_stream_new sid window) ops"
proof -
  have start: "read_position (receive_stream_new sid window) = 0"
    by (simp add: read_position_def receive_stream_new_def)
  have run: "out = map src [0 ..< read_position r]" "rcv_inv r" "rcv_carries src r"
    using rcv_run_in_order [OF receive_stream_new_inv assms] unfolding start by blast+
  have ready: "rcv_ready r = map src [read_position r ..< unat (rcv_next_offset r)]"
    using run(3) unfolding rcv_carries_def read_position_def by blast
  have "read_position r \<le> unat (rcv_next_offset r)"
    by (simp add: read_position_def)
  then have "map src [0 ..< unat (rcv_next_offset r)] = out @ rcv_ready r"
    unfolding run(1) by (subst ready) (rule map_upt_split [OF le0])
  then show "out @ rcv_ready r = map src [0 ..< unat (rcv_next_offset r)]"
    by (rule sym)
  have "covered r = arrived (receive_stream_new sid window) ops"
    using rcv_run_covered [OF receive_stream_new_inv assms] by (simp add: covered_def receive_stream_new_def)
  then show "{..< unat (rcv_next_offset r)} \<subseteq> arrived (receive_stream_new sid window) ops"
    "unat (rcv_next_offset r) \<notin> arrived (receive_stream_new sid window) ops"
    using next_offset_first_gap [OF run(2)] by auto
qed

section \<open>Properties\<close>

text \<open>Reassembly of one arrival: data is refused exactly when its offsets overflow, exceed the
  window or contradict the final offset, and then the stream is unchanged; otherwise the positions
  covered grow by exactly the positions of the data, and the count returned is the number of positions
  that were not covered before. Nothing else can fail: the internal errors never occur.\<close>

theorem insert_reassembles:
  assumes "rcv_inv r" "length data < 2 ^ 64"
  shows "case rcv_refuses r offset data fin of
       Some e \<Rightarrow> rcv_insert r offset data fin = (Inl e, r)
     | None \<Rightarrow> (\<exists>r'. rcv_insert r offset data fin =
           (Inr (card ({unat offset ..< unat offset + length data} - covered r)), r')
         \<and> rcv_inv r' \<and> covered r' = covered r \<union> {unat offset ..< unat offset + length data})"
proof (cases "rcv_refuses r offset data fin")
  case None
  with rcv_insert_taken [OF assms(1) None] show ?thesis
    by auto
next
  case (Some e)
  with rcv_insert_refused [OF assms(2) Some] show ?thesis
    by simp
qed

theorem insert_reassembles_witness:
  "\<exists>r'. rcv_insert (receive_stream_new 1 100) 5 [1, 2, 3] False = (Inr 3, r') \<and> covered r' = {5, 6, 7}"
proof -
  have "{5 ..< 8} = {5, 6, 7 :: nat}"
    by auto
  then show ?thesis
    using insert_reassembles [OF receive_stream_new_inv(1) [of 1 100], of "[1, 2, 3]" 5 False]
    by (auto simp: rcv_refuses_def receive_stream_new_def covered_def)
qed

text \<open>In-order delivery: for any sequence of arrivals of pieces of a stream (reordered, overlapping,
  repeated, partly refused) interleaved with reads of any size, the bytes read from a new receiver are,
  concatenated, a prefix of the stream sent.\<close>

theorem stream_delivered_in_order:
  assumes "\<forall>op \<in> set ops. sent_from src op"
    and "rcv_run (receive_stream_new sid window) ops = (out, r')"
  shows "out = map src [0 ..< length out]"
  using rcv_run_in_order [OF receive_stream_new_inv assms]
  by (auto simp: read_position_def receive_stream_new_def)

theorem stream_delivered_in_order_witness:
  "fst (rcv_run (receive_stream_new 1 100)
     [Arrive 2 [7, 8] True, Arrive 0 [5, 6, 7] False, Read 3, Read 9]) = [5, 6, 7, 8]"
proof -
  let ?ops = "[Arrive 2 [7, 8] True, Arrive 0 [5, 6, 7] False, Read 3, Read 9]"
  let ?src = "\<lambda>n. of_nat n + 5 :: u8"
  obtain out r' where run: "rcv_run (receive_stream_new 1 100) ?ops = (out, r')"
    by fastforce
  then have "length out = 4"
    by (auto simp: rcv_insert_def receive_stream_new_def checked_add_def Let_def uncovered_ranges_def
        deliver_contiguous.simps slice_def usize_limit_def rcv_read_def saturating_add_def bt_remove_def)
  with stream_delivered_in_order [OF _ run, of ?src] run show ?thesis
    by (simp add: upt_rec)
qed

text \<open>C27. No stall: let pieces of a stream arrive at a new receiver in any order, overlapping, repeated or
  refused, interleaved with reads and with changes of the window. At any moment, what has been read and what
  is ready to be read is, together, the longest prefix of the stream all of whose positions have arrived: it
  contains nothing else, and nothing that has arrived without a gap before it is held back. (An arrival
  counts unless it is refused for overflowing offsets, the window, or a contradicted end.)\<close>

theorem contiguous_data_delivered:
  assumes "\<forall>op \<in> set ops. sent_from src op" "rcv_run (receive_stream_new sid window) ops = (out, r)"
  shows "\<exists>n. out @ rcv_ready r = map src [0 ..< n]
     \<and> {..< n} \<subseteq> arrived (receive_stream_new sid window) ops \<and> n \<notin> arrived (receive_stream_new sid window) ops"
  using delivered_prefix [OF assms] by blast

theorem contiguous_data_delivered_witness:
  "let (out, r) = rcv_run (receive_stream_new 1 100) [Arrive 2 [7, 8] True, Read 4, Arrive 0 [5, 6, 7] False, Read 3]
   in out @ rcv_ready r = [5, 6, 7, 8]"
proof -
  let ?ops = "[Arrive 2 [7, 8] True, Read 4, Arrive 0 [5, 6, 7] False, Read 3]"
  let ?src = "\<lambda>n. of_nat n + 5 :: u8"
  obtain out r where run: "rcv_run (receive_stream_new 1 100) ?ops = (out, r)"
    by fastforce
  have "\<forall>op \<in> set ?ops. sent_from ?src op"
    by (simp add: upt_rec)
  from contiguous_data_delivered [OF this run]
  obtain n where n: "out @ rcv_ready r = map ?src [0 ..< n]"
    by blast
  have "length (out @ rcv_ready r) = 4"
    using run by (auto simp: rcv_insert_def receive_stream_new_def checked_add_def Let_def uncovered_ranges_def
        deliver_contiguous.simps slice_def usize_limit_def rcv_read_def saturating_add_def bt_remove_def)
  with n have "n = 4"
    by simp
  with n show ?thesis
    unfolding run by (simp add: upt_rec)
qed

end
