(* ===== verification/Stream_Transfer.thy ===== *)
theory Stream_Transfer
  imports Send_Stream Receive_Stream "HOL-Library.Sublist"
begin

text \<open>
  The two ends of a stream together: the sender of \<open>send.rs\<close> and the receiver of \<open>receive.rs\<close>, joined by a
  network that delivers what was sent in any order, any number of times or never. Every chunk the sender
  ever hands out is a piece of what was written, no position is forgotten, and the reader gets a prefix
  of what was written, and all of it once every position has arrived.
\<close>

section \<open>A stream between two ends\<close>

text \<open>The sender with what the application has written and the chunks in flight, every chunk ever sent, and
  what has happened at the receiver so far.\<close>

record link =
  lk_written :: bytes
  lk_sender :: send_stream
  lk_flight :: "pending_data list"
  lk_network :: "pending_data set"
  lk_ops :: "rcv_op list"

definition frame_of :: "stream_id \<Rightarrow> pending_data \<Rightarrow> stream_data" where
  "frame_of sid p = \<lparr>sd_stream_id = sid, sd_offset = pd_offset p, sd_fin = pd_fin p, sd_data = pd_data p\<rparr>"

text \<open>The application writes, the next chunk is sent, a chunk in flight is lost and queued again, or is
  acknowledged, the peer widens the window; at the other end a chunk arrives, is read, or the window moves.
  \<open>write\<close> reports how many bytes it has taken.\<close>

inductive link_reachable :: "stream_id \<Rightarrow> u64 \<Rightarrow> link \<Rightarrow> bool" for sid window where
  link_start: "link_reachable sid window
     \<lparr>lk_written = [], lk_sender = send_stream_new sid window, lk_flight = [], lk_network = {}, lk_ops = []\<rparr>"
| link_write: "link_reachable sid window L \<Longrightarrow> length data < 2 ^ 64 \<Longrightarrow> max_buffer < usize_limit \<Longrightarrow>
     ss_write (lk_sender L) data fin max_buffer max_chunk = (r, s) \<Longrightarrow>
     link_reachable sid window (L\<lparr>lk_sender := s, lk_written := lk_written L @ (case r of Inl _ \<Rightarrow> [] | Inr n \<Rightarrow> take n data)\<rparr>)"
| link_send: "link_reachable sid window L \<Longrightarrow> ss_pop_sendable (lk_sender L) = (Some p, s) \<Longrightarrow>
     link_reachable sid window (L\<lparr>lk_sender := s, lk_flight := lk_flight L @ [p], lk_network := insert p (lk_network L)\<rparr>)"
| link_lose: "link_reachable sid window L \<Longrightarrow> lk_flight L = xs @ p # ys \<Longrightarrow>
     link_reachable sid window (L\<lparr>lk_sender := ss_requeue (lk_sender L) (frame_of sid p) n, lk_flight := xs @ ys\<rparr>)"
| link_ack: "link_reachable sid window L \<Longrightarrow> lk_flight L = xs @ p # ys \<Longrightarrow>
     link_reachable sid window (L\<lparr>lk_flight := xs @ ys\<rparr>)"
| link_window: "link_reachable sid window L \<Longrightarrow>
     link_reachable sid window (L\<lparr>lk_sender := ss_update_window (lk_sender L) m\<rparr>)"
| link_arrive: "link_reachable sid window L \<Longrightarrow> p \<in> lk_network L \<Longrightarrow>
     link_reachable sid window (L\<lparr>lk_ops := lk_ops L @ [Arrive (pd_offset p) (pd_data p) (pd_fin p)]\<rparr>)"
| link_read: "link_reachable sid window L \<Longrightarrow> link_reachable sid window (L\<lparr>lk_ops := lk_ops L @ [Read n]\<rparr>)"
| link_widen: "link_reachable sid window L \<Longrightarrow> link_reachable sid window (L\<lparr>lk_ops := lk_ops L @ [Widen m]\<rparr>)"

section \<open>What holds of every link\<close>

text \<open>A chunk of the stream \<open>w\<close>; its end mark stands at the end of a finished stream.\<close>

definition chunk_ok :: "bytes \<Rightarrow> bool \<Rightarrow> pending_data \<Rightarrow> bool" where
  "chunk_ok w finished p \<longleftrightarrow> piece_of w p \<and> (pd_fin p \<longrightarrow> finished \<and> unat (pd_offset p) + length (pd_data p) = length w)"

text \<open>An arrival of a chunk of the stream.\<close>

fun arrives_chunk :: "bytes \<Rightarrow> bool \<Rightarrow> rcv_op \<Rightarrow> bool" where
  "arrives_chunk w finished (Arrive offset data fin) \<longleftrightarrow>
     chunk_ok w finished \<lparr>pd_offset = offset, pd_data = data, pd_fin = fin, pd_retransmit_count = 0\<rparr>"
| "arrives_chunk w finished _ \<longleftrightarrow> True"

definition link_inv :: "link \<Rightarrow> bool" where
  "link_inv L \<longleftrightarrow> ss_inv (lk_written L) (lk_sender L)
     \<and> queue_bytes (ss_queue (lk_sender L)) + queue_bytes (lk_flight L) \<le> length (lk_written L)
     \<and> (\<forall>p \<in> lk_network L. chunk_ok (lk_written L) (ss_fin_requested (lk_sender L)) p)
     \<and> set (lk_flight L) \<subseteq> lk_network L
     \<and> (\<forall>op \<in> set (lk_ops L). arrives_chunk (lk_written L) (ss_fin_requested (lk_sender L)) op)
     \<and> {..< length (lk_written L)} \<subseteq> \<Union> (pd_span ` (set (ss_queue (lk_sender L)) \<union> lk_network L))"

lemma written_small:
  assumes "ss_inv w s"
  shows "length w < 2 ^ 64"
proof -
  have "unat (ss_next_offset s) < 2 ^ 64"
    using unsigned_less [of "ss_next_offset s", where 'a = nat] by simp
  with assms show ?thesis
    by (simp add: ss_inv_def)
qed

lemma chunk_ok_append: "chunk_ok w False p \<Longrightarrow> chunk_ok (w @ data) b p"
  by (simp add: chunk_ok_def piece_of_append)

lemma arrives_append: "arrives_chunk w False op \<Longrightarrow> arrives_chunk (w @ data) b op"
  by (cases op) (simp_all add: chunk_ok_append)

lemma queued_ok: "ss_inv w s \<Longrightarrow> p \<in> set (ss_queue s) \<Longrightarrow> chunk_ok w (ss_fin_requested s) p"
  by (simp add: ss_inv_def chunk_ok_def)

lemma chunk_arrives:
  "chunk_ok w b p \<Longrightarrow> arrives_chunk w b (Arrive (pd_offset p) (pd_data p) (pd_fin p))"
  by (simp add: chunk_ok_def piece_of_def)

lemma queue_bytes_concat: "queue_bytes ps = length (concat (map pd_data ps))"
  by (induction ps) simp_all

lemma link_inv_write:
  assumes inv: "link_inv L" and "length data < 2 ^ 64" "max_buffer < usize_limit"
    and run: "ss_write (lk_sender L) data fin max_buffer max_chunk = (r, s)"
  shows "link_inv (L\<lparr>lk_sender := s, lk_written := lk_written L @ (case r of Inl _ \<Rightarrow> [] | Inr n \<Rightarrow> take n data)\<rparr>)"
proof (cases "ss_refuses (lk_sender L) data max_buffer")
  case (Some e)
  have "r = Inl e" "s = lk_sender L"
    using ss_write_refused [OF assms(2) Some] run by auto
  then show ?thesis
    using inv by simp
next
  case None
  have ss: "ss_inv (lk_written L) (lk_sender L)"
    using inv by (simp add: link_inv_def)
  obtain ps where r: "r = Inr (length data)" and s: "ss_inv (lk_written L @ data) s" "ss_queue s = ss_queue (lk_sender L) @ ps"
    and ps: "concat (map pd_data ps) = data" "\<Union> (pd_span ` set ps) = {length (lk_written L) ..< length (lk_written L @ data)}"
    using ss_write_pieces [OF ss None assms(3), of fin max_chunk] run by auto
  have fin: "ss_fin_requested (lk_sender L) = False"
    using None by (simp add: ss_refuses_def split: if_splits)
  have "{..< length (lk_written L @ data)} = {..< length (lk_written L)} \<union> \<Union> (pd_span ` set ps)"
    by (auto simp: ps(2))
  then have "{..< length (lk_written L @ data)} \<subseteq> \<Union> (pd_span ` (set (ss_queue s) \<union> lk_network L))"
    using inv s(2) unfolding link_inv_def by auto
  then show ?thesis
    using inv s r ps(1) chunk_ok_append arrives_append
    by (simp add: link_inv_def fin queue_bytes_concat)
qed

lemma link_inv_send:
  assumes inv: "link_inv L" and pop: "ss_pop_sendable (lk_sender L) = (Some p, s)"
  shows "link_inv (L\<lparr>lk_sender := s, lk_flight := lk_flight L @ [p], lk_network := insert p (lk_network L)\<rparr>)"
proof -
  have ss: "ss_inv (lk_written L) (lk_sender L)"
    using inv by (simp add: link_inv_def)
  have s: "ss_inv (lk_written L) s" "ss_queue (lk_sender L) = p # ss_queue s"
    using ss_inv_pop [OF ss pop] by auto
  have fin: "ss_fin_requested s = ss_fin_requested (lk_sender L)"
    using pop by (auto simp: ss_pop_sendable_def split: list.splits)
  have "chunk_ok (lk_written L) (ss_fin_requested (lk_sender L)) p"
    using queued_ok [OF ss] s(2) by simp
  with inv s fin show ?thesis
    by (auto simp: link_inv_def)
qed

lemma link_inv_lose:
  assumes inv: "link_inv L" and flight: "lk_flight L = xs @ p # ys"
  shows "link_inv (L\<lparr>lk_sender := ss_requeue (lk_sender L) (frame_of sid p) n, lk_flight := xs @ ys\<rparr>)"
proof -
  have ss: "ss_inv (lk_written L) (lk_sender L)" and ok: "chunk_ok (lk_written L) (ss_fin_requested (lk_sender L)) p"
    and bytes: "queue_bytes (ss_queue (lk_sender L)) + queue_bytes (lk_flight L) \<le> length (lk_written L)"
    using inv flight by (auto simp: link_inv_def)
  have "ss_queued_bytes (lk_sender L) + length (pd_data p) < usize_limit"
    using bytes flight ss written_small [OF ss] by (simp add: ss_inv_def usize_limit_def)
  then have "ss_inv (lk_written L) (ss_requeue (lk_sender L) (frame_of sid p) n)"
    using ok by (intro ss_inv_requeue [OF ss]) (auto simp: frame_of_def chunk_ok_def piece_of_def)
  with inv bytes flight show ?thesis
    by (auto simp: link_inv_def ss_requeue_def frame_of_def)
qed

lemma link_reachable_inv: "link_reachable sid window L \<Longrightarrow> link_inv L"
proof (induction rule: link_reachable.induct)
  case link_start
  then show ?case
    using send_stream_new_inv by (simp add: link_inv_def send_stream_new_def)
next
  case (link_window L m)
  then show ?case
    using ss_inv_window by (auto simp: link_inv_def ss_update_window_def)
next
  case (link_arrive L p)
  then show ?case
    using chunk_arrives by (auto simp: link_inv_def simp del: arrives_chunk.simps)
qed (simp_all add: link_inv_write link_inv_send link_inv_lose, auto simp: link_inv_def)

section \<open>The receiver\<close>

lemma chunk_is_sent:
  assumes "length w < 2 ^ 64" "arrives_chunk w b op"
  shows "sent_from (nth w) op"
  using assms
proof (cases op)
  case (Arrive offset data fin)
  have p: "unat offset + length data \<le> length w" "take (length data) (drop (unat offset) w) = data"
    using assms(2) by (simp_all add: Arrive chunk_ok_def piece_of_def)
  have "take (length data) (drop (unat offset) w) ! i = w ! (unat offset + i)" if "i < length data" for i
    using p(1) that by simp
  then have "data ! i = w ! (unat offset + i)" if "i < length data" for i
    using p(2) that by simp
  then have "data = map (nth w) [unat offset ..< unat offset + length data]"
    by (auto intro: nth_equalityI)
  with p(1) assms(1) show ?thesis
    by (simp add: Arrive)
qed simp_all

lemma arrived_within:
  "\<forall>op \<in> set ops. arrives_chunk w b op \<Longrightarrow> arrived r ops \<subseteq> {..< length w}"
  by (induction r ops rule: arrived.induct) (auto simp: chunk_ok_def piece_of_def)

section \<open>Properties\<close>

text \<open>C6. End to end: an application writes to a stream, in any portions, some refused; chunks are sent, lost, sent
  again and acknowledged, the network delivers any chunk sent at any time, any number of times or never, and
  the other end reads, in portions of any size. Then every position written is in a chunk that waits to be
  sent or has been sent; what can be read is always a prefix of what was written; it is all of it as soon as
  every position written has arrived without being refused; and when the receiver reports the stream as
  finished, what has been read is exactly what was written and the writer has ended the stream.\<close>

theorem reader_gets_what_was_written:
  assumes "link_reachable sid window L" "rcv_run (receive_stream_new sid max_offset) (lk_ops L) = (out, r)"
  shows "{..< length (lk_written L)} \<subseteq> \<Union> (pd_span ` (set (ss_queue (lk_sender L)) \<union> lk_network L))
     \<and> prefix (out @ rcv_ready r) (lk_written L)
     \<and> ({..< length (lk_written L)} \<subseteq> arrived (receive_stream_new sid max_offset) (lk_ops L)
          \<longrightarrow> out @ rcv_ready r = lk_written L)
     \<and> (rcv_is_finished r \<longrightarrow> out = lk_written L \<and> ss_fin_requested (lk_sender L))"
proof -
  let ?w = "lk_written L" and ?new = "receive_stream_new sid max_offset" and ?n = "unat (rcv_next_offset r)"
  have inv: "link_inv L"
    by (rule link_reachable_inv [OF assms(1)])
  then have ops: "\<forall>op \<in> set (lk_ops L). arrives_chunk ?w (ss_fin_requested (lk_sender L)) op"
    and small: "length ?w < 2 ^ 64"
    using written_small by (auto simp: link_inv_def)
  then have sent: "\<forall>op \<in> set (lk_ops L). sent_from (nth ?w) op"
    using chunk_is_sent by blast
  note run = delivered_prefix [OF sent assms(2)]
  have le: "?n \<le> length ?w"
    using run(2) arrived_within [OF ops, of ?new] by (meson lessThan_subset_iff order_trans)
  then have out: "out @ rcv_ready r = take ?n ?w"
    using run(1) by (simp add: map_nth_upt_take)
  have "out = ?w \<and> ss_fin_requested (lk_sender L)" if fin: "rcv_is_finished r"
  proof -
    obtain f where f: "rcv_final_offset r = Some f" "rcv_next_offset r = f" "rcv_ready r = []"
      using fin by (auto simp: rcv_is_finished_def)
    have "rcv_final_offset ?new = None"
      by (simp add: receive_stream_new_def)
    then obtain offset data where "Arrive offset data True \<in> set (lk_ops L)" "unat offset + length data = unat f"
      using rcv_run_final [OF sent assms(2) f(1)] by auto
    then have "unat f = length ?w" "ss_fin_requested (lk_sender L)"
      using ops by (auto simp: chunk_ok_def dest!: bspec)
    with out f show ?thesis
      by simp
  qed
  moreover have "out @ rcv_ready r = ?w" if "{..< length ?w} \<subseteq> arrived ?new (lk_ops L)"
    using run(3) that out le by (metis lessThan_iff le_neq_implies_less subsetD take_all_iff)
  ultimately show ?thesis
    using inv out take_is_prefix [of ?n ?w] by (simp add: link_inv_def)
qed

text \<open>Two bytes written and sent in two chunks; the second arrives first, the first is lost and sent again.\<close>

definition sample_chunk :: "u64 \<Rightarrow> u8 \<Rightarrow> bool \<Rightarrow> pending_data" where
  "sample_chunk offset b fin = \<lparr>pd_offset = offset, pd_data = [b], pd_fin = fin, pd_retransmit_count = 0\<rparr>"

lemma sample_link:
  obtains L where "link_reachable 1 100 L" "lk_written L = [5, 6]" "lk_ops L = [Arrive 1 [6] True, Read 4, Arrive 0 [5] False, Read 9]"
proof -
  let ?a = "sample_chunk 0 5 False" and ?b = "sample_chunk 1 6 True"
  let ?s = "\<lambda>q n sent. (send_stream_new 1 100)\<lparr>ss_queue := q, ss_next_offset := 2, ss_queued_bytes := n, ss_fin_requested := True, ss_fin_sent := sent\<rparr>"
  have w: "ss_write (send_stream_new 1 100) [5, 6] True 50 1 = (Inr 2, ?s [?a, ?b] 2 False)"
    by (simp add: ss_write_def send_stream_new_def checked_add_def chunks.simps Let_def usize_limit_def mark_last_fin_def
        sample_chunk_def)
  have one: "link_reachable 1 100 \<lparr>lk_written = [5, 6], lk_sender = ?s [?a, ?b] 2 False, lk_flight = [], lk_network = {}, lk_ops = []\<rparr>"
    using link_write [OF link_start, where data = "[5, 6]" and max_buffer = 50 and fin = True and max_chunk = 1 and r = "Inr 2" and window = 100 and sid = 1] w by (simp add: usize_limit_def)
  have two: "link_reachable 1 100 \<lparr>lk_written = [5, 6], lk_sender = ?s [?b] 1 False, lk_flight = [?a], lk_network = {?a}, lk_ops = []\<rparr>"
    using link_send [OF one, of ?a "?s [?b] 1 False"] by (simp add: ss_pop_sendable_def sample_chunk_def send_stream_new_def)
  have three: "link_reachable 1 100 \<lparr>lk_written = [5, 6], lk_sender = ?s [] 0 True, lk_flight = [?a, ?b], lk_network = {?b, ?a}, lk_ops = []\<rparr>"
    using link_send [OF two, of ?b "?s [] 0 True"] by (simp add: ss_pop_sendable_def sample_chunk_def send_stream_new_def)
  have four: "link_reachable 1 100 \<lparr>lk_written = [5, 6], lk_sender = ?s [?a] 1 True, lk_flight = [?b], lk_network = {?b, ?a}, lk_ops = []\<rparr>"
    using link_lose [OF three, of "[]" ?a "[?b]" 0]
    by (simp add: ss_requeue_def frame_of_def sample_chunk_def send_stream_new_def usize_limit_def)
  have "link_reachable 1 100 \<lparr>lk_written = [5, 6], lk_sender = ?s [?a] 1 True, lk_flight = [?b], lk_network = {?b, ?a},
      lk_ops = [Arrive 1 [6] True, Read 4, Arrive 0 [5] False, Read 9]\<rparr>"
    using link_read [OF link_arrive [OF link_read [OF link_arrive [OF four, of ?b], of 4], of ?a], of 9]
    by (simp add: sample_chunk_def)
  then show thesis
    by (rule that) simp_all
qed

theorem reader_gets_what_was_written_witness:
  "\<exists>L. link_reachable 1 100 L \<and> lk_written L = [5, 6]
     \<and> fst (rcv_run (receive_stream_new 1 100) (lk_ops L)) = [5, 6] \<and> ss_fin_requested (lk_sender L)"
proof -
  obtain L where L: "link_reachable 1 100 L" "lk_written L = [5, 6]" "lk_ops L = [Arrive 1 [6] True, Read 4, Arrive 0 [5] False, Read 9]"
    by (rule sample_link)
  obtain out r where run: "rcv_run (receive_stream_new 1 100) (lk_ops L) = (out, r)"
    by fastforce
  then have "rcv_is_finished r"
    by (auto simp: L(3) rcv_insert_def receive_stream_new_def checked_add_def Let_def uncovered_ranges_def rcv_is_finished_def
        deliver_contiguous.simps slice_def usize_limit_def rcv_read_def saturating_add_def bt_remove_def)
  with reader_gets_what_was_written [OF L(1) run] L run show ?thesis
    by auto
qed

end
