(* ===== verification/Wheel_Config.thy ===== *)
theory Wheel_Config
  imports Core_Error
begin

text \<open>
  The topology of the timing wheel, \<open>time-wheel/src/config.rs\<close>. The builder derives the levels from
  the slot counts; the lemmas show that an accepted configuration has between 1 and 8 levels whose
  units multiply up exactly, without overflow.
\<close>

section \<open>Model\<close>

definition DEFAULT_BASE_TICK :: duration where "DEFAULT_BASE_TICK = 10000000"
definition MAX_LEVELS :: usize where "MAX_LEVELS = 8"
definition MAX_LEVEL_SLOTS :: usize where "MAX_LEVEL_SLOTS = 65536"
definition MAX_TOTAL_SLOTS :: usize where "MAX_TOTAL_SLOTS = 300000"

record level_config =
  lc_unit_ticks :: u64
  lc_span_ticks :: u64
  lc_slot_count :: usize
  lc_mask :: usize

record wheel_config =
  wc_base_tick :: duration
  wc_base_tick_nanos :: u64
  wc_levels :: "level_config list"
  wc_total_slots :: usize

record wheel_config_builder =
  wb_base_tick :: duration
  wb_levels :: "usize list"

definition wheel_builder :: wheel_config_builder where
  "wheel_builder = \<lparr>wb_base_tick = DEFAULT_BASE_TICK, wb_levels = []\<rparr>"

definition builder_base_tick :: "wheel_config_builder \<Rightarrow> duration \<Rightarrow> wheel_config_builder" where
  "builder_base_tick b tick = b\<lparr>wb_base_tick := tick\<rparr>"

definition builder_level_slots :: "wheel_config_builder \<Rightarrow> usize \<Rightarrow> wheel_config_builder" where
  "builder_level_slots b slots = b\<lparr>wb_levels := wb_levels b @ [slots]\<rparr>"

fun is_power_of_two :: "nat \<Rightarrow> bool" where
  "is_power_of_two n = (if n \<le> 1 then n = 1 else if odd n then False else is_power_of_two (n div 2))"

declare is_power_of_two.simps [simp del]

text \<open>The loop of \<open>build\<close>: the remaining slot counts, the level number, the slots so far, the unit of
  the next level and the levels derived.\<close>

fun derive_levels ::
  "usize list \<Rightarrow> usize \<Rightarrow> usize \<Rightarrow> u64 \<Rightarrow> level_config list
     \<Rightarrow> config_error + level_config list \<times> usize" where
  "derive_levels [] level total_slots unit_ticks derived = Inr (derived, total_slots)"
| "derive_levels (slot_count # counts) level total_slots unit_ticks derived =
     (if slot_count < 2 \<or> \<not> is_power_of_two slot_count \<or> slot_count > MAX_LEVEL_SLOTS then
        Inl (InvalidSlotCount level slot_count)
      else
        and_then (ok_or (SlotBudgetExceeded (usize_limit - 1) MAX_TOTAL_SLOTS)
          (checked_add_usize total_slots slot_count)) (\<lambda>total_slots.
        if total_slots > MAX_TOTAL_SLOTS then Inl (SlotBudgetExceeded total_slots MAX_TOTAL_SLOTS)
        else
          and_then (ok_or (DerivedRangeOverflow level)
            (checked_mul unit_ticks (of_nat slot_count))) (\<lambda>span_ticks.
          derive_levels counts (level + 1) total_slots span_ticks (derived @
            [\<lparr>lc_unit_ticks = unit_ticks, lc_span_ticks = span_ticks, lc_slot_count = slot_count,
              lc_mask = slot_count - 1\<rparr>]))))"

definition builder_build :: "wheel_config_builder \<Rightarrow> config_error + wheel_config" where
  "builder_build b =
     (if wb_base_tick b \<ge> 2 ^ 64 then Inl TickRangeOverflow
      else
        let base_tick_nanos = of_nat (wb_base_tick b) :: u64 in
        if base_tick_nanos = 0 then Inl ZeroTick
        else if wb_levels b = [] \<or> length (wb_levels b) > MAX_LEVELS then
          Inl (InvalidLevelCount (length (wb_levels b)) MAX_LEVELS)
        else
          and_then (derive_levels (wb_levels b) 0 0 1 []) (\<lambda>(derived, total_slots).
          Inr \<lparr>wc_base_tick = wb_base_tick b, wc_base_tick_nanos = base_tick_nanos, wc_levels = derived,
               wc_total_slots = total_slots\<rparr>))"

section \<open>Derived levels\<close>

definition level_ok :: "level_config \<Rightarrow> bool" where
  "level_ok l \<longleftrightarrow> 2 \<le> lc_slot_count l \<and> is_power_of_two (lc_slot_count l)
     \<and> lc_slot_count l \<le> MAX_LEVEL_SLOTS \<and> lc_mask l = lc_slot_count l - 1
     \<and> 0 < unat (lc_unit_ticks l) \<and> unat (lc_span_ticks l) = unat (lc_unit_ticks l) * lc_slot_count l"

text \<open>Consecutive levels: the unit of a level is the span of the one below.\<close>

fun levels_chain :: "nat \<Rightarrow> level_config list \<Rightarrow> bool" where
  "levels_chain u [] \<longleftrightarrow> True"
| "levels_chain u (l # ls) \<longleftrightarrow>
     unat (lc_unit_ticks l) = u \<and> level_ok l \<and> levels_chain (unat (lc_span_ticks l)) ls"

lemma levels_chain_snoc:
  "levels_chain u (ls @ [l]) \<longleftrightarrow>
     levels_chain u ls \<and> level_ok l
     \<and> unat (lc_unit_ticks l) = (if ls = [] then u else unat (lc_span_ticks (last ls)))"
  by (induction ls arbitrary: u) auto

lemma derive_levels_chain:
  assumes "derive_levels counts level acc unit derived = Inr (ls, n)"
    and "levels_chain 1 derived" "0 < unat unit"
    and "unat unit = (if derived = [] then 1 else unat (lc_span_ticks (last derived)))"
    and "acc = sum_list (map lc_slot_count derived)" "acc \<le> MAX_TOTAL_SLOTS"
  shows "levels_chain 1 ls \<and> map lc_slot_count ls = map lc_slot_count derived @ counts
     \<and> n = sum_list (map lc_slot_count ls) \<and> n \<le> MAX_TOTAL_SLOTS"
  using assms
proof (induction counts arbitrary: level acc unit derived)
  case Nil
  then show ?case by auto
next
  case (Cons slot_count counts level total_slots unit_ticks derived)
  from Cons.prems(1) obtain span where ok: "\<not> (slot_count < 2 \<or> \<not> is_power_of_two slot_count \<or> slot_count > MAX_LEVEL_SLOTS)"
    and budget: "total_slots + slot_count \<le> MAX_TOTAL_SLOTS"
    and add: "checked_add_usize total_slots slot_count = Some (total_slots + slot_count)"
    and span: "checked_mul unit_ticks (of_nat slot_count) = Some span"
    and rest: "derive_levels counts (level + 1) (total_slots + slot_count) span (derived @
        [\<lparr>lc_unit_ticks = unit_ticks, lc_span_ticks = span, lc_slot_count = slot_count,
          lc_mask = slot_count - 1\<rparr>]) = Inr (ls, n)"
    by (auto simp: result_simps checked_add_usize_def split: if_splits)
  have sc: "unat (of_nat slot_count :: u64) = slot_count"
    using ok by (intro unat_of_nat_small) (simp add: MAX_LEVEL_SLOTS_def)
  then have "unat span = unat unit_ticks * slot_count"
    using span by (auto simp: checked_mul_def unat_word_ariths split: if_splits)
  then have "level_ok \<lparr>lc_unit_ticks = unit_ticks, lc_span_ticks = span, lc_slot_count = slot_count,
      lc_mask = slot_count - 1\<rparr>" "0 < unat span"
    using ok Cons.prems(3) by (auto simp: level_ok_def)
  note new = this
  have "levels_chain 1 (derived @ [\<lparr>lc_unit_ticks = unit_ticks, lc_span_ticks = span,
      lc_slot_count = slot_count, lc_mask = slot_count - 1\<rparr>])"
    using new Cons.prems(2,4) by (simp add: levels_chain_snoc)
  from Cons.IH [OF rest this new(2)] budget Cons.prems(5) show ?case
    by auto
qed

lemma builder_build_ok:
  assumes "builder_build b = Inr c"
  shows "wc_levels c \<noteq> []" "length (wc_levels c) \<le> MAX_LEVELS" "levels_chain 1 (wc_levels c)"
    "map lc_slot_count (wc_levels c) = wb_levels b"
    "wc_total_slots c = sum_list (wb_levels b)" "wc_total_slots c \<le> MAX_TOTAL_SLOTS"
    "unat (wc_base_tick_nanos c) = wb_base_tick b" "0 < wb_base_tick b"
proof -
  from assms obtain ls n where d: "derive_levels (wb_levels b) 0 0 1 [] = Inr (ls, n)"
    and c: "wc_levels c = ls" "wc_total_slots c = n" "wc_base_tick_nanos c = of_nat (wb_base_tick b)"
    and b: "wb_base_tick b < 2 ^ 64" "(of_nat (wb_base_tick b) :: u64) \<noteq> 0"
      "wb_levels b \<noteq> []" "length (wb_levels b) \<le> MAX_LEVELS"
    by (auto simp: builder_build_def Let_def result_simps split: if_splits)
  have ls: "levels_chain 1 ls" "map lc_slot_count ls = wb_levels b" "n = sum_list (map lc_slot_count ls)"
      "n \<le> MAX_TOTAL_SLOTS"
    using derive_levels_chain [OF d] by auto
  moreover have "length ls = length (wb_levels b)"
    using ls(2) by (metis length_map)
  moreover have "unat (of_nat (wb_base_tick b) :: u64) = wb_base_tick b" "0 < wb_base_tick b"
    using b(1,2) by (auto simp: unat_of_nat_small intro: gr0I)
  ultimately show "wc_levels c \<noteq> []" "length (wc_levels c) \<le> MAX_LEVELS" "levels_chain 1 (wc_levels c)"
    "map lc_slot_count (wc_levels c) = wb_levels b"
    "wc_total_slots c = sum_list (wb_levels b)" "wc_total_slots c \<le> MAX_TOTAL_SLOTS"
    "unat (wc_base_tick_nanos c) = wb_base_tick b" "0 < wb_base_tick b"
    using b c by auto
qed

section \<open>Properties\<close>

text \<open>Wheel topology: an accepted configuration has 1 to 8 levels with the slot counts asked for (powers
  of two between 2 and 65536, at most 300000 in all), the unit of the first level is one tick, the unit
  of every further level is the span of the one below, every span is exactly unit times slots (no
  overflow), and the base tick is at least one nanosecond.\<close>

theorem wheel_config_well_formed:
  assumes "builder_build b = Inr c"
  shows "wc_levels c \<noteq> [] \<and> length (wc_levels c) \<le> MAX_LEVELS \<and> levels_chain 1 (wc_levels c)
     \<and> map lc_slot_count (wc_levels c) = wb_levels b
     \<and> wc_total_slots c = sum_list (wb_levels b) \<and> wc_total_slots c \<le> MAX_TOTAL_SLOTS
     \<and> unat (wc_base_tick_nanos c) = wb_base_tick b \<and> 0 < wb_base_tick b"
  using builder_build_ok [OF assms] by blast

definition default_wheel_builder :: wheel_config_builder where
  "default_wheel_builder = builder_level_slots (builder_level_slots (builder_level_slots
     (builder_base_tick wheel_builder DEFAULT_BASE_TICK) 512) 64) 64"

lemma default_wheel_builds: "\<exists>c. builder_build default_wheel_builder = Inr c"
  by (simp add: builder_build_def default_wheel_builder_def builder_level_slots_def builder_base_tick_def
      wheel_builder_def DEFAULT_BASE_TICK_def MAX_LEVELS_def MAX_LEVEL_SLOTS_def MAX_TOTAL_SLOTS_def
      is_power_of_two.simps checked_add_usize_def usize_limit_def checked_mul_def)

theorem wheel_config_well_formed_witness:
  "\<exists>c. builder_build default_wheel_builder = Inr c \<and> wc_total_slots c = 640"
proof -
  obtain c where c: "builder_build default_wheel_builder = Inr c"
    using default_wheel_builds by blast
  with wheel_config_well_formed [OF c] show ?thesis
    by (auto simp: default_wheel_builder_def builder_level_slots_def builder_base_tick_def wheel_builder_def)
qed

end
