(* ===== verification/Checksum.thy ===== *)
theory Checksum
  imports Prelude
begin

text \<open>
  The checksum of a datagram, \<open>udp-protocol/src/checksum.rs\<close>: CRC32C computed bit by bit, with a
  range of positions read as zero. The lemmas show that the value does not depend on the bytes of
  that range, that it is the checksum of the input with the range blanked, and that changing any
  one byte outside the range changes the checksum.
\<close>

section \<open>Model\<close>

definition CRC32C_POLYNOMIAL :: u32 where
  "CRC32C_POLYNOMIAL = 0x82f63b78"

text \<open>One round of the inner loop; the bit test \<open>checksum & 1 == 1\<close> is the parity.\<close>

definition crc_bit :: "u32 \<Rightarrow> u32" where
  "crc_bit checksum =
     (if checksum AND 1 = 1 then drop_bit 1 checksum XOR CRC32C_POLYNOMIAL else drop_bit 1 checksum)"

definition crc_byte :: "u32 \<Rightarrow> u8 \<Rightarrow> u32" where
  "crc_byte checksum byte = (crc_bit ^^ 8) (checksum XOR ucast byte)"

text \<open>The outer loop, from the position \<open>index\<close> on.\<close>

fun crc_loop :: "usize \<Rightarrow> usize \<Rightarrow> usize \<Rightarrow> bytes \<Rightarrow> u32 \<Rightarrow> u32" where
  "crc_loop zero_start zero_end index [] checksum = checksum"
| "crc_loop zero_start zero_end index (byte # bs) checksum =
     crc_loop zero_start zero_end (index + 1) bs
       (crc_byte checksum (if zero_start \<le> index \<and> index < zero_end then 0 else byte))"

definition crc32c_with_zeroed_range :: "bytes \<Rightarrow> usize \<Rightarrow> usize \<Rightarrow> u32" where
  "crc32c_with_zeroed_range bs zero_start zero_end =
     NOT (crc_loop zero_start zero_end 0 bs (- 1))"

section \<open>The blanked range\<close>

text \<open>The input with the bytes of the range replaced by zeros.\<close>

fun blank :: "usize \<Rightarrow> usize \<Rightarrow> usize \<Rightarrow> bytes \<Rightarrow> bytes" where
  "blank zero_start zero_end index [] = []"
| "blank zero_start zero_end index (byte # bs) =
     (if zero_start \<le> index \<and> index < zero_end then 0 else byte)
       # blank zero_start zero_end (index + 1) bs"

lemma length_blank [simp]: "length (blank a b i bs) = length bs"
  by (induction bs arbitrary: i) auto

lemma nth_blank:
  "k < length bs \<Longrightarrow> blank a b i bs ! k = (if a \<le> i + k \<and> i + k < b then 0 else bs ! k)"
  by (induction bs arbitrary: i k) (auto simp: nth_Cons split: nat.splits)

lemma crc_loop_foldl: "crc_loop a b i bs s = foldl crc_byte s (blank a b i bs)"
  by (induction bs arbitrary: i s) auto

lemma crc_blank:
  "crc32c_with_zeroed_range bs a b = crc32c_with_zeroed_range (blank a b 0 bs) 0 0"
proof -
  have id: "blank 0 0 i cs = cs" for i cs
    by (induction cs arbitrary: i) auto
  show ?thesis
    by (simp add: crc32c_with_zeroed_range_def crc_loop_foldl id)
qed

lemma crc_zeroed_irrelevant:
  assumes "length bs = length cs"
    and "\<And>i. i < length bs \<Longrightarrow> \<not> (a \<le> i \<and> i < b) \<Longrightarrow> bs ! i = cs ! i"
  shows "crc32c_with_zeroed_range bs a b = crc32c_with_zeroed_range cs a b"
proof -
  have "blank a b 0 bs = blank a b 0 cs"
    by (rule nth_equalityI) (auto simp: nth_blank assms)
  then show ?thesis
    by (metis crc_blank)
qed

section \<open>Detection of a changed byte\<close>

lemma xor_right_cancel: "a XOR c = b XOR c \<Longrightarrow> a = (b :: 'a::len word)"
  by (metis xor.assoc xor_self_eq xor.right_neutral)

text \<open>The top bit of the polynomial is set, so a round can be undone.\<close>

lemma crc_bit_top: "bit (crc_bit x) 31 \<longleftrightarrow> odd x"
  by (auto simp: crc_bit_def CRC32C_POLYNOMIAL_def bit_simps and_one_eq odd_iff_mod_2_eq_one
      dest: bit_imp_le_length)

lemma crc_bit_inj: "inj crc_bit"
proof (rule injI)
  fix x y :: u32
  assume eq: "crc_bit x = crc_bit y"
  then have par: "odd x \<longleftrightarrow> odd y"
    using crc_bit_top by metis
  then have "drop_bit 1 x = drop_bit 1 y"
    using eq by (auto simp: crc_bit_def and_one_eq odd_iff_mod_2_eq_one
        split: if_splits dest: xor_right_cancel)
  then have "x div 2 = y div 2"
    by (simp add: drop_bit_Suc drop_bit_eq_div)
  moreover have "x mod 2 = y mod 2"
    using par by (metis even_iff_mod_2_eq_zero odd_iff_mod_2_eq_one)
  ultimately show "x = y"
    using div_mult_mod_eq [of x 2] div_mult_mod_eq [of y 2] by metis
qed

lemma crc_byte_inj_state: "crc_byte s b = crc_byte t b \<Longrightarrow> s = t"
proof -
  assume "crc_byte s b = crc_byte t b"
  then have "s XOR ucast b = t XOR ucast b"
    using inj_fn [OF crc_bit_inj] by (auto simp: crc_byte_def dest: injD)
  then show "s = t"
    by (rule xor_right_cancel)
qed

lemma crc_byte_inj_byte: "crc_byte s b = crc_byte s c \<Longrightarrow> b = c"
proof -
  assume "crc_byte s b = crc_byte s c"
  then have "s XOR ucast b = s XOR ucast c"
    using inj_fn [OF crc_bit_inj] by (auto simp: crc_byte_def dest: injD)
  then have "(ucast b :: u32) = ucast c"
    by (metis xor.commute xor_right_cancel)
  then have "unat (ucast b :: u32) = unat (ucast c :: u32)"
    by simp
  then show "b = c"
    using unsigned_less [of b, where 'a = nat] unsigned_less [of c, where 'a = nat]
    by (simp add: unat_ucast_mod word_unat_eq_iff)
qed

lemma crc_fold_inj: "foldl crc_byte s bs = foldl crc_byte t bs \<Longrightarrow> s = t"
  by (induction bs arbitrary: s t) (auto dest: crc_byte_inj_state)

lemma crc_detects_byte:
  assumes "i < length bs" "\<not> (a \<le> i \<and> i < b)" "v \<noteq> bs ! i"
  shows "crc32c_with_zeroed_range (bs[i := v]) a b \<noteq> crc32c_with_zeroed_range bs a b"
proof
  let ?c = "blank a b 0 bs"
  assume eq: "crc32c_with_zeroed_range (bs[i := v]) a b = crc32c_with_zeroed_range bs a b"
  have "blank a b 0 (bs[i := v]) = ?c[i := v]"
    using assms by (intro nth_equalityI) (auto simp: nth_blank nth_list_update)
  moreover have "?c = take i ?c @ bs ! i # drop (Suc i) ?c"
    using assms by (metis id_take_nth_drop length_blank nth_blank plus_nat.add_0)
  moreover have "?c[i := v] = take i ?c @ v # drop (Suc i) ?c"
    using assms by (simp add: upd_conv_take_nth_drop)
  ultimately have "foldl crc_byte (- 1) (take i ?c @ v # drop (Suc i) ?c)
      = foldl crc_byte (- 1) (take i ?c @ bs ! i # drop (Suc i) ?c)"
    using eq by (metis bit.double_compl crc32c_with_zeroed_range_def crc_loop_foldl)
  then have "v = bs ! i"
    by (auto dest!: crc_fold_inj crc_byte_inj_byte)
  with assms(3) show False ..
qed

end
