(* ===== verification/Codec.thy ===== *)
theory Codec
  imports Frame Checksum
begin

text \<open>
  Datagrams: \<open>udp-protocol/src/packet.rs\<close> and the unencrypted half of \<open>codec.rs\<close>. The header has a
  fixed length of 30 bytes, the last four of which hold a CRC32C computed with them read as zero.
  The lemmas show that decoding inverts encoding, that a decoded packet is valid and obeys the
  limits, that the frame loop ends, and that no change of a single byte is accepted.
\<close>

section \<open>Packets\<close>

definition MAGIC :: u16 where "MAGIC = 0xd7f1"
definition VERSION :: u8 where "VERSION = 2"
definition DEFAULT_MAX_DATAGRAM_SIZE :: usize where "DEFAULT_MAX_DATAGRAM_SIZE = 1200"
definition MAX_FRAME_COUNT :: usize where "MAX_FRAME_COUNT = 64"

datatype packet_type = Initial_PT | Handshake_PT | Data_PT | Close_PT | Retry_PT

fun packet_type_byte :: "packet_type \<Rightarrow> u8" where
  "packet_type_byte Initial_PT = 0"
| "packet_type_byte Handshake_PT = 1"
| "packet_type_byte Data_PT = 2"
| "packet_type_byte Close_PT = 3"
| "packet_type_byte Retry_PT = 4"

definition packet_type_try_from :: "u8 \<Rightarrow> protocol_error + packet_type" where
  "packet_type_try_from v =
     (if v = 0 then Inr Initial_PT
      else if v = 1 then Inr Handshake_PT
      else if v = 2 then Inr Data_PT
      else if v = 3 then Inr Close_PT
      else if v = 4 then Inr Retry_PT
      else Inl (InvalidPacketType v))"

type_synonym connection_id = u64
type_synonym packet_flags = u16

definition ACK_ELICITING :: packet_flags where "ACK_ELICITING = 0x0001"
definition ENCRYPTED :: packet_flags where "ENCRYPTED = 0x0002"
definition PROBE :: packet_flags where "PROBE = 0x0004"
definition HAS_PADDING :: packet_flags where "HAS_PADDING = 0x0008"

definition KNOWN_BITS :: u16 where
  "KNOWN_BITS = ACK_ELICITING OR ENCRYPTED OR PROBE OR HAS_PADDING"

definition flags_contains :: "packet_flags \<Rightarrow> packet_flags \<Rightarrow> bool" where
  "flags_contains flags flag \<longleftrightarrow> flags AND flag = flag"

definition flags_from_bits :: "u16 \<Rightarrow> protocol_error + packet_flags" where
  "flags_from_bits bits =
     (if bits AND NOT KNOWN_BITS \<noteq> 0 then Inl (InvalidFlags bits) else Inr bits)"

record packet_header =
  ph_version :: u8
  ph_packet_type :: packet_type
  ph_flags :: packet_flags
  ph_header_len :: u16
  ph_connection_id :: connection_id
  ph_packet_number :: packet_number
  ph_payload_len :: u16
  ph_checksum :: u32

record packet =
  pkt_type :: packet_type
  pkt_flags :: packet_flags
  pkt_connection_id :: connection_id
  pkt_number :: packet_number
  pkt_frames :: "frame list"

section \<open>Encoding\<close>

definition validate_datagram_limit :: "usize \<Rightarrow> protocol_error + unit" where
  "validate_datagram_limit max_datagram_size =
     (if max_datagram_size < FIXED_HEADER_LEN then Inl (InvalidValue ''max_datagram_size'')
      else Inr ())"

definition ensure_datagram_size :: "usize \<Rightarrow> usize \<Rightarrow> protocol_error + unit" where
  "ensure_datagram_size actual maximum =
     (if actual > maximum then Inl (DatagramTooLarge maximum actual) else Inr ())"

text \<open>The 30 bytes in the order the slice assignments fill them; the checksum field stays zero.\<close>

definition header_bytes ::
  "packet_type \<Rightarrow> packet_flags \<Rightarrow> connection_id \<Rightarrow> packet_number \<Rightarrow> usize \<Rightarrow> bytes" where
  "header_bytes ty flags cid pn payload_len =
     to_be_bytes 2 MAGIC @ [VERSION] @ [packet_type_byte ty] @ to_be_bytes 2 flags
     @ to_be_bytes 2 (of_nat FIXED_HEADER_LEN :: u16) @ to_be_bytes 8 cid @ to_be_bytes 8 pn
     @ to_be_bytes 2 (of_nat payload_len :: u16) @ replicate 4 0"

definition encode_frames :: "packet \<Rightarrow> protocol_error + bytes" where
  "encode_frames packet =
     (if pkt_frames packet = [] then Inl EmptyPacket
      else if length (pkt_frames packet) > MAX_FRAME_COUNT then Inl (TooManyFrames MAX_FRAME_COUNT)
      else and_then (write_all frame_encode (pkt_frames packet) []) (\<lambda>payload.
        if length payload > 65535 then Inl (FrameTooLarge 65535 (length payload))
        else Inr payload))"

text \<open>\<open>let checksum = crc32c_with_zeroed_range(&output, 26, 30);
  output[26..30].copy_from_slice(&checksum.to_be_bytes());\<close>\<close>

definition with_checksum :: "bytes \<Rightarrow> bytes" where
  "with_checksum output =
     splice output 26 (to_be_bytes 4 (crc32c_with_zeroed_range output 26 30))"

definition encode_raw_packet ::
  "packet \<Rightarrow> packet_flags \<Rightarrow> bytes \<Rightarrow> usize \<Rightarrow> protocol_error + bytes" where
  "encode_raw_packet packet flags payload max_datagram_size =
     and_then (validate_datagram_limit max_datagram_size) (\<lambda>_.
     and_then (ok_or (DatagramTooLarge max_datagram_size (usize_limit - 1))
       (checked_add_usize FIXED_HEADER_LEN (length payload))) (\<lambda>total_len.
     and_then (ensure_datagram_size total_len max_datagram_size) (\<lambda>_.
     let header = header_bytes (pkt_type packet) flags (pkt_connection_id packet)
           (pkt_number packet) (length payload)
     in Inr (with_checksum (header @ payload)))))"

definition encode_packet :: "packet \<Rightarrow> usize \<Rightarrow> protocol_error + bytes" where
  "encode_packet packet max_datagram_size =
     (if flags_contains (pkt_flags packet) ENCRYPTED then Inl EncryptionNotAllowed
      else and_then (encode_frames packet) (\<lambda>payload.
        encode_raw_packet packet (pkt_flags packet) payload max_datagram_size))"

section \<open>Decoding\<close>

text \<open>The only caller of \<open>decode_header\<close> has checked that the 30 bytes it indexes are there, so
  \<open>[bytes[a], .., bytes[b - 1]]\<close> is the part of the input from \<open>a\<close> to \<open>b\<close>.\<close>

definition field :: "bytes \<Rightarrow> usize \<Rightarrow> usize \<Rightarrow> bytes" where
  "field bs a b = take (b - a) (drop a bs)"

definition decode_header :: "bytes \<Rightarrow> protocol_error + packet_header" where
  "decode_header bs =
     (let magic = from_be_bytes (field bs 0 2) in
      if magic \<noteq> MAGIC then Inl (InvalidMagic MAGIC magic)
      else let version = bs ! 2 in
      if version \<noteq> VERSION then Inl (UnsupportedVersion version)
      else
        and_then (packet_type_try_from (bs ! 3)) (\<lambda>ty.
        and_then (flags_from_bits (from_be_bytes (field bs 4 6))) (\<lambda>flags.
        let header_len = from_be_bytes (field bs 6 8) :: u16 in
        if unat header_len \<noteq> FIXED_HEADER_LEN then
          Inl (InvalidHeaderLength FIXED_HEADER_LEN (unat header_len))
        else Inr
          \<lparr>ph_version = version, ph_packet_type = ty, ph_flags = flags, ph_header_len = header_len,
           ph_connection_id = from_be_bytes (field bs 8 16),
           ph_packet_number = from_be_bytes (field bs 16 24),
           ph_payload_len = from_be_bytes (field bs 24 26),
           ph_checksum = from_be_bytes (field bs 26 30)\<rparr>)))"

definition decode_header_and_lengths :: "bytes \<Rightarrow> usize \<Rightarrow> protocol_error + packet_header" where
  "decode_header_and_lengths bs max_datagram_size =
     and_then (validate_datagram_limit max_datagram_size) (\<lambda>_.
     if length bs < FIXED_HEADER_LEN then Inl (DatagramTooShort FIXED_HEADER_LEN (length bs))
     else if length bs > max_datagram_size then
       Inl (DatagramTooLarge max_datagram_size (length bs))
     else
       and_then (decode_header bs) (\<lambda>header.
       let payload_len = unat (ph_payload_len header);
           actual_payload_len = length bs - unat (ph_header_len header)
       in if payload_len \<noteq> actual_payload_len then
            Inl (PayloadLengthMismatch payload_len actual_payload_len)
          else Inr header))"

definition verify_checksum :: "bytes \<Rightarrow> packet_header \<Rightarrow> protocol_error + unit" where
  "verify_checksum bs header =
     (let expected = crc32c_with_zeroed_range bs 26 30 in
      if expected \<noteq> ph_checksum header then Inl (ChecksumMismatch expected (ph_checksum header))
      else Inr ())"

text \<open>One round of the loop of \<open>decode_frames\<close>: the frame at \<open>offset\<close> and the offset behind it.\<close>

definition decode_one_frame :: "frame decoder" where
  "decode_one_frame payload offset =
     and_then (ok_or (Truncated ''frame type'') (get payload offset)) (\<lambda>frame_type.
     and_then (varint_decode payload (offset + 1)) (\<lambda>(body_len, offset).
     if unat body_len > MAX_FRAME_BODY_LEN then
       Inl (FrameTooLarge MAX_FRAME_BODY_LEN (unat body_len))
     else
       and_then (ok_or (Truncated ''frame body'') (checked_add_usize offset (unat body_len))) (\<lambda>stop.
       and_then (ok_or (Truncated ''frame body'') (slice payload offset stop)) (\<lambda>body.
       and_then (frame_decode frame_type body) (\<lambda>f.
       Inr (f, stop))))))"

lemma decode_one_frame_advances:
  "decode_one_frame payload offset = Inr (f, stop) \<Longrightarrow>
     offset < stop \<and> stop \<le> length payload \<and> valid_frame f"
  by (auto simp: decode_one_frame_def result_simps checked_add_usize_def split: if_splits
      dest!: varint_decode_ok(2) frame_decode_valid)

function decode_frames_loop ::
  "bytes \<Rightarrow> usize \<Rightarrow> frame list \<Rightarrow> protocol_error + frame list" where
  "decode_frames_loop payload offset frames =
     (if offset < length payload then
        if length frames = MAX_FRAME_COUNT then Inl (TooManyFrames MAX_FRAME_COUNT)
        else
          (case decode_one_frame payload offset of
             Inl e \<Rightarrow> Inl e
           | Inr (f, offset') \<Rightarrow> decode_frames_loop payload offset' (frames @ [f]))
      else Inr frames)"
  by auto
termination
  by (relation "measure (\<lambda>(payload, offset, frames). length payload - offset)")
    (auto dest!: sym [of _ "decode_one_frame _ _"] dest: decode_one_frame_advances)

declare decode_frames_loop.simps [simp del]

definition decode_frames :: "bytes \<Rightarrow> protocol_error + frame list" where
  "decode_frames payload =
     and_then (decode_frames_loop payload 0 []) (\<lambda>frames.
     if frames = [] then Inl EmptyPacket else Inr frames)"

definition packet_of :: "packet_header \<Rightarrow> frame list \<Rightarrow> packet" where
  "packet_of header frames =
     \<lparr>pkt_type = ph_packet_type header, pkt_flags = ph_flags header,
      pkt_connection_id = ph_connection_id header, pkt_number = ph_packet_number header,
      pkt_frames = frames\<rparr>"

definition decode_plain_packet :: "bytes \<Rightarrow> packet_header \<Rightarrow> protocol_error + packet" where
  "decode_plain_packet bs header =
     and_then (verify_checksum bs header) (\<lambda>_.
     let payload = drop (unat (ph_header_len header)) bs in
     if payload = [] then Inl EmptyPacket
     else and_then (decode_frames payload) (\<lambda>frames. Inr (packet_of header frames)))"

definition decode_packet :: "bytes \<Rightarrow> usize \<Rightarrow> protocol_error + packet" where
  "decode_packet bs max_datagram_size =
     and_then (decode_header_and_lengths bs max_datagram_size) (\<lambda>header.
     if flags_contains (ph_flags header) ENCRYPTED then Inl EncryptedPacketRequiresKeys
     else decode_plain_packet bs header)"

definition peek_connection_id :: "bytes \<Rightarrow> usize \<Rightarrow> protocol_error + connection_id" where
  "peek_connection_id bs max_datagram_size =
     and_then (decode_header_and_lengths bs max_datagram_size) (\<lambda>h. Inr (ph_connection_id h))"

definition peek_packet_flags :: "bytes \<Rightarrow> usize \<Rightarrow> protocol_error + packet_flags" where
  "peek_packet_flags bs max_datagram_size =
     and_then (decode_header_and_lengths bs max_datagram_size) (\<lambda>h. Inr (ph_flags h))"

section \<open>Frames in a payload\<close>

interpretation frame_codec: wire_codec decode_one_frame valid_frame frame_encode
proof
  show "safe_read decode_one_frame valid_frame"
    by (rule safe_readI) (auto dest!: decode_one_frame_advances)
next
  fix f out buf
  assume v: "valid_frame f" and w: "frame_encode f out = Inr buf"
  then obtain body where body: "frame_encode_body f [] = Inr body" "length body \<le> MAX_FRAME_BODY_LEN"
    and rest: "and_then (varint_encode (of_nat (length body)) (out @ [type_code f]))
      (\<lambda>output. Inr (output @ body)) = Inr buf"
    by (auto simp: frame_encode_def result_simps split: if_splits)
  have n: "unat (of_nat (length body) :: u64) = length body"
    using body(2) by (simp add: unat_of_nat_small frame_limits)
  then have le: "of_nat (length body) \<le> MAX_VALUE"
    using body(2) by (simp add: word_le_nat_alt MAX_VALUE_nat frame_limits)
  let ?len = "varint_bytes (of_nat (length body))"
  have "buf = out @ type_code f # ?len @ body"
    using rest le by (simp add: varint_encode_eq)
  moreover have "reads decode_one_frame (type_code f # ?len @ body) f"
  proof (rule readsI)
    fix pre post :: bytes
    assume lim: "length pre + length (type_code f # ?len @ body) < usize_limit"
    have "varint_decode ((pre @ [type_code f]) @ ?len @ body @ post) (length (pre @ [type_code f]))
        = Inr (of_nat (length body), length (pre @ [type_code f]) + length ?len)"
      using lim by (intro varint_decode_bytes le) simp
    moreover have "slice ((pre @ type_code f # ?len) @ body @ post) (length (pre @ type_code f # ?len))
        (length (pre @ type_code f # ?len) + length body) = Some body"
      by (rule slice_append)
    moreover have "frame_decode (type_code f) body = Inr f"
      using v body lim by (intro frame_decode_encode) auto
    ultimately show "decode_one_frame (pre @ (type_code f # ?len @ body) @ post) (length pre)
        = Inr (f, length pre + length (type_code f # ?len @ body))"
      using n body(2) lim by (simp add: decode_one_frame_def checked_add_usize_def)
  qed
  ultimately show "\<exists>bs. buf = out @ bs \<and> reads decode_one_frame bs f"
    by blast
qed

lemma write_all_extends:
  assumes "\<forall>f \<in> set fs. valid_frame f" "write_all frame_encode fs out = Inr buf"
  shows "\<exists>bs. buf = out @ bs"
  using frame_codec.write_all_reads [OF assms] by blast

lemma decode_frames_loop_reads:
  assumes "\<forall>f \<in> set fs. valid_frame f" "write_all frame_encode fs pre = Inr payload"
    and "length acc + length fs \<le> MAX_FRAME_COUNT" "length payload < usize_limit"
  shows "decode_frames_loop payload (length pre) acc = Inr (acc @ fs)"
  using assms
proof (induction fs arbitrary: pre acc)
  case Nil
  then show ?case
    by (simp add: decode_frames_loop.simps)
next
  case (Cons f fs)
  then obtain mid where mid: "frame_encode f pre = Inr mid"
    and rest: "write_all frame_encode fs mid = Inr payload"
    by (auto simp: result_simps)
  obtain bs where bs: "mid = pre @ bs" "reads decode_one_frame bs f"
    using frame_codec.write_reads [OF _ mid] Cons.prems by auto
  obtain cs where cs: "payload = mid @ cs"
    using write_all_extends [OF _ rest] Cons.prems by auto
  have one: "decode_one_frame payload (length pre) = Inr (f, length mid)"
    using readsD [OF bs(2), of pre cs] bs(1) cs Cons.prems(4) by simp
  then have "length pre < length payload"
    using decode_one_frame_advances by fastforce
  moreover have "decode_frames_loop payload (length mid) (acc @ [f]) = Inr ((acc @ [f]) @ fs)"
    using Cons.prems by (intro Cons.IH [OF _ rest]) auto
  ultimately show ?case
    using one Cons.prems(3) by (subst decode_frames_loop.simps) simp
qed

lemma decode_frames_loop_ok:
  assumes "decode_frames_loop payload offset acc = Inr fs"
    and "\<forall>f \<in> set acc. valid_frame f" "length acc \<le> MAX_FRAME_COUNT"
  shows "(\<forall>f \<in> set fs. valid_frame f) \<and> length fs \<le> MAX_FRAME_COUNT"
  using assms
proof (induction payload offset acc arbitrary: fs rule: decode_frames_loop.induct)
  case (1 payload offset acc)
  show ?case
  proof (cases "offset < length payload")
    case False
    with "1.prems" show ?thesis
      by (simp add: decode_frames_loop.simps)
  next
    case True
    with "1.prems" obtain f stop where one: "decode_one_frame payload offset = Inr (f, stop)"
      and room: "length acc \<noteq> MAX_FRAME_COUNT"
      and rest: "decode_frames_loop payload stop (acc @ [f]) = Inr fs"
      by (subst (asm) decode_frames_loop.simps) (auto split: if_splits sum.splits)
    show ?thesis
      using "1.prems" room decode_one_frame_advances [OF one]
      by (intro "1.IH" [OF True room one refl rest]) auto
  qed
qed

lemma decode_frames_encode:
  assumes "\<forall>f \<in> set (pkt_frames p). valid_frame f" "encode_frames p = Inr payload"
  shows "decode_frames payload = Inr (pkt_frames p)" "length payload \<le> 65535" "payload \<noteq> []"
proof -
  from assms(2) have w: "write_all frame_encode (pkt_frames p) [] = Inr payload"
    and n: "pkt_frames p \<noteq> []" "length (pkt_frames p) \<le> MAX_FRAME_COUNT"
    and len: "length payload \<le> 65535"
    by (auto simp: encode_frames_def result_simps split: if_splits)
  show "length payload \<le> 65535"
    by (rule len)
  have loop: "decode_frames_loop payload 0 [] = Inr (pkt_frames p)"
    using decode_frames_loop_reads [OF assms(1) w, of "[]"] n len by (simp add: usize_limit_def)
  then show "decode_frames payload = Inr (pkt_frames p)"
    using n by (simp add: decode_frames_def)
  show "payload \<noteq> []"
    using loop n by (auto simp: decode_frames_loop.simps)
qed

lemma decode_frames_ok:
  "decode_frames payload = Inr fs \<Longrightarrow>
     fs \<noteq> [] \<and> length fs \<le> MAX_FRAME_COUNT \<and> (\<forall>f \<in> set fs. valid_frame f)"
  by (auto simp: decode_frames_def result_simps split: if_splits dest!: decode_frames_loop_ok)

section \<open>The header\<close>

definition valid_packet :: "packet \<Rightarrow> bool" where
  "valid_packet p \<longleftrightarrow>
     pkt_flags p AND NOT KNOWN_BITS = 0 \<and> (\<forall>f \<in> set (pkt_frames p). valid_frame f)"

lemma length_header_bytes [simp]: "length (header_bytes ty fl cid pn n) = FIXED_HEADER_LEN"
  by (simp add: header_bytes_def FIXED_HEADER_LEN_def)

text \<open>A datagram: the header with its checksum field filled, and the payload.\<close>

definition datagram ::
  "packet_type \<Rightarrow> packet_flags \<Rightarrow> connection_id \<Rightarrow> packet_number \<Rightarrow> u32 \<Rightarrow> bytes \<Rightarrow> bytes" where
  "datagram ty fl cid pn crc payload =
     take 26 (header_bytes ty fl cid pn (length payload)) @ to_be_bytes 4 crc @ payload"

lemma with_checksum_header:
  "with_checksum (header_bytes ty fl cid pn (length payload) @ payload) =
     datagram ty fl cid pn
       (crc32c_with_zeroed_range (header_bytes ty fl cid pn (length payload) @ payload) 26 30) payload"
  by (simp add: with_checksum_def splice_def datagram_def FIXED_HEADER_LEN_def)

lemma length_datagram [simp]: "length (datagram ty fl cid pn crc payload) = 30 + length payload"
  by (simp add: datagram_def FIXED_HEADER_LEN_def)

lemma packet_type_round_trip: "packet_type_try_from (packet_type_byte ty) = Inr ty"
  by (cases ty) (simp_all add: packet_type_try_from_def)

lemma decode_header_datagram:
  assumes "fl AND NOT KNOWN_BITS = 0" "length payload \<le> 65535"
  shows "decode_header (datagram ty fl cid pn crc payload) = Inr
     \<lparr>ph_version = VERSION, ph_packet_type = ty, ph_flags = fl, ph_header_len = 30,
      ph_connection_id = cid, ph_packet_number = pn, ph_payload_len = of_nat (length payload),
      ph_checksum = crc\<rparr>"
  using assms
  by (simp add: decode_header_def Let_def datagram_def header_bytes_def field_def
      packet_type_round_trip flags_from_bits_def FIXED_HEADER_LEN_def nth_append)

lemma crc_datagram:
  "crc32c_with_zeroed_range (datagram ty fl cid pn crc payload) 26 30 =
     crc32c_with_zeroed_range (header_bytes ty fl cid pn (length payload) @ payload) 26 30"
proof (rule crc_zeroed_irrelevant)
  fix i
  assume "\<not> (26 \<le> i \<and> i < (30 :: nat))"
  then show "datagram ty fl cid pn crc payload ! i =
      (header_bytes ty fl cid pn (length payload) @ payload) ! i"
    by (auto simp: datagram_def nth_append FIXED_HEADER_LEN_def)
qed (simp add: FIXED_HEADER_LEN_def)

section \<open>Whole packets\<close>

lemma decode_encode_packet:
  assumes v: "valid_packet p" and e: "encode_packet p maximum = Inr bs"
  shows "decode_packet bs maximum = Inr p" "length bs \<le> maximum"
proof -
  obtain ty fl cid pn fs where p: "p = \<lparr>pkt_type = ty, pkt_flags = fl, pkt_connection_id = cid,
      pkt_number = pn, pkt_frames = fs\<rparr>"
    by (cases p) simp
  from e obtain payload where plain: "\<not> flags_contains fl ENCRYPTED"
    and pl: "encode_frames p = Inr payload"
    and raw: "encode_raw_packet p fl payload maximum = Inr bs"
    by (auto simp: encode_packet_def p result_simps split: if_splits)
  have frames: "decode_frames payload = Inr fs" "length payload \<le> 65535" "payload \<noteq> []"
    using decode_frames_encode [OF _ pl] v by (auto simp: valid_packet_def p)
  let ?crc = "crc32c_with_zeroed_range (header_bytes ty fl cid pn (length payload) @ payload) 26 30"
  from raw have bs: "bs = datagram ty fl cid pn ?crc payload" and lim: "30 + length payload \<le> maximum"
    by (auto simp: encode_raw_packet_def Let_def p result_simps validate_datagram_limit_def
        ensure_datagram_size_def checked_add_usize_def with_checksum_header FIXED_HEADER_LEN_def
        split: if_splits)
  have "unat (of_nat (length payload) :: u16) = length payload"
    using frames(2) by (intro unat_of_nat_small) simp
  then show "decode_packet bs maximum = Inr p"
    using frames plain lim v decode_header_datagram [of fl payload]
    by (simp add: decode_packet_def decode_header_and_lengths_def validate_datagram_limit_def
        FIXED_HEADER_LEN_def decode_plain_packet_def verify_checksum_def crc_datagram bs Let_def
        packet_of_def p valid_packet_def) (simp add: datagram_def FIXED_HEADER_LEN_def)
  show "length bs \<le> maximum"
    using lim by (simp add: bs)
qed

lemma decode_header_checksum: "decode_header bs = Inr h \<Longrightarrow> ph_checksum h = from_be_bytes (field bs 26 30)"
  by (auto simp: decode_header_def Let_def result_simps split: if_splits)

lemma decode_packet_checksum:
  assumes "decode_packet bs maximum = Inr p"
  shows "crc32c_with_zeroed_range bs 26 30 = from_be_bytes (field bs 26 30)" "30 \<le> length bs"
  using assms
  by (auto simp: decode_packet_def decode_header_and_lengths_def decode_plain_packet_def
      verify_checksum_def Let_def result_simps FIXED_HEADER_LEN_def dest: decode_header_checksum
      split: if_splits)

lemma changed_byte_rejected:
  assumes ok: "decode_packet bs maximum = Inr p" and i: "i < length bs" "v \<noteq> bs ! i"
  shows "decode_packet (bs[i := v]) maximum \<noteq> Inr q"
proof
  let ?cs = "bs[i := v]"
  assume "decode_packet ?cs maximum = Inr q"
  note cs = decode_packet_checksum [OF this] and bs = decode_packet_checksum [OF ok]
  show False
  proof (cases "26 \<le> i \<and> i < 30")
    case True
    have "crc32c_with_zeroed_range ?cs 26 30 = crc32c_with_zeroed_range bs 26 30"
      by (rule crc_zeroed_irrelevant) (use True in auto)
    then have "field ?cs 26 30 = field bs 26 30"
      using cs bs by (intro from_be_bytes_inj [where 'a = 32]) (auto simp: field_def)
    moreover have "field ?cs 26 30 ! (i - 26) = v" "field bs 26 30 ! (i - 26) = bs ! i"
      using True i bs(2) by (auto simp: field_def)
    ultimately show False
      using i by simp
  next
    case False
    then have "field ?cs 26 30 = field bs 26 30"
      by (auto simp: field_def drop_update_swap take_update_swap not_le not_less list_update_beyond)
    with cs bs crc_detects_byte [OF i(1) False i(2)] show False
      by simp
  qed
qed

lemma decode_header_ok:
  assumes "decode_header bs = Inr h"
  shows "unat (ph_header_len h) = FIXED_HEADER_LEN" "ph_flags h AND NOT KNOWN_BITS = 0"
  using assms
  by (auto simp: decode_header_def Let_def result_simps flags_from_bits_def split: if_splits)

section \<open>What goes over the wire\<close>

text \<open>An ACK frame carries its delay in microseconds: \<open>as_micros\<close> truncates the delays the program measures in
  nanoseconds, and the other end sees the truncated ones.\<close>

fun wire_frame :: "frame \<Rightarrow> frame" where
  "wire_frame (Ack v) = Ack (v\<lparr>ack_delay := 1000 * (ack_delay v div 1000)\<rparr>)"
| "wire_frame f = f"

definition wire_packet :: "packet \<Rightarrow> packet" where
  "wire_packet p = p\<lparr>pkt_frames := map wire_frame (pkt_frames p)\<rparr>"

lemma frame_encode_wire: "frame_encode (wire_frame f) out = frame_encode f out"
proof -
  have "as_micros (1000 * (d div 1000)) = as_micros d" for d
    by (simp add: as_micros_def)
  then have "frame_encode_body (wire_frame f) [] = frame_encode_body f []"
    by (cases f) (simp_all add: ack_frame_encode_def ack_frame_validate_def)
  moreover have "type_code (wire_frame f) = type_code f"
    by (cases f) simp_all
  ultimately show ?thesis
    by (simp only: frame_encode_def)
qed

lemma write_all_wire: "write_all frame_encode (map wire_frame fs) out = write_all frame_encode fs out"
  by (induction fs arbitrary: out) (simp_all add: frame_encode_wire)

lemma encode_frames_wire: "encode_frames (wire_packet p) = encode_frames p"
  by (simp add: encode_frames_def wire_packet_def write_all_wire)

lemma wire_packet_simps [simp]:
  "pkt_type (wire_packet p) = pkt_type p" "pkt_flags (wire_packet p) = pkt_flags p"
  "pkt_connection_id (wire_packet p) = pkt_connection_id p" "pkt_number (wire_packet p) = pkt_number p"
  by (simp_all add: wire_packet_def)

lemma encode_raw_wire: "encode_raw_packet (wire_packet p) flags payload limit = encode_raw_packet p flags payload limit"
  by (simp add: encode_raw_packet_def)

lemma wire_packet_valid: "valid_packet p \<Longrightarrow> wire_packet p = p"
proof -
  assume "valid_packet p"
  then have "wire_frame f = f" if "f \<in> set (pkt_frames p)" for f
    using that by (cases f) (auto simp: valid_packet_def valid_ack_frame_def minus_mod_eq_mult_div [symmetric])
  then show ?thesis
    by (simp add: wire_packet_def map_idI)
qed

lemma encode_packet_wire: "encode_packet (wire_packet p) limit = encode_packet p limit"
  by (simp add: encode_packet_def encode_frames_wire encode_raw_wire)

lemma decode_encode_wire:
  assumes "valid_packet (wire_packet p)" "encode_packet p maximum = Inr bs"
  shows "decode_packet bs maximum = Inr (wire_packet p)" "length bs \<le> maximum"
  using decode_encode_packet [OF assms(1), of maximum bs] assms(2) by (simp_all add: encode_packet_wire)

section \<open>Properties\<close>

text \<open>C22. Packet round trip: a datagram that \<open>encode_packet\<close> produces for a packet with known flags and
  well-formed frames respects the datagram limit, and \<open>decode_packet\<close> gives back the packet as it goes over the
  wire: the same type, flags, connection, number and frames in the same order, except that the delay of an
  ACK frame is truncated to whole microseconds. A packet whose delays are whole microseconds comes back
  unchanged.\<close>

theorem packet_round_trip:
  assumes "valid_packet (wire_packet p)" "encode_packet p maximum = Inr bs"
  shows "decode_packet bs maximum = Inr (wire_packet p) \<and> length bs \<le> maximum \<and> (valid_packet p \<longrightarrow> wire_packet p = p)"
  using decode_encode_wire [OF assms] wire_packet_valid by blast

definition sample_packet :: packet where
  "sample_packet = \<lparr>pkt_type = Data_PT, pkt_flags = 1, pkt_connection_id = 7, pkt_number = 42,
     pkt_frames = [Ping \<lparr>ping_nonce = 9\<rparr>,
       ConnectionClose \<lparr>cc_error_code = 3, cc_frame_type = 0, cc_reason = [98, 121, 101]\<rparr>]\<rparr>"

lemma sample_packet_valid: "valid_packet sample_packet"
  by (simp add: valid_packet_def sample_packet_def KNOWN_BITS_def ACK_ELICITING_def ENCRYPTED_def
      PROBE_def HAS_PADDING_def valid_connection_close_def frame_limits)

lemma sample_packet_encodes: "\<exists>bs. encode_packet sample_packet 1200 = Inr bs \<and> 30 < length bs"
  by (simp add: sample_packet_def encode_packet_def flags_contains_def ENCRYPTED_def encode_frames_def
      frame_encode_def ping_encode_def connection_close_encode_def write_blob_def varint_encode_eq
      varint_bytes_def MAX_VALUE_def MAX_FRAME_COUNT_def frame_limits encode_raw_packet_def
      validate_datagram_limit_def ensure_datagram_size_def checked_add_usize_def usize_limit_def
      with_checksum_def splice_def header_bytes_def Let_def encoded_len_def)

text \<open>A packet with an acknowledgement that waited for 1.5 microseconds.\<close>

definition sample_ack_packet :: packet where
  "sample_ack_packet = sample_packet\<lparr>pkt_frames :=
     [Ack \<lparr>ack_largest = 5, ack_delay = 1500, ack_ranges = [\<lparr>range_start = 2, range_end = 5\<rparr>]\<rparr>]\<rparr>"

lemma sample_ack_packet_encodes:
  "valid_packet (wire_packet sample_ack_packet)" "\<exists>bs. encode_packet sample_ack_packet 1200 = Inr bs"
  by (simp_all add: sample_ack_packet_def sample_packet_def valid_packet_def wire_packet_def KNOWN_BITS_def
      ACK_ELICITING_def ENCRYPTED_def PROBE_def HAS_PADDING_def valid_ack_frame_def valid_ranges_def MAX_ACK_RANGES_def
      ack_ranges_largest_def encode_packet_def flags_contains_def encode_frames_def frame_encode_def ack_frame_encode_def
      ack_frame_validate_def as_micros_def ack_ranges_encode_def ack_range_encode_def varint_encode_eq
      varint_bytes_def MAX_VALUE_def MAX_FRAME_COUNT_def frame_limits encode_raw_packet_def
      validate_datagram_limit_def ensure_datagram_size_def checked_add_usize_def usize_limit_def
      with_checksum_def splice_def header_bytes_def Let_def encoded_len_def)

theorem packet_round_trip_witness:
  "\<exists>bs. encode_packet sample_ack_packet 1200 = Inr bs \<and> decode_packet bs 1200 = Inr (sample_packet\<lparr>pkt_frames :=
     [Ack \<lparr>ack_largest = 5, ack_delay = 1000, ack_ranges = [\<lparr>range_start = 2, range_end = 5\<rparr>]\<rparr>]\<rparr>)"
  using packet_round_trip [OF sample_ack_packet_encodes(1)] sample_ack_packet_encodes(2)
  by (auto simp: wire_packet_def sample_ack_packet_def)
text \<open>C23. Corruption: if a datagram is accepted, then no datagram that differs from it in exactly one
  byte, wherever that byte is, is accepted.\<close>

theorem single_byte_corruption_rejected:
  assumes "decode_packet bs maximum = Inr p" "i < length bs" "v \<noteq> bs ! i"
  shows "\<exists>e. decode_packet (bs[i := v]) maximum = Inl e"
  using changed_byte_rejected [OF assms] by (cases "decode_packet (bs[i := v]) maximum") auto

theorem single_byte_corruption_rejected_witness:
  "\<exists>bs. decode_packet bs 1200 = Inr sample_packet \<and>
     (\<exists>e. decode_packet (bs[20 := bs ! 20 + 1]) 1200 = Inl e)"
proof -
  obtain bs where "decode_packet bs 1200 = Inr sample_packet" "30 < length bs"
    using sample_packet_encodes decode_encode_packet [OF sample_packet_valid] by blast
  with single_byte_corruption_rejected [of bs 1200 sample_packet 20 "bs ! 20 + 1"] show ?thesis
    by auto
qed

text \<open>C26. Decoder soundness: whatever bytes arrive, an accepted datagram is not longer than the limit,
  is not marked encrypted, has only known flags and between 1 and 64 frames, all of them well-formed,
  and the quick look at its connection id agrees with the full decoding.\<close>

theorem decode_packet_sound:
  assumes "decode_packet bs maximum = Inr p"
  shows "valid_packet p \<and> \<not> flags_contains (pkt_flags p) ENCRYPTED \<and> pkt_frames p \<noteq> []
     \<and> length (pkt_frames p) \<le> MAX_FRAME_COUNT \<and> FIXED_HEADER_LEN < length bs
     \<and> length bs \<le> maximum \<and> peek_connection_id bs maximum = Inr (pkt_connection_id p)
     \<and> peek_packet_flags bs maximum = Inr (pkt_flags p)"
proof -
  from assms obtain h fs where h: "decode_header_and_lengths bs maximum = Inr h"
    and f: "\<not> flags_contains (ph_flags h) ENCRYPTED" "drop (unat (ph_header_len h)) bs \<noteq> []"
    and fs: "decode_frames (drop (unat (ph_header_len h)) bs) = Inr fs" and p: "p = packet_of h fs"
    by (auto simp: decode_packet_def decode_plain_packet_def Let_def result_simps split: if_splits)
  from h have "decode_header bs = Inr h" "length bs \<le> maximum"
    by (auto simp: decode_header_and_lengths_def Let_def result_simps split: if_splits)
  with decode_header_ok [of bs h] decode_frames_ok [OF fs] f h show ?thesis
    by (simp add: p packet_of_def valid_packet_def peek_connection_id_def peek_packet_flags_def)
qed

theorem decode_packet_sound_witness:
  "\<exists>bs. decode_packet bs 1200 = Inr sample_packet \<and> length bs \<le> 1200
     \<and> peek_connection_id bs 1200 = Inr 7"
proof -
  obtain bs where bs: "decode_packet bs 1200 = Inr sample_packet"
    using sample_packet_encodes decode_encode_packet [OF sample_packet_valid] by blast
  with decode_packet_sound [OF bs] show ?thesis
    by (auto simp: sample_packet_def)
qed

text \<open>Frame round trip: a well-formed frame of any of the thirteen kinds, appended to a buffer by
  \<open>Frame::encode\<close>, is read back from that place by the frame loop, which stops right behind it whatever
  follows.\<close>

theorem frame_round_trip:
  assumes "valid_frame f" "frame_encode f out = Inr buf" "length buf < usize_limit"
  shows "decode_one_frame (buf @ rest) (length out) = Inr (f, length buf)"
proof -
  obtain bs where "buf = out @ bs" "reads decode_one_frame bs f"
    using frame_codec.write_reads [OF assms(1,2)] by blast
  with readsD [of decode_one_frame bs f out rest] assms(3) show ?thesis
    by simp
qed

theorem frame_round_trip_witness:
  "decode_one_frame ([0] @ [9, 1, 5] @ [77]) 1 = Inr (MaxData \<lparr>md_max_offset = 5\<rparr>, 4)"
  using frame_round_trip [of "MaxData \<lparr>md_max_offset = 5\<rparr>" "[0]" "[0, 9, 1, 5]" "[77]"]
  by (simp add: valid_max_data_def MAX_VALUE_def frame_encode_def max_data_encode_def varint_encode_eq
      varint_bytes_def frame_limits usize_limit_def)

end
