(* ===== verification/Conn_Config.thy ===== *)
theory Conn_Config
  imports Core_Error Wheel_Config Codec
begin

text \<open>
  The vocabulary of a connection: \<open>reliable-core/src/config.rs\<close> (roles, configuration and its
  validation), \<open>timer.rs\<close>, \<open>event.rs\<close>, \<open>stream.rs\<close> and the states of \<open>connection.rs\<close>.
\<close>

section \<open>Model\<close>

datatype connection_role = Client | Server

definition local_stream_parity :: "connection_role \<Rightarrow> u64" where
  "local_stream_parity role = (case role of Client \<Rightarrow> 0 | Server \<Rightarrow> 1)"

definition peer_stream_parity :: "connection_role \<Rightarrow> u64" where
  "peer_stream_parity role = 1 - local_stream_parity role"

record connection_config =
  cfg_max_datagram_size :: usize
  cfg_max_streams :: u32
  cfg_initial_connection_window :: u64
  cfg_initial_stream_window :: u64
  cfg_max_send_buffer :: usize
  cfg_max_receive_buffer :: usize
  cfg_initial_congestion_window :: u64
  cfg_min_congestion_window :: u64
  cfg_max_congestion_window :: u64
  cfg_initial_rto :: duration
  cfg_min_rto :: duration
  cfg_max_rto :: duration
  cfg_clock_granularity :: duration
  cfg_ack_delay :: duration
  cfg_idle_timeout :: duration
  cfg_keepalive_interval :: "duration option"
  cfg_handshake_timeout :: duration
  cfg_close_timeout :: duration
  cfg_max_retransmissions :: u32
  cfg_fast_loss_threshold :: u64
  cfg_handshake_cookie :: bytes

definition connection_config_default :: connection_config where
  "connection_config_default =
     \<lparr>cfg_max_datagram_size = DEFAULT_MAX_DATAGRAM_SIZE,
      cfg_max_streams = 64,
      cfg_initial_connection_window = 4 * 1024 * 1024,
      cfg_initial_stream_window = 1024 * 1024,
      cfg_max_send_buffer = 4 * 1024 * 1024,
      cfg_max_receive_buffer = 4 * 1024 * 1024,
      cfg_initial_congestion_window = 10 * 1200,
      cfg_min_congestion_window = 1200,
      cfg_max_congestion_window = 16 * 1024 * 1024,
      cfg_initial_rto = 1000000000,
      cfg_min_rto = 200000000,
      cfg_max_rto = 60000000000,
      cfg_clock_granularity = 10000000,
      cfg_ack_delay = 25000000,
      cfg_idle_timeout = 30000000000,
      cfg_keepalive_interval = Some 10000000000,
      cfg_handshake_timeout = 5000000000,
      cfg_close_timeout = 1000000000,
      cfg_max_retransmissions = 8,
      cfg_fast_loss_threshold = 3,
      cfg_handshake_cookie = []\<rparr>"

definition config_validate :: "connection_config \<Rightarrow> connection_config_error + unit" where
  "config_validate c =
     (if cfg_max_datagram_size c < FIXED_HEADER_LEN then Inl DatagramSizeTooSmall
      else if cfg_max_datagram_size c > 65535 then Inl DatagramSizeTooLarge
      else if cfg_max_streams c = 0 then Inl ZeroMaxStreams
      else if cfg_initial_connection_window c = 0 \<or> cfg_initial_stream_window c = 0 then Inl ZeroWindow
      else if cfg_max_send_buffer c = 0 \<or> cfg_max_receive_buffer c = 0 then Inl ZeroBuffer
      else if cfg_min_congestion_window c = 0
          \<or> cfg_initial_congestion_window c < cfg_min_congestion_window c
          \<or> cfg_max_congestion_window c < cfg_initial_congestion_window c then Inl InvalidCongestionWindow
      else if cfg_initial_rto c = 0 \<or> cfg_min_rto c = 0 \<or> cfg_max_rto c < cfg_min_rto c
          \<or> cfg_initial_rto c < cfg_min_rto c \<or> cfg_initial_rto c > cfg_max_rto c
          \<or> cfg_clock_granularity c = 0 then Inl InvalidTimeout
      else if cfg_ack_delay c > cfg_max_rto c \<or> cfg_idle_timeout c = 0 \<or> cfg_handshake_timeout c = 0
          \<or> cfg_close_timeout c = 0 \<or> cfg_fast_loss_threshold c = 0
          \<or> length (cfg_handshake_cookie c) > MAX_COOKIE_LEN then Inl InvalidTimeout
      else if (case cfg_keepalive_interval c of
            None \<Rightarrow> False | Some interval \<Rightarrow> interval = 0 \<or> interval \<ge> cfg_idle_timeout c)
        then Inl InvalidKeepalive
      else Inr ())"

definition config_wheel :: "connection_config \<Rightarrow> connection_config_error + wheel_config" where
  "config_wheel c =
     map_err Wheel_CE (builder_build (builder_level_slots (builder_level_slots (builder_level_slots
       (builder_base_tick wheel_builder (cfg_clock_granularity c)) 512) 64) 64))"

datatype timer_event =
    HandshakeTimeout
  | Retransmit packet_number u32
  | AckDelay
  | Keepalive
  | IdleTimeout
  | CloseTimeout

datatype connection_state = Idle | Handshaking | Established | Closing | Closed

datatype core_output =
    Send packet
  | StreamOpened stream_id
  | StreamReadable stream_id
  | StreamFinished stream_id
  | StreamReset stream_id u32
  | ConnectionStateChanged connection_state
  | ConnectionClosed u32

datatype stream_state = Open | Reset u32 | Finished

record stream_info =
  si_stream_id :: stream_id
  si_state :: stream_state
  si_bidirectional :: bool
  si_send_offset :: u64
  si_receive_offset :: u64
  si_receive_window :: u64
  si_buffered_bytes :: usize

record read_result =
  rr_data :: bytes
  rr_eof :: bool

text \<open>How a method of the connection can stop: with an error of the API, by a panic (a \<open>Duration\<close>
  overflow in the round-trip time arithmetic), or not at all (a list of the timing wheel that is longer
  than the number of its timers, hence cyclic).\<close>

datatype stop = Stop core_error | Panic | Endless

section \<open>What validation establishes\<close>

text \<open>The conditions under which the constructors of the components are used safely: \<open>clamp\<close> on the
  congestion window and on the timeout need ordered bounds, the wheel a positive tick.\<close>

lemma config_validate_ok:
  assumes "config_validate c = Inr ()"
  shows "FIXED_HEADER_LEN \<le> cfg_max_datagram_size c" "cfg_max_datagram_size c \<le> 65535"
    "0 < cfg_max_streams c" "0 < cfg_initial_connection_window c" "0 < cfg_initial_stream_window c"
    "0 < cfg_min_congestion_window c" "cfg_min_congestion_window c \<le> cfg_initial_congestion_window c"
    "cfg_initial_congestion_window c \<le> cfg_max_congestion_window c"
    "0 < cfg_min_rto c" "cfg_min_rto c \<le> cfg_initial_rto c" "cfg_initial_rto c \<le> cfg_max_rto c"
    "0 < cfg_clock_granularity c" "cfg_ack_delay c \<le> cfg_max_rto c"
    "length (cfg_handshake_cookie c) \<le> MAX_COOKIE_LEN"
  using assms by (auto simp: config_validate_def word_gt_0 split: if_splits)

lemma default_config_valid: "config_validate connection_config_default = Inr ()"
  by (simp add: config_validate_def connection_config_default_def DEFAULT_MAX_DATAGRAM_SIZE_def
      FIXED_HEADER_LEN_def MAX_COOKIE_LEN_def)

lemma parities: "peer_stream_parity Client = 1" "peer_stream_parity Server = 0"
  "local_stream_parity role \<noteq> peer_stream_parity role"
  by (cases role; simp add: peer_stream_parity_def local_stream_parity_def)+

end
