(* ===== verification/Deadline_Heap.thy ===== *)
theory Deadline_Heap
  imports Core_Error "HOL-Library.Multiset" "HOL-Library.Product_Lexorder"
begin

text \<open>
  The binary min-heap of deadlines, \<open>time-wheel/src/deadline.rs\<close>. The heap tells the owner of each
  node its position through the callback \<open>set_index\<close>, which may fail; the interface \<open>index_store\<close>
  states what it promises for keys that are present. Under it every operation succeeds, keeps the
  heap order, changes the nodes by exactly the one asked for and keeps the positions right.
\<close>

section \<open>Model\<close>

record deadline_node =
  dn_key :: u64
  dn_deadline_tick :: u64

type_synonym 's set_index = "u64 \<Rightarrow> usize \<Rightarrow> 's \<Rightarrow> (timer_error + unit) \<times> 's"
type_synonym 's heap_result = "(timer_error + unit) \<times> deadline_node list \<times> 's"

definition dn_rank :: "deadline_node \<Rightarrow> u64 \<times> u64" where
  "dn_rank n = (dn_deadline_tick n, dn_key n)"

definition heap_less :: "deadline_node list \<Rightarrow> usize \<Rightarrow> usize \<Rightarrow> bool" where
  "heap_less nodes left right \<longleftrightarrow> dn_rank (nodes ! left) < dn_rank (nodes ! right)"

definition swap_nodes ::
  "'s set_index \<Rightarrow> usize \<Rightarrow> usize \<Rightarrow> deadline_node list \<Rightarrow> 's \<Rightarrow> 's heap_result" where
  "swap_nodes set_index left right nodes s =
     (let nodes = nodes[left := nodes ! right, right := nodes ! left] in
      case set_index (dn_key (nodes ! left)) left s of
        (Inl e, s) \<Rightarrow> (Inl e, nodes, s)
      | (Inr _, s) \<Rightarrow>
          (case set_index (dn_key (nodes ! right)) right s of
             (Inl e, s) \<Rightarrow> (Inl e, nodes, s)
           | (Inr _, s) \<Rightarrow> (Inr (), nodes, s)))"

lemma length_swap_nodes:
  "swap_nodes set_index l r nodes s = (x, nodes', s') \<Longrightarrow> length nodes' = length nodes"
  by (auto simp: swap_nodes_def Let_def split: prod.splits sum.splits)

function sift_up :: "'s set_index \<Rightarrow> usize \<Rightarrow> deadline_node list \<Rightarrow> 's \<Rightarrow> 's heap_result" where
  "sift_up set_index index nodes s =
     (if index = 0 then (Inr (), nodes, s)
      else
        let parent = (index - 1) div 2 in
        if \<not> heap_less nodes index parent then (Inr (), nodes, s)
        else
          (case swap_nodes set_index index parent nodes s of
             (Inl e, nodes, s) \<Rightarrow> (Inl e, nodes, s)
           | (Inr _, nodes, s) \<Rightarrow> sift_up set_index parent nodes s))"
  by pat_completeness auto
termination
  by (relation "measure (\<lambda>(_, index, _, _). index)") auto

function sift_down :: "'s set_index \<Rightarrow> usize \<Rightarrow> deadline_node list \<Rightarrow> 's \<Rightarrow> 's heap_result" where
  "sift_down set_index index nodes s =
     (let left = index * 2 + 1 in
      if left \<ge> length nodes then (Inr (), nodes, s)
      else
        let right = left + 1;
            child = (if right < length nodes \<and> heap_less nodes right left then right else left)
        in
        if \<not> heap_less nodes child index then (Inr (), nodes, s)
        else
          (case swap_nodes set_index index child nodes s of
             (Inl e, nodes, s) \<Rightarrow> (Inl e, nodes, s)
           | (Inr _, nodes, s) \<Rightarrow> sift_down set_index child nodes s))"
  by pat_completeness auto
termination
  by (relation "measure (\<lambda>(_, index, nodes, _). length nodes - index)")
    (auto dest!: sym [of _ "swap_nodes _ _ _ _ _"] dest: length_swap_nodes split: if_splits)

declare sift_up.simps [simp del] sift_down.simps [simp del]

definition heap_peek :: "deadline_node list \<Rightarrow> deadline_node option" where
  "heap_peek nodes = (case nodes of [] \<Rightarrow> None | n # _ \<Rightarrow> Some n)"

definition heap_insert ::
  "'s set_index \<Rightarrow> u64 \<Rightarrow> u64 \<Rightarrow> deadline_node list \<Rightarrow> 's \<Rightarrow> 's heap_result" where
  "heap_insert set_index key deadline_tick nodes s =
     (let index = length nodes;
          pushed = nodes @ [\<lparr>dn_key = key, dn_deadline_tick = deadline_tick\<rparr>]
      in
      case set_index key index s of
        (Inl e, s) \<Rightarrow> (Inl e, nodes, s)
      | (Inr _, s) \<Rightarrow> sift_up set_index index pushed s)"

text \<open>The choice that ends \<open>update\<close> and \<open>remove\<close>.\<close>

definition sift ::
  "'s set_index \<Rightarrow> usize \<Rightarrow> deadline_node list \<Rightarrow> 's \<Rightarrow> 's heap_result" where
  "sift set_index index nodes s =
     (if index \<noteq> 0 \<and> heap_less nodes index ((index - 1) div 2) then sift_up set_index index nodes s
      else sift_down set_index index nodes s)"

definition heap_update ::
  "'s set_index \<Rightarrow> u64 \<Rightarrow> usize \<Rightarrow> u64 \<Rightarrow> deadline_node list \<Rightarrow> 's \<Rightarrow> 's heap_result" where
  "heap_update set_index key index deadline_tick nodes s =
     (case get nodes index of
        None \<Rightarrow> (Inl InvariantViolation, nodes, s)
      | Some node \<Rightarrow>
          if dn_key node \<noteq> key then (Inl InvariantViolation, nodes, s)
          else sift set_index index (nodes[index := node\<lparr>dn_deadline_tick := deadline_tick\<rparr>]) s)"

definition heap_remove ::
  "'s set_index \<Rightarrow> u64 \<Rightarrow> usize \<Rightarrow> deadline_node list \<Rightarrow> 's \<Rightarrow> 's heap_result" where
  "heap_remove set_index key index nodes s =
     (if index \<ge> length nodes \<or> dn_key (nodes ! index) \<noteq> key then (Inl InvariantViolation, nodes, s)
      else
        let moved = last nodes; nodes = butlast nodes in
        if index = length nodes then (Inr (), nodes, s)
        else
          let nodes = nodes[index := moved] in
          case set_index (dn_key moved) index s of
            (Inl e, s) \<Rightarrow> (Inl e, nodes, s)
          | (Inr _, s) \<Rightarrow> sift set_index index nodes s)"

section \<open>Heap order\<close>

definition parent :: "nat \<Rightarrow> nat" where
  "parent i = (i - 1) div 2"

definition rank_at :: "deadline_node list \<Rightarrow> nat \<Rightarrow> u64 \<times> u64" where
  "rank_at nodes i = dn_rank (nodes ! i)"

definition heap_ordered :: "deadline_node list \<Rightarrow> bool" where
  "heap_ordered nodes \<longleftrightarrow> (\<forall>i < length nodes. 0 < i \<longrightarrow> rank_at nodes (parent i) \<le> rank_at nodes i)"

text \<open>The order holds except between \<open>x\<close> and its parent, or between \<open>x\<close> and its children; in both
  cases the children of \<open>x\<close> are not below its parent.\<close>

definition ordered_above :: "deadline_node list \<Rightarrow> nat \<Rightarrow> bool" where
  "ordered_above nodes x \<longleftrightarrow>
     (\<forall>i < length nodes. 0 < i \<longrightarrow> i \<noteq> x \<longrightarrow> rank_at nodes (parent i) \<le> rank_at nodes i)
     \<and> (\<forall>i < length nodes. 0 < i \<longrightarrow> parent i = x \<longrightarrow> 0 < x \<longrightarrow> rank_at nodes (parent x) \<le> rank_at nodes i)"

definition ordered_below :: "deadline_node list \<Rightarrow> nat \<Rightarrow> bool" where
  "ordered_below nodes x \<longleftrightarrow>
     (\<forall>i < length nodes. 0 < i \<longrightarrow> parent i \<noteq> x \<longrightarrow> rank_at nodes (parent i) \<le> rank_at nodes i)
     \<and> (\<forall>i < length nodes. 0 < i \<longrightarrow> parent i = x \<longrightarrow> 0 < x \<longrightarrow> rank_at nodes (parent x) \<le> rank_at nodes i)"

lemma parent_less: "0 < i \<Longrightarrow> parent i < i"
  by (simp add: parent_def)

lemma rank_at_swap:
  assumes "l < length nodes" "r < length nodes"
  shows "rank_at (nodes[l := nodes ! r, r := nodes ! l]) i =
     (if i = r then rank_at nodes l else if i = l then rank_at nodes r else rank_at nodes i)"
  using assms by (auto simp: rank_at_def nth_list_update)

lemma sift_up_step:
  assumes ord: "ordered_above nodes x" and x: "0 < x" "x < length nodes"
    and less: "rank_at nodes x < rank_at nodes (parent x)"
  shows "ordered_above (nodes[x := nodes ! parent x, parent x := nodes ! x]) (parent x)"
proof -
  let ?p = "parent x"
  let ?ns = "nodes[x := nodes ! ?p, ?p := nodes ! x]"
  have p: "?p < x" "?p < length nodes"
    using parent_less [OF x(1)] x(2) by auto
  note sw = rank_at_swap [OF x(2) p(2)]
  have above: "\<And>i. i < length nodes \<Longrightarrow> 0 < i \<Longrightarrow> i \<noteq> x \<Longrightarrow> rank_at nodes (parent i) \<le> rank_at nodes i"
    "\<And>i. i < length nodes \<Longrightarrow> 0 < i \<Longrightarrow> parent i = x \<Longrightarrow> rank_at nodes ?p \<le> rank_at nodes i"
    using ord x by (auto simp: ordered_above_def)
  have "rank_at ?ns (parent i) \<le> rank_at ?ns i" if i: "i < length nodes" "0 < i" "i \<noteq> ?p" for i
  proof -
    consider "i = x" | "parent i = x" "i \<noteq> x" | "parent i = ?p" "i \<noteq> x" | "parent i \<noteq> x" "parent i \<noteq> ?p" "i \<noteq> x"
      by blast
    then show ?thesis
    proof cases
      case 1
      then show ?thesis using less p by (simp add: sw)
    next
      case 2
      then show ?thesis using above(2) [OF i(1,2)] i p by (simp add: sw)
    next
      case 3
      then have "rank_at nodes ?p \<le> rank_at nodes i"
        using above(1) [OF i(1,2)] by simp
      then have "rank_at nodes x \<le> rank_at nodes i"
        using less by order
      with 3 i p show ?thesis by (simp add: sw)
    next
      case 4
      then show ?thesis using above(1) [OF i(1,2)] i by (simp add: sw)
    qed
  qed
  moreover have "rank_at ?ns (parent ?p) \<le> rank_at ?ns i"
    if i: "i < length nodes" "0 < i" "parent i = ?p" "0 < ?p" for i
  proof -
    have pp: "parent ?p < ?p"
      using parent_less that(4) by blast
    have up: "rank_at nodes (parent ?p) \<le> rank_at nodes ?p"
      using above(1) [OF p(2) that(4)] p by simp
    moreover have "i \<noteq> x \<Longrightarrow> rank_at nodes ?p \<le> rank_at nodes i"
      using above(1) [OF i(1,2)] i(3) by simp
    moreover have "i \<noteq> ?p"
      using parent_less [OF i(2)] i(3) by auto
    ultimately show ?thesis
      using pp p by (auto simp: sw intro: order_trans)
  qed
  ultimately show ?thesis
    by (simp add: ordered_above_def)
qed

lemma ordered_above_done:
  "ordered_above nodes x \<Longrightarrow> x = 0 \<or> rank_at nodes (parent x) \<le> rank_at nodes x \<Longrightarrow> heap_ordered nodes"
  by (auto simp: ordered_above_def heap_ordered_def)

lemma sift_down_step:
  assumes ord: "ordered_below nodes x" and c: "c < length nodes" "0 < c" "parent c = x"
    and small: "\<And>i. i < length nodes \<Longrightarrow> 0 < i \<Longrightarrow> parent i = x \<Longrightarrow> rank_at nodes c \<le> rank_at nodes i"
    and less: "rank_at nodes c < rank_at nodes x"
  shows "ordered_below (nodes[x := nodes ! c, c := nodes ! x]) c"
proof -
  let ?ns = "nodes[x := nodes ! c, c := nodes ! x]"
  have x: "x < c" "x < length nodes"
    using parent_less [OF c(2)] c by auto
  note sw = rank_at_swap [OF x(2) c(1)]
  have below: "\<And>i. i < length nodes \<Longrightarrow> 0 < i \<Longrightarrow> parent i \<noteq> x \<Longrightarrow> rank_at nodes (parent i) \<le> rank_at nodes i"
    and up: "0 < x \<Longrightarrow> rank_at nodes (parent x) \<le> rank_at nodes c"
    using ord c by (auto simp: ordered_below_def)
  have "rank_at ?ns (parent i) \<le> rank_at ?ns i" if i: "i < length nodes" "0 < i" "parent i \<noteq> c" for i
  proof -
    consider "i = c" | "i = x" | "parent i = x" "i \<noteq> c" "i \<noteq> x" | "parent i \<noteq> x" "i \<noteq> c" "i \<noteq> x"
      by blast
    then show ?thesis
    proof cases
      case 1
      then show ?thesis using less c x by (simp add: sw)
    next
      case 2
      then have "parent x < x"
        using i(2) parent_less by blast
      with 2 up i x show ?thesis by (simp add: sw)
    next
      case 3
      then show ?thesis using small [OF i(1,2)] i x by (simp add: sw)
    next
      case 4
      then show ?thesis using below [OF i(1,2)] i by (simp add: sw)
    qed
  qed
  moreover have "rank_at ?ns (parent c) \<le> rank_at ?ns i" if i: "i < length nodes" "0 < i" "parent i = c" for i
  proof -
    have "i \<noteq> c" "i \<noteq> x"
      using i x parent_less [OF i(2)] by auto
    moreover have "rank_at nodes c \<le> rank_at nodes i"
      using below [OF i(1,2)] i(3) x by simp
    ultimately show ?thesis
      using c x by (simp add: sw)
  qed
  ultimately show ?thesis
    by (simp add: ordered_below_def)
qed

lemma ordered_below_done:
  "ordered_below nodes x \<Longrightarrow>
     (\<And>i. i < length nodes \<Longrightarrow> 0 < i \<Longrightarrow> parent i = x \<Longrightarrow> rank_at nodes x \<le> rank_at nodes i) \<Longrightarrow>
     heap_ordered nodes"
  unfolding ordered_below_def heap_ordered_def by metis

text \<open>The root of a heap is its smallest node.\<close>

lemma heap_root_minimal:
  assumes "heap_ordered nodes" "i < length nodes"
  shows "rank_at nodes 0 \<le> rank_at nodes i"
  using assms(2)
proof (induction i rule: less_induct)
  case (less i)
  show ?case
  proof (cases "i = 0")
    case False
    then have "parent i < i" "rank_at nodes (parent i) \<le> rank_at nodes i"
      using parent_less less.prems assms(1) by (auto simp: heap_ordered_def)
    with less show ?thesis
      by (meson less_trans order_trans)
  qed simp
qed

section \<open>Positions\<close>

text \<open>Every node's owner knows its position.\<close>

definition heap_synced :: "('s \<Rightarrow> u64 \<Rightarrow> usize option) \<Rightarrow> deadline_node list \<Rightarrow> 's \<Rightarrow> bool" where
  "heap_synced index_of nodes s \<longleftrightarrow>
     distinct (map dn_key nodes) \<and> (\<forall>i < length nodes. index_of s (dn_key (nodes ! i)) = Some i)"

lemma swap_mset:
  "l < length xs \<Longrightarrow> r < length xs \<Longrightarrow> mset (xs[l := xs ! r, r := xs ! l]) = mset xs"
  by (rule mset_swap)

lemma synced_neq:
  "heap_synced index_of nodes s \<Longrightarrow> i < length nodes \<Longrightarrow> j < length nodes \<Longrightarrow> i \<noteq> j \<Longrightarrow>
     dn_key (nodes ! i) \<noteq> dn_key (nodes ! j)"
  by (metis heap_synced_def length_map nth_eq_iff_index_eq nth_map)

lemma replaced_ordered:
  assumes ord: "heap_ordered nodes" and x: "x < length nodes"
  shows "x \<noteq> 0 \<and> rank_at (nodes[x := v]) x < rank_at (nodes[x := v]) (parent x) \<Longrightarrow>
      ordered_above (nodes[x := v]) x"
    and "\<not> (x \<noteq> 0 \<and> rank_at (nodes[x := v]) x < rank_at (nodes[x := v]) (parent x)) \<Longrightarrow>
      ordered_below (nodes[x := v]) x"
proof -
  let ?ns = "nodes[x := v]"
  have old: "\<And>i. i < length nodes \<Longrightarrow> 0 < i \<Longrightarrow> rank_at nodes (parent i) \<le> rank_at nodes i"
    using ord by (simp add: heap_ordered_def)
  have other: "i \<noteq> x \<Longrightarrow> rank_at ?ns i = rank_at nodes i" for i
    by (simp add: rank_at_def)
  have far: "rank_at ?ns (parent i) \<le> rank_at ?ns i" if "i < length nodes" "0 < i" "i \<noteq> x" "parent i \<noteq> x" for i
    using old [of i] that other by simp
  have grand: "rank_at ?ns (parent x) \<le> rank_at ?ns i" if i: "i < length nodes" "0 < i" "parent i = x" "0 < x" for i
  proof -
    have "rank_at nodes (parent x) \<le> rank_at nodes x" "rank_at nodes x \<le> rank_at nodes i"
      using old [of x] old [of i] i x by auto
    moreover have "i \<noteq> x" "parent x \<noteq> x"
      using parent_less [of i] parent_less [of x] i by auto
    ultimately show ?thesis
      using other by (simp add: order_trans [of _ "rank_at nodes x"])
  qed
  show "ordered_above ?ns x" if "x \<noteq> 0 \<and> rank_at ?ns x < rank_at ?ns (parent x)"
  proof -
    have "rank_at ?ns x \<le> rank_at ?ns i" if i: "i < length nodes" "0 < i" "parent i = x" for i
    proof -
      have "rank_at ?ns (parent x) \<le> rank_at ?ns i" "rank_at ?ns x < rank_at ?ns (parent x)"
        using grand [OF i] \<open>x \<noteq> 0 \<and> _\<close> by auto
      then show ?thesis
        by order
    qed
    then show ?thesis
      using far grand unfolding ordered_above_def by (metis length_list_update)
  qed
  show "ordered_below ?ns x" if "\<not> (x \<noteq> 0 \<and> rank_at ?ns x < rank_at ?ns (parent x))"
  proof -
    have "rank_at ?ns (parent x) \<le> rank_at ?ns x" if "0 < x"
      using that \<open>\<not> (x \<noteq> 0 \<and> _)\<close> by (simp add: not_less)
    then show ?thesis
      using far grand unfolding ordered_below_def by (metis length_list_update)
  qed
qed

lemma sift_alt:
  "sift set_index x nodes s =
     (if x \<noteq> 0 \<and> rank_at nodes x < rank_at nodes (parent x) then sift_up set_index x nodes s
      else sift_down set_index x nodes s)"
  by (simp add: sift_def heap_less_def rank_at_def parent_def)

lemma pushed_ordered:
  assumes "heap_ordered nodes"
  shows "ordered_above (nodes @ [n]) (length nodes)"
proof -
  have "rank_at (nodes @ [n]) (parent i) \<le> rank_at (nodes @ [n]) i"
    if "i < length nodes" "0 < i" for i
    using that assms parent_less [of i] by (simp add: heap_ordered_def rank_at_def nth_append)
  moreover have "parent i \<noteq> length nodes" if "i < Suc (length nodes)" "0 < i" for i
    using that parent_less [of i] by simp
  ultimately show ?thesis
    by (auto simp: ordered_above_def less_Suc_eq)
qed

lemma popped_ordered: "heap_ordered (nodes @ [n]) \<Longrightarrow> heap_ordered nodes"
proof -
  assume h: "heap_ordered (nodes @ [n])"
  have "rank_at nodes (parent i) \<le> rank_at nodes i" if "i < length nodes" "0 < i" for i
  proof -
    have "rank_at (nodes @ [n]) (parent i) \<le> rank_at (nodes @ [n]) i" "parent i < length nodes"
      using that parent_less [of i] h by (auto simp: heap_ordered_def)
    with that show ?thesis
      by (simp add: rank_at_def nth_append)
  qed
  then show ?thesis
    by (simp add: heap_ordered_def)
qed

text \<open>The outcome of a repair: success, the same nodes, order and positions restored, nothing else touched.\<close>

definition sifted ::
  "('s \<Rightarrow> u64 \<Rightarrow> usize option) \<Rightarrow> ('s \<Rightarrow> 'r) \<Rightarrow> deadline_node list \<Rightarrow> 's \<Rightarrow> 's heap_result \<Rightarrow> bool" where
  "sifted index_of frame nodes s res \<longleftrightarrow>
     (\<exists>nodes' s'. res = (Inr (), nodes', s') \<and> mset nodes' = mset nodes \<and> heap_ordered nodes'
        \<and> heap_synced index_of nodes' s' \<and> frame s' = frame s
        \<and> (\<forall>k. k \<notin> dn_key ` set nodes \<longrightarrow> index_of s' k = index_of s k))"

locale index_store =
  fixes set_index :: "'s set_index"
    and index_of :: "'s \<Rightarrow> u64 \<Rightarrow> usize option"
    and frame :: "'s \<Rightarrow> 'r"
  assumes set_ok: "index_of s k \<noteq> None \<Longrightarrow> fst (set_index k i s) = Inr ()"
    and index_set: "index_of s k \<noteq> None \<Longrightarrow>
      index_of (snd (set_index k i s)) k' = (if k' = k then Some i else index_of s k')"
    and frame_set: "index_of s k \<noteq> None \<Longrightarrow> frame (snd (set_index k i s)) = frame s"
begin

lemma set_index_cases:
  assumes "index_of s k \<noteq> None"
  obtains s' where "set_index k i s = (Inr (), s')" "frame s' = frame s"
    "\<And>k'. index_of s' k' = (if k' = k then Some i else index_of s k')"
proof -
  obtain x s' where s': "set_index k i s = (x, s')"
    by fastforce
  with set_ok [OF assms, of i] index_set [OF assms, of i] frame_set [OF assms, of i] that show thesis
    by simp
qed

lemma swap_ok:
  assumes syn: "heap_synced index_of nodes s" and l: "l < length nodes" and r: "r < length nodes" and ne: "l \<noteq> r"
  shows "\<exists>s'. swap_nodes set_index l r nodes s = (Inr (), nodes[l := nodes ! r, r := nodes ! l], s')
     \<and> heap_synced index_of (nodes[l := nodes ! r, r := nodes ! l]) s' \<and> frame s' = frame s
     \<and> (\<forall>k. k \<notin> dn_key ` set nodes \<longrightarrow> index_of s' k = index_of s k)"
proof -
  let ?ns = "nodes[l := nodes ! r, r := nodes ! l]"
  let ?kl = "dn_key (nodes ! l)" and ?kr = "dn_key (nodes ! r)"
  have at: "?ns ! l = nodes ! r" "?ns ! r = nodes ! l"
    using l r ne by (auto simp: nth_list_update)
  have idx: "index_of s ?kl = Some l" "index_of s ?kr = Some r"
    using syn l r by (auto simp: heap_synced_def)
  obtain s1 where s1: "set_index ?kr l s = (Inr (), s1)" "frame s1 = frame s"
    "\<And>k'. index_of s1 k' = (if k' = ?kr then Some l else index_of s k')"
    using set_index_cases [of s ?kr l] idx by auto
  obtain s2 where s2: "set_index ?kl r s1 = (Inr (), s2)" "frame s2 = frame s1"
    "\<And>k'. index_of s2 k' = (if k' = ?kl then Some r else index_of s1 k')"
    using set_index_cases [of s1 ?kl r] idx s1(3) by (metis option.distinct(1))
  have "index_of s2 (dn_key (?ns ! i)) = Some i" if "i < length nodes" for i
  proof -
    have "i \<noteq> l \<Longrightarrow> dn_key (nodes ! i) \<noteq> ?kl" "i \<noteq> r \<Longrightarrow> dn_key (nodes ! i) \<noteq> ?kr" "?kl \<noteq> ?kr"
      using synced_neq [OF syn that l] synced_neq [OF syn that r] synced_neq [OF syn l r ne] by auto
    then show ?thesis
      using that syn at ne by (cases "i = l"; cases "i = r") (auto simp: s1(3) s2(3) heap_synced_def)
  qed
  moreover have "distinct (map dn_key ?ns)"
    using syn swap_mset [OF l r] by (metis heap_synced_def mset_eq_imp_distinct_iff mset_map)
  ultimately have "heap_synced index_of ?ns s2"
    by (simp add: heap_synced_def)
  moreover have "index_of s2 k = index_of s k" if "k \<notin> dn_key ` set nodes" for k
    using that l r by (auto simp: s1(3) s2(3))
  ultimately show ?thesis
    using s1 s2 at by (simp add: swap_nodes_def Let_def)
qed

lemma sift_up_ok:
  assumes "heap_synced index_of nodes s" "ordered_above nodes x" "x < length nodes"
  shows "sifted index_of frame nodes s (sift_up set_index x nodes s)"
  using assms
proof (induction x arbitrary: nodes s rule: less_induct)
  case (less x)
  show ?case
  proof (cases "x = 0 \<or> rank_at nodes (parent x) \<le> rank_at nodes x")
    case True
    then have "sift_up set_index x nodes s = (Inr (), nodes, s)"
      by (subst sift_up.simps) (auto simp: heap_less_def rank_at_def parent_def Let_def)
    moreover have "heap_ordered nodes"
      using True less.prems ordered_above_done by blast
    ultimately show ?thesis
      using less.prems by (simp add: sifted_def)
  next
    case False
    then have x: "0 < x" "parent x < x" "parent x < length nodes"
      and less': "rank_at nodes x < rank_at nodes (parent x)"
      using parent_less less.prems(3) by (auto intro: less_trans)
    let ?ns = "nodes[x := nodes ! parent x, parent x := nodes ! x]"
    obtain s' where s': "swap_nodes set_index x (parent x) nodes s = (Inr (), ?ns, s')"
      "heap_synced index_of ?ns s'" "frame s' = frame s"
      "\<forall>k. k \<notin> dn_key ` set nodes \<longrightarrow> index_of s' k = index_of s k"
      using swap_ok [OF less.prems(1,3) x(3)] x(2) by auto
    have "sifted index_of frame ?ns s' (sift_up set_index (parent x) ?ns s')"
      using less.IH [OF x(2) s'(2) sift_up_step [OF less.prems(2) x(1) less.prems(3) less']] x by simp
    moreover have "mset ?ns = mset nodes"
      using swap_mset [OF less.prems(3) x(3)] .
    moreover have "set ?ns = set nodes"
      using calculation(2) by (metis set_mset_mset)
    moreover have "sift_up set_index x nodes s = sift_up set_index (parent x) ?ns s'"
      using x less' s'(1) by (subst sift_up.simps) (simp add: heap_less_def rank_at_def parent_def Let_def)
    ultimately show ?thesis
      using s'(3,4) by (auto simp: sifted_def)
  qed
qed

lemma children: "0 < i \<and> parent i = x \<longleftrightarrow> i = x * 2 + 1 \<or> i = x * 2 + 2"
  by (auto simp: parent_def)

lemma sift_down_ok:
  assumes "heap_synced index_of nodes s" "ordered_below nodes x" "x < length nodes"
  shows "sifted index_of frame nodes s (sift_down set_index x nodes s)"
  using assms
proof (induction "length nodes - x" arbitrary: x nodes s rule: less_induct)
  case less
  let ?l = "x * 2 + 1"
  let ?c = "if ?l + 1 < length nodes \<and> heap_less nodes (?l + 1) ?l then ?l + 1 else ?l"
  show ?case
  proof (cases "?l < length nodes \<and> rank_at nodes ?c < rank_at nodes x")
    case False
    then have "sift_down set_index x nodes s = (Inr (), nodes, s)"
      by (subst sift_down.simps) (auto simp: heap_less_def rank_at_def Let_def)
    moreover have "rank_at nodes x \<le> rank_at nodes i" if "i < length nodes" "0 < i" "parent i = x" for i
    proof -
      have "i = ?l \<or> i = ?l + 1"
        using children [of i x] that by auto
      then show ?thesis
        using False that by (auto simp: heap_less_def rank_at_def [symmetric] not_less split: if_splits
            intro: order_trans)
    qed
    then have "heap_ordered nodes"
      using less.prems ordered_below_done by blast
    ultimately show ?thesis
      using less.prems by (simp add: sifted_def)
  next
    case True
    define c where "c = ?c"
    have c: "c < length nodes" "0 < c" "parent c = x" "x < c"
      using True by (auto simp: c_def parent_def)
    have small: "rank_at nodes c \<le> rank_at nodes i" if "i < length nodes" "0 < i" "parent i = x" for i
    proof -
      have "i = ?l \<or> i = ?l + 1"
        using children [of i x] that by auto
      then show ?thesis
        using that by (auto simp: c_def heap_less_def rank_at_def [symmetric] not_less)
    qed
    let ?ns = "nodes[x := nodes ! c, c := nodes ! x]"
    obtain s' where s': "swap_nodes set_index x c nodes s = (Inr (), ?ns, s')"
      "heap_synced index_of ?ns s'" "frame s' = frame s"
      "\<forall>k. k \<notin> dn_key ` set nodes \<longrightarrow> index_of s' k = index_of s k"
      using swap_ok [OF less.prems(1,3) c(1)] c by auto
    have lt: "rank_at nodes c < rank_at nodes x"
      using True by (simp add: c_def)
    have "length ?ns - c < length nodes - x" "c < length ?ns"
      using c(1,4) by auto
    moreover have "ordered_below ?ns c"
      by (rule sift_down_step [OF less.prems(2) c(1-3) _ lt]) (rule small)
    ultimately have "sifted index_of frame ?ns s' (sift_down set_index c ?ns s')"
      using less.hyps s'(2) by blast
    moreover have "mset ?ns = mset nodes"
      using swap_mset [OF less.prems(3) c(1)] .
    moreover have "set ?ns = set nodes"
      using calculation(2) by (metis set_mset_mset)
    moreover have "sift_down set_index x nodes s = sift_down set_index c ?ns s'"
      using True lt s'(1) unfolding sift_down.simps [of set_index x nodes s] Let_def c_def [symmetric]
      by (simp add: heap_less_def rank_at_def)
    ultimately show ?thesis
      using s'(3,4) by (auto simp: sifted_def)
  qed
qed

lemma sift_ok:
  assumes "heap_ordered nodes" "x < length nodes" "heap_synced index_of (nodes[x := v]) s"
  shows "sifted index_of frame (nodes[x := v]) s (sift set_index x (nodes[x := v]) s)"
  unfolding sift_alt using replaced_ordered [OF assms(1,2), of v] assms(2,3)
  by (auto intro!: sift_up_ok sift_down_ok)

lemma heap_insert_ok:
  assumes syn: "heap_synced index_of nodes s" and ord: "heap_ordered nodes"
    and new: "key \<notin> dn_key ` set nodes" "index_of s key \<noteq> None"
  shows "\<exists>nodes' s'. heap_insert set_index key d nodes s = (Inr (), nodes', s')
     \<and> mset nodes' = add_mset \<lparr>dn_key = key, dn_deadline_tick = d\<rparr> (mset nodes)
     \<and> heap_ordered nodes' \<and> heap_synced index_of nodes' s' \<and> frame s' = frame s
     \<and> (\<forall>k. k \<notin> insert key (dn_key ` set nodes) \<longrightarrow> index_of s' k = index_of s k)"
proof -
  let ?n = "\<lparr>dn_key = key, dn_deadline_tick = d\<rparr>"
  let ?ns = "nodes @ [?n]"
  obtain s1 where s1: "set_index key (length nodes) s = (Inr (), s1)" "frame s1 = frame s"
    "\<And>k'. index_of s1 k' = (if k' = key then Some (length nodes) else index_of s k')"
    using set_index_cases [OF new(2), of "length nodes"] by blast
  have "heap_synced index_of ?ns s1"
  proof -
    have "index_of s1 (dn_key (?ns ! j)) = Some j" if "j < Suc (length nodes)" for j
    proof (cases "j = length nodes")
      case False
      with that have j: "j < length nodes"
        by simp
      then have "dn_key (nodes ! j) \<noteq> key"
        using new(1) by (metis image_eqI nth_mem)
      with j syn show ?thesis
        by (simp add: s1(3) nth_append heap_synced_def)
    qed (simp add: s1(3))
    then show ?thesis
      using syn new(1) by (auto simp: heap_synced_def)
  qed
  moreover have "ordered_above ?ns (length nodes)"
    using ord by (rule pushed_ordered)
  ultimately have "sifted index_of frame ?ns s1 (sift_up set_index (length nodes) ?ns s1)"
    by (rule sift_up_ok) simp
  with s1 show ?thesis
    by (auto simp: heap_insert_def sifted_def)
qed

lemma heap_update_ok:
  assumes syn: "heap_synced index_of nodes s" and ord: "heap_ordered nodes"
    and i: "i < length nodes" "dn_key (nodes ! i) = key"
  shows "\<exists>nodes' s'. heap_update set_index key i d nodes s = (Inr (), nodes', s')
     \<and> mset nodes' = add_mset \<lparr>dn_key = key, dn_deadline_tick = d\<rparr> (mset nodes - {#nodes ! i#})
     \<and> heap_ordered nodes' \<and> heap_synced index_of nodes' s' \<and> frame s' = frame s
     \<and> (\<forall>k. k \<notin> dn_key ` set nodes \<longrightarrow> index_of s' k = index_of s k)"
proof -
  let ?n = "(nodes ! i)\<lparr>dn_deadline_tick := d\<rparr>"
  have n: "?n = \<lparr>dn_key = key, dn_deadline_tick = d\<rparr>"
    using i(2) by (cases "nodes ! i") simp
  have keys: "map dn_key (nodes[i := ?n]) = map dn_key nodes"
    using i list_update_id [of "map dn_key nodes" i] by (simp add: map_update)
  have "dn_key (nodes[i := ?n] ! j) = dn_key (nodes ! j)" for j
    using i(1) by (cases "j = i") auto
  then have "heap_synced index_of (nodes[i := ?n]) s"
    using syn keys by (simp add: heap_synced_def)
  from sift_ok [OF ord i(1) this]
  have "sifted index_of frame (nodes[i := ?n]) s (sift set_index i (nodes[i := ?n]) s)" .
  moreover have "dn_key ` set (nodes[i := ?n]) = dn_key ` set nodes"
    using keys by (metis set_map)
  moreover have "heap_update set_index key i d nodes s = sift set_index i (nodes[i := ?n]) s"
    using i by (simp add: heap_update_def get_def)
  ultimately show ?thesis
    using i(1) n by (auto simp: sifted_def mset_update)
qed

lemma heap_remove_ok:
  assumes syn: "heap_synced index_of nodes s" and ord: "heap_ordered nodes"
    and i: "i < length nodes" "dn_key (nodes ! i) = key"
  shows "\<exists>nodes' s'. heap_remove set_index key i nodes s = (Inr (), nodes', s')
     \<and> mset nodes' = mset nodes - {#nodes ! i#}
     \<and> heap_ordered nodes' \<and> heap_synced index_of nodes' s' \<and> frame s' = frame s
     \<and> (\<forall>k. k \<notin> dn_key ` set nodes \<longrightarrow> index_of s' k = index_of s k)"
proof -
  define bs l where "bs = butlast nodes" and "l = last nodes"
  have nodes: "nodes = bs @ [l]"
    using i(1) by (cases nodes rule: rev_cases) (auto simp: bs_def l_def)
  have ordb: "heap_ordered bs"
    using ord popped_ordered unfolding nodes by blast
  have bs: "heap_ordered bs" "distinct (map dn_key bs)" "dn_key l \<notin> dn_key ` set bs"
    "\<And>j. j < length bs \<Longrightarrow> index_of s (dn_key (bs ! j)) = Some j" "index_of s (dn_key l) = Some (length bs)"
    using syn ordb unfolding nodes by (auto simp: heap_synced_def nth_append less_Suc_eq)
  show ?thesis
  proof (cases "i = length bs")
    case True
    then have "heap_remove set_index key i nodes s = (Inr (), bs, s)"
      using i by (simp add: heap_remove_def nodes)
    moreover have "heap_synced index_of bs s"
      using bs by (simp add: heap_synced_def)
    ultimately show ?thesis
      using True bs by (simp add: nodes)
  next
    case False
    then have ib: "i < length bs"
      using i(1) by (simp add: nodes)
    obtain s1 where s1: "set_index (dn_key l) i s = (Inr (), s1)" "frame s1 = frame s"
      "\<And>k'. index_of s1 k' = (if k' = dn_key l then Some i else index_of s k')"
      using set_index_cases [of s "dn_key l" i] bs(5) by blast
    let ?ns = "bs[i := l]"
    have "distinct (map dn_key ?ns)"
      using bs(2,3) by (auto simp: map_update intro!: distinct_list_update)
    moreover have "index_of s1 (dn_key (?ns ! j)) = Some j" if "j < length bs" for j
    proof (cases "j = i")
      case False
      have "dn_key (bs ! j) \<noteq> dn_key l"
        using bs(3) that by (metis image_eqI nth_mem)
      with False that bs(4) show ?thesis
        by (simp add: s1(3))
    qed (use ib in \<open>simp add: s1(3)\<close>)
    ultimately have "heap_synced index_of ?ns s1"
      by (simp add: heap_synced_def)
    from sift_ok [OF bs(1) ib this]
    obtain nodes' s' where res: "sift set_index i ?ns s1 = (Inr (), nodes', s')" "mset nodes' = mset ?ns"
      "heap_ordered nodes'" "heap_synced index_of nodes' s'" "frame s' = frame s1"
      "\<And>k. k \<notin> dn_key ` set ?ns \<Longrightarrow> index_of s' k = index_of s1 k"
      unfolding sifted_def by blast
    have "heap_remove set_index key i nodes s = sift set_index i ?ns s1"
      using i ib s1(1) by (simp add: heap_remove_def nodes nth_append Let_def)
    moreover have "mset ?ns = mset nodes - {#nodes ! i#}"
      using ib by (simp add: nodes mset_update nth_append)
    moreover have "index_of s' k = index_of s k" if "k \<notin> dn_key ` set nodes" for k
    proof -
      have "dn_key ` set ?ns \<subseteq> dn_key ` set nodes"
        using set_update_subset_insert [of bs i l] by (auto simp: nodes)
      then have "index_of s' k = index_of s1 k"
        using res(6) that by blast
      then show ?thesis
        using that by (simp add: s1(3) nodes)
    qed
    ultimately show ?thesis
      using s1(2) res by (intro exI [of _ nodes'] exI [of _ s']) auto
  qed
qed

end

end
