(* ===== verification/State_Result.thy ===== *)
theory State_Result
  imports Prelude
begin

text \<open>
  Methods on \<open>&mut self\<close> that return \<open>Result\<close>: a computation takes the state and returns its result
  with the state as it is then, also when it fails half way, since an early return keeps what has been
  changed. \<open>st_bind\<close> is the question-mark operator between two of them; \<open>keeps I m\<close> says that \<open>m\<close>
  preserves \<open>I\<close> on every path, errors included, and composes along the program text.
\<close>

type_synonym ('s, 'e, 'a) st = "'s \<Rightarrow> ('e + 'a) \<times> 's"

definition st_bind :: "('s, 'e, 'a) st \<Rightarrow> ('a \<Rightarrow> ('s, 'e, 'b) st) \<Rightarrow> ('s, 'e, 'b) st" where
  "st_bind m f = (\<lambda>s. case m s of (Inl e, s') \<Rightarrow> (Inl e, s') | (Inr x, s') \<Rightarrow> f x s')"

definition st_return :: "'a \<Rightarrow> ('s, 'e, 'a) st" where
  "st_return x = (\<lambda>s. (Inr x, s))"

definition st_fail :: "'e \<Rightarrow> ('s, 'e, 'a) st" where
  "st_fail e = (\<lambda>s. (Inl e, s))"

text \<open>A computation on results only, a read of the state, a change of the state.\<close>

definition st_lift :: "'e + 'a \<Rightarrow> ('s, 'e, 'a) st" where
  "st_lift r = (\<lambda>s. (r, s))"

definition st_read :: "('s \<Rightarrow> 'a) \<Rightarrow> ('s, 'e, 'a) st" where
  "st_read f = (\<lambda>s. (Inr (f s), s))"

definition st_modify :: "('s \<Rightarrow> 's) \<Rightarrow> ('s, 'e, unit) st" where
  "st_modify f = (\<lambda>s. (Inr (), f s))"

definition st_then :: "('s, 'e, 'a) st \<Rightarrow> ('s, 'e, 'b) st \<Rightarrow> ('s, 'e, 'b) st" where
  "st_then m k = st_bind m (\<lambda>_. k)"

definition st_when :: "bool \<Rightarrow> ('s, 'e, unit) st \<Rightarrow> ('s, 'e, unit) st" where
  "st_when c m = (if c then m else st_return ())"

text \<open>\<open>for x in xs { f(x)?; }\<close>\<close>

primrec st_for :: "'a list \<Rightarrow> ('a \<Rightarrow> ('s, 'e, unit) st) \<Rightarrow> ('s, 'e, unit) st" where
  "st_for [] f = st_return ()"
| "st_for (x # xs) f = st_then (f x) (st_for xs f)"

text \<open>A method of a field: \<open>self.field.method(..)\<close>, with the error converted.\<close>

definition st_field ::
  "('s \<Rightarrow> 't) \<Rightarrow> ('t \<Rightarrow> 's \<Rightarrow> 's) \<Rightarrow> ('f \<Rightarrow> 'e) \<Rightarrow> ('t, 'f, 'a) st \<Rightarrow> ('s, 'e, 'a) st" where
  "st_field sel upd conv m = (\<lambda>s. case m (sel s) of (r, t) \<Rightarrow> (map_err conv r, upd t s))"

section \<open>Execution\<close>

lemma st_run [simp]:
  "st_return x s = (Inr x, s)"
  "st_fail e s = (Inl e, s)"
  "st_lift r s = (r, s)"
  "st_read f s = (Inr (f s), s)"
  "st_modify g s = (Inr (), g s)"
  by (simp_all add: st_return_def st_fail_def st_lift_def st_read_def st_modify_def)

lemma st_bind_run:
  "m s = (Inr x, s') \<Longrightarrow> st_bind m f s = f x s'"
  "m s = (Inl e, s') \<Longrightarrow> st_bind m f s = (Inl e, s')"
  by (simp_all add: st_bind_def)

lemma st_bind_simps [simp]:
  "st_bind (st_return x) f = f x"
  "st_bind (st_fail e) f = st_fail e"
  "st_bind (st_read g) f s = f (g s) s"
  "st_bind (st_modify h) k s = k () (h s)"
  "st_bind (st_lift (Inr x)) f = f x"
  "st_bind (st_lift (Inl e)) f = st_fail e"
  by (auto simp: st_bind_def)

lemma st_then_simps [simp]:
  "st_then (st_modify h) k s = k (h s)"
  "st_then (st_return x) k s = k s"
  "st_then (st_fail e) k s = (Inl e, s)"
  by (simp_all add: st_then_def)

lemma st_bind_eq_Inr:
  "st_bind m f s = (Inr y, s'') \<longleftrightarrow> (\<exists>x s'. m s = (Inr x, s') \<and> f x s' = (Inr y, s''))"
  by (cases "m s") (auto simp: st_bind_def split: sum.splits)

lemma st_bind_eq_Inl:
  "st_bind m f s = (Inl e, s'') \<longleftrightarrow>
     m s = (Inl e, s'') \<or> (\<exists>x s'. m s = (Inr x, s') \<and> f x s' = (Inl e, s''))"
  by (cases "m s") (auto simp: st_bind_def split: sum.splits)

lemma st_when_simps [simp]:
  "st_when True m = m"
  "st_when False m = st_return ()"
  by (simp_all add: st_when_def)

section \<open>Preservation\<close>

definition keeps :: "('s \<Rightarrow> bool) \<Rightarrow> ('s, 'e, 'a) st \<Rightarrow> bool" where
  "keeps I m \<longleftrightarrow> (\<forall>s. I s \<longrightarrow> I (snd (m s)))"

named_theorems keeps_intros \<open>preservation along the program text\<close>

lemma keepsI: "(\<And>s. I s \<Longrightarrow> I (snd (m s))) \<Longrightarrow> keeps I m"
  by (simp add: keeps_def)

lemma keepsD: "keeps I m \<Longrightarrow> I s \<Longrightarrow> I (snd (m s))"
  by (simp add: keeps_def)

lemma keeps_basic [keeps_intros, simp]:
  "keeps I (st_return x)" "keeps I (st_fail e)" "keeps I (st_lift r)" "keeps I (st_read f)"
  by (simp_all add: keeps_def)

lemma keeps_modify [keeps_intros]: "(\<And>s. I s \<Longrightarrow> I (f s)) \<Longrightarrow> keeps I (st_modify f)"
  by (simp add: keeps_def)

lemma keeps_bind [keeps_intros]:
  assumes "keeps I m" "\<And>x. keeps I (f x)"
  shows "keeps I (st_bind m f)"
proof (rule keepsI)
  fix s
  assume "I s"
  then have "I (snd (m s))"
    using assms(1) by (simp add: keeps_def)
  with assms(2) show "I (snd (st_bind m f s))"
    by (auto simp: st_bind_def keeps_def split: prod.splits sum.splits)
qed

text \<open>What is read is known to satisfy the invariant where it is used.\<close>

lemma keeps_read_bind:
  assumes "\<And>s. I s \<Longrightarrow> I (snd (f (g s) s))"
  shows "keeps I (st_bind (st_read g) f)"
  by (rule keepsI) (simp add: assms)

lemma keeps_then [keeps_intros]: "keeps I m \<Longrightarrow> keeps I k \<Longrightarrow> keeps I (st_then m k)"
  by (simp add: st_then_def keeps_bind)

lemma keeps_when [keeps_intros]: "(c \<Longrightarrow> keeps I m) \<Longrightarrow> keeps I (st_when c m)"
  by (cases c) simp_all

lemma keeps_if [keeps_intros]:
  "(c \<Longrightarrow> keeps I m) \<Longrightarrow> (\<not> c \<Longrightarrow> keeps I k) \<Longrightarrow> keeps I (if c then m else k)"
  by simp

lemma keeps_for [keeps_intros]: "(\<And>x. keeps I (f x)) \<Longrightarrow> keeps I (st_for xs f)"
  by (induction xs) (simp_all add: keeps_then)

lemma keeps_option [keeps_intros]:
  "keeps I m \<Longrightarrow> (\<And>x. keeps I (f x)) \<Longrightarrow> keeps I (case y of None \<Rightarrow> m | Some x \<Rightarrow> f x)"
  by (cases y) simp_all

lemma keeps_sum [keeps_intros]:
  "(\<And>x. keeps I (f x)) \<Longrightarrow> (\<And>x. keeps I (g x)) \<Longrightarrow> keeps I (case y of Inl x \<Rightarrow> f x | Inr x \<Rightarrow> g x)"
  by (cases y) simp_all

lemma keeps_prod [keeps_intros]:
  "(\<And>x y. keeps I (f x y)) \<Longrightarrow> keeps I (case p of (x, y) \<Rightarrow> f x y)"
  by (cases p) simp

lemma keeps_field:
  assumes "\<And>s. I s \<Longrightarrow> I (upd (snd (m (sel s))) s)"
  shows "keeps I (st_field sel upd conv m)"
  using assms by (simp add: keeps_def st_field_def case_prod_beta)

end
