(* ===== verification/Timer_Wheel.thy ===== *)
theory Timer_Wheel
  imports Wheel_Config Deadline_Heap Btree_Map State_Result
begin

text \<open>
  The hierarchical timing wheel, \<open>time-wheel/src/wheel.rs\<close> with \<open>level.rs\<close> and \<open>id.rs\<close>. Timers live in
  a slot map; every slot of every level holds a doubly linked list of timers threaded through the
  entries; a min-heap of deadlines mirrors them.

  The slot map is the crate \<open>slotmap\<close>. Its keys are the 64-bit numbers of \<open>as_ffi\<close>, by which the heap
  orders equal deadlines; which key an insertion gets and in which order the keys are iterated are the fields of \<open>slotmap_api\<close>, an argument
  of the operations that insert or iterate.
\<close>

section \<open>The slot map\<close>

record slotmap_api =
  sm_alloc :: "u64 list \<Rightarrow> u64 list \<Rightarrow> u64"
  sm_order :: "u64 list \<Rightarrow> u64 list"

record 'v slot_map =
  sm_entries :: "(u64, 'v) btree_map"
  sm_issued :: "u64 list"

definition sm_new :: "'v slot_map" where
  "sm_new = \<lparr>sm_entries = [], sm_issued = []\<rparr>"

definition sm_insert :: "slotmap_api \<Rightarrow> 'v \<Rightarrow> 'v slot_map \<Rightarrow> u64 \<times> 'v slot_map" where
  "sm_insert api v m =
     (let k = sm_alloc api (sm_issued m) (bt_keys (sm_entries m))
      in (k, \<lparr>sm_entries = bt_insert k v (sm_entries m), sm_issued = k # sm_issued m\<rparr>))"

definition sm_get :: "'v slot_map \<Rightarrow> u64 \<Rightarrow> 'v option" where
  "sm_get m k = bt_get (sm_entries m) k"

definition sm_set :: "u64 \<Rightarrow> 'v \<Rightarrow> 'v slot_map \<Rightarrow> 'v slot_map" where
  "sm_set k v m = m\<lparr>sm_entries := bt_insert k v (sm_entries m)\<rparr>"

definition sm_remove :: "u64 \<Rightarrow> 'v slot_map \<Rightarrow> 'v slot_map" where
  "sm_remove k m = m\<lparr>sm_entries := bt_remove k (sm_entries m)\<rparr>"

definition sm_keys :: "slotmap_api \<Rightarrow> 'v slot_map \<Rightarrow> u64 list" where
  "sm_keys api m = sm_order api (bt_keys (sm_entries m))"

text \<open>What the documentation of \<open>slotmap\<close> promises: a key is not handed out again (until a slot has been
  reused \<open>2 ^ 31\<close> times), and iteration visits every key once.\<close>

definition slotmap_laws :: "slotmap_api \<Rightarrow> bool" where
  "slotmap_laws api \<longleftrightarrow>
     (\<forall>issued live. length issued < 2 ^ 31 \<longrightarrow> sm_alloc api issued live \<notin> set issued)
     \<and> (\<forall>ks. distinct ks \<longrightarrow> distinct (sm_order api ks) \<and> set (sm_order api ks) = set ks)"

section \<open>The wheel\<close>

definition SMALL_ADVANCE_LIMIT :: nat where "SMALL_ADVANCE_LIMIT = 4096"

record 'a wheel_entry =
  we_item :: 'a
  we_deadline_tick :: u64
  we_level :: u8
  we_slot :: u32
  we_prev :: "u64 option"
  we_next :: "u64 option"
  we_heap_index :: usize

record 'a expired =
  ex_id :: u64
  ex_item :: 'a
  ex_deadline_tick :: u64

record advance_report =
  ar_elapsed_ticks :: u64
  ar_expired_count :: usize
  ar_fast_forwarded :: bool

record slot =
  slot_head :: "u64 option"
  slot_tail :: "u64 option"

definition slot_empty :: slot where
  "slot_empty = \<lparr>slot_head = None, slot_tail = None\<rparr>"

record level =
  lv_unit_ticks :: u64
  lv_span_ticks :: u64
  lv_mask :: usize
  lv_slots :: "slot list"

definition level_new :: "u64 \<Rightarrow> u64 \<Rightarrow> usize \<Rightarrow> usize \<Rightarrow> level" where
  "level_new unit_ticks span_ticks slot_count msk =
     \<lparr>lv_unit_ticks = unit_ticks, lv_span_ticks = span_ticks, lv_mask = msk,
      lv_slots = replicate slot_count slot_empty\<rparr>"

definition clear_slots :: "level \<Rightarrow> level" where
  "clear_slots l = l\<lparr>lv_slots := map (\<lambda>_. slot_empty) (lv_slots l)\<rparr>"

record 'a wheel =
  wh_tasks :: "'a wheel_entry slot_map"
  wh_deadline_heap :: "deadline_node list"
  wh_levels :: "level list"
  wh_current_tick :: u64
  wh_remainder_nanos :: u64
  wh_base_tick_nanos :: u64

type_synonym ('a, 'x) wheel_op = "('a wheel, timer_error, 'x) st"

definition wheel_new :: "wheel_config \<Rightarrow> 'a wheel" where
  "wheel_new c =
     \<lparr>wh_tasks = sm_new, wh_deadline_heap = [],
      wh_levels = map (\<lambda>l. level_new (lc_unit_ticks l) (lc_span_ticks l) (lc_slot_count l) (lc_mask l))
        (wc_levels c),
      wh_current_tick = 0, wh_remainder_nanos = 0, wh_base_tick_nanos = wc_base_tick_nanos c\<rparr>"

definition deadline_after :: "'a wheel \<Rightarrow> duration \<Rightarrow> timer_error + u64" where
  "deadline_after w delay =
     and_then
       (if delay = 0 then Inr 0
        else
          let offset = delay + unat (wh_remainder_nanos w);
              base = unat (wh_base_tick_nanos w);
              ticks = (offset + (base - 1)) div base
          in if ticks < 2 ^ 64 then Inr (of_nat ticks) else Inl DelayOverflow) (\<lambda>delay_ticks.
     ok_or DelayOverflow (checked_add (wh_current_tick w) delay_ticks))"

text \<open>The first level whose span exceeds the distance, else the last one.\<close>

fun first_level :: "level list \<Rightarrow> u64 \<Rightarrow> usize \<Rightarrow> usize option" where
  "first_level [] delta index = None"
| "first_level (l # ls) delta index =
     (if delta < lv_span_ticks l then Some index else first_level ls delta (index + 1))"

definition determine_location :: "'a wheel \<Rightarrow> u64 \<Rightarrow> usize \<times> usize" where
  "determine_location w deadline_tick =
     (let delta = saturating_sub deadline_tick (wh_current_tick w);
          selected = (case first_level (wh_levels w) delta 0 of
            None \<Rightarrow> length (wh_levels w) - 1 | Some i \<Rightarrow> i);
          l = wh_levels w ! selected
      in (selected, unat (deadline_tick div lv_unit_ticks l) AND lv_mask l))"

definition get_slot :: "'a wheel \<Rightarrow> usize \<Rightarrow> usize \<Rightarrow> slot" where
  "get_slot w l i = lv_slots (wh_levels w ! l) ! i"

definition set_slot :: "usize \<Rightarrow> usize \<Rightarrow> slot \<Rightarrow> 'a wheel \<Rightarrow> 'a wheel" where
  "set_slot l i s w =
     w\<lparr>wh_levels := (wh_levels w)[l := (wh_levels w ! l)\<lparr>lv_slots := (lv_slots (wh_levels w ! l))[i := s]\<rparr>]\<rparr>"

text \<open>\<open>self.tasks.get(key).ok_or(e)?\<close> and \<open>self.tasks.get_mut(key).ok_or(e)?\<close> with a change.\<close>

definition task_get :: "timer_error \<Rightarrow> u64 \<Rightarrow> ('a, 'a wheel_entry) wheel_op" where
  "task_get e key w = (ok_or e (sm_get (wh_tasks w) key), w)"

definition task_update ::
  "timer_error \<Rightarrow> u64 \<Rightarrow> ('a wheel_entry \<Rightarrow> 'a wheel_entry) \<Rightarrow> ('a, unit) wheel_op" where
  "task_update e key f w =
     (case sm_get (wh_tasks w) key of
        None \<Rightarrow> (Inl e, w)
      | Some entry \<Rightarrow> (Inr (), w\<lparr>wh_tasks := sm_set key (f entry) (wh_tasks w)\<rparr>))"

definition wheel_link :: "u64 \<Rightarrow> usize \<Rightarrow> usize \<Rightarrow> ('a, unit) wheel_op" where
  "wheel_link key level_index slot_index =
     st_bind (st_read (\<lambda>w. get_slot w level_index slot_index)) (\<lambda>old.
     case slot_head old of
       None \<Rightarrow>
         st_then (st_modify (set_slot level_index slot_index \<lparr>slot_head = Some key, slot_tail = Some key\<rparr>))
           (task_update InvariantViolation key (\<lambda>entry. entry\<lparr>we_level := of_nat level_index,
              we_slot := of_nat slot_index, we_prev := None, we_next := None\<rparr>))
     | Some _ \<Rightarrow>
         st_bind (st_lift (ok_or InvariantViolation (slot_tail old))) (\<lambda>old_tail.
         st_then (task_update InvariantViolation old_tail (\<lambda>entry. entry\<lparr>we_next := Some key\<rparr>))
         (st_then (task_update InvariantViolation key (\<lambda>entry. entry\<lparr>we_level := of_nat level_index,
            we_slot := of_nat slot_index, we_prev := Some old_tail, we_next := None\<rparr>))
         (st_modify (\<lambda>w. set_slot level_index slot_index
            ((get_slot w level_index slot_index)\<lparr>slot_tail := Some key\<rparr>) w)))))"

definition wheel_unlink :: "u64 \<Rightarrow> ('a, unit) wheel_op" where
  "wheel_unlink key =
     st_bind (task_get StaleTimerId key) (\<lambda>entry.
     let level_index = unat (we_level entry); slot_index = unat (we_slot entry);
         prev = we_prev entry; next = we_next entry
     in
     st_bind (st_read (\<lambda>w. level_index \<ge> length (wh_levels w)
         \<or> slot_index \<ge> length (lv_slots (wh_levels w ! level_index)))) (\<lambda>bad.
     if bad then st_fail InvariantViolation
     else
       st_then (case prev of
           Some p \<Rightarrow> task_update InvariantViolation p (\<lambda>e. e\<lparr>we_next := next\<rparr>)
         | None \<Rightarrow> st_modify (\<lambda>w. set_slot level_index slot_index
             ((get_slot w level_index slot_index)\<lparr>slot_head := next\<rparr>) w))
       (st_then (case next of
           Some n \<Rightarrow> task_update InvariantViolation n (\<lambda>e. e\<lparr>we_prev := prev\<rparr>)
         | None \<Rightarrow> st_modify (\<lambda>w. set_slot level_index slot_index
             ((get_slot w level_index slot_index)\<lparr>slot_tail := prev\<rparr>) w))
       (task_update InvariantViolation key (\<lambda>e. e\<lparr>we_prev := None, we_next := None\<rparr>)))))"

definition detach_entry :: "u64 \<Rightarrow> ('a, unit) wheel_op" where
  "detach_entry key = task_update InvariantViolation key (\<lambda>e. e\<lparr>we_prev := None, we_next := None\<rparr>)"

text \<open>The closure handed to the heap operations.\<close>

definition set_heap_index :: "'a wheel_entry slot_map set_index" where
  "set_heap_index key index tasks =
     (case sm_get tasks key of
        None \<Rightarrow> (Inl InvariantViolation, tasks)
      | Some entry \<Rightarrow> (Inr (), sm_set key (entry\<lparr>we_heap_index := index\<rparr>) tasks))"

definition with_heap ::
  "(deadline_node list \<Rightarrow> 'a wheel_entry slot_map \<Rightarrow> 'a wheel_entry slot_map heap_result)
     \<Rightarrow> ('a, unit) wheel_op" where
  "with_heap f w =
     (case f (wh_deadline_heap w) (wh_tasks w) of
        (r, nodes, tasks) \<Rightarrow> (r, w\<lparr>wh_deadline_heap := nodes, wh_tasks := tasks\<rparr>))"

definition insert_deadline :: "u64 \<Rightarrow> u64 \<Rightarrow> ('a, unit) wheel_op" where
  "insert_deadline key deadline_tick = with_heap (heap_insert set_heap_index key deadline_tick)"

definition update_deadline :: "u64 \<Rightarrow> usize \<Rightarrow> u64 \<Rightarrow> ('a, unit) wheel_op" where
  "update_deadline key heap_index deadline_tick =
     with_heap (heap_update set_heap_index key heap_index deadline_tick)"

definition remove_deadline :: "u64 \<Rightarrow> usize \<Rightarrow> ('a, unit) wheel_op" where
  "remove_deadline key heap_index = with_heap (heap_remove set_heap_index key heap_index)"

definition wheel_insert :: "slotmap_api \<Rightarrow> 'a \<Rightarrow> duration \<Rightarrow> ('a, u64) wheel_op" where
  "wheel_insert api item delay w =
     (case deadline_after w delay of
        Inl e \<Rightarrow> (Inl e, w)
      | Inr deadline_tick \<Rightarrow>
          let (key, tasks) = sm_insert api
                \<lparr>we_item = item, we_deadline_tick = deadline_tick, we_level = 0, we_slot = 0,
                 we_prev = None, we_next = None, we_heap_index = 0\<rparr> (wh_tasks w);
              w = w\<lparr>wh_tasks := tasks\<rparr>;
              (l, i) = determine_location w deadline_tick
          in
          case wheel_link key l i w of
            (Inl e, w) \<Rightarrow> (Inl e, w\<lparr>wh_tasks := sm_remove key (wh_tasks w)\<rparr>)
          | (Inr _, w) \<Rightarrow>
              (case insert_deadline key deadline_tick w of
                 (Inl e, w) \<Rightarrow>
                   let w = snd (wheel_unlink key w)
                   in (Inl e, w\<lparr>wh_tasks := sm_remove key (wh_tasks w)\<rparr>)
               | (Inr _, w) \<Rightarrow> (Inr key, w)))"

definition wheel_reschedule :: "u64 \<Rightarrow> duration \<Rightarrow> ('a, unit) wheel_op" where
  "wheel_reschedule key delay =
     st_bind (task_get StaleTimerId key) (\<lambda>_.
     st_bind (\<lambda>w. (deadline_after w delay, w)) (\<lambda>deadline_tick.
     st_then (wheel_unlink key)
     (st_then (task_update StaleTimerId key (\<lambda>e. e\<lparr>we_deadline_tick := deadline_tick\<rparr>))
     (st_bind (st_read (\<lambda>w. determine_location w deadline_tick)) (\<lambda>(l, i).
     st_then (wheel_link key l i)
     (st_bind (task_get InvariantViolation key) (\<lambda>entry.
     update_deadline key (we_heap_index entry) deadline_tick)))))))"

text \<open>\<open>cancel\<close> discards errors with \<open>ok()?\<close>: any failure gives \<open>None\<close>.\<close>

definition wheel_cancel :: "u64 \<Rightarrow> 'a wheel \<Rightarrow> 'a option \<times> 'a wheel" where
  "wheel_cancel key w =
     (case sm_get (wh_tasks w) key of
        None \<Rightarrow> (None, w)
      | Some _ \<Rightarrow>
          (case wheel_unlink key w of
             (Inl _, w) \<Rightarrow> (None, w)
           | (Inr _, w) \<Rightarrow>
               (case sm_get (wh_tasks w) key of
                  None \<Rightarrow> (None, w)
                | Some entry \<Rightarrow>
                    (case remove_deadline key (we_heap_index entry) w of
                       (Inl _, w) \<Rightarrow> (None, w)
                     | (Inr _, w) \<Rightarrow>
                         (case sm_get (wh_tasks w) key of
                            None \<Rightarrow> (None, w)
                          | Some entry \<Rightarrow>
                              (Some (we_item entry), w\<lparr>wh_tasks := sm_remove key (wh_tasks w)\<rparr>))))))"

text \<open>Takes a timer that is due out of the heap and the map; returns it.\<close>

definition expire_task :: "u64 \<Rightarrow> u64 \<Rightarrow> ('a, 'a expired) wheel_op" where
  "expire_task key deadline_tick =
     st_bind (task_get InvariantViolation key) (\<lambda>entry.
     st_then (remove_deadline key (we_heap_index entry))
     (st_bind (task_get InvariantViolation key) (\<lambda>entry.
     st_then (st_modify (\<lambda>w. w\<lparr>wh_tasks := sm_remove key (wh_tasks w)\<rparr>))
     (st_return \<lparr>ex_id = key, ex_item = we_item entry, ex_deadline_tick = deadline_tick\<rparr>))))"

text \<open>The loop of \<open>process_slot\<close> along the list that has been taken out of the slot. It follows the
  \<open>next\<close> pointers, so its length is not bounded by the code itself: \<open>fuel\<close> bounds the rounds, and
  running out of it is \<open>None\<close>.\<close>

fun process_loop ::
  "nat \<Rightarrow> u64 option \<Rightarrow> 'a expired list \<Rightarrow> 'a wheel \<Rightarrow> ((timer_error + 'a expired list) \<times> 'a wheel) option" where
  "process_loop fuel None expired w = Some (Inr expired, w)"
| "process_loop 0 (Some key) expired w = None"
| "process_loop (Suc fuel) (Some key) expired w =
     (case sm_get (wh_tasks w) key of
        None \<Rightarrow> Some (Inl InvariantViolation, w)
      | Some entry \<Rightarrow>
          let next = we_next entry; deadline_tick = we_deadline_tick entry in
          case detach_entry key w of
            (Inl e, w) \<Rightarrow> Some (Inl e, w)
          | (Inr _, w) \<Rightarrow>
              if deadline_tick \<le> wh_current_tick w then
                (case expire_task key deadline_tick w of
                   (Inl e, w) \<Rightarrow> Some (Inl e, w)
                 | (Inr x, w) \<Rightarrow> process_loop fuel next (expired @ [x]) w)
              else
                (case determine_location w deadline_tick of
                   (l, i) \<Rightarrow>
                     (case wheel_link key l i w of
                        (Inl e, w) \<Rightarrow> Some (Inl e, w)
                      | (Inr _, w) \<Rightarrow> process_loop fuel next expired w)))"

definition process_slot ::
  "usize \<Rightarrow> usize \<Rightarrow> 'a expired list \<Rightarrow> 'a wheel \<Rightarrow> ((timer_error + 'a expired list) \<times> 'a wheel) option" where
  "process_slot l i expired w =
     (let head = slot_head (get_slot w l i) in
      process_loop (length (sm_entries (wh_tasks w))) head expired (set_slot l i slot_empty w))"

text \<open>\<open>for level_index in (1..self.levels.len()).rev()\<close>: the levels still to visit, the highest first.\<close>

fun cascade_levels ::
  "usize list \<Rightarrow> 'a expired list \<Rightarrow> 'a wheel \<Rightarrow> ((timer_error + 'a expired list) \<times> 'a wheel) option" where
  "cascade_levels [] expired w = Some (Inr expired, w)"
| "cascade_levels (l # ls) expired w =
     (let unit_ticks = lv_unit_ticks (wh_levels w ! l) in
      if wh_current_tick w mod unit_ticks = 0 then
        let i = unat (wh_current_tick w div unit_ticks) AND lv_mask (wh_levels w ! l) in
        case process_slot l i expired w of
          None \<Rightarrow> None
        | Some (Inl e, w) \<Rightarrow> Some (Inl e, w)
        | Some (Inr expired, w) \<Rightarrow> cascade_levels ls expired w
      else cascade_levels ls expired w)"

definition cascade_at_current_tick ::
  "'a expired list \<Rightarrow> 'a wheel \<Rightarrow> ((timer_error + 'a expired list) \<times> 'a wheel) option" where
  "cascade_at_current_tick expired w = cascade_levels (rev [1 ..< length (wh_levels w)]) expired w"

definition process_l0_slot ::
  "'a expired list \<Rightarrow> 'a wheel \<Rightarrow> ((timer_error + 'a expired list) \<times> 'a wheel) option" where
  "process_l0_slot expired w =
     process_slot 0 (unat (wh_current_tick w) AND lv_mask (wh_levels w ! 0)) expired w"

text \<open>One tick: the higher levels, then the first.\<close>

definition process_tick ::
  "'a expired list \<Rightarrow> 'a wheel \<Rightarrow> ((timer_error + 'a expired list) \<times> 'a wheel) option" where
  "process_tick expired w =
     (case cascade_at_current_tick expired w of
        None \<Rightarrow> None
      | Some (Inl e, w) \<Rightarrow> Some (Inl e, w)
      | Some (Inr expired, w) \<Rightarrow> process_l0_slot expired w)"

text \<open>\<open>while self.current_tick < target_tick\<close>: \<open>n\<close> is the distance, \<open>target_tick - current_tick\<close>.\<close>

fun step_ticks ::
  "nat \<Rightarrow> 'a expired list \<Rightarrow> 'a wheel \<Rightarrow> ((timer_error + 'a expired list) \<times> 'a wheel) option" where
  "step_ticks 0 expired w = Some (Inr expired, w)"
| "step_ticks (Suc n) expired w =
     (case process_tick expired (w\<lparr>wh_current_tick := wh_current_tick w + 1\<rparr>) of
        None \<Rightarrow> None
      | Some (Inl e, w) \<Rightarrow> Some (Inl e, w)
      | Some (Inr expired, w) \<Rightarrow> step_ticks n expired w)"

fun fast_forward_loop ::
  "u64 list \<Rightarrow> u64 \<Rightarrow> 'a expired list \<Rightarrow> 'a wheel \<Rightarrow> (timer_error + 'a expired list) \<times> 'a wheel" where
  "fast_forward_loop [] target_tick expired w = (Inr expired, w)"
| "fast_forward_loop (key # keys) target_tick expired w =
     (case sm_get (wh_tasks w) key of
        None \<Rightarrow> (Inl InvariantViolation, w)
      | Some entry \<Rightarrow>
          let deadline_tick = we_deadline_tick entry in
          if deadline_tick \<le> target_tick then
            (case expire_task key deadline_tick w of
               (Inl e, w) \<Rightarrow> (Inl e, w)
             | (Inr x, w) \<Rightarrow> fast_forward_loop keys target_tick (expired @ [x]) w)
          else
            (case determine_location w deadline_tick of
               (l, i) \<Rightarrow>
                 (case wheel_link key l i w of
                    (Inl e, w) \<Rightarrow> (Inl e, w)
                  | (Inr _, w) \<Rightarrow> fast_forward_loop keys target_tick expired w)))"

definition fast_forward ::
  "slotmap_api \<Rightarrow> u64 \<Rightarrow> 'a expired list \<Rightarrow> 'a wheel \<Rightarrow> (timer_error + 'a expired list) \<times> 'a wheel" where
  "fast_forward api target_tick expired w =
     (let keys = sm_keys api (wh_tasks w);
          w = w\<lparr>wh_levels := map clear_slots (wh_levels w), wh_current_tick := target_tick\<rparr>
      in fast_forward_loop keys target_tick expired w)"

text \<open>\<open>None\<close>: some list of the wheel was longer than the number of timers.\<close>

definition wheel_advance_by ::
  "slotmap_api \<Rightarrow> duration \<Rightarrow> 'a expired list \<Rightarrow> 'a wheel
     \<Rightarrow> ((timer_error + advance_report \<times> 'a expired list) \<times> 'a wheel) option" where
  "wheel_advance_by api elapsed expired w =
     (if elapsed \<ge> 2 ^ 64 then Some (Inl ElapsedOverflow, w)
      else
        case checked_add (wh_remainder_nanos w) (of_nat elapsed) of
          None \<Rightarrow> Some (Inl ElapsedOverflow, w)
        | Some total_nanos \<Rightarrow>
            let elapsed_ticks = total_nanos div wh_base_tick_nanos w;
                remainder = total_nanos mod wh_base_tick_nanos w
            in
            case checked_add (wh_current_tick w) elapsed_ticks of
              None \<Rightarrow> Some (Inl ClockOverflow, w)
            | Some target_tick \<Rightarrow>
                let w = w\<lparr>wh_remainder_nanos := remainder\<rparr>;
                    fast = unat elapsed_ticks > SMALL_ADVANCE_LIMIT;
                    res = (if fast then Some (fast_forward api target_tick expired w)
                      else
                        case process_tick expired w of
                          None \<Rightarrow> None
                        | Some (Inl e, w) \<Rightarrow> Some (Inl e, w)
                        | Some (Inr expired, w) \<Rightarrow> step_ticks (unat elapsed_ticks) expired w)
                in
                case res of
                  None \<Rightarrow> None
                | Some (Inl e, w) \<Rightarrow> Some (Inl e, w)
                | Some (Inr expired', w) \<Rightarrow>
                    Some (Inr (\<lparr>ar_elapsed_ticks = elapsed_ticks,
                       ar_expired_count = length expired' - length expired,
                       ar_fast_forwarded = fast\<rparr>, expired'), w))"

definition duration_until_tick :: "'a wheel \<Rightarrow> u64 \<Rightarrow> timer_error + duration" where
  "duration_until_tick w deadline_tick =
     (if deadline_tick \<le> wh_current_tick w then Inr 0
      else
        let ticks = unat (deadline_tick - wh_current_tick w);
            product = ticks * unat (wh_base_tick_nanos w)
        in
        if product < unat (wh_remainder_nanos w) then Inl DeadlineOverflow
        else
          let nanos = product - unat (wh_remainder_nanos w) in
          if nanos div 1000000000 \<ge> 2 ^ 64 then Inl DeadlineOverflow else Inr nanos)"

definition wheel_next_deadline :: "'a wheel \<Rightarrow> timer_error + duration option" where
  "wheel_next_deadline w =
     (case heap_peek (wh_deadline_heap w) of
        None \<Rightarrow> if sm_entries (wh_tasks w) = [] then Inr None else Inl InvariantViolation
      | Some node \<Rightarrow>
          if (case sm_get (wh_tasks w) (dn_key node) of
                None \<Rightarrow> True
              | Some entry \<Rightarrow> we_deadline_tick entry \<noteq> dn_deadline_tick node)
          then Inl InvariantViolation
          else and_then (duration_until_tick w (dn_deadline_tick node)) (\<lambda>d. Inr (Some d)))"

definition wheel_clear :: "slotmap_api \<Rightarrow> 'a list \<Rightarrow> 'a wheel \<Rightarrow> 'a list \<times> 'a wheel" where
  "wheel_clear api out w =
     (out @ map (\<lambda>k. we_item (the (sm_get (wh_tasks w) k))) (sm_keys api (wh_tasks w)),
      w\<lparr>wh_levels := map clear_slots (wh_levels w), wh_deadline_heap := [],
        wh_tasks := (wh_tasks w)\<lparr>sm_entries := []\<rparr>\<rparr>)"

section \<open>The slot map as the heap sees it\<close>

abbreviation tasks_ok :: "'a wheel \<Rightarrow> bool" where
  "tasks_ok w \<equiv> bt_inv (sm_entries (wh_tasks w))"

abbreviation task :: "'a wheel \<Rightarrow> u64 \<Rightarrow> 'a wheel_entry option" where
  "task w k \<equiv> sm_get (wh_tasks w) k"

lemma sm_get_set [simp]:
  "bt_inv (sm_entries m) \<Longrightarrow> sm_get (sm_set k v m) k' = (if k' = k then Some v else sm_get m k')"
  by (simp add: sm_get_def sm_set_def bt.get_insert)

lemma sm_get_remove [simp]:
  "bt_inv (sm_entries m) \<Longrightarrow> sm_get (sm_remove k m) k' = (if k' = k then None else sm_get m k')"
  by (simp add: sm_get_def sm_remove_def bt.get_remove)

lemma sm_inv [simp]:
  "bt_inv (sm_entries m) \<Longrightarrow> bt_inv (sm_entries (sm_set k v m))"
  "bt_inv (sm_entries m) \<Longrightarrow> bt_inv (sm_entries (sm_remove k m))"
  by (simp_all add: sm_set_def sm_remove_def bt.inv_insert bt.inv_remove)

lemma sm_issued_simps [simp]:
  "sm_issued (sm_set k e m) = sm_issued m" "sm_issued (sm_remove k m) = sm_issued m"
  by (simp_all add: sm_set_def sm_remove_def)

text \<open>Where a timer thinks its heap node is, and everything of the map that a move in the heap leaves
  as it is.\<close>

definition heap_index_of :: "'a wheel_entry slot_map \<Rightarrow> u64 \<Rightarrow> usize option" where
  "heap_index_of m k = (if bt_inv (sm_entries m) then map_option we_heap_index (sm_get m k) else None)"

definition index_erased ::
  "'a wheel_entry slot_map \<Rightarrow> bool \<times> u64 list \<times> (u64 \<Rightarrow> 'a wheel_entry option)" where
  "index_erased m =
     (bt_inv (sm_entries m), sm_issued m, \<lambda>k. map_option (\<lambda>e. e\<lparr>we_heap_index := 0\<rparr>) (sm_get m k))"

interpretation hx: index_store set_heap_index heap_index_of index_erased
proof
  fix m :: "'a wheel_entry slot_map" and k i k'
  assume "heap_index_of m k \<noteq> None"
  then obtain e where inv: "bt_inv (sm_entries m)" and e: "sm_get m k = Some e"
    by (auto simp: heap_index_of_def split: if_splits)
  show "fst (set_heap_index k i m) = Inr ()"
    using e by (simp add: set_heap_index_def)
  show "heap_index_of (snd (set_heap_index k i m)) k' = (if k' = k then Some i else heap_index_of m k')"
    using e inv by (simp add: set_heap_index_def heap_index_of_def)
  show "index_erased (snd (set_heap_index k i m)) = index_erased m"
    using e inv by (auto simp: set_heap_index_def index_erased_def fun_eq_iff)
qed

end
