(* ===== verification/Wheel_Lists.thy ===== *)
theory Wheel_Lists
  imports Timer_Wheel
begin

text \<open>
  The pointer structure of the timing wheel: every slot holds a doubly linked list of timers. The
  predicate \<open>lists_ok w L X\<close> says that \<open>L l i\<close> is the list of slot \<open>i\<close> of level \<open>l\<close> and that the timers
  in \<open>X\<close> are in no list. Linking appends to a list, unlinking removes from one, and neither can fail
  on a wheel in this state.
\<close>

section \<open>Lookups in the slot map\<close>

lemma task_update_run:
  "task w k = Some e \<Longrightarrow>
     task_update err k f w = (Inr (), w\<lparr>wh_tasks := sm_set k (f e) (wh_tasks w)\<rparr>)"
  by (simp add: task_update_def)

lemma dom_finite: "finite (dom (sm_get m))"
  by (auto simp: sm_get_def bt_get_def finite_dom_map_of)

section \<open>Doubly linked segments\<close>

definition hd_or :: "u64 option \<Rightarrow> u64 list \<Rightarrow> u64 option" where
  "hd_or n ks = (case ks of [] \<Rightarrow> n | k # _ \<Rightarrow> Some k)"

definition last_or :: "u64 option \<Rightarrow> u64 list \<Rightarrow> u64 option" where
  "last_or p ks = (if ks = [] then p else Some (last ks))"

lemma hd_or_simps [simp]: "hd_or n [] = n" "hd_or n (k # ks) = Some k" "hd_or n (xs @ ys) = hd_or (hd_or n ys) xs"
  by (auto simp: hd_or_def split: list.splits)

lemma last_or_simps [simp]: "last_or p [] = p" "last_or p (xs @ [k]) = Some k"
  "last_or p (k # ks) = last_or (Some k) ks"
  by (auto simp: last_or_def)

text \<open>\<open>segment T l i p ks n\<close>: the keys \<open>ks\<close> are chained in both directions, the first comes after \<open>p\<close>
  and the last before \<open>n\<close>, and each is marked with its level and slot.\<close>

fun segment ::
  "(u64 \<Rightarrow> 'a wheel_entry option) \<Rightarrow> nat \<Rightarrow> nat \<Rightarrow> u64 option \<Rightarrow> u64 list \<Rightarrow> u64 option \<Rightarrow> bool" where
  "segment T l i p [] n \<longleftrightarrow> True"
| "segment T l i p (k # ks) n \<longleftrightarrow>
     (\<exists>e. T k = Some e \<and> we_level e = of_nat l \<and> we_slot e = of_nat i \<and> we_prev e = p
        \<and> we_next e = hd_or n ks)
     \<and> segment T l i (Some k) ks n"

lemma segment_append:
  "segment T l i p (xs @ ys) n \<longleftrightarrow>
     segment T l i p xs (hd_or n ys) \<and> segment T l i (last_or p xs) ys n"
  by (induction xs arbitrary: p) auto

lemma segment_cong:
  "(\<And>k. k \<in> set ks \<Longrightarrow> T k = T' k) \<Longrightarrow> segment T l i p ks n = segment T' l i p ks n"
  by (induction ks arbitrary: p) auto

lemma segment_dom: "segment T l i p ks n \<Longrightarrow> k \<in> set ks \<Longrightarrow>
   \<exists>e. T k = Some e \<and> we_level e = of_nat l \<and> we_slot e = of_nat i"
  by (induction ks arbitrary: p) auto

text \<open>Redirecting the last \<open>next\<close>, or the first \<open>prev\<close>.\<close>

lemma segment_set_next:
  assumes "segment T l i p (xs @ [x]) n" "x \<notin> set xs" "T x = Some e" "T' x = Some (e\<lparr>we_next := m\<rparr>)"
    and "\<And>k. k \<in> set xs \<Longrightarrow> T' k = T k"
  shows "segment T' l i p (xs @ [x]) m"
proof -
  have "segment T' l i p xs (Some x)"
    using assms(1) segment_cong [of xs T' T l i p "Some x"] assms(5) by (simp add: segment_append)
  with assms show ?thesis
    by (auto simp: segment_append)
qed

lemma segment_set_prev:
  assumes "segment T l i p (x # xs) n" "x \<notin> set xs" "T x = Some e" "T' x = Some (e\<lparr>we_prev := q\<rparr>)"
    and "\<And>k. k \<in> set xs \<Longrightarrow> T' k = T k"
  shows "segment T' l i q (x # xs) n"
proof -
  have "segment T' l i (Some x) xs n"
    using assms(1) segment_cong [of xs T' T l i "Some x" n] assms(5) by simp
  with assms show ?thesis
    by auto
qed

section \<open>Slots\<close>

definition slot_holds :: "slot \<Rightarrow> u64 list \<Rightarrow> bool" where
  "slot_holds s ks \<longleftrightarrow> slot_head s = hd_or None ks \<and> slot_tail s = last_or None ks"

text \<open>The part of a level that never changes.\<close>

definition lv_shape :: "level \<Rightarrow> u64 \<times> u64 \<times> usize \<times> usize" where
  "lv_shape l = (lv_unit_ticks l, lv_span_ticks l, lv_mask l, length (lv_slots l))"

definition slot_exists :: "'a wheel \<Rightarrow> nat \<Rightarrow> nat \<Rightarrow> bool" where
  "slot_exists w l i \<longleftrightarrow> l < length (wh_levels w) \<and> i < length (lv_slots (wh_levels w ! l))"

definition lists_ok :: "'a wheel \<Rightarrow> (nat \<Rightarrow> nat \<Rightarrow> u64 list) \<Rightarrow> u64 set \<Rightarrow> bool" where
  "lists_ok w L X \<longleftrightarrow>
     tasks_ok w
     \<and> (\<forall>l i. if slot_exists w l i then slot_holds (get_slot w l i) (L l i) else L l i = [])
     \<and> (\<forall>l i. distinct (L l i) \<and> segment (task w) l i None (L l i) None)
     \<and> (\<forall>k l i l' i'. k \<in> set (L l i) \<longrightarrow> k \<in> set (L l' i') \<longrightarrow> l = l' \<and> i = i')
     \<and> (\<forall>k. task w k \<noteq> None \<longleftrightarrow> k \<in> X \<or> (\<exists>l i. k \<in> set (L l i)))
     \<and> (\<forall>k \<in> X. \<forall>l i. k \<notin> set (L l i))"

definition put_list :: "nat \<Rightarrow> nat \<Rightarrow> u64 list \<Rightarrow> (nat \<Rightarrow> nat \<Rightarrow> u64 list) \<Rightarrow> nat \<Rightarrow> nat \<Rightarrow> u64 list" where
  "put_list l i ks L l' i' = (if l' = l \<and> i' = i then ks else L l' i')"

lemma in_put_list:
  "(\<exists>l' i'. k \<in> set (put_list l i ks L l' i')) \<longleftrightarrow>
     k \<in> set ks \<or> (\<exists>l' i'. (l' \<noteq> l \<or> i' \<noteq> i) \<and> k \<in> set (L l' i'))"
proof
  assume "\<exists>l' i'. k \<in> set (put_list l i ks L l' i')"
  then show "k \<in> set ks \<or> (\<exists>l' i'. (l' \<noteq> l \<or> i' \<noteq> i) \<and> k \<in> set (L l' i'))"
    by (auto simp: put_list_def split: if_splits)
next
  assume "k \<in> set ks \<or> (\<exists>l' i'. (l' \<noteq> l \<or> i' \<noteq> i) \<and> k \<in> set (L l' i'))"
  then show "\<exists>l' i'. k \<in> set (put_list l i ks L l' i')"
  proof (elim disjE exE conjE)
    show ?thesis if "k \<in> set ks"
      using that by (intro exI [of _ l] exI [of _ i]) (simp add: put_list_def)
    show ?thesis if "k \<in> set (L l' i')" "l' \<noteq> l" for l' i'
      using that by (intro exI [of _ l'] exI [of _ i']) (simp add: put_list_def)
    show ?thesis if "k \<in> set (L l' i')" "i' \<noteq> i" for l' i'
      using that by (intro exI [of _ l'] exI [of _ i']) (simp add: put_list_def)
  qed
qed

lemma put_list_self: "put_list l i (L l i) L = L"
  by (auto simp: put_list_def fun_eq_iff)

lemma put_list_same [simp]: "put_list l i ks L l i = ks"
  by (simp add: put_list_def)

text \<open>What a timer carries, apart from where it is linked.\<close>

definition core :: "'a wheel_entry \<Rightarrow> 'a \<times> u64 \<times> usize" where
  "core e = (we_item e, we_deadline_tick e, we_heap_index e)"

definition cores :: "'a wheel \<Rightarrow> u64 \<Rightarrow> ('a \<times> u64 \<times> usize) option" where
  "cores w k = map_option core (task w k)"

text \<open>Everything of the wheel but the links.\<close>

definition same_but_links :: "'a wheel \<Rightarrow> 'a wheel \<Rightarrow> bool" where
  "same_but_links w w' \<longleftrightarrow>
     cores w' = cores w \<and> wh_deadline_heap w' = wh_deadline_heap w
     \<and> map lv_shape (wh_levels w') = map lv_shape (wh_levels w)
     \<and> wh_current_tick w' = wh_current_tick w \<and> wh_remainder_nanos w' = wh_remainder_nanos w
     \<and> wh_base_tick_nanos w' = wh_base_tick_nanos w
     \<and> sm_issued (wh_tasks w') = sm_issued (wh_tasks w)"

lemma same_but_links_trans:
  "same_but_links a b \<Longrightarrow> same_but_links b c \<Longrightarrow> same_but_links a c"
  by (simp add: same_but_links_def)

lemma shape_slot_exists:
  "map lv_shape (wh_levels w') = map lv_shape (wh_levels w) \<Longrightarrow> slot_exists w' l i = slot_exists w l i"
proof -
  assume eq: "map lv_shape (wh_levels w') = map lv_shape (wh_levels w)"
  then have len: "length (wh_levels w') = length (wh_levels w)"
    by (metis length_map)
  have "lv_shape (wh_levels w' ! l) = lv_shape (wh_levels w ! l)" if "l < length (wh_levels w)"
    using eq len that by (metis nth_map)
  with len show ?thesis
    by (auto simp: slot_exists_def lv_shape_def)
qed

lemma set_slot_shape [simp]: "map lv_shape (wh_levels (set_slot l i s w)) = map lv_shape (wh_levels w)"
  by (cases "l < length (wh_levels w)") (auto simp: set_slot_def map_update lv_shape_def list_update_beyond
      intro!: nth_equalityI simp: nth_list_update)

lemma get_set_slot:
  "slot_exists w l i \<Longrightarrow> get_slot (set_slot l i s w) l' i' = (if l' = l \<and> i' = i then s else get_slot w l' i')"
  by (auto simp: get_slot_def set_slot_def slot_exists_def nth_list_update)

lemma set_slot_fields [simp]:
  "wh_tasks (set_slot l i s w) = wh_tasks w"
  "wh_deadline_heap (set_slot l i s w) = wh_deadline_heap w"
  "wh_current_tick (set_slot l i s w) = wh_current_tick w"
  "wh_remainder_nanos (set_slot l i s w) = wh_remainder_nanos w"
  "wh_base_tick_nanos (set_slot l i s w) = wh_base_tick_nanos w"
  by (simp_all add: set_slot_def)

lemma get_slot_tasks [simp]: "get_slot (w\<lparr>wh_tasks := t\<rparr>) l i = get_slot w l i"
  by (simp add: get_slot_def)

lemma slot_exists_simps [simp]:
  "slot_exists (w\<lparr>wh_tasks := t\<rparr>) l i = slot_exists w l i"
  "slot_exists (set_slot l' i' s w) l i = slot_exists w l i"
  by (simp add: slot_exists_def) (rule shape_slot_exists, simp)

section \<open>Changing one list\<close>

lemma lists_okD:
  assumes "lists_ok w L X"
  shows "tasks_ok w"
    and "\<And>l i. slot_exists w l i \<Longrightarrow> slot_holds (get_slot w l i) (L l i)"
    and "\<And>l i. \<not> slot_exists w l i \<Longrightarrow> L l i = []"
    and "\<And>l i. distinct (L l i)" and "\<And>l i. segment (task w) l i None (L l i) None"
    and "\<And>k l i l' i'. k \<in> set (L l i) \<Longrightarrow> k \<in> set (L l' i') \<Longrightarrow> l = l' \<and> i = i'"
    and "\<And>k. task w k \<noteq> None \<longleftrightarrow> k \<in> X \<or> (\<exists>l i. k \<in> set (L l i))"
    and "\<And>k l i. k \<in> X \<Longrightarrow> k \<notin> set (L l i)"
proof -
  note D = assms [unfolded lists_ok_def]
  show "tasks_ok w"
    by (rule D [THEN conjunct1])
  show "slot_holds (get_slot w l i) (L l i)" if "slot_exists w l i" for l i
    using D [THEN conjunct2, THEN conjunct1, THEN spec, THEN spec, of l i] that by simp
  show "L l i = []" if "\<not> slot_exists w l i" for l i
    using D [THEN conjunct2, THEN conjunct1, THEN spec, THEN spec, of l i] that by simp
  show "distinct (L l i)" "segment (task w) l i None (L l i) None" for l i
    using D [THEN conjunct2, THEN conjunct2, THEN conjunct1, THEN spec, THEN spec, of l i] by simp_all
  show "l = l' \<and> i = i'" if "k \<in> set (L l i)" "k \<in> set (L l' i')" for k l i l' i'
    using D [THEN conjunct2, THEN conjunct2, THEN conjunct2, THEN conjunct1] that by blast
  show "task w k \<noteq> None \<longleftrightarrow> k \<in> X \<or> (\<exists>l i. k \<in> set (L l i))" for k
    using D [THEN conjunct2, THEN conjunct2, THEN conjunct2, THEN conjunct2, THEN conjunct1, THEN spec, of k] .
  show "k \<notin> set (L l i)" if "k \<in> X" for k l i
    using D [THEN conjunct2, THEN conjunct2, THEN conjunct2, THEN conjunct2, THEN conjunct2] that by blast
qed

lemma lists_okI:
  assumes "tasks_ok w"
    and "\<And>l i. slot_exists w l i \<Longrightarrow> slot_holds (get_slot w l i) (L l i)"
    and "\<And>l i. \<not> slot_exists w l i \<Longrightarrow> L l i = []"
    and "\<And>l i. distinct (L l i)" and "\<And>l i. segment (task w) l i None (L l i) None"
    and "\<And>k l i l' i'. k \<in> set (L l i) \<Longrightarrow> k \<in> set (L l' i') \<Longrightarrow> l = l' \<and> i = i'"
    and "\<And>k. task w k \<noteq> None \<longleftrightarrow> k \<in> X \<or> (\<exists>l i. k \<in> set (L l i))"
    and "\<And>k l i. k \<in> X \<Longrightarrow> k \<notin> set (L l i)"
  shows "lists_ok w L X"
proof -
  have "if slot_exists w l i then slot_holds (get_slot w l i) (L l i) else L l i = []" for l i
    using assms(2) [of l i] assms(3) [of l i] by simp
  then show ?thesis
    unfolding lists_ok_def using assms(1,4,5,7)
    by (intro conjI allI ballI impI) (blast intro: assms(6,8) dest: assms(6,8))+
qed

lemma lists_ok_change:
  assumes ok: "lists_ok w L X" and ex: "slot_exists w l i" and inv: "tasks_ok w'"
    and shape: "\<And>l' i'. slot_exists w' l' i' = slot_exists w l' i'"
    and slots: "\<And>l' i'. l' \<noteq> l \<or> i' \<noteq> i \<Longrightarrow> get_slot w' l' i' = get_slot w l' i'"
    and new: "slot_holds (get_slot w' l i) ks" "distinct ks" "segment (task w') l i None ks None"
    and ks: "set ks \<subseteq> set (L l i) \<union> X" and X': "X' = (set (L l i) \<union> X) - set ks"
    and same: "\<And>k. k \<notin> set (L l i) \<union> X \<Longrightarrow> task w' k = task w k"
    and dom: "\<And>k. task w' k \<noteq> None \<longleftrightarrow> task w k \<noteq> None"
  shows "lists_ok w' (put_list l i ks L) X'"
proof (rule lists_okI)
  note D = lists_okD [OF ok]
  have other: "k \<notin> set (L l i) \<union> X" if "k \<in> set (L l' i')" "l' \<noteq> l \<or> i' \<noteq> i" for k l' i'
    using D(6) [OF that(1), of l i] D(8) [of k l' i'] that by blast
  show "tasks_ok w'"
    by (rule inv)
  show "slot_holds (get_slot w' l' i') (put_list l i ks L l' i')" if "slot_exists w' l' i'" for l' i'
    using that shape new(1) slots [of l' i'] D(2) [of l' i'] by (cases "l' = l \<and> i' = i") (auto simp: put_list_def)
  show "put_list l i ks L l' i' = []" if "\<not> slot_exists w' l' i'" for l' i'
    using that shape ex D(3) [of l' i'] by (auto simp: put_list_def)
  show "distinct (put_list l i ks L l' i')" for l' i'
    using new(2) D(4) by (simp add: put_list_def)
  have "segment (task w') l' i' None (L l' i') None" if "l' \<noteq> l \<or> i' \<noteq> i" for l' i'
    using D(5) [of l' i'] segment_cong [of "L l' i'" "task w'" "task w"] same other [OF _ that] by blast
  then show "segment (task w') l' i' None (put_list l i ks L l' i') None" for l' i'
    using new(3) by (cases "l' = l \<and> i' = i") (auto simp: put_list_def)
  have apart: False if "k \<in> set ks" "k \<in> set (L l' i')" "l' \<noteq> l \<or> i' \<noteq> i" for k l' i'
    using other [OF that(2,3)] that(1) ks by blast
  show "l1 = l2 \<and> i1 = i2" if "k \<in> set (put_list l i ks L l1 i1)" "k \<in> set (put_list l i ks L l2 i2)"
    for k l1 i1 l2 i2
    using that D(6) [of k l1 i1 l2 i2] apart [of k l1 i1] apart [of k l2 i2]
    by (cases "l1 = l \<and> i1 = i"; cases "l2 = l \<and> i2 = i") (simp_all add: put_list_def)
  note in_put_list [of _ l i ks L]
  moreover have "(\<exists>l' i'. k \<in> set (L l' i')) \<longleftrightarrow>
      k \<in> set (L l i) \<or> (\<exists>l' i'. (l' \<noteq> l \<or> i' \<noteq> i) \<and> k \<in> set (L l' i'))" for k
    using in_put_list [of k l i "L l i" L] by (simp add: put_list_self)
  ultimately show "task w' k \<noteq> None \<longleftrightarrow> k \<in> X' \<or> (\<exists>l' i'. k \<in> set (put_list l i ks L l' i'))" for k
    unfolding dom D(7) X' using ks by blast
  show "k \<notin> set (put_list l i ks L l' i')" if "k \<in> X'" for k l' i'
    using that other [of k l' i'] by (cases "l' = l \<and> i' = i") (auto simp: X' put_list_def)
qed

text \<open>Linking appends at the tail.\<close>

lemma core_links [simp]:
  "core (e\<lparr>we_level := a, we_slot := b, we_prev := c, we_next := d\<rparr>) = core e"
  "core (e\<lparr>we_next := d\<rparr>) = core e" "core (e\<lparr>we_prev := c\<rparr>) = core e"
  "core (e\<lparr>we_prev := c, we_next := d\<rparr>) = core e"
  "core (e\<lparr>we_level := a, we_slot := b\<rparr>) = core e"
  by (simp_all add: core_def)

lemma cores_set:
  "tasks_ok w \<Longrightarrow> task w k = Some e \<Longrightarrow> core e' = core e \<Longrightarrow>
     cores (w\<lparr>wh_tasks := sm_set k e' (wh_tasks w)\<rparr>) = cores w"
  by (auto simp: cores_def fun_eq_iff)

lemma cores_set_slot [simp]: "cores (set_slot l i s w) = cores w"
  by (simp add: cores_def fun_eq_iff)

lemma link_ok:
  assumes ok: "lists_ok w L X" and key: "key \<in> X" and ex: "slot_exists w l i"
  shows "\<exists>w'. wheel_link key l i w = (Inr (), w')
     \<and> lists_ok w' (put_list l i (L l i @ [key]) L) (X - {key}) \<and> same_but_links w w'
     \<and> (\<forall>k \<in> X - {key}. task w' k = task w k)"
proof -
  note D = lists_okD [OF ok]
  obtain e where e: "task w key = Some e"
    using D(7) [of key] key by blast
  have notin: "key \<notin> set (L l i)"
    using D(8) [OF key] .
  let ?at = "\<lambda>e p. e\<lparr>we_level := of_nat l, we_slot := of_nat i, we_prev := p, we_next := None\<rparr>"
  have X: "X - {key} = (set (L l i) \<union> X) - set (L l i @ [key])"
    using D(8) [of _ l i] by auto
  show ?thesis
  proof (cases "L l i" rule: rev_cases)
    case Nil
    let ?s = "\<lparr>slot_head = Some key, slot_tail = Some key\<rparr>"
    let ?w1 = "set_slot l i ?s w"
    let ?w = "?w1\<lparr>wh_tasks := sm_set key (?at e None) (wh_tasks w)\<rparr>"
    have "slot_head (get_slot w l i) = None"
      using D(2) [OF ex] Nil by (simp add: slot_holds_def)
    then have run: "wheel_link key l i w = (Inr (), ?w)"
      using e by (simp add: wheel_link_def task_update_def)
    have "lists_ok ?w (put_list l i (L l i @ [key]) L) (X - {key})"
      using Nil D(1) e key X
      by (intro lists_ok_change [OF ok ex]) (auto simp: get_set_slot [OF ex] slot_holds_def)
    moreover have "same_but_links w ?w"
      using cores_set [of ?w1 key e "?at e None"] D(1) e by (simp add: same_but_links_def)
    moreover have "\<forall>k \<in> X - {key}. task ?w k = task w k"
      using D(1) by simp
    ultimately show ?thesis
      using run by blast
  next
    case (snoc xs t)
    have t: "t \<noteq> key" "t \<notin> set xs" "key \<notin> set xs"
      using notin D(4) [of l i] snoc by auto
    obtain f where f: "task w t = Some f"
      using segment_dom [OF D(5) [of l i], of t] snoc by auto
    have slot: "slot_head (get_slot w l i) \<noteq> None" "slot_tail (get_slot w l i) = Some t"
      "slot_head (get_slot w l i) = hd_or None (xs @ [t])"
      using D(2) [OF ex] snoc by (auto simp: slot_holds_def hd_or_def split: list.splits)
    let ?w1 = "w\<lparr>wh_tasks := sm_set t (f\<lparr>we_next := Some key\<rparr>) (wh_tasks w)\<rparr>"
    let ?w2 = "?w1\<lparr>wh_tasks := sm_set key (?at e (Some t)) (wh_tasks ?w1)\<rparr>"
    let ?w = "set_slot l i ((get_slot w l i)\<lparr>slot_tail := Some key\<rparr>) ?w2"
    have e1: "task ?w1 key = Some e"
      using D(1) e t by simp
    have run: "wheel_link key l i w = (Inr (), ?w)"
      using slot f e1 by (auto simp: wheel_link_def st_then_def st_bind_run task_update_run)
    have ex2: "slot_exists ?w2 l i"
      using ex by simp
    have "segment (task ?w) l i None (xs @ [t]) (Some key)"
      by (rule segment_set_next [of "task w" _ _ _ _ _ None f])
        (use D(1) D(5) [of l i] snoc t f in \<open>auto\<close>)
    then have seg: "segment (task ?w) l i None (L l i @ [key]) None"
      using D(1) e t unfolding snoc segment_append by simp
    have "lists_ok ?w (put_list l i (L l i @ [key]) L) (X - {key})"
    proof (rule lists_ok_change [OF ok ex])
      show "slot_holds (get_slot ?w l i) (L l i @ [key])"
        using slot snoc ex by (simp add: get_set_slot slot_holds_def last_or_def)
      show "segment (task ?w) l i None (L l i @ [key]) None"
        by (rule seg)
    qed (use D(1) D(4) [of l i] notin key X e f snoc ex in \<open>auto simp: get_set_slot\<close>)
    moreover have "same_but_links w ?w"
      using cores_set [of w t f "f\<lparr>we_next := Some key\<rparr>"] cores_set [of ?w1 key e "?at e (Some t)"] D(1) e1 f
      by (simp add: same_but_links_def)
    moreover have "\<forall>k \<in> X - {key}. task ?w k = task w k"
      using D(1) D(8) [of t l i] snoc by auto
    ultimately show ?thesis
      using run by blast
  qed
qed

text \<open>Unlinking joins the neighbours.\<close>

definition fits :: "'a wheel \<Rightarrow> bool" where
  "fits w \<longleftrightarrow> length (wh_levels w) \<le> 2 ^ 8 \<and> (\<forall>l \<in> set (wh_levels w). length (lv_slots l) \<le> 2 ^ 32)"

lemma fits_exists:
  assumes "fits w" "slot_exists w l i"
  shows "unat (of_nat l :: u8) = l" "unat (of_nat i :: u32) = i"
proof -
  have "length (lv_slots (wh_levels w ! l)) \<le> 2 ^ 32"
    using assms unfolding fits_def slot_exists_def by (meson nth_mem)
  then have "i < 2 ^ 32"
    using assms(2) unfolding slot_exists_def by linarith
  moreover have "l < 2 ^ 8"
    using assms unfolding fits_def slot_exists_def by linarith
  ultimately show "unat (of_nat l :: u8) = l" "unat (of_nat i :: u32) = i"
    by (simp_all add: unat_of_nat)
qed

lemma same_but_links_set_slot: "same_but_links w (set_slot l i s w)"
  by (simp add: same_but_links_def)

lemma same_but_links_task:
  "tasks_ok w \<Longrightarrow> task w k = Some e \<Longrightarrow> core e' = core e \<Longrightarrow>
     same_but_links w (w\<lparr>wh_tasks := sm_set k e' (wh_tasks w)\<rparr>)"
  by (simp add: same_but_links_def cores_set)

lemma same_but_links_dom: "same_but_links w w' \<Longrightarrow> task w' k \<noteq> None \<longleftrightarrow> task w k \<noteq> None"
  by (auto simp: same_but_links_def cores_def fun_eq_iff dest: spec [of _ k])
     (metis option.map_disc_iff not_None_eq)+

lemma same_but_links_exists: "same_but_links w w' \<Longrightarrow> slot_exists w' l i = slot_exists w l i"
  by (rule shape_slot_exists) (simp add: same_but_links_def)

text \<open>The two halves: what stands before the key, and what stands after it.\<close>

lemma unlink_before:
  assumes inv: "tasks_ok w" and ex: "slot_exists w l i"
    and nb: "xs \<noteq> [] \<Longrightarrow> task w (last xs) \<noteq> None"
  shows "\<exists>w'. (case last_or None xs of
           Some p \<Rightarrow> task_update InvariantViolation p (\<lambda>e. e\<lparr>we_next := n\<rparr>)
         | None \<Rightarrow> st_modify (\<lambda>w. set_slot l i ((get_slot w l i)\<lparr>slot_head := n\<rparr>) w)) w = (Inr (), w')
     \<and> same_but_links w w' \<and> tasks_ok w'
     \<and> (\<forall>l' i'. get_slot w' l' i' = (if l' = l \<and> i' = i \<and> xs = [] then (get_slot w l i)\<lparr>slot_head := n\<rparr> else get_slot w l' i'))
     \<and> (\<forall>k. task w' k = (if xs \<noteq> [] \<and> k = last xs then map_option (\<lambda>e. e\<lparr>we_next := n\<rparr>) (task w k) else task w k))"
proof (cases "xs = []")
  case True
  then show ?thesis
    using inv ex by (auto simp: same_but_links_set_slot get_set_slot)
next
  case False
  then obtain e where e: "task w (last xs) = Some e"
    using nb by blast
  let ?w = "w\<lparr>wh_tasks := sm_set (last xs) (e\<lparr>we_next := n\<rparr>) (wh_tasks w)\<rparr>"
  have "same_but_links w ?w"
    using same_but_links_task [OF inv e] by simp
  with False e inv show ?thesis
    by (intro exI [of _ ?w]) (simp add: last_or_def task_update_run)
qed

lemma unlink_after:
  assumes inv: "tasks_ok w" and ex: "slot_exists w l i"
    and nb: "ys \<noteq> [] \<Longrightarrow> task w (hd ys) \<noteq> None"
  shows "\<exists>w'. (case hd_or None ys of
           Some p \<Rightarrow> task_update InvariantViolation p (\<lambda>e. e\<lparr>we_prev := n\<rparr>)
         | None \<Rightarrow> st_modify (\<lambda>w. set_slot l i ((get_slot w l i)\<lparr>slot_tail := n\<rparr>) w)) w = (Inr (), w')
     \<and> same_but_links w w' \<and> tasks_ok w'
     \<and> (\<forall>l' i'. get_slot w' l' i' = (if l' = l \<and> i' = i \<and> ys = [] then (get_slot w l i)\<lparr>slot_tail := n\<rparr> else get_slot w l' i'))
     \<and> (\<forall>k. task w' k = (if ys \<noteq> [] \<and> k = hd ys then map_option (\<lambda>e. e\<lparr>we_prev := n\<rparr>) (task w k) else task w k))"
proof (cases ys)
  case Nil
  then show ?thesis
    using inv ex by (auto simp: same_but_links_set_slot get_set_slot)
next
  case (Cons y zs)
  then obtain e where e: "task w y = Some e"
    using nb by auto
  let ?w = "w\<lparr>wh_tasks := sm_set y (e\<lparr>we_prev := n\<rparr>) (wh_tasks w)\<rparr>"
  have "same_but_links w ?w"
    using same_but_links_task [OF inv e] by simp
  with Cons e inv show ?thesis
    by (intro exI [of _ ?w]) (simp add: task_update_run)
qed

lemma unlink_ok:
  assumes ok: "lists_ok w L X" and fits: "fits w" and at: "L l i = xs @ key # ys"
  shows "\<exists>w'. wheel_unlink key w = (Inr (), w')
     \<and> lists_ok w' (put_list l i (xs @ ys) L) (insert key X) \<and> same_but_links w w'"
proof -
  note D = lists_okD [OF ok]
  have ex: "slot_exists w l i"
    using D(3) [of l i] at by fastforce
  have dist: "key \<notin> set xs" "key \<notin> set ys" "set xs \<inter> set ys = {}" "distinct xs" "distinct ys"
    using D(4) [of l i] at by auto
  have seg: "segment (task w) l i None xs (Some key)" "segment (task w) l i (Some key) ys None"
    and "\<exists>e. task w key = Some e \<and> we_level e = of_nat l \<and> we_slot e = of_nat i
        \<and> we_prev e = last_or None xs \<and> we_next e = hd_or None ys"
    using D(5) [of l i] unfolding at by (auto simp: segment_append)
  then obtain e where e: "task w key = Some e" "unat (we_level e) = l" "unat (we_slot e) = i"
    "we_prev e = last_or None xs" "we_next e = hd_or None ys"
    using fits_exists [OF fits ex] by auto
  have nb: "task w k \<noteq> None" if "k \<in> set xs \<union> set ys" for k
    using segment_dom [OF seg(1), of k] segment_dom [OF seg(2), of k] that by auto
  obtain w1 where w1: "(case last_or None xs of
           Some p \<Rightarrow> task_update InvariantViolation p (\<lambda>e. e\<lparr>we_next := hd_or None ys\<rparr>)
         | None \<Rightarrow> st_modify (\<lambda>w. set_slot l i ((get_slot w l i)\<lparr>slot_head := hd_or None ys\<rparr>) w)) w = (Inr (), w1)"
    "same_but_links w w1" "tasks_ok w1"
    "\<And>l' i'. get_slot w1 l' i' = (if l' = l \<and> i' = i \<and> xs = [] then (get_slot w l i)\<lparr>slot_head := hd_or None ys\<rparr> else get_slot w l' i')"
    "\<And>k. task w1 k = (if xs \<noteq> [] \<and> k = last xs then map_option (\<lambda>e. e\<lparr>we_next := hd_or None ys\<rparr>) (task w k) else task w k)"
    using unlink_before [OF D(1) ex, of xs "hd_or None ys"] nb by auto
  have ex1: "slot_exists w1 l i"
    using same_but_links_exists [OF w1(2)] ex by simp
  obtain w2 where w2: "(case hd_or None ys of
           Some p \<Rightarrow> task_update InvariantViolation p (\<lambda>e. e\<lparr>we_prev := last_or None xs\<rparr>)
         | None \<Rightarrow> st_modify (\<lambda>w. set_slot l i ((get_slot w l i)\<lparr>slot_tail := last_or None xs\<rparr>) w)) w1 = (Inr (), w2)"
    "same_but_links w1 w2" "tasks_ok w2"
    "\<And>l' i'. get_slot w2 l' i' = (if l' = l \<and> i' = i \<and> ys = [] then (get_slot w1 l i)\<lparr>slot_tail := last_or None xs\<rparr> else get_slot w1 l' i')"
    "\<And>k. task w2 k = (if ys \<noteq> [] \<and> k = hd ys then map_option (\<lambda>e. e\<lparr>we_prev := last_or None xs\<rparr>) (task w1 k) else task w1 k)"
    using unlink_after [OF w1(3) ex1, of ys "last_or None xs"] nb same_but_links_dom [OF w1(2)] by auto
  have key2: "task w2 key = Some e"
    using dist e by (auto simp: w1(5) w2(5))
  let ?w = "w2\<lparr>wh_tasks := sm_set key (e\<lparr>we_prev := None, we_next := None\<rparr>) (wh_tasks w2)\<rparr>"
  have run: "wheel_unlink key w = (Inr (), ?w)"
    using ex e w1(1) w2(1) key2
    by (simp add: wheel_unlink_def task_get_def st_bind_run Let_def slot_exists_def st_then_def task_update_run
        cong del: option.case_cong_weak)
  have sbl: "same_but_links w ?w"
    using same_but_links_task [OF w2(3) key2, of "e\<lparr>we_prev := None, we_next := None\<rparr>"] w1(2) w2(2)
    by (auto intro: same_but_links_trans)
  have segx: "segment (task ?w) l i None xs (hd_or None ys)"
  proof (cases xs rule: rev_cases)
    case (snoc zs z)
    then obtain f where f: "task w z = Some f"
      using nb [of z] by auto
    have z: "z \<notin> set zs" "z \<noteq> key" "ys \<noteq> [] \<Longrightarrow> hd ys \<notin> set (zs @ [z])" "key \<notin> set zs"
      using dist snoc by auto
    have "task ?w z = Some (f\<lparr>we_next := hd_or None ys\<rparr>)" "\<And>k. k \<in> set zs \<Longrightarrow> task ?w k = task w k"
      using w2(3) f z snoc by (auto simp: w1(5) w2(5))
    from segment_set_next [OF seg(1) [unfolded snoc] z(1) f this] show ?thesis
      unfolding snoc by simp
  qed simp
  have segy: "segment (task ?w) l i (last_or None xs) ys None"
  proof (cases ys)
    case (Cons z zs)
    then obtain f where f: "task w z = Some f"
      using nb [of z] by auto
    have z: "z \<notin> set zs" "z \<noteq> key" "xs \<noteq> [] \<Longrightarrow> last xs \<notin> set (z # zs)" "key \<notin> set zs"
      using dist Cons last_in_set [of xs] by (auto simp del: last_in_set)
    have "task ?w z = Some (f\<lparr>we_prev := last_or None xs\<rparr>)" "\<And>k. k \<in> set zs \<Longrightarrow> task ?w k = task w k"
      using w2(3) f z Cons by (auto simp: w1(5) w2(5))
    from segment_set_prev [OF seg(2) [unfolded Cons] z(1) f this] show ?thesis
      unfolding Cons by simp
  qed simp
  have "lists_ok ?w (put_list l i (xs @ ys) L) (insert key X)"
  proof (rule lists_ok_change [OF ok ex])
    show "slot_holds (get_slot ?w l i) (xs @ ys)"
      using D(2) [OF ex] at
      by (auto simp: w1(4) w2(4) slot_holds_def last_or_def hd_or_def split: list.splits)
    show "segment (task ?w) l i None (xs @ ys) None"
      using segx segy by (simp add: segment_append)
    show "insert key X = set (L l i) \<union> X - set (xs @ ys)"
      using at dist D(8) [of _ l i] by auto
    show "task ?w k = task w k" if "k \<notin> set (L l i) \<union> X" for k
      using that at w2(3) by (auto simp: w1(5) w2(5))
  qed (use at dist w2(3) same_but_links_exists [OF sbl] same_but_links_dom [OF sbl] in \<open>auto simp: w1(4) w2(4)\<close>)
  with run sbl show ?thesis
    by blast
qed

end
