(* ===== verification/Wheel_Correct.thy ===== *)
theory Wheel_Correct
  imports Wheel_Lists
begin

text \<open>
  Correctness of the timing wheel. The invariant of a wheel: its lists hold exactly the timers, every
  timer stands in the slot of its deadline at its level, no later than the tick at which that slot is
  visited, and the heap mirrors the deadlines. Every operation keeps it and none can fail on it with an
  invariant violation; advancing the clock hands out exactly the timers that are due.
\<close>

section \<open>Levels\<close>

definition wf_levels :: "level list \<Rightarrow> bool" where
  "wf_levels ls \<longleftrightarrow>
     ls \<noteq> [] \<and> length ls \<le> 2 ^ 8 \<and> unat (lv_unit_ticks (ls ! 0)) = 1
     \<and> (\<forall>l < length ls. 0 < unat (lv_unit_ticks (ls ! l))
          \<and> (\<exists>m \<le> 32. length (lv_slots (ls ! l)) = 2 ^ m \<and> lv_mask (ls ! l) = 2 ^ m - 1))
     \<and> (\<forall>l. Suc l < length ls \<longrightarrow> lv_unit_ticks (ls ! Suc l) = lv_span_ticks (ls ! l))"

lemma wf_slots:
  "wf_levels ls \<Longrightarrow> l < length ls \<Longrightarrow>
     \<exists>m \<le> 32. length (lv_slots (ls ! l)) = 2 ^ m \<and> lv_mask (ls ! l) = 2 ^ m - 1"
  by (simp add: wf_levels_def)

lemma wf_levels_shape:
  assumes "map lv_shape ls' = map lv_shape ls"
  shows "wf_levels ls' = wf_levels ls"
proof -
  have len: "length ls' = length ls"
    using assms by (metis length_map)
  have "lv_shape (ls' ! l) = lv_shape (ls ! l)" if "l < length ls" for l
    using assms len that by (metis nth_map)
  then have eq: "lv_unit_ticks (ls' ! l) = lv_unit_ticks (ls ! l)" "lv_span_ticks (ls' ! l) = lv_span_ticks (ls ! l)"
    "lv_mask (ls' ! l) = lv_mask (ls ! l)" "length (lv_slots (ls' ! l)) = length (lv_slots (ls ! l))"
    if "l < length ls" for l
    using that by (auto simp: lv_shape_def)
  have "ls' = [] \<longleftrightarrow> ls = []"
    using len by (metis length_0_conv)
  then show ?thesis
    unfolding wf_levels_def len using eq by (cases "ls = []") (auto simp: Suc_lessD cong: conj_cong)
qed

abbreviation unit_of :: "'a wheel \<Rightarrow> nat \<Rightarrow> nat" where
  "unit_of w l \<equiv> unat (lv_unit_ticks (wh_levels w ! l))"

abbreviation slots_of :: "'a wheel \<Rightarrow> nat \<Rightarrow> nat" where
  "slots_of w l \<equiv> length (lv_slots (wh_levels w ! l))"

text \<open>The slot of a deadline at a level, and the tick at which it is visited for it.\<close>

definition home :: "'a wheel \<Rightarrow> nat \<Rightarrow> nat \<Rightarrow> nat" where
  "home w l d = (d div unit_of w l) mod slots_of w l"

definition visit :: "'a wheel \<Rightarrow> nat \<Rightarrow> nat \<Rightarrow> nat" where
  "visit w l d = d div unit_of w l * unit_of w l"

lemma visit_le: "visit w l d \<le> d"
  by (simp add: visit_def)

lemma visit_gt: "0 < unit_of w l \<Longrightarrow> d < visit w l d + unit_of w l"
  using dividend_less_div_times [of "unit_of w l" d] by (simp add: visit_def add.commute)

lemma and_slot_mask:
  assumes "wf_levels ls" "l < length ls"
  shows "x AND lv_mask (ls ! l) = x mod length (lv_slots (ls ! l))"
proof -
  obtain m where "length (lv_slots (ls ! l)) = 2 ^ m" "lv_mask (ls ! l) = 2 ^ m - 1"
    using wf_slots [OF assms] by blast
  then show ?thesis
    by (simp add: take_bit_eq_mod [symmetric] take_bit_eq_mask mask_eq_exp_minus_1)
qed

lemma home_exists:
  assumes "wf_levels (wh_levels w)" "l < length (wh_levels w)"
  shows "slot_exists w l (x mod slots_of w l)"
proof -
  have "0 < slots_of w l"
    using wf_slots [OF assms] by auto
  with assms(2) show ?thesis
    by (simp add: slot_exists_def)
qed

lemma first_level_Some:
  "first_level ls delta index = Some j \<Longrightarrow>
     index \<le> j \<and> j < index + length ls \<and> (\<forall>m. index + m < j \<longrightarrow> lv_span_ticks (ls ! m) \<le> delta)"
proof (induction ls arbitrary: index)
  case (Cons l ls)
  then show ?case
    by (cases "delta < lv_span_ticks l") (fastforce simp: nth_Cons split: nat.splits)+
qed simp

lemma first_level_None:
  "first_level ls delta index = None \<Longrightarrow> m < length ls \<Longrightarrow> lv_span_ticks (ls ! m) \<le> delta"
  by (induction ls arbitrary: index m) (auto simp: nth_Cons split: nat.splits if_splits)

lemma location_ok:
  assumes wf: "wf_levels (wh_levels w)" and loc: "determine_location w d = (l, i)"
    and due: "unat (wh_current_tick w) \<le> unat d"
  shows "slot_exists w l i" and "i = home w l (unat d)"
    and "unat (wh_current_tick w) \<le> visit w l (unat d)"
    and "unat (wh_current_tick w) < unat d \<Longrightarrow> unat (wh_current_tick w) < visit w l (unat d)"
proof -
  let ?delta = "saturating_sub d (wh_current_tick w)" and ?ls = "wh_levels w"
  have l: "l < length ?ls" and below: "\<And>m. m < l \<Longrightarrow> lv_span_ticks (?ls ! m) \<le> ?delta"
    and i: "i = unat (d div lv_unit_ticks (?ls ! l)) AND lv_mask (?ls ! l)"
    using loc wf first_level_Some [of ?ls ?delta 0] first_level_None [of ?ls ?delta 0]
    by (auto simp: determine_location_def Let_def wf_levels_def split: option.splits)
  show home: "i = home w l (unat d)"
    using i and_slot_mask [OF wf l] by (simp add: home_def unat_div)
  then show "slot_exists w l i"
    using home_exists [OF wf l] by (simp add: home_def)
  have unit: "0 < unit_of w l"
    using wf l by (auto simp: wf_levels_def)
  show "unat (wh_current_tick w) \<le> visit w l (unat d)"
    and "unat (wh_current_tick w) < unat d \<Longrightarrow> unat (wh_current_tick w) < visit w l (unat d)"
  proof (atomize (full), cases l)
    case 0
    then have "visit w l (unat d) = unat d"
      using wf by (simp add: visit_def wf_levels_def)
    with due show "unat (wh_current_tick w) \<le> visit w l (unat d)
        \<and> (unat (wh_current_tick w) < unat d \<longrightarrow> unat (wh_current_tick w) < visit w l (unat d))"
      by simp
  next
    case (Suc m)
    then have "unit_of w l \<le> unat d - unat (wh_current_tick w)"
      using below [of m] wf l by (simp add: wf_levels_def word_le_nat_alt word_nat_simps)
    with visit_gt [OF unit, of "unat d"] due unit show "unat (wh_current_tick w) \<le> visit w l (unat d)
        \<and> (unat (wh_current_tick w) < unat d \<longrightarrow> unat (wh_current_tick w) < visit w l (unat d))"
      by linarith
  qed
qed

section \<open>The invariant\<close>

definition heap_ok :: "'a wheel \<Rightarrow> bool" where
  "heap_ok w \<longleftrightarrow>
     heap_ordered (wh_deadline_heap w) \<and> heap_synced heap_index_of (wh_deadline_heap w) (wh_tasks w)
     \<and> (\<forall>k d. \<lparr>dn_key = k, dn_deadline_tick = d\<rparr> \<in> set (wh_deadline_heap w) \<longleftrightarrow>
          map_option we_deadline_tick (task w k) = Some d)"

text \<open>Every listed timer is in its slot, and that slot is still to be visited for it; \<open>Todo\<close> are the
  levels that the current tick has not visited yet.\<close>

definition placed :: "'a wheel \<Rightarrow> (nat \<Rightarrow> nat \<Rightarrow> u64 list) \<Rightarrow> nat set \<Rightarrow> bool" where
  "placed w L Todo \<longleftrightarrow>
     (\<forall>l i k d. k \<in> set (L l i) \<longrightarrow> map_option we_deadline_tick (task w k) = Some d \<longrightarrow>
        i = home w l (unat d) \<and> unat (wh_current_tick w) \<le> visit w l (unat d)
        \<and> (visit w l (unat d) = unat (wh_current_tick w) \<longrightarrow> l \<in> Todo))"

definition clock_ok :: "'a wheel \<Rightarrow> bool" where
  "clock_ok w \<longleftrightarrow> 0 < wh_base_tick_nanos w \<and> wh_remainder_nanos w < wh_base_tick_nanos w"

definition wheel_st :: "'a wheel \<Rightarrow> (nat \<Rightarrow> nat \<Rightarrow> u64 list) \<Rightarrow> u64 set \<Rightarrow> nat set \<Rightarrow> bool" where
  "wheel_st w L X Todo \<longleftrightarrow>
     wf_levels (wh_levels w) \<and> lists_ok w L X \<and> heap_ok w \<and> placed w L Todo \<and> clock_ok w
     \<and> dom (task w) \<subseteq> set (sm_issued (wh_tasks w))"

definition wheel_inv :: "'a wheel \<Rightarrow> bool" where
  "wheel_inv w \<longleftrightarrow> (\<exists>L. wheel_st w L {} UNIV)"

text \<open>The timers of a wheel: the abstract state.\<close>

definition timers :: "'a wheel \<Rightarrow> u64 \<Rightarrow> ('a \<times> u64) option" where
  "timers w k = map_option (\<lambda>e. (we_item e, we_deadline_tick e)) (task w k)"

text \<open>What the operations on single timers never touch.\<close>

definition same_clock :: "'a wheel \<Rightarrow> 'a wheel \<Rightarrow> bool" where
  "same_clock w w' \<longleftrightarrow>
     map lv_shape (wh_levels w') = map lv_shape (wh_levels w)
     \<and> wh_current_tick w' = wh_current_tick w \<and> wh_remainder_nanos w' = wh_remainder_nanos w
     \<and> wh_base_tick_nanos w' = wh_base_tick_nanos w \<and> sm_issued (wh_tasks w') = sm_issued (wh_tasks w)"

lemma same_clock_refl [simp]: "same_clock w w"
  by (simp add: same_clock_def)

lemma same_clock_trans: "same_clock a b \<Longrightarrow> same_clock b c \<Longrightarrow> same_clock a c"
  by (simp add: same_clock_def)

lemma same_but_links_clock: "same_but_links w w' \<Longrightarrow> same_clock w w'"
  by (simp add: same_but_links_def same_clock_def)

lemma same_clock_home:
  assumes "same_clock w w'" "l < length (wh_levels w)"
  shows "home w' l d = home w l d" "visit w' l d = visit w l d"
proof -
  have "length (wh_levels w') = length (wh_levels w)"
    using assms(1) unfolding same_clock_def by (metis length_map)
  then have "lv_shape (wh_levels w' ! l) = lv_shape (wh_levels w ! l)"
    using assms unfolding same_clock_def by (metis nth_map)
  then show "home w' l d = home w l d" "visit w' l d = visit w l d"
    by (simp_all add: home_def visit_def lv_shape_def)
qed

lemma wheel_stD:
  assumes "wheel_st w L X Todo"
  shows "wf_levels (wh_levels w)" "lists_ok w L X" "heap_ok w" "placed w L Todo" "clock_ok w"
    "dom (task w) \<subseteq> set (sm_issued (wh_tasks w))" "tasks_ok w"
  using assms lists_okD(1) by (auto simp: wheel_st_def)

lemma wheel_fits: "wf_levels (wh_levels w) \<Longrightarrow> fits w"
proof -
  assume wf: "wf_levels (wh_levels w)"
  have "slots_of w l \<le> 2 ^ 32" if l: "l < length (wh_levels w)" for l
  proof -
    obtain m where "m \<le> 32" "slots_of w l = 2 ^ m"
      using wf_slots [OF wf l] by blast
    then show ?thesis
      using power_increasing [of m 32 "2 :: nat"] by simp
  qed
  then have "\<forall>l \<in> set (wh_levels w). length (lv_slots l) \<le> 2 ^ 32"
    by (metis in_set_conv_nth)
  with wf show ?thesis
    unfolding fits_def wf_levels_def by blast
qed

text \<open>The deadlines, the heap positions and the nodes decide about the heap.\<close>

lemma heap_ok_cong:
  assumes "wh_deadline_heap w' = wh_deadline_heap w" "tasks_ok w'" "tasks_ok w"
    and "\<And>k. map_option (\<lambda>e. (we_deadline_tick e, we_heap_index e)) (task w' k)
           = map_option (\<lambda>e. (we_deadline_tick e, we_heap_index e)) (task w k)"
  shows "heap_ok w' = heap_ok w"
proof -
  have "map_option we_deadline_tick (task w' k) = map_option we_deadline_tick (task w k)"
    "map_option we_heap_index (task w' k) = map_option we_heap_index (task w k)" for k
    using arg_cong [OF assms(4) [of k], of "map_option fst"] arg_cong [OF assms(4) [of k], of "map_option snd"]
    by (simp_all add: option.map_comp comp_def)
  with assms(1-3) show ?thesis
    by (simp add: heap_ok_def heap_synced_def heap_index_of_def)
qed

lemma cores_heap:
  "map_option (\<lambda>e. (we_deadline_tick e, we_heap_index e)) (task w k) = map_option (\<lambda>(a, b, c). (b, c)) (cores w k)"
  by (simp add: cores_def core_def option.map_comp comp_def)

lemma cores_timers: "timers w k = map_option (\<lambda>(a, b, c). (a, b)) (cores w k)"
  by (simp add: timers_def cores_def core_def option.map_comp comp_def)

lemma cores_index: "map_option we_heap_index (task w k) = map_option (\<lambda>(a, b, c). c) (cores w k)"
  by (simp add: cores_def core_def option.map_comp comp_def)

lemma same_but_links_heap:
  assumes "same_but_links w w'" "tasks_ok w" "tasks_ok w'" "heap_ok w"
  shows "heap_ok w'"
proof -
  have "map_option (\<lambda>e. (we_deadline_tick e, we_heap_index e)) (task w' k)
      = map_option (\<lambda>e. (we_deadline_tick e, we_heap_index e)) (task w k)" for k
    using assms(1) by (simp add: same_but_links_def cores_heap)
  with assms show ?thesis
    using heap_ok_cong [of w' w] by (simp add: same_but_links_def)
qed

lemma same_but_links_timers: "same_but_links w w' \<Longrightarrow> timers w' = timers w"
  by (simp add: fun_eq_iff same_but_links_def cores_timers)

lemma timers_deadline: "map_option we_deadline_tick (task w k) = map_option snd (timers w k)"
  by (simp add: timers_def option.map_comp comp_def)

lemma timers_dom: "dom (timers w) = dom (task w)"
  by (auto simp: timers_def)

section \<open>Moves in the heap\<close>

text \<open>The heap operations change the heap and the positions stored in the entries, nothing else.\<close>

definition same_but_heap :: "'a wheel \<Rightarrow> 'a wheel \<Rightarrow> bool" where
  "same_but_heap w w' \<longleftrightarrow>
     index_erased (wh_tasks w') = index_erased (wh_tasks w) \<and> wh_levels w' = wh_levels w
     \<and> wh_current_tick w' = wh_current_tick w \<and> wh_remainder_nanos w' = wh_remainder_nanos w
     \<and> wh_base_tick_nanos w' = wh_base_tick_nanos w"

lemma same_but_heapD:
  assumes "same_but_heap w w'"
  shows "tasks_ok w' = tasks_ok w" "same_clock w w'"
    and "\<And>k. map_option (\<lambda>e. e\<lparr>we_heap_index := 0\<rparr>) (task w' k) = map_option (\<lambda>e. e\<lparr>we_heap_index := 0\<rparr>) (task w k)"
    and "\<And>l i. get_slot w' l i = get_slot w l i" "\<And>l i. slot_exists w' l i = slot_exists w l i"
  using assms by (auto simp: same_but_heap_def index_erased_def same_clock_def get_slot_def slot_exists_def fun_eq_iff)

lemma same_but_heap_proj:
  assumes "same_but_heap w w'" "\<And>e. f (e\<lparr>we_heap_index := 0\<rparr>) = f e"
  shows "map_option f (task w' k) = map_option f (task w k)"
proof -
  have "map_option f (map_option (\<lambda>e. e\<lparr>we_heap_index := 0\<rparr>) (task w' k))
      = map_option f (map_option (\<lambda>e. e\<lparr>we_heap_index := 0\<rparr>) (task w k))"
    using same_but_heapD(3) [OF assms(1), of k] by simp
  then show ?thesis
    by (simp add: option.map_comp comp_def assms(2))
qed

lemma same_but_heap_timers: "same_but_heap w w' \<Longrightarrow> timers w' = timers w"
  by (simp add: fun_eq_iff timers_def same_but_heap_proj)

definition links :: "'a wheel_entry \<Rightarrow> u8 \<times> u32 \<times> u64 option \<times> u64 option" where
  "links e = (we_level e, we_slot e, we_prev e, we_next e)"

lemma segment_links:
  "(\<And>k. k \<in> set ks \<Longrightarrow> map_option links (T' k) = map_option links (T k)) \<Longrightarrow>
     segment T l i p ks n \<Longrightarrow> segment T' l i p ks n"
proof (induction ks arbitrary: p)
  case (Cons k ks)
  then obtain e where e: "T k = Some e" "we_level e = of_nat l" "we_slot e = of_nat i" "we_prev e = p"
    "we_next e = hd_or n ks"
    by auto
  then obtain e' where "T' k = Some e'" "links e' = links e"
    using Cons.prems(1) [of k] by auto
  with e Cons show ?case
    by (auto simp: links_def)
qed simp

lemma lists_ok_links:
  assumes ok: "lists_ok w L X" and inv: "tasks_ok w'"
    and same: "\<And>k. map_option links (task w' k) = map_option links (task w k)"
    and slots: "\<And>l i. get_slot w' l i = get_slot w l i" "\<And>l i. slot_exists w' l i = slot_exists w l i"
  shows "lists_ok w' L X"
proof (rule lists_okI)
  note D = lists_okD [OF ok]
  show "segment (task w') l i None (L l i) None" for l i
    by (rule segment_links [OF same D(5)])
  have "task w' k \<noteq> None \<longleftrightarrow> task w k \<noteq> None" for k
    using same [of k] by (metis map_option_is_None)
  then show "task w' k \<noteq> None \<longleftrightarrow> k \<in> X \<or> (\<exists>l i. k \<in> set (L l i))" for k
    using D(7) [of k] by simp
qed (use lists_okD [OF ok] inv slots in auto)

lemma same_but_heap_lists: "same_but_heap w w' \<Longrightarrow> lists_ok w L X \<Longrightarrow> lists_ok w' L X"
  by (rule lists_ok_links) (use lists_okD(1) in \<open>auto simp: same_but_heapD same_but_heap_proj links_def\<close>)

lemma placed_cong:
  assumes "same_clock w w'"
    and "\<And>k d. map_option we_deadline_tick (task w' k) = Some d \<Longrightarrow> map_option we_deadline_tick (task w k) = Some d"
    and "\<And>l i. L l i \<noteq> [] \<Longrightarrow> l < length (wh_levels w)"
    and "placed w L Todo"
  shows "placed w' L Todo"
  unfolding placed_def
proof (intro allI impI)
  fix l i k d
  assume k: "k \<in> set (L l i)" and d: "map_option we_deadline_tick (task w' k) = Some d"
  then have "L l i \<noteq> []"
    by auto
  then have h: "home w' l x = home w l x" "visit w' l x = visit w l x" for x
    using same_clock_home [OF assms(1)] assms(3) by blast+
  have t: "wh_current_tick w' = wh_current_tick w"
    using assms(1) by (simp add: same_clock_def)
  show "i = home w' l (unat d) \<and> unat (wh_current_tick w') \<le> visit w' l (unat d)
      \<and> (visit w' l (unat d) = unat (wh_current_tick w') \<longrightarrow> l \<in> Todo)"
    unfolding h t using assms(4) k assms(2) [OF d] unfolding placed_def by blast
qed

lemma lists_ok_level: "lists_ok w L X \<Longrightarrow> L l i \<noteq> [] \<Longrightarrow> l < length (wh_levels w)"
  using lists_okD(3) [of w L X l i] by (auto simp: slot_exists_def)

lemma clock_ok_cong: "same_clock w w' \<Longrightarrow> clock_ok w' = clock_ok w"
  by (simp add: same_clock_def clock_ok_def)

lemma same_clock_levels: "same_clock w w' \<Longrightarrow> wf_levels (wh_levels w') = wf_levels (wh_levels w)"
  by (rule wf_levels_shape) (simp add: same_clock_def)

lemma node_of_task:
  assumes "heap_ok w" "task w k = Some e" "tasks_ok w"
  shows "we_heap_index e < length (wh_deadline_heap w)"
    "wh_deadline_heap w ! we_heap_index e = \<lparr>dn_key = k, dn_deadline_tick = we_deadline_tick e\<rparr>"
proof -
  let ?n = "\<lparr>dn_key = k, dn_deadline_tick = we_deadline_tick e\<rparr>"
  have "?n \<in> set (wh_deadline_heap w)"
    using assms by (simp add: heap_ok_def)
  then obtain j where j: "j < length (wh_deadline_heap w)" "wh_deadline_heap w ! j = ?n"
    by (metis in_set_conv_nth)
  then have "heap_index_of (wh_tasks w) k = Some j"
    using assms(1) by (auto simp: heap_ok_def heap_synced_def)
  then have "we_heap_index e = j"
    using assms by (simp add: heap_index_of_def)
  with j show "we_heap_index e < length (wh_deadline_heap w)" "wh_deadline_heap w ! we_heap_index e = ?n"
    by simp_all
qed

text \<open>Taking a timer out of the heap and then out of the map.\<close>

lemma remove_deadline_ok:
  assumes heap: "heap_ok w" and inv: "tasks_ok w" and e: "task w k = Some e"
  shows "\<exists>w'. remove_deadline k (we_heap_index e) w = (Inr (), w') \<and> same_but_heap w w'
     \<and> heap_ok (w'\<lparr>wh_tasks := sm_remove k (wh_tasks w')\<rparr>)"
proof -
  note n = node_of_task [OF heap e inv]
  let ?H = "wh_deadline_heap w" and ?n = "\<lparr>dn_key = k, dn_deadline_tick = we_deadline_tick e\<rparr>"
  have syn: "heap_synced heap_index_of ?H (wh_tasks w)" and ord: "heap_ordered ?H"
    using heap by (auto simp: heap_ok_def)
  obtain H' m where run: "heap_remove set_heap_index k (we_heap_index e) ?H (wh_tasks w) = (Inr (), H', m)"
    and ms: "mset H' = mset ?H - {#?n#}" and ord': "heap_ordered H'" and syn': "heap_synced heap_index_of H' m"
    and fr: "index_erased m = index_erased (wh_tasks w)"
    using hx.heap_remove_ok [OF syn ord n(1), of k] n(2) by auto
  let ?w = "w\<lparr>wh_deadline_heap := H', wh_tasks := m\<rparr>"
  have sbh: "same_but_heap w ?w"
    using fr by (simp add: same_but_heap_def)
  have m: "bt_inv (sm_entries m)"
    using fr inv by (simp add: index_erased_def)
  have dist: "distinct (map dn_key ?H)"
    using syn by (simp add: heap_synced_def)
  have in': "x \<in> set H' \<longleftrightarrow> x \<in> set ?H \<and> dn_key x \<noteq> k" for x
  proof -
    have "distinct ?H"
      using dist distinct_map by blast
    then have "set H' = set ?H - {?n}"
      using ms by (metis mset_remove1 mset_eq_setD set_remove1_eq)
    moreover have nin: "?n \<in> set ?H"
      using nth_mem [OF n(1)] n(2) by simp
    moreover have "x = ?n" if "x \<in> set ?H" "dn_key x = k"
    proof (rule inj_onD [of dn_key "set ?H"])
      show "inj_on dn_key (set ?H)"
        using dist by (simp add: distinct_map)
    qed (use that nin in simp_all)
    moreover have "dn_key ?n = k"
      by simp
    ultimately show ?thesis
      by (metis (no_types) Diff_iff insert_iff empty_iff)
  qed
  have dl: "map_option we_deadline_tick (sm_get m k') = map_option we_deadline_tick (task w k')" for k'
    using same_but_heap_proj [OF sbh, of we_deadline_tick k'] by simp
  have "heap_ok (?w\<lparr>wh_tasks := sm_remove k m\<rparr>)"
    unfolding heap_ok_def
  proof (intro conjI allI)
    have "dn_key (H' ! i) \<noteq> k" if "i < length H'" for i
      using in' nth_mem [OF that] by blast
    then show "heap_synced heap_index_of (wh_deadline_heap (?w\<lparr>wh_tasks := sm_remove k m\<rparr>))
        (wh_tasks (?w\<lparr>wh_tasks := sm_remove k m\<rparr>))"
      using syn' m by (auto simp: heap_synced_def heap_index_of_def)
    fix k' d
    show "(\<lparr>dn_key = k', dn_deadline_tick = d\<rparr> \<in> set (wh_deadline_heap (?w\<lparr>wh_tasks := sm_remove k m\<rparr>)))
        = (map_option we_deadline_tick (task (?w\<lparr>wh_tasks := sm_remove k m\<rparr>) k') = Some d)"
      using heap m in' [of "\<lparr>dn_key = k', dn_deadline_tick = d\<rparr>"] dl [of k']
      by (cases "k' = k") (simp_all add: heap_ok_def)
  qed (use ord' in simp)
  with run sbh show ?thesis
    by (simp add: remove_deadline_def with_heap_def)
qed

section \<open>One timer\<close>

lemma lists_ok_remove:
  assumes "lists_ok w L X" "k \<in> X"
  shows "lists_ok (w\<lparr>wh_tasks := sm_remove k (wh_tasks w)\<rparr>) L (X - {k})"
proof (rule lists_okI)
  note D = lists_okD [OF assms(1)]
  let ?w = "w\<lparr>wh_tasks := sm_remove k (wh_tasks w)\<rparr>"
  have get: "task ?w k' = (if k' = k then None else task w k')" for k'
    using D(1) by simp
  have notin: "k \<notin> set (L l i)" for l i
    using D(8) [OF assms(2)] .
  show "segment (task ?w) l i None (L l i) None" for l i
    using D(5) [of l i] segment_cong [of "L l i" "task ?w" "task w"] notin get by metis
  show "task ?w k' \<noteq> None \<longleftrightarrow> k' \<in> X - {k} \<or> (\<exists>l i. k' \<in> set (L l i))" for k'
    using D(7) [of k'] notin D(1) by (cases "k' = k") auto
qed (use lists_okD [OF assms(1)] in auto)

text \<open>What a step on a loose timer leaves as it is: the other loose timers.\<close>

definition loose_same :: "u64 set \<Rightarrow> 'a wheel \<Rightarrow> 'a wheel \<Rightarrow> bool" where
  "loose_same X w w' \<longleftrightarrow>
     (\<forall>k \<in> X. map_option (\<lambda>e. e\<lparr>we_heap_index := 0\<rparr>) (task w' k) = map_option (\<lambda>e. e\<lparr>we_heap_index := 0\<rparr>) (task w k))"

lemma expire_ok:
  assumes st: "wheel_st w L X Todo" and k: "k \<in> X" "task w k = Some e"
  shows "\<exists>w'. expire_task k d w =
       (Inr \<lparr>ex_id = k, ex_item = we_item e, ex_deadline_tick = d\<rparr>, w')
     \<and> wheel_st w' L (X - {k}) Todo \<and> timers w' = (timers w)(k := None) \<and> same_clock w w'
     \<and> loose_same (X - {k}) w w'"
proof -
  note S = wheel_stD [OF st]
  obtain w1 where run: "remove_deadline k (we_heap_index e) w = (Inr (), w1)" and sbh: "same_but_heap w w1"
    and heap: "heap_ok (w1\<lparr>wh_tasks := sm_remove k (wh_tasks w1)\<rparr>)"
    using remove_deadline_ok [OF S(3,7) k(2)] by blast
  note H = same_but_heapD [OF sbh]
  have inv1: "tasks_ok w1"
    using H(1) S(7) by simp
  obtain e1 where e1: "task w1 k = Some e1" "we_item e1 = we_item e"
    using same_but_heap_proj [OF sbh, of we_item k] k(2) by auto
  let ?w = "w1\<lparr>wh_tasks := sm_remove k (wh_tasks w1)\<rparr>"
  have exec: "expire_task k d w = (Inr \<lparr>ex_id = k, ex_item = we_item e, ex_deadline_tick = d\<rparr>, ?w)"
    using k(2) run e1 by (simp add: expire_task_def task_get_def st_bind_run st_then_def)
  have clock: "same_clock w ?w"
    using H(2) by (simp add: same_clock_def)
  have get: "task ?w k' = (if k' = k then None else task w1 k')" for k'
    using inv1 by simp
  have timers: "timers ?w = (timers w)(k := None)"
    using same_but_heap_timers [OF sbh] get by (auto simp: fun_eq_iff timers_def)
  have lists: "lists_ok ?w L (X - {k})"
    using lists_ok_remove [OF same_but_heap_lists [OF sbh S(2)] k(1)] .
  have "placed ?w L Todo"
    by (rule placed_cong [OF clock _ lists_ok_level [OF S(2)] S(4)])
      (use inv1 same_but_heap_proj [OF sbh, of we_deadline_tick] in
        \<open>auto simp del: map_option_eq_Some split: if_splits\<close>)
  moreover have "dom (task ?w) \<subseteq> set (sm_issued (wh_tasks ?w))"
  proof -
    have "dom (task ?w) \<subseteq> dom (task w)"
      using timers timers_dom [of ?w] timers_dom [of w] by (auto split: if_splits)
    with S(6) H(2) show ?thesis
      by (simp add: same_clock_def)
  qed
  ultimately have "wheel_st ?w L (X - {k}) Todo"
    using S lists heap clock_ok_cong [OF clock] same_clock_levels [OF clock] by (simp add: wheel_st_def)
  moreover have "loose_same (X - {k}) w ?w"
    using H(3) get by (simp add: loose_same_def)
  ultimately show ?thesis
    using exec timers clock by blast
qed

lemma placed_put:
  assumes "placed w L Todo" "i = home w l (unat d)" "unat (wh_current_tick w) \<le> visit w l (unat d)"
    and "visit w l (unat d) = unat (wh_current_tick w) \<Longrightarrow> l \<in> Todo"
    and "map_option we_deadline_tick (task w k) = Some d" "ks = L l i @ [k]"
  shows "placed w (put_list l i ks L) Todo"
  using assms unfolding placed_def put_list_def by (auto split: if_splits)

text \<open>Linking needs the lists only; the heap may be behind.\<close>

definition wheel_ls :: "'a wheel \<Rightarrow> (nat \<Rightarrow> nat \<Rightarrow> u64 list) \<Rightarrow> u64 set \<Rightarrow> nat set \<Rightarrow> bool" where
  "wheel_ls w L X Todo \<longleftrightarrow>
     wf_levels (wh_levels w) \<and> lists_ok w L X \<and> placed w L Todo \<and> clock_ok w
     \<and> dom (task w) \<subseteq> set (sm_issued (wh_tasks w))"

lemma wheel_st_ls: "wheel_st w L X Todo \<longleftrightarrow> wheel_ls w L X Todo \<and> heap_ok w"
  by (auto simp: wheel_st_def wheel_ls_def)

lemma place_ls:
  assumes ls: "wheel_ls w L X Todo" and k: "k \<in> X" "task w k = Some e"
    and due: "unat (wh_current_tick w) \<le> unat (we_deadline_tick e)"
    and todo: "unat (wh_current_tick w) < unat (we_deadline_tick e) \<or> Todo = UNIV"
    and loc: "determine_location w (we_deadline_tick e) = (l, i)"
  shows "\<exists>w' L'. wheel_link k l i w = (Inr (), w') \<and> wheel_ls w' L' (X - {k}) Todo
     \<and> same_but_links w w' \<and> loose_same (X - {k}) w w'"
proof -
  have S: "wf_levels (wh_levels w)" "lists_ok w L X" "placed w L Todo" "clock_ok w"
      "dom (task w) \<subseteq> set (sm_issued (wh_tasks w))"
    using ls by (auto simp: wheel_ls_def)
  note loc = location_ok [OF S(1) loc due]
  let ?L = "put_list l i (L l i @ [k]) L"
  obtain w' where run: "wheel_link k l i w = (Inr (), w')" and lists: "lists_ok w' ?L (X - {k})"
    and sbl: "same_but_links w w'" and same: "\<forall>k' \<in> X - {k}. task w' k' = task w k'"
    using link_ok [OF S(2) k(1) loc(1)] by blast
  have clock: "same_clock w w'" and timers: "timers w' = timers w"
    using sbl same_but_links_clock same_but_links_timers by blast+
  have lev: "?L l' i' \<noteq> [] \<Longrightarrow> l' < length (wh_levels w)" for l' i'
    using lists_ok_level [OF S(2), of l' i'] loc(1) by (auto simp: put_list_def slot_exists_def split: if_splits)
  have "placed w ?L Todo"
    by (rule placed_put [OF S(3) loc(2,3), where k = k]) (use k(2) loc(4) todo in auto)
  then have "placed w' ?L Todo"
    by (rule placed_cong [OF clock _ lev, rotated -1]) (use timers in \<open>simp add: timers_deadline\<close>)
  moreover have "dom (task w') \<subseteq> set (sm_issued (wh_tasks w'))"
    using S(5) timers timers_dom [of w] timers_dom [of w'] clock by (simp add: same_clock_def)
  ultimately have "wheel_ls w' ?L (X - {k}) Todo"
    using S lists clock_ok_cong [OF clock] same_clock_levels [OF clock] by (simp add: wheel_ls_def)
  moreover have "loose_same (X - {k}) w w'"
    using same by (simp add: loose_same_def)
  ultimately show ?thesis
    using run sbl by blast
qed

lemma place_ok:
  assumes st: "wheel_st w L X Todo" and k: "k \<in> X" "task w k = Some e"
    and due: "unat (wh_current_tick w) \<le> unat (we_deadline_tick e)"
    and todo: "unat (wh_current_tick w) < unat (we_deadline_tick e) \<or> Todo = UNIV"
    and loc: "determine_location w (we_deadline_tick e) = (l, i)"
  shows "\<exists>w' L'. wheel_link k l i w = (Inr (), w') \<and> wheel_st w' L' (X - {k}) Todo
     \<and> timers w' = timers w \<and> same_clock w w' \<and> loose_same (X - {k}) w w'"
proof -
  obtain w' L' where w': "wheel_link k l i w = (Inr (), w')" "wheel_ls w' L' (X - {k}) Todo"
      "same_but_links w w'" "loose_same (X - {k}) w w'"
    using place_ls [OF st [unfolded wheel_st_ls, THEN conjunct1] k due todo loc] by blast
  then have "tasks_ok w'"
    using lists_okD(1) by (auto simp: wheel_ls_def)
  then have "heap_ok w'"
    using same_but_links_heap [OF w'(3)] wheel_stD(3,7) [OF st] by blast
  with w' show ?thesis
    using same_but_links_clock same_but_links_timers by (auto simp: wheel_st_ls)
qed

lemma lists_ok_loose:
  assumes "lists_ok w L X" "k \<in> X"
  shows "lists_ok (w\<lparr>wh_tasks := sm_set k e (wh_tasks w)\<rparr>) L X"
proof (rule lists_okI)
  note D = lists_okD [OF assms(1)]
  let ?w = "w\<lparr>wh_tasks := sm_set k e (wh_tasks w)\<rparr>"
  have notin: "k \<notin> set (L l i)" for l i
    using D(8) [OF assms(2)] .
  show "segment (task ?w) l i None (L l i) None" for l i
  proof (rule segment_cong [THEN iffD1, OF _ D(5)])
    show "task w k' = task ?w k'" if "k' \<in> set (L l i)" for k'
      using that notin [of l i] D(1) by auto
  qed
  show "task ?w k' \<noteq> None \<longleftrightarrow> k' \<in> X \<or> (\<exists>l i. k' \<in> set (L l i))" for k'
    using D(7) [of k'] assms(2) D(1) by (cases "k' = k") auto
qed (use lists_okD [OF assms(1)] in auto)

lemma detach_ok:
  assumes st: "wheel_st w L X Todo" and k: "k \<in> X" "task w k = Some e"
  shows "\<exists>w'. detach_entry k w = (Inr (), w') \<and> wheel_st w' L X Todo \<and> timers w' = timers w
     \<and> same_clock w w' \<and> loose_same (X - {k}) w w'"
proof -
  note S = wheel_stD [OF st]
  let ?e = "e\<lparr>we_prev := None, we_next := None\<rparr>"
  let ?w = "w\<lparr>wh_tasks := sm_set k ?e (wh_tasks w)\<rparr>"
  have sbl: "same_but_links w ?w"
    using same_but_links_task [OF S(7) k(2), of ?e] by simp
  note clock = same_but_links_clock [OF sbl] and timers = same_but_links_timers [OF sbl]
  have lists: "lists_ok ?w L X"
    using lists_ok_loose [OF S(2) k(1)] .
  have "placed ?w L Todo"
    by (rule placed_cong [OF clock _ lists_ok_level [OF S(2)] S(4)])
      (use timers in \<open>simp only: timers_deadline\<close>)
  moreover have "heap_ok ?w"
    using same_but_links_heap [OF sbl S(7) lists_okD(1) [OF lists] S(3)] .
  moreover have "dom (task ?w) \<subseteq> set (sm_issued (wh_tasks ?w))"
    using S(6) timers timers_dom [of w] timers_dom [of ?w] clock unfolding same_clock_def by metis
  ultimately have "wheel_st ?w L X Todo"
    using S lists clock_ok_cong [OF clock] same_clock_levels [OF clock] unfolding wheel_st_def by blast
  moreover have "loose_same (X - {k}) w ?w"
    using S(7) by (simp add: loose_same_def)
  ultimately show ?thesis
    using timers clock k(2) by (auto simp: detach_entry_def task_update_def)
qed

section \<open>A slot\<close>

text \<open>\<open>handed t w xs w'\<close>: the timers \<open>xs\<close> of \<open>w\<close>, all due at \<open>t\<close>, have been handed out, each once, and
  \<open>w'\<close> has the others.\<close>

definition handed :: "u64 \<Rightarrow> 'a wheel \<Rightarrow> 'a expired list \<Rightarrow> 'a wheel \<Rightarrow> bool" where
  "handed t w xs w' \<longleftrightarrow>
     distinct (map ex_id xs)
     \<and> (\<forall>x \<in> set xs. timers w (ex_id x) = Some (ex_item x, ex_deadline_tick x) \<and> ex_deadline_tick x \<le> t)
     \<and> timers w' = timers w |` (- ex_id ` set xs)"

lemma handed_none: "timers w' = timers w \<Longrightarrow> handed t w [] w'"
  by (auto simp: handed_def fun_eq_iff)

lemma handed_trans:
  assumes a: "handed t w xs w1" and b: "handed t' w1 ys w2" and le: "t \<le> t'"
  shows "handed t' w (xs @ ys) w2"
proof -
  have w1: "timers w1 = timers w |` (- ex_id ` set xs)"
    using a by (simp add: handed_def)
  have y1: "timers w1 (ex_id y) = Some (ex_item y, ex_deadline_tick y)" "ex_deadline_tick y \<le> t'" if "y \<in> set ys" for y
    using b that by (simp_all add: handed_def)
  have ys: "ex_id y \<notin> ex_id ` set xs" "timers w (ex_id y) = Some (ex_item y, ex_deadline_tick y)"
    if "y \<in> set ys" for y
    using y1(1) [OF that] unfolding w1 restrict_map_def by (auto split: if_splits)
  have xs: "timers w (ex_id x) = Some (ex_item x, ex_deadline_tick x)" "ex_deadline_tick x \<le> t'" if "x \<in> set xs" for x
    using a le that by (auto simp: handed_def intro: order_trans)
  have "ex_id ` set xs \<inter> ex_id ` set ys = {}"
  proof (rule equals0I)
    fix k
    assume k: "k \<in> ex_id ` set xs \<inter> ex_id ` set ys"
    then obtain y where y: "y \<in> set ys" "k = ex_id y"
      by blast
    with k ys(1) [OF y(1)] show False
      by simp
  qed
  then have "distinct (map ex_id (xs @ ys))"
    using a b by (simp add: handed_def)
  moreover have "timers w2 = timers w |` (- ex_id ` set (xs @ ys))"
    using b by (simp add: handed_def w1 image_Un)
  ultimately show ?thesis
    using xs ys y1(2) by (auto simp: handed_def)
qed

fun chain :: "(u64 \<Rightarrow> 'a wheel_entry option) \<Rightarrow> u64 list \<Rightarrow> bool" where
  "chain T [] \<longleftrightarrow> True"
| "chain T (k # ks) \<longleftrightarrow> map_option we_next (T k) = Some (hd_or None ks) \<and> chain T ks"

lemma segment_chain: "segment T l i p ks None \<Longrightarrow> chain T ks"
  by (induction ks arbitrary: p) auto

lemma loose_same_next:
  assumes "loose_same X w w'" "k \<in> X"
  shows "map_option we_next (task w' k) = map_option we_next (task w k)"
proof -
  have "map_option we_next (map_option (\<lambda>e. e\<lparr>we_heap_index := 0\<rparr>) (task w' k))
      = map_option we_next (map_option (\<lambda>e. e\<lparr>we_heap_index := 0\<rparr>) (task w k))"
    using assms by (simp add: loose_same_def)
  then show ?thesis
    by (simp add: option.map_comp comp_def)
qed

lemma chain_loose: "loose_same X w w' \<Longrightarrow> set ks \<subseteq> X \<Longrightarrow> chain (task w) ks \<Longrightarrow> chain (task w') ks"
  by (induction ks) (simp_all add: loose_same_next)

lemma process_loop_ok:
  assumes "wheel_st w L (set ks) Todo" "chain (task w) ks" "distinct ks" "length ks \<le> fuel"
  shows "\<exists>xs w' L'. process_loop fuel (hd_or None ks) exp w = Some (Inr (exp @ xs), w')
     \<and> wheel_st w' L' {} Todo \<and> same_clock w w' \<and> handed (wh_current_tick w) w xs w'"
  using assms
proof (induction ks arbitrary: fuel exp w L)
  case Nil
  then show ?case
    by (intro exI [of _ "[]"]) (auto simp: handed_none)
next
  case (Cons k ks)
  then obtain n where n: "fuel = Suc n" "length ks \<le> n"
    by (cases fuel) auto
  obtain e where e: "task w k = Some e" "we_next e = hd_or None ks"
    using Cons.prems(2) by auto
  have rest: "set (k # ks) - {k} = set ks"
    using Cons.prems(3) by auto
  obtain w1 where w1: "detach_entry k w = (Inr (), w1)" "wheel_st w1 L (set (k # ks)) Todo" "timers w1 = timers w"
      "same_clock w w1" "loose_same (set ks) w w1"
    using detach_ok [OF Cons.prems(1) _ e(1)] rest by auto
  have t1: "wh_current_tick w1 = wh_current_tick w"
    using w1(4) by (simp add: same_clock_def)
  obtain e1 where e1: "task w1 k = Some e1" "we_item e1 = we_item e" "we_deadline_tick e1 = we_deadline_tick e"
    using fun_cong [OF w1(3), of k] e(1) by (auto simp: timers_def)
  show ?case
  proof (cases "we_deadline_tick e \<le> wh_current_tick w")
    case True
    let ?x = "\<lparr>ex_id = k, ex_item = we_item e, ex_deadline_tick = we_deadline_tick e\<rparr>"
    obtain w2 where w2: "expire_task k (we_deadline_tick e) w1 = (Inr ?x, w2)" "wheel_st w2 L (set ks) Todo"
        "timers w2 = (timers w1)(k := None)" "same_clock w1 w2" "loose_same (set ks) w1 w2"
      using expire_ok [OF w1(2) _ e1(1), of "we_deadline_tick e"] rest e1(2) by auto
    have ch: "chain (task w2) ks"
      using chain_loose [OF w2(5)] chain_loose [OF w1(5)] Cons.prems(2) by auto
    obtain xs w' L' where IH: "process_loop n (hd_or None ks) (exp @ [?x]) w2 = Some (Inr ((exp @ [?x]) @ xs), w')"
        "wheel_st w' L' {} Todo" "same_clock w2 w'" "handed (wh_current_tick w2) w2 xs w'"
      using Cons.IH [OF w2(2) ch _ n(2), of "exp @ [?x]"] Cons.prems(3) by auto
    have one: "handed (wh_current_tick w) w [?x] w2"
      using True e(1) w1(3) w2(3) by (auto simp: handed_def timers_def restrict_map_def fun_eq_iff)
    have "handed (wh_current_tick w) w ([?x] @ xs) w'"
      using handed_trans [OF one IH(4)] t1 w2(4) by (simp add: same_clock_def)
    moreover have "process_loop fuel (hd_or None (k # ks)) exp w = Some (Inr (exp @ [?x] @ xs), w')"
      using n e w1(1) w2(1) IH(1) True t1 by simp
    moreover have "same_clock w w'"
      using w1(4) w2(4) IH(3) same_clock_trans by blast
    ultimately show ?thesis
      using IH(2) by blast
  next
    case False
    obtain l i where loc: "determine_location w1 (we_deadline_tick e) = (l, i)"
      by fastforce
    have late: "unat (wh_current_tick w1) < unat (we_deadline_tick e1)"
      using False t1 e1(3) by (simp add: word_le_nat_alt)
    obtain w2 L2 where w2: "wheel_link k l i w1 = (Inr (), w2)" "wheel_st w2 L2 (set ks) Todo"
        "timers w2 = timers w1" "same_clock w1 w2" "loose_same (set ks) w1 w2"
      using place_ok [OF w1(2) _ e1(1), of l i] rest loc late e1(3) by auto
    have ch: "chain (task w2) ks"
      using chain_loose [OF w2(5)] chain_loose [OF w1(5)] Cons.prems(2) by auto
    obtain xs w' L' where IH: "process_loop n (hd_or None ks) exp w2 = Some (Inr (exp @ xs), w')"
        "wheel_st w' L' {} Todo" "same_clock w2 w'" "handed (wh_current_tick w2) w2 xs w'"
      using Cons.IH [OF w2(2) ch _ n(2), of exp] Cons.prems(3) by auto
    have "handed (wh_current_tick w) w ([] @ xs) w'"
      using handed_trans [OF handed_none [of w2 w "wh_current_tick w"] IH(4)] w1(3) w2(3,4) t1
      by (simp add: same_clock_def)
    moreover have "process_loop fuel (hd_or None (k # ks)) exp w = Some (Inr (exp @ xs), w')"
      using n e w1(1) w2(1) IH(1) False t1 loc by simp
    moreover have "same_clock w w'"
      using w1(4) w2(4) IH(3) same_clock_trans by blast
    ultimately show ?thesis
      using IH(2) by auto
  qed
qed

lemma visit_now:
  assumes "visit w l d = t" "0 < unit_of w l"
  shows "t mod unit_of w l = 0" "home w l d = (t div unit_of w l) mod slots_of w l"
  using assms by (auto simp: visit_def home_def)

lemma placed_sub: "placed w L Todo \<Longrightarrow> (\<And>l i. l \<in> Todo \<Longrightarrow> L l i = [] \<or> l \<in> Todo') \<Longrightarrow> placed w L Todo'"
  unfolding placed_def by (metis empty_iff list.set(1))

lemma unit_pos: "wf_levels (wh_levels w) \<Longrightarrow> l < length (wh_levels w) \<Longrightarrow> 0 < unit_of w l"
  by (simp add: wf_levels_def)

text \<open>A level whose unit does not divide the tick has nothing to visit.\<close>

lemma skip_level:
  assumes st: "wheel_st w L X Todo" and l: "l < length (wh_levels w)"
    and no: "unat (wh_current_tick w) mod unit_of w l \<noteq> 0"
  shows "wheel_st w L X (Todo - {l})"
proof -
  note S = wheel_stD [OF st]
  have "visit w l d \<noteq> unat (wh_current_tick w)" for d
    using visit_now(1) [OF _ unit_pos [OF S(1) l], of d "unat (wh_current_tick w)"] no by metis
  then have "placed w L (Todo - {l})"
    using S(4) unfolding placed_def by (metis Diff_iff singletonD)
  with st show ?thesis
    by (simp add: wheel_st_def)
qed

text \<open>Taking the list out of the slot that the tick points at.\<close>

lemma take_slot:
  assumes st: "wheel_st w L {} Todo" and l: "l < length (wh_levels w)"
    and i: "i = (unat (wh_current_tick w) div unit_of w l) mod slots_of w l"
  shows "wheel_st (set_slot l i slot_empty w) (put_list l i [] L) (set (L l i)) (Todo - {l})"
proof -
  note S = wheel_stD [OF st]
  let ?w = "set_slot l i slot_empty w" and ?L = "put_list l i [] L"
  have ex: "slot_exists w l i"
    using home_exists [OF S(1) l] i by blast
  have lists: "lists_ok ?w ?L (set (L l i))"
    by (rule lists_ok_change [OF S(2) ex]) (use S(7) ex in \<open>auto simp: get_set_slot slot_holds_def slot_empty_def\<close>)
  have clock: "same_clock w ?w"
    by (simp add: same_clock_def)
  have "placed w ?L (Todo - {l})"
    unfolding placed_def
  proof (intro allI impI)
    fix l' i' k d
    assume k: "k \<in> set (?L l' i')" and d: "map_option we_deadline_tick (task w k) = Some d"
    then have k': "k \<in> set (L l' i')" and ne: "l' \<noteq> l \<or> i' \<noteq> i"
      by (auto simp: put_list_def split: if_splits)
    have P: "i' = home w l' (unat d)" "unat (wh_current_tick w) \<le> visit w l' (unat d)"
        "visit w l' (unat d) = unat (wh_current_tick w) \<Longrightarrow> l' \<in> Todo"
      using S(4) k' d unfolding placed_def by blast+
    have "l' \<noteq> l" if "visit w l' (unat d) = unat (wh_current_tick w)"
      using visit_now(2) [of w l "unat d", OF _ unit_pos [OF S(1) l]] that ne P(1) i by auto
    with P show "i' = home w l' (unat d) \<and> unat (wh_current_tick w) \<le> visit w l' (unat d) \<and>
        (visit w l' (unat d) = unat (wh_current_tick w) \<longrightarrow> l' \<in> Todo - {l})"
      by blast
  qed
  then have "placed ?w ?L (Todo - {l})"
    by (rule placed_cong [OF clock, rotated -1])
      (use lists_ok_level [OF S(2)] in \<open>auto simp: put_list_def split: if_splits\<close>)
  moreover have "heap_ok ?w"
    using S(3) by (simp add: heap_ok_def)
  ultimately show ?thesis
    using S lists clock_ok_cong [OF clock] same_clock_levels [OF clock] by (simp add: wheel_st_def)
qed

lemma keys_bounded:
  assumes "distinct ks" "\<And>k. k \<in> set ks \<Longrightarrow> sm_get m k \<noteq> None"
  shows "length ks \<le> length (sm_entries m)"
proof -
  have "set ks \<subseteq> set (map fst (sm_entries m))"
    using assms(2) by (auto simp: sm_get_def bt_get_def map_of_eq_None_iff)
  then have "card (set ks) \<le> card (set (map fst (sm_entries m)))"
    by (intro card_mono) auto
  also have "\<dots> \<le> length (sm_entries m)"
    using card_length [of "map fst (sm_entries m)"] by simp
  finally show ?thesis
    using assms(1) by (simp add: distinct_card)
qed

lemma process_slot_ok:
  assumes st: "wheel_st w L {} Todo" and l: "l < length (wh_levels w)"
    and i: "i = (unat (wh_current_tick w) div unit_of w l) mod slots_of w l"
  shows "\<exists>xs w' L'. process_slot l i exp w = Some (Inr (exp @ xs), w')
     \<and> wheel_st w' L' {} (Todo - {l}) \<and> same_clock w w' \<and> handed (wh_current_tick w) w xs w'"
proof -
  note S = wheel_stD [OF st] and D = lists_okD [OF wheel_stD(2) [OF st]]
  let ?w = "set_slot l i slot_empty w"
  have ex: "slot_exists w l i"
    using home_exists [OF S(1) l] i by blast
  have hd: "slot_head (get_slot w l i) = hd_or None (L l i)"
    using D(2) [OF ex] by (simp add: slot_holds_def)
  have "chain (task ?w) (L l i)"
    using segment_chain [OF D(5) [of l i]] by simp
  moreover have "length (L l i) \<le> length (sm_entries (wh_tasks w))"
    using keys_bounded [OF D(4) [of l i], of "wh_tasks w"] D(7) by blast
  ultimately obtain xs w' L' where
    "process_loop (length (sm_entries (wh_tasks w))) (hd_or None (L l i)) exp ?w = Some (Inr (exp @ xs), w')"
    "wheel_st w' L' {} (Todo - {l})" "same_clock ?w w'" "handed (wh_current_tick ?w) ?w xs w'"
    using process_loop_ok [OF take_slot [OF st l i] _ D(4) [of l i]] by blast
  moreover have "timers ?w = timers w" "same_clock w ?w"
    by (simp_all add: fun_eq_iff timers_def same_clock_def)
  ultimately have "process_slot l i exp w = Some (Inr (exp @ xs), w')" "wheel_st w' L' {} (Todo - {l})"
    "same_clock w w'" "handed (wh_current_tick w) w xs w'"
    using hd same_clock_trans by (auto simp: process_slot_def handed_def)
  then show ?thesis
    by blast
qed

section \<open>A tick\<close>

lemma same_clock_units:
  assumes "same_clock w w'" "l < length (wh_levels w)"
  shows "l < length (wh_levels w')" "lv_unit_ticks (wh_levels w' ! l) = lv_unit_ticks (wh_levels w ! l)"
proof -
  have len: "length (wh_levels w') = length (wh_levels w)"
    using assms(1) unfolding same_clock_def by (metis length_map)
  then show "l < length (wh_levels w')"
    using assms(2) by simp
  have "lv_shape (wh_levels w' ! l) = lv_shape (wh_levels w ! l)"
    using assms len unfolding same_clock_def by (metis nth_map)
  then show "lv_unit_ticks (wh_levels w' ! l) = lv_unit_ticks (wh_levels w ! l)"
    by (simp add: lv_shape_def)
qed

lemma cascade_levels_ok:
  assumes "wheel_st w L {} Todo" "\<And>l. l \<in> set ls \<Longrightarrow> l < length (wh_levels w)"
  shows "\<exists>xs w' L'. cascade_levels ls exp w = Some (Inr (exp @ xs), w')
     \<and> wheel_st w' L' {} (Todo - set ls) \<and> same_clock w w' \<and> handed (wh_current_tick w) w xs w'"
  using assms
proof (induction ls arbitrary: exp w L Todo)
  case Nil
  then show ?case
    by (intro exI [of _ "[]"]) (auto simp: handed_none)
next
  case (Cons l ls)
  have l: "l < length (wh_levels w)"
    using Cons.prems(2) by simp
  note wf = wheel_stD(1) [OF Cons.prems(1)]
  show ?case
  proof (cases "wh_current_tick w mod lv_unit_ticks (wh_levels w ! l) = 0")
    case True
    let ?i = "unat (wh_current_tick w div lv_unit_ticks (wh_levels w ! l)) AND lv_mask (wh_levels w ! l)"
    have "?i = (unat (wh_current_tick w) div unit_of w l) mod slots_of w l"
      using and_slot_mask [OF wf l] by (simp add: unat_div)
    from process_slot_ok [OF Cons.prems(1) l this] obtain xs w1 L1 where
      w1: "process_slot l ?i exp w = Some (Inr (exp @ xs), w1)" "wheel_st w1 L1 {} (Todo - {l})"
        "same_clock w w1" "handed (wh_current_tick w) w xs w1"
      by blast
    have "\<And>l'. l' \<in> set ls \<Longrightarrow> l' < length (wh_levels w1)"
      using Cons.prems(2) same_clock_units(1) [OF w1(3)] by auto
    from Cons.IH [OF w1(2) this, of "exp @ xs"] obtain ys w' L' where
      w': "cascade_levels ls (exp @ xs) w1 = Some (Inr ((exp @ xs) @ ys), w')"
        "wheel_st w' L' {} (Todo - {l} - set ls)" "same_clock w1 w'" "handed (wh_current_tick w1) w1 ys w'"
      by blast
    have t: "wh_current_tick w1 = wh_current_tick w"
      using w1(3) by (simp add: same_clock_def)
    have "handed (wh_current_tick w) w (xs @ ys) w'"
      using handed_trans [OF w1(4) w'(4)] t by simp
    moreover have "cascade_levels (l # ls) exp w = Some (Inr (exp @ xs @ ys), w')"
      using True w1(1) w'(1) by (simp add: Let_def)
    moreover have "Todo - {l} - set ls = Todo - set (l # ls)"
      by auto
    ultimately show ?thesis
      using w'(2) same_clock_trans [OF w1(3) w'(3)] by metis
  next
    case False
    have "unat (wh_current_tick w) mod unit_of w l \<noteq> 0"
      using False by (metis unat_mod unat_eq_zero)
    note st = skip_level [OF Cons.prems(1) l this]
    obtain ys w' L' where w': "cascade_levels ls exp w = Some (Inr (exp @ ys), w')"
        "wheel_st w' L' {} (Todo - {l} - set ls)" "same_clock w w'" "handed (wh_current_tick w) w ys w'"
      using Cons.IH [OF st, of exp] Cons.prems(2) by auto
    have "cascade_levels (l # ls) exp w = Some (Inr (exp @ ys), w')"
      using False w'(1) by (simp add: Let_def)
    moreover have "Todo - {l} - set ls = Todo - set (l # ls)"
      by auto
    ultimately show ?thesis
      using w' by metis
  qed
qed

lemma process_tick_ok:
  assumes st: "wheel_st w L {} UNIV"
  shows "\<exists>xs w' L'. process_tick exp w = Some (Inr (exp @ xs), w')
     \<and> wheel_st w' L' {} {} \<and> same_clock w w' \<and> handed (wh_current_tick w) w xs w'"
proof -
  obtain xs w1 L1 where w1: "cascade_at_current_tick exp w = Some (Inr (exp @ xs), w1)"
      "wheel_st w1 L1 {} (UNIV - set (rev [1 ..< length (wh_levels w)]))" "same_clock w w1"
      "handed (wh_current_tick w) w xs w1"
    using cascade_levels_ok [OF st, of "rev [1 ..< length (wh_levels w)]" exp]
    by (auto simp: cascade_at_current_tick_def)
  have wf: "wf_levels (wh_levels w1)"
    using wheel_stD(1) [OF w1(2)] .
  have len: "length (wh_levels w1) = length (wh_levels w)"
    using w1(3) unfolding same_clock_def by (metis length_map)
  have l: "0 < length (wh_levels w1)" and u: "unit_of w1 0 = 1"
    using wf by (auto simp: wf_levels_def)
  let ?i = "unat (wh_current_tick w1) AND lv_mask (wh_levels w1 ! 0)"
  have "?i = (unat (wh_current_tick w1) div unit_of w1 0) mod slots_of w1 0"
    using and_slot_mask [OF wf l] u by simp
  from process_slot_ok [OF w1(2) l this, of "exp @ xs"] obtain ys w' L' where
    w': "process_slot 0 ?i (exp @ xs) w1 = Some (Inr ((exp @ xs) @ ys), w')"
      "wheel_st w' L' {} (UNIV - set (rev [1 ..< length (wh_levels w)]) - {0})" "same_clock w1 w'"
      "handed (wh_current_tick w1) w1 ys w'"
    by blast
  have "placed w' L' {}"
  proof (rule placed_sub [OF wheel_stD(4) [OF w'(2)]])
    fix l i
    assume "l \<in> UNIV - set (rev [1 ..< length (wh_levels w)]) - {0}"
    then have "\<not> l < length (wh_levels w')"
      using len w'(3) unfolding same_clock_def by (metis DiffE One_nat_def Suc_leI UNIV_I atLeastLessThan_iff
          gr0I insertI1 length_map set_rev set_upt)
    then show "L' l i = [] \<or> l \<in> {}"
      using lists_ok_level [OF wheel_stD(2) [OF w'(2)], of l i] by blast
  qed
  then have "wheel_st w' L' {} {}"
    using w'(2) by (simp add: wheel_st_def)
  moreover have "handed (wh_current_tick w) w (xs @ ys) w'"
    using handed_trans [OF w1(4) w'(4)] w1(3) by (simp add: same_clock_def)
  moreover have "process_tick exp w = Some (Inr (exp @ xs @ ys), w')"
    using w1(1) w'(1) by (simp add: process_tick_def process_l0_slot_def)
  ultimately show ?thesis
    using same_clock_trans [OF w1(3) w'(3)] by blast
qed

text \<open>Everything but the clock and the timers.\<close>

definition same_config :: "'a wheel \<Rightarrow> 'a wheel \<Rightarrow> bool" where
  "same_config w w' \<longleftrightarrow>
     map lv_shape (wh_levels w') = map lv_shape (wh_levels w)
     \<and> wh_remainder_nanos w' = wh_remainder_nanos w \<and> wh_base_tick_nanos w' = wh_base_tick_nanos w
     \<and> sm_issued (wh_tasks w') = sm_issued (wh_tasks w)"

lemma same_clock_config: "same_clock w w' \<longleftrightarrow> same_config w w' \<and> wh_current_tick w' = wh_current_tick w"
  by (auto simp: same_clock_def same_config_def)

lemma same_config_trans: "same_config a b \<Longrightarrow> same_config b c \<Longrightarrow> same_config a c"
  by (simp add: same_config_def)

lemma next_tick:
  assumes st: "wheel_st w L {} {}" and lt: "unat (wh_current_tick w) + 1 < 2 ^ 64"
  shows "wheel_st (w\<lparr>wh_current_tick := wh_current_tick w + 1\<rparr>) L {} UNIV"
proof -
  let ?w = "w\<lparr>wh_current_tick := wh_current_tick w + 1\<rparr>"
  note S = wheel_stD [OF st]
  have t: "unat (wh_current_tick ?w) = unat (wh_current_tick w) + 1"
    using lt by (simp add: unat_word_ariths)
  have same: "home ?w = home w" "visit ?w = visit w"
    by (auto simp: fun_eq_iff home_def visit_def)
  have "placed ?w L UNIV"
    unfolding placed_def
  proof (intro allI impI)
    fix l i k d
    assume "k \<in> set (L l i)" "map_option we_deadline_tick (task ?w k) = Some d"
    then have "i = home w l (unat d)" "unat (wh_current_tick w) \<le> visit w l (unat d)"
        "visit w l (unat d) \<noteq> unat (wh_current_tick w)"
      using S(4) unfolding placed_def by auto
    then show "i = home ?w l (unat d) \<and> unat (wh_current_tick ?w) \<le> visit ?w l (unat d)
        \<and> (visit ?w l (unat d) = unat (wh_current_tick ?w) \<longrightarrow> l \<in> UNIV)"
      unfolding t same by simp
  qed
  moreover have "lists_ok ?w L {}"
    by (rule lists_ok_links [OF S(2)]) (use S(7) in \<open>auto simp: get_slot_def slot_exists_def\<close>)
  moreover have "heap_ok ?w" "clock_ok ?w"
    using S(3,5) by (simp_all add: heap_ok_def clock_ok_def)
  ultimately show ?thesis
    using S by (simp add: wheel_st_def)
qed

lemma same_but_heap_ls:
  assumes ls: "wheel_ls w L X Todo" and sbh: "same_but_heap w w'"
  shows "wheel_ls w' L X Todo"
  unfolding wheel_ls_def
proof (intro conjI)
  have P: "wf_levels (wh_levels w)" "lists_ok w L X" "placed w L Todo" "clock_ok w"
      "dom (task w) \<subseteq> set (sm_issued (wh_tasks w))"
    using ls by (auto simp: wheel_ls_def)
  note H = same_but_heapD [OF sbh]
  show "wf_levels (wh_levels w')" "clock_ok w'" "lists_ok w' L X"
    using P same_clock_levels [OF H(2)] clock_ok_cong [OF H(2)] same_but_heap_lists [OF sbh] by auto
  show "placed w' L Todo"
    by (rule placed_cong [OF H(2) _ lists_ok_level [OF P(2)] P(3)])
      (use same_but_heap_proj [OF sbh, of we_deadline_tick] in simp)
  show "dom (task w') \<subseteq> set (sm_issued (wh_tasks w'))"
    using P(5) H(2) same_but_heap_timers [OF sbh] timers_dom [of w] timers_dom [of w']
    by (simp add: same_clock_def)
qed

text \<open>A fresh timer in the map is loose.\<close>

lemma new_task_ls:
  assumes ls: "wheel_ls w L {} UNIV" and fresh: "task w k = None"
    and w1: "w1 = w\<lparr>wh_tasks := \<lparr>sm_entries = bt_insert k e (sm_entries (wh_tasks w)),
        sm_issued = k # sm_issued (wh_tasks w)\<rparr>\<rparr>"
  shows "wheel_ls w1 L {k} UNIV" "\<And>k'. task w1 k' = (if k' = k then Some e else task w k')"
proof -
  have S: "wf_levels (wh_levels w)" "lists_ok w L {}" "placed w L UNIV" "clock_ok w"
      "dom (task w) \<subseteq> set (sm_issued (wh_tasks w))"
    using ls by (auto simp: wheel_ls_def)
  note D = lists_okD [OF S(2)]
  show get: "task w1 k' = (if k' = k then Some e else task w k')" for k'
    using D(1) by (simp add: w1 sm_get_def bt.get_insert)
  have inv1: "tasks_ok w1"
    using D(1) by (simp add: w1 bt.inv_insert)
  have k: "k \<notin> set (L l i)" for l i
    using D(7) [of k] fresh by blast
  have lists: "lists_ok w1 L {k}"
  proof (rule lists_okI)
    show "segment (task w1) l i None (L l i) None" for l i
    proof (rule segment_cong [THEN iffD1, OF _ D(5)])
      show "task w k' = task w1 k'" if "k' \<in> set (L l i)" for k'
        using that k [of l i] get [of k'] by auto
    qed
    show "task w1 k' \<noteq> None \<longleftrightarrow> k' \<in> {k} \<or> (\<exists>l i. k' \<in> set (L l i))" for k'
      using D(7) [of k'] get [of k'] by auto
    show "k' \<notin> set (L l i)" if "k' \<in> {k}" for k' l i
      using that k by simp
  qed (use D inv1 in \<open>auto simp: w1 slot_exists_def get_slot_def\<close>)
  have "placed w1 L UNIV"
    unfolding placed_def
  proof (intro allI impI)
    fix l i k' d'
    assume k': "k' \<in> set (L l i)" and "map_option we_deadline_tick (task w1 k') = Some d'"
    moreover have "k' \<noteq> k"
      using k' k by auto
    ultimately have "map_option we_deadline_tick (task w k') = Some d'"
      using get [of k'] by simp
    with S(3) k' show "i = home w1 l (unat d') \<and> unat (wh_current_tick w1) \<le> visit w1 l (unat d') \<and>
        (visit w1 l (unat d') = unat (wh_current_tick w1) \<longrightarrow> l \<in> UNIV)"
      by (auto simp: placed_def w1 home_def visit_def)
  qed
  moreover have "dom (task w1) \<subseteq> set (sm_issued (wh_tasks w1))"
  proof
    fix x
    assume "x \<in> dom (task w1)"
    then have "x = k \<or> x \<in> dom (task w)"
      using get [of x] by (cases "x = k") (simp_all add: domIff)
    then show "x \<in> set (sm_issued (wh_tasks w1))"
      using S(5) by (auto simp: w1)
  qed
  ultimately show "wheel_ls w1 L {k} UNIV"
    using S lists by (simp add: wheel_ls_def w1 clock_ok_def)
qed

end
