(* ===== verification/Wheel_Properties.thy ===== *)
theory Wheel_Properties
  imports Wheel_Correct
begin

text \<open>
  The operations of the timing wheel against the set of timers they implement: a new wheel is empty,
  \<open>insert\<close>, \<open>cancel\<close> and \<open>reschedule\<close> change one timer, \<open>advance_by\<close> hands out exactly the timers due,
  \<open>next_deadline\<close> is the time until the earliest one.
\<close>

section \<open>Advancing\<close>

lemma timers_frame [simp]:
  "timers (w\<lparr>wh_current_tick := t\<rparr>) = timers w"
  "timers (w\<lparr>wh_levels := ls\<rparr>) = timers w"
  "timers (w\<lparr>wh_levels := ls, wh_current_tick := t\<rparr>) = timers w"
  "timers (w\<lparr>wh_remainder_nanos := r\<rparr>) = timers w"
  by (simp_all add: fun_eq_iff timers_def)

lemma step_ticks_ok:
  assumes "wheel_st w L {} {}" "unat (wh_current_tick w) + n < 2 ^ 64"
  shows "\<exists>xs w' L'. step_ticks n exp w = Some (Inr (exp @ xs), w')
     \<and> wheel_st w' L' {} {} \<and> same_config w w' \<and> wh_current_tick w' = wh_current_tick w + of_nat n
     \<and> handed (wh_current_tick w') w xs w'"
  using assms
proof (induction n arbitrary: exp w L)
  case 0
  then show ?case
    by (intro exI [of _ "[]"]) (auto simp: handed_none same_config_def)
next
  case (Suc n)
  let ?w = "w\<lparr>wh_current_tick := wh_current_tick w + 1\<rparr>"
  have t: "unat (wh_current_tick ?w) = unat (wh_current_tick w) + 1"
    using Suc.prems(2) by (simp add: unat_word_ariths)
  have "wheel_st ?w L {} UNIV"
    using next_tick [OF Suc.prems(1)] Suc.prems(2) by simp
  from process_tick_ok [OF this, of exp] obtain xs w1 L1 where
    w1: "process_tick exp ?w = Some (Inr (exp @ xs), w1)" "wheel_st w1 L1 {} {}" "same_clock ?w w1"
      "handed (wh_current_tick ?w) ?w xs w1"
    by blast
  have t1: "wh_current_tick w1 = wh_current_tick w + 1"
    using w1(3) by (simp add: same_clock_def)
  then have "unat (wh_current_tick w1) + n < 2 ^ 64"
    using t Suc.prems(2) by simp
  from Suc.IH [OF w1(2) this, of "exp @ xs"] obtain ys w' L' where
    w': "step_ticks n (exp @ xs) w1 = Some (Inr ((exp @ xs) @ ys), w')" "wheel_st w' L' {} {}" "same_config w1 w'"
      "wh_current_tick w' = wh_current_tick w1 + of_nat n" "handed (wh_current_tick w') w1 ys w'"
    by blast
  have tick: "wh_current_tick w' = wh_current_tick w + of_nat (Suc n)"
    using w'(4) t1 by simp
  have "unat (wh_current_tick w') = unat (wh_current_tick w) + Suc n"
    unfolding tick using Suc.prems(2) by (simp add: unat_word_ariths unat_of_nat_small del: of_nat_Suc)
  then have le: "wh_current_tick ?w \<le> wh_current_tick w'"
    using t by (simp add: word_le_nat_alt)
  have "handed (wh_current_tick w') ?w (xs @ ys) w'"
    by (rule handed_trans [OF w1(4) w'(5) le])
  then have "handed (wh_current_tick w') w (xs @ ys) w'"
    by (simp add: handed_def)
  moreover have "step_ticks (Suc n) exp w = Some (Inr (exp @ xs @ ys), w')"
    using w1(1) w'(1) by simp
  moreover have "same_config w w'"
    using w1(3) w'(3) by (auto simp: same_clock_config same_config_def)
  ultimately show ?case
    using w'(2) tick by blast
qed

lemma fast_forward_loop_ok:
  assumes "wheel_st w L (set ks) {}" "distinct ks"
  shows "\<exists>xs w' L'. fast_forward_loop ks (wh_current_tick w) exp w = (Inr (exp @ xs), w')
     \<and> wheel_st w' L' {} {} \<and> same_clock w w' \<and> handed (wh_current_tick w) w xs w'"
  using assms
proof (induction ks arbitrary: exp w L)
  case Nil
  then show ?case
    by (intro exI [of _ "[]"]) (auto simp: handed_none)
next
  case (Cons k ks)
  have rest: "set (k # ks) - {k} = set ks"
    using Cons.prems(2) by auto
  obtain e where e: "task w k = Some e"
    using lists_okD(7) [OF wheel_stD(2) [OF Cons.prems(1)], of k] by auto
  show ?case
  proof (cases "we_deadline_tick e \<le> wh_current_tick w")
    case True
    let ?x = "\<lparr>ex_id = k, ex_item = we_item e, ex_deadline_tick = we_deadline_tick e\<rparr>"
    obtain w1 where w1: "expire_task k (we_deadline_tick e) w = (Inr ?x, w1)" "wheel_st w1 L (set ks) {}"
        "timers w1 = (timers w)(k := None)" "same_clock w w1"
      using expire_ok [OF Cons.prems(1) _ e, of "we_deadline_tick e"] rest by auto
    have t: "wh_current_tick w1 = wh_current_tick w"
      using w1(4) by (simp add: same_clock_def)
    obtain xs w' L' where IH: "fast_forward_loop ks (wh_current_tick w) (exp @ [?x]) w1 = (Inr ((exp @ [?x]) @ xs), w')"
        "wheel_st w' L' {} {}" "same_clock w1 w'" "handed (wh_current_tick w) w1 xs w'"
      using Cons.IH [OF w1(2), of "exp @ [?x]"] Cons.prems(2) t by auto
    have one: "handed (wh_current_tick w) w [?x] w1"
      using True e w1(3) by (auto simp: handed_def timers_def restrict_map_def fun_eq_iff)
    have "handed (wh_current_tick w) w ([?x] @ xs) w'"
      by (rule handed_trans [OF one IH(4)]) simp
    moreover have "fast_forward_loop (k # ks) (wh_current_tick w) exp w = (Inr (exp @ [?x] @ xs), w')"
      using e w1(1) IH(1) True by simp
    ultimately show ?thesis
      using IH(2) same_clock_trans [OF w1(4) IH(3)] by blast
  next
    case False
    obtain l i where loc: "determine_location w (we_deadline_tick e) = (l, i)"
      by fastforce
    have late: "unat (wh_current_tick w) < unat (we_deadline_tick e)"
      using False by (simp add: word_le_nat_alt)
    obtain w1 L1 where w1: "wheel_link k l i w = (Inr (), w1)" "wheel_st w1 L1 (set ks) {}"
        "timers w1 = timers w" "same_clock w w1"
      using place_ok [OF Cons.prems(1) _ e, of l i] rest loc late by auto
    have t: "wh_current_tick w1 = wh_current_tick w"
      using w1(4) by (simp add: same_clock_def)
    obtain xs w' L' where IH: "fast_forward_loop ks (wh_current_tick w) exp w1 = (Inr (exp @ xs), w')"
        "wheel_st w' L' {} {}" "same_clock w1 w'" "handed (wh_current_tick w) w1 xs w'"
      using Cons.IH [OF w1(2), of exp] Cons.prems(2) t by auto
    have "handed (wh_current_tick w) w ([] @ xs) w'"
      by (rule handed_trans [OF handed_none [of w1 w "wh_current_tick w"] IH(4)]) (use w1(3) in simp_all)
    moreover have "fast_forward_loop (k # ks) (wh_current_tick w) exp w = (Inr (exp @ xs), w')"
      using e w1(1) IH(1) False loc by simp
    ultimately show ?thesis
      using IH(2) same_clock_trans [OF w1(4) IH(3)] by auto
  qed
qed

text \<open>With every slot emptied, all timers are loose.\<close>

lemma clear_slots_shape [simp]: "lv_shape (clear_slots l) = lv_shape l"
  by (simp add: lv_shape_def clear_slots_def)

lemma cleared_ok:
  assumes st: "wheel_st w L {} Todo" and w': "w' = w\<lparr>wh_levels := map clear_slots (wh_levels w), wh_current_tick := t\<rparr>"
  shows "wheel_st w' (\<lambda>_ _. []) (dom (task w)) {}"
proof -
  note S = wheel_stD [OF st]
  have sh: "map lv_shape (wh_levels w') = map lv_shape (wh_levels w)"
    using w' by simp
  have "lists_ok w' (\<lambda>_ _. []) (dom (task w))"
  proof (rule lists_okI)
    show "slot_holds (get_slot w' l i) []" if "slot_exists w' l i" for l i
      using that w' by (auto simp: get_slot_def slot_exists_def clear_slots_def slot_holds_def slot_empty_def)
    show "task w' k \<noteq> None \<longleftrightarrow> k \<in> dom (task w) \<or> (\<exists>l i. k \<in> set ([] :: u64 list))" for k
      using w' by auto
  qed (use S(7) w' in auto)
  moreover have "heap_ok w'" "clock_ok w'"
    using S(3,5) w' by (simp_all add: heap_ok_def clock_ok_def)
  moreover have "placed w' (\<lambda>_ _. []) {}"
    by (simp add: placed_def)
  ultimately show ?thesis
    using S(1,6) wf_levels_shape [OF sh] w' by (simp add: wheel_st_def)
qed

lemma sm_keys_set:
  assumes "slotmap_laws api" "bt_inv (sm_entries m)"
  shows "distinct (sm_keys api m)" "set (sm_keys api m) = dom (sm_get m)"
proof -
  have "distinct (bt_keys (sm_entries m))"
    using bt_inv_distinct [OF assms(2)] by (simp add: bt_keys_def)
  then have "distinct (sm_keys api m) \<and> set (sm_keys api m) = set (bt_keys (sm_entries m))"
    using assms(1) unfolding slotmap_laws_def sm_keys_def by blast
  moreover have "set (bt_keys (sm_entries m)) = dom (sm_get m)"
    unfolding bt_keys_def sm_get_def bt_get_def by (simp add: dom_map_of_conv_image_fst)
  ultimately show "distinct (sm_keys api m)" "set (sm_keys api m) = dom (sm_get m)"
    by auto
qed

lemma fast_forward_ok:
  assumes st: "wheel_st w L {} Todo" and api: "slotmap_laws api"
  shows "\<exists>xs w' L'. fast_forward api t exp w = (Inr (exp @ xs), w')
     \<and> wheel_st w' L' {} {} \<and> same_config w w' \<and> wh_current_tick w' = t \<and> handed t w xs w'"
proof -
  let ?w = "w\<lparr>wh_levels := map clear_slots (wh_levels w), wh_current_tick := t\<rparr>"
  note keys = sm_keys_set [OF api wheel_stD(7) [OF st]]
  have st0: "wheel_st ?w (\<lambda>_ _. []) (set (sm_keys api (wh_tasks w))) {}"
    using cleared_ok [OF st refl] keys(2) by simp
  obtain xs w' L' where w': "fast_forward_loop (sm_keys api (wh_tasks w)) t exp ?w = (Inr (exp @ xs), w')"
      "wheel_st w' L' {} {}" "same_clock ?w w'" "handed t ?w xs w'"
    using fast_forward_loop_ok [OF st0 keys(1), of exp] by auto
  have "fast_forward api t exp w = (Inr (exp @ xs), w')"
    using w'(1) by (simp add: fast_forward_def Let_def)
  moreover have "same_config w w'" "wh_current_tick w' = t"
    using w'(3) by (simp_all add: same_clock_def same_config_def)
  moreover have "handed t w xs w'"
    using w'(4) by (simp add: handed_def)
  ultimately show ?thesis
    using w'(2) by blast
qed

text \<open>The timers that remain are due later than the clock.\<close>

lemma remaining_late:
  assumes st: "wheel_st w L {} {}" and k: "timers w k = Some (a, d)"
  shows "wh_current_tick w < d"
proof -
  note S = wheel_stD [OF st]
  have d: "map_option we_deadline_tick (task w k) = Some d"
    using k timers_deadline [of w k] by simp
  then obtain l i where "k \<in> set (L l i)"
    using lists_okD(7) [OF S(2), of k] by auto
  then have "unat (wh_current_tick w) \<le> visit w l (unat d)" "visit w l (unat d) \<noteq> unat (wh_current_tick w)"
    using S(4) d unfolding placed_def by auto
  then show ?thesis
    using visit_le [of w l "unat d"] by (simp add: word_less_nat_alt)
qed

text \<open>What was handed out is then exactly what was due.\<close>

lemma handed_all:
  assumes h: "handed t w xs w'" and late: "\<And>k a d. timers w' k = Some (a, d) \<Longrightarrow> t < d"
  shows "set xs = {x. timers w (ex_id x) = Some (ex_item x, ex_deadline_tick x) \<and> ex_deadline_tick x \<le> t}"
    and "timers w' k = (case timers w k of None \<Rightarrow> None | Some (a, d) \<Rightarrow> if d \<le> t then None else Some (a, d))"
proof -
  have in_xs: "timers w (ex_id x) = Some (ex_item x, ex_deadline_tick x)" "ex_deadline_tick x \<le> t" if "x \<in> set xs" for x
    using h that by (auto simp: handed_def)
  have w': "timers w' k = (if k \<in> ex_id ` set xs then None else timers w k)" for k
    using h by (simp add: handed_def restrict_map_def)
  have due: "k \<in> ex_id ` set xs" if "timers w k = Some (a, d)" "d \<le> t" for k a d
  proof (rule ccontr)
    assume "k \<notin> ex_id ` set xs"
    then have "timers w' k = Some (a, d)"
      using that w' [of k] by simp
    from late [OF this] that(2) show False
      by simp
  qed
  have mem: "x \<in> set xs" if x: "timers w (ex_id x) = Some (ex_item x, ex_deadline_tick x)" "ex_deadline_tick x \<le> t"
    for x :: "'a expired"
  proof -
    obtain y where y: "y \<in> set xs" "ex_id y = ex_id x"
      using due [OF x] by fastforce
    then have "y = x"
      using in_xs(1) [OF y(1)] x(1) by (intro expired.equality) simp_all
    with y show ?thesis
      by simp
  qed
  then show "set xs = {x. timers w (ex_id x) = Some (ex_item x, ex_deadline_tick x) \<and> ex_deadline_tick x \<le> t}"
    using in_xs by blast
  show "timers w' k = (case timers w k of None \<Rightarrow> None | Some (a, d) \<Rightarrow> if d \<le> t then None else Some (a, d))"
  proof (cases "timers w k")
    case (Some p)
    obtain a d where p: "p = (a, d)"
      by fastforce
    show ?thesis
    proof (cases "d \<le> t")
      case True
      then show ?thesis
        using due [of k a d] Some p w' [of k] by simp
    next
      case False
      then have "k \<notin> ex_id ` set xs"
        using in_xs Some p by auto
      with False Some p w' [of k] show ?thesis
        by simp
    qed
  qed (use w' [of k] in simp)
qed

lemma set_remainder:
  assumes "wheel_st w L X Todo" "r < wh_base_tick_nanos w"
  shows "wheel_st (w\<lparr>wh_remainder_nanos := r\<rparr>) L X Todo"
proof -
  note S = wheel_stD [OF assms(1)]
  let ?w = "w\<lparr>wh_remainder_nanos := r\<rparr>"
  have "lists_ok ?w L X"
    by (rule lists_ok_links [OF S(2)]) (use S(7) in \<open>auto simp: get_slot_def slot_exists_def\<close>)
  moreover have "home ?w = home w" "visit ?w = visit w"
    by (auto simp: fun_eq_iff home_def visit_def)
  ultimately show ?thesis
    using S assms(2) by (simp add: wheel_st_def heap_ok_def placed_def clock_ok_def)
qed

lemma advance_ok:
  assumes inv: "wheel_inv w" and api: "slotmap_laws api"
    and target: "unat (wh_current_tick w) + (unat (wh_remainder_nanos w) + elapsed) div unat (wh_base_tick_nanos w) < 2 ^ 64"
    and nanos: "unat (wh_remainder_nanos w) + elapsed < 2 ^ 64"
  shows "\<exists>xs w' L. wheel_advance_by api elapsed out w =
       Some (Inr (\<lparr>ar_elapsed_ticks = of_nat ((unat (wh_remainder_nanos w) + elapsed) div unat (wh_base_tick_nanos w)),
           ar_expired_count = length xs,
           ar_fast_forwarded = ((unat (wh_remainder_nanos w) + elapsed) div unat (wh_base_tick_nanos w) > 4096)\<rparr>,
         out @ xs), w')
     \<and> wheel_st w' L {} {} \<and> handed (wh_current_tick w') w xs w'
     \<and> unat (wh_current_tick w') = unat (wh_current_tick w) + (unat (wh_remainder_nanos w) + elapsed) div unat (wh_base_tick_nanos w)
     \<and> unat (wh_remainder_nanos w') = (unat (wh_remainder_nanos w) + elapsed) mod unat (wh_base_tick_nanos w)
     \<and> wh_base_tick_nanos w' = wh_base_tick_nanos w"
proof -
  obtain L where st: "wheel_st w L {} UNIV"
    using inv by (auto simp: wheel_inv_def)
  let ?n = "unat (wh_remainder_nanos w) + elapsed" and ?b = "unat (wh_base_tick_nanos w)"
  let ?tot = "wh_remainder_nanos w + of_nat elapsed"
  let ?ticks = "?tot div wh_base_tick_nanos w" and ?r = "?tot mod wh_base_tick_nanos w"
  have b: "0 < ?b"
    using wheel_stD(5) [OF st] by (simp add: clock_ok_def word_less_nat_alt)
  have e: "unat (of_nat elapsed :: u64) = elapsed"
    using nanos by (simp add: unat_of_nat_small)
  have tot: "unat ?tot = ?n"
    using nanos e by (simp add: unat_word_ariths)
  have ticks: "unat ?ticks = ?n div ?b" and r: "unat ?r = ?n mod ?b"
    using tot by (simp_all add: unat_div unat_mod)
  have ticks_of: "?ticks = of_nat (?n div ?b)"
    by (simp only: word_arith_nat_div tot)
  have c1: "checked_add (wh_remainder_nanos w) (of_nat elapsed) = Some ?tot"
    and c2: "checked_add (wh_current_tick w) ?ticks = Some (wh_current_tick w + ?ticks)"
    using nanos target e ticks by (simp_all add: checked_add_def)
  have goal_tick: "unat (wh_current_tick w + ?ticks) = unat (wh_current_tick w) + ?n div ?b"
    using target ticks by (simp add: unat_word_ariths)
  let ?w = "w\<lparr>wh_remainder_nanos := ?r\<rparr>"
  have "?r < wh_base_tick_nanos w"
    using r b by (simp add: word_less_nat_alt)
  note st0 = set_remainder [OF st this]
  define res where "res = (if unat ?ticks > SMALL_ADVANCE_LIMIT then Some (fast_forward api (wh_current_tick w + ?ticks) out ?w)
      else case process_tick out ?w of
          None \<Rightarrow> None
        | Some (Inl e, w) \<Rightarrow> Some (Inl e, w)
        | Some (Inr expired, w) \<Rightarrow> step_ticks (unat ?ticks) expired w)"
  have "\<exists>xs w' L'. res = Some (Inr (out @ xs), w') \<and> wheel_st w' L' {} {} \<and> same_config ?w w'
      \<and> wh_current_tick w' = wh_current_tick w + ?ticks \<and> handed (wh_current_tick w') ?w xs w'"
  proof (cases "unat ?ticks > SMALL_ADVANCE_LIMIT")
    case True
    then show ?thesis
      using fast_forward_ok [OF st0 api, of "wh_current_tick w + ?ticks" out] by (auto simp: res_def)
  next
    case False
    obtain xs w1 L1 where w1: "process_tick out ?w = Some (Inr (out @ xs), w1)" "wheel_st w1 L1 {} {}" "same_clock ?w w1"
        "handed (wh_current_tick ?w) ?w xs w1"
      using process_tick_ok [OF st0, of out] by blast
    have t1: "wh_current_tick w1 = wh_current_tick w"
      using w1(3) by (simp add: same_clock_def)
    then have "unat (wh_current_tick w1) + unat ?ticks < 2 ^ 64"
      using target ticks by simp
    from step_ticks_ok [OF w1(2) this, of "out @ xs"] obtain ys w' L' where
      w': "step_ticks (unat ?ticks) (out @ xs) w1 = Some (Inr ((out @ xs) @ ys), w')" "wheel_st w' L' {} {}"
        "same_config w1 w'" "wh_current_tick w' = wh_current_tick w1 + of_nat (unat ?ticks)"
        "handed (wh_current_tick w') w1 ys w'"
      by blast
    have tick: "wh_current_tick w' = wh_current_tick w + ?ticks"
      using w'(4) t1 by simp
    have "wh_current_tick ?w \<le> wh_current_tick w'"
      unfolding tick using goal_tick by (simp add: word_le_nat_alt)
    from handed_trans [OF w1(4) w'(5) this] have "handed (wh_current_tick w') ?w (xs @ ys) w'" .
    moreover have "res = Some (Inr (out @ xs @ ys), w')"
      using False w1(1) w'(1) by (simp add: res_def)
    moreover have "same_config ?w w'"
      using w1(3) w'(3) same_config_trans by (auto simp: same_clock_config)
    ultimately show ?thesis
      using w'(2) tick by blast
  qed
  then obtain xs w' L' where res: "res = Some (Inr (out @ xs), w')" "wheel_st w' L' {} {}" "same_config ?w w'"
      "wh_current_tick w' = wh_current_tick w + ?ticks" "handed (wh_current_tick w') ?w xs w'"
    by blast
  have "elapsed < 2 ^ 64"
    using nanos by simp
  then have "wheel_advance_by api elapsed out w = Some (Inr (\<lparr>ar_elapsed_ticks = ?ticks,
      ar_expired_count = length xs, ar_fast_forwarded = (unat ?ticks > SMALL_ADVANCE_LIMIT)\<rparr>, out @ xs), w')"
    using res(1) unfolding wheel_advance_by_def Let_def c1 option.case c2 res_def [symmetric] by simp
  moreover have "handed (wh_current_tick w') w xs w'"
    using res(5) by (simp add: handed_def)
  moreover have "unat (wh_remainder_nanos w') = ?n mod ?b" "wh_base_tick_nanos w' = wh_base_tick_nanos w"
    using res(3) r by (simp_all add: same_config_def)
  ultimately show ?thesis
    using res(2,4) goal_tick ticks ticks_of by (auto simp: SMALL_ADVANCE_LIMIT_def)
qed

section \<open>Single timers\<close>

text \<open>A timer is never due early: in nanoseconds, its deadline lies at or after the requested delay and
  less than one tick later.\<close>

lemma deadline_after_ok:
  assumes "deadline_after w delay = Inr d" "clock_ok w"
  shows "unat (wh_current_tick w) \<le> unat d"
    and "0 < delay \<Longrightarrow> unat (wh_remainder_nanos w) + delay
        \<le> (unat d - unat (wh_current_tick w)) * unat (wh_base_tick_nanos w)"
    and "0 < delay \<Longrightarrow> (unat d - unat (wh_current_tick w)) * unat (wh_base_tick_nanos w)
        < unat (wh_remainder_nanos w) + delay + unat (wh_base_tick_nanos w)"
proof -
  let ?b = "unat (wh_base_tick_nanos w)" and ?o = "delay + unat (wh_remainder_nanos w)"
  have b: "0 < ?b"
    using assms(2) by (simp add: clock_ok_def word_less_nat_alt)
  obtain ticks where t: "checked_add (wh_current_tick w) ticks = Some d"
    and ticks: "unat ticks = (if delay = 0 then 0 else (?o + (?b - 1)) div ?b)"
    using assms(1) by (auto simp: deadline_after_def Let_def result_simps unat_of_nat_small split: if_splits)
  have d: "unat d = unat (wh_current_tick w) + unat ticks"
    using unat_checked_add [OF t] .
  then show "unat (wh_current_tick w) \<le> unat d"
    by simp
  have up: "?o \<le> (?o + (?b - 1)) div ?b * ?b" "(?o + (?b - 1)) div ?b * ?b < ?o + ?b"
  proof -
    have "?o + (?b - 1) < (?o + (?b - 1)) div ?b * ?b + ?b"
      using dividend_less_div_times [OF b, of "?o + (?b - 1)"] by (simp add: add.commute)
    then show "?o \<le> (?o + (?b - 1)) div ?b * ?b"
      using b by linarith
    have "(?o + (?b - 1)) div ?b * ?b \<le> ?o + (?b - 1)"
      by simp
    then show "(?o + (?b - 1)) div ?b * ?b < ?o + ?b"
      using b by linarith
  qed
  show "0 < delay \<Longrightarrow> unat (wh_remainder_nanos w) + delay \<le> (unat d - unat (wh_current_tick w)) * ?b"
    and "0 < delay \<Longrightarrow> (unat d - unat (wh_current_tick w)) * ?b < unat (wh_remainder_nanos w) + delay + ?b"
  proof -
    assume "0 < delay"
    then have *: "unat d - unat (wh_current_tick w) = (?o + (?b - 1)) div ?b"
      using d ticks by simp
    show "unat (wh_remainder_nanos w) + delay \<le> (unat d - unat (wh_current_tick w)) * ?b"
      and "(unat d - unat (wh_current_tick w)) * ?b < unat (wh_remainder_nanos w) + delay + ?b"
      unfolding * using up by linarith+
  qed
qed

lemma insert_deadline_ok:
  assumes inv: "tasks_ok w" and e: "task w k = Some e" "we_deadline_tick e = d"
    and ord: "heap_ordered (wh_deadline_heap w)" and syn: "heap_synced heap_index_of (wh_deadline_heap w) (wh_tasks w)"
    and nodes: "\<And>k' d'. \<lparr>dn_key = k', dn_deadline_tick = d'\<rparr> \<in> set (wh_deadline_heap w) \<longleftrightarrow>
          k' \<noteq> k \<and> map_option we_deadline_tick (task w k') = Some d'"
  shows "\<exists>w'. insert_deadline k d w = (Inr (), w') \<and> same_but_heap w w' \<and> heap_ok w'"
proof -
  let ?H = "wh_deadline_heap w" and ?n = "\<lparr>dn_key = k, dn_deadline_tick = d\<rparr>"
  have new: "k \<notin> dn_key ` set ?H"
  proof
    assume "k \<in> dn_key ` set ?H"
    then obtain n where n: "n \<in> set ?H" "dn_key n = k"
      by blast
    have "n = \<lparr>dn_key = k, dn_deadline_tick = dn_deadline_tick n\<rparr>"
      using n(2) by simp
    then show False
      using n(1) nodes [of k "dn_deadline_tick n"] by simp
  qed
  have "heap_index_of (wh_tasks w) k \<noteq> None"
    using inv e by (simp add: heap_index_of_def)
  from hx.heap_insert_ok [OF syn ord new this, of d] obtain H' m where
    H': "heap_insert set_heap_index k d ?H (wh_tasks w) = (Inr (), H', m)" "mset H' = add_mset ?n (mset ?H)"
      "heap_ordered H'" "heap_synced heap_index_of H' m" "index_erased m = index_erased (wh_tasks w)"
    by blast
  let ?w = "w\<lparr>wh_deadline_heap := H', wh_tasks := m\<rparr>"
  have sbh: "same_but_heap w ?w"
    using H'(5) by (simp add: same_but_heap_def)
  have mem: "set H' = insert ?n (set ?H)"
    using arg_cong [OF H'(2), of set_mset] by simp
  have dl: "map_option we_deadline_tick (sm_get m k') = map_option we_deadline_tick (task w k')" for k'
    using same_but_heap_proj [OF sbh, of we_deadline_tick k'] by simp
  have "\<lparr>dn_key = k', dn_deadline_tick = d'\<rparr> \<in> set H' \<longleftrightarrow> map_option we_deadline_tick (sm_get m k') = Some d'" for k' d'
    unfolding mem dl using nodes [of k' d'] e by (cases "k' = k") auto
  with H' sbh show ?thesis
    by (auto simp: insert_deadline_def with_heap_def heap_ok_def)
qed

lemma insert_ok:
  assumes inv: "wheel_inv w" and api: "slotmap_laws api" "length (sm_issued (wh_tasks w)) < 2 ^ 31"
    and d: "deadline_after w delay = Inr d"
  shows "\<exists>k w'. wheel_insert api item delay w = (Inr k, w') \<and> wheel_inv w' \<and> timers w k = None
     \<and> timers w' = (timers w)(k \<mapsto> (item, d)) \<and> wh_current_tick w' = wh_current_tick w
     \<and> wh_remainder_nanos w' = wh_remainder_nanos w \<and> wh_base_tick_nanos w' = wh_base_tick_nanos w
     \<and> sm_issued (wh_tasks w') = k # sm_issued (wh_tasks w)"
proof -
  obtain L where st: "wheel_st w L {} UNIV"
    using inv by (auto simp: wheel_inv_def)
  note S = wheel_stD [OF st]
  define k where "k = sm_alloc api (sm_issued (wh_tasks w)) (bt_keys (sm_entries (wh_tasks w)))"
  define e where "e = \<lparr>we_item = item, we_deadline_tick = d, we_level = 0, we_slot = 0, we_prev = None,
    we_next = None, we_heap_index = 0\<rparr>"
  define w1 where "w1 = w\<lparr>wh_tasks := \<lparr>sm_entries = bt_insert k e (sm_entries (wh_tasks w)),
        sm_issued = k # sm_issued (wh_tasks w)\<rparr>\<rparr>"
  have "k \<notin> set (sm_issued (wh_tasks w))"
    using api unfolding slotmap_laws_def k_def by blast
  then have fresh: "task w k = None"
    using S(6) by blast
  note new = new_task_ls [OF st [unfolded wheel_st_ls, THEN conjunct1] fresh w1_def]
  obtain l i where loc: "determine_location w1 d = (l, i)"
    by fastforce
  have e1: "task w1 k = Some e" "we_deadline_tick e = d"
    using new(2) by (simp_all add: e_def)
  have "unat (wh_current_tick w1) \<le> unat d"
    using deadline_after_ok(1) [OF d S(5)] by (simp add: w1_def)
  then obtain w2 L2 where w2: "wheel_link k l i w1 = (Inr (), w2)" "wheel_ls w2 L2 {} UNIV" "same_but_links w1 w2"
    using place_ls [OF new(1) _ e1(1), of l i] loc e1(2) by auto
  have inv2: "tasks_ok w2"
    using w2(2) lists_okD(1) by (auto simp: wheel_ls_def)
  have c2: "cores w2 k' = (if k' = k then Some (item, d, 0) else cores w k')" for k'
    using w2(3) new(2) [of k'] by (simp add: same_but_links_def cores_def core_def e_def)
  have dl2: "map_option we_deadline_tick (task w2 k') = (if k' = k then Some d else map_option we_deadline_tick (task w k'))" for k'
    using c2 [of k'] by (auto simp: timers_deadline cores_timers split: if_splits)
  obtain e2 where e2: "task w2 k = Some e2" "we_deadline_tick e2 = d"
    using dl2 [of k] by auto
  have H2: "wh_deadline_heap w2 = wh_deadline_heap w"
    using w2(3) by (simp add: same_but_links_def w1_def)
  have nodes: "\<lparr>dn_key = k', dn_deadline_tick = d'\<rparr> \<in> set (wh_deadline_heap w2) \<longleftrightarrow>
      k' \<noteq> k \<and> map_option we_deadline_tick (task w2 k') = Some d'" for k' d'
    using S(3) fresh unfolding H2 dl2 by (auto simp: heap_ok_def)
  have keys: "dn_key n \<noteq> k" if "n \<in> set (wh_deadline_heap w)" for n
  proof
    assume "dn_key n = k"
    then have "n = \<lparr>dn_key = k, dn_deadline_tick = dn_deadline_tick n\<rparr>"
      by simp
    with that nodes [of k "dn_deadline_tick n"] show False
      unfolding H2 by simp
  qed
  have "heap_index_of (wh_tasks w2) k' = heap_index_of (wh_tasks w) k'" if "k' \<noteq> k" for k'
    using c2 [of k'] that inv2 S(7) by (simp add: heap_index_of_def cores_index)
  then have syn: "heap_synced heap_index_of (wh_deadline_heap w2) (wh_tasks w2)"
    using S(3) keys unfolding H2 by (auto simp: heap_ok_def heap_synced_def)
  have ord: "heap_ordered (wh_deadline_heap w2)"
    using S(3) unfolding H2 by (simp add: heap_ok_def)
  obtain w3 where w3: "insert_deadline k d w2 = (Inr (), w3)" "same_but_heap w2 w3" "heap_ok w3"
    using insert_deadline_ok [OF inv2 e2 ord syn nodes] by blast
  have run: "wheel_insert api item delay w = (Inr k, w3)"
    using d w2(1) w3(1) loc by (simp add: wheel_insert_def sm_insert_def Let_def flip: k_def e_def w1_def)
  have tm: "timers w3 = (timers w)(k \<mapsto> (item, d))"
    using same_but_heap_timers [OF w3(2)] c2 by (auto simp: fun_eq_iff cores_timers)
  have "same_clock w1 w3"
    using same_but_links_clock [OF w2(3)] same_but_heapD(2) [OF w3(2)] same_clock_trans by blast
  then have "wh_current_tick w3 = wh_current_tick w" "wh_remainder_nanos w3 = wh_remainder_nanos w"
      "wh_base_tick_nanos w3 = wh_base_tick_nanos w" "sm_issued (wh_tasks w3) = k # sm_issued (wh_tasks w)"
    by (simp_all add: same_clock_def w1_def)
  moreover have "wheel_inv w3"
    using same_but_heap_ls [OF w2(2) w3(2)] w3(3) by (auto simp: wheel_inv_def wheel_st_ls)
  ultimately show ?thesis
    using run tm fresh by (auto simp: timers_def)
qed

text \<open>Unlinking a timer makes it loose.\<close>

lemma unlink_st:
  assumes st: "wheel_st w L {} UNIV" and k: "task w k \<noteq> None"
  shows "\<exists>w' L'. wheel_unlink k w = (Inr (), w') \<and> wheel_st w' L' {k} UNIV \<and> same_but_links w w'"
proof -
  note S = wheel_stD [OF st]
  obtain l i where "k \<in> set (L l i)"
    using lists_okD(7) [OF S(2), of k] k by auto
  then obtain xs ys where at: "L l i = xs @ k # ys"
    by (meson split_list)
  let ?L = "put_list l i (xs @ ys) L"
  obtain w' where run: "wheel_unlink k w = (Inr (), w')" and lists: "lists_ok w' ?L (insert k {})"
    and sbl: "same_but_links w w'"
    using unlink_ok [OF S(2) wheel_fits [OF S(1)] at] by blast
  note clock = same_but_links_clock [OF sbl] and tm = same_but_links_timers [OF sbl]
  have sub: "set (?L l' i') \<subseteq> set (L l' i')" for l' i'
    using at by (auto simp: put_list_def)
  have "placed w ?L UNIV"
    using S(4) sub unfolding placed_def by blast
  moreover have "l' < length (wh_levels w)" if "?L l' i' \<noteq> []" for l' i'
  proof -
    have "L l' i' \<noteq> []"
      using sub [of l' i'] that by (metis empty_set set_empty subset_empty)
    then show ?thesis
      by (rule lists_ok_level [OF S(2)])
  qed
  ultimately have "placed w' ?L UNIV"
    by (intro placed_cong [OF clock, of ?L]) (use tm in \<open>simp_all only: timers_deadline\<close>)
  moreover have "dom (task w') \<subseteq> set (sm_issued (wh_tasks w'))"
    using S(6) tm timers_dom [of w] timers_dom [of w'] clock by (simp add: same_clock_def)
  ultimately have "wheel_st w' ?L {k} UNIV"
    using S lists clock_ok_cong [OF clock] same_clock_levels [OF clock]
      same_but_links_heap [OF sbl S(7) lists_okD(1) [OF lists] S(3)] by (simp add: wheel_st_def)
  with run sbl show ?thesis
    by blast
qed

lemma cancel_ok:
  assumes inv: "wheel_inv w"
  shows "\<exists>w'. wheel_cancel k w = (map_option fst (timers w k), w') \<and> wheel_inv w'
     \<and> timers w' = (timers w)(k := None) \<and> same_clock w w'"
proof (cases "task w k")
  case None
  then have "timers w k = None"
    by (simp add: timers_def)
  then have "timers w = (timers w)(k := None)"
    by (simp add: fun_upd_idem)
  with None inv show ?thesis
    by (auto simp: wheel_cancel_def timers_def)
next
  case (Some e)
  obtain L where st: "wheel_st w L {} UNIV"
    using inv by (auto simp: wheel_inv_def)
  obtain w1 L1 where w1: "wheel_unlink k w = (Inr (), w1)" "wheel_st w1 L1 {k} UNIV" "same_but_links w w1"
    using unlink_st [OF st, of k] Some by auto
  note tm = same_but_links_timers [OF w1(3)]
  obtain e1 where e1: "task w1 k = Some e1" "we_item e1 = we_item e"
    using fun_cong [OF tm, of k] Some by (auto simp: timers_def)
  obtain w' where w': "expire_task k 0 w1 = (Inr \<lparr>ex_id = k, ex_item = we_item e1, ex_deadline_tick = 0\<rparr>, w')"
      "wheel_st w' L1 ({k} - {k}) UNIV" "timers w' = (timers w1)(k := None)" "same_clock w1 w'"
    using expire_ok [OF w1(2) _ e1(1), of 0] by blast
  have "wheel_cancel k w = (Some (we_item e1), w')"
    using w'(1) Some w1(1) e1(1)
    by (auto simp: wheel_cancel_def expire_task_def task_get_def st_bind_def st_then_def ok_or_def
        split: prod.splits sum.splits option.splits)
  moreover have "same_clock w w'"
    using same_but_links_clock [OF w1(3)] w'(4) same_clock_trans by blast
  ultimately show ?thesis
    using w'(2,3) tm Some e1(2) by (auto simp: wheel_inv_def timers_def)
qed

text \<open>The time until a tick, exact in nanoseconds.\<close>

lemma duration_until_ok:
  assumes "clock_ok w" "wh_current_tick w < d"
    and small: "(unat d - unat (wh_current_tick w)) * unat (wh_base_tick_nanos w) < 1000000000 * 2 ^ 64"
  shows "duration_until_tick w d = Inr ((unat d - unat (wh_current_tick w)) * unat (wh_base_tick_nanos w)
     - unat (wh_remainder_nanos w))"
proof -
  let ?p = "(unat d - unat (wh_current_tick w)) * unat (wh_base_tick_nanos w)"
  have t: "unat (d - wh_current_tick w) = unat d - unat (wh_current_tick w)"
    using assms(2) by (simp add: unat_sub order.strict_implies_order)
  have "0 < unat d - unat (wh_current_tick w)"
    using assms(2) by (simp add: word_less_nat_alt)
  then have "unat (wh_base_tick_nanos w) \<le> ?p"
    by (cases "unat d - unat (wh_current_tick w)") auto
  then have r: "\<not> ?p < unat (wh_remainder_nanos w)"
    using assms(1) unfolding clock_ok_def word_less_nat_alt by linarith
  have "?p - unat (wh_remainder_nanos w) < 1000000000 * 2 ^ 64"
    using small by linarith
  then have "\<not> 2 ^ 64 \<le> (?p - unat (wh_remainder_nanos w)) div 1000000000"
    by (simp add: not_le div_less_iff_less_mult mult.commute)
  with r t assms(2) show ?thesis
    by (simp add: duration_until_tick_def Let_def not_le)
qed

lemma next_deadline_ok:
  assumes inv: "wheel_inv w"
  shows "timers w = Map.empty \<Longrightarrow> wheel_next_deadline w = Inr None"
    and "timers w \<noteq> Map.empty \<Longrightarrow> \<exists>k a d. timers w k = Some (a, d)
       \<and> (\<forall>k' a' d'. timers w k' = Some (a', d') \<longrightarrow> d \<le> d')
       \<and> wheel_next_deadline w = and_then (duration_until_tick w d) (\<lambda>x. Inr (Some x))"
proof -
  obtain L where st: "wheel_st w L {} UNIV"
    using inv by (auto simp: wheel_inv_def)
  note S = wheel_stD [OF st]
  let ?H = "wh_deadline_heap w"
  have node: "n \<in> set ?H \<longleftrightarrow> map_option we_deadline_tick (task w (dn_key n)) = Some (dn_deadline_tick n)" for n
    using S(3) unfolding heap_ok_def by (cases n) (simp add: deadline_node.defs)
  {
    assume none: "timers w = Map.empty"
    then have "task w k = None" for k
      using fun_cong [OF none, of k] unfolding timers_def by simp
    then have "x \<notin> set ?H" "y \<notin> set (sm_entries (wh_tasks w))" for x y
      using node [of x] bt.entries_get [OF S(7), of "fst y" "snd y"] by (simp_all add: sm_get_def)
    then have "?H = []" "sm_entries (wh_tasks w) = []"
      by (metis list.set_intros(1) neq_Nil_conv)+
    then show "wheel_next_deadline w = Inr None"
      by (simp add: wheel_next_deadline_def heap_peek_def)
  }
  assume "timers w \<noteq> Map.empty"
  then obtain k0 p0 where p0: "timers w k0 = Some p0"
    by (auto simp: fun_eq_iff)
  then have "\<lparr>dn_key = k0, dn_deadline_tick = snd p0\<rparr> \<in> set ?H"
    using node [of "\<lparr>dn_key = k0, dn_deadline_tick = snd p0\<rparr>"] by (simp add: timers_deadline)
  then have ne: "?H \<noteq> []"
    by auto
  let ?n = "?H ! 0"
  have peek: "heap_peek ?H = Some ?n"
    using ne by (auto simp: heap_peek_def neq_Nil_conv)
  obtain e where e: "task w (dn_key ?n) = Some e" "we_deadline_tick e = dn_deadline_tick ?n"
    using node [of ?n] ne by auto
  have "dn_deadline_tick ?n \<le> d'" if k': "timers w k' = Some (a', d')" for k' a' d'
  proof -
    have "\<lparr>dn_key = k', dn_deadline_tick = d'\<rparr> \<in> set ?H"
      using node [of "\<lparr>dn_key = k', dn_deadline_tick = d'\<rparr>"] k' by (simp add: timers_deadline)
    then obtain j where "j < length ?H" "?H ! j = \<lparr>dn_key = k', dn_deadline_tick = d'\<rparr>"
      by (metis in_set_conv_nth)
    then have "dn_rank ?n \<le> dn_rank \<lparr>dn_key = k', dn_deadline_tick = d'\<rparr>"
      using heap_root_minimal [of ?H j] S(3) by (simp add: rank_at_def heap_ok_def)
    then show ?thesis
      by (auto simp: dn_rank_def)
  qed
  moreover have "timers w (dn_key ?n) = Some (we_item e, dn_deadline_tick ?n)"
    using e by (simp add: timers_def)
  moreover have "wheel_next_deadline w = and_then (duration_until_tick w (dn_deadline_tick ?n)) (\<lambda>x. Inr (Some x))"
    using peek e by (simp add: wheel_next_deadline_def)
  ultimately show "\<exists>k a d. timers w k = Some (a, d)
       \<and> (\<forall>k' a' d'. timers w k' = Some (a', d') \<longrightarrow> d \<le> d')
       \<and> wheel_next_deadline w = and_then (duration_until_tick w d) (\<lambda>x. Inr (Some x))"
    by blast
qed

lemma update_deadline_ok:
  assumes inv: "tasks_ok w" and e: "task w k = Some e" "we_deadline_tick e = d"
    and ord: "heap_ordered (wh_deadline_heap w)" and syn: "heap_synced heap_index_of (wh_deadline_heap w) (wh_tasks w)"
    and i: "we_heap_index e < length (wh_deadline_heap w)" "dn_key (wh_deadline_heap w ! we_heap_index e) = k"
    and nodes: "\<And>k' d'. k' \<noteq> k \<Longrightarrow> \<lparr>dn_key = k', dn_deadline_tick = d'\<rparr> \<in> set (wh_deadline_heap w) \<longleftrightarrow>
          map_option we_deadline_tick (task w k') = Some d'"
  shows "\<exists>w'. update_deadline k (we_heap_index e) d w = (Inr (), w') \<and> same_but_heap w w' \<and> heap_ok w'"
proof -
  let ?H = "wh_deadline_heap w" and ?n = "\<lparr>dn_key = k, dn_deadline_tick = d\<rparr>" and ?o = "wh_deadline_heap w ! we_heap_index e"
  obtain H' m where H': "heap_update set_heap_index k (we_heap_index e) d ?H (wh_tasks w) = (Inr (), H', m)"
      "mset H' = add_mset ?n (mset ?H - {#?o#})" "heap_ordered H'" "heap_synced heap_index_of H' m"
      "index_erased m = index_erased (wh_tasks w)"
    using hx.heap_update_ok [OF syn ord i, of d] by blast
  let ?w = "w\<lparr>wh_deadline_heap := H', wh_tasks := m\<rparr>"
  have sbh: "same_but_heap w ?w"
    using H'(5) by (simp add: same_but_heap_def)
  have dist: "distinct (map dn_key ?H)" and dist': "distinct (map dn_key H')"
    using syn H'(4) by (simp_all add: heap_synced_def)
  have "mset H' = mset (?n # remove1 ?o ?H)"
    using H'(2) by simp
  then have "set H' = set (?n # remove1 ?o ?H)"
    by (rule mset_eq_setD)
  moreover have "distinct ?H"
    using dist distinct_map by blast
  ultimately have mem: "set H' = insert ?n (set ?H - {?o})"
    by (simp add: set_remove1_eq)
  have dl: "map_option we_deadline_tick (sm_get m k') = map_option we_deadline_tick (task w k')" for k'
    using same_but_heap_proj [OF sbh, of we_deadline_tick k'] by simp
  have "\<lparr>dn_key = k', dn_deadline_tick = d'\<rparr> \<in> set H' \<longleftrightarrow> map_option we_deadline_tick (sm_get m k') = Some d'" for k' d'
  proof (cases "k' = k")
    case True
    have inj: "x = y" if "x \<in> set H'" "y \<in> set H'" "dn_key x = dn_key y" for x y
      using inj_onD [of dn_key "set H'" x y] dist' that by (simp add: distinct_map)
    have "\<lparr>dn_key = k, dn_deadline_tick = d'\<rparr> \<in> set H' \<longleftrightarrow> d' = d"
      using inj [of "\<lparr>dn_key = k, dn_deadline_tick = d'\<rparr>" ?n] mem by auto
    with True e show ?thesis
      by (auto simp: dl)
  next
    case False
    then have "\<lparr>dn_key = k', dn_deadline_tick = d'\<rparr> \<noteq> ?o"
      using i(2) by (metis deadline_node.select_convs(1))
    with False nodes [OF False, of d'] mem show ?thesis
      by (simp add: dl)
  qed
  with H' sbh show ?thesis
    by (auto simp: update_deadline_def with_heap_def heap_ok_def)
qed

lemma reschedule_ok:
  assumes inv: "wheel_inv w" and k: "timers w k = Some (a, d0)" and d: "deadline_after w delay = Inr d"
  shows "\<exists>w'. wheel_reschedule k delay w = (Inr (), w') \<and> wheel_inv w'
     \<and> timers w' = (timers w)(k \<mapsto> (a, d)) \<and> same_clock w w'"
proof -
  obtain L where st: "wheel_st w L {} UNIV"
    using inv by (auto simp: wheel_inv_def)
  obtain e where e: "task w k = Some e"
    using k by (auto simp: timers_def)
  obtain w1 L1 where w1: "wheel_unlink k w = (Inr (), w1)" "wheel_st w1 L1 {k} UNIV" "same_but_links w w1"
    using unlink_st [OF st, of k] e by auto
  note S1 = wheel_stD [OF w1(2)] and tm1 = same_but_links_timers [OF w1(3)] and cl1 = same_but_links_clock [OF w1(3)]
  obtain e1 where e1: "task w1 k = Some e1" "we_item e1 = a"
    using fun_cong [OF tm1, of k] k by (auto simp: timers_def)
  define e2 where "e2 = e1\<lparr>we_deadline_tick := d\<rparr>"
  define w2 where "w2 = w1\<lparr>wh_tasks := sm_set k e2 (wh_tasks w1)\<rparr>"
  have get2: "task w2 k' = (if k' = k then Some e2 else task w1 k')" for k'
    using S1(7) by (simp add: w2_def)
  have cl2: "same_clock w1 w2"
    by (simp add: w2_def same_clock_def)
  have "placed w2 L1 UNIV"
    unfolding placed_def
  proof (intro allI impI)
    fix l i k' d'
    assume k': "k' \<in> set (L1 l i)" and "map_option we_deadline_tick (task w2 k') = Some d'"
    moreover have "k' \<noteq> k"
      using k' lists_okD(8) [OF S1(2), of k] by auto
    ultimately have "map_option we_deadline_tick (task w1 k') = Some d'"
      using get2 [of k'] by simp
    with S1(4) k' show "i = home w2 l (unat d') \<and> unat (wh_current_tick w2) \<le> visit w2 l (unat d') \<and>
        (visit w2 l (unat d') = unat (wh_current_tick w2) \<longrightarrow> l \<in> UNIV)"
      by (auto simp: placed_def w2_def home_def visit_def)
  qed
  moreover have "dom (task w2) = dom (task w1)"
    using get2 e1(1) by (auto simp: domIff split: if_splits)
  ultimately have ls2: "wheel_ls w2 L1 {k} UNIV"
    using S1 lists_ok_loose [OF S1(2), of k e2] by (simp add: wheel_ls_def w2_def clock_ok_def)
  obtain l i where loc: "determine_location w2 d = (l, i)"
    by fastforce
  have t2: "wh_current_tick w2 = wh_current_tick w" and d2: "deadline_after w1 delay = deadline_after w delay"
    using cl1 cl2 by (simp_all add: same_clock_def deadline_after_def)
  have "unat (wh_current_tick w2) \<le> unat (we_deadline_tick e2)"
    using deadline_after_ok(1) [OF d wheel_stD(5) [OF st]] t2 by (simp add: e2_def)
  then obtain w3 L3 where w3: "wheel_link k l i w2 = (Inr (), w3)" "wheel_ls w3 L3 {} UNIV" "same_but_links w2 w3"
    using place_ls [OF ls2 _ get2 [of k, simplified], of l i] loc by (auto simp: e2_def)
  have inv3: "tasks_ok w3"
    using w3(2) lists_okD(1) by (auto simp: wheel_ls_def)
  have c3: "cores w3 k' = (if k' = k then Some (a, d, we_heap_index e1) else cores w1 k')" for k'
    using w3(3) get2 [of k'] e1 by (simp add: same_but_links_def cores_def core_def e2_def)
  have dl3: "map_option we_deadline_tick (task w3 k') = (if k' = k then Some d else map_option we_deadline_tick (task w1 k'))" for k'
    using c3 [of k'] by (auto simp: timers_deadline cores_timers split: if_splits)
  have ix3: "heap_index_of (wh_tasks w3) k' = heap_index_of (wh_tasks w1) k'" for k'
    using c3 [of k'] inv3 S1(7) e1(1) by (simp add: heap_index_of_def cores_index cores_def core_def)
  obtain e3 where e3: "task w3 k = Some e3" "we_deadline_tick e3 = d" "we_heap_index e3 = we_heap_index e1"
    using c3 [of k] by (auto simp: cores_def core_def)
  have H3: "wh_deadline_heap w3 = wh_deadline_heap w1"
    using w3(3) by (simp add: same_but_links_def w2_def)
  obtain w4 where w4: "update_deadline k (we_heap_index e3) d w3 = (Inr (), w4)" "same_but_heap w3 w4" "heap_ok w4"
  proof (atomize_elim, rule update_deadline_ok [OF inv3 e3(1,2)])
    show "heap_ordered (wh_deadline_heap w3)" "heap_synced heap_index_of (wh_deadline_heap w3) (wh_tasks w3)"
      using S1(3) unfolding H3 by (simp_all add: heap_ok_def heap_synced_def ix3)
    show "we_heap_index e3 < length (wh_deadline_heap w3)" "dn_key (wh_deadline_heap w3 ! we_heap_index e3) = k"
      using node_of_task [OF S1(3) e1(1) S1(7)] e3(3) unfolding H3 by simp_all
    show "\<lparr>dn_key = k', dn_deadline_tick = d'\<rparr> \<in> set (wh_deadline_heap w3) \<longleftrightarrow>
        map_option we_deadline_tick (task w3 k') = Some d'" if "k' \<noteq> k" for k' d'
      using S1(3) that unfolding H3 dl3 by (simp add: heap_ok_def)
  qed
  have run: "wheel_reschedule k delay w = (Inr (), w4)"
    using e d d2 w1(1) e1(1) w3(1) w4(1) e3(1) loc
    by (simp add: wheel_reschedule_def task_get_def st_bind_run st_then_def task_update_def st_bind_def
        flip: e2_def w2_def)
  have "timers w4 k' = ((timers w)(k \<mapsto> (a, d))) k'" for k'
    using same_but_heap_timers [OF w4(2)] c3 [of k'] fun_cong [OF tm1, of k'] by (auto simp: cores_timers)
  moreover have "wheel_inv w4"
    using same_but_heap_ls [OF w3(2) w4(2)] w4(3) by (auto simp: wheel_inv_def wheel_st_ls)
  moreover have "same_clock w w4"
    using cl1 cl2 same_but_links_clock [OF w3(3)] same_but_heapD(2) [OF w4(2)] same_clock_trans by blast
  ultimately show ?thesis
    using run by (auto simp: fun_eq_iff)
qed

section \<open>Reachable wheels\<close>

lemma is_power_of_two_exp: "is_power_of_two n \<Longrightarrow> \<exists>m. n = 2 ^ m"
proof (induction n rule: is_power_of_two.induct)
  case (1 n)
  show ?case
  proof (cases "n \<le> 1")
    case True
    then show ?thesis
      using 1(2) by (intro exI [of _ 0]) (simp add: is_power_of_two.simps [of n])
  next
    case False
    then have "even n" "is_power_of_two (n div 2)"
      using 1(2) by (simp_all add: is_power_of_two.simps [of n] split: if_splits)
    then obtain m where "n div 2 = 2 ^ m"
      using 1(1) False by blast
    then have "n = 2 ^ Suc m"
      using \<open>even n\<close> by auto
    then show ?thesis
      by blast
  qed
qed

lemma levels_chain_nth:
  "levels_chain u ls \<Longrightarrow> l < length ls \<Longrightarrow>
     level_ok (ls ! l) \<and> unat (lc_unit_ticks (ls ! l)) = (if l = 0 then u else unat (lc_span_ticks (ls ! (l - 1))))"
  by (induction ls arbitrary: u l) (auto simp: nth_Cons split: nat.splits)

lemma new_wheel_levels:
  assumes "builder_build b = Inr c"
  shows "wf_levels (wh_levels (wheel_new c :: 'a wheel))"
proof -
  note C = builder_build_ok [OF assms]
  let ?ls = "wh_levels (wheel_new c :: 'a wheel)"
  have len: "length ?ls = length (wc_levels c)"
    by (simp add: wheel_new_def)
  have nth: "?ls ! l = level_new (lc_unit_ticks (wc_levels c ! l)) (lc_span_ticks (wc_levels c ! l))
      (lc_slot_count (wc_levels c ! l)) (lc_mask (wc_levels c ! l))" if "l < length (wc_levels c)" for l
    using that by (simp add: wheel_new_def)
  have "\<exists>m \<le> 32. lc_slot_count (wc_levels c ! l) = 2 ^ m \<and> lc_mask (wc_levels c ! l) = 2 ^ m - 1"
    if l: "l < length (wc_levels c)" for l
  proof -
    have ok: "level_ok (wc_levels c ! l)"
      using levels_chain_nth [OF C(3) l] by blast
    then obtain m where m: "lc_slot_count (wc_levels c ! l) = 2 ^ m"
      using is_power_of_two_exp by (auto simp: level_ok_def)
    have "(2 :: nat) ^ m \<le> 2 ^ 16"
      using ok m by (simp add: level_ok_def MAX_LEVEL_SLOTS_def)
    then have "m \<le> 16"
      by (simp only: power_increasing_iff)
    with m ok show ?thesis
      by (intro exI [of _ m]) (simp add: level_ok_def)
  qed
  moreover have "0 < unat (lc_unit_ticks (wc_levels c ! l))" if "l < length (wc_levels c)" for l
    using levels_chain_nth [OF C(3) that] by (simp add: level_ok_def)
  moreover have "lc_unit_ticks (wc_levels c ! Suc l) = lc_span_ticks (wc_levels c ! l)" if "Suc l < length (wc_levels c)" for l
    using levels_chain_nth [OF C(3) that] by (simp add: word_unat_eq_iff)
  moreover have "unat (lc_unit_ticks (wc_levels c ! 0)) = 1"
    using levels_chain_nth [OF C(3), of 0] C(1) by simp
  ultimately show ?thesis
    using C(1,2) nth unfolding wf_levels_def len
    by (auto simp: level_new_def MAX_LEVELS_def wheel_new_def)
qed

lemma empty_wheel_inv:
  assumes "wf_levels (wh_levels w)" "clock_ok w" "sm_entries (wh_tasks w) = []" "wh_deadline_heap w = []"
    and "\<And>l i. slot_exists w l i \<Longrightarrow> get_slot w l i = slot_empty"
  shows "wheel_inv w" "timers w = Map.empty"
proof -
  have none: "task w k = None" for k
    using assms(3) by (simp add: sm_get_def)
  then show "timers w = Map.empty"
    by (simp add: fun_eq_iff timers_def)
  have "lists_ok w (\<lambda>_ _. []) {}"
    by (rule lists_okI) (use assms none in \<open>auto simp: slot_holds_def slot_empty_def\<close>)
  moreover have "heap_ok w"
    using assms(4) none by (simp add: heap_ok_def heap_ordered_def heap_synced_def)
  ultimately have "wheel_st w (\<lambda>_ _. []) {} UNIV"
    using assms(1,2) none by (auto simp: wheel_st_def placed_def)
  then show "wheel_inv w"
    by (auto simp: wheel_inv_def)
qed

lemma new_wheel_ok:
  fixes w :: "'a wheel"
  assumes "builder_build b = Inr c" and w: "w = wheel_new c"
  shows "wheel_inv w" "timers w = Map.empty"
proof -
  have "0 < wc_base_tick_nanos c"
    using builder_build_ok(7,8) [OF assms(1)] by (simp add: word_less_nat_alt)
  then have "clock_ok w"
    by (simp add: clock_ok_def wheel_new_def w)
  moreover have "wf_levels (wh_levels w)"
    using new_wheel_levels [OF assms(1)] w by simp
  moreover have "get_slot w l i = slot_empty" if "slot_exists w l i" for l i
    using that by (auto simp: slot_exists_def get_slot_def wheel_new_def level_new_def w)
  moreover have "sm_entries (wh_tasks w) = []" "wh_deadline_heap w = []"
    by (simp_all add: w wheel_new_def sm_new_def)
  ultimately show "wheel_inv w" "timers w = Map.empty"
    using empty_wheel_inv [of w] by blast+
qed

lemma clear_ok:
  assumes "wheel_inv w"
  shows "wheel_inv (snd (wheel_clear api out w))" "timers (snd (wheel_clear api out w)) = Map.empty"
proof -
  obtain L where st: "wheel_st w L {} UNIV"
    using assms by (auto simp: wheel_inv_def)
  let ?w = "snd (wheel_clear api out w)"
  have "map lv_shape (wh_levels ?w) = map lv_shape (wh_levels w)"
    by (simp add: wheel_clear_def)
  then have "wf_levels (wh_levels ?w)"
    using wf_levels_shape wheel_stD(1) [OF st] by blast
  moreover have "clock_ok ?w"
    using wheel_stD(5) [OF st] by (simp add: wheel_clear_def clock_ok_def)
  moreover have "get_slot ?w l i = slot_empty" if "slot_exists ?w l i" for l i
    using that by (auto simp: wheel_clear_def get_slot_def slot_exists_def clear_slots_def)
  ultimately show "wheel_inv ?w" "timers ?w = Map.empty"
    by (intro empty_wheel_inv; simp add: wheel_clear_def)+
qed

text \<open>Every wheel that a program can reach: it was built from an accepted configuration and changed by
  the public operations only, whatever they returned. At most \<open>2 ^ 31\<close> timers are inserted, the range
  for which the slot map promises fresh keys.\<close>

inductive wheel_reachable :: "slotmap_api \<Rightarrow> 'a wheel \<Rightarrow> bool" for api :: slotmap_api where
  reach_new: "builder_build b = Inr c \<Longrightarrow> wheel_reachable api (wheel_new c)"
| reach_insert: "wheel_reachable api w \<Longrightarrow> length (sm_issued (wh_tasks w)) < 2 ^ 31 \<Longrightarrow>
    wheel_insert api item delay w = (r, w') \<Longrightarrow> wheel_reachable api w'"
| reach_reschedule: "wheel_reachable api w \<Longrightarrow> wheel_reschedule k delay w = (r, w') \<Longrightarrow> wheel_reachable api w'"
| reach_cancel: "wheel_reachable api w \<Longrightarrow> wheel_cancel k w = (x, w') \<Longrightarrow> wheel_reachable api w'"
| reach_advance: "wheel_reachable api w \<Longrightarrow> wheel_advance_by api elapsed out w = Some (r', w') \<Longrightarrow> wheel_reachable api w'"
| reach_clear: "wheel_reachable api w \<Longrightarrow> wheel_clear api items w = (items', w') \<Longrightarrow> wheel_reachable api w'"

lemma advance_refused:
  assumes "\<not> (unat (wh_remainder_nanos w) + elapsed < 2 ^ 64
      \<and> unat (wh_current_tick w) + (unat (wh_remainder_nanos w) + elapsed) div unat (wh_base_tick_nanos w) < 2 ^ 64)"
  shows "\<exists>e. wheel_advance_by api elapsed out w = Some (Inl e, w) \<and> e \<in> {ElapsedOverflow, ClockOverflow}"
proof (cases "unat (wh_remainder_nanos w) + elapsed < 2 ^ 64")
  case True
  then have e: "unat (of_nat elapsed :: u64) = elapsed" "elapsed < 2 ^ 64"
    by (simp_all add: unat_of_nat_small)
  have "unat (wh_remainder_nanos w + of_nat elapsed) = unat (wh_remainder_nanos w) + elapsed"
    using True e by (simp add: unat_word_ariths)
  then have "checked_add (wh_current_tick w) ((wh_remainder_nanos w + of_nat elapsed) div wh_base_tick_nanos w) = None"
    using assms True by (simp add: result_simps unat_div)
  with True e show ?thesis
    by (simp add: wheel_advance_by_def checked_add_def [of "wh_remainder_nanos w"])
next
  case False
  then show ?thesis
    by (auto simp: wheel_advance_by_def checked_add_def unat_of_nat_small)
qed

lemma insert_refused: "deadline_after w delay = Inl e \<Longrightarrow> wheel_insert api item delay w = (Inl e, w)"
  by (simp add: wheel_insert_def)

lemma reschedule_refused:
  "timers w k = None \<Longrightarrow> wheel_reschedule k delay w = (Inl StaleTimerId, w)"
  "timers w k \<noteq> None \<Longrightarrow> deadline_after w delay = Inl e \<Longrightarrow> wheel_reschedule k delay w = (Inl e, w)"
  by (auto simp: wheel_reschedule_def task_get_def st_bind_def timers_def ok_or_def)

lemma reachable_inv:
  assumes "wheel_reachable api w" "slotmap_laws api"
  shows "wheel_inv w"
  using assms
proof (induction rule: wheel_reachable.induct)
  case (reach_new b c)
  then show ?case
    using new_wheel_ok(1) [OF _ refl] by blast
next
  case (reach_insert w item delay r w')
  then show ?case
    using insert_ok [of w api delay _ item] insert_refused [of w delay _ api item]
    by (cases "deadline_after w delay") fastforce+
next
  case (reach_reschedule w k delay r w')
  then have inv: "wheel_inv w"
    by simp
  consider "timers w k = None" | e where "timers w k \<noteq> None" "deadline_after w delay = Inl e"
    | a d0 d where "timers w k = Some (a, d0)" "deadline_after w delay = Inr d"
    by (cases "timers w k"; cases "deadline_after w delay") auto
  then show ?case
  proof cases
    case 1
    then show ?thesis
      using reschedule_refused(1) [of w k delay] reach_reschedule.hyps(2) inv by simp
  next
    case 2
    then show ?thesis
      using reschedule_refused(2) [of w k delay] reach_reschedule.hyps(2) inv by simp
  next
    case 3
    then show ?thesis
      using reschedule_ok [OF inv 3] reach_reschedule.hyps(2) by auto
  qed
next
  case (reach_cancel w k x w')
  then show ?case
    using cancel_ok [of w k] by force
next
  case (reach_advance w elapsed out r' w')
  then have inv: "wheel_inv w"
    by simp
  show ?case
  proof (cases "unat (wh_remainder_nanos w) + elapsed < 2 ^ 64
      \<and> unat (wh_current_tick w) + (unat (wh_remainder_nanos w) + elapsed) div unat (wh_base_tick_nanos w) < 2 ^ 64")
    case True
    then obtain L where "wheel_st w' L {} {}"
      using advance_ok [OF inv reach_advance.prems, of elapsed out] reach_advance.hyps(2) by auto
    then have "wheel_st w' L {} UNIV"
      by (auto simp: wheel_st_def placed_def)
    then show ?thesis
      by (auto simp: wheel_inv_def)
  next
    case False
    then show ?thesis
      using advance_refused [OF False, of api out] reach_advance.hyps(2) inv by auto
  qed
next
  case (reach_clear w items items' w')
  then show ?case
    using clear_ok(1) [of w api items] by (metis snd_conv)
qed

section \<open>A slot map\<close>

text \<open>An instance of the slot map: the smallest number not yet issued, iteration in ascending order.\<close>

definition first_free_api :: slotmap_api where
  "first_free_api =
     \<lparr>sm_alloc = \<lambda>issued live. hd (filter (\<lambda>k. k \<notin> set issued) (map of_nat [0 ..< Suc (length issued)])),
      sm_order = \<lambda>ks. ks\<rparr>"

lemma first_free_laws: "slotmap_laws first_free_api"
proof -
  have "hd (filter (\<lambda>k. k \<notin> set issued) (map of_nat [0 ..< Suc (length issued)])) \<notin> set issued"
    if n: "length issued < 2 ^ 31" for issued :: "u64 list"
  proof -
    let ?ks = "map of_nat [0 ..< Suc (length issued)] :: u64 list"
    have "distinct ?ks"
      using n by (auto simp: distinct_map inj_on_def word_unat_eq_iff unat_of_nat_small simp del: upt_Suc)
    then have "card (set ?ks) = Suc (length issued)"
      by (simp only: distinct_card length_map length_upt)
    then have "\<not> set ?ks \<subseteq> set issued"
      using card_mono [of "set issued" "set ?ks"] card_length [of issued] by (metis List.finite_set Suc_n_not_le_n le_trans)
    then have "filter (\<lambda>k. k \<notin> set issued) ?ks \<noteq> []"
      by (auto simp only: filter_empty_conv)
    then have "hd (filter (\<lambda>k. k \<notin> set issued) ?ks) \<in> set (filter (\<lambda>k. k \<notin> set issued) ?ks)"
      by (rule hd_in_set)
    then show ?thesis
      unfolding set_filter by blast
  qed
  then show ?thesis
    by (simp add: slotmap_laws_def first_free_api_def)
qed

text \<open>A wheel with one timer, used below: the default configuration (ticks of 10 ms) and a timer inserted
  with a delay of 25 ms.\<close>

lemma one_timer_wheel:
  obtains c k w where "builder_build default_wheel_builder = Inr c"
    "wheel_insert first_free_api (7 :: nat) 25000000 (wheel_new c) = (Inr k, w)" "wheel_reachable first_free_api w"
    "timers w = [k \<mapsto> (7, 3)]" "unat (wh_current_tick w) = 0" "unat (wh_remainder_nanos w) = 0"
    "unat (wh_base_tick_nanos w) = 10000000" "sm_issued (wh_tasks w) = [k]"
proof -
  obtain c where c: "builder_build default_wheel_builder = Inr c"
    using default_wheel_builds by blast
  have base: "unat (wc_base_tick_nanos c) = 10000000"
    using builder_build_ok(7) [OF c]
    by (simp add: default_wheel_builder_def builder_level_slots_def builder_base_tick_def DEFAULT_BASE_TICK_def)
  let ?w = "wheel_new c :: nat wheel"
  have d: "deadline_after ?w 25000000 = Inr 3"
    by (simp add: deadline_after_def wheel_new_def base checked_add_def ok_or_def and_then_def)
  have "length (sm_issued (wh_tasks ?w)) < 2 ^ 31"
    by (simp add: wheel_new_def sm_new_def)
  from insert_ok [OF new_wheel_ok(1) [OF c refl] first_free_laws this d, of 7] obtain k w where
    w: "wheel_insert first_free_api 7 25000000 ?w = (Inr k, w)" "timers w = (timers ?w)(k \<mapsto> (7, 3))"
      "wh_current_tick w = wh_current_tick ?w" "wh_remainder_nanos w = wh_remainder_nanos ?w"
      "wh_base_tick_nanos w = wh_base_tick_nanos ?w" "sm_issued (wh_tasks w) = k # sm_issued (wh_tasks ?w)"
    by blast
  have "wheel_reachable first_free_api w"
    using reach_insert [OF reach_new [OF c] _ w(1)] by (simp add: wheel_new_def sm_new_def)
  with that [OF c w(1)] w(2-6) new_wheel_ok(2) [OF c, of ?w] base show thesis
    by (simp add: wheel_new_def sm_new_def)
qed

section \<open>Properties\<close>

text \<open>C8. Timers fire exactly when due: advancing a wheel by \<open>elapsed\<close> (as long as the clock does not
  overflow) succeeds, moves the clock by the whole ticks in the elapsed time plus the remainder kept from
  before, keeps the new remainder, and hands out exactly the timers whose deadline the clock has reached,
  each once with its payload and deadline; the others stay. This holds for stepping and for the fast
  forward over more than 4096 ticks alike.\<close>

theorem timers_fire_exactly_when_due:
  assumes "wheel_reachable api w" "slotmap_laws api"
    and "unat (wh_remainder_nanos w) + elapsed < 2 ^ 64"
    and "unat (wh_current_tick w) + (unat (wh_remainder_nanos w) + elapsed) div unat (wh_base_tick_nanos w) < 2 ^ 64"
  shows "\<exists>report xs w'. wheel_advance_by api elapsed out w = Some (Inr (report, out @ xs), w')
     \<and> unat (wh_current_tick w') = unat (wh_current_tick w) + (unat (wh_remainder_nanos w) + elapsed) div unat (wh_base_tick_nanos w)
     \<and> unat (wh_remainder_nanos w') = (unat (wh_remainder_nanos w) + elapsed) mod unat (wh_base_tick_nanos w)
     \<and> distinct (map ex_id xs)
     \<and> set xs = {x. timers w (ex_id x) = Some (ex_item x, ex_deadline_tick x) \<and> ex_deadline_tick x \<le> wh_current_tick w'}
     \<and> (\<forall>k. timers w' k = (case timers w k of None \<Rightarrow> None
          | Some (a, d) \<Rightarrow> if d \<le> wh_current_tick w' then None else Some (a, d)))
     \<and> ar_expired_count report = length xs"
proof -
  from advance_ok [OF reachable_inv [OF assms(1,2)] assms(2,4,3), of out] obtain xs w' L where
    run: "\<exists>report. wheel_advance_by api elapsed out w = Some (Inr (report, out @ xs), w') \<and> ar_expired_count report = length xs"
    and st: "wheel_st w' L {} {}" and h: "handed (wh_current_tick w') w xs w'"
    and t: "unat (wh_current_tick w') = unat (wh_current_tick w) + (unat (wh_remainder_nanos w) + elapsed) div unat (wh_base_tick_nanos w)"
      "unat (wh_remainder_nanos w') = (unat (wh_remainder_nanos w) + elapsed) mod unat (wh_base_tick_nanos w)"
    by fastforce
  have all: "set xs = {x. timers w (ex_id x) = Some (ex_item x, ex_deadline_tick x) \<and> ex_deadline_tick x \<le> wh_current_tick w'}"
    "timers w' k = (case timers w k of None \<Rightarrow> None
       | Some (a, d) \<Rightarrow> if d \<le> wh_current_tick w' then None else Some (a, d))" for k
    by (rule handed_all [OF h]; erule remaining_late [OF st])+
  have "distinct (map ex_id xs)"
    using h by (simp add: handed_def)
  with run t all show ?thesis
    by blast
qed

theorem timers_fire_exactly_when_due_witness:
  "\<exists>(w :: nat wheel) report xs w'. wheel_advance_by first_free_api 30000000 [] w = Some (Inr (report, xs), w')
     \<and> ex_item ` set xs = {7} \<and> timers w' = Map.empty"
proof -
  obtain c k w where w: "builder_build default_wheel_builder = Inr c"
    "wheel_insert first_free_api (7 :: nat) 25000000 (wheel_new c) = (Inr k, w)" "wheel_reachable first_free_api w"
    "timers w = [k \<mapsto> (7, 3)]" "unat (wh_current_tick w) = 0" "unat (wh_remainder_nanos w) = 0"
    "unat (wh_base_tick_nanos w) = 10000000" "sm_issued (wh_tasks w) = [k]"
    by (rule one_timer_wheel)
  obtain report xs w' where adv: "wheel_advance_by first_free_api 30000000 [] w = Some (Inr (report, xs), w')"
    and t: "unat (wh_current_tick w') = 3"
    and xs: "set xs = {x. timers w (ex_id x) = Some (ex_item x, ex_deadline_tick x) \<and> ex_deadline_tick x \<le> wh_current_tick w'}"
    and rest: "\<And>k. timers w' k = (case timers w k of None \<Rightarrow> None
          | Some (a, d) \<Rightarrow> if d \<le> wh_current_tick w' then None else Some (a, d))"
    using timers_fire_exactly_when_due [OF w(3) first_free_laws, of 30000000 "[]"] w(5-7) by auto
  have le: "(3 :: u64) \<le> wh_current_tick w'"
    using t by (simp add: word_le_nat_alt)
  have "\<lparr>ex_id = k, ex_item = 7, ex_deadline_tick = 3\<rparr> \<in> set xs"
    using le by (simp add: xs w(4))
  moreover have "ex_item x = 7" if "x \<in> set xs" for x
    using that by (simp add: xs w(4) split: if_splits)
  ultimately have "ex_item ` set xs = {7}"
    by force
  moreover have "timers w' = Map.empty"
    using rest le by (auto simp: fun_eq_iff w(4))
  ultimately show ?thesis
    using adv by blast
qed

text \<open>C20. The operations on single timers refine a map from identifiers to payload and deadline: inserting
  adds a timer under an identifier not in use, whose deadline is never before the requested delay and less
  than a tick after it; rescheduling replaces the deadline of an existing timer; cancelling removes the
  timer and returns its payload, or nothing for an unknown identifier. Identifiers of expired or cancelled
  timers are refused as stale, and a delay past the end of the clock is refused without any change.\<close>

theorem timer_operations_refine_map:
  assumes "wheel_reachable api w" "slotmap_laws api" "length (sm_issued (wh_tasks w)) < 2 ^ 31"
  shows "(case deadline_after w delay of
       Inl e \<Rightarrow> e = DelayOverflow \<and> wheel_insert api item delay w = (Inl e, w)
     | Inr d \<Rightarrow> (\<exists>k w'. wheel_insert api item delay w = (Inr k, w') \<and> timers w k = None
           \<and> timers w' = (timers w)(k \<mapsto> (item, d)))
         \<and> (0 < delay \<longrightarrow>
             unat (wh_remainder_nanos w) + delay \<le> (unat d - unat (wh_current_tick w)) * unat (wh_base_tick_nanos w)
             \<and> (unat d - unat (wh_current_tick w)) * unat (wh_base_tick_nanos w)
                 < unat (wh_remainder_nanos w) + delay + unat (wh_base_tick_nanos w)))
     \<and> (case timers w key of
         None \<Rightarrow> wheel_reschedule key delay w = (Inl StaleTimerId, w) \<and> wheel_cancel key w = (None, w)
       | Some (a, d0) \<Rightarrow>
           (case deadline_after w delay of
              Inl e \<Rightarrow> wheel_reschedule key delay w = (Inl e, w)
            | Inr d \<Rightarrow> \<exists>w'. wheel_reschedule key delay w = (Inr (), w') \<and> timers w' = (timers w)(key \<mapsto> (a, d)))
           \<and> (\<exists>w'. wheel_cancel key w = (Some a, w') \<and> timers w' = (timers w)(key := None)))"
proof
  have inv: "wheel_inv w"
    using reachable_inv assms by blast
  then have clock: "clock_ok w"
    by (auto simp: wheel_inv_def wheel_st_def)
  show "case deadline_after w delay of
       Inl e \<Rightarrow> e = DelayOverflow \<and> wheel_insert api item delay w = (Inl e, w)
     | Inr d \<Rightarrow> (\<exists>k w'. wheel_insert api item delay w = (Inr k, w') \<and> timers w k = None
           \<and> timers w' = (timers w)(k \<mapsto> (item, d)))
         \<and> (0 < delay \<longrightarrow>
             unat (wh_remainder_nanos w) + delay \<le> (unat d - unat (wh_current_tick w)) * unat (wh_base_tick_nanos w)
             \<and> (unat d - unat (wh_current_tick w)) * unat (wh_base_tick_nanos w)
                 < unat (wh_remainder_nanos w) + delay + unat (wh_base_tick_nanos w))"
  proof (cases "deadline_after w delay")
    case (Inl e)
    then have "e = DelayOverflow"
      by (auto simp: deadline_after_def Let_def result_simps split: if_splits)
    with Inl show ?thesis
      by (simp add: insert_refused)
  next
    case (Inr d)
    then show ?thesis
      using insert_ok [OF inv assms(2,3) Inr, of item] deadline_after_ok(2,3) [OF Inr clock] by auto
  qed
  show "case timers w key of
         None \<Rightarrow> wheel_reschedule key delay w = (Inl StaleTimerId, w) \<and> wheel_cancel key w = (None, w)
       | Some (a, d0) \<Rightarrow>
           (case deadline_after w delay of
              Inl e \<Rightarrow> wheel_reschedule key delay w = (Inl e, w)
            | Inr d \<Rightarrow> \<exists>w'. wheel_reschedule key delay w = (Inr (), w') \<and> timers w' = (timers w)(key \<mapsto> (a, d)))
           \<and> (\<exists>w'. wheel_cancel key w = (Some a, w') \<and> timers w' = (timers w)(key := None))"
  proof (cases "timers w key")
    case None
    then have "task w key = None"
      by (simp add: timers_def)
    with None show ?thesis
      by (simp add: reschedule_refused wheel_cancel_def)
  next
    case (Some p)
    obtain a d0 where p: "p = (a, d0)"
      by fastforce
    have "\<exists>w'. wheel_cancel key w = (Some a, w') \<and> timers w' = (timers w)(key := None)"
      using cancel_ok [OF inv, of key] Some p by auto
    then show ?thesis
      using Some p reschedule_refused(2) [of w key delay] reschedule_ok [OF inv, of key a d0 delay]
      by (cases "deadline_after w delay") auto
  qed
qed

theorem timer_operations_refine_map_witness:
  "\<exists>(w :: nat wheel) k w'. timers w k = Some (7, 3) \<and> wheel_cancel k w = (Some 7, w') \<and> timers w' = Map.empty"
proof -
  obtain c k w where w: "builder_build default_wheel_builder = Inr c"
    "wheel_insert first_free_api (7 :: nat) 25000000 (wheel_new c) = (Inr k, w)" "wheel_reachable first_free_api w"
    "timers w = [k \<mapsto> (7, 3)]" "unat (wh_current_tick w) = 0" "unat (wh_remainder_nanos w) = 0"
    "unat (wh_base_tick_nanos w) = 10000000" "sm_issued (wh_tasks w) = [k]"
    by (rule one_timer_wheel)
  have "\<exists>w'. wheel_cancel k w = (Some 7, w') \<and> timers w' = (timers w)(k := None)"
    using timer_operations_refine_map [OF w(3) first_free_laws, of 0 7 k] w(4,8) by simp
  with w(4) show ?thesis
    by force
qed

text \<open>The next deadline: on an empty wheel there is none; otherwise \<open>next_deadline\<close> looks at a timer with the
  smallest deadline of all and returns zero when it is due, else the exact time left to it in nanoseconds
  (as long as that fits a \<open>Duration\<close>).\<close>

theorem next_deadline_is_earliest:
  assumes "wheel_reachable api w" "slotmap_laws api"
  shows "(timers w = Map.empty \<longrightarrow> wheel_next_deadline w = Inr None)
     \<and> (timers w \<noteq> Map.empty \<longrightarrow>
        (\<exists>k a d. timers w k = Some (a, d) \<and> (\<forall>k' a' d'. timers w k' = Some (a', d') \<longrightarrow> d \<le> d')
          \<and> (d \<le> wh_current_tick w \<longrightarrow> wheel_next_deadline w = Inr (Some 0))
          \<and> (wh_current_tick w < d \<longrightarrow>
               (unat d - unat (wh_current_tick w)) * unat (wh_base_tick_nanos w) < 1000000000 * 2 ^ 64 \<longrightarrow>
               wheel_next_deadline w = Inr (Some ((unat d - unat (wh_current_tick w)) * unat (wh_base_tick_nanos w)
                 - unat (wh_remainder_nanos w))))))"
proof -
  have inv: "wheel_inv w"
    using reachable_inv assms by blast
  then have clock: "clock_ok w"
    by (auto simp: wheel_inv_def wheel_st_def)
  have due: "duration_until_tick w d = Inr 0" if "d \<le> wh_current_tick w" for d
    using that by (simp add: duration_until_tick_def)
  show ?thesis
  proof (cases "timers w = Map.empty")
    case True
    then show ?thesis
      using next_deadline_ok(1) [OF inv] by simp
  next
    case False
    then obtain k a d where d: "timers w k = Some (a, d)" "\<forall>k' a' d'. timers w k' = Some (a', d') \<longrightarrow> d \<le> d'"
        "wheel_next_deadline w = and_then (duration_until_tick w d) (\<lambda>x. Inr (Some x))"
      using next_deadline_ok(2) [OF inv] by blast
    with False due [of d] duration_until_ok [OF clock, of d] show ?thesis
      by (intro conjI impI exI [of _ k] exI [of _ a] exI [of _ d]) (simp_all add: and_then_def)
  qed
qed

theorem next_deadline_is_earliest_witness:
  "\<exists>w :: nat wheel. timers w \<noteq> Map.empty \<and> wheel_next_deadline w = Inr (Some 30000000)"
proof -
  obtain c k w where w: "builder_build default_wheel_builder = Inr c"
    "wheel_insert first_free_api (7 :: nat) 25000000 (wheel_new c) = (Inr k, w)" "wheel_reachable first_free_api w"
    "timers w = [k \<mapsto> (7, 3)]" "unat (wh_current_tick w) = 0" "unat (wh_remainder_nanos w) = 0"
    "unat (wh_base_tick_nanos w) = 10000000" "sm_issued (wh_tasks w) = [k]"
    by (rule one_timer_wheel)
  have "wh_current_tick w < 3"
    using w(5) by (simp add: word_less_nat_alt)
  moreover have "timers w \<noteq> Map.empty"
    by (simp add: w(4))
  ultimately show ?thesis
    using next_deadline_is_earliest [OF w(3) first_free_laws] w(4-7)
    by (intro exI [of _ w]) (auto split: if_splits)
qed

text \<open>C21. The wheel never becomes inconsistent: on a wheel that can be reached, no operation reports an
  invariant violation, and the loop that follows the list of a slot always ends (a list is never longer
  than the number of timers). An advance past the end of the clock is refused and leaves the wheel as it
  is.\<close>

theorem wheel_never_inconsistent:
  assumes "wheel_reachable api w" "slotmap_laws api" "length (sm_issued (wh_tasks w)) < 2 ^ 31"
  shows "fst (wheel_insert api item delay w) \<noteq> Inl InvariantViolation
     \<and> fst (wheel_reschedule key delay w) \<noteq> Inl InvariantViolation
     \<and> wheel_next_deadline w \<noteq> Inl InvariantViolation
     \<and> (\<exists>r w'. wheel_advance_by api elapsed out w = Some (r, w')
          \<and> (r = Inl ElapsedOverflow \<and> w' = w \<or> r = Inl ClockOverflow \<and> w' = w \<or> (\<exists>x. r = Inr x)))"
proof (intro conjI)
  have inv: "wheel_inv w"
    using reachable_inv assms by blast
  have no: "deadline_after w delay \<noteq> Inl InvariantViolation" "duration_until_tick w d \<noteq> Inl InvariantViolation" for d
    by (auto simp: deadline_after_def duration_until_tick_def Let_def result_simps split: if_splits)
  show "fst (wheel_insert api item delay w) \<noteq> Inl InvariantViolation"
    using insert_ok [OF inv assms(2,3), of delay _ item] insert_refused [of w delay _ api item] no(1)
    by (cases "deadline_after w delay") fastforce+
  show "fst (wheel_reschedule key delay w) \<noteq> Inl InvariantViolation"
    using reschedule_ok [OF inv, of key _ _ delay] reschedule_refused [of w key delay] no(1)
    by (cases "timers w key"; cases "deadline_after w delay") fastforce+
  show "wheel_next_deadline w \<noteq> Inl InvariantViolation"
  proof (cases "timers w = Map.empty")
    case False
    then obtain d where "wheel_next_deadline w = and_then (duration_until_tick w d) (\<lambda>x. Inr (Some x))"
      using next_deadline_ok(2) [OF inv] by blast
    with no(2) [of d] show ?thesis
      by (cases "duration_until_tick w d") (auto simp: and_then_def)
  qed (use next_deadline_ok(1) [OF inv] in simp)
  show "\<exists>r w'. wheel_advance_by api elapsed out w = Some (r, w')
      \<and> (r = Inl ElapsedOverflow \<and> w' = w \<or> r = Inl ClockOverflow \<and> w' = w \<or> (\<exists>x. r = Inr x))"
    using advance_ok [OF inv assms(2), of elapsed out] advance_refused [of w elapsed api out] by blast
qed

theorem wheel_never_inconsistent_witness:
  "\<exists>w :: nat wheel. timers w = Map.empty \<and> wheel_next_deadline w \<noteq> Inl InvariantViolation"
proof -
  obtain c where c: "builder_build default_wheel_builder = Inr c"
    using default_wheel_builds by blast
  have "length (sm_issued (wh_tasks (wheel_new c :: nat wheel))) < 2 ^ 31"
    by (simp add: wheel_new_def sm_new_def)
  from wheel_never_inconsistent [OF reach_new [OF c] first_free_laws this] new_wheel_ok(2) [OF c refl] show ?thesis
    by blast
qed

end
