(* ===== verification/Conn_Timers.thy ===== *)
theory Conn_Timers
  imports Conn_Config Wheel_Properties
begin

text \<open>
  The timers of a connection, \<open>reliable-core/src/connection/timers.rs\<close>: a timing wheel and the
  identifiers of the timers that exist once per connection. The operations are those of the wheel, with
  its errors as connection errors.
\<close>

section \<open>Model\<close>

record timer_state =
  ts_wheel :: "timer_event wheel"
  ts_handshake :: "u64 option"
  ts_ack :: "u64 option"
  ts_keepalive :: "u64 option"
  ts_idle :: "u64 option"
  ts_close :: "u64 option"

type_synonym 'x timer_op = "(timer_state, stop, 'x) st"

definition timer_state_new :: "connection_config \<Rightarrow> core_error + timer_state" where
  "timer_state_new c =
     and_then (map_err InvalidConfig (config_wheel c)) (\<lambda>wc.
     Inr \<lparr>ts_wheel = wheel_new wc, ts_handshake = None, ts_ack = None, ts_keepalive = None,
          ts_idle = None, ts_close = None\<rparr>)"

definition tm_advance :: "slotmap_api \<Rightarrow> duration \<Rightarrow> timer_event list timer_op" where
  "tm_advance api elapsed t =
     (case wheel_advance_by api elapsed [] (ts_wheel t) of
        None \<Rightarrow> (Inl Endless, t)
      | Some (Inl e, w) \<Rightarrow> (Inl (Stop (Timer e)), t\<lparr>ts_wheel := w\<rparr>)
      | Some (Inr (_, expired), w) \<Rightarrow> (Inr (map ex_item expired), t\<lparr>ts_wheel := w\<rparr>))"

definition tm_next_deadline :: "timer_state \<Rightarrow> core_error + duration option" where
  "tm_next_deadline t = map_err Timer (wheel_next_deadline (ts_wheel t))"

definition tm_schedule :: "slotmap_api \<Rightarrow> timer_event \<Rightarrow> duration \<Rightarrow> u64 timer_op" where
  "tm_schedule api event delay =
     st_field ts_wheel (\<lambda>w t. t\<lparr>ts_wheel := w\<rparr>) (\<lambda>e. Stop (Timer e)) (wheel_insert api event delay)"

definition schedule_handshake :: "slotmap_api \<Rightarrow> duration \<Rightarrow> unit timer_op" where
  "schedule_handshake api delay =
     st_bind (tm_schedule api HandshakeTimeout delay) (\<lambda>id. st_modify (\<lambda>t. t\<lparr>ts_handshake := Some id\<rparr>))"

definition schedule_ack :: "slotmap_api \<Rightarrow> duration \<Rightarrow> unit timer_op" where
  "schedule_ack api delay =
     st_bind (st_read (\<lambda>t. ts_ack t = None)) (\<lambda>none.
     st_when none
       (st_bind (tm_schedule api AckDelay delay) (\<lambda>id. st_modify (\<lambda>t. t\<lparr>ts_ack := Some id\<rparr>))))"

definition schedule_keepalive :: "slotmap_api \<Rightarrow> duration \<Rightarrow> unit timer_op" where
  "schedule_keepalive api delay =
     st_bind (tm_schedule api Keepalive delay) (\<lambda>id. st_modify (\<lambda>t. t\<lparr>ts_keepalive := Some id\<rparr>))"

text \<open>\<open>slot.take()\<close> and the cancellation of what was in it.\<close>

definition cancel_slot :: "timer_event wheel \<Rightarrow> u64 option \<Rightarrow> timer_event wheel" where
  "cancel_slot w slot = (case slot of None \<Rightarrow> w | Some timer \<Rightarrow> snd (wheel_cancel timer w))"

definition schedule_idle :: "slotmap_api \<Rightarrow> duration \<Rightarrow> unit timer_op" where
  "schedule_idle api delay =
     st_then (st_modify (\<lambda>t. t\<lparr>ts_wheel := cancel_slot (ts_wheel t) (ts_idle t), ts_idle := None\<rparr>))
     (st_bind (tm_schedule api IdleTimeout delay) (\<lambda>id. st_modify (\<lambda>t. t\<lparr>ts_idle := Some id\<rparr>)))"

definition schedule_close :: "slotmap_api \<Rightarrow> duration \<Rightarrow> unit timer_op" where
  "schedule_close api delay =
     st_bind (tm_schedule api CloseTimeout delay) (\<lambda>id. st_modify (\<lambda>t. t\<lparr>ts_close := Some id\<rparr>))"

definition tm_cancel :: "u64 \<Rightarrow> timer_state \<Rightarrow> timer_state" where
  "tm_cancel timer t = t\<lparr>ts_wheel := snd (wheel_cancel timer (ts_wheel t))\<rparr>"

definition clear_timer_slot :: "timer_event \<Rightarrow> timer_state \<Rightarrow> timer_state" where
  "clear_timer_slot event t =
     (case event of
        HandshakeTimeout \<Rightarrow> t\<lparr>ts_handshake := None\<rparr>
      | AckDelay \<Rightarrow> t\<lparr>ts_ack := None\<rparr>
      | Keepalive \<Rightarrow> t\<lparr>ts_keepalive := None\<rparr>
      | IdleTimeout \<Rightarrow> t\<lparr>ts_idle := None\<rparr>
      | CloseTimeout \<Rightarrow> t\<lparr>ts_close := None\<rparr>
      | Retransmit _ _ \<Rightarrow> t)"

definition cancel_ack :: "timer_state \<Rightarrow> timer_state" where
  "cancel_ack t = t\<lparr>ts_wheel := cancel_slot (ts_wheel t) (ts_ack t), ts_ack := None\<rparr>"

definition cancel_handshake :: "timer_state \<Rightarrow> timer_state" where
  "cancel_handshake t = t\<lparr>ts_wheel := cancel_slot (ts_wheel t) (ts_handshake t), ts_handshake := None\<rparr>"

definition cancel_all :: "slotmap_api \<Rightarrow> timer_state \<Rightarrow> timer_state" where
  "cancel_all api t =
     (let w = cancel_slot (ts_wheel t) (ts_handshake t);
          w = cancel_slot w (ts_ack t);
          w = cancel_slot w (ts_keepalive t);
          w = cancel_slot w (ts_idle t);
          w = cancel_slot w (ts_close t)
      in t\<lparr>ts_wheel := snd (wheel_clear api [] w), ts_handshake := None, ts_ack := None,
           ts_keepalive := None, ts_idle := None, ts_close := None\<rparr>)"

end
