(* ===== verification/Flow_Control.thy ===== *)
theory Flow_Control
  imports Core_Error
begin

text \<open>
  Connection-level flow control, \<open>reliable-core/src/flow_control.rs\<close>: the sender's budget and the
  receiver's advertised window. The lemmas show that new data never exceeds the peer's limit, that the
  receiver's limit never shrinks and stays one window ahead of what has been consumed.
\<close>

section \<open>Model\<close>

record send_flow_control =
  sfc_connection_max_offset :: u64
  sfc_connection_sent_offset :: u64

definition send_flow_control_new :: "u64 \<Rightarrow> send_flow_control" where
  "send_flow_control_new m = \<lparr>sfc_connection_max_offset = m, sfc_connection_sent_offset = 0\<rparr>"

definition sfc_update :: "send_flow_control \<Rightarrow> u64 \<Rightarrow> send_flow_control" where
  "sfc_update c m = c\<lparr>sfc_connection_max_offset := max (sfc_connection_max_offset c) m\<rparr>"

definition sfc_set_max_offset :: "send_flow_control \<Rightarrow> u64 \<Rightarrow> send_flow_control" where
  "sfc_set_max_offset c m = c\<lparr>sfc_connection_max_offset := m\<rparr>"

definition sfc_can_send :: "send_flow_control \<Rightarrow> usize \<Rightarrow> bool \<Rightarrow> bool" where
  "sfc_can_send c len retransmission \<longleftrightarrow>
     retransmission \<or>
     (case checked_add (sfc_connection_sent_offset c) (of_nat len) of
        None \<Rightarrow> False
      | Some stop \<Rightarrow> stop \<le> sfc_connection_max_offset c)"

definition sfc_account_new_data :: "send_flow_control \<Rightarrow> usize \<Rightarrow> send_flow_control" where
  "sfc_account_new_data c len =
     c\<lparr>sfc_connection_sent_offset := saturating_add (sfc_connection_sent_offset c) (of_nat len)\<rparr>"

record receive_flow_control =
  rfc_max_offset :: u64
  rfc_unique_received :: u64
  rfc_consumed :: u64
  rfc_window_size :: u64
  rfc_advertised_offset :: u64

definition receive_flow_control_new :: "u64 \<Rightarrow> receive_flow_control" where
  "receive_flow_control_new window =
     \<lparr>rfc_max_offset = window, rfc_unique_received = 0, rfc_consumed = 0, rfc_window_size = window,
      rfc_advertised_offset = window\<rparr>"

definition rfc_check ::
  "receive_flow_control \<Rightarrow> u64 option \<Rightarrow> u64 \<Rightarrow> usize \<Rightarrow> core_error + unit" where
  "rfc_check c sid stop new_bytes =
     (if stop > rfc_max_offset c then Inl (FlowControlViolation sid)
      else and_then (ok_or (FlowControlViolation sid)
        (checked_add (rfc_unique_received c) (of_nat new_bytes))) (\<lambda>_. Inr ()))"

definition rfc_account ::
  "receive_flow_control \<Rightarrow> u64 option \<Rightarrow> usize \<Rightarrow> core_error + receive_flow_control" where
  "rfc_account c sid new_bytes =
     and_then (ok_or (FlowControlViolation sid)
       (checked_add (rfc_unique_received c) (of_nat new_bytes))) (\<lambda>n.
     Inr (c\<lparr>rfc_unique_received := n\<rparr>))"

definition rfc_consume :: "receive_flow_control \<Rightarrow> usize \<Rightarrow> u64 option \<times> receive_flow_control" where
  "rfc_consume c amount =
     (let c = c\<lparr>rfc_consumed := saturating_add (rfc_consumed c) (of_nat amount)\<rparr>;
          desired = saturating_add (rfc_consumed c) (rfc_window_size c)
      in if desired > rfc_advertised_offset c then
           (Some desired, c\<lparr>rfc_advertised_offset := desired, rfc_max_offset := desired\<rparr>)
         else (None, c))"

section \<open>Invariants\<close>

text \<open>The window advertised is the limit enforced, one window ahead of what has been consumed.\<close>

definition rfc_inv :: "receive_flow_control \<Rightarrow> bool" where
  "rfc_inv c \<longleftrightarrow> rfc_max_offset c = rfc_advertised_offset c
     \<and> rfc_advertised_offset c = saturating_add (rfc_consumed c) (rfc_window_size c)"

lemma receive_flow_control_new_inv: "rfc_inv (receive_flow_control_new w)"
  by (simp add: rfc_inv_def receive_flow_control_new_def)

lemma rfc_consume_inv:
  assumes "rfc_inv c" "rfc_consume c amount = (x, c')"
  shows "rfc_inv c'" "rfc_max_offset c \<le> rfc_max_offset c'"
    "x = (if rfc_max_offset c < rfc_max_offset c' then Some (rfc_max_offset c') else None)"
proof -
  have mono: "saturating_add (rfc_consumed c) (rfc_window_size c)
      \<le> saturating_add (saturating_add (rfc_consumed c) (of_nat amount)) (rfc_window_size c)"
    by (simp add: word_le_nat_alt unat_saturating_add)
  with assms show "rfc_inv c'" "rfc_max_offset c \<le> rfc_max_offset c'"
    "x = (if rfc_max_offset c < rfc_max_offset c' then Some (rfc_max_offset c') else None)"
    by (auto simp: rfc_inv_def rfc_consume_def Let_def split: if_splits)
qed

section \<open>Properties\<close>

text \<open>Sending within the budget: if sending new data of some length is allowed, then accounting for
  it keeps the offset sent at or below the peer's limit and is exact; raising the limit never
  withdraws permission.\<close>

theorem new_data_within_limit:
  assumes "sfc_can_send c len False" "len < 2 ^ 64"
  shows "unat (sfc_connection_sent_offset (sfc_account_new_data c len)) = unat (sfc_connection_sent_offset c) + len
     \<and> sfc_connection_sent_offset (sfc_account_new_data c len) \<le> sfc_connection_max_offset c
     \<and> sfc_can_send (sfc_update c m) len False"
  using assms
  by (auto simp: sfc_can_send_def sfc_account_new_data_def sfc_update_def saturating_add_def checked_add_def
      unat_of_nat_small word_nat_simps le_max_iff_disj split: if_splits)

theorem new_data_within_limit_witness:
  "unat (sfc_connection_sent_offset (sfc_account_new_data (send_flow_control_new 10) 10)) = 10"
  using new_data_within_limit [of "send_flow_control_new 10" 10 0]
  by (simp add: sfc_can_send_def send_flow_control_new_def checked_add_def)

text \<open>The receive window slides: consuming data keeps the limit exactly one window ahead of the bytes
  consumed (up to the 64-bit bound), never lowers it, and announces a new limit exactly when it rises.\<close>

theorem receive_window_slides:
  assumes "rfc_inv c" "rfc_consume c amount = (x, c')"
  shows "rfc_inv c' \<and> rfc_max_offset c \<le> rfc_max_offset c'
     \<and> unat (rfc_max_offset c') = min (unat (rfc_consumed c') + unat (rfc_window_size c)) (2 ^ 64 - 1)
     \<and> x = (if rfc_max_offset c < rfc_max_offset c' then Some (rfc_max_offset c') else None)"
  using rfc_consume_inv [OF assms] assms(2)
  by (auto simp: rfc_inv_def unat_saturating_add rfc_consume_def Let_def split: if_splits)

theorem receive_window_slides_witness:
  "fst (rfc_consume (receive_flow_control_new 100) 7) = Some 107"
  using receive_window_slides [OF receive_flow_control_new_inv [of 100], of 7 "Some 107"
      "\<lparr>rfc_max_offset = 107, rfc_unique_received = 0, rfc_consumed = 7, rfc_window_size = 100, rfc_advertised_offset = 107\<rparr>"]
  by (simp add: rfc_consume_def receive_flow_control_new_def saturating_add_def Let_def)

end
