(* ===== verification/Stream_Manager.thy ===== *)
theory Stream_Manager
  imports Conn_Config Send_Stream Receive_Stream Flow_Control State_Result
begin

text \<open>
  The streams of a connection, \<open>reliable-core/src/connection/streams.rs\<close>: a map from identifiers to the
  two halves of a stream with its state and its receive window.
\<close>

section \<open>Model\<close>

record stream_record =
  sr_id :: stream_id
  sr_bidirectional :: bool
  sr_state :: stream_state
  sr_send :: send_stream
  sr_recv :: receive_stream
  sr_recv_flow :: receive_flow_control

definition stream_record_info :: "stream_record \<Rightarrow> stream_info" where
  "stream_record_info s =
     \<lparr>si_stream_id = sr_id s, si_state = sr_state s, si_bidirectional = sr_bidirectional s,
      si_send_offset = ss_next_offset (sr_send s), si_receive_offset = rcv_next_offset (sr_recv s),
      si_receive_window = rcv_max_offset (sr_recv s), si_buffered_bytes = rcv_buffered_len (sr_recv s)\<rparr>"

record stream_manager =
  mg_next_stream_number :: u64
  mg_streams :: "(stream_id, stream_record) btree_map"

record stream_read =
  rd_data :: bytes
  rd_eof :: bool
  rd_window_update :: "u64 option"

record stream_data_status =
  st_readable :: bool
  st_finished :: bool
  st_buffered :: usize

type_synonym 'x manager_op = "(stream_manager, core_error, 'x) st"

definition mgr_has_pending_data :: "stream_manager \<Rightarrow> bool" where
  "mgr_has_pending_data m \<longleftrightarrow> (\<exists>s \<in> set (bt_values (mg_streams m)). ss_has_pending_data (sr_send s))"

definition mgr_new :: "u64 \<Rightarrow> stream_manager" where
  "mgr_new n = \<lparr>mg_next_stream_number = n, mg_streams = []\<rparr>"

definition mgr_len :: "stream_manager \<Rightarrow> usize" where
  "mgr_len m = length (mg_streams m)"

definition mgr_info :: "stream_manager \<Rightarrow> stream_id \<Rightarrow> core_error + stream_info" where
  "mgr_info m sid = and_then (ok_or (UnknownStream sid) (bt_get (mg_streams m) sid)) (\<lambda>s. Inr (stream_record_info s))"

definition mgr_send_window :: "stream_manager \<Rightarrow> stream_id \<Rightarrow> core_error + u64" where
  "mgr_send_window m sid =
     and_then (ok_or (UnknownStream sid) (bt_get (mg_streams m) sid)) (\<lambda>s. Inr (ss_max_offset (sr_send s)))"

definition stream_record_new :: "stream_id \<Rightarrow> bool \<Rightarrow> u64 \<Rightarrow> u64 \<Rightarrow> stream_record" where
  "stream_record_new sid bidirectional send_window receive_window =
     \<lparr>sr_id = sid, sr_bidirectional = bidirectional, sr_state = Open,
      sr_send = send_stream_new sid send_window, sr_recv = receive_stream_new sid receive_window,
      sr_recv_flow = receive_flow_control_new receive_window\<rparr>"

definition mgr_insert :: "stream_id \<Rightarrow> bool \<Rightarrow> u64 \<Rightarrow> u64 \<Rightarrow> u64 \<Rightarrow> unit manager_op" where
  "mgr_insert sid bidirectional send_window expected_parity receive_window m =
     (if bt_get (mg_streams m) sid \<noteq> None then (Inr (), m)
      else if sid mod 2 \<noteq> expected_parity then (Inl (InvalidStreamId sid), m)
      else (Inr (), m\<lparr>mg_streams := bt_insert sid
        (stream_record_new sid bidirectional send_window receive_window) (mg_streams m)\<rparr>))"

definition mgr_open_local :: "connection_role \<Rightarrow> u64 \<Rightarrow> u64 \<Rightarrow> stream_id manager_op" where
  "mgr_open_local role send_window receive_window =
     st_bind (st_read mg_next_stream_number) (\<lambda>sid.
     st_bind (st_lift (ok_or (InvalidState ''allocate stream ID'') (checked_add sid 2))) (\<lambda>raw.
     st_then (st_modify (\<lambda>m. m\<lparr>mg_next_stream_number := raw\<rparr>))
     (st_then (mgr_insert sid True send_window (local_stream_parity role) receive_window)
     (st_return sid))))"

text \<open>\<open>self.streams.get_mut(&stream_id).ok_or(UnknownStream)?\<close>, then an operation on the record.\<close>

definition on_stream ::
  "stream_id \<Rightarrow> (stream_record \<Rightarrow> (core_error + 'x) \<times> stream_record) \<Rightarrow> 'x manager_op" where
  "on_stream sid f m =
     (case bt_get (mg_streams m) sid of
        None \<Rightarrow> (Inl (UnknownStream sid), m)
      | Some s \<Rightarrow> (case f s of (r, s) \<Rightarrow> (r, m\<lparr>mg_streams := bt_insert sid s (mg_streams m)\<rparr>)))"

definition mgr_write :: "stream_id \<Rightarrow> bytes \<Rightarrow> bool \<Rightarrow> usize \<Rightarrow> usize \<Rightarrow> usize manager_op" where
  "mgr_write sid data fin max_buffer max_chunk =
     on_stream sid (\<lambda>s.
       if sr_state s \<noteq> Open then (Inl (InvalidState ''write closed stream''), s)
       else (case ss_write (sr_send s) data fin max_buffer max_chunk of
          (r, snd') \<Rightarrow> (r, s\<lparr>sr_send := snd'\<rparr>)))"

definition record_read :: "usize \<Rightarrow> stream_record \<Rightarrow> stream_read \<times> stream_record" where
  "record_read max_len s =
     (let (data, recv) = rcv_read (sr_recv s) max_len;
          (window_update, flow) = rfc_consume (sr_recv_flow s) (length data);
          recv = (case window_update of None \<Rightarrow> recv | Some off \<Rightarrow> rcv_set_max_offset recv off);
          eof = rcv_is_finished recv
      in (\<lparr>rd_data = data, rd_eof = eof, rd_window_update = window_update\<rparr>,
          s\<lparr>sr_recv := recv, sr_recv_flow := flow, sr_state := (if eof then Finished else sr_state s)\<rparr>))"

definition mgr_read :: "stream_id \<Rightarrow> usize \<Rightarrow> stream_read manager_op" where
  "mgr_read sid max_len =
     on_stream sid (\<lambda>s.
       case sr_state s of
         Reset code \<Rightarrow> (Inl (StreamReset_CE sid code), s)
       | _ \<Rightarrow> (case record_read max_len s of (rd, s) \<Rightarrow> (Inr rd, s)))"

definition mgr_new_data_bytes :: "stream_manager \<Rightarrow> stream_data \<Rightarrow> usize \<Rightarrow> core_error + usize" where
  "mgr_new_data_bytes m d max_receive_buffer =
     and_then (ok_or (UnknownStream (sd_stream_id d)) (bt_get (mg_streams m) (sd_stream_id d))) (\<lambda>s.
     if sr_state s \<noteq> Open then Inr 0
     else
       and_then (rcv_new_bytes (sr_recv s) (sd_offset d) (sd_data d)) (\<lambda>new_bytes.
       if new_bytes > max_receive_buffer - rcv_buffered_len (sr_recv s) then Inl ReceiveBufferFull
       else Inr new_bytes))"

definition recv_status :: "receive_stream \<Rightarrow> stream_data_status" where
  "recv_status r =
     \<lparr>st_readable = rcv_readable r, st_finished = rcv_is_finished r, st_buffered = rcv_buffered_len r\<rparr>"

definition mgr_insert_data :: "stream_data \<Rightarrow> stream_data_status manager_op" where
  "mgr_insert_data d =
     on_stream (sd_stream_id d) (\<lambda>s.
       if sr_state s \<noteq> Open then
         (Inr \<lparr>st_readable = False, st_finished = False, st_buffered = rcv_buffered_len (sr_recv s)\<rparr>, s)
       else (case rcv_insert (sr_recv s) (sd_offset d) (sd_data d) (sd_fin d) of
           (Inl e, recv) \<Rightarrow> (Inl e, s\<lparr>sr_recv := recv\<rparr>)
         | (Inr _, recv) \<Rightarrow> (Inr (recv_status recv), s\<lparr>sr_recv := recv\<rparr>)))"

definition mgr_finish :: "stream_id \<Rightarrow> stream_manager \<Rightarrow> stream_manager" where
  "mgr_finish sid m =
     (case bt_get (mg_streams m) sid of
        None \<Rightarrow> m
      | Some s \<Rightarrow> m\<lparr>mg_streams := bt_insert sid (s\<lparr>sr_state := Finished\<rparr>) (mg_streams m)\<rparr>)"

definition mgr_reset :: "stream_id \<Rightarrow> u32 \<Rightarrow> unit manager_op" where
  "mgr_reset sid code = on_stream sid (\<lambda>s. (Inr (), s\<lparr>sr_state := Reset code\<rparr>))"

definition mgr_update_send_window :: "stream_id \<Rightarrow> u64 \<Rightarrow> unit manager_op" where
  "mgr_update_send_window sid off =
     on_stream sid (\<lambda>s. (Inr (), s\<lparr>sr_send := ss_update_window (sr_send s) off\<rparr>))"

text \<open>The loop of \<open>take_sendable\<close> over the identifiers in ascending order; a stream whose first item does
  not fit its window is passed over.\<close>

fun take_sendable_loop :: "stream_id list \<Rightarrow> stream_manager \<Rightarrow> queued_frame option \<times> stream_manager" where
  "take_sendable_loop [] m = (None, m)"
| "take_sendable_loop (sid # sids) m =
     (case bt_get (mg_streams m) sid of
        None \<Rightarrow> take_sendable_loop sids m
      | Some s \<Rightarrow>
          (case ss_front_sendable (sr_send s) of
             None \<Rightarrow> take_sendable_loop sids m
           | Some item \<Rightarrow>
               let stop = saturating_add (pd_offset item) (of_nat (length (pd_data item))) in
               if pd_retransmit_count item = 0 \<and> stop > ss_max_offset (sr_send s) then
                 take_sendable_loop sids m
               else
                 (case ss_pop_sendable (sr_send s) of
                    (None, snd') \<Rightarrow> (None, m\<lparr>mg_streams := bt_insert sid (s\<lparr>sr_send := snd'\<rparr>) (mg_streams m)\<rparr>)
                  | (Some item, snd') \<Rightarrow>
                      (Some (queued_frame_stream_data sid (pd_offset item) (pd_fin item) (pd_data item)
                         (pd_retransmit_count item)),
                       m\<lparr>mg_streams := bt_insert sid (s\<lparr>sr_send := snd'\<rparr>) (mg_streams m)\<rparr>))))"

definition mgr_take_sendable :: "stream_manager \<Rightarrow> queued_frame option \<times> stream_manager" where
  "mgr_take_sendable m = take_sendable_loop (bt_keys (mg_streams m)) m"

definition mgr_requeue :: "stream_data \<Rightarrow> u32 \<Rightarrow> unit manager_op" where
  "mgr_requeue d n = on_stream (sd_stream_id d) (\<lambda>s. (Inr (), s\<lparr>sr_send := ss_requeue (sr_send s) d n\<rparr>))"

end
