(* ===== verification/Received_Packets.thy ===== *)
theory Received_Packets
  imports Ack
begin

text \<open>
  The receiver's record of packet numbers, \<open>reliable-core/src/ack.rs\<close>: a canonical list of at most 32
  ranges from which ACK frames are built. The lemmas show that \<open>record\<close> keeps the list canonical,
  adds exactly the new number (up to the truncation of the oldest ranges), answers whether the number
  was unknown, and that \<open>frame\<close> never fails.
\<close>

section \<open>Model\<close>

record received_packets =
  rp_ranges :: "ack_range list"
  rp_largest_received_at :: "duration option"

definition received_packets_new :: received_packets where
  "received_packets_new = \<lparr>rp_ranges = [], rp_largest_received_at = None\<rparr>"

text \<open>The loop of \<open>merge_adjacent\<close>; \<open>merged\<close> is the vector under construction.\<close>

fun merge_loop :: "ack_range list \<Rightarrow> ack_range list \<Rightarrow> ack_range list" where
  "merge_loop merged [] = merged"
| "merge_loop merged (r # rs) =
     (if merged \<noteq> [] \<and> saturating_add (range_end r) 1 \<ge> range_start (last merged) then
        let previous = last merged in
        merge_loop (butlast merged @
          [\<lparr>range_start = min (range_start previous) (range_start r),
            range_end = max (range_end previous) (range_end r)\<rparr>]) rs
      else merge_loop (merged @ [r]) rs)"

definition merge_adjacent :: "ack_range list \<Rightarrow> ack_range list" where
  "merge_adjacent rs = merge_loop [] rs"

definition rp_record :: "received_packets \<Rightarrow> packet_number \<Rightarrow> duration \<Rightarrow> bool \<times> received_packets" where
  "rp_record rp pn now =
     (if \<exists>r \<in> set (rp_ranges rp). ack_range_contains r pn then (False, rp)
      else
        let ranges = merge_adjacent
              (sort_descending (rp_ranges rp @ [\<lparr>range_start = pn, range_end = pn\<rparr>]));
            received_at = (case ranges of
              [] \<Rightarrow> rp_largest_received_at rp
            | r # _ \<Rightarrow> if range_end r = pn then Some now else rp_largest_received_at rp)
        in (True, \<lparr>rp_ranges = (if length ranges > MAX_ACK_RANGES then take MAX_ACK_RANGES ranges else ranges),
                   rp_largest_received_at = received_at\<rparr>))"

definition rp_largest :: "received_packets \<Rightarrow> packet_number option" where
  "rp_largest rp = (case rp_ranges rp of [] \<Rightarrow> None | r # _ \<Rightarrow> Some (range_end r))"

definition rp_frame ::
  "received_packets \<Rightarrow> duration \<Rightarrow> duration \<Rightarrow> protocol_error + ack_frame option" where
  "rp_frame rp now max_delay =
     (case rp_largest rp of
        None \<Rightarrow> Inr None
      | Some _ \<Rightarrow>
          let delay = (case rp_largest_received_at rp of
                None \<Rightarrow> 0
              | Some received_at \<Rightarrow> min (now - received_at) max_delay)
          in
          and_then (ack_ranges_new (rp_ranges rp)) (\<lambda>ranges.
          and_then (ack_frame_new delay ranges) (\<lambda>f.
          Inr (Some f))))"

section \<open>Merging\<close>

definition rp_inv :: "received_packets \<Rightarrow> bool" where
  "rp_inv rp \<longleftrightarrow> canonical (rp_ranges rp) \<and> length (rp_ranges rp) \<le> MAX_ACK_RANGES"

lemma canonical_snoc:
  "canonical (rs @ [r]) \<longleftrightarrow>
     canonical rs \<and> range_start r \<le> range_end r \<and> (\<forall>q \<in> set rs. apart q r)"
  by (auto simp: canonical_def sorted_wrt_append)

lemma merge_test: "saturating_add (range_end r) 1 \<ge> range_start p \<longleftrightarrow> \<not> apart p r"
  using unsigned_less [of "range_start p", where 'a = nat]
  by (auto simp: apart_def word_le_nat_alt word_nat_simps)

lemma covers_merged:
  assumes "\<not> apart p r" "range_end r \<le> range_end p" "range_start r \<le> range_end r"
    "range_start p \<le> range_end p"
  shows "ack_range_contains \<lparr>range_start = min (range_start p) (range_start r),
       range_end = max (range_end p) (range_end r)\<rparr> n
     \<longleftrightarrow> ack_range_contains p n \<or> ack_range_contains r n"
  using assms
  by (auto simp: ack_range_contains_def apart_def word_le_nat_alt unat_min unat_max)

definition joined :: "ack_range \<Rightarrow> ack_range \<Rightarrow> ack_range" where
  "joined p r = \<lparr>range_start = min (range_start p) (range_start r),
     range_end = max (range_end p) (range_end r)\<rparr>"

lemma canonical_joined:
  assumes "canonical (ps @ [p])" "range_end r \<le> range_end p" "range_start r \<le> range_end r"
  shows "canonical (ps @ [joined p r])"
  using assms by (auto simp: canonical_snoc joined_def apart_def max_def min_def)

lemma merge_loop_correct:
  assumes "canonical merged" "\<forall>r \<in> set rs. range_start r \<le> range_end r"
    and "sorted_wrt (\<lambda>a b. range_end b \<le> range_end a) rs"
    and "merged \<noteq> [] \<Longrightarrow> \<forall>r \<in> set rs. range_end r \<le> range_end (last merged)"
  shows "canonical (merge_loop merged rs) \<and> (ack_ranges_contains (merge_loop merged rs) n
       \<longleftrightarrow> ack_ranges_contains merged n \<or> ack_ranges_contains rs n)"
  using assms
proof (induction rs arbitrary: merged)
  case Nil
  then show ?case by (simp add: ack_ranges_contains_def)
next
  case (Cons r rs)
  show ?case
  proof (cases "merged \<noteq> [] \<and> \<not> apart (last merged) r")
    case True
    define ps p where "ps = butlast merged" and "p = last merged"
    then have m: "merged = ps @ [p]"
      using True by simp
    have p: "range_start p \<le> range_end p" "range_end r \<le> range_end p" "range_start r \<le> range_end r"
      using Cons.prems True by (auto simp: m canonical_snoc)
    have step: "merge_loop merged (r # rs) = merge_loop (ps @ [joined p r]) rs"
      using True by (simp add: m merge_test joined_def Let_def)
    have "canonical (ps @ [joined p r])"
      using Cons.prems(1) p by (intro canonical_joined) (auto simp: m)
    moreover have "\<forall>q \<in> set rs. range_end q \<le> range_end (joined p r)"
      using Cons.prems(3) by (auto simp: joined_def le_max_iff_disj)
    ultimately have "canonical (merge_loop (ps @ [joined p r]) rs)
        \<and> (ack_ranges_contains (merge_loop (ps @ [joined p r]) rs) n
           \<longleftrightarrow> ack_ranges_contains (ps @ [joined p r]) n \<or> ack_ranges_contains rs n)"
      using Cons.prems by (intro Cons.IH) auto
    moreover have "ack_range_contains (joined p r) n \<longleftrightarrow> ack_range_contains p n \<or> ack_range_contains r n"
      unfolding joined_def using True p by (intro covers_merged) (auto simp: m)
    ultimately show ?thesis
      unfolding step by (auto simp: m ack_ranges_contains_def)
  next
    case False
    then have step: "merge_loop merged (r # rs) = merge_loop (merged @ [r]) rs"
      by (auto simp: merge_test)
    have "apart q r" if "q \<in> set merged" for q
    proof -
      have ne: "merged \<noteq> []" and l: "apart (last merged) r"
        using that False by auto
      from ne Cons.prems(1) have "q = last merged \<or> apart q (last merged)"
        using that by (metis append_butlast_last_id canonical_snoc in_set_conv_decomp rotate1.simps(2) set_ConsD set_rotate1)
      moreover have "range_start (last merged) \<le> range_end (last merged)"
        using ne Cons.prems(1) by (simp add: canonical_def)
      ultimately show ?thesis
        using l apart_trans by blast
    qed
    then have "canonical (merged @ [r])"
      using Cons.prems by (simp add: canonical_snoc)
    then have "canonical (merge_loop (merged @ [r]) rs)
        \<and> (ack_ranges_contains (merge_loop (merged @ [r]) rs) n
           \<longleftrightarrow> ack_ranges_contains (merged @ [r]) n \<or> ack_ranges_contains rs n)"
      using Cons.prems by (intro Cons.IH) auto
    then show ?thesis
      unfolding step by (auto simp: ack_ranges_contains_def)
  qed
qed

lemma sort_descending_sorted: "sorted_wrt (\<lambda>a b. range_end b \<le> range_end a) (sort_descending rs)"
proof -
  let ?key = "\<lambda>r. (range_end r, range_start r)"
  have "sorted_wrt (\<lambda>a b. ?key a \<le> ?key b) (sort_key ?key rs)"
    using sorted_sort_key [of ?key rs] by (simp add: sorted_map)
  then have "sorted_wrt (\<lambda>a b. range_end a \<le> range_end b) (sort_key ?key rs)"
    by (rule sorted_wrt_mono_rel [rotated]) auto
  then show ?thesis
    by (simp add: sort_descending_def sorted_wrt_rev)
qed

lemma merge_adjacent_correct:
  assumes "\<forall>r \<in> set rs. range_start r \<le> range_end r"
  shows "canonical (merge_adjacent (sort_descending rs))"
    and "ack_ranges_contains (merge_adjacent (sort_descending rs)) n \<longleftrightarrow> ack_ranges_contains rs n"
  using merge_loop_correct [of "[]" "sort_descending rs" n] assms
  by (auto simp: merge_adjacent_def sort_descending_sorted ack_ranges_contains_def)

text \<open>Truncation drops the ranges below the lowest one kept.\<close>

lemma canonical_take: "canonical rs \<Longrightarrow> canonical (take k rs)"
  by (auto simp: canonical_def sorted_wrt_take dest: in_set_takeD)

lemma contains_take:
  assumes c: "canonical rs" and k: "0 < k" "rs \<noteq> []"
  shows "ack_ranges_contains (take k rs) n \<longleftrightarrow>
     ack_ranges_contains rs n \<and> range_start (last (take k rs)) \<le> n"
proof -
  let ?l = "last (take k rs)"
  have l: "?l \<in> set (take k rs)"
    using k by (intro last_in_set) auto
  have low: "range_start ?l \<le> range_start q" if "q \<in> set (take k rs)" for q
  proof -
    have "canonical (butlast (take k rs) @ [?l])"
      using canonical_take [OF c, of k] k by simp
    moreover have "q = ?l \<or> q \<in> set (butlast (take k rs))"
      using that k by (metis append_butlast_last_id empty_iff empty_set in_set_butlastD list.set_cases
          rotate1.simps(2) set_ConsD set_rotate1)
    ultimately show ?thesis
      by (auto simp: canonical_snoc apart_def word_le_nat_alt)
  qed
  have high: "apart ?l q" if "q \<in> set (drop k rs)" for q
    using c l that sorted_wrt_append [of apart "take k rs" "drop k rs"] by (simp add: canonical_def)
  have "set rs = set (take k rs) \<union> set (drop k rs)"
    by (metis append_take_drop_id set_append)
  with low high show ?thesis
    by (fastforce simp: ack_ranges_contains_def ack_range_contains_def apart_def word_le_nat_alt)
qed

section \<open>The recorded numbers\<close>

definition rp_numbers :: "received_packets \<Rightarrow> packet_number set" where
  "rp_numbers rp = {n. ack_ranges_contains (rp_ranges rp) n}"

text \<open>The start of the oldest range: below it nothing is remembered.\<close>

definition rp_floor :: "received_packets \<Rightarrow> packet_number" where
  "rp_floor rp = range_start (last (rp_ranges rp))"

lemma rp_record_new:
  assumes inv: "rp_inv rp" and fresh: "pn \<notin> rp_numbers rp"
    and res: "rp_record rp pn now = (b, rp')"
  shows "b \<and> rp_inv rp' \<and> rp_numbers rp' = {n \<in> insert pn (rp_numbers rp). rp_floor rp' \<le> n}
     \<and> (length (rp_ranges rp') < MAX_ACK_RANGES \<longrightarrow> rp_numbers rp' = insert pn (rp_numbers rp))"
proof -
  let ?old = "rp_ranges rp @ [\<lparr>range_start = pn, range_end = pn\<rparr>]"
  define ms where "ms = merge_adjacent (sort_descending ?old)"
  have valid: "\<forall>r \<in> set ?old. range_start r \<le> range_end r"
    using inv by (auto simp: rp_inv_def canonical_def)
  have c: "canonical ms" and n: "ack_ranges_contains ms n \<longleftrightarrow> n \<in> insert pn (rp_numbers rp)" for n
    using merge_adjacent_correct(1) [OF valid] merge_adjacent_correct(2) [OF valid, of n] unfolding ms_def
    by (auto simp: rp_numbers_def ack_ranges_contains_def ack_range_contains_def)
  from n [of pn] have ne: "ms \<noteq> []"
    by (auto simp: ack_ranges_contains_def)
  have b: "b" and r: "rp_ranges rp' = take MAX_ACK_RANGES ms"
    using res fresh unfolding ms_def
    by (auto simp: rp_record_def rp_numbers_def ack_ranges_contains_def Let_def split: if_splits)
  have "0 < MAX_ACK_RANGES"
    by (simp add: MAX_ACK_RANGES_def)
  with contains_take [OF c _ ne] canonical_take [OF c] b r n show ?thesis
    by (auto simp: rp_inv_def rp_numbers_def rp_floor_def)
qed

lemma rp_record_known: "pn \<in> rp_numbers rp \<Longrightarrow> rp_record rp pn now = (False, rp)"
  by (auto simp: rp_numbers_def rp_record_def ack_ranges_contains_def)

section \<open>Properties\<close>

text \<open>Recording packets: a number that is remembered is answered as a duplicate and changes nothing;
  any other number is answered as new, the ranges stay canonical and at most 32, and the remembered
  numbers are the old ones and the new one, except those below the lowest of 32 ranges; while there are
  fewer than 32 ranges nothing is forgotten.\<close>

theorem record_remembers:
  assumes "rp_inv rp" "rp_record rp pn now = (b, rp')"
  shows "rp_inv rp' \<and> (b \<longleftrightarrow> pn \<notin> rp_numbers rp) \<and> (\<not> b \<longrightarrow> rp' = rp)
     \<and> (b \<longrightarrow> rp_numbers rp' = {n \<in> insert pn (rp_numbers rp). rp_floor rp' \<le> n})
     \<and> (b \<and> length (rp_ranges rp') < MAX_ACK_RANGES \<longrightarrow> rp_numbers rp' = insert pn (rp_numbers rp))"
proof (cases "pn \<in> rp_numbers rp")
  case True
  with assms rp_record_known [OF True] show ?thesis
    by simp
next
  case False
  with rp_record_new [OF assms(1) False assms(2)] show ?thesis
    by blast
qed

theorem record_remembers_witness:
  "rp_numbers (snd (rp_record received_packets_new 7 0)) = {7}"
proof -
  obtain b rp' where r: "rp_record received_packets_new 7 0 = (b, rp')"
    by fastforce
  have e: "rp_numbers received_packets_new = {}" "rp_inv received_packets_new"
    by (auto simp: rp_numbers_def received_packets_new_def ack_ranges_contains_def rp_inv_def)
  have "rp_ranges rp' = [\<lparr>range_start = 7, range_end = 7\<rparr>]"
    using r by (auto simp: rp_record_def received_packets_new_def Let_def merge_adjacent_def
        sort_descending_def MAX_ACK_RANGES_def)
  then have "length (rp_ranges rp') < MAX_ACK_RANGES"
    by (simp add: MAX_ACK_RANGES_def)
  with record_remembers [OF e(2) r] e(1) have "rp_numbers rp' = {7}"
    by blast
  with r show ?thesis
    by simp
qed

text \<open>ACK frames: from a canonical record an ACK frame is built without error exactly when something
  has been received; it carries the recorded ranges, acknowledges exactly the remembered numbers, names
  the largest of them and never reports more than the configured delay.\<close>

theorem ack_frame_reports:
  assumes "rp_inv rp" "as_micros max_delay < 2 ^ 64"
  shows "if rp_numbers rp = {} then rp_frame rp now max_delay = Inr None
     else \<exists>f. rp_frame rp now max_delay = Inr (Some f) \<and> valid_ranges (ack_ranges f)
       \<and> {n. ack_ranges_contains (ack_ranges f) n} = rp_numbers rp
       \<and> ack_largest f \<in> rp_numbers rp \<and> (\<forall>n \<in> rp_numbers rp. n \<le> ack_largest f)
       \<and> ack_delay f \<le> max_delay"
proof (cases "rp_ranges rp")
  case Nil
  then show ?thesis
    by (simp add: rp_numbers_def ack_ranges_contains_def rp_frame_def rp_largest_def)
next
  case (Cons r rs)
  define d where "d = (case rp_largest_received_at rp of
                None \<Rightarrow> 0 | Some received_at \<Rightarrow> min (now - received_at) max_delay)"
  have v: "valid_ranges (rp_ranges rp)"
    using assms(1) Cons by (simp add: rp_inv_def valid_ranges_def)
  have r: "range_start r \<le> range_end r"
    using assms(1) Cons by (simp add: rp_inv_def)
  let ?f = "\<lparr>ack_largest = range_end r, ack_delay = d, ack_ranges = rp_ranges rp\<rparr>"
  have d: "d \<le> max_delay"
    by (simp add: d_def split: option.split)
  then have "as_micros d < 2 ^ 64"
    using assms(2) div_le_mono [OF d, of 1000] by (simp add: as_micros_def)
  then have "ack_frame_validate ?f = Inr ()"
    using Cons by (simp add: ack_frame_validate_def ack_ranges_largest_def)
  then have frame: "rp_frame rp now max_delay = Inr (Some ?f)"
    using ack_ranges_new_canonical [OF v] Cons
    by (simp add: rp_frame_def rp_largest_def ack_frame_new_def ack_ranges_largest_def Let_def d_def)
  have mem: "range_end r \<in> rp_numbers rp"
    using r Cons by (auto simp: rp_numbers_def ack_ranges_contains_def ack_range_contains_def)
  have "n \<le> range_end r" if "n \<in> rp_numbers rp" for n
    using largest_is_max [OF v, of n] that Cons by (simp add: rp_numbers_def ack_ranges_largest_def)
  with frame mem d v show ?thesis
    by (auto simp: rp_numbers_def)
qed

theorem ack_frame_reports_witness:
  "\<exists>f. rp_frame \<lparr>rp_ranges = [\<lparr>range_start = 3, range_end = 5\<rparr>], rp_largest_received_at = Some 10\<rparr> 20 25
     = Inr (Some f) \<and> ack_largest f = 5"
proof -
  let ?rp = "\<lparr>rp_ranges = [\<lparr>range_start = 3, range_end = 5 :: u64\<rparr>], rp_largest_received_at = Some 10\<rparr>"
  have "rp_inv ?rp" "as_micros 25 < 2 ^ 64"
    by (simp_all add: rp_inv_def MAX_ACK_RANGES_def as_micros_def)
  moreover have "rp_numbers ?rp \<noteq> {}"
    by (auto simp: rp_numbers_def ack_ranges_contains_def ack_range_contains_def intro: exI [of _ 4])
  ultimately obtain f where "rp_frame ?rp 20 25 = Inr (Some f)"
    using ack_frame_reports [of ?rp 25 20] by auto
  then show ?thesis
    by (auto simp: rp_frame_def rp_largest_def Let_def result_simps ack_ranges_new_def ack_frame_new_def
        from_descending_ok sort_descending_def ack_ranges_largest_def)
qed

end
