(* ===== verification/Congestion.thy ===== *)
theory Congestion
  imports Prelude
begin

text \<open>
  Congestion control, \<open>reliable-core/src/congestion.rs\<close>: slow start, congestion avoidance and halving
  on loss. The lemmas show that the window stays within its configured bounds, only grows on
  acknowledgements, and that sending when permitted keeps the bytes in flight within the window.
\<close>

section \<open>Model\<close>

record congestion_controller =
  cwnd :: u64
  ssthresh :: u64
  bytes_in_flight :: u64
  min_cwnd :: u64
  max_cwnd :: u64
  cc_mss :: u64

text \<open>\<open>u64::clamp\<close>; the configuration check guarantees \<open>min_cwnd \<le> max_cwnd\<close>, without which it panics.\<close>

definition clamp_u64 :: "u64 \<Rightarrow> u64 \<Rightarrow> u64 \<Rightarrow> u64" where
  "clamp_u64 lo hi x = (if x < lo then lo else if x > hi then hi else x)"

definition congestion_new :: "u64 \<Rightarrow> u64 \<Rightarrow> u64 \<Rightarrow> usize \<Rightarrow> congestion_controller" where
  "congestion_new initial mn mx mss =
     \<lparr>cwnd = clamp_u64 mn mx initial, ssthresh = mx, bytes_in_flight = 0, min_cwnd = mn, max_cwnd = mx,
      cc_mss = of_nat (max mss 1)\<rparr>"

definition cc_can_send :: "congestion_controller \<Rightarrow> usize \<Rightarrow> bool" where
  "cc_can_send c n \<longleftrightarrow> saturating_add (bytes_in_flight c) (of_nat n) \<le> cwnd c"

definition cc_on_sent :: "congestion_controller \<Rightarrow> usize \<Rightarrow> congestion_controller" where
  "cc_on_sent c n = c\<lparr>bytes_in_flight := saturating_add (bytes_in_flight c) (of_nat n)\<rparr>"

text \<open>\<open>checked_div\<close> by \<open>cwnd.max(1)\<close> never fails, so its default is not used.\<close>

definition cc_on_acked :: "congestion_controller \<Rightarrow> usize \<Rightarrow> congestion_controller" where
  "cc_on_acked c n =
     (let c = c\<lparr>bytes_in_flight := saturating_sub (bytes_in_flight c) (of_nat n)\<rparr>;
          bs = of_nat n :: u64
      in
      if cwnd c < ssthresh c then c\<lparr>cwnd := min (saturating_add (cwnd c) bs) (max_cwnd c)\<rparr>
      else
        let increment = max (saturating_mul (cc_mss c) bs div max (cwnd c) 1) 1
        in c\<lparr>cwnd := min (saturating_add (cwnd c) increment) (max_cwnd c)\<rparr>)"

definition cc_on_loss :: "congestion_controller \<Rightarrow> usize \<Rightarrow> congestion_controller" where
  "cc_on_loss c n =
     (let threshold = max (cwnd c div 2) (min_cwnd c)
      in c\<lparr>bytes_in_flight := saturating_sub (bytes_in_flight c) (of_nat n),
           ssthresh := threshold, cwnd := threshold\<rparr>)"

section \<open>Invariant\<close>

definition cc_inv :: "congestion_controller \<Rightarrow> bool" where
  "cc_inv c \<longleftrightarrow> min_cwnd c \<le> cwnd c \<and> cwnd c \<le> max_cwnd c"

lemma cc_inv_new: "mn \<le> mx \<Longrightarrow> cc_inv (congestion_new i mn mx mss)"
  by (auto simp: cc_inv_def congestion_new_def clamp_u64_def)

lemma acked_cwnd: "cc_inv c \<Longrightarrow> cwnd c \<le> cwnd (cc_on_acked c n) \<and> cwnd (cc_on_acked c n) \<le> max_cwnd c"
  using saturating_add_ge by (auto simp: cc_inv_def cc_on_acked_def Let_def)

lemma loss_cwnd: "cc_inv c \<Longrightarrow> min_cwnd c \<le> cwnd (cc_on_loss c n) \<and> cwnd (cc_on_loss c n) \<le> cwnd c"
  by (auto simp: cc_inv_def cc_on_loss_def Let_def word_le_nat_alt unat_div unat_max)

section \<open>Properties\<close>

text \<open>Window bounds: the congestion window stays between its minimum and maximum under every event;
  acknowledgements never shrink it, losses never grow it and leave the larger of half of it and the
  minimum.\<close>

theorem congestion_window_bounded:
  assumes "cc_inv c"
  shows "cc_inv (cc_on_sent c n) \<and> cc_inv (cc_on_acked c n) \<and> cc_inv (cc_on_loss c n)
     \<and> cwnd c \<le> cwnd (cc_on_acked c n) \<and> cwnd (cc_on_loss c n) \<le> cwnd c
     \<and> unat (cwnd (cc_on_loss c n)) = max (unat (cwnd c) div 2) (unat (min_cwnd c))"
proof -
  have "min_cwnd (cc_on_acked c n) = min_cwnd c" "max_cwnd (cc_on_acked c n) = max_cwnd c"
    by (simp_all add: cc_on_acked_def Let_def)
  with acked_cwnd [OF assms, of n] loss_cwnd [OF assms, of n] assms show ?thesis
    by (auto simp: cc_inv_def cc_on_sent_def cc_on_loss_def Let_def unat_max unat_div)
qed

theorem congestion_window_bounded_witness:
  "unat (cwnd (cc_on_loss (congestion_new 12000 1200 100000 1200) 1200)) = 6000"
  using congestion_window_bounded [OF cc_inv_new [of 1200 100000 12000 1200], of 1200]
  by (simp add: congestion_new_def clamp_u64_def)

text \<open>Sending respects the window: a send that is permitted keeps the bytes in flight within the
  congestion window, and acknowledging or losing the same packet takes exactly its size off again.\<close>

theorem permitted_send_within_window:
  assumes "cc_can_send c n" "n < 2 ^ 64" "unat (bytes_in_flight c) + n < 2 ^ 64"
  shows "bytes_in_flight (cc_on_sent c n) \<le> cwnd (cc_on_sent c n)
     \<and> bytes_in_flight (cc_on_acked (cc_on_sent c n) n) = bytes_in_flight c
     \<and> bytes_in_flight (cc_on_loss (cc_on_sent c n) n) = bytes_in_flight c"
  using assms
  by (auto simp: cc_can_send_def cc_on_sent_def cc_on_acked_def cc_on_loss_def Let_def word_unat_eq_iff
      unat_saturating_sub unat_saturating_add unat_of_nat_small)

theorem permitted_send_within_window_witness:
  "bytes_in_flight (cc_on_acked (cc_on_sent (congestion_new 12000 1200 100000 1200) 1200) 1200) = 0"
  using permitted_send_within_window [of "congestion_new 12000 1200 100000 1200" 1200]
  by (simp add: congestion_new_def clamp_u64_def cc_can_send_def saturating_add_def)

end
