(* ===== verification/Rtt.thy ===== *)
theory Rtt
  imports Prelude
begin

text \<open>
  Round-trip estimation, \<open>reliable-core/src/rtt.rs\<close>. A \<open>Duration\<close> is a number of nanoseconds below
  \<open>2 ^ 64\<close> seconds; its multiplication and addition panic beyond that, so the operations that use them
  return \<open>None\<close> there. The lemmas show that the timeout stays within its bounds, that the smoothed
  value stays between its old value and the sample, and that no panic happens below an explicit bound.
\<close>

section \<open>Durations\<close>

definition duration_limit :: nat where
  "duration_limit = 2 ^ 64 * 1000000000"

definition dur_mul :: "duration \<Rightarrow> nat \<Rightarrow> duration option" where
  "dur_mul d k = (if d * k < duration_limit then Some (d * k) else None)"

definition dur_add :: "duration \<Rightarrow> duration \<Rightarrow> duration option" where
  "dur_add a b = (if a + b < duration_limit then Some (a + b) else None)"

definition dur_clamp :: "duration \<Rightarrow> duration \<Rightarrow> duration \<Rightarrow> duration" where
  "dur_clamp lo hi d = (if d < lo then lo else if d > hi then hi else d)"

section \<open>Model\<close>

record rtt_estimator =
  srtt :: "duration option"
  rttvar :: duration
  rto :: duration
  initial_rto :: duration
  min_rto :: duration
  max_rto :: duration
  granularity :: duration

definition rtt_new :: "duration \<Rightarrow> duration \<Rightarrow> duration \<Rightarrow> duration \<Rightarrow> rtt_estimator" where
  "rtt_new initial mn mx g =
     \<lparr>srtt = None, rttvar = 0, rto = initial, initial_rto = initial, min_rto = mn, max_rto = mx,
      granularity = g\<rparr>"

definition rtt_recalculate :: "rtt_estimator \<Rightarrow> rtt_estimator option" where
  "rtt_recalculate e =
     (let smoothed = (case srtt e of None \<Rightarrow> initial_rto e | Some s \<Rightarrow> s) in
      Option.bind (dur_mul (rttvar e) 4) (\<lambda>v.
      let variance = max v (granularity e) in
      Option.bind (dur_add smoothed variance) (\<lambda>t.
      Some (e\<lparr>rto := dur_clamp (min_rto e) (max_rto e) t\<rparr>))))"

definition rtt_on_ack :: "rtt_estimator \<Rightarrow> duration \<Rightarrow> duration \<Rightarrow> rtt_estimator option" where
  "rtt_on_ack e sample ack_delay =
     (let sample = sample - ack_delay in
      case srtt e of
        None \<Rightarrow> rtt_recalculate (e\<lparr>srtt := Some sample, rttvar := sample div 2\<rparr>)
      | Some s \<Rightarrow>
          let difference = (if s \<le> sample then sample - s else s - sample) in
          Option.bind (dur_mul (rttvar e) 3) (\<lambda>v3.
          Option.bind (dur_add v3 difference) (\<lambda>v.
          Option.bind (dur_mul s 7) (\<lambda>s7.
          Option.bind (dur_add s7 sample) (\<lambda>t.
          rtt_recalculate (e\<lparr>rttvar := v div 4, srtt := Some (t div 8)\<rparr>))))))"

definition rtt_on_timeout :: "rtt_estimator \<Rightarrow> rtt_estimator" where
  "rtt_on_timeout e =
     e\<lparr>rto := min (case dur_mul (rto e) 2 of None \<Rightarrow> max_rto e | Some d \<Rightarrow> d) (max_rto e)\<rparr>"

definition rtt_reset_backoff :: "rtt_estimator \<Rightarrow> rtt_estimator option" where
  "rtt_reset_backoff e =
     (if srtt e = None then Some (e\<lparr>rto := initial_rto e\<rparr>) else rtt_recalculate e)"

section \<open>Bounds\<close>

text \<open>What the configuration check establishes and every operation keeps.\<close>

definition rtt_inv :: "rtt_estimator \<Rightarrow> bool" where
  "rtt_inv e \<longleftrightarrow> min_rto e \<le> initial_rto e \<and> initial_rto e \<le> max_rto e
     \<and> min_rto e \<le> rto e \<and> rto e \<le> max_rto e"

text \<open>Every duration the estimator holds is at most \<open>b\<close>.\<close>

definition rtt_below :: "nat \<Rightarrow> rtt_estimator \<Rightarrow> bool" where
  "rtt_below b e \<longleftrightarrow> (\<forall>s. srtt e = Some s \<longrightarrow> s \<le> b) \<and> rttvar e \<le> b \<and> initial_rto e \<le> b \<and> granularity e \<le> b"

lemma rtt_new_inv: "mn \<le> i \<Longrightarrow> i \<le> mx \<Longrightarrow> rtt_inv (rtt_new i mn mx g)"
  by (simp add: rtt_inv_def rtt_new_def)

lemma recalculate_inv:
  "rtt_recalculate e = Some e' \<Longrightarrow> rtt_inv e \<Longrightarrow> rtt_inv e'"
  by (auto simp: rtt_recalculate_def rtt_inv_def dur_clamp_def Let_def bind_eq_Some_conv)

lemma recalculate_fields:
  "rtt_recalculate e = Some e' \<Longrightarrow> srtt e' = srtt e \<and> rttvar e' = rttvar e \<and> initial_rto e' = initial_rto e
     \<and> granularity e' = granularity e"
  by (auto simp: rtt_recalculate_def Let_def bind_eq_Some_conv)

lemma recalculate_succeeds:
  assumes "rtt_below b e" "5 * b < duration_limit"
  shows "\<exists>e'. rtt_recalculate e = Some e'"
proof -
  have s: "(case srtt e of None \<Rightarrow> initial_rto e | Some s \<Rightarrow> s) \<le> b" and v: "rttvar e \<le> b" "granularity e \<le> b"
    using assms(1) by (auto simp: rtt_below_def split: option.split)
  have m: "dur_mul (rttvar e) 4 = Some (rttvar e * 4)"
    using v assms(2) by (simp add: dur_mul_def)
  have "(case srtt e of None \<Rightarrow> initial_rto e | Some s \<Rightarrow> s) + max (rttvar e * 4) (granularity e) \<le> 5 * b"
    using s v by simp
  then show ?thesis
    using assms(2) by (simp add: rtt_recalculate_def Let_def m dur_add_def)
qed

lemma on_ack_succeeds:
  assumes b: "rtt_below b e" "sample \<le> b" "8 * b < duration_limit"
  shows "\<exists>e'. rtt_on_ack e sample delay = Some e' \<and> rtt_below b e'
     \<and> (\<exists>s'. srtt e' = Some s' \<and> (case srtt e of
            None \<Rightarrow> s' = sample - delay
          | Some s \<Rightarrow> min s (sample - delay) \<le> s' \<and> s' \<le> max s (sample - delay)))"
proof (cases "srtt e")
  case None
  let ?e = "e\<lparr>srtt := Some (sample - delay), rttvar := (sample - delay) div 2\<rparr>"
  have below: "rtt_below b ?e"
    using b by (auto simp: rtt_below_def)
  then obtain e' where "rtt_recalculate ?e = Some e'"
    using recalculate_succeeds [of b ?e] b(3) by auto
  with None below recalculate_fields [OF this] show ?thesis
    by (auto simp: rtt_on_ack_def rtt_below_def)
next
  case (Some s)
  define x where "x = sample - delay"
  let ?d = "if s \<le> x then x - s else s - x"
  let ?e = "e\<lparr>rttvar := (rttvar e * 3 + ?d) div 4, srtt := Some ((s * 7 + x) div 8)\<rparr>"
  have le: "s \<le> b" "x \<le> b" "rttvar e \<le> b" "?d \<le> b"
    using b Some by (auto simp: rtt_below_def x_def)
  have arith: "dur_mul (rttvar e) 3 = Some (rttvar e * 3)" "dur_add (rttvar e * 3) ?d = Some (rttvar e * 3 + ?d)"
    "dur_mul s 7 = Some (s * 7)" "dur_add (s * 7) x = Some (s * 7 + x)"
    using le b(3) by (auto simp: dur_mul_def dur_add_def)
  have below: "rtt_below b ?e"
    using le b by (auto simp: rtt_below_def)
  then obtain e' where e': "rtt_recalculate ?e = Some e'"
    using recalculate_succeeds [of b ?e] b(3) by auto
  have "rtt_on_ack e sample delay = Some e'"
    using Some e' by (simp add: rtt_on_ack_def Let_def arith x_def [symmetric])
  moreover have "min s x \<le> (s * 7 + x) div 8" "(s * 7 + x) div 8 \<le> max s x"
    by (auto simp: min_def max_def)
  ultimately show ?thesis
    using Some below recalculate_fields [OF e'] by (auto simp: rtt_below_def x_def)
qed

section \<open>Properties\<close>

text \<open>The timeout stays bounded: every operation that returns keeps the retransmission timeout between
  its configured minimum and maximum; a timeout doubles it up to the maximum.\<close>

theorem rto_bounded:
  assumes "rtt_inv e"
  shows "(rtt_on_ack e sample delay = Some e1 \<longrightarrow> rtt_inv e1)
     \<and> (rtt_reset_backoff e = Some e2 \<longrightarrow> rtt_inv e2)
     \<and> rtt_inv (rtt_on_timeout e)
     \<and> (rto e * 2 < duration_limit \<longrightarrow> rto (rtt_on_timeout e) = min (rto e * 2) (max_rto e))"
proof -
  have "rtt_on_ack e sample delay = Some e1 \<Longrightarrow> rtt_inv e1"
    using assms recalculate_inv
    by (fastforce simp: rtt_on_ack_def Let_def rtt_inv_def bind_eq_Some_conv split: option.splits)
  moreover have "rtt_reset_backoff e = Some e2 \<Longrightarrow> rtt_inv e2"
    using assms recalculate_inv by (auto simp: rtt_reset_backoff_def rtt_inv_def split: if_splits)
  ultimately show ?thesis
    using assms by (auto simp: rtt_inv_def rtt_on_timeout_def dur_mul_def split: option.split)
qed

theorem rto_bounded_witness:
  "rto (rtt_on_timeout (rtt_new 1000 200 1500 10)) = 1500"
  using rto_bounded [OF rtt_new_inv [of 200 1000 1500 10], of 0 0]
  by (simp add: rtt_new_def duration_limit_def)

text \<open>No panic and a smooth estimate: while all durations are below an eighth of the range (more than
  seventy billion years), \<open>on_ack\<close> returns, and the new smoothed round-trip time lies between the old one and the sample.\<close>

theorem rtt_sample_smoothed:
  assumes "rtt_below b e" "sample \<le> b" "8 * b < duration_limit"
  shows "\<exists>e' s'. rtt_on_ack e sample delay = Some e' \<and> rtt_below b e' \<and> srtt e' = Some s'
     \<and> (case srtt e of
          None \<Rightarrow> s' = sample - delay
        | Some s \<Rightarrow> min s (sample - delay) \<le> s' \<and> s' \<le> max s (sample - delay))"
  using on_ack_succeeds [OF assms] by blast

theorem rtt_sample_smoothed_witness:
  "\<exists>e'. rtt_on_ack (rtt_new 1000 200 1500 10) 300 50 = Some e' \<and> srtt e' = Some 250"
  using rtt_sample_smoothed [of 5000 "rtt_new 1000 200 1500 10" 300 50]
  by (auto simp: rtt_below_def rtt_new_def duration_limit_def)

end
