(* ===== verification/Replay_Window.thy ===== *)
theory Replay_Window
  imports Protocol_Error
begin

text \<open>
  The replay window of \<open>udp-protocol/src/crypto.rs\<close>: the highest packet number accepted so far and a
  bitmap of 4096 bits, bit \<open>d\<close> of which stands for the number \<open>d\<close> below the highest. The bitmap
  refines the set of all numbers ever accepted; the interface \<open>replay_filter\<close> states that
  refinement and derives from it that no number is accepted twice.
\<close>

section \<open>Model\<close>

definition REPLAY_WINDOW_SIZE :: usize where "REPLAY_WINDOW_SIZE = 4096"

record replay_window =
  rw_highest :: "u64 option"
  rw_bits :: "u64 list"

definition replay_window_new :: replay_window where
  "replay_window_new = \<lparr>rw_highest = None, rw_bits = replicate (REPLAY_WINDOW_SIZE div 64) 0\<rparr>"

text \<open>The loop writes every word of the new bitmap from the saved old one.\<close>

definition shift_older_bits :: "u64 list \<Rightarrow> usize \<Rightarrow> u64 list" where
  "shift_older_bits old shift =
     (let word_shift = shift div 64; bit_shift = shift mod 64 in
      map (\<lambda>index.
        if index \<ge> word_shift then
          let v = push_bit bit_shift (old ! (index - word_shift)) in
          if bit_shift \<noteq> 0 \<and> index > word_shift then
            v OR drop_bit (64 - bit_shift) (old ! (index - word_shift - 1))
          else v
        else 0) [0..<length old])"

definition check_and_mark :: "replay_window \<Rightarrow> u64 \<Rightarrow> (replay_error + unit) \<times> replay_window" where
  "check_and_mark w v =
     (case rw_highest w of
        None \<Rightarrow> (Inr (), w\<lparr>rw_highest := Some v, rw_bits := (rw_bits w)[0 := 1]\<rparr>)
      | Some highest \<Rightarrow>
          if v > highest then
            let shift = unat (v - highest);
                bits = (if shift \<ge> REPLAY_WINDOW_SIZE then replicate (REPLAY_WINDOW_SIZE div 64) 0
                        else shift_older_bits (rw_bits w) shift)
            in (Inr (), w\<lparr>rw_highest := Some v, rw_bits := bits[0 := (bits ! 0) OR 1]\<rparr>)
          else
            let distance = unat (highest - v) in
            if distance \<ge> REPLAY_WINDOW_SIZE then (Inl TooOld, w)
            else
              let i = distance div 64; mask = push_bit (distance mod 64) (1 :: u64) in
              if (rw_bits w ! i) AND mask \<noteq> 0 then (Inl Duplicate, w)
              else (Inr (), w\<lparr>rw_bits := (rw_bits w)[i := (rw_bits w ! i) OR mask]\<rparr>))"

section \<open>The bitmap\<close>

definition window_bit :: "u64 list \<Rightarrow> nat \<Rightarrow> bool" where
  "window_bit bits d \<longleftrightarrow> bit (bits ! (d div 64)) (d mod 64)"

lemma length_shift [simp]: "length (shift_older_bits old s) = length old"
  by (simp add: shift_older_bits_def Let_def)

lemma window_bit_zero [simp]: "d < 4096 \<Longrightarrow> \<not> window_bit (replicate 64 0) d"
  by (simp add: window_bit_def less_mult_imp_div_less)

lemma window_bit_update:
  assumes "length bits = 64" "d < 4096" "k < 4096"
  shows "window_bit (bits[k div 64 := (bits ! (k div 64)) OR push_bit (k mod 64) 1]) d
     \<longleftrightarrow> window_bit bits d \<or> d = k"
proof (cases "d div 64 = k div 64")
  case True
  have "d = k \<longleftrightarrow> d mod 64 = k mod 64"
    using True by (metis div_mult_mod_eq)
  moreover have "k div 64 < 64" "d mod 64 < 64"
    using assms by (auto simp: less_mult_imp_div_less)
  ultimately show ?thesis
    using True assms by (auto simp: window_bit_def bit_simps)
next
  case False
  then show ?thesis
    by (auto simp: window_bit_def)
qed

lemma shift_word:
  fixes x y :: u64
  assumes "0 < b" "b < 64" "j < 64"
  shows "bit (push_bit b x OR drop_bit (64 - b) y) j \<longleftrightarrow>
     (if b \<le> j then bit x (j - b) else bit y (64 + j - b))"
  using assms by (auto simp: bit_simps dest: bit_imp_le_length)

lemma window_bit_shift:
  assumes len: "length old = 64" and d: "d < 4096" and s: "s < 4096"
  shows "window_bit (shift_older_bits old s) d \<longleftrightarrow> s \<le> d \<and> window_bit old (d - s)"
proof -
  define i j a b where defs: "i = d div 64" "j = d mod 64" "a = s div 64" "b = s mod 64"
  then have split: "d = 64 * i + j" "s = 64 * a + b" "j < 64" "b < 64" and i: "i < 64"
    using d by (auto simp: less_mult_imp_div_less)
  have word: "shift_older_bits old s ! i =
      (if i \<ge> a then if b \<noteq> 0 \<and> i > a then push_bit b (old ! (i - a)) OR drop_bit (64 - b) (old ! (i - a - 1))
         else push_bit b (old ! (i - a)) else 0)"
    using i len by (simp add: shift_older_bits_def defs(3,4) Let_def)
  consider "i < a" | "a \<le> i" "b \<le> j" | "a = i" "j < b" | "a < i" "j < b"
    by linarith
  then show ?thesis
  proof cases
    case 1
    then show ?thesis
      using split unfolding window_bit_def defs(1,2) [symmetric] word by simp
  next
    case 2
    then have "(d - s) div 64 = i - a" "(d - s) mod 64 = j - b" "s \<le> d"
      using split by (auto simp: div_mult_mod_eq algebra_simps div_nat_eqI mod_nat_eqI)
    with 2 split show ?thesis
      unfolding window_bit_def defs(1,2) [symmetric] word
      by (auto simp: shift_word bit_simps dest: bit_imp_le_length)
  next
    case 3
    then show ?thesis
      using split unfolding window_bit_def defs(1,2) [symmetric] word by (simp add: bit_simps)
  next
    case 4
    then have "(d - s) div 64 = i - a - 1" "(d - s) mod 64 = 64 + j - b" "s \<le> d"
      using split by (auto simp: algebra_simps div_nat_eqI mod_nat_eqI)
    with 4 split show ?thesis
      unfolding window_bit_def defs(1,2) [symmetric] word by (simp add: shift_word)
  qed
qed

section \<open>Refinement of the set of accepted numbers\<close>

text \<open>The specification keeps every number ever accepted. A number that lies 4096 or more below the
  largest of them is too old, a known one is a duplicate, any other is accepted.\<close>

definition replay_spec :: "u64 set \<Rightarrow> u64 \<Rightarrow> replay_error + unit" where
  "replay_spec S v =
     (if S = {} \<or> Max S < v then Inr ()
      else if unat (Max S) - unat v \<ge> REPLAY_WINDOW_SIZE then Inl TooOld
      else if v \<in> S then Inl Duplicate
      else Inr ())"

definition replay_spec_next :: "u64 set \<Rightarrow> u64 \<Rightarrow> u64 set" where
  "replay_spec_next S v = (if is_ok (replay_spec S v) then insert v S else S)"

text \<open>The numbers that a filter accepts when it is offered a sequence of them.\<close>

fun accepted :: "('w \<Rightarrow> u64 \<Rightarrow> (replay_error + unit) \<times> 'w) \<Rightarrow> 'w \<Rightarrow> u64 list \<Rightarrow> u64 list" where
  "accepted check w [] = []"
| "accepted check w (v # vs) =
     (case check w v of
        (Inr _, w') \<Rightarrow> v # accepted check w' vs
      | (Inl _, w') \<Rightarrow> accepted check w' vs)"

locale replay_filter =
  fixes check :: "'w \<Rightarrow> u64 \<Rightarrow> (replay_error + unit) \<times> 'w"
    and start :: 'w
    and rel :: "'w \<Rightarrow> u64 set \<Rightarrow> bool"
  assumes start: "rel start {}"
    and result: "rel w S \<Longrightarrow> fst (check w v) = replay_spec S v"
    and step: "rel w S \<Longrightarrow> rel (snd (check w v)) (replay_spec_next S v)"
begin

lemma accepted_fresh:
  "rel w S \<Longrightarrow> distinct (accepted check w vs) \<and> set (accepted check w vs) \<inter> S = {}"
proof (induction vs arbitrary: w S)
  case (Cons v vs)
  obtain r w' where c: "check w v = (r, w')"
    by fastforce
  have r: "r = replay_spec S v" and rel: "rel w' (replay_spec_next S v)"
    using result [OF Cons.prems, of v] step [OF Cons.prems, of v] c by auto
  have "v \<notin> S" if "r = Inr u" for u
    using that r Max_ge [of S v] by (auto simp: leD replay_spec_def split: if_splits)
  then show ?case
    using Cons.IH [OF rel] c r by (auto simp: replay_spec_next_def split: sum.splits)
qed simp

lemma accepted_distinct: "distinct (accepted check start vs)"
  using accepted_fresh [OF start] by blast

lemma repeat_refused:
  assumes "rel w S" "check w v = (Inr (), w')"
  shows "\<exists>e. fst (check w' v) = Inl e"
proof -
  have "rel w' (insert v S)"
    using step [OF assms(1), of v] result [OF assms(1), of v] assms(2)
    by (auto simp: replay_spec_next_def is_ok_iff split: if_splits)
  from result [OF this, of v] show ?thesis
    by (simp add: replay_spec_def not_less)
qed

end

definition replay_rel :: "replay_window \<Rightarrow> u64 set \<Rightarrow> bool" where
  "replay_rel w S \<longleftrightarrow>
     length (rw_bits w) = 64 \<and>
     (case rw_highest w of
        None \<Rightarrow> S = {} \<and> rw_bits w = replicate 64 0
      | Some h \<Rightarrow> h \<in> S \<and> (\<forall>n \<in> S. n \<le> h)
          \<and> (\<forall>d < 4096. window_bit (rw_bits w) d \<longleftrightarrow> (\<exists>n \<in> S. unat n + d = unat h)))"

lemma replay_rel_highest:
  "replay_rel w S \<Longrightarrow> rw_highest w = Some h \<Longrightarrow> S \<noteq> {} \<and> Max S = h"
  by (auto simp: replay_rel_def intro: Max_eqI)

lemma mask_test: "(x :: u64) AND 2 ^ k = 0 \<longleftrightarrow> \<not> (k < 64 \<and> bit x k)"
  by (subst bit_eq_iff) (auto simp: bit_simps)

lemma check_and_mark_result: "replay_rel w S \<Longrightarrow> fst (check_and_mark w v) = replay_spec S v"
proof (cases "rw_highest w")
  case None
  moreover assume "replay_rel w S"
  ultimately show ?thesis
    by (simp add: replay_rel_def check_and_mark_def replay_spec_def)
next
  case (Some h)
  assume rel: "replay_rel w S"
  note m = replay_rel_highest [OF rel Some]
  have "window_bit (rw_bits w) (unat (h - v)) \<longleftrightarrow> v \<in> S" if "v \<le> h" "unat (h - v) < 4096"
  proof -
    have "unat n + unat (h - v) = unat h \<longleftrightarrow> n = v" for n
      using that by (auto simp: unat_sub word_le_nat_alt word_unat_eq_iff)
    then show ?thesis
      using rel Some that by (auto simp: replay_rel_def)
  qed
  moreover have "unat (h - v) = unat h - unat v" if "v \<le> h"
    using that by (simp add: unat_sub)
  ultimately have "v \<le> h \<Longrightarrow> ?thesis"
    using m Some
    by (simp add: check_and_mark_def Let_def replay_spec_def REPLAY_WINDOW_SIZE_def
        mask_test window_bit_def not_less leD)
  moreover have "h < v \<Longrightarrow> ?thesis"
    using m Some by (simp add: check_and_mark_def Let_def replay_spec_def)
  ultimately show ?thesis
    by (cases "h < v") auto
qed

lemma window_bit_first:
  "length bits = 64 \<Longrightarrow> d < 4096 \<Longrightarrow> window_bit (bits[0 := (bits ! 0) OR 1]) d \<longleftrightarrow> window_bit bits d \<or> d = 0"
  using window_bit_update [of bits d 0] by simp

lemma rel_new_highest:
  assumes "replay_rel w S" "rw_highest w = Some h" "h < v"
  shows "replay_rel (snd (check_and_mark w v)) (insert v S)"
proof -
  let ?s = "unat (v - h)"
  let ?bits = "if ?s \<ge> 4096 then replicate 64 0 else shift_older_bits (rw_bits w) ?s"
  have s: "?s = unat v - unat h" "unat h < unat v"
    using assms(3) by (simp_all add: unat_sub word_less_nat_alt word_le_nat_alt)
  have rel: "length (rw_bits w) = 64" "\<forall>n \<in> S. n \<le> h"
    "\<And>d. d < 4096 \<Longrightarrow> window_bit (rw_bits w) d \<longleftrightarrow> (\<exists>n \<in> S. unat n + d = unat h)"
    using assms(1,2) by (auto simp: replay_rel_def)
  have "window_bit ?bits d \<longleftrightarrow> (\<exists>n \<in> S. unat n + d = unat v)" if "d < 4096" for d
    using that rel s by (force simp: window_bit_shift word_le_nat_alt)
  moreover have "length ?bits = 64"
    using rel(1) by simp
  ultimately have "window_bit (?bits[0 := (?bits ! 0) OR 1]) d \<longleftrightarrow>
      (\<exists>n \<in> insert v S. unat n + d = unat v)" if "d < 4096" for d
    using that window_bit_first [of ?bits d] by auto
  then show ?thesis
    using assms rel by (auto simp: check_and_mark_def Let_def replay_rel_def REPLAY_WINDOW_SIZE_def)
qed

lemma rel_inside:
  assumes "replay_rel w S" "rw_highest w = Some h" "v \<le> h" "unat (h - v) < 4096"
  shows "replay_rel (w\<lparr>rw_bits := (rw_bits w)[unat (h - v) div 64 :=
     (rw_bits w ! (unat (h - v) div 64)) OR push_bit (unat (h - v) mod 64) 1]\<rparr>) (insert v S)"
proof -
  have d: "unat v + d = unat h \<longleftrightarrow> d = unat (h - v)" for d
    using assms(3) by (auto simp: unat_sub word_le_nat_alt)
  have rel: "length (rw_bits w) = 64" "h \<in> S" "\<forall>n \<in> S. n \<le> h"
    "\<And>d. d < 4096 \<Longrightarrow> window_bit (rw_bits w) d \<longleftrightarrow> (\<exists>n \<in> S. unat n + d = unat h)"
    using assms(1,2) by (auto simp: replay_rel_def)
  show ?thesis
    using assms(2,3) rel d window_bit_update [OF rel(1) _ assms(4)]
    by (simp add: replay_rel_def disj_commute)
qed

interpretation window: replay_filter check_and_mark replay_window_new replay_rel
proof
  show "replay_rel replay_window_new {}"
    by (simp add: replay_rel_def replay_window_new_def REPLAY_WINDOW_SIZE_def)
next
  fix w S v
  assume "replay_rel w S"
  then show "fst (check_and_mark w v) = replay_spec S v"
    by (rule check_and_mark_result)
next
  fix w S v
  assume rel: "replay_rel w S"
  note res = check_and_mark_result [OF rel, of v]
  show "replay_rel (snd (check_and_mark w v)) (replay_spec_next S v)"
  proof (cases "rw_highest w")
    case None
    with rel window_bit_first [of "replicate 64 0"] show ?thesis
      by (auto simp: replay_rel_def check_and_mark_def replay_spec_next_def replay_spec_def)
  next
    case (Some h)
    note m = replay_rel_highest [OF rel Some]
    show ?thesis
    proof (cases "h < v")
      case True
      with rel_new_highest [OF rel Some True] m show ?thesis
        by (simp add: replay_spec_next_def replay_spec_def)
    next
      case False
      with rel res Some rel_inside [OF rel Some, of v] show ?thesis
        by (auto simp: replay_spec_next_def check_and_mark_def Let_def REPLAY_WINDOW_SIZE_def
            split: if_splits simp flip: res)
    qed
  qed
qed

section \<open>Properties\<close>

text \<open>C24. The bitmap is a faithful window onto the set of all packet numbers ever accepted: on related
  states \<open>check_and_mark\<close> gives the answer of the specification (accepted, duplicate or too old) and
  the states stay related, for every number, including shifts across words and beyond the window.\<close>

theorem replay_window_refines_set:
  assumes "replay_rel w S"
  shows "fst (check_and_mark w v) = replay_spec S v
     \<and> replay_rel (snd (check_and_mark w v)) (replay_spec_next S v)"
  using window.result [OF assms] window.step [OF assms] by blast

theorem replay_window_refines_set_witness:
  "fst (check_and_mark replay_window_new 5) = Inr ()
     \<and> replay_rel (snd (check_and_mark replay_window_new 5)) {5}"
  using replay_window_refines_set [OF window.start, of 5]
  by (simp add: replay_spec_def replay_spec_next_def)

text \<open>No replay: whatever sequence of packet numbers is offered to a new window, the numbers it
  accepts are pairwise distinct.\<close>

corollary replay_accepts_once: "distinct (accepted check_and_mark replay_window_new vs)"
  by (rule window.accepted_distinct)

end
