(* ===== verification/Crypto.thy ===== *)
theory Crypto
  imports Codec Replay_Window
begin

text \<open>
  Key agreement, session keys and packet protection: \<open>udp-protocol/src/crypto.rs\<close> and the encrypted
  half of \<open>codec.rs\<close>. The cryptographic primitives are those of other crates (X25519, SHA-256, HKDF,
  HMAC, ChaCha20-Poly1305); they are the fields of the record \<open>primitives\<close>, an argument of every
  operation that calls them. What the code relies on is stated by \<open>aead_correct\<close> (opening inverts
  sealing, tags have 16 bytes) and \<open>key_exchange_agrees\<close> (both sides compute the same secret).
\<close>

section \<open>Primitives\<close>

record primitives =
  x25519_public :: "bytes \<Rightarrow> bytes"
  x25519_shared :: "bytes \<Rightarrow> bytes \<Rightarrow> bytes"
  sha256 :: "bytes \<Rightarrow> bytes"
  hkdf_expand :: "bytes \<Rightarrow> bytes \<Rightarrow> bytes \<Rightarrow> usize \<Rightarrow> bytes option"
  hmac_sha256 :: "bytes \<Rightarrow> bytes \<Rightarrow> bytes option"
  aead_encrypt :: "bytes \<Rightarrow> bytes \<Rightarrow> bytes \<Rightarrow> bytes \<Rightarrow> (bytes \<times> bytes) option"
  aead_decrypt :: "bytes \<Rightarrow> bytes \<Rightarrow> bytes \<Rightarrow> bytes \<Rightarrow> bytes \<Rightarrow> bytes option"

definition aead_correct :: "primitives \<Rightarrow> bool" where
  "aead_correct P \<longleftrightarrow>
     (\<forall>key nonce aad plain cipher tag. aead_encrypt P key nonce aad plain = Some (cipher, tag) \<longrightarrow>
        length cipher = length plain \<and> length tag = 16
        \<and> aead_decrypt P key nonce aad cipher tag = Some plain)"

definition key_exchange_agrees :: "primitives \<Rightarrow> bool" where
  "key_exchange_agrees P \<longleftrightarrow>
     (\<forall>a b. x25519_shared P a (x25519_public P b) = x25519_shared P b (x25519_public P a))"

section \<open>Keys\<close>

definition AEAD_KEY_LEN :: usize where "AEAD_KEY_LEN = 32"
definition AEAD_TAG_LEN :: usize where "AEAD_TAG_LEN = 16"
definition PACKET_NONCE_LEN :: usize where "PACKET_NONCE_LEN = 12"

datatype crypto_role = Client_CR | Server_CR

record ephemeral_key_pair =
  kp_secret :: bytes
  kp_public_key :: bytes

text \<open>\<open>random\<close> is what \<open>getrandom::fill\<close> delivers: 32 bytes, or nothing when it fails.\<close>

definition ephemeral_generate :: "primitives \<Rightarrow> bytes option \<Rightarrow> crypto_error + ephemeral_key_pair" where
  "ephemeral_generate P random =
     and_then (ok_or RandomnessUnavailable random) (\<lambda>secret.
     Inr \<lparr>kp_secret = secret, kp_public_key = x25519_public P secret\<rparr>)"

definition ephemeral_agree ::
  "primitives \<Rightarrow> ephemeral_key_pair \<Rightarrow> bytes \<Rightarrow> crypto_error + bytes" where
  "ephemeral_agree P kp peer_public_key =
     (let shared_secret = x25519_shared P (kp_secret kp) peer_public_key in
      if shared_secret = replicate X25519_PUBLIC_KEY_LEN 0 then Inl InvalidPeerPublicKey
      else Inr shared_secret)"

record session_keys =
  sk_client_to_server :: bytes
  sk_server_to_client :: bytes
  sk_finished :: bytes
  sk_nonce_salt :: bytes

definition handshake_transcript_hash ::
  "primitives \<Rightarrow> connection_id \<Rightarrow> bytes \<Rightarrow> bytes \<Rightarrow> bytes \<Rightarrow> bytes \<Rightarrow> bytes" where
  "handshake_transcript_hash P cid client_nonce server_nonce client_public_key server_public_key =
     sha256 P (ascii ''udp-protocol/v2/x25519-chacha20poly1305'' @ to_be_bytes 8 cid
       @ client_nonce @ server_nonce @ client_public_key @ server_public_key)"

definition derive_session_keys :: "primitives \<Rightarrow> bytes \<Rightarrow> bytes \<Rightarrow> crypto_error + session_keys" where
  "derive_session_keys P shared_secret transcript_hash =
     (if shared_secret = replicate X25519_PUBLIC_KEY_LEN 0 then Inl InvalidSharedSecret
      else
        let expand = (\<lambda>info len.
              ok_or KeyDerivationFailed (hkdf_expand P transcript_hash shared_secret (ascii info) len))
        in
        and_then (expand ''udp-protocol/v2/client-to-server'' AEAD_KEY_LEN) (\<lambda>client_to_server.
        and_then (expand ''udp-protocol/v2/server-to-client'' AEAD_KEY_LEN) (\<lambda>server_to_client.
        and_then (expand ''udp-protocol/v2/finished'' AEAD_KEY_LEN) (\<lambda>finished.
        and_then (expand ''udp-protocol/v2/packet-nonce'' 4) (\<lambda>nonce_salt.
        Inr \<lparr>sk_client_to_server = client_to_server, sk_server_to_client = server_to_client,
             sk_finished = finished, sk_nonce_salt = nonce_salt\<rparr>)))))"

definition role_byte :: "crypto_role \<Rightarrow> u8" where
  "role_byte role = (case role of Client_CR \<Rightarrow> 0 | Server_CR \<Rightarrow> 1)"

definition finished_tag ::
  "primitives \<Rightarrow> session_keys \<Rightarrow> crypto_role \<Rightarrow> bytes \<Rightarrow> crypto_error + bytes" where
  "finished_tag P keys role transcript_hash =
     and_then (ok_or KeyDerivationFailed (hmac_sha256 P (sk_finished keys)
       (ascii ''udp-protocol/v2/finished'' @ [role_byte role] @ transcript_hash))) (\<lambda>digest.
     Inr (take FINISHED_TAG_LEN digest))"

definition verify_finished ::
  "primitives \<Rightarrow> session_keys \<Rightarrow> crypto_role \<Rightarrow> bytes \<Rightarrow> bytes \<Rightarrow> crypto_error + unit" where
  "verify_finished P keys role transcript_hash received =
     and_then (finished_tag P keys role transcript_hash) (\<lambda>expected.
     if expected \<noteq> received then Inl AuthenticationFailed else Inr ())"

definition outbound_key :: "session_keys \<Rightarrow> crypto_role \<Rightarrow> bytes" where
  "outbound_key keys role =
     (case role of Client_CR \<Rightarrow> sk_client_to_server keys | Server_CR \<Rightarrow> sk_server_to_client keys)"

definition inbound_key :: "session_keys \<Rightarrow> crypto_role \<Rightarrow> bytes" where
  "inbound_key keys role =
     (case role of Client_CR \<Rightarrow> sk_server_to_client keys | Server_CR \<Rightarrow> sk_client_to_server keys)"

definition packet_nonce :: "session_keys \<Rightarrow> packet_number \<Rightarrow> bytes" where
  "packet_nonce keys pn = sk_nonce_salt keys @ to_be_bytes 8 pn"

section \<open>Packet protection\<close>

record packet_crypto =
  pc_role :: crypto_role
  pc_keys :: session_keys
  pc_replay :: replay_window

definition packet_crypto_new :: "crypto_role \<Rightarrow> session_keys \<Rightarrow> packet_crypto" where
  "packet_crypto_new role keys = \<lparr>pc_role = role, pc_keys = keys, pc_replay = replay_window_new\<rparr>"

definition seal ::
  "primitives \<Rightarrow> packet_crypto \<Rightarrow> packet_number \<Rightarrow> bytes \<Rightarrow> bytes \<Rightarrow> crypto_error + bytes" where
  "seal P crypto pn associated_data plaintext =
     and_then (ok_or AuthenticationFailed
       (aead_encrypt P (outbound_key (pc_keys crypto) (pc_role crypto)) (packet_nonce (pc_keys crypto) pn)
         associated_data plaintext)) (\<lambda>(ciphertext, tag).
     Inr (ciphertext @ tag))"

text \<open>The window is marked only after the ciphertext has been authenticated.\<close>

definition open_sealed ::
  "primitives \<Rightarrow> packet_crypto \<Rightarrow> packet_number \<Rightarrow> bytes \<Rightarrow> bytes
     \<Rightarrow> (crypto_error + bytes) \<times> packet_crypto" where
  "open_sealed P crypto pn associated_data input =
     (if length input < AEAD_TAG_LEN then (Inl EncryptedPayloadTooShort, crypto)
      else
        let ciphertext = take (length input - AEAD_TAG_LEN) input;
            tag = drop (length input - AEAD_TAG_LEN) input
        in
        case aead_decrypt P (inbound_key (pc_keys crypto) (pc_role crypto))
               (packet_nonce (pc_keys crypto) pn) associated_data ciphertext tag of
          None \<Rightarrow> (Inl AuthenticationFailed, crypto)
        | Some plaintext \<Rightarrow>
            (case check_and_mark (pc_replay crypto) pn of
               (Inl e, w) \<Rightarrow> (Inl (Replay e), crypto\<lparr>pc_replay := w\<rparr>)
             | (Inr _, w) \<Rightarrow> (Inr plaintext, crypto\<lparr>pc_replay := w\<rparr>)))"

definition encode_packet_with_crypto ::
  "primitives \<Rightarrow> packet \<Rightarrow> usize \<Rightarrow> packet_crypto \<Rightarrow> protocol_error + bytes" where
  "encode_packet_with_crypto P packet max_datagram_size crypto =
     (if flags_contains (pkt_flags packet) ENCRYPTED then Inl EncryptionNotAllowed
      else
        and_then (encode_frames packet) (\<lambda>plaintext.
        and_then (ok_or (DatagramTooLarge max_datagram_size (usize_limit - 1))
          (checked_add_usize (length plaintext) AEAD_TAG_LEN)) (\<lambda>encrypted_payload_len.
        if encrypted_payload_len > 65535 then Inl (FrameTooLarge 65535 encrypted_payload_len)
        else
          and_then (validate_datagram_limit max_datagram_size) (\<lambda>_.
          let header = header_bytes (pkt_type packet) (pkt_flags packet OR ENCRYPTED)
                (pkt_connection_id packet) (pkt_number packet) encrypted_payload_len
          in
          and_then (map_err Crypto (seal P crypto (pkt_number packet) header plaintext)) (\<lambda>ciphertext.
          let output = header @ ciphertext in
          and_then (ensure_datagram_size (length output) max_datagram_size) (\<lambda>_.
          Inr (with_checksum output)))))))"

definition decode_encrypted_packet ::
  "primitives \<Rightarrow> bytes \<Rightarrow> usize \<Rightarrow> packet_crypto \<Rightarrow> (protocol_error + packet) \<times> packet_crypto" where
  "decode_encrypted_packet P bs max_datagram_size crypto =
     (case decode_header_and_lengths bs max_datagram_size of
        Inl e \<Rightarrow> (Inl e, crypto)
      | Inr header \<Rightarrow>
          if \<not> flags_contains (ph_flags header) ENCRYPTED then
            (Inl (InvalidFlags (ph_flags header)), crypto)
          else
            let payload = drop (unat (ph_header_len header)) bs in
            if length payload < AEAD_TAG_LEN then (Inl (Crypto EncryptedPayloadTooShort), crypto)
            else
              case verify_checksum bs header of
                Inl e \<Rightarrow> (Inl e, crypto)
              | Inr _ \<Rightarrow>
                  let associated_data = splice (take FIXED_HEADER_LEN bs) 26 (replicate 4 0) in
                  case open_sealed P crypto (ph_packet_number header) associated_data payload of
                    (Inl e, crypto) \<Rightarrow> (Inl (Crypto e), crypto)
                  | (Inr plaintext, crypto) \<Rightarrow>
                      (and_then (decode_frames plaintext) (\<lambda>frames.
                         Inr (packet_of header frames)), crypto))"

section \<open>Sealing and opening\<close>

definition peer :: "crypto_role \<Rightarrow> crypto_role" where
  "peer role = (case role of Client_CR \<Rightarrow> Server_CR | Server_CR \<Rightarrow> Client_CR)"

text \<open>Two ends of one session: the same keys, opposite roles.\<close>

definition session_ends :: "packet_crypto \<Rightarrow> packet_crypto \<Rightarrow> bool" where
  "session_ends a b \<longleftrightarrow> pc_keys a = pc_keys b \<and> pc_role b = peer (pc_role a)"

lemma inbound_key_peer [simp]: "inbound_key keys (peer role) = outbound_key keys role"
  by (cases role) (simp_all add: inbound_key_def outbound_key_def peer_def)

lemma packet_nonce_inj: "packet_nonce keys m = packet_nonce keys n \<Longrightarrow> m = n"
  by (metis append_eq_append_conv from_to_be_bytes_full(3) length_to_be_bytes packet_nonce_def)

definition replay_outcome :: "packet_crypto \<Rightarrow> packet_number \<Rightarrow> 'a \<Rightarrow> (crypto_error + 'a) \<times> packet_crypto" where
  "replay_outcome crypto pn x =
     (case check_and_mark (pc_replay crypto) pn of
        (Inl e, w) \<Rightarrow> (Inl (Replay e), crypto\<lparr>pc_replay := w\<rparr>)
      | (Inr _, w) \<Rightarrow> (Inr x, crypto\<lparr>pc_replay := w\<rparr>))"

lemma open_seal:
  assumes "aead_correct P" "session_ends sender receiver" "seal P sender pn aad plain = Inr ct"
  shows "length ct = length plain + AEAD_TAG_LEN"
    and "open_sealed P receiver pn aad ct = replay_outcome receiver pn plain"
proof -
  obtain c t where ct: "ct = c @ t" and enc: "aead_encrypt P (outbound_key (pc_keys sender) (pc_role sender))
      (packet_nonce (pc_keys sender) pn) aad plain = Some (c, t)"
    using assms(3) by (auto simp: seal_def result_simps)
  from enc assms(1) have "length c = length plain" "length t = 16"
    "aead_decrypt P (outbound_key (pc_keys sender) (pc_role sender)) (packet_nonce (pc_keys sender) pn) aad c t
       = Some plain"
    unfolding aead_correct_def by blast+
  with assms(2) show "length ct = length plain + AEAD_TAG_LEN"
    "open_sealed P receiver pn aad ct = replay_outcome receiver pn plain"
    by (simp_all add: ct open_sealed_def AEAD_TAG_LEN_def session_ends_def replay_outcome_def)
qed

lemma associated_data_datagram:
  "splice (take FIXED_HEADER_LEN (datagram ty fl cid pn crc payload)) 26 (replicate 4 0)
     = header_bytes ty fl cid pn (length payload)"
  by (simp add: splice_def datagram_def FIXED_HEADER_LEN_def header_bytes_def)

lemma encrypted_flags:
  "fl AND NOT KNOWN_BITS = 0 \<Longrightarrow> (fl OR ENCRYPTED) AND NOT KNOWN_BITS = 0"
  "flags_contains (fl OR ENCRYPTED) ENCRYPTED"
proof -
  have "ENCRYPTED AND NOT KNOWN_BITS = 0"
    by (simp add: ENCRYPTED_def KNOWN_BITS_def ACK_ELICITING_def PROBE_def HAS_PADDING_def)
  then show "fl AND NOT KNOWN_BITS = 0 \<Longrightarrow> (fl OR ENCRYPTED) AND NOT KNOWN_BITS = 0"
    by (simp add: bit.conj_disj_distrib2)
  show "flags_contains (fl OR ENCRYPTED) ENCRYPTED"
    unfolding flags_contains_def by (rule bit_word_eqI) (auto simp: bit_simps)
qed

lemma decode_encrypt:
  assumes aead: "aead_correct P" and ends: "session_ends sender receiver" and v: "valid_packet p"
    and e: "encode_packet_with_crypto P p maximum sender = Inr bs"
  shows "decode_encrypted_packet P bs maximum receiver =
     (case replay_outcome receiver (pkt_number p) (p\<lparr>pkt_flags := pkt_flags p OR ENCRYPTED\<rparr>) of
        (r, c) \<Rightarrow> (map_err Crypto r, c))"
    and "length bs \<le> maximum"
proof -
  obtain ty fl cid pn fs where p: "p = \<lparr>pkt_type = ty, pkt_flags = fl, pkt_connection_id = cid,
      pkt_number = pn, pkt_frames = fs\<rparr>"
    by (cases p) simp
  let ?fl = "fl OR ENCRYPTED"
  let ?hdr = "\<lambda>n. header_bytes ty ?fl cid pn n"
  from e obtain plain ct where pl: "encode_frames p = Inr plain"
    and n: "length plain + AEAD_TAG_LEN \<le> 65535" "FIXED_HEADER_LEN \<le> maximum"
    and ct: "seal P sender pn (?hdr (length plain + AEAD_TAG_LEN)) plain = Inr ct"
    and lim: "length (?hdr (length plain + AEAD_TAG_LEN) @ ct) \<le> maximum"
    and bs: "bs = with_checksum (?hdr (length plain + AEAD_TAG_LEN) @ ct)"
    by (auto simp: encode_packet_with_crypto_def p result_simps Let_def checked_add_usize_def
        validate_datagram_limit_def ensure_datagram_size_def split: if_splits)
  note op = open_seal [OF aead ends ct]
  have frames: "decode_frames plain = Inr fs"
    using decode_frames_encode [OF _ pl] v by (auto simp: valid_packet_def p)
  have fl: "?fl AND NOT KNOWN_BITS = 0" "flags_contains ?fl ENCRYPTED"
    using encrypted_flags v by (auto simp: valid_packet_def p)
  let ?crc = "crc32c_with_zeroed_range (?hdr (length ct) @ ct) 26 30"
  have bs': "bs = datagram ty ?fl cid pn ?crc ct"
    using bs with_checksum_header [of ty ?fl cid pn ct] op(1) by simp
  let ?h = "\<lparr>ph_version = VERSION, ph_packet_type = ty, ph_flags = ?fl, ph_header_len = 30,
      ph_connection_id = cid, ph_packet_number = pn, ph_payload_len = of_nat (length ct),
      ph_checksum = ?crc\<rparr>"
  have "unat (of_nat (length ct) :: u16) = length ct"
    using n(1) op(1) by (intro unat_of_nat_small) simp
  then have hdr: "decode_header_and_lengths bs maximum = Inr ?h"
    using decode_header_datagram [OF fl(1), of ct ty cid pn ?crc] op(1) n lim
    by (simp add: decode_header_and_lengths_def validate_datagram_limit_def bs' Let_def
        FIXED_HEADER_LEN_def)
  have payload: "drop 30 bs = ct"
    by (simp add: bs' datagram_def FIXED_HEADER_LEN_def)
  have "splice (take FIXED_HEADER_LEN bs) 26 (replicate 4 0) = ?hdr (length plain + AEAD_TAG_LEN)"
    using associated_data_datagram op(1) bs' by metis
  then show "decode_encrypted_packet P bs maximum receiver =
     (case replay_outcome receiver (pkt_number p) (p\<lparr>pkt_flags := pkt_flags p OR ENCRYPTED\<rparr>) of
        (r, c) \<Rightarrow> (map_err Crypto r, c))"
    using hdr fl op frames payload
    by (simp add: decode_encrypted_packet_def verify_checksum_def bs' crc_datagram Let_def p
        replay_outcome_def packet_of_def AEAD_TAG_LEN_def split: prod.splits sum.splits)
  show "length bs \<le> maximum"
    using lim bs' by (simp add: FIXED_HEADER_LEN_def)
qed

section \<open>Properties\<close>

text \<open>A concrete instance of the primitives that satisfies the documented laws, for the witnesses.\<close>

definition sample_primitives :: primitives where
  "sample_primitives =
     \<lparr>x25519_public = (\<lambda>s. s), x25519_shared = (\<lambda>a b. map2 (+) a b), sha256 = (\<lambda>_. replicate 32 0),
      hkdf_expand = (\<lambda>_ _ _ len. Some (replicate len 1)), hmac_sha256 = (\<lambda>_ _. Some (replicate 32 2)),
      aead_encrypt = (\<lambda>_ _ _ plain. Some (map (\<lambda>b. b + 1) plain, replicate 16 7)),
      aead_decrypt = (\<lambda>_ _ _ cipher tag.
        if tag = replicate 16 7 then Some (map (\<lambda>b. b - 1) cipher) else None)\<rparr>"

definition sample_keys :: session_keys where
  "sample_keys = \<lparr>sk_client_to_server = replicate 32 1, sk_server_to_client = replicate 32 1,
     sk_finished = replicate 32 1, sk_nonce_salt = replicate 4 1\<rparr>"

lemma sample_primitives_laws: "aead_correct sample_primitives" "key_exchange_agrees sample_primitives"
proof -
  have "map (\<lambda>x. x - 1) (map (\<lambda>x. x + 1) xs) = xs" for xs :: bytes
    by (induction xs) auto
  then show "aead_correct sample_primitives"
    by (auto simp: aead_correct_def sample_primitives_def)
  have "map2 (+) xs ys = map2 (+) ys xs" for xs ys :: bytes
    by (induction xs ys rule: list_induct2') (auto simp: add.commute)
  then show "key_exchange_agrees sample_primitives"
    by (auto simp: key_exchange_agrees_def sample_primitives_def)
qed

lemma sample_packet_encrypts:
  "\<exists>bs. encode_packet_with_crypto sample_primitives sample_packet 1200
     (packet_crypto_new Client_CR sample_keys) = Inr bs"
  by (simp add: encode_packet_with_crypto_def sample_packet_def flags_contains_def ENCRYPTED_def
      encode_frames_def frame_encode_def ping_encode_def connection_close_encode_def write_blob_def
      varint_encode_eq varint_bytes_def MAX_VALUE_def MAX_FRAME_COUNT_def frame_limits
      validate_datagram_limit_def ensure_datagram_size_def checked_add_usize_def usize_limit_def
      header_bytes_def Let_def encoded_len_def seal_def sample_primitives_def AEAD_TAG_LEN_def)

lemma sample_ends:
  "session_ends (packet_crypto_new Client_CR keys) (packet_crypto_new Server_CR keys)"
  by (simp add: session_ends_def packet_crypto_new_def peer_def)

lemma encrypt_wire: "encode_packet_with_crypto P (wire_packet p) limit crypto = encode_packet_with_crypto P p limit crypto"
  unfolding encode_packet_with_crypto_def encode_frames_wire wire_packet_simps ..

lemma refused_unchanged: "check_and_mark w pn = (Inl e, w') \<Longrightarrow> w' = w"
  by (auto simp: check_and_mark_def Let_def split: if_splits option.splits)

lemma sealed_once:
  assumes "aead_correct P" "session_ends sender receiver" "valid_packet (wire_packet p)"
    and e: "encode_packet_with_crypto P p maximum sender = Inr bs"
    and "replay_rel (pc_replay receiver) S" "replay_spec S (pkt_number p) = Inr ()"
  shows "\<exists>receiver' e.
     decode_encrypted_packet P bs maximum receiver =
       (Inr ((wire_packet p)\<lparr>pkt_flags := pkt_flags p OR ENCRYPTED\<rparr>), receiver')
     \<and> decode_encrypted_packet P bs maximum receiver' = (Inl (Crypto (Replay e)), receiver')"
proof -
  obtain w where w: "check_and_mark (pc_replay receiver) (pkt_number p) = (Inr (), w)"
    using window.result [OF assms(5), of "pkt_number p"] assms(6)
    by (cases "check_and_mark (pc_replay receiver) (pkt_number p)") auto
  let ?r = "receiver\<lparr>pc_replay := w\<rparr>"
  obtain e where w': "check_and_mark w (pkt_number p) = (Inl e, w)"
    using window.repeat_refused [OF assms(5) w] refused_unchanged by (metis prod.collapse)
  have ends: "session_ends sender ?r"
    using assms(2) by (simp add: session_ends_def)
  note dec = decode_encrypt(1) [OF assms(1) _ assms(3), unfolded encrypt_wire, OF _ assms(4)]
  have "decode_encrypted_packet P bs maximum receiver =
      (Inr ((wire_packet p)\<lparr>pkt_flags := pkt_flags p OR ENCRYPTED\<rparr>), ?r)"
    using dec [OF assms(2)] w by (simp add: replay_outcome_def)
  moreover have "decode_encrypted_packet P bs maximum ?r = (Inl (Crypto (Replay e)), ?r)"
    using dec [OF ends] w' by (simp add: replay_outcome_def)
  ultimately show ?thesis
    by blast
qed

text \<open>C25. Only authenticated datagrams touch the receiver: if decoding an encrypted datagram changes the
  receiver's state, then the AEAD accepted the payload under the inbound key, the nonce of the packet
  number in the header and the header as associated data, and only the replay window has changed.\<close>

theorem state_changes_only_when_authenticated:
  assumes "decode_encrypted_packet P bs maximum crypto = (r, crypto')" "crypto' \<noteq> crypto"
  shows "(\<exists>header plain. decode_header_and_lengths bs maximum = Inr header \<and>
       aead_decrypt P (inbound_key (pc_keys crypto) (pc_role crypto))
         (packet_nonce (pc_keys crypto) (ph_packet_number header))
         (splice (take FIXED_HEADER_LEN bs) 26 (replicate 4 0))
         (take (length bs - 46) (drop 30 bs)) (drop (length bs - 16) bs) = Some plain)
     \<and> crypto' = crypto\<lparr>pc_replay := pc_replay crypto'\<rparr>"
proof -
  from assms obtain header where h: "decode_header_and_lengths bs maximum = Inr header"
    and len: "16 \<le> length (drop (unat (ph_header_len header)) bs)"
    and op: "snd (open_sealed P crypto (ph_packet_number header)
      (splice (take FIXED_HEADER_LEN bs) 26 (replicate 4 0)) (drop (unat (ph_header_len header)) bs))
        = crypto'"
    by (auto simp: decode_encrypted_packet_def Let_def AEAD_TAG_LEN_def
        split: sum.splits if_splits prod.splits)
  from h have "decode_header bs = Inr header"
    by (auto simp: decode_header_and_lengths_def Let_def result_simps split: if_splits)
  then have hl: "unat (ph_header_len header) = 30"
    using decode_header_ok(1) by (simp add: FIXED_HEADER_LEN_def)
  with len op assms(2) have "\<exists>plain. aead_decrypt P (inbound_key (pc_keys crypto) (pc_role crypto))
         (packet_nonce (pc_keys crypto) (ph_packet_number header))
         (splice (take FIXED_HEADER_LEN bs) 26 (replicate 4 0))
         (take (length bs - 46) (drop 30 bs)) (drop (length bs - 16) bs) = Some plain"
    "crypto' = crypto\<lparr>pc_replay := pc_replay crypto'\<rparr>"
    by (auto simp: open_sealed_def AEAD_TAG_LEN_def Let_def split: option.splits sum.splits prod.splits)
  with h show ?thesis
    by blast
qed

theorem state_changes_only_when_authenticated_witness:
  "\<exists>bs header plain. decode_header_and_lengths bs 1200 = Inr header \<and>
     aead_decrypt sample_primitives (replicate 32 1)
       (packet_nonce sample_keys (ph_packet_number header))
       (splice (take FIXED_HEADER_LEN bs) 26 (replicate 4 0))
       (take (length bs - 46) (drop 30 bs)) (drop (length bs - 16) bs) = Some plain"
proof -
  let ?c = "packet_crypto_new Server_CR sample_keys"
  obtain bs where bs: "encode_packet_with_crypto sample_primitives sample_packet 1200
      (packet_crypto_new Client_CR sample_keys) = Inr bs"
    using sample_packet_encrypts by blast
  obtain r c' where d: "decode_encrypted_packet sample_primitives bs 1200 ?c = (r, c')" "c' \<noteq> ?c"
    using decode_encrypt(1) [OF sample_primitives_laws(1) sample_ends sample_packet_valid bs]
    by (simp add: replay_outcome_def packet_crypto_new_def check_and_mark_def replay_window_new_def)
  show ?thesis
    using state_changes_only_when_authenticated [OF d]
    by (auto simp: packet_crypto_new_def inbound_key_def sample_keys_def)
qed

end
