(* ===== verification/Conn_State.thy ===== *)
theory Conn_State
  imports Conn_Timers Stream_Manager Received_Packets Congestion Rtt Crypto
begin

text \<open>
  The state of a connection: the structs \<open>Connection\<close> (\<open>connection.rs\<close>), \<open>TransportState\<close>
  (\<open>connection/transport.rs\<close>), \<open>SentPacket\<close> (\<open>recovery.rs\<close>) and \<open>HandshakeState\<close>
  (\<open>connection/handshake.rs\<close>). Methods that borrow several fields of the connection mutably are
  computations on the whole connection; methods of one field are lifted to it.
\<close>

section \<open>State\<close>

record sent_packet =
  sp_packet_number :: packet_number
  sp_sent_at :: duration
  sp_encoded_len :: usize
  sp_frames :: "queued_frame list"
  sp_retransmit_count :: u32
  sp_timer_id :: u64
  sp_generation :: u32

record transport_state =
  tr_next_packet_number :: u64
  tr_pending_frames :: "queued_frame list"
  tr_sent :: "(packet_number, sent_packet) btree_map"
  tr_received :: received_packets
  tr_ack_pending :: bool
  tr_ack_ready :: bool
  tr_generation :: u32
  tr_congestion :: congestion_controller
  tr_rtt :: rtt_estimator
  tr_last_ping_nonce :: u64

record handshake_state =
  hs_connection_id :: connection_id
  hs_key_pair :: ephemeral_key_pair
  hs_local_nonce :: bytes
  hs_client_nonce :: "bytes option"
  hs_peer_client_nonce :: "bytes option"
  hs_peer_cookie :: bytes
  hs_frame :: "frame option"
  hs_transcript_hash :: "bytes option"
  hs_session_keys :: "session_keys option"
  hs_retries :: u32
  hs_peer_max_streams :: u32
  hs_peer_initial_stream_window :: u64

record connection =
  cn_role :: connection_role
  cn_id :: connection_id
  cn_config :: connection_config
  cn_state :: connection_state
  cn_now :: duration
  cn_streams :: stream_manager
  cn_transport :: transport_state
  cn_handshake :: handshake_state
  cn_packet_crypto :: "packet_crypto option"
  cn_timers :: timer_state
  cn_output :: "core_output list"
  cn_connection_send :: send_flow_control
  cn_connection_receive :: receive_flow_control
  cn_close_error :: "u32 option"

section \<open>Computations on a connection\<close>

type_synonym 'x conn_op = "(connection, stop, 'x) st"

definition on_timers :: "'x timer_op \<Rightarrow> 'x conn_op" where
  "on_timers = st_field cn_timers (\<lambda>t c. c\<lparr>cn_timers := t\<rparr>) (\<lambda>e. e)"

definition on_streams :: "'x manager_op \<Rightarrow> 'x conn_op" where
  "on_streams = st_field cn_streams (\<lambda>m c. c\<lparr>cn_streams := m\<rparr>) Stop"

definition in_timers :: "(timer_state \<Rightarrow> timer_state) \<Rightarrow> unit conn_op" where
  "in_timers f = st_modify (\<lambda>c. c\<lparr>cn_timers := f (cn_timers c)\<rparr>)"

definition in_streams :: "(stream_manager \<Rightarrow> stream_manager) \<Rightarrow> unit conn_op" where
  "in_streams f = st_modify (\<lambda>c. c\<lparr>cn_streams := f (cn_streams c)\<rparr>)"

definition in_transport :: "(transport_state \<Rightarrow> transport_state) \<Rightarrow> unit conn_op" where
  "in_transport f = st_modify (\<lambda>c. c\<lparr>cn_transport := f (cn_transport c)\<rparr>)"

definition in_handshake :: "(handshake_state \<Rightarrow> handshake_state) \<Rightarrow> unit conn_op" where
  "in_handshake f = st_modify (\<lambda>c. c\<lparr>cn_handshake := f (cn_handshake c)\<rparr>)"

definition in_config :: "(connection_config \<Rightarrow> connection_config) \<Rightarrow> unit conn_op" where
  "in_config f = st_modify (\<lambda>c. c\<lparr>cn_config := f (cn_config c)\<rparr>)"

definition push_output :: "core_output \<Rightarrow> unit conn_op" where
  "push_output x = st_modify (\<lambda>c. c\<lparr>cn_output := cn_output c @ [x]\<rparr>)"

text \<open>A result of the library, an error of the API, an early return with an error.\<close>

definition lift_core :: "core_error + 'x \<Rightarrow> 'x conn_op" where
  "lift_core r = st_lift (map_err Stop r)"

definition core_fail :: "core_error \<Rightarrow> 'x conn_op" where
  "core_fail e = st_fail (Stop e)"

text \<open>\<open>if let Err(error) = m { handler; return Err(error) }\<close>\<close>

definition on_error :: "'x conn_op \<Rightarrow> (stop \<Rightarrow> unit conn_op) \<Rightarrow> 'x conn_op" where
  "on_error m h = (\<lambda>c. case m c of
      (Inl e, c) \<Rightarrow> (case h e c of (_, c) \<Rightarrow> (Inl e, c))
    | (Inr x, c) \<Rightarrow> (Inr x, c))"

end
