(* ===== verification/Transport.thy ===== *)
theory Transport
  imports Conn_State
begin

text \<open>
  The transport of a connection, \<open>reliable-core/src/connection/transport.rs\<close>: acknowledgements, loss
  detection, retransmission, and \<open>flush\<close>, which turns queued frames into packets as long as congestion
  and flow control permit.
\<close>

section \<open>Model\<close>

definition transport_new :: "connection_config \<Rightarrow> transport_state" where
  "transport_new c =
     \<lparr>tr_next_packet_number = 0, tr_pending_frames = [], tr_sent = [], tr_received = received_packets_new,
      tr_ack_pending = False, tr_ack_ready = False, tr_generation = 0,
      tr_congestion = congestion_new (cfg_initial_congestion_window c) (cfg_min_congestion_window c)
        (cfg_max_congestion_window c) (cfg_max_datagram_size c),
      tr_rtt = rtt_new (cfg_initial_rto c) (cfg_min_rto c) (cfg_max_rto c) (cfg_clock_granularity c),
      tr_last_ping_nonce = 0\<rparr>"

definition is_reliably_flushed :: "connection \<Rightarrow> bool" where
  "is_reliably_flushed c \<longleftrightarrow>
     tr_pending_frames (cn_transport c) = [] \<and> tr_sent (cn_transport c) = []
     \<and> \<not> mgr_has_pending_data (cn_streams c)"

definition tr_queue :: "frame \<Rightarrow> transport_state \<Rightarrow> transport_state" where
  "tr_queue f t = t\<lparr>tr_pending_frames := tr_pending_frames t @ [queued_frame_new f]\<rparr>"

definition tr_queue_front :: "frame \<Rightarrow> transport_state \<Rightarrow> transport_state" where
  "tr_queue_front f t = t\<lparr>tr_pending_frames := queued_frame_new f # tr_pending_frames t\<rparr>"

definition record_received :: "packet_number \<Rightarrow> bool conn_op" where
  "record_received pn c =
     (case rp_record (tr_received (cn_transport c)) pn (cn_now c) of
        (is_new, rp) \<Rightarrow> (Inr is_new, c\<lparr>cn_transport := (cn_transport c)\<lparr>tr_received := rp\<rparr>\<rparr>))"

definition tr_schedule_ack :: "slotmap_api \<Rightarrow> unit conn_op" where
  "tr_schedule_ack api =
     st_then (in_transport (\<lambda>t. t\<lparr>tr_ack_pending := True\<rparr>))
     (st_bind (st_read (\<lambda>c. cfg_ack_delay (cn_config c))) (\<lambda>delay.
      if delay = 0 then in_transport (\<lambda>t. t\<lparr>tr_ack_ready := True\<rparr>)
      else
        st_bind (st_read (\<lambda>c. tr_ack_ready (cn_transport c))) (\<lambda>ready.
        st_when (\<not> ready) (on_timers (schedule_ack api delay)))))"

definition on_ack_timer :: "transport_state \<Rightarrow> transport_state" where
  "on_ack_timer t = (if tr_ack_pending t then t\<lparr>tr_ack_ready := True\<rparr> else t)"

definition queue_keepalive :: "transport_state \<Rightarrow> transport_state" where
  "queue_keepalive t =
     (let t = t\<lparr>tr_last_ping_nonce := tr_last_ping_nonce t + 1\<rparr>
      in tr_queue (Ping \<lparr>ping_nonce = tr_last_ping_nonce t\<rparr>) t)"

text \<open>Frames of a lost packet go back to the front of their queue, unless the packet has been sent too
  often.\<close>

definition requeue_one :: "u32 \<Rightarrow> queued_frame \<Rightarrow> unit conn_op" where
  "requeue_one n q =
     (case qf_frame q of
        StreamData d \<Rightarrow> on_streams (mgr_requeue d n)
      | f \<Rightarrow> in_transport (\<lambda>t. t\<lparr>tr_pending_frames := queued_frame_with_count f n # tr_pending_frames t\<rparr>))"

definition requeue_lost :: "queued_frame list \<Rightarrow> u32 \<Rightarrow> unit conn_op" where
  "requeue_lost frames retransmit_count =
     (let next_count = saturating_add retransmit_count 1 in
      st_bind (st_read (\<lambda>c. cfg_max_retransmissions (cn_config c))) (\<lambda>limit.
      if next_count > limit then core_fail RetransmissionLimit
      else st_for (rev frames) (requeue_one next_count)))"

definition requeue_candidate :: "queued_frame \<Rightarrow> unit conn_op" where
  "requeue_candidate q = requeue_one (qf_retransmit_count q) q"

text \<open>The loop of \<open>apply_ack\<close> over the acknowledged packets; it carries the sample of the round-trip
  time, taken from the first of them that was sent only once.\<close>

definition ack_packet :: "packet_number \<Rightarrow> sent_packet \<Rightarrow> connection \<Rightarrow> connection" where
  "ack_packet pn p c =
     c\<lparr>cn_transport := (cn_transport c)\<lparr>tr_sent := bt_remove pn (tr_sent (cn_transport c)),
         tr_congestion := cc_on_acked (tr_congestion (cn_transport c)) (sp_encoded_len p)\<rparr>,
       cn_timers := tm_cancel (sp_timer_id p) (cn_timers c)\<rparr>"

fun ack_loop :: "packet_number list \<Rightarrow> duration option \<Rightarrow> connection \<Rightarrow> duration option \<times> connection" where
  "ack_loop [] sample c = (sample, c)"
| "ack_loop (pn # pns) sample c =
     (case bt_get (tr_sent (cn_transport c)) pn of
        None \<Rightarrow> ack_loop pns sample c
      | Some p \<Rightarrow>
          ack_loop pns
            (if sp_retransmit_count p = 0 \<and> sample = None then Some (cn_now c - sp_sent_at p) else sample)
            (ack_packet pn p c))"

definition update_rtt :: "duration \<Rightarrow> duration \<Rightarrow> unit conn_op" where
  "update_rtt sample delay c =
     (case Option.bind (rtt_on_ack (tr_rtt (cn_transport c)) sample delay) rtt_reset_backoff of
        None \<Rightarrow> (Inl Panic, c)
      | Some e \<Rightarrow> (Inr (), c\<lparr>cn_transport := (cn_transport c)\<lparr>tr_rtt := e\<rparr>\<rparr>))"

definition lose_packet :: "packet_number \<Rightarrow> unit conn_op" where
  "lose_packet pn c =
     (case bt_get (tr_sent (cn_transport c)) pn of
        None \<Rightarrow> (Inr (), c)
      | Some p \<Rightarrow>
          requeue_lost (sp_frames p) (sp_retransmit_count p)
            (c\<lparr>cn_transport := (cn_transport c)\<lparr>tr_sent := bt_remove pn (tr_sent (cn_transport c)),
                 tr_congestion := cc_on_loss (tr_congestion (cn_transport c)) (sp_encoded_len p)\<rparr>,
               cn_timers := tm_cancel (sp_timer_id p) (cn_timers c)\<rparr>))"

definition apply_ack :: "ack_frame \<Rightarrow> unit conn_op" where
  "apply_ack ack =
     st_bind (lift_core (map_err Protocol (ack_frame_validate ack))) (\<lambda>_.
     st_bind (st_read (\<lambda>c. tr_next_packet_number (cn_transport c))) (\<lambda>next.
     if ack_largest ack \<ge> next then core_fail AckForUnsentPacket
     else
       st_bind (st_read (\<lambda>c. filter (ack_ranges_contains (ack_ranges ack)) (bt_keys (tr_sent (cn_transport c))))) (\<lambda>acknowledged.
       st_bind (\<lambda>c. case ack_loop acknowledged None c of (sample, c) \<Rightarrow> (Inr sample, c)) (\<lambda>rtt_sample.
       st_then (case rtt_sample of None \<Rightarrow> st_return () | Some sample \<Rightarrow> update_rtt sample (ack_delay ack))
       (st_bind (st_read (\<lambda>c. filter (\<lambda>pn.
             of_nat (length (filter (\<lambda>acked. acked > pn) acknowledged)) \<ge> cfg_fast_loss_threshold (cn_config c))
           (bt_keys (tr_sent (cn_transport c))))) (\<lambda>candidates.
        st_for candidates lose_packet))))))"

definition process_retransmit :: "packet_number \<Rightarrow> u32 \<Rightarrow> unit conn_op" where
  "process_retransmit pn generation c =
     (case bt_get (tr_sent (cn_transport c)) pn of
        None \<Rightarrow> (Inr (), c)
      | Some p \<Rightarrow>
          if sp_generation p \<noteq> generation then (Inr (), c)
          else
            requeue_lost (sp_frames p) (sp_retransmit_count p)
              (c\<lparr>cn_transport := (cn_transport c)\<lparr>tr_sent := bt_remove pn (tr_sent (cn_transport c)),
                   tr_congestion := cc_on_loss (tr_congestion (cn_transport c)) (sp_encoded_len p),
                   tr_rtt := rtt_on_timeout (tr_rtt (cn_transport c))\<rparr>\<rparr>))"

section \<open>Flushing\<close>

definition packet_type_of :: "frame \<Rightarrow> connection_state \<Rightarrow> packet_type" where
  "packet_type_of f state =
     (case f of
        ClientHello _ \<Rightarrow> Initial_PT
      | HandshakeAck _ \<Rightarrow> Handshake_PT
      | ServerHello _ \<Rightarrow> Handshake_PT
      | ConnectionClose _ \<Rightarrow> Close_PT
      | _ \<Rightarrow> if state = Handshaking then Handshake_PT else Data_PT)"

text \<open>\<open>FlushIdentity::encrypt_data\<close>\<close>

definition encrypt_data :: "connection \<Rightarrow> bool" where
  "encrypt_data c \<longleftrightarrow> cn_packet_crypto c \<noteq> None \<and> cn_state c \<in> {Established, Closing}"

definition take_data_candidate :: "queued_frame option conn_op" where
  "take_data_candidate c =
     (case tr_pending_frames (cn_transport c) of
        q # qs \<Rightarrow> (Inr (Some q), c\<lparr>cn_transport := (cn_transport c)\<lparr>tr_pending_frames := qs\<rparr>\<rparr>)
      | [] \<Rightarrow> (case mgr_take_sendable (cn_streams c) of
          (q, m) \<Rightarrow> (Inr q, c\<lparr>cn_streams := m\<rparr>)))"

definition record_sent :: "slotmap_api \<Rightarrow> packet_number \<Rightarrow> usize \<Rightarrow> queued_frame \<Rightarrow> unit conn_op" where
  "record_sent api pn packet_len q =
     (case qf_frame q of
        ClientHello _ \<Rightarrow> st_return ()
      | ServerHello _ \<Rightarrow> st_return ()
      | HandshakeAck _ \<Rightarrow> st_return ()
      | _ \<Rightarrow>
        st_then (in_transport (\<lambda>t. t\<lparr>tr_generation := tr_generation t + 1\<rparr>))
        (st_bind (st_read (\<lambda>c. tr_generation (cn_transport c))) (\<lambda>generation.
         st_bind (st_read (\<lambda>c. rto (tr_rtt (cn_transport c)))) (\<lambda>timeout.
         st_bind (on_timers (tm_schedule api (Retransmit pn generation) timeout)) (\<lambda>timer_id.
         st_modify (\<lambda>c. c\<lparr>cn_transport := (cn_transport c)\<lparr>
             tr_congestion := cc_on_sent (tr_congestion (cn_transport c)) packet_len,
             tr_sent := bt_insert pn \<lparr>sp_packet_number = pn, sp_sent_at = cn_now c,
                 sp_encoded_len = packet_len, sp_frames = [q], sp_retransmit_count = qf_retransmit_count q,
                 sp_timer_id = timer_id, sp_generation = generation\<rparr> (tr_sent (cn_transport c))\<rparr>\<rparr>))))))"

text \<open>The packet for a frame.\<close>

definition packet_for :: "connection \<Rightarrow> packet_type \<Rightarrow> frame \<Rightarrow> packet" where
  "packet_for c ptype f =
     \<lparr>pkt_type = ptype, pkt_flags = (if is_ack_eliciting f then ACK_ELICITING else 0),
      pkt_connection_id = cn_id c, pkt_number = tr_next_packet_number (cn_transport c), pkt_frames = [f]\<rparr>"

text \<open>\<open>plain_encoded_len\<close> and \<open>encoded_len\<close>\<close>

definition packet_size :: "packet \<Rightarrow> usize conn_op" where
  "packet_size p =
     st_bind (st_read (\<lambda>c. cfg_max_datagram_size (cn_config c))) (\<lambda>limit.
     st_bind (lift_core (map_err Protocol (encode_packet p limit))) (\<lambda>bs.
     st_bind (st_read encrypt_data) (\<lambda>encrypted.
     st_bind (if encrypted \<and> pkt_type p \<in> {Data_PT, Close_PT} then
         lift_core (ok_or (InvalidState ''calculate encrypted packet length'')
           (checked_add_usize (length bs) AEAD_TAG_LEN))
       else st_return (length bs)) (\<lambda>packet_len.
     if packet_len > limit then core_fail (Protocol (DatagramTooLarge limit packet_len))
     else st_return packet_len))))"

text \<open>The rest of the loop body once a frame has been chosen: \<open>queued\<close> is \<open>None\<close> for an ACK. Its parts are
  what connection flow control says of stream data, the accounting of new data, and what is noted about
  a packet that has been handed out.\<close>

definition put_back :: "queued_frame option \<Rightarrow> unit conn_op" where
  "put_back queued = (case queued of None \<Rightarrow> st_return () | Some q \<Rightarrow> requeue_candidate q)"

definition flow_blocked :: "queued_frame option \<Rightarrow> connection \<Rightarrow> bool" where
  "flow_blocked queued c =
     (case queued of
        None \<Rightarrow> False
      | Some q \<Rightarrow> (case qf_frame q of
          StreamData d \<Rightarrow> \<not> sfc_can_send (cn_connection_send c) (length (sd_data d)) (qf_retransmit_count q \<noteq> 0)
        | _ \<Rightarrow> False))"

definition account_flow :: "queued_frame option \<Rightarrow> unit conn_op" where
  "account_flow queued =
     (case queued of
        None \<Rightarrow> st_return ()
      | Some q \<Rightarrow> (case qf_frame q of
          StreamData d \<Rightarrow> st_when (qf_retransmit_count q = 0) (st_modify (\<lambda>c.
            c\<lparr>cn_connection_send := sfc_account_new_data (cn_connection_send c) (length (sd_data d))\<rparr>))
        | _ \<Rightarrow> st_return ()))"

definition note_sent :: "slotmap_api \<Rightarrow> queued_frame option \<Rightarrow> frame \<Rightarrow> packet_number \<Rightarrow> usize \<Rightarrow> unit conn_op" where
  "note_sent api queued f pn packet_len =
     (case queued of
        Some q \<Rightarrow> st_when (is_ack_eliciting f) (record_sent api pn packet_len q)
      | None \<Rightarrow>
          st_then (in_transport (\<lambda>t. t\<lparr>tr_ack_pending := False, tr_ack_ready := False\<rparr>)) (in_timers cancel_ack))"

text \<open>The result says whether the loop goes on.\<close>

definition send_frame :: "slotmap_api \<Rightarrow> queued_frame option \<Rightarrow> packet_type \<Rightarrow> frame \<Rightarrow> bool conn_op" where
  "send_frame api queued ptype f =
     st_bind (st_read (\<lambda>c. packet_for c ptype f)) (\<lambda>packet.
     st_bind (packet_size packet) (\<lambda>packet_len.
     st_bind (st_read (\<lambda>c. cc_can_send (tr_congestion (cn_transport c)) packet_len)) (\<lambda>permitted.
     if is_ack_eliciting f \<and> \<not> permitted then st_then (put_back queued) (st_return False)
     else
       st_bind (lift_core (ok_or (InvalidState ''allocate packet number'') (checked_add (pkt_number packet) 1))) (\<lambda>next.
       st_then (in_transport (\<lambda>t. t\<lparr>tr_next_packet_number := next\<rparr>))
       (st_bind (st_read (flow_blocked queued)) (\<lambda>blocked.
        if blocked then
          st_then (put_back queued)
          (st_then (in_transport (\<lambda>t. t\<lparr>tr_next_packet_number := saturating_sub (tr_next_packet_number t) 1\<rparr>))
          (st_return False))
        else
          st_then (account_flow queued)
          (st_then (push_output (Send packet))
          (st_then (note_sent api queued f (pkt_number packet) packet_len)
          (st_return True)))))))))"

text \<open>One round of the loop of \<open>flush\<close>: choose a frame, send it.\<close>

definition flush_step :: "slotmap_api \<Rightarrow> bool conn_op" where
  "flush_step api =
     st_bind (st_read (\<lambda>c. tr_ack_pending (cn_transport c) \<and> tr_ack_ready (cn_transport c))) (\<lambda>ack_due.
     if ack_due then
       st_bind (\<lambda>c. lift_core (map_err Protocol
         (rp_frame (tr_received (cn_transport c)) (cn_now c) (cfg_ack_delay (cn_config c)))) c) (\<lambda>ack.
       case ack of
         None \<Rightarrow> st_return False
       | Some a \<Rightarrow> send_frame api None Data_PT (Ack a))
     else
       st_bind take_data_candidate (\<lambda>candidate.
       case candidate of
         None \<Rightarrow> st_return False
       | Some q \<Rightarrow>
           st_bind (st_read (\<lambda>c. packet_type_of (qf_frame q) (cn_state c))) (\<lambda>ptype.
           send_frame api (Some q) ptype (qf_frame q))))"

text \<open>The loop has no bound of its own: \<open>fuel\<close> bounds the rounds, one per queued frame, one for an
  ACK and one to find nothing left. \<open>flush_fuel\<close> is shown below to be enough.\<close>

fun flush_loop :: "slotmap_api \<Rightarrow> nat \<Rightarrow> unit conn_op" where
  "flush_loop api 0 = st_fail Endless"
| "flush_loop api (Suc fuel) =
     st_bind (flush_step api) (\<lambda>continue. if continue then flush_loop api fuel else st_return ())"

definition queue_length :: "stream_manager \<Rightarrow> nat" where
  "queue_length m = sum_list (map (\<lambda>(_, s). length (ss_queue (sr_send s))) (mg_streams m))"

definition flush_fuel :: "connection \<Rightarrow> nat" where
  "flush_fuel c =
     length (tr_pending_frames (cn_transport c)) + queue_length (cn_streams c)
     + (if tr_ack_pending (cn_transport c) then 1 else 0)"

definition flush :: "slotmap_api \<Rightarrow> unit conn_op" where
  "flush api c = flush_loop api (Suc (flush_fuel c)) c"

end
