(* ===== verification/Handshake.thy ===== *)
theory Handshake
  imports Transport
begin

text \<open>
  The handshake, \<open>reliable-core/src/connection/handshake.rs\<close>: the hellos, the key exchange and the
  verification of both Finished tags. The methods work on the handshake state and on the configuration
  of the connection, which the peer's limits may lower; an early return leaves what has been changed.
  Randomness (\<open>getrandom::fill\<close>) is an argument: the bytes it delivers, or \<open>None\<close> when it fails.
\<close>

section \<open>Model\<close>

datatype handshake_timeout = Retry_HT | Close_HT

definition handshake_new ::
  "primitives \<Rightarrow> bytes option \<Rightarrow> bytes option \<Rightarrow> connection_id \<Rightarrow> connection_config
    \<Rightarrow> core_error + handshake_state" where
  "handshake_new P random_nonce random_key cid config =
     and_then (ok_or RandomnessUnavailable_CE random_nonce) (\<lambda>local_nonce.
     and_then (map_err Crypto_CE (ephemeral_generate P random_key)) (\<lambda>key_pair.
     Inr \<lparr>hs_connection_id = cid, hs_key_pair = key_pair, hs_local_nonce = local_nonce,
          hs_client_nonce = None, hs_peer_client_nonce = None, hs_peer_cookie = [], hs_frame = None,
          hs_transcript_hash = None, hs_session_keys = None, hs_retries = 0,
          hs_peer_max_streams = cfg_max_streams config,
          hs_peer_initial_stream_window = cfg_initial_stream_window config\<rparr>))"

definition hs_effective_max_streams :: "handshake_state \<Rightarrow> connection_config \<Rightarrow> u32" where
  "hs_effective_max_streams h config = min (cfg_max_streams config) (hs_peer_max_streams h)"

text \<open>The \<open>ClientHello\<close> that \<open>start_client\<close> and \<open>receive_retry\<close> build.\<close>

definition client_hello_of :: "handshake_state \<Rightarrow> connection_config \<Rightarrow> client_hello" where
  "client_hello_of h config =
     \<lparr>ch_client_nonce = hs_local_nonce h, ch_client_public_key = kp_public_key (hs_key_pair h),
      ch_max_datagram_size = of_nat (cfg_max_datagram_size config), ch_max_streams = cfg_max_streams config,
      ch_initial_connection_window = cfg_initial_connection_window config,
      ch_initial_stream_window = cfg_initial_stream_window config, ch_cookie = cfg_handshake_cookie config\<rparr>"

definition set_frame :: "frame \<Rightarrow> handshake_state \<Rightarrow> handshake_state" where
  "set_frame f h = h\<lparr>hs_frame := Some f\<rparr>"

definition start_client :: "slotmap_api \<Rightarrow> unit conn_op" where
  "start_client api =
     st_bind (st_read (\<lambda>c. ClientHello (client_hello_of (cn_handshake c) (cn_config c)))) (\<lambda>frame.
     st_then (in_handshake (\<lambda>h. h\<lparr>hs_client_nonce := Some (hs_local_nonce h)\<rparr>))
     (st_then (in_transport (tr_queue frame))
     (st_then (in_handshake (set_frame frame))
     (st_bind (st_read (\<lambda>c. cfg_handshake_timeout (cn_config c))) (\<lambda>timeout.
      on_timers (schedule_handshake api timeout))))))"

definition crypto_result :: "crypto_error + 'x \<Rightarrow> 'x conn_op" where
  "crypto_result r = lift_core (map_err Crypto_CE r)"

text \<open>What a hello of the peer says about its limits.\<close>

definition learn_limits :: "bytes \<Rightarrow> u32 \<Rightarrow> u64 \<Rightarrow> handshake_state \<Rightarrow> handshake_state" where
  "learn_limits cookie max_streams initial_stream_window h =
     h\<lparr>hs_peer_cookie := cookie, hs_peer_max_streams := min (hs_peer_max_streams h) max_streams,
       hs_peer_initial_stream_window := initial_stream_window\<rparr>"

definition lower_datagram_size :: "u16 \<Rightarrow> connection_config \<Rightarrow> connection_config" where
  "lower_datagram_size n config =
     config\<lparr>cfg_max_datagram_size := min (cfg_max_datagram_size config) (unat n)\<rparr>"

definition receive_client_hello ::
  "primitives \<Rightarrow> packet_type \<Rightarrow> client_hello \<Rightarrow> (frame \<times> connection_state option \<times> u64 option) conn_op" where
  "receive_client_hello P ptype hello =
     st_bind (st_read cn_role) (\<lambda>role.
     if role \<noteq> Server \<or> ptype \<noteq> Initial_PT then core_fail InvalidPacketType_CE
     else
       st_bind (st_read (\<lambda>c. hs_peer_client_nonce (cn_handshake c))) (\<lambda>previous.
       if previous \<noteq> None \<and> previous \<noteq> Some (ch_client_nonce hello) then
         core_fail (InvalidState ''client nonce changed during handshake'')
       else
         st_then (in_handshake (\<lambda>h. learn_limits (ch_cookie hello) (ch_max_streams hello)
           (ch_initial_stream_window hello) (h\<lparr>hs_peer_client_nonce := Some (ch_client_nonce hello)\<rparr>)))
         (st_bind (st_read cn_state) (\<lambda>state.
          st_then (st_when (state \<noteq> Established) (in_config (lower_datagram_size (ch_max_datagram_size hello))))
         (st_bind (st_read cn_handshake) (\<lambda>h.
          let transcript_hash = handshake_transcript_hash P (hs_connection_id h) (ch_client_nonce hello)
                (hs_local_nonce h) (ch_client_public_key hello) (kp_public_key (hs_key_pair h)) in
          st_bind (crypto_result (ephemeral_agree P (hs_key_pair h) (ch_client_public_key hello))) (\<lambda>shared_secret.
          st_bind (crypto_result (derive_session_keys P shared_secret transcript_hash)) (\<lambda>session_keys.
          st_bind (crypto_result (finished_tag P session_keys Server_CR transcript_hash)) (\<lambda>server_finished.
          st_then (in_handshake (\<lambda>h. h\<lparr>hs_transcript_hash := Some transcript_hash,
            hs_session_keys := Some session_keys\<rparr>))
          (st_bind (st_read cn_config) (\<lambda>config.
           st_return
            (ServerHello \<lparr>sh_server_nonce = hs_local_nonce h, sh_server_public_key = kp_public_key (hs_key_pair h),
               sh_server_finished = server_finished,
               sh_max_datagram_size = of_nat (cfg_max_datagram_size config),
               sh_max_streams = hs_effective_max_streams h config,
               sh_initial_connection_window = cfg_initial_connection_window config,
               sh_initial_stream_window = cfg_initial_stream_window config, sh_cookie = ch_cookie hello\<rparr>,
             if state = Idle then Some Handshaking else None,
             if state \<noteq> Established then Some (ch_initial_connection_window hello) else None))))))))))))"

definition receive_server_hello ::
  "primitives \<Rightarrow> packet_type \<Rightarrow> server_hello \<Rightarrow> (frame \<times> u64) conn_op" where
  "receive_server_hello P ptype hello =
     st_bind (st_read cn_role) (\<lambda>role.
     st_bind (st_read cn_state) (\<lambda>state.
     if role \<noteq> Client \<or> ptype \<noteq> Handshake_PT \<or> state \<noteq> Handshaking then core_fail InvalidPacketType_CE
     else
       st_then (in_handshake (learn_limits (sh_cookie hello) (sh_max_streams hello) (sh_initial_stream_window hello)))
       (st_then (in_config (lower_datagram_size (sh_max_datagram_size hello)))
       (st_bind (st_read cn_handshake) (\<lambda>h.
        st_bind (lift_core (ok_or (InvalidState ''receive server hello before client hello'') (hs_client_nonce h))) (\<lambda>client_nonce.
        let transcript_hash = handshake_transcript_hash P (hs_connection_id h) client_nonce
              (sh_server_nonce hello) (kp_public_key (hs_key_pair h)) (sh_server_public_key hello) in
        st_bind (crypto_result (ephemeral_agree P (hs_key_pair h) (sh_server_public_key hello))) (\<lambda>shared_secret.
        st_bind (crypto_result (derive_session_keys P shared_secret transcript_hash)) (\<lambda>session_keys.
        st_bind (crypto_result (verify_finished P session_keys Server_CR transcript_hash (sh_server_finished hello))) (\<lambda>_.
        st_bind (crypto_result (finished_tag P session_keys Client_CR transcript_hash)) (\<lambda>client_finished.
        st_then (in_handshake (\<lambda>h. h\<lparr>hs_transcript_hash := Some transcript_hash,
          hs_session_keys := Some session_keys\<rparr>))
        (st_return (HandshakeAck \<lparr>ha_cookie = sh_cookie hello, ha_client_finished = client_finished\<rparr>,
           sh_initial_connection_window hello))))))))))))"

definition receive_retry :: "packet_type \<Rightarrow> retry \<Rightarrow> frame conn_op" where
  "receive_retry ptype retry =
     st_bind (st_read cn_role) (\<lambda>role.
     st_bind (st_read cn_state) (\<lambda>state.
     if role \<noteq> Client \<or> ptype \<noteq> Retry_PT \<or> state \<noteq> Handshaking \<or> retry_cookie retry = []
       \<or> length (retry_cookie retry) > MAX_COOKIE_LEN then core_fail InvalidPacketType_CE
     else
       st_bind (st_read (\<lambda>c. hs_client_nonce (cn_handshake c))) (\<lambda>client_nonce.
       if client_nonce = None then core_fail (InvalidState ''receive retry before client hello'')
       else
         st_then (in_config (\<lambda>config. config\<lparr>cfg_handshake_cookie := retry_cookie retry\<rparr>))
         (st_bind (st_read (\<lambda>c. ClientHello (client_hello_of (cn_handshake c) (cn_config c)))) (\<lambda>frame.
          st_then (in_handshake (set_frame frame)) (st_return frame))))))"

definition receive_handshake_ack :: "primitives \<Rightarrow> packet_type \<Rightarrow> handshake_ack \<Rightarrow> connection_state conn_op" where
  "receive_handshake_ack P ptype ack =
     st_bind (st_read cn_role) (\<lambda>role.
     st_bind (st_read cn_state) (\<lambda>state.
     st_bind (st_read cn_handshake) (\<lambda>h.
     if role \<noteq> Server \<or> ptype \<noteq> Handshake_PT \<or> state \<noteq> Handshaking \<or> ha_cookie ack \<noteq> hs_peer_cookie h
     then core_fail InvalidPacketType_CE
     else
       st_bind (lift_core (ok_or (InvalidState ''receive handshake acknowledgement before key exchange'')
         (hs_transcript_hash h))) (\<lambda>transcript_hash.
       st_bind (lift_core (ok_or (InvalidState ''receive handshake acknowledgement without session keys'')
         (hs_session_keys h))) (\<lambda>session_keys.
       st_bind (crypto_result (verify_finished P session_keys Client_CR transcript_hash (ha_client_finished ack))) (\<lambda>_.
       st_then (in_timers cancel_handshake) (st_return Established)))))))"

definition hs_on_timeout :: "slotmap_api \<Rightarrow> handshake_timeout conn_op" where
  "hs_on_timeout api =
     st_bind (st_read cn_state) (\<lambda>state.
     if state \<noteq> Handshaking then st_return Retry_HT
     else
       st_bind (st_read (\<lambda>c. hs_frame (cn_handshake c))) (\<lambda>stored.
       case stored of
         None \<Rightarrow> st_return Close_HT
       | Some frame \<Rightarrow>
         st_bind (st_read (\<lambda>c. hs_retries (cn_handshake c) \<ge> cfg_max_retransmissions (cn_config c))) (\<lambda>exhausted.
         if exhausted then st_return Close_HT
         else
           st_then (in_handshake (\<lambda>h. h\<lparr>hs_retries := saturating_add (hs_retries h) 1\<rparr>))
           (st_then (in_transport (tr_queue_front frame))
           (st_bind (st_read (\<lambda>c. cfg_handshake_timeout (cn_config c))) (\<lambda>timeout.
            st_then (on_timers (schedule_handshake api timeout)) (st_return Retry_HT)))))))"

end
