(* ===== verification/Connection.thy ===== *)
theory Connection
  imports Handshake
begin

text \<open>
  The connection, \<open>reliable-core/src/connection.rs\<close>: its constructors, the receive path from a datagram to
  the handlers of the frames, the clock, and the operations of the application. Every method is a
  computation on the record \<open>connection\<close>; all of them end by flushing what can be sent.
\<close>

section \<open>Helpers\<close>

definition set_state :: "connection_state \<Rightarrow> unit conn_op" where
  "set_state state =
     st_bind (st_read cn_state) (\<lambda>old.
     st_when (old \<noteq> state)
       (st_then (st_modify (\<lambda>c. c\<lparr>cn_state := state\<rparr>)) (push_output (ConnectionStateChanged state))))"

definition crypto_role_of :: "connection_role \<Rightarrow> crypto_role" where
  "crypto_role_of role = (case role of Client \<Rightarrow> Client_CR | Server \<Rightarrow> Server_CR)"

definition activate_crypto :: "unit conn_op" where
  "activate_crypto =
     st_bind (st_read cn_packet_crypto) (\<lambda>crypto.
     if crypto \<noteq> None then st_return ()
     else
       st_bind (st_read (\<lambda>c. hs_session_keys (cn_handshake c))) (\<lambda>keys.
       st_bind (lift_core (ok_or (InvalidState ''establish connection without session keys'') keys)) (\<lambda>keys.
       st_modify (\<lambda>c. c\<lparr>cn_packet_crypto := Some (packet_crypto_new (crypto_role_of (cn_role c)) keys)\<rparr>))))"

definition effective_max_streams :: "connection \<Rightarrow> u32" where
  "effective_max_streams c = hs_effective_max_streams (cn_handshake c) (cn_config c)"

definition ensure_established :: "string \<Rightarrow> unit conn_op" where
  "ensure_established operation =
     st_bind (st_read cn_state) (\<lambda>state.
     if state = Established then st_return () else core_fail (InvalidState operation))"

definition max_stream_data_chunk :: "connection \<Rightarrow> usize" where
  "max_stream_data_chunk c = max (cfg_max_datagram_size (cn_config c) - 100) 1"

definition reset_idle_timer :: "slotmap_api \<Rightarrow> unit conn_op" where
  "reset_idle_timer api =
     st_bind (st_read (\<lambda>c. cfg_idle_timeout (cn_config c))) (\<lambda>timeout. on_timers (schedule_idle api timeout))"

definition schedule_handshake_timeout :: "slotmap_api \<Rightarrow> unit conn_op" where
  "schedule_handshake_timeout api =
     st_bind (st_read (\<lambda>c. cfg_handshake_timeout (cn_config c))) (\<lambda>timeout.
     on_timers (schedule_handshake api timeout))"

section \<open>Construction\<close>

definition connection_initial ::
  "primitives \<Rightarrow> bytes option \<Rightarrow> bytes option \<Rightarrow> connection_role \<Rightarrow> connection_id \<Rightarrow> connection_config \<Rightarrow> bool
    \<Rightarrow> core_error + connection" where
  "connection_initial P random_nonce random_key role cid config start_handshake =
     and_then (map_err InvalidConfig (config_validate config)) (\<lambda>_.
     and_then (handshake_new P random_nonce random_key cid config) (\<lambda>handshake.
     and_then (timer_state_new config) (\<lambda>timers.
     Inr \<lparr>cn_role = role, cn_id = cid, cn_config = config,
          cn_state = (if start_handshake then Handshaking else Idle), cn_now = 0,
          cn_streams = mgr_new (local_stream_parity role), cn_transport = transport_new config,
          cn_handshake = handshake, cn_packet_crypto = None, cn_timers = timers, cn_output = [],
          cn_connection_send = send_flow_control_new (cfg_initial_connection_window config),
          cn_connection_receive = receive_flow_control_new (cfg_initial_connection_window config),
          cn_close_error = None\<rparr>)))"

definition connection_start :: "slotmap_api \<Rightarrow> bool \<Rightarrow> unit conn_op" where
  "connection_start api start_handshake =
     st_then (reset_idle_timer api)
     (st_bind (st_read (\<lambda>c. cfg_keepalive_interval (cn_config c))) (\<lambda>keepalive.
      st_then (case keepalive of None \<Rightarrow> st_return () | Some interval \<Rightarrow> on_timers (schedule_keepalive api interval))
      (st_when start_handshake (st_then (start_client api) (flush api)))))"

definition connection_new ::
  "slotmap_api \<Rightarrow> primitives \<Rightarrow> bytes option \<Rightarrow> bytes option \<Rightarrow> connection_role \<Rightarrow> connection_id
    \<Rightarrow> connection_config \<Rightarrow> bool \<Rightarrow> stop + connection" where
  "connection_new api P random_nonce random_key role cid config start_handshake =
     and_then (map_err Stop (connection_initial P random_nonce random_key role cid config start_handshake)) (\<lambda>c.
     case connection_start api start_handshake c of
       (Inl e, _) \<Rightarrow> Inl e
     | (Inr _, c) \<Rightarrow> Inr c)"

definition new_client where
  "new_client api P random_nonce random_key cid config =
     connection_new api P random_nonce random_key Client cid config True"

definition new_server where
  "new_server api P random_nonce random_key cid config =
     connection_new api P random_nonce random_key Server cid config False"

section \<open>Closing\<close>

definition drain_output :: "core_output list conn_op" where
  "drain_output c = (Inr (cn_output c), c\<lparr>cn_output := []\<rparr>)"

definition close :: "slotmap_api \<Rightarrow> u32 \<Rightarrow> bytes \<Rightarrow> unit conn_op" where
  "close api error_code reason =
     st_bind (st_read cn_state) (\<lambda>state.
     if state = Closed then st_return ()
     else
       st_then (st_modify (\<lambda>c. c\<lparr>cn_close_error := Some error_code\<rparr>))
       (st_then (set_state Closing)
       (st_then (in_transport (tr_queue (ConnectionClose
          \<lparr>cc_error_code = error_code, cc_frame_type = 0, cc_reason = reason\<rparr>)))
       (st_bind (st_read (\<lambda>c. cfg_close_timeout (cn_config c))) (\<lambda>timeout.
        st_then (on_timers (schedule_close api timeout)) (flush api))))))"

text \<open>What \<open>on_datagram\<close> and \<open>process_timer\<close> do when a frame has been lost too often.\<close>

definition give_up :: "stop \<Rightarrow> unit conn_op" where
  "give_up e =
     st_when (e = Stop RetransmissionLimit)
       (st_then (st_modify (\<lambda>c. c\<lparr>cn_close_error := Some 3\<rparr>)) (set_state Closing))"

section \<open>Frames\<close>

definition process_client_hello :: "slotmap_api \<Rightarrow> primitives \<Rightarrow> packet_type \<Rightarrow> client_hello \<Rightarrow> unit conn_op" where
  "process_client_hello api P ptype hello =
     st_bind (receive_client_hello P ptype hello) (\<lambda>(frame, next_state, connection_max_offset).
     st_then (case connection_max_offset of
         None \<Rightarrow> st_return ()
       | Some max_offset \<Rightarrow>
           st_modify (\<lambda>c. c\<lparr>cn_connection_send := sfc_set_max_offset (cn_connection_send c) max_offset\<rparr>))
     (st_then (in_handshake (set_frame frame))
     (st_then (in_transport (tr_queue frame))
     (st_bind (st_read cn_role) (\<lambda>role.
      st_then (st_when (role = Server) activate_crypto)
      (case next_state of
         None \<Rightarrow> st_return ()
       | Some state \<Rightarrow> st_then (schedule_handshake_timeout api) (set_state state)))))))"

definition process_server_hello :: "primitives \<Rightarrow> packet_type \<Rightarrow> server_hello \<Rightarrow> unit conn_op" where
  "process_server_hello P ptype hello =
     st_bind (receive_server_hello P ptype hello) (\<lambda>(frame, connection_max_offset).
     st_then (st_modify (\<lambda>c. c\<lparr>cn_connection_send := sfc_set_max_offset (cn_connection_send c) connection_max_offset\<rparr>))
     (st_then (in_handshake (set_frame frame))
     (st_then (in_transport (tr_queue frame))
     (st_then (in_timers cancel_handshake)
     (st_then (set_state Established) activate_crypto)))))"

definition process_handshake_ack :: "primitives \<Rightarrow> packet_type \<Rightarrow> handshake_ack \<Rightarrow> unit conn_op" where
  "process_handshake_ack P ptype ack =
     st_bind (receive_handshake_ack P ptype ack) (\<lambda>next_state.
     st_then (set_state next_state) activate_crypto)"

definition process_retry :: "slotmap_api \<Rightarrow> packet_type \<Rightarrow> retry \<Rightarrow> unit conn_op" where
  "process_retry api ptype retry =
     st_bind (receive_retry ptype retry) (\<lambda>frame.
     st_then (in_transport (tr_queue_front frame)) (schedule_handshake_timeout api))"

text \<open>\<open>packet_type != Data || state != Established\<close>\<close>

definition require_data :: "packet_type \<Rightarrow> unit conn_op" where
  "require_data ptype =
     st_bind (st_read cn_state) (\<lambda>state.
     if ptype \<noteq> Data_PT \<or> state \<noteq> Established then core_fail InvalidPacketType_CE else st_return ())"

definition process_stream_open :: "packet_type \<Rightarrow> stream_open \<Rightarrow> unit conn_op" where
  "process_stream_open ptype open_frame =
     st_then (require_data ptype)
     (st_bind (st_read cn_role) (\<lambda>role.
      if so_stream_id open_frame mod 2 \<noteq> peer_stream_parity role then
        core_fail (InvalidStreamId (so_stream_id open_frame))
      else
        st_bind (st_read (\<lambda>c. mgr_send_window (cn_streams c) (so_stream_id open_frame))) (\<lambda>window.
        case window of
          Inr existing_window \<Rightarrow>
            if existing_window \<noteq> so_initial_receive_window open_frame then
              core_fail (InvalidState ''stream was opened with different parameters'')
            else st_return ()
        | Inl _ \<Rightarrow>
            st_bind (st_read (\<lambda>c. mgr_len (cn_streams c) \<ge> unat (effective_max_streams c))) (\<lambda>full.
            if full then core_fail StreamLimit
            else
              st_bind (st_read (\<lambda>c. cfg_initial_stream_window (cn_config c))) (\<lambda>window.
              st_then (on_streams (mgr_insert (so_stream_id open_frame) (so_bidirectional open_frame)
                (so_initial_receive_window open_frame) (peer_stream_parity role) window))
              (push_output (StreamOpened (so_stream_id open_frame))))))))"

definition process_stream_data :: "packet_type \<Rightarrow> stream_data \<Rightarrow> unit conn_op" where
  "process_stream_data ptype d =
     st_then (require_data ptype)
     (st_bind (\<lambda>c. lift_core (mgr_new_data_bytes (cn_streams c) d (cfg_max_receive_buffer (cn_config c))) c) (\<lambda>new_bytes.
      st_bind (st_read cn_connection_receive) (\<lambda>flow.
      st_bind (lift_core (ok_or (FlowControlViolation None)
        (checked_add (rfc_unique_received flow) (of_nat new_bytes)))) (\<lambda>connection_end.
      st_bind (lift_core (rfc_check flow None connection_end new_bytes)) (\<lambda>_.
      st_bind (on_streams (mgr_insert_data d)) (\<lambda>status.
      st_bind (lift_core (rfc_account flow None new_bytes)) (\<lambda>flow.
      st_then (st_modify (\<lambda>c. c\<lparr>cn_connection_receive := flow\<rparr>))
      (st_bind (st_read (\<lambda>c. st_buffered status > cfg_max_receive_buffer (cn_config c))) (\<lambda>full.
       if full then core_fail ReceiveBufferFull
       else
         st_then (st_when (st_readable status) (push_output (StreamReadable (sd_stream_id d))))
         (st_when (st_finished status \<and> \<not> st_readable status)
           (st_then (in_streams (mgr_finish (sd_stream_id d)))
             (push_output (StreamFinished (sd_stream_id d))))))))))))))"

definition process_reset_stream :: "packet_type \<Rightarrow> reset_stream \<Rightarrow> unit conn_op" where
  "process_reset_stream ptype reset =
     st_then (require_data ptype)
     (st_then (on_streams (mgr_reset (rs_stream_id reset) (rs_error_code reset)))
     (push_output (StreamReset (rs_stream_id reset) (rs_error_code reset))))"

definition process_max_stream_data :: "packet_type \<Rightarrow> max_stream_data \<Rightarrow> unit conn_op" where
  "process_max_stream_data ptype update =
     st_then (require_data ptype)
     (on_streams (mgr_update_send_window (msd_stream_id update) (msd_max_offset update)))"

definition process_max_data :: "packet_type \<Rightarrow> max_data \<Rightarrow> unit conn_op" where
  "process_max_data ptype update =
     st_then (require_data ptype)
     (st_modify (\<lambda>c. c\<lparr>cn_connection_send := sfc_update (cn_connection_send c) (md_max_offset update)\<rparr>))"

definition process_ping :: "packet_type \<Rightarrow> ping \<Rightarrow> unit conn_op" where
  "process_ping ptype ping =
     st_then (require_data ptype) (in_transport (tr_queue (Pong \<lparr>pong_nonce = ping_nonce ping\<rparr>)))"

definition process_connection_close :: "slotmap_api \<Rightarrow> packet_type \<Rightarrow> connection_close \<Rightarrow> unit conn_op" where
  "process_connection_close api ptype close_frame =
     (if ptype \<noteq> Close_PT then core_fail InvalidPacketType_CE
      else
        st_then (st_modify (\<lambda>c. c\<lparr>cn_close_error := Some (cc_error_code close_frame)\<rparr>))
        (st_then (in_timers (cancel_all api))
        (st_then (set_state Closed)
        (push_output (ConnectionClosed (cc_error_code close_frame))))))"

definition process_frame :: "slotmap_api \<Rightarrow> primitives \<Rightarrow> packet_type \<Rightarrow> frame \<Rightarrow> unit conn_op" where
  "process_frame api P ptype frame =
     (case frame of
        ClientHello hello \<Rightarrow> process_client_hello api P ptype hello
      | ServerHello hello \<Rightarrow> process_server_hello P ptype hello
      | HandshakeAck ack \<Rightarrow> process_handshake_ack P ptype ack
      | Retry retry \<Rightarrow> process_retry api ptype retry
      | StreamOpen open_frame \<Rightarrow> process_stream_open ptype open_frame
      | StreamData d \<Rightarrow> process_stream_data ptype d
      | ResetStream reset \<Rightarrow> process_reset_stream ptype reset
      | MaxStreamData update \<Rightarrow> process_max_stream_data ptype update
      | MaxData update \<Rightarrow> process_max_data ptype update
      | Ping ping \<Rightarrow> process_ping ptype ping
      | Pong _ \<Rightarrow> st_return ()
      | ConnectionClose close_frame \<Rightarrow> process_connection_close api ptype close_frame
      | Ack _ \<Rightarrow> st_return ())"

section \<open>Datagrams\<close>

definition receive_ack_frame :: "frame \<Rightarrow> unit conn_op" where
  "receive_ack_frame frame =
     (case frame of Ack ack \<Rightarrow> on_error (apply_ack ack) give_up | _ \<Rightarrow> st_return ())"

definition is_ack :: "frame \<Rightarrow> bool" where
  "is_ack frame = (case frame of Ack _ \<Rightarrow> True | _ \<Rightarrow> False)"

definition on_datagram :: "slotmap_api \<Rightarrow> primitives \<Rightarrow> packet \<Rightarrow> unit conn_op" where
  "on_datagram api P packet =
     st_bind (st_read cn_state) (\<lambda>state.
     st_bind (st_read cn_id) (\<lambda>cid.
     if state = Closed then core_fail (InvalidState ''receive on closed connection'')
     else if pkt_connection_id packet \<noteq> cid then core_fail ConnectionIdMismatch
     else
       st_then (reset_idle_timer api)
       (st_bind (if pkt_type packet = Retry_PT then st_return True
           else record_received (pkt_number packet)) (\<lambda>is_new.
        let acknowledge = st_when (list_ex is_ack_eliciting (pkt_frames packet)) (tr_schedule_ack api) in
        st_then (st_for (pkt_frames packet) receive_ack_frame)
        (if \<not> is_new then st_then acknowledge (flush api)
         else
           st_then (st_for (pkt_frames packet) (\<lambda>frame.
             st_when (\<not> is_ack frame) (process_frame api P (pkt_type packet) frame)))
           (st_then acknowledge (flush api)))))))"

text \<open>\<open>Packet::decode_with_crypto\<close> on the session of the connection.\<close>

definition decode_with_crypto :: "primitives \<Rightarrow> bytes \<Rightarrow> packet conn_op" where
  "decode_with_crypto P bs c =
     (case cn_packet_crypto c of
        None \<Rightarrow> (Inl (Stop (InvalidState ''receive encrypted packet before handshake completion'')), c)
      | Some crypto \<Rightarrow>
          (case decode_encrypted_packet P bs (cfg_max_datagram_size (cn_config c)) crypto of
             (r, crypto) \<Rightarrow> (map_err (\<lambda>e. Stop (Protocol e)) r, c\<lparr>cn_packet_crypto := Some crypto\<rparr>)))"

definition on_datagram_bytes :: "slotmap_api \<Rightarrow> primitives \<Rightarrow> bytes \<Rightarrow> unit conn_op" where
  "on_datagram_bytes api P bs =
     st_bind (st_read (\<lambda>c. cfg_max_datagram_size (cn_config c))) (\<lambda>limit.
     st_bind (lift_core (map_err Protocol (peek_packet_flags bs limit))) (\<lambda>flags.
     st_bind (if flags_contains flags ENCRYPTED then decode_with_crypto P bs
         else lift_core (map_err Protocol (decode_packet bs limit))) (\<lambda>packet.
     on_datagram api P packet)))"

definition connection_encode_packet :: "primitives \<Rightarrow> connection \<Rightarrow> packet \<Rightarrow> core_error + bytes" where
  "connection_encode_packet P c packet =
     (case cn_packet_crypto c of
        Some crypto \<Rightarrow>
          if cn_state c \<in> {Established, Closing} \<and> pkt_type packet \<in> {Data_PT, Close_PT} then
            map_err Protocol (encode_packet_with_crypto P packet (cfg_max_datagram_size (cn_config c)) crypto)
          else map_err Protocol (encode_packet packet (cfg_max_datagram_size (cn_config c)))
      | None \<Rightarrow> map_err Protocol (encode_packet packet (cfg_max_datagram_size (cn_config c))))"

section \<open>Time\<close>

definition process_timer :: "slotmap_api \<Rightarrow> timer_event \<Rightarrow> unit conn_op" where
  "process_timer api event =
     (case event of
        HandshakeTimeout \<Rightarrow>
          st_bind (st_read cn_state) (\<lambda>state.
          st_when (state = Handshaking)
            (st_bind (hs_on_timeout api) (\<lambda>timeout.
             st_when (timeout = Close_HT) (close api 1 (ascii ''handshake timeout'')))))
      | Retransmit pn generation \<Rightarrow> on_error (process_retransmit pn generation) give_up
      | AckDelay \<Rightarrow> in_transport on_ack_timer
      | Keepalive \<Rightarrow>
          st_bind (st_read cn_state) (\<lambda>state.
          st_then (st_when (state = Established) (in_transport queue_keepalive))
          (st_bind (st_read (\<lambda>c. cfg_keepalive_interval (cn_config c))) (\<lambda>keepalive.
           case keepalive of None \<Rightarrow> st_return () | Some interval \<Rightarrow> on_timers (schedule_keepalive api interval))))
      | IdleTimeout \<Rightarrow>
          st_bind (st_read cn_state) (\<lambda>state.
          st_when (state \<notin> {Closed, Closing}) (close api 2 (ascii ''idle timeout'')))
      | CloseTimeout \<Rightarrow>
          st_then (in_timers (cancel_all api))
          (st_then (set_state Closed)
          (st_bind (st_read cn_close_error) (\<lambda>close_error.
           push_output (ConnectionClosed (case close_error of None \<Rightarrow> 0 | Some code \<Rightarrow> code))))))"

definition advance_time :: "slotmap_api \<Rightarrow> duration \<Rightarrow> unit conn_op" where
  "advance_time api elapsed =
     st_bind (\<lambda>c. lift_core (ok_or (InvalidState ''advance clock'') (dur_add (cn_now c) elapsed)) c) (\<lambda>now.
     st_then (st_modify (\<lambda>c. c\<lparr>cn_now := now\<rparr>))
     (st_bind (on_timers (tm_advance api elapsed)) (\<lambda>expired.
      st_then (st_for expired (\<lambda>event. st_then (in_timers (clear_timer_slot event)) (process_timer api event)))
      (flush api))))"

section \<open>Streams\<close>

definition open_stream :: "slotmap_api \<Rightarrow> stream_id conn_op" where
  "open_stream api =
     st_then (ensure_established ''open stream'')
     (st_bind (st_read (\<lambda>c. mgr_len (cn_streams c) \<ge> unat (effective_max_streams c))) (\<lambda>full.
      if full then core_fail StreamLimit
      else
        st_bind (st_read (\<lambda>c. hs_peer_initial_stream_window (cn_handshake c))) (\<lambda>peer_window.
        st_bind (\<lambda>c. on_streams (mgr_open_local (cn_role c) peer_window (cfg_initial_stream_window (cn_config c))) c) (\<lambda>sid.
        st_then (in_transport (tr_queue (StreamOpen
          \<lparr>so_stream_id = sid, so_initial_receive_window = peer_window, so_bidirectional = True\<rparr>)))
        (st_then (flush api) (st_return sid))))))"

definition write_stream :: "slotmap_api \<Rightarrow> stream_id \<Rightarrow> bytes \<Rightarrow> bool \<Rightarrow> usize conn_op" where
  "write_stream api sid data fin =
     st_then (ensure_established ''write stream'')
     (st_bind (\<lambda>c. on_streams (mgr_write sid data fin (cfg_max_send_buffer (cn_config c)) (max_stream_data_chunk c)) c) (\<lambda>written.
      st_then (flush api) (st_return written)))"

definition read_stream :: "slotmap_api \<Rightarrow> stream_id \<Rightarrow> usize \<Rightarrow> read_result conn_op" where
  "read_stream api sid max_len =
     st_bind (on_streams (mgr_read sid max_len)) (\<lambda>rd.
     st_then (case rd_window_update rd of
         None \<Rightarrow> st_return ()
       | Some max_offset \<Rightarrow>
           in_transport (tr_queue (MaxStreamData \<lparr>msd_stream_id = sid, msd_max_offset = max_offset\<rparr>)))
     (st_then (st_when (rd_data rd \<noteq> []) (st_modify (\<lambda>c.
        c\<lparr>cn_connection_receive := snd (rfc_consume (cn_connection_receive c) (length (rd_data rd)))\<rparr>)))
     (st_then (st_when (rd_eof rd) (push_output (StreamFinished sid)))
     (st_then (flush api)
     (st_return \<lparr>rr_data = rd_data rd, rr_eof = rd_eof rd\<rparr>)))))"

end
