(* ===== verification/Conn_Steps.thy ===== *)
theory Conn_Steps
  imports Connection
begin

text \<open>
  How a connection can change. \<open>steps R m\<close> says that the computation \<open>m\<close> moves the state along \<open>R\<close> on every
  path, errors included; for a reflexive and transitive \<open>R\<close> it composes along the program text. The
  locales below list the elementary changes of the timers, of the streams and of a connection: a relation
  that contains them contains every operation of the API. The invariants and orders of the next theories
  are interpretations of these locales.
\<close>

section \<open>Relations along the program text\<close>

definition steps :: "('s \<Rightarrow> 's \<Rightarrow> bool) \<Rightarrow> ('s, 'e, 'a) st \<Rightarrow> bool" where
  "steps R m \<longleftrightarrow> (\<forall>s. R s (snd (m s)))"

named_theorems steps_intros \<open>composition of steps\<close>

lemma stepsI: "(\<And>s. R s (snd (m s))) \<Longrightarrow> steps R m"
  by (simp add: steps_def)

lemma stepsD: "steps R m \<Longrightarrow> m s = (r, s') \<Longrightarrow> R s s'"
  unfolding steps_def by (metis snd_conv)

lemma steps_modify: "(\<And>s. R s (f s)) \<Longrightarrow> steps R (st_modify f)"
  by (simp add: steps_def)

lemma steps_if [steps_intros]:
  "(c \<Longrightarrow> steps R m) \<Longrightarrow> (\<not> c \<Longrightarrow> steps R k) \<Longrightarrow> steps R (if c then m else k)"
  by simp

lemma steps_option [steps_intros]:
  "steps R m \<Longrightarrow> (\<And>x. steps R (f x)) \<Longrightarrow> steps R (case y of None \<Rightarrow> m | Some x \<Rightarrow> f x)"
  by (cases y) simp_all

lemma steps_sum [steps_intros]:
  "(\<And>x. steps R (f x)) \<Longrightarrow> (\<And>x. steps R (g x)) \<Longrightarrow> steps R (case y of Inl x \<Rightarrow> f x | Inr x \<Rightarrow> g x)"
  by (cases y) simp_all

lemma steps_prod [steps_intros]:
  "(\<And>x y. steps R (f x y)) \<Longrightarrow> steps R (case p of (x, y) \<Rightarrow> f x y)"
  by (cases p) simp

lemma steps_field:
  assumes "steps Q m" "\<And>s t. Q (sel s) t \<Longrightarrow> R s (upd t s)"
  shows "steps R (st_field sel upd conv m)"
  using assms by (simp add: steps_def st_field_def case_prod_beta)

locale step_relation =
  fixes R :: "'s \<Rightarrow> 's \<Rightarrow> bool"
  assumes refl: "R s s"
    and trans: "R s t \<Longrightarrow> R t u \<Longrightarrow> R s u"
begin

lemma steps_basic [steps_intros]:
  "steps R (st_return x)" "steps R (st_fail e)" "steps R (st_lift r)" "steps R (st_read f)"
  by (simp_all add: steps_def refl)

lemma steps_bind [steps_intros]:
  assumes "steps R m" "\<And>x. steps R (f x)"
  shows "steps R (st_bind m f)"
proof (rule stepsI)
  fix s
  obtain r s' where m: "m s = (r, s')"
    by fastforce
  with assms(1) have "R s s'"
    by (rule stepsD)
  then show "R s (snd (st_bind m f s))"
    using assms(2) m by (cases r) (auto simp: st_bind_def steps_def intro: trans)
qed

lemma steps_read_bind:
  assumes "\<And>s. R s (snd (f (g s) s))"
  shows "steps R (st_bind (st_read g) f)"
  using assms by (simp add: steps_def)

lemma steps_then [steps_intros]: "steps R m \<Longrightarrow> steps R k \<Longrightarrow> steps R (st_then m k)"
  by (simp add: st_then_def steps_bind)

lemma steps_when [steps_intros]: "(c \<Longrightarrow> steps R m) \<Longrightarrow> steps R (st_when c m)"
  by (cases c) (simp_all add: steps_basic)

lemma steps_for_in: "(\<And>x. x \<in> set xs \<Longrightarrow> steps R (f x)) \<Longrightarrow> steps R (st_for xs f)"
  by (induction xs) (simp_all add: steps_then steps_basic)

lemma steps_for [steps_intros]: "(\<And>x. steps R (f x)) \<Longrightarrow> steps R (st_for xs f)"
  by (simp add: steps_for_in)

end

section \<open>Timers\<close>

locale timer_relation = step_relation T for T :: "timer_state \<Rightarrow> timer_state \<Rightarrow> bool" +
  fixes api :: slotmap_api
  assumes insert: "T t (t\<lparr>ts_wheel := snd (wheel_insert api event delay (ts_wheel t))\<rparr>)"
    and cancel: "T t (t\<lparr>ts_wheel := snd (wheel_cancel k (ts_wheel t))\<rparr>)"
    and clear: "T t (t\<lparr>ts_wheel := snd (wheel_clear api [] (ts_wheel t))\<rparr>)"
    and advance: "wheel_advance_by api elapsed [] (ts_wheel t) = Some (r, w) \<Longrightarrow> T t (t\<lparr>ts_wheel := w\<rparr>)"
    and slots: "ts_wheel t' = ts_wheel t \<Longrightarrow> T t t'"
begin

lemma schedule: "steps T (tm_schedule api event delay)"
  using insert by (simp add: steps_def tm_schedule_def st_field_def case_prod_beta)

lemma set_slots: "(\<And>t. ts_wheel (f t) = ts_wheel t) \<Longrightarrow> steps T (st_modify f)"
  by (rule steps_modify) (simp add: slots)

lemma cancel_slot_ok: "T t (t\<lparr>ts_wheel := cancel_slot (ts_wheel t) s\<rparr>)"
  using cancel by (cases s) (simp_all add: cancel_slot_def slots)

lemma steps_schedules:
  "steps T (schedule_handshake api delay)" "steps T (schedule_ack api delay)"
  "steps T (schedule_keepalive api delay)" "steps T (schedule_close api delay)"
  unfolding schedule_handshake_def schedule_ack_def schedule_keepalive_def schedule_close_def
  by (intro steps_intros schedule set_slots; simp)+

lemma cancel_and_set: "ts_wheel t' = cancel_slot (ts_wheel t) s \<Longrightarrow> T t t'"
  by (rule trans [OF cancel_slot_ok slots]) simp

lemma steps_idle: "steps T (schedule_idle api delay)"
proof -
  have idle: "steps T (st_modify (\<lambda>t. t\<lparr>ts_wheel := cancel_slot (ts_wheel t) (ts_idle t), ts_idle := None\<rparr>))"
    by (rule steps_modify, rule cancel_and_set) simp
  show ?thesis
    unfolding schedule_idle_def
    by (rule steps_then [OF idle], intro steps_intros schedule set_slots) simp
qed

lemma cancels: "T t (cancel_ack t)" "T t (cancel_handshake t)" "T t (tm_cancel k t)" "T t (clear_timer_slot event t)"
  unfolding cancel_ack_def cancel_handshake_def tm_cancel_def
  by (rule cancel_and_set cancel slots; simp add: clear_timer_slot_def split: timer_event.split)+

lemma cancel_all_ok: "T t (cancel_all api t)"
proof -
  have more: "T t (s\<lparr>ts_wheel := cancel_slot (ts_wheel s) x\<rparr>)" if "T t s" for s x
    using that cancel_slot_ok by (rule trans)
  let ?t = "t\<lparr>ts_wheel := cancel_slot (cancel_slot (cancel_slot (cancel_slot (cancel_slot (ts_wheel t)
      (ts_handshake t)) (ts_ack t)) (ts_keepalive t)) (ts_idle t)) (ts_close t)\<rparr>"
  have "T t ?t"
    using more [OF more [OF more [OF more [OF cancel_slot_ok]]]] by simp
  from trans [OF this clear] show ?thesis
    by (rule trans) (simp add: cancel_all_def Let_def slots)
qed

lemma steps_advance: "steps T (tm_advance api elapsed)"
proof (rule stepsI)
  fix t
  show "T t (snd (tm_advance api elapsed t))"
    using advance [of elapsed t]
    by (auto simp: tm_advance_def refl split: option.splits prod.splits sum.splits)
qed

end

section \<open>Streams\<close>

locale manager_relation = step_relation M for M :: "stream_manager \<Rightarrow> stream_manager \<Rightarrow> bool" +
  fixes Q :: "stream_record \<Rightarrow> stream_record \<Rightarrow> bool"
  assumes new: "bt_get (mg_streams m) sid = None \<Longrightarrow>
      M m (m\<lparr>mg_streams := bt_insert sid (stream_record_new sid bi sw rw) (mg_streams m)\<rparr>)"
    and number: "M m (m\<lparr>mg_next_stream_number := n\<rparr>)"
    and update: "bt_get (mg_streams m) sid = Some s \<Longrightarrow> Q s s' \<Longrightarrow> M m (m\<lparr>mg_streams := bt_insert sid s' (mg_streams m)\<rparr>)"
    and same: "Q s s"
    and state: "Q s (s\<lparr>sr_state := x\<rparr>)"
    and send: "Q s (s\<lparr>sr_send := snd'\<rparr>)"
    and read: "Q s (snd (record_read max_len s))"
    and receive: "Q s (s\<lparr>sr_recv := snd (rcv_insert (sr_recv s) offset data fin)\<rparr>)"
begin

lemma steps_on_stream:
  assumes "\<And>s. Q s (snd (f s))"
  shows "steps M (on_stream sid f)"
proof (rule stepsI)
  fix m
  show "M m (snd (on_stream sid f m))"
    using assms update by (cases "bt_get (mg_streams m) sid") (auto simp: on_stream_def refl case_prod_beta)
qed

lemma steps_insert: "steps M (mgr_insert sid bi sw parity rw)"
  using new by (auto simp: steps_def mgr_insert_def refl)

lemma steps_open: "steps M (mgr_open_local role sw rw)"
  unfolding mgr_open_local_def by (intro steps_intros steps_insert steps_modify number)

lemma steps_records:
  "steps M (mgr_write sid data fin max_buffer max_chunk)"
  "steps M (mgr_read sid max_len)"
  "steps M (mgr_insert_data d)"
  "steps M (mgr_reset sid code)"
  "steps M (mgr_update_send_window sid off)"
  "steps M (mgr_requeue d n)"
  unfolding mgr_write_def mgr_read_def mgr_insert_data_def mgr_reset_def mgr_update_send_window_def mgr_requeue_def
  by (rule steps_on_stream;
      auto simp: same state send read receive case_prod_beta split: stream_state.split sum.split)+

lemma finish: "M m (mgr_finish sid m)"
  using update state by (auto simp: mgr_finish_def refl split: option.split)

lemma take_sendable: "M m (snd (take_sendable_loop sids m))"
proof (induction sids m rule: take_sendable_loop.induct)
  case (2 sid sids m)
  show ?case
  proof (cases "bt_get (mg_streams m) sid")
    case (Some s)
    with 2 show ?thesis
      using update [OF Some send] by (auto simp: Let_def split: option.split prod.splits)
  qed (use 2 in simp)
qed (simp add: refl)

end

end
