(* ===== verification/Conn_Relation.thy ===== *)
theory Conn_Relation
  imports Conn_Steps
begin

text \<open>
  The elementary changes of a connection, as locales, and the lemmas that a relation with these changes
  contains the operations of \<open>transport.rs\<close>, \<open>handshake.rs\<close> and \<open>connection.rs\<close>. \<open>conn_core\<close> lists the changes
  of sending and of acknowledgements, \<open>conn_core_closing\<close> adds those of closing and contains the operations
  of the application, \<open>conn_frames\<close> contains the receive path for packets of one type; \<open>conn_base\<close>, \<open>conn_closing\<close>
  and \<open>conn_relation\<close> are the same with the changes of the handshake.
\<close>

section \<open>One packet\<close>

definition bump_number :: "connection \<Rightarrow> connection" where
  "bump_number c = c\<lparr>cn_transport := (cn_transport c)\<lparr>
     tr_next_packet_number := tr_next_packet_number (cn_transport c) + 1\<rparr>\<rparr>"

text \<open>The connection after a packet has been handed out, and after it has been recorded as well.\<close>

definition transmitted :: "packet_type \<Rightarrow> frame \<Rightarrow> connection \<Rightarrow> connection" where
  "transmitted ptype f c = (bump_number c)\<lparr>cn_output := cn_output c @ [Send (packet_for c ptype f)]\<rparr>"

definition recorded :: "packet_type \<Rightarrow> frame \<Rightarrow> sent_packet \<Rightarrow> connection \<Rightarrow> connection" where
  "recorded ptype f p c = (let c = transmitted ptype f c in c\<lparr>cn_transport := (cn_transport c)\<lparr>
     tr_congestion := cc_on_sent (tr_congestion (cn_transport c)) (sp_encoded_len p),
     tr_sent := bt_insert (sp_packet_number p) p (tr_sent (cn_transport c))\<rparr>\<rparr>)"

definition dropped :: "packet_number \<Rightarrow> congestion_controller \<Rightarrow> rtt_estimator \<Rightarrow> connection \<Rightarrow> connection" where
  "dropped pn cc rtt c = c\<lparr>cn_transport := (cn_transport c)\<lparr>
     tr_sent := bt_remove pn (tr_sent (cn_transport c)), tr_congestion := cc, tr_rtt := rtt\<rparr>\<rparr>"

text \<open>Two transport states that differ only in what is queued and in bookkeeping of acknowledgements.\<close>

definition same_flight :: "transport_state \<Rightarrow> transport_state \<Rightarrow> bool" where
  "same_flight t t' \<longleftrightarrow> tr_next_packet_number t' = tr_next_packet_number t \<and> tr_sent t' = tr_sent t
     \<and> tr_congestion t' = tr_congestion t \<and> tr_rtt t' = tr_rtt t"

lemma same_flight_simps [simp]:
  "same_flight t t"
  "same_flight t (t\<lparr>tr_pending_frames := q\<rparr>)"
  "same_flight t (t\<lparr>tr_received := r\<rparr>)"
  "same_flight t (t\<lparr>tr_ack_pending := a\<rparr>)"
  "same_flight t (t\<lparr>tr_ack_ready := b\<rparr>)"
  "same_flight t (t\<lparr>tr_ack_pending := a, tr_ack_ready := b\<rparr>)"
  "same_flight t (t\<lparr>tr_generation := g\<rparr>)"
  "same_flight t (tr_queue f t)"
  "same_flight t (tr_queue_front f t)"
  "same_flight t (on_ack_timer t)"
  "same_flight t (queue_keepalive t)"
  by (simp_all add: same_flight_def tr_queue_def tr_queue_front_def on_ack_timer_def queue_keepalive_def Let_def)

lemma packet_size_run:
  "\<exists>r. packet_size p c = (r, c) \<and> (\<forall>n. r = Inr n \<longrightarrow> n \<le> cfg_max_datagram_size (cn_config c))"
  by (auto simp: packet_size_def st_bind_def lift_core_def core_fail_def map_err_def
      split: sum.split option.split)

lemma st_then_snd: "snd (st_then m (st_return x) c) = snd (m c)"
  by (simp add: st_then_def st_bind_def split: prod.split sum.split)

lemma account_flow_run: "\<exists>fs. account_flow queued c = (Inr (), c\<lparr>cn_connection_send := fs\<rparr>)"
  by (auto simp: account_flow_def st_when_def split: option.split frame.split
      intro: exI [of _ "cn_connection_send c"])

lemma bump_run:
  "n = tr_next_packet_number (cn_transport c) \<Longrightarrow>
     st_then (in_transport (\<lambda>t. t\<lparr>tr_next_packet_number := n + 1\<rparr>)) k c = k (bump_number c)"
  by (simp add: in_transport_def bump_number_def)

lemma transmit_run:
  "st_then (push_output (Send (packet_for c ptype f))) k ((bump_number c)\<lparr>cn_connection_send := fs\<rparr>)
     = k ((transmitted ptype f c)\<lparr>cn_connection_send := fs\<rparr>)"
proof -
  have "(bump_number c)\<lparr>cn_connection_send := fs, cn_output := cn_output c @ [Send (packet_for c ptype f)]\<rparr>
      = (transmitted ptype f c)\<lparr>cn_connection_send := fs\<rparr>"
    by (rule connection.equality) (simp_all add: transmitted_def)
  then show ?thesis
    by (simp add: push_output_def bump_number_def)
qed

lemma st_then_run: "m c = (Inr x, d) \<Longrightarrow> st_then m k c = k d"
  by (simp add: st_then_def st_bind_def)

lemma number_back: "unat n + 1 < 2 ^ 64 \<Longrightarrow> saturating_sub (n + 1) (1 :: u64) = n"
  by (simp add: word_unat_eq_iff unat_saturating_sub unat_word_ariths)

lemma checked_add_one: "checked_add n (1 :: u64) = (if unat n + 1 < 2 ^ 64 then Some (n + 1) else None)"
  by (simp add: checked_add_def)

text \<open>A handshake state keeps its key pair, its nonce and its connection.\<close>

definition same_identity :: "handshake_state \<Rightarrow> handshake_state \<Rightarrow> bool" where
  "same_identity h h' \<longleftrightarrow> hs_key_pair h' = hs_key_pair h \<and> hs_local_nonce h' = hs_local_nonce h
     \<and> hs_connection_id h' = hs_connection_id h"

lemma same_identity_simps [simp]:
  "same_identity h h"
  "same_identity h (set_frame f h)"
  "same_identity h (learn_limits k n w h)"
  "same_identity h (learn_limits k n w (h\<lparr>hs_peer_client_nonce := m\<rparr>))"
  "same_identity h (h\<lparr>hs_client_nonce := m\<rparr>)"
  "same_identity h (h\<lparr>hs_retries := r\<rparr>)"
  "same_identity h (h\<lparr>hs_transcript_hash := t, hs_session_keys := ks\<rparr>)"
  by (simp_all add: same_identity_def set_frame_def learn_limits_def)

locale conn_core = step_relation R + tm: timer_relation T api + mg: manager_relation M Q
  for R :: "connection \<Rightarrow> connection \<Rightarrow> bool" and T api M Q +
  assumes timers: "T (cn_timers c) t \<Longrightarrow> R c (c\<lparr>cn_timers := t\<rparr>)"
    and streams: "M (cn_streams c) m \<Longrightarrow> R c (c\<lparr>cn_streams := m\<rparr>)"
    and quiet: "same_flight (cn_transport c) tr \<Longrightarrow> R c (c\<lparr>cn_transport := tr\<rparr>)"
    and frame_sent: "unat (tr_next_packet_number (cn_transport c)) + 1 < 2 ^ 64 \<Longrightarrow> R c (transmitted ptype f c)"
    and frame_recorded: "unat (tr_next_packet_number (cn_transport c)) + 1 < 2 ^ 64 \<Longrightarrow>
        cc_can_send (tr_congestion (cn_transport c)) (sp_encoded_len p) \<Longrightarrow>
        sp_encoded_len p \<le> cfg_max_datagram_size (cn_config c) \<Longrightarrow>
        sp_packet_number p = tr_next_packet_number (cn_transport c) \<Longrightarrow> sp_sent_at p = cn_now c \<Longrightarrow>
        R c (recorded ptype f p c)"
    and number_skipped: "unat (tr_next_packet_number (cn_transport c)) + 1 < 2 ^ 64 \<Longrightarrow> R c (bump_number c)"
    and acked: "bt_get (tr_sent (cn_transport c)) pn = Some p \<Longrightarrow>
        R c (dropped pn (cc_on_acked (tr_congestion (cn_transport c)) (sp_encoded_len p)) (tr_rtt (cn_transport c)) c)"
    and lost: "bt_get (tr_sent (cn_transport c)) pn = Some p \<Longrightarrow>
        e \<in> {tr_rtt (cn_transport c), rtt_on_timeout (tr_rtt (cn_transport c))} \<Longrightarrow>
        R c (dropped pn (cc_on_loss (tr_congestion (cn_transport c)) (sp_encoded_len p)) e c)"
    and measured: "Option.bind (rtt_on_ack (tr_rtt (cn_transport c)) sample delay) rtt_reset_backoff = Some e \<Longrightarrow>
        R c (c\<lparr>cn_transport := (cn_transport c)\<lparr>tr_rtt := e\<rparr>\<rparr>)"
    and clock: "cn_now c \<le> now \<Longrightarrow> R c (c\<lparr>cn_now := now\<rparr>)"
    and flow_out: "R c (c\<lparr>cn_connection_send := fs\<rparr>)"
    and flow_in: "R c (c\<lparr>cn_connection_receive := fr\<rparr>)"
    and close_error: "R c (c\<lparr>cn_close_error := ce\<rparr>)"
    and event: "\<nexists>p. x = Send p \<Longrightarrow> R c (c\<lparr>cn_output := cn_output c @ [x]\<rparr>)"
begin

text \<open>The names of the composition rules for connections.\<close>

lemmas conn_intros = steps_basic steps_bind steps_then steps_when steps_if steps_for steps_option steps_sum steps_prod

lemma steps_lifted:
  "steps R (lift_core x)" "steps R (core_fail e)" "steps R (crypto_result y)"
  by (simp_all add: lift_core_def core_fail_def crypto_result_def steps_basic)

lemma steps_on_timers: "steps T m \<Longrightarrow> steps R (on_timers m)"
  unfolding on_timers_def by (erule steps_field) (rule timers)

lemma steps_on_streams: "steps M m \<Longrightarrow> steps R (on_streams m)"
  unfolding on_streams_def by (erule steps_field) (rule streams)

lemma steps_in:
  "(\<And>t. T t (f t)) \<Longrightarrow> steps R (in_timers f)"
  "(\<And>m. M m (g m)) \<Longrightarrow> steps R (in_streams g)"
  "(\<And>t. same_flight t (h t)) \<Longrightarrow> steps R (in_transport h)"
  unfolding in_timers_def in_streams_def in_transport_def
  by (rule steps_modify, simp add: timers streams quiet)+

lemma steps_event: "\<nexists>p. x = Send p \<Longrightarrow> steps R (push_output x)"
  unfolding push_output_def by (rule steps_modify, rule event)

lemma steps_fields:
  "steps R (st_modify (\<lambda>c. c\<lparr>cn_connection_send := f1 c\<rparr>))"
  "steps R (st_modify (\<lambda>c. c\<lparr>cn_connection_receive := f2 c\<rparr>))"
  "steps R (st_modify (\<lambda>c. c\<lparr>cn_close_error := f3 c\<rparr>))"
  by (rule steps_modify, rule flow_out flow_in close_error)+

lemmas core_ops = steps_lifted steps_fields steps_in
  steps_on_timers [OF tm.steps_schedules(1)] steps_on_timers [OF tm.steps_schedules(2)]
  steps_on_timers [OF tm.steps_schedules(3)] steps_on_timers [OF tm.steps_schedules(4)]
  steps_on_timers [OF tm.steps_idle] steps_on_timers [OF tm.steps_advance]

section \<open>Transport\<close>

lemma steps_requeue_one: "steps R (requeue_one n q)"
  unfolding requeue_one_def
  by (auto split: frame.split intro!: steps_in(3) steps_on_streams mg.steps_records(6))

lemma steps_requeue_lost: "steps R (requeue_lost frames n)"
  unfolding requeue_lost_def Let_def by (intro conn_intros steps_lifted steps_requeue_one)

lemma steps_requeue_candidate: "steps R (requeue_candidate q)"
  unfolding requeue_candidate_def by (rule steps_requeue_one)

lemma steps_record_received: "steps R (record_received pn)"
  unfolding record_received_def by (rule stepsI) (simp add: quiet case_prod_beta)

lemma steps_schedule_ack: "steps R (tr_schedule_ack api)"
  unfolding tr_schedule_ack_def by (intro conn_intros core_ops) simp_all

lemma ack_packet_ok:
  assumes "bt_get (tr_sent (cn_transport c)) pn = Some p"
  shows "R c (ack_packet pn p c)"
proof -
  let ?c = "dropped pn (cc_on_acked (tr_congestion (cn_transport c)) (sp_encoded_len p)) (tr_rtt (cn_transport c)) c"
  have "R ?c (?c\<lparr>cn_timers := tm_cancel (sp_timer_id p) (cn_timers ?c)\<rparr>)"
    by (rule timers, rule tm.cancels)
  then show ?thesis
    using trans [OF acked [OF assms]] by (simp add: dropped_def ack_packet_def)
qed

lemma ack_loop_ok: "R c (snd (ack_loop pns sample c))"
proof (induction pns sample c rule: ack_loop.induct)
  case (2 pn pns sample c)
  then show ?case
    using trans [OF ack_packet_ok] by (cases "bt_get (tr_sent (cn_transport c)) pn") auto
qed (simp add: refl)

lemma steps_update_rtt: "steps R (update_rtt sample delay)"
  unfolding update_rtt_def by (rule stepsI) (auto simp: refl intro: measured split: option.split)

lemma steps_lose_packet: "steps R (lose_packet pn)"
proof (rule stepsI)
  fix c
  show "R c (snd (lose_packet pn c))"
  proof (cases "bt_get (tr_sent (cn_transport c)) pn")
    case (Some p)
    let ?c = "dropped pn (cc_on_loss (tr_congestion (cn_transport c)) (sp_encoded_len p)) (tr_rtt (cn_transport c)) c"
    let ?d = "?c\<lparr>cn_timers := tm_cancel (sp_timer_id p) (cn_timers ?c)\<rparr>"
    have "R ?c ?d"
      by (rule timers, rule tm.cancels)
    moreover have "R ?d (snd (requeue_lost (sp_frames p) (sp_retransmit_count p) ?d))"
      using steps_requeue_lost by (simp add: steps_def)
    ultimately have "R c (snd (requeue_lost (sp_frames p) (sp_retransmit_count p) ?d))"
      using lost [OF Some] by (blast intro: trans)
    with Some show ?thesis
      by (simp add: lose_packet_def dropped_def)
  qed (simp add: lose_packet_def refl)
qed

lemma steps_apply_ack: "steps R (apply_ack ack)"
proof -
  have "steps R (\<lambda>c. case ack_loop pns sample c of (sample, c) \<Rightarrow> (Inr sample, c))" for pns sample
    using ack_loop_ok by (auto simp: steps_def case_prod_beta)
  then show ?thesis
    unfolding apply_ack_def by (intro conn_intros steps_lifted steps_update_rtt steps_lose_packet)
qed

lemma steps_process_retransmit: "steps R (process_retransmit pn generation)"
proof (rule stepsI)
  fix c
  show "R c (snd (process_retransmit pn generation c))"
  proof (cases "bt_get (tr_sent (cn_transport c)) pn")
    case (Some p)
    let ?c = "dropped pn (cc_on_loss (tr_congestion (cn_transport c)) (sp_encoded_len p))
        (rtt_on_timeout (tr_rtt (cn_transport c))) c"
    have "R ?c (snd (requeue_lost (sp_frames p) (sp_retransmit_count p) ?c))"
      using steps_requeue_lost by (simp add: steps_def)
    then have "R c (snd (requeue_lost (sp_frames p) (sp_retransmit_count p) ?c))"
      using lost [OF Some] by (blast intro: trans)
    with Some show ?thesis
      by (simp add: process_retransmit_def dropped_def refl)
  qed (simp add: process_retransmit_def refl)
qed

lemma steps_take_data_candidate: "steps R take_data_candidate"
  unfolding take_data_candidate_def
  using streams [OF mg.take_sendable]
  by (intro stepsI) (auto simp: quiet mgr_take_sendable_def case_prod_beta split: list.split)

subsection \<open>Sending\<close>

lemma blocked_ok:
  assumes "unat (tr_next_packet_number (cn_transport c)) + 1 < 2 ^ 64" "flow_blocked queued c"
  shows "R c (snd (st_then (put_back queued)
     (st_then (in_transport (\<lambda>t. t\<lparr>tr_next_packet_number := saturating_sub (tr_next_packet_number t) 1\<rparr>))
     (st_return False)) (bump_number c)))"
proof -
  obtain q d where q: "queued = Some q" "qf_frame q = StreamData d"
    using assms(2) by (auto simp: flow_blocked_def split: option.splits frame.splits)
  obtain r m where run: "mgr_requeue d (qf_retransmit_count q) (cn_streams c) = (r, m)"
    by fastforce
  then have m: "M (cn_streams c) m"
    using mg.steps_records(6) by (blast dest: stepsD)
  have eq: "put_back queued (bump_number c) = (map_err Stop r, (bump_number c)\<lparr>cn_streams := m\<rparr>)"
    using run q
    by (simp add: put_back_def requeue_candidate_def requeue_one_def on_streams_def st_field_def bump_number_def)
  have "R c ((bump_number c)\<lparr>cn_streams := m\<rparr>)"
    using number_skipped [OF assms(1)] streams [of "bump_number c" m] m
    by (auto simp: bump_number_def intro: trans)
  then show ?thesis
    using eq assms(1) streams [OF m]
    by (cases r) (auto simp: st_then_def st_bind_def in_transport_def map_err_def bump_number_def number_back)
qed

lemma record_sent_ok:
  assumes "unat (tr_next_packet_number (cn_transport c)) + 1 < 2 ^ 64"
    and "cc_can_send (tr_congestion (cn_transport c)) n" "n \<le> cfg_max_datagram_size (cn_config c)"
  shows "R c (snd (record_sent api (tr_next_packet_number (cn_transport c)) n q
      ((transmitted ptype f c)\<lparr>cn_connection_send := fs\<rparr>)))"
proof -
  let ?n = "tr_next_packet_number (cn_transport c)"
  let ?c = "(transmitted ptype f c)\<lparr>cn_connection_send := fs\<rparr>"
  have c: "R c ?c"
    using frame_sent [OF assms(1)] flow_out by (rule trans)
  obtain r t where run: "tm_schedule api (Retransmit (tr_next_packet_number (cn_transport c))
      (tr_generation (cn_transport c) + 1)) (rto (tr_rtt (cn_transport c))) (cn_timers c) = (r, t)"
    by fastforce
  then have t: "T (cn_timers c) t"
    using tm.schedule by (blast dest: stepsD)
  define sp where "sp timer = \<lparr>sp_packet_number = tr_next_packet_number (cn_transport c), sp_sent_at = cn_now c,
      sp_encoded_len = n, sp_frames = [q], sp_retransmit_count = qf_retransmit_count q, sp_timer_id = timer,
      sp_generation = tr_generation (cn_transport c) + 1\<rparr>" for timer
  let ?gen = "\<lambda>d. (cn_transport d)\<lparr>tr_generation := tr_generation (cn_transport c) + 1\<rparr>"
  have more: "R c (d\<lparr>cn_connection_send := fs, cn_transport := ?gen d, cn_timers := t\<rparr>)"
    if "R c d" "cn_timers d = cn_timers c" for d
  proof -
    have "R c (d\<lparr>cn_connection_send := fs\<rparr>)"
      using that(1) flow_out by (rule trans)
    then have "R c (d\<lparr>cn_connection_send := fs, cn_transport := ?gen d\<rparr>)"
      by (rule trans) (rule quiet, simp)
    then show ?thesis
      by (rule trans) (rule timers, use t that(2) in simp)
  qed
  have fail: "R c (?c\<lparr>cn_transport := ?gen ?c, cn_timers := t\<rparr>)"
    using more [OF frame_sent [OF assms(1)], of ptype f] by (simp add: transmitted_def bump_number_def)
  have ok: "R c (recorded ptype f (sp timer) c)" for timer
    using frame_recorded [OF assms(1)] assms(2,3) by (simp add: sp_def)
  have fin: "R c (?c\<lparr>cn_transport := (?gen ?c)\<lparr>tr_congestion := cc_on_sent (tr_congestion (cn_transport c)) n,
      tr_sent := bt_insert ?n (sp timer) (tr_sent (cn_transport c))\<rparr>, cn_timers := t\<rparr>)" for timer
  proof -
    have "?c\<lparr>cn_transport := (?gen ?c)\<lparr>tr_congestion := cc_on_sent (tr_congestion (cn_transport c)) n,
        tr_sent := bt_insert ?n (sp timer) (tr_sent (cn_transport c))\<rparr>, cn_timers := t\<rparr>
      = (recorded ptype f (sp timer) c)\<lparr>cn_connection_send := fs,
          cn_transport := ?gen (recorded ptype f (sp timer) c), cn_timers := t\<rparr>"
      by (rule connection.equality)
        (auto simp: recorded_def transmitted_def bump_number_def Let_def sp_def intro: transport_state.equality)
    then show ?thesis
      using more [OF ok [of timer]] by (simp add: recorded_def transmitted_def bump_number_def Let_def)
  qed
  have reorder: "R c (d\<lparr>cn_timers := t, cn_transport := tr\<rparr>)" if "R c (d\<lparr>cn_transport := tr, cn_timers := t\<rparr>)" for d tr
  proof -
    have "d\<lparr>cn_timers := t, cn_transport := tr\<rparr> = d\<lparr>cn_transport := tr, cn_timers := t\<rparr>"
      by (rule connection.equality) simp_all
    then show ?thesis
      using that by (simp only:)
  qed
  show ?thesis
    using run c fail fin
    by (cases r) (auto simp: record_sent_def in_transport_def on_timers_def st_field_def st_bind_def
        transmitted_def bump_number_def sp_def intro!: reorder split: frame.split)
qed

lemma note_sent_ok:
  assumes "unat (tr_next_packet_number (cn_transport c)) + 1 < 2 ^ 64" "n \<le> cfg_max_datagram_size (cn_config c)"
    and "is_ack_eliciting f \<Longrightarrow> cc_can_send (tr_congestion (cn_transport c)) n"
  shows "R c (snd (note_sent api queued f (tr_next_packet_number (cn_transport c)) n
     ((transmitted ptype f c)\<lparr>cn_connection_send := fs\<rparr>)))"
proof (cases queued)
  case None
  have "steps R (note_sent api queued f (tr_next_packet_number (cn_transport c)) n)"
    unfolding None option.case note_sent_def by (intro conn_intros steps_in) (simp_all add: tm.cancels)
  then have "R d (snd (note_sent api queued f (tr_next_packet_number (cn_transport c)) n d))" for d
    by (simp add: steps_def)
  then show ?thesis
    using trans [OF frame_sent [OF assms(1)] flow_out] trans by blast
next
  case (Some q)
  then show ?thesis
    using assms(3) record_sent_ok [OF assms(1) _ assms(2)] trans [OF frame_sent [OF assms(1)] flow_out]
    by (auto simp: st_when_def note_sent_def)
qed

lemma steps_send_frame: "steps R (send_frame api queued ptype f)"
proof (rule stepsI)
  fix c
  let ?p = "packet_for c ptype f" and ?n = "tr_next_packet_number (cn_transport c)"
  obtain r where size: "packet_size ?p c = (r, c)" "\<And>n. r = Inr n \<Longrightarrow> n \<le> cfg_max_datagram_size (cn_config c)"
    using packet_size_run by blast
  have num: "pkt_number ?p = ?n"
    by (simp add: packet_for_def)
  have "steps R (st_then (put_back queued) (st_return False))"
    unfolding put_back_def by (intro conn_intros steps_requeue_candidate)
  then have requeue: "R c (snd (st_then (put_back queued) (st_return False) c))"
    by (simp add: steps_def)
  obtain fs where account: "account_flow queued (bump_number c) = (Inr (), (bump_number c)\<lparr>cn_connection_send := fs\<rparr>)"
    using account_flow_run by blast
  have after: "R c (snd (st_then (note_sent api queued f ?n n) (st_return True) ((transmitted ptype f c)\<lparr>cn_connection_send := fs\<rparr>)))"
    if "unat ?n + 1 < 2 ^ 64" "n \<le> cfg_max_datagram_size (cn_config c)"
      "is_ack_eliciting f \<Longrightarrow> cc_can_send (tr_congestion (cn_transport c)) n" for n
    using note_sent_ok [OF that] by (simp add: st_then_snd)
  show "R c (snd (send_frame api queued ptype f c))"
  proof (cases r)
    case (Inl e)
    with size show ?thesis
      by (simp add: send_frame_def st_bind_run refl)
  next
    case (Inr n)
    have flow: "flow_blocked queued (bump_number c) = flow_blocked queued c"
      by (simp add: flow_blocked_def bump_number_def split: option.split frame.split)
    show ?thesis
      using size Inr requeue blocked_ok [of c queued] after [of n]
      by (auto simp: send_frame_def st_bind_run num checked_add_one ok_or_def lift_core_def map_err_def
          refl bump_run flow st_then_run [where m = "account_flow queued", OF account] transmit_run)
  qed
qed

lemma steps_flush_step: "steps R (flush_step api)"
proof -
  have "steps R (\<lambda>c. lift_core (g c) c)" for g :: "connection \<Rightarrow> core_error + 'x"
    by (rule stepsI) (simp add: lift_core_def refl)
  then show ?thesis
    unfolding flush_step_def by (intro conn_intros steps_send_frame steps_take_data_candidate)
qed

lemma steps_flush: "steps R (flush api)"
proof -
  have "steps R (flush_loop api fuel)" for fuel
    by (induction fuel) (simp_all only: flush_loop.simps steps_bind steps_flush_step steps_if steps_basic)
  then show ?thesis
    by (simp add: steps_def flush_def del: flush_loop.simps)
qed

end

section \<open>The operations of a connection\<close>

text \<open>A relation that allows for closing the connection.\<close>

locale conn_core_closing = conn_core R T api M Q
  for R :: "connection \<Rightarrow> connection \<Rightarrow> bool" and T api M Q +
  assumes closing: "steps R (set_state Closing)"
    and closed: "steps R (set_state Closed)"
begin

lemma steps_reader: "(\<And>x. steps R (f x)) \<Longrightarrow> steps R (\<lambda>c. f (g c) c)"
  by (simp add: steps_def)

lemma steps_timeouts: "steps R (reset_idle_timer api)" "steps R (schedule_handshake_timeout api)"
  unfolding reset_idle_timer_def schedule_handshake_timeout_def by (intro conn_intros core_ops)+

lemma steps_on_error:
  assumes "steps R m" "\<And>e. steps R (h e)"
  shows "steps R (on_error m h)"
proof (rule stepsI)
  fix c
  obtain r d where m: "m c = (r, d)"
    by fastforce
  with assms(1) have "R c d"
    by (rule stepsD)
  with m show "R c (snd (on_error m h c))"
    using assms(2) by (cases r) (auto simp: on_error_def steps_def case_prod_beta intro: trans)
qed

lemma steps_give_up: "steps R (give_up e)"
  unfolding give_up_def by (intro conn_intros core_ops closing)

lemma steps_close: "steps R (close api code reason)"
  unfolding close_def by (intro conn_intros core_ops closing steps_flush) simp_all

lemma steps_require: "steps R (require_data ptype)" "steps R (ensure_established operation)"
  unfolding require_data_def ensure_established_def by (intro conn_intros core_ops)+

lemma steps_process_stream_open: "steps R (process_stream_open ptype open_frame)"
  unfolding process_stream_open_def
  by (intro conn_intros core_ops steps_require steps_on_streams mg.steps_insert steps_event) simp_all

lemma steps_process_stream_data: "steps R (process_stream_data ptype d)"
  unfolding process_stream_data_def
  by (intro conn_intros steps_lifted steps_reader [where f = lift_core] steps_fields steps_in(2) mg.finish
      steps_require steps_on_streams mg.steps_records steps_event) simp_all

lemma steps_process_other:
  "steps R (process_reset_stream ptype reset)" "steps R (process_max_stream_data ptype update)"
  "steps R (process_max_data ptype maximum)" "steps R (process_ping ptype ping)"
  unfolding process_reset_stream_def process_max_stream_data_def process_max_data_def process_ping_def
  by (intro conn_intros core_ops steps_require steps_on_streams mg.steps_records steps_event; simp)+

lemma steps_process_connection_close: "steps R (process_connection_close api ptype f)"
  unfolding process_connection_close_def
  by (intro conn_intros core_ops closed steps_event) (simp_all add: tm.cancel_all_ok)

lemma steps_receive_ack_frame: "steps R (receive_ack_frame f)"
  unfolding receive_ack_frame_def
  by (cases f) (simp_all add: steps_basic steps_on_error steps_apply_ack steps_give_up)

lemma steps_open_stream: "steps R (open_stream api)"
  unfolding open_stream_def
  by (intro conn_intros core_ops steps_require steps_flush
      steps_reader [where f = "\<lambda>(role, w, v). on_streams (mgr_open_local role w v)" and
        g = "\<lambda>c. (cn_role c, _, cfg_initial_stream_window (cn_config c))", unfolded case_prod_conv]
      steps_on_streams mg.steps_open) simp

lemma steps_write_stream: "steps R (write_stream api sid data fin)"
  unfolding write_stream_def
  by (intro conn_intros steps_require steps_flush stepsI
      stepsD [OF steps_on_streams [OF mg.steps_records(1)] prod.collapse [symmetric]])

lemma steps_read_stream: "steps R (read_stream api sid max_len)"
  unfolding read_stream_def
  by (intro conn_intros core_ops steps_on_streams mg.steps_records(2) steps_event steps_flush) simp_all

end

text \<open>The changes of the handshake.\<close>

locale conn_base = conn_core R T api M Q
  for R :: "connection \<Rightarrow> connection \<Rightarrow> bool" and T api M Q +
  assumes handshake: "same_identity (cn_handshake c) h \<Longrightarrow> R c (c\<lparr>cn_handshake := h\<rparr>)"
    and datagram_size: "R c (c\<lparr>cn_config := lower_datagram_size n (cn_config c)\<rparr>)"
    and cookie: "R c (c\<lparr>cn_config := (cn_config c)\<lparr>cfg_handshake_cookie := k\<rparr>\<rparr>)"
begin

lemma steps_in_handshake: "(\<And>x. same_identity x (k x)) \<Longrightarrow> steps R (in_handshake k)"
  unfolding in_handshake_def by (rule steps_modify, simp add: handshake)

lemma steps_config:
  "steps R (in_config (lower_datagram_size n))"
  "steps R (in_config (\<lambda>c. c\<lparr>cfg_handshake_cookie := k\<rparr>))"
  unfolding in_config_def by (rule steps_modify, rule datagram_size cookie)+

lemmas conn_ops = core_ops steps_in_handshake steps_config

end

locale conn_closing = conn_base R T api M Q + conn_core_closing R T api M Q
  for R :: "connection \<Rightarrow> connection \<Rightarrow> bool" and T api M Q
begin

lemma steps_process_retry: "steps R (process_retry api ptype retry)"
  unfolding process_retry_def receive_retry_def
  by (intro conn_intros conn_ops steps_timeouts) simp_all

lemma steps_process_timer: "steps R (process_timer api event)"
proof -
  have "steps R (hs_on_timeout api)"
    unfolding hs_on_timeout_def by (intro conn_intros conn_ops) simp_all
  then show ?thesis
    unfolding process_timer_def
    by (cases event; simp only: timer_event.case;
        intro conn_intros steps_in steps_on_timers tm.steps_schedules steps_close closed steps_on_error
          steps_process_retransmit steps_give_up steps_event; simp add: tm.cancel_all_ok)
qed

lemma steps_advance_time: "steps R (advance_time api elapsed)"
proof (rule stepsI)
  fix c
  let ?rest = "st_bind (on_timers (tm_advance api elapsed)) (\<lambda>expired.
      st_then (st_for expired (\<lambda>event. st_then (in_timers (clear_timer_slot event)) (process_timer api event)))
      (flush api))"
  have "steps R ?rest"
    by (intro conn_intros steps_on_timers tm.steps_advance steps_in(1) steps_process_timer steps_flush tm.cancels)
  then have "R (c\<lparr>cn_now := cn_now c + elapsed\<rparr>) (snd (?rest (c\<lparr>cn_now := cn_now c + elapsed\<rparr>)))"
    by (simp add: steps_def)
  then have "R c (snd (?rest (c\<lparr>cn_now := cn_now c + elapsed\<rparr>)))"
    by (rule trans [OF clock, rotated]) simp
  then show "R c (snd (advance_time api elapsed c))"
    by (auto simp: advance_time_def dur_add_def st_bind_run lift_core_def map_err_def ok_or_def refl st_bind_def)
qed

lemma steps_start: "steps R (connection_start api start_handshake)"
  unfolding connection_start_def start_client_def
  by (intro conn_intros conn_ops steps_timeouts steps_flush) simp_all

end

text \<open>The receive path for packets of one type whose frames are in a given set.\<close>

locale conn_frames = conn_core_closing R T api M Q
  for R :: "connection \<Rightarrow> connection \<Rightarrow> bool" and T api M Q +
  fixes P :: primitives and ptype :: packet_type and F :: "frame set"
  assumes frame_client_hello: "ClientHello hello \<in> F \<Longrightarrow> steps R (process_client_hello api P ptype hello)"
    and frame_server_hello: "ServerHello reply \<in> F \<Longrightarrow> steps R (process_server_hello P ptype reply)"
    and frame_handshake_ack: "HandshakeAck ack \<in> F \<Longrightarrow> steps R (process_handshake_ack P ptype ack)"
    and frame_retry: "Retry retry \<in> F \<Longrightarrow> steps R (process_retry api ptype retry)"
begin

lemma steps_frame: "f \<in> F \<Longrightarrow> steps R (process_frame api P ptype f)"
  by (cases f) (simp_all add: process_frame_def frame_client_hello frame_server_hello frame_handshake_ack frame_retry
      steps_process_stream_open steps_process_stream_data steps_process_other steps_process_connection_close steps_basic)

lemma steps_packet:
  assumes "pkt_type packet = ptype" "set (pkt_frames packet) \<subseteq> F"
  shows "steps R (on_datagram api P packet)"
  unfolding on_datagram_def Let_def assms(1)
  by (intro conn_intros steps_for_in steps_lifted steps_timeouts steps_record_received steps_receive_ack_frame
      steps_frame subsetD [OF assms(2)] steps_schedule_ack steps_flush)

end

text \<open>A relation that allows for the handshake as well.\<close>

locale conn_relation = conn_closing R T api M Q
  for R :: "connection \<Rightarrow> connection \<Rightarrow> bool" and T api M Q +
  fixes P :: primitives
  assumes client_hello: "steps R (process_client_hello api P ptype hello)"
    and server_hello: "steps R (process_server_hello P ptype reply)"
    and handshake_ack: "steps R (process_handshake_ack P ptype ack)"
    and decoding: "steps R (decode_with_crypto P bs)"

sublocale conn_relation \<subseteq> frames: conn_frames R T api M Q P ptype UNIV for ptype
  by unfold_locales (rule client_hello server_hello handshake_ack steps_process_retry)+

context conn_relation
begin

lemma steps_process_frame: "steps R (process_frame api P ptype f)"
  by (rule frames.steps_frame) simp

lemma steps_on_datagram: "steps R (on_datagram api P packet)"
  by (rule frames.steps_packet) simp_all

lemma steps_on_datagram_bytes: "steps R (on_datagram_bytes api P bs)"
  unfolding on_datagram_bytes_def by (intro conn_intros steps_lifted decoding steps_on_datagram)

end

text \<open>Most relations do not look at the connection state and at the packet protection at all.\<close>

locale conn_insensitive = conn_base R T api M Q
  for R :: "connection \<Rightarrow> connection \<Rightarrow> bool" and T api M Q +
  assumes any_state: "R c (c\<lparr>cn_state := s\<rparr>)"
    and any_crypto: "R c (c\<lparr>cn_packet_crypto := x\<rparr>)"
begin

lemma steps_set_state: "steps R (set_state s)"
  unfolding set_state_def by (intro conn_intros steps_modify any_state steps_event) simp

lemma steps_activate: "steps R activate_crypto"
  unfolding activate_crypto_def by (intro conn_intros steps_lifted steps_modify any_crypto)

lemma steps_client_hello: "steps R (process_client_hello api P ptype hello)"
  unfolding process_client_hello_def receive_client_hello_def schedule_handshake_timeout_def Let_def
  by (intro conn_intros conn_ops steps_activate steps_set_state) simp_all

lemma steps_server_hello: "steps R (process_server_hello P ptype reply)"
  unfolding process_server_hello_def receive_server_hello_def Let_def
  by (intro conn_intros conn_ops steps_activate steps_set_state) (simp_all add: tm.cancels)

lemma steps_handshake_ack: "steps R (process_handshake_ack P ptype ack)"
  unfolding process_handshake_ack_def receive_handshake_ack_def
  by (intro conn_intros conn_ops steps_activate steps_set_state) (simp_all add: tm.cancels)

lemma steps_decoding: "steps R (decode_with_crypto P bs)"
  unfolding decode_with_crypto_def
  by (rule stepsI) (auto simp: refl any_crypto split: option.split prod.split)

end

sublocale conn_insensitive \<subseteq> conn_relation R T api M Q P for P
  by unfold_locales
    (rule steps_set_state steps_client_hello steps_server_hello steps_handshake_ack steps_decoding)+

end
