(* ===== verification/Wheel_Issued.thy ===== *)
theory Wheel_Issued
  imports Conn_Steps
begin

text \<open>
  Which keys the timing wheel has taken from its slot map: only \<open>insert\<close> takes one, on every other path,
  errors included, the record of issued keys stays as it is. Hence the keys issued in the life of a
  connection bound those issued up to any earlier moment.
\<close>

definition same_issued :: "'a wheel \<Rightarrow> 'a wheel \<Rightarrow> bool" where
  "same_issued w w' \<longleftrightarrow> sm_issued (wh_tasks w') = sm_issued (wh_tasks w)"

interpretation issued: step_relation same_issued
  by unfold_locales (auto simp: same_issued_def)

lemma same_issued_simps [simp]:
  "same_issued w w"
  "same_issued w (w\<lparr>wh_tasks := sm_remove k (wh_tasks w)\<rparr>)"
  "same_issued w (set_slot l i s w)"
  "same_issued w (w\<lparr>wh_current_tick := t\<rparr>)"
  "same_issued w (w\<lparr>wh_remainder_nanos := r\<rparr>)"
  "same_issued w (w\<lparr>wh_levels := ls, wh_current_tick := t\<rparr>)"
  by (simp_all add: same_issued_def set_slot_def)

lemma issued_task_get: "steps same_issued (task_get e k)"
  by (simp add: steps_def task_get_def)

lemma issued_task_update: "steps same_issued (task_update e k f)"
  by (auto simp: steps_def task_update_def same_issued_def split: option.split)

lemma issued_link: "steps same_issued (wheel_link k l i)"
  unfolding wheel_link_def by (intro steps_intros steps_modify issued_task_update same_issued_simps)

lemma issued_unlink: "steps same_issued (wheel_unlink k)"
  unfolding wheel_unlink_def Let_def
  by (intro steps_intros steps_modify issued_task_get issued_task_update same_issued_simps)

lemma issued_set_index: "set_heap_index k i m = (r, m') \<Longrightarrow> sm_issued m' = sm_issued m"
  by (auto simp: set_heap_index_def split: option.splits)

lemma issued_swap: "swap_nodes set_heap_index l r ns m = (x, ns', m') \<Longrightarrow> sm_issued m' = sm_issued m"
  by (auto simp: swap_nodes_def Let_def dest!: issued_set_index split: prod.splits sum.splits)

lemma issued_sift_up: "sift_up set_heap_index i ns m = (x, ns', m') \<Longrightarrow> sm_issued m' = sm_issued m"
proof (induction "set_heap_index :: 'a wheel_entry slot_map set_index" i ns m arbitrary: x ns' m' rule: sift_up.induct)
  case (1 i ns m)
  show ?case
    using "1.prems" "1.hyps" [OF _ HOL.refl]
    by (subst (asm) sift_up.simps) (auto simp: Let_def dest: issued_swap split: if_splits prod.splits sum.splits)
qed

lemma issued_sift_down: "sift_down set_heap_index i ns m = (x, ns', m') \<Longrightarrow> sm_issued m' = sm_issued m"
proof (induction "set_heap_index :: 'a wheel_entry slot_map set_index" i ns m arbitrary: x ns' m' rule: sift_down.induct)
  case (1 i ns m)
  show ?case
    using "1.prems" "1.hyps" [OF HOL.refl _ HOL.refl HOL.refl]
    by (subst (asm) sift_down.simps) (auto simp: Let_def dest: issued_swap split: if_splits prod.splits sum.splits)
qed

lemma issued_heap:
  "heap_insert set_heap_index k d ns m = (x, ns', m') \<Longrightarrow> sm_issued m' = sm_issued m"
  "heap_remove set_heap_index k i ns m = (x, ns', m') \<Longrightarrow> sm_issued m' = sm_issued m"
  by (auto simp: heap_insert_def heap_remove_def sift_def Let_def
      dest!: issued_set_index issued_sift_up issued_sift_down split: if_splits prod.splits sum.splits)

lemma issued_deadlines:
  "steps same_issued (insert_deadline k d)" "steps same_issued (remove_deadline k i)"
  by (auto simp: steps_def insert_deadline_def remove_deadline_def with_heap_def same_issued_def
      dest: issued_heap split: prod.splits)

lemma issued_expire: "steps same_issued (expire_task k d)"
  unfolding expire_task_def
  by (intro steps_intros steps_modify issued_task_get issued_deadlines same_issued_simps)

lemma issued_cancel: "same_issued w (snd (wheel_cancel k w))"
  using stepsD [OF issued_unlink] stepsD [OF issued_deadlines(2)]
  by (fastforce simp: wheel_cancel_def same_issued_def split: option.splits prod.splits sum.splits)

lemma issued_loop: "process_loop fuel k ex w = Some (r, w') \<Longrightarrow> same_issued w w'"
proof (induction fuel k ex w rule: process_loop.induct)
  case (3 fuel key ex w)
  have detach: "same_issued w w1" if "detach_entry key w = (x, w1)" for x w1
    using stepsD [OF issued_task_update that [unfolded detach_entry_def]] .
  show ?case
    using "3.prems" "3.IH"
    by (fastforce dest: detach stepsD [OF issued_link] stepsD [OF issued_expire] intro: issued.trans
        simp: Let_def split: option.splits if_splits sum.splits prod.splits)
qed simp_all

lemma issued_slot: "process_slot l i ex w = Some (r, w') \<Longrightarrow> same_issued w w'"
  unfolding process_slot_def Let_def
  by (rule issued.trans [OF same_issued_simps(3) issued_loop])

lemma issued_cascade: "cascade_levels ls ex w = Some (r, w') \<Longrightarrow> same_issued w w'"
proof (induction ls ex w rule: cascade_levels.induct)
  case (2 l ls ex w)
  then show ?case
    by (fastforce dest: issued_slot intro: issued.trans simp: Let_def split: option.splits if_splits sum.splits prod.splits)
qed simp

lemma issued_tick: "process_tick ex w = Some (r, w') \<Longrightarrow> same_issued w w'"
  by (fastforce simp: process_tick_def cascade_at_current_tick_def process_l0_slot_def
      dest: issued_cascade issued_slot intro: issued.trans split: option.splits sum.splits prod.splits)

lemma issued_ticks: "step_ticks n ex w = Some (r, w') \<Longrightarrow> same_issued w w'"
proof (induction n ex w rule: step_ticks.induct)
  case (2 n ex w)
  then show ?case
    by (fastforce dest: issued_tick issued.trans [OF same_issued_simps(4)] intro: issued.trans
        split: option.splits sum.splits prod.splits)
qed simp

lemma issued_forward_loop: "fast_forward_loop ks t ex w = (r, w') \<Longrightarrow> same_issued w w'"
proof (induction ks t ex w rule: fast_forward_loop.induct)
  case (2 k ks t ex w)
  then show ?case
    by (fastforce dest: stepsD [OF issued_link] stepsD [OF issued_expire] intro: issued.trans
        simp: Let_def split: option.splits if_splits sum.splits prod.splits)
qed simp

lemma issued_forward: "fast_forward api t ex w = (r, w') \<Longrightarrow> same_issued w w'"
  unfolding fast_forward_def Let_def
  by (rule issued.trans [OF same_issued_simps(6) issued_forward_loop])

lemma issued_advance: "wheel_advance_by api elapsed out w = Some (r, w') \<Longrightarrow> same_issued w w'"
  by (auto simp: wheel_advance_by_def Let_def split: if_splits option.splits sum.splits prod.splits
      dest!: issued_forward issued_tick issued_ticks) (auto simp: same_issued_def)

lemma issued_insert:
  "sm_issued (wh_tasks (snd (wheel_insert api item delay w))) =
     (case deadline_after w delay of
        Inl _ \<Rightarrow> sm_issued (wh_tasks w)
      | Inr _ \<Rightarrow> sm_alloc api (sm_issued (wh_tasks w)) (bt_keys (sm_entries (wh_tasks w))) # sm_issued (wh_tasks w))"
proof (cases "deadline_after w delay")
  case (Inr d)
  let ?k = "sm_alloc api (sm_issued (wh_tasks w)) (bt_keys (sm_entries (wh_tasks w)))"
  obtain tasks where ins: "sm_insert api \<lparr>we_item = item, we_deadline_tick = d, we_level = 0, we_slot = 0,
      we_prev = None, we_next = None, we_heap_index = 0\<rparr> (wh_tasks w) = (?k, tasks)" "sm_issued tasks = ?k # sm_issued (wh_tasks w)"
    by (simp add: sm_insert_def Let_def)
  let ?w = "w\<lparr>wh_tasks := tasks\<rparr>"
  obtain l i where loc: "determine_location ?w d = (l, i)"
    by fastforce
  obtain r1 w1 where link: "wheel_link ?k l i ?w = (r1, w1)"
    by fastforce
  obtain r2 w2 where heap: "insert_deadline ?k d w1 = (r2, w2)"
    by fastforce
  have "same_issued ?w w1" "same_issued w1 w2" "same_issued w2 (snd (wheel_unlink ?k w2))"
    by (rule stepsD [OF issued_link link] stepsD [OF issued_deadlines(1) heap]
        stepsD [OF issued_unlink prod.collapse [symmetric]])+
  then show ?thesis
    using Inr ins loc link heap by (cases r1; cases r2) (simp_all add: wheel_insert_def same_issued_def Let_def)
qed (simp add: wheel_insert_def)

end
