(* ===== verification/Conn_Invariants.thy ===== *)
theory Conn_Invariants
  imports Conn_Relation Wheel_Issued
begin

text \<open>
  Relations between the states of a connection before and after an operation, as interpretations of the
  locales of \<open>Conn_Relation\<close>: the order of the packets handed out, the packets in flight and what congestion
  control believes of them, the streams, and the timing wheel.
\<close>

section \<open>Packet numbers\<close>

fun sent_numbers :: "core_output list \<Rightarrow> packet_number list" where
  "sent_numbers [] = []"
| "sent_numbers (Send p # xs) = pkt_number p # sent_numbers xs"
| "sent_numbers (_ # xs) = sent_numbers xs"

abbreviation next_number :: "connection \<Rightarrow> packet_number" where
  "next_number c \<equiv> tr_next_packet_number (cn_transport c)"

text \<open>Outputs are only appended; the packets among them carry ascending numbers, all of them from the
  numbers that the connection has moved past.\<close>

definition sends_in_order :: "connection \<Rightarrow> connection \<Rightarrow> bool" where
  "sends_in_order c c' \<longleftrightarrow> next_number c \<le> next_number c' \<and>
     (\<exists>new. cn_output c' = cn_output c @ new \<and> sorted_wrt (<) (sent_numbers new)
        \<and> (\<forall>n \<in> set (sent_numbers new). next_number c \<le> n \<and> n < next_number c'))"

lemma sent_numbers_append [simp]: "sent_numbers (xs @ ys) = sent_numbers xs @ sent_numbers ys"
  by (induction xs rule: sent_numbers.induct) simp_all

lemma no_send: "\<nexists>p. x = Send p \<Longrightarrow> sent_numbers [x] = []"
  by (cases x) simp_all

lemma sends_quiet:
  "next_number c' = next_number c \<Longrightarrow> cn_output c' = cn_output c @ new \<Longrightarrow> sent_numbers new = [] \<Longrightarrow> sends_in_order c c'"
  by (auto simp: sends_in_order_def)

lemma sends_trans:
  assumes "sends_in_order a b" "sends_in_order b c"
  shows "sends_in_order a c"
proof -
  obtain xs ys where "cn_output b = cn_output a @ xs" "cn_output c = cn_output b @ ys"
    and xs: "sorted_wrt (<) (sent_numbers xs)" "\<forall>n \<in> set (sent_numbers xs). next_number a \<le> n \<and> n < next_number b"
    and ys: "sorted_wrt (<) (sent_numbers ys)" "\<forall>n \<in> set (sent_numbers ys). next_number b \<le> n \<and> n < next_number c"
    and le: "next_number a \<le> next_number b" "next_number b \<le> next_number c"
    using assms by (auto simp: sends_in_order_def)
  moreover have "sorted_wrt (<) (sent_numbers (xs @ ys))"
    using xs ys by (fastforce simp: sorted_wrt_append)
  moreover have "\<forall>n \<in> set (sent_numbers (xs @ ys)). next_number a \<le> n \<and> n < next_number c"
    using xs(2) ys(2) le by (auto intro: order.trans less_le_trans)
  ultimately show ?thesis
    unfolding sends_in_order_def by (intro conjI exI [of _ "xs @ ys"]) simp_all
qed

lemma number_step: "unat (n :: u64) + 1 < 2 ^ 64 \<Longrightarrow> n < n + 1"
  by (simp add: word_less_nat_alt unat_word_ariths)

lemma sends_bump: "unat (next_number c) + 1 < 2 ^ 64 \<Longrightarrow> sends_in_order c (bump_number c)"
  using number_step by (auto simp: sends_in_order_def bump_number_def less_imp_le)

lemma sends_transmitted:
  assumes "unat (next_number c) + 1 < 2 ^ 64"
    and "next_number c' = next_number c + 1" "cn_output c' = cn_output c @ [Send (packet_for c ptype f)]"
  shows "sends_in_order c c'"
  using number_step [OF assms(1)] assms(2,3)
  by (auto simp: sends_in_order_def packet_for_def intro!: exI [of _ "[Send (packet_for c ptype f)]"])

interpretation sending: conn_insensitive sends_in_order "\<lambda>_ _. True" api "\<lambda>_ _. True" "\<lambda>_ _. True" for api
proof unfold_locales
  fix c ptype f and p :: sent_packet
  assume "unat (next_number c) + 1 < 2 ^ 64"
  then show "sends_in_order c (transmitted ptype f c)" "sends_in_order c (recorded ptype f p c)"
    by (rule sends_transmitted; simp add: transmitted_def recorded_def bump_number_def packet_for_def Let_def)+
next
  fix c x
  assume "\<nexists>p. x = Send p"
  then show "sends_in_order c (c\<lparr>cn_output := cn_output c @ [x]\<rparr>)"
    by (intro sends_quiet [where new = "[x]"] no_send) simp_all
next
  show "sends_in_order c tr \<Longrightarrow> sends_in_order tr d \<Longrightarrow> sends_in_order c d" for c tr d
    by (rule sends_trans)
qed (auto simp: dropped_def same_flight_def sends_bump intro: sends_quiet [where new = "[]"])

section \<open>Packets in flight\<close>

abbreviation flight_size :: "(packet_number, sent_packet) btree_map \<Rightarrow> nat" where
  "flight_size m \<equiv> sum_list (map (\<lambda>(_, p). sp_encoded_len p) m)"

text \<open>The record of the packets in flight is in order and below the next number; congestion control counts
  exactly their bytes; the congestion window and the retransmission timeout are within their bounds.\<close>

definition flight_inv :: "connection \<Rightarrow> bool" where
  "flight_inv c \<longleftrightarrow>
     bt_inv (tr_sent (cn_transport c))
     \<and> (\<forall>(pn, p) \<in> set (tr_sent (cn_transport c)). pn < next_number c \<and> sp_packet_number p = pn \<and> sp_sent_at p \<le> cn_now c)
     \<and> unat (bytes_in_flight (tr_congestion (cn_transport c))) = flight_size (tr_sent (cn_transport c))
     \<and> bytes_in_flight (tr_congestion (cn_transport c)) \<le> max_cwnd (tr_congestion (cn_transport c))
     \<and> max_cwnd (tr_congestion (cn_transport c)) \<noteq> - 1
     \<and> cc_inv (tr_congestion (cn_transport c)) \<and> rtt_inv (tr_rtt (cn_transport c))
     \<and> cfg_max_datagram_size (cn_config c) \<le> 65535"

definition keeps_flight :: "connection \<Rightarrow> connection \<Rightarrow> bool" where
  "keeps_flight c c' \<longleftrightarrow> (flight_inv c \<longrightarrow> flight_inv c')"

lemma flight_invD:
  "flight_inv c \<Longrightarrow> cc_inv (tr_congestion (cn_transport c))" "flight_inv c \<Longrightarrow> rtt_inv (tr_rtt (cn_transport c))"
  by (simp_all add: flight_inv_def)

lemma flight_insert:
  "bt_get m k = None \<Longrightarrow> flight_size (bt_insert k v m) = flight_size m + sp_encoded_len v"
  by (induction k v m rule: bt_insert.induct) (auto split: if_splits)

lemma flight_remove:
  "bt_inv m \<Longrightarrow> bt_get m k = Some v \<Longrightarrow> flight_size m = flight_size (bt_remove k m) + sp_encoded_len v"
proof (induction m)
  case (Cons x m)
  obtain k' v' where x: "x = (k', v')"
    by fastforce
  show ?case
  proof (cases "k = k'")
    case True
    then have "bt_remove k m = m"
      using Cons.prems x by (auto simp: bt_remove_def bt_keys_def intro!: filter_True)
    with True Cons.prems x show ?thesis
      by (simp add: bt_remove_def)
  next
    case False
    with Cons x show ?thesis
      by (auto simp: bt_remove_def)
  qed
qed simp

lemma cc_fields [simp]:
  "max_cwnd (cc_on_acked cc n) = max_cwnd cc" "max_cwnd (cc_on_loss cc n) = max_cwnd cc" "max_cwnd (cc_on_sent cc n) = max_cwnd cc"
  "min_cwnd (cc_on_acked cc n) = min_cwnd cc" "min_cwnd (cc_on_loss cc n) = min_cwnd cc" "min_cwnd (cc_on_sent cc n) = min_cwnd cc"
  "bytes_in_flight (cc_on_acked cc n) = saturating_sub (bytes_in_flight cc) (of_nat n)"
  "bytes_in_flight (cc_on_loss cc n) = saturating_sub (bytes_in_flight cc) (of_nat n)"
  "cwnd (cc_on_sent cc n) = cwnd cc"
  by (simp_all add: cc_on_acked_def cc_on_loss_def cc_on_sent_def Let_def)

lemma cc_inv_steps: "cc_inv cc \<Longrightarrow> cc_inv (cc_on_acked cc n)" "cc_inv cc \<Longrightarrow> cc_inv (cc_on_loss cc n)"
  "cc_inv cc \<Longrightarrow> cc_inv (cc_on_sent cc n)"
  using acked_cwnd [of cc n] loss_cwnd [of cc n] by (auto simp: cc_inv_def)

lemma rtt_inv_timeout: "rtt_inv e \<Longrightarrow> rtt_inv (rtt_on_timeout e)"
  by (auto simp: rtt_inv_def rtt_on_timeout_def dur_mul_def)

lemma rtt_inv_sample:
  assumes "rtt_inv e" "Option.bind (rtt_on_ack e sample delay) rtt_reset_backoff = Some e'"
  shows "rtt_inv e'"
proof -
  obtain e1 where ack: "rtt_on_ack e sample delay = Some e1" and reset: "rtt_reset_backoff e1 = Some e'"
    using assms(2) by (auto simp: bind_eq_Some_conv)
  obtain e0 where e0: "rtt_recalculate e0 = Some e1" "rtt_inv e0"
    using ack assms(1)
    by (cases "srtt e") (fastforce simp: rtt_on_ack_def Let_def rtt_inv_def bind_eq_Some_conv)+
  have "rtt_inv e1"
    using recalculate_inv [OF e0] .
  then show ?thesis
    using reset recalculate_inv by (auto simp: rtt_reset_backoff_def rtt_inv_def split: if_splits)
qed

lemma flight_dropped:
  assumes inv: "flight_inv c" and p: "bt_get (tr_sent (cn_transport c)) pn = Some p"
    and cc: "bytes_in_flight cc = saturating_sub (bytes_in_flight (tr_congestion (cn_transport c))) (of_nat (sp_encoded_len p))"
      "max_cwnd cc = max_cwnd (tr_congestion (cn_transport c))" "cc_inv cc" and rtt: "rtt_inv e"
  shows "flight_inv (dropped pn cc e c)"
proof -
  let ?m = "tr_sent (cn_transport c)" and ?b = "bytes_in_flight (tr_congestion (cn_transport c))"
  have bt: "bt_inv ?m"
    using inv by (simp add: flight_inv_def)
  have size: "unat ?b = flight_size (bt_remove pn ?m) + sp_encoded_len p"
    using flight_remove [OF bt p] inv by (simp add: flight_inv_def)
  then have "sp_encoded_len p < 2 ^ 64"
    using unsigned_less [of ?b, where 'a = nat] by simp
  then have "unat (bytes_in_flight cc) = flight_size (bt_remove pn ?m)"
    using cc(1) size by (simp add: unat_saturating_sub unat_of_nat_small)
  moreover have "bytes_in_flight cc \<le> max_cwnd cc"
    using cc(1,2) inv by (auto simp: flight_inv_def word_le_nat_alt unat_saturating_sub)
  moreover have "set (bt_remove pn ?m) \<subseteq> set ?m"
    by (auto simp: bt_remove_def)
  ultimately show ?thesis
    using inv cc rtt bt_inv_remove [OF bt] by (auto simp: flight_inv_def dropped_def)
qed

lemma flight_recorded:
  assumes inv: "flight_inv c" and n: "unat (next_number c) + 1 < 2 ^ 64"
    and send: "cc_can_send (tr_congestion (cn_transport c)) (sp_encoded_len p)"
    and p: "sp_encoded_len p \<le> cfg_max_datagram_size (cn_config c)" "sp_packet_number p = next_number c"
      "sp_sent_at p = cn_now c"
  shows "flight_inv (recorded ptype f p c)"
proof -
  let ?m = "tr_sent (cn_transport c)" and ?cc = "tr_congestion (cn_transport c)" and ?l = "sp_encoded_len p"
  have bt: "bt_inv ?m" and keys: "\<forall>(pn, q) \<in> set ?m. pn < next_number c"
    using inv by (auto simp: flight_inv_def)
  have l: "?l \<le> 65535"
    using p(1) inv by (simp add: flight_inv_def)
  then have ul: "unat (of_nat ?l :: u64) = ?l"
    by (simp add: unat_of_nat_small)
  have none: "bt_get ?m (next_number c) = None"
    using keys by (auto simp: bt_get_def map_of_eq_None_iff)
  have le: "saturating_add (bytes_in_flight ?cc) (of_nat ?l) \<le> cwnd ?cc"
    using send by (simp add: cc_can_send_def)
  have top: "unat (cwnd ?cc) < 2 ^ 64 - 1"
  proof -
    have "unat (max_cwnd ?cc) \<noteq> 2 ^ 64 - 1"
      using inv by (simp add: flight_inv_def word_unat_eq_iff unsigned_minus_1_eq_mask mask_eq_exp_minus_1)
    moreover have "unat (cwnd ?cc) \<le> unat (max_cwnd ?cc)"
      using inv by (simp add: flight_inv_def cc_inv_def word_le_nat_alt)
    ultimately show ?thesis
      using unsigned_less [of "max_cwnd ?cc", where 'a = nat] by simp
  qed
  have sum: "unat (saturating_add (bytes_in_flight ?cc) (of_nat ?l)) = flight_size ?m + ?l"
    using le top ul inv by (simp add: word_le_nat_alt unat_saturating_add flight_inv_def)
  have "flight_size (bt_insert (next_number c) p ?m) = flight_size ?m + ?l"
    by (rule flight_insert [OF none])
  moreover have "saturating_add (bytes_in_flight ?cc) (of_nat ?l) \<le> max_cwnd ?cc"
    using le inv by (auto simp: flight_inv_def cc_inv_def)
  moreover have "\<forall>(pn, q) \<in> set (bt_insert (next_number c) p ?m).
      pn < next_number c + 1 \<and> sp_packet_number q = pn \<and> sp_sent_at q \<le> cn_now c"
    using inv number_step [OF n] p by (auto simp: bt.entries_insert [OF bt] flight_inv_def dest: less_trans)
  ultimately show ?thesis
    using inv p(2) sum bt_inv_insert [OF bt] cc_inv_steps(3)
    by (simp add: flight_inv_def recorded_def transmitted_def bump_number_def Let_def cc_on_sent_def cc_inv_def)
qed

lemma flight_frame:
  assumes "same_flight (cn_transport c) (cn_transport c')" "cn_now c \<le> cn_now c'"
    and "cfg_max_datagram_size (cn_config c') \<le> cfg_max_datagram_size (cn_config c)"
  shows "keeps_flight c c'"
  using assms by (fastforce simp: keeps_flight_def flight_inv_def same_flight_def)

lemma flight_bump:
  assumes "unat (next_number c) + 1 < 2 ^ 64"
  shows "keeps_flight c (bump_number c)"
  using number_step [OF assms] less_trans
  by (fastforce simp: keeps_flight_def flight_inv_def bump_number_def)

interpretation flight: conn_insensitive keeps_flight "\<lambda>_ _. True" api "\<lambda>_ _. True" "\<lambda>_ _. True" for api
proof unfold_locales
  fix c ptype f and p :: sent_packet
  assume n: "unat (next_number c) + 1 < 2 ^ 64"
  show "keeps_flight c (bump_number c)"
    using flight_bump n by blast
  then show "keeps_flight c (transmitted ptype f c)"
    by (simp add: keeps_flight_def transmitted_def flight_inv_def)
  assume "cc_can_send (tr_congestion (cn_transport c)) (sp_encoded_len p)"
    "sp_encoded_len p \<le> cfg_max_datagram_size (cn_config c)" "sp_packet_number p = next_number c" "sp_sent_at p = cn_now c"
  with n show "keeps_flight c (recorded ptype f p c)"
    unfolding keeps_flight_def by (blast intro: flight_recorded)
next
  fix c :: connection and pn p e
  assume p: "bt_get (tr_sent (cn_transport c)) pn = Some p"
  show "keeps_flight c (dropped pn (cc_on_acked (tr_congestion (cn_transport c)) (sp_encoded_len p)) (tr_rtt (cn_transport c)) c)"
    unfolding keeps_flight_def
    by (rule impI, rule flight_dropped [OF _ p]) (simp_all add: cc_inv_steps flight_invD)
  assume "e \<in> {tr_rtt (cn_transport c), rtt_on_timeout (tr_rtt (cn_transport c))}"
  then show "keeps_flight c (dropped pn (cc_on_loss (tr_congestion (cn_transport c)) (sp_encoded_len p)) e c)"
    unfolding keeps_flight_def
    by (auto intro!: flight_dropped [OF _ p] simp: cc_inv_steps flight_invD rtt_inv_timeout)
next
  fix c :: connection and sample delay e
  assume "Option.bind (rtt_on_ack (tr_rtt (cn_transport c)) sample delay) rtt_reset_backoff = Some e"
  then show "keeps_flight c (c\<lparr>cn_transport := (cn_transport c)\<lparr>tr_rtt := e\<rparr>\<rparr>)"
    using rtt_inv_sample by (auto simp: keeps_flight_def flight_inv_def)
qed ((rule flight_frame; simp add: lower_datagram_size_def) | simp add: keeps_flight_def)+

section \<open>Streams\<close>

text \<open>The map of streams stays in order and no stream ever disappears from it.\<close>

definition streams_grow :: "stream_manager \<Rightarrow> stream_manager \<Rightarrow> bool" where
  "streams_grow m m' \<longleftrightarrow> (bt_inv (mg_streams m) \<longrightarrow>
     bt_inv (mg_streams m') \<and> set (bt_keys (mg_streams m)) \<subseteq> set (bt_keys (mg_streams m')))"

lemma streams_grow_insert: "streams_grow m (m\<lparr>mg_streams := bt_insert sid s (mg_streams m)\<rparr>)"
  by (auto simp: streams_grow_def bt_inv_insert bt_keys_insert)

interpretation streams: conn_insensitive "\<lambda>c c'. streams_grow (cn_streams c) (cn_streams c')"
  "\<lambda>_ _. True" api streams_grow "\<lambda>_ _. True" for api
  by unfold_locales
    (auto simp: streams_grow_insert bump_number_def transmitted_def recorded_def dropped_def Let_def,
      auto simp: streams_grow_def)

section \<open>Timers\<close>

abbreviation issued_keys :: "timer_state \<Rightarrow> nat" where
  "issued_keys t \<equiv> length (sm_issued (wh_tasks (ts_wheel t)))"

text \<open>The slot map has versions for \<open>2 ^ 31\<close> keys per slot. As long as no more have been issued, the wheel is in
  a state that its own operations lead to.\<close>

definition wheel_works :: "slotmap_api \<Rightarrow> timer_state \<Rightarrow> timer_state \<Rightarrow> bool" where
  "wheel_works api t t' \<longleftrightarrow> issued_keys t \<le> issued_keys t' \<and>
     (issued_keys t' \<le> 2 ^ 31 \<and> wheel_reachable api (ts_wheel t) \<longrightarrow> wheel_reachable api (ts_wheel t'))"

lemma wheel_works_insert: "wheel_works api t (t\<lparr>ts_wheel := snd (wheel_insert api event delay (ts_wheel t))\<rparr>)"
proof (cases "deadline_after (ts_wheel t) delay")
  case (Inl e)
  then show ?thesis
    by (simp add: wheel_works_def insert_refused)
next
  case (Inr d)
  let ?w = "snd (wheel_insert api event delay (ts_wheel t))"
  have "length (sm_issued (wh_tasks ?w)) = Suc (issued_keys t)"
    using issued_insert [of api event delay "ts_wheel t"] Inr by simp
  then show ?thesis
    using reach_insert [where item = event and delay = delay and w = "ts_wheel t", OF _ _ prod.collapse [symmetric]]
    by (simp add: wheel_works_def)
qed

interpretation wheels: timer_relation "wheel_works api" api for api
proof unfold_locales
  show "wheel_works api t (t\<lparr>ts_wheel := snd (wheel_insert api event delay (ts_wheel t))\<rparr>)" for t event delay
    by (rule wheel_works_insert)
  show "wheel_works api t (t\<lparr>ts_wheel := snd (wheel_cancel k (ts_wheel t))\<rparr>)" for t k
    using issued_cancel [of "ts_wheel t" k] reach_cancel [OF _ prod.collapse [symmetric], of api "ts_wheel t" k]
    by (simp add: wheel_works_def same_issued_def)
  show "wheel_works api t (t\<lparr>ts_wheel := snd (wheel_clear api [] (ts_wheel t))\<rparr>)" for t
    using reach_clear [OF _ prod.collapse [symmetric], of api "ts_wheel t" "[]"]
    by (simp add: wheel_works_def wheel_clear_def)
  show "wheel_works api t (t\<lparr>ts_wheel := w\<rparr>)"
    if "wheel_advance_by api elapsed [] (ts_wheel t) = Some (r, w)" for t elapsed r w
    using issued_advance [OF that] reach_advance [OF _ that] by (simp add: wheel_works_def same_issued_def)
qed (auto simp: wheel_works_def)

interpretation timers: conn_insensitive "\<lambda>c c'. wheel_works api (cn_timers c) (cn_timers c')"
  "wheel_works api" api "\<lambda>_ _. True" "\<lambda>_ _. True" for api
  by unfold_locales
    (auto simp: bump_number_def transmitted_def recorded_def dropped_def Let_def wheels.refl intro: wheels.trans)

end
