(* ===== verification/Conn_Flush.thy ===== *)
theory Conn_Flush
  imports Conn_Invariants
begin

text \<open>
  The loop of \<open>flush\<close> ends: every round that goes on has taken a frame out of a queue or answered the pending
  acknowledgement, and nothing in the loop can fail to return.
\<close>

section \<open>How computations fail\<close>

definition fails_in :: "'e set \<Rightarrow> ('s, 'e, 'a) st \<Rightarrow> bool" where
  "fails_in E m \<longleftrightarrow> (\<forall>s e. fst (m s) = Inl e \<longrightarrow> e \<in> E)"

lemma fails_inD: "fails_in E m \<Longrightarrow> m s = (Inl e, s') \<Longrightarrow> e \<in> E"
  unfolding fails_in_def by (metis fst_conv)

named_theorems fails_intros \<open>errors along the program text\<close>

lemma fails_basic [fails_intros]:
  "fails_in E (st_return x)" "fails_in E (st_read g)" "fails_in E (st_modify h)"
  by (simp_all add: fails_in_def)

lemma fails_bind [fails_intros]:
  assumes "fails_in E m" "\<And>x. fails_in E (f x)"
  shows "fails_in E (st_bind m f)"
  unfolding fails_in_def
proof (intro allI impI)
  fix s e
  assume e: "fst (st_bind m f s) = Inl e"
  obtain r s' where m: "m s = (r, s')"
    by fastforce
  have "r = Inl x \<Longrightarrow> x \<in> E" for x
    using assms(1) m unfolding fails_in_def by (metis fst_conv)
  with e m show "e \<in> E"
    using assms(2) by (cases r) (auto simp: st_bind_def fails_in_def)
qed

lemma fails_then [fails_intros]: "fails_in E m \<Longrightarrow> fails_in E k \<Longrightarrow> fails_in E (st_then m k)"
  by (simp add: st_then_def fails_bind)

lemma fails_when [fails_intros]: "fails_in E m \<Longrightarrow> fails_in E (st_when c m)"
  by (simp add: st_when_def fails_basic)

lemma fails_if [fails_intros]: "fails_in E m \<Longrightarrow> fails_in E k \<Longrightarrow> fails_in E (if c then m else k)"
  by simp

lemma fails_option [fails_intros]:
  "fails_in E m \<Longrightarrow> (\<And>x. fails_in E (f x)) \<Longrightarrow> fails_in E (case y of None \<Rightarrow> m | Some x \<Rightarrow> f x)"
  by (cases y) simp_all

lemma fails_sum [fails_intros]:
  "(\<And>x. fails_in E (f x)) \<Longrightarrow> (\<And>x. fails_in E (g x)) \<Longrightarrow> fails_in E (case y of Inl x \<Rightarrow> f x | Inr x \<Rightarrow> g x)"
  by (cases y) simp_all

lemma fails_prod [fails_intros]:
  "(\<And>x y. fails_in E (f x y)) \<Longrightarrow> fails_in E (case p of (x, y) \<Rightarrow> f x y)"
  by (cases p) simp

lemma fails_for [fails_intros]: "(\<And>x. fails_in E (f x)) \<Longrightarrow> fails_in E (st_for xs f)"
  by (induction xs) (simp_all only: st_for.simps fails_then fails_basic)

lemma fails_frame [fails_intros]:
  "(\<And>d. fails_in E (g d)) \<Longrightarrow> fails_in E k \<Longrightarrow> fails_in E (case f of StreamData d \<Rightarrow> g d | _ \<Rightarrow> k)"
  by (cases f) simp_all

abbreviation api_errors :: "stop set" where
  "api_errors \<equiv> range Stop"

text \<open>What is built from results of the library and from operations of the streams stops with an error of
  the API, never by a panic and never not at all.\<close>

lemma fails_lifted [fails_intros]:
  "fails_in api_errors (lift_core r)" "fails_in api_errors (core_fail e)" "fails_in api_errors (on_streams m)"
  "fails_in api_errors (crypto_result x)"
  by (auto simp: fails_in_def lift_core_def core_fail_def on_streams_def st_field_def crypto_result_def map_err_def
      split: sum.splits prod.splits)

lemma fails_fields [fails_intros]:
  "fails_in E (in_transport f)" "fails_in E (in_timers g)" "fails_in E (in_streams h)" "fails_in E (in_handshake k)"
  "fails_in E (in_config l)" "fails_in E (push_output x)"
  by (simp_all add: in_transport_def in_timers_def in_streams_def in_handshake_def in_config_def push_output_def fails_basic)

lemma map_err_id [simp]: "map_err (\<lambda>e. e) r = r"
  by (simp add: map_err_def split: sum.split)

lemma fails_on_timers [fails_intros]: "fails_in E m \<Longrightarrow> fails_in E (on_timers m)"
  by (simp add: fails_in_def on_timers_def st_field_def case_prod_beta)

lemma fails_schedule [fails_intros]:
  "fails_in api_errors (tm_schedule api event delay)"
  "fails_in api_errors (schedule_ack api delay)"
  "fails_in api_errors (schedule_handshake api delay)"
  "fails_in api_errors (schedule_keepalive api delay)"
  "fails_in api_errors (schedule_idle api delay)"
  "fails_in api_errors (schedule_close api delay)"
proof -
  show "fails_in api_errors (tm_schedule api event delay)" for event delay
    by (auto simp: fails_in_def tm_schedule_def st_field_def map_err_def split: sum.splits prod.splits)
  note ins = this
  show "fails_in api_errors (schedule_ack api delay)" "fails_in api_errors (schedule_handshake api delay)"
    "fails_in api_errors (schedule_keepalive api delay)" "fails_in api_errors (schedule_idle api delay)"
    "fails_in api_errors (schedule_close api delay)"
    unfolding schedule_ack_def schedule_handshake_def schedule_keepalive_def schedule_idle_def schedule_close_def
    by (intro fails_intros ins)+
qed

lemma fails_requeue [fails_intros]: "fails_in api_errors (requeue_candidate q)" "fails_in api_errors (requeue_lost fs n)"
proof -
  have one: "fails_in api_errors (requeue_one n q)" for n q
    unfolding requeue_one_def by (cases "qf_frame q") (simp_all add: fails_intros)
  then show "fails_in api_errors (requeue_candidate q)"
    by (simp add: requeue_candidate_def)
  show "fails_in api_errors (requeue_lost fs n)"
    unfolding requeue_lost_def Let_def by (intro fails_intros one)
qed

lemma fails_record_sent: "fails_in api_errors (record_sent api pn n q)"
  unfolding record_sent_def by (cases "qf_frame q") (simp_all only: frame.case, (intro fails_intros)+)

lemma fails_send_frame: "fails_in api_errors (send_frame api queued ptype f)"
proof -
  have "fails_in api_errors (account_flow queued)"
    unfolding account_flow_def by (cases queued) (auto simp: fails_intros split: frame.split)
  then show ?thesis
    unfolding send_frame_def packet_size_def put_back_def note_sent_def
    by (intro fails_intros fails_record_sent)
qed

lemma fails_flush_step: "fails_in api_errors (flush_step api)"
proof -
  have "fails_in api_errors (\<lambda>c. lift_core (g c) c)" for g :: "connection \<Rightarrow> core_error + 'x"
    by (auto simp: fails_in_def lift_core_def map_err_def split: sum.splits)
  moreover have "fails_in api_errors take_data_candidate"
    by (auto simp: fails_in_def take_data_candidate_def split: list.splits prod.splits)
  ultimately show ?thesis
    unfolding flush_step_def by (intro fails_intros fails_send_frame)
qed

section \<open>What a round leaves in the queues\<close>

definition same_queues :: "connection \<Rightarrow> connection \<Rightarrow> bool" where
  "same_queues c c' \<longleftrightarrow> tr_pending_frames (cn_transport c') = tr_pending_frames (cn_transport c)
     \<and> cn_streams c' = cn_streams c \<and> tr_ack_pending (cn_transport c') = tr_ack_pending (cn_transport c)"

interpretation queues: step_relation same_queues
  by unfold_locales (auto simp: same_queues_def)

lemma queues_on_timers: "steps same_queues (on_timers m)"
  unfolding on_timers_def by (rule steps_field [where Q = "\<lambda>_ _. True"]) (simp_all add: steps_def same_queues_def)

lemma queues_record_sent: "steps same_queues (record_sent api pn n q)"
proof -
  have "steps same_queues (in_transport (\<lambda>t. t\<lparr>tr_generation := tr_generation t + 1\<rparr>))"
    unfolding in_transport_def by (rule steps_modify) (simp add: same_queues_def)
  moreover have "steps same_queues (st_modify (\<lambda>c. c\<lparr>cn_transport := (cn_transport c)\<lparr>
      tr_congestion := cc_on_sent (tr_congestion (cn_transport c)) n, tr_sent := g c\<rparr>\<rparr>))" for g
    by (rule steps_modify) (simp add: same_queues_def)
  ultimately show ?thesis
    unfolding record_sent_def
    by (cases "qf_frame q"; simp only: frame.case; intro queues.steps_bind queues.steps_then queues.steps_basic queues_on_timers)
qed

text \<open>A round that goes on has sent the frame it was given, and leaves the queues alone otherwise.\<close>

lemma send_frame_goes_on:
  assumes "send_frame api queued ptype f c = (Inr True, c')"
  shows "tr_pending_frames (cn_transport c') = tr_pending_frames (cn_transport c) \<and> cn_streams c' = cn_streams c
     \<and> tr_ack_pending (cn_transport c') = (queued \<noteq> None \<and> tr_ack_pending (cn_transport c))"
proof -
  let ?p = "packet_for c ptype f" and ?n = "tr_next_packet_number (cn_transport c)"
  obtain r where size: "packet_size ?p c = (r, c)"
    using packet_size_run by blast
  with assms obtain n where r: "r = Inr n"
    by (cases r) (auto simp: send_frame_def st_bind_run)
  have num: "pkt_number ?p = ?n"
    by (simp add: packet_for_def)
  obtain fs where account: "account_flow queued (bump_number c) = (Inr (), (bump_number c)\<lparr>cn_connection_send := fs\<rparr>)"
    using account_flow_run by blast
  have false: "st_then m (st_then k (st_return False)) d \<noteq> (Inr True, c')" "st_then m (st_return False) d \<noteq> (Inr True, c')"
    for m k :: "unit conn_op" and d
    by (auto simp: st_then_def st_bind_eq_Inr)
  have "note_sent api queued f ?n n ((transmitted ptype f c)\<lparr>cn_connection_send := fs\<rparr>) = (Inr (), c')"
    using assms size r false
    by (auto simp: send_frame_def st_bind_run num checked_add_one ok_or_def lift_core_def map_err_def bump_run
        st_then_run [where m = "account_flow queued", OF account] transmit_run st_then_def [of "note_sent _ _ _ _ _"]
        st_bind_eq_Inr split: if_splits)
  then show ?thesis
  proof (cases queued)
    case (Some q)
    let ?d = "(transmitted ptype f c)\<lparr>cn_connection_send := fs\<rparr>"
    have "same_queues ?d c'"
      using \<open>note_sent api queued f ?n n ?d = (Inr (), c')\<close> Some stepsD [OF queues_record_sent]
      by (auto simp: note_sent_def st_when_def queues.refl split: if_splits)
    then show ?thesis
      by (simp add: same_queues_def transmitted_def bump_number_def Some)
  qed (auto simp: note_sent_def in_transport_def in_timers_def transmitted_def bump_number_def)
qed

section \<open>The queues of the streams\<close>

lemma bt_get_key: "bt_get m k = Some v \<Longrightarrow> k \<in> set (bt_keys m)"
  by (force simp: bt_get_def bt_keys_def dest: map_of_SomeD)

lemma queue_length_update:
  "bt_inv m \<Longrightarrow> bt_get m k = Some s \<Longrightarrow>
     sum_list (map (\<lambda>(_, s). length (ss_queue (sr_send s))) (bt_insert k s' m)) + length (ss_queue (sr_send s))
       = sum_list (map (\<lambda>(_, s). length (ss_queue (sr_send s))) m) + length (ss_queue (sr_send s'))"
  by (induction k s' m rule: bt_insert.induct) (auto dest!: bt_get_key split: if_splits)

lemma take_sendable_shrinks:
  "bt_inv (mg_streams m) \<Longrightarrow> take_sendable_loop sids m = (Some q, m') \<Longrightarrow> queue_length m = Suc (queue_length m')"
proof (induction sids m rule: take_sendable_loop.induct)
  case (2 sid sids m)
  show ?case
  proof (cases "bt_get (mg_streams m) sid")
    case None
    with 2 show ?thesis
      by simp
  next
    case (Some s)
    show ?thesis
    proof (cases "ss_queue (sr_send s)")
      case Nil
      with 2 Some show ?thesis
        by (simp add: ss_front_sendable_def)
    next
      case (Cons item rest)
      let ?s = "s\<lparr>sr_send := (sr_send s)\<lparr>ss_queue := rest, ss_queued_bytes := ss_queued_bytes (sr_send s) - length (pd_data item),
          ss_fin_sent := (ss_fin_sent (sr_send s) \<or> pd_fin item)\<rparr>\<rparr>"
      show ?thesis
        using 2 Some Cons queue_length_update [OF "2.prems"(1) Some, of ?s]
        by (auto simp: ss_front_sendable_def ss_pop_sendable_def queue_length_def Let_def split: if_splits)
    qed
  qed
qed simp

lemma flush_step_shrinks:
  assumes "bt_inv (mg_streams (cn_streams c))" "flush_step api c = (Inr True, c')"
  shows "flush_fuel c' < flush_fuel c"
proof (cases "tr_ack_pending (cn_transport c) \<and> tr_ack_ready (cn_transport c)")
  case True
  then obtain a where "send_frame api None Data_PT (Ack a) c = (Inr True, c')"
    using assms(2)
    by (auto simp: flush_step_def st_bind_def lift_core_def map_err_def split: sum.splits option.splits prod.splits)
  from send_frame_goes_on [OF this] True show ?thesis
    by (simp add: flush_fuel_def)
next
  case False
  then obtain q d where take: "take_data_candidate c = (Inr (Some q), d)"
    and send: "send_frame api (Some q) (packet_type_of (qf_frame q) (cn_state d)) (qf_frame q) d = (Inr True, c')"
    using assms(2) by (auto simp: flush_step_def st_bind_eq_Inr split: option.splits)
  have "flush_fuel c = Suc (flush_fuel d)"
    using take take_sendable_shrinks [OF assms(1)]
    by (auto simp: take_data_candidate_def flush_fuel_def mgr_take_sendable_def split: list.splits prod.splits)
  with send_frame_goes_on [OF send] show ?thesis
    by (simp add: flush_fuel_def)
qed

lemma flush_loop_ends:
  "bt_inv (mg_streams (cn_streams c)) \<Longrightarrow> flush_fuel c < fuel \<Longrightarrow> flush_loop api fuel c = (Inl e, c') \<Longrightarrow> e \<in> api_errors"
proof (induction fuel arbitrary: c)
  case (Suc fuel)
  obtain r d where step: "flush_step api c = (r, d)"
    by fastforce
  have d: "bt_inv (mg_streams (cn_streams d))"
    using stepsD [OF streams.steps_flush_step step] Suc.prems(1) by (simp add: streams_grow_def)
  show ?case
  proof (cases r)
    case (Inl x)
    then show ?thesis
      using Suc.prems(3) step fails_inD [OF fails_flush_step] by (simp add: st_bind_def)
  next
    case (Inr go)
    show ?thesis
    proof (cases go)
      case True
      then have "flush_fuel d < fuel"
        using flush_step_shrinks [OF Suc.prems(1)] step Inr Suc.prems(2) by fastforce
      then show ?thesis
        using Suc.IH [OF d] Suc.prems(3) step Inr True by (simp add: st_bind_def)
    qed (use Suc.prems(3) step Inr in \<open>simp add: st_bind_def\<close>)
  qed
qed simp

lemma flush_ends:
  "bt_inv (mg_streams (cn_streams c)) \<Longrightarrow> flush api c = (Inl e, c') \<Longrightarrow> e \<in> api_errors"
  unfolding flush_def by (rule flush_loop_ends [OF _ lessI])

section \<open>Every operation returns\<close>

abbreviation streams_ok :: "connection \<Rightarrow> bool" where
  "streams_ok c \<equiv> bt_inv (mg_streams (cn_streams c))"

text \<open>From a connection with its streams in order the computation returns, with its streams in order.\<close>

definition returns :: "'x conn_op \<Rightarrow> bool" where
  "returns m \<longleftrightarrow> (\<forall>c. streams_ok c \<longrightarrow> fst (m c) \<noteq> Inl Endless \<and> streams_ok (snd (m c)))"

named_theorems returns_intros \<open>return along the program text\<close>

lemma returns_bind [returns_intros]:
  assumes "returns m" "\<And>x. returns (f x)"
  shows "returns (st_bind m f)"
  unfolding returns_def
proof (intro allI impI)
  fix c
  assume "streams_ok c"
  obtain r d where m: "m c = (r, d)"
    by fastforce
  with assms(1) \<open>streams_ok c\<close> have "streams_ok d" "r \<noteq> Inl Endless"
    unfolding returns_def by (metis fst_conv snd_conv)+
  with m show "fst (st_bind m f c) \<noteq> Inl Endless \<and> streams_ok (snd (st_bind m f c))"
    using assms(2) by (cases r) (auto simp: st_bind_def returns_def)
qed

lemma returns_then [returns_intros]: "returns m \<Longrightarrow> returns k \<Longrightarrow> returns (st_then m k)"
  by (simp add: st_then_def returns_bind)

lemma returns_basic [returns_intros]: "returns (st_return x)" "returns (st_read g)" "returns (core_fail e)"
  by (simp_all add: returns_def core_fail_def)

lemma returns_when [returns_intros]: "returns m \<Longrightarrow> returns (st_when b m)"
  by (cases b) (simp_all add: returns_basic)

lemma returns_if [returns_intros]: "returns m \<Longrightarrow> returns k \<Longrightarrow> returns (if b then m else k)"
  by simp

lemma returns_for [returns_intros]: "(\<And>x. returns (f x)) \<Longrightarrow> returns (st_for xs f)"
  by (induction xs) (simp_all only: st_for.simps returns_then returns_basic)

lemma returns_flush [returns_intros]: "returns (flush api)"
  unfolding returns_def
proof (intro allI impI)
  fix c
  assume c: "streams_ok c"
  obtain r d where run: "flush api c = (r, d)"
    by fastforce
  then have "streams_ok d"
    using stepsD [OF streams.steps_flush run] c by (simp add: streams_grow_def)
  with run show "fst (flush api c) \<noteq> Inl Endless \<and> streams_ok (snd (flush api c))"
    using flush_ends [OF c, of api] by (cases r) auto
qed

lemma returnsI:
  assumes "fails_in (- {Endless}) m" "steps (\<lambda>c c'. streams_grow (cn_streams c) (cn_streams c')) m"
  shows "returns m"
proof -
  have "fst (m c) \<noteq> Inl Endless" for c
    using fails_inD [OF assms(1), of c Endless] by (cases "m c") auto
  with assms(2) show ?thesis
    by (auto simp: returns_def steps_def streams_grow_def)
qed

lemma fails_mono: "fails_in api_errors m \<Longrightarrow> fails_in (- {Endless}) m"
  by (auto simp: fails_in_def)

lemma fails_reader: "(\<And>x. fails_in E (f x)) \<Longrightarrow> fails_in E (\<lambda>c. f (g c) c)"
  by (simp add: fails_in_def)

lemma fails_set_state [fails_intros]: "fails_in E (set_state s)"
  unfolding set_state_def by (intro fails_intros)

lemma fails_activate: "fails_in api_errors activate_crypto"
  unfolding activate_crypto_def by (intro fails_intros)

lemma fails_frames:
  "fails_in api_errors (process_client_hello api P ptype ch)"
  "fails_in api_errors (process_server_hello P ptype sh)"
  "fails_in api_errors (process_handshake_ack P ptype ha)"
  "fails_in api_errors (process_retry api ptype re)"
  "fails_in api_errors (process_stream_open ptype so)"
  "fails_in api_errors (process_stream_data ptype sd)"
  "fails_in api_errors (process_reset_stream ptype rs)"
  "fails_in api_errors (process_max_stream_data ptype ms)"
  "fails_in api_errors (process_max_data ptype md)"
  "fails_in api_errors (process_ping ptype pg)"
  "fails_in api_errors (process_connection_close api ptype cl)"
  unfolding process_client_hello_def receive_client_hello_def process_server_hello_def receive_server_hello_def
    process_handshake_ack_def receive_handshake_ack_def process_retry_def receive_retry_def process_stream_open_def
    process_stream_data_def process_reset_stream_def process_max_stream_data_def process_max_data_def process_ping_def
    process_connection_close_def require_data_def schedule_handshake_timeout_def Let_def
  by (intro fails_intros fails_activate fails_reader [where f = lift_core])+

lemma fails_process_frame: "fails_in api_errors (process_frame api P ptype f)"
  by (cases f) (simp_all add: process_frame_def fails_frames fails_basic)

lemma no_endless: "fails_in api_errors m \<Longrightarrow> fst (m c) \<noteq> Inl Endless"
  by (auto simp: fails_in_def)

lemma returns_lift: "returns (lift_core r)"
  by (intro returnsI fails_mono fails_lifted streams.steps_lifted)

lemma returns_manager: "steps streams_grow m \<Longrightarrow> returns (on_streams m)"
  by (intro returnsI fails_mono fails_lifted streams.steps_on_streams)

lemma fails_record_received: "fails_in E (record_received pn)"
  by (simp add: fails_in_def record_received_def split: prod.split)

lemma fails_ack_frame: "fails_in (- {Endless}) (receive_ack_frame f)"
proof -
  have "fails_in (- {Endless}) (\<lambda>c. case ack_loop pns sample c of (sample, c) \<Rightarrow> (Inr sample, c))" for pns sample
    by (simp add: fails_in_def split: prod.split)
  moreover have "fails_in (- {Endless}) (lose_packet pn)" for pn
    using no_endless [OF fails_requeue(2)] by (auto simp: fails_in_def lose_packet_def split: option.splits)
  moreover have "fails_in (- {Endless}) (update_rtt sample delay)" for sample delay
    by (auto simp: fails_in_def update_rtt_def split: option.splits)
  ultimately have "fails_in (- {Endless}) (apply_ack ack)" for ack
    unfolding apply_ack_def by (intro fails_intros fails_lifted [THEN fails_mono])
  then have "fst (on_error (apply_ack ack) give_up c) \<noteq> Inl Endless" for ack c
    using fails_inD [of "- {Endless}" "apply_ack ack" c Endless]
    by (auto simp: on_error_def split: prod.splits sum.splits)
  then show ?thesis
    unfolding receive_ack_frame_def by (cases f) (auto simp: fails_in_def)
qed

lemma returns_frames:
  "returns (process_frame api P ptype f)" "returns (receive_ack_frame f)" "returns (record_received pn)"
  "returns (reset_idle_timer api)" "returns (tr_schedule_ack api)"
  by (rule returnsI; intro streams.steps_process_frame streams.steps_receive_ack_frame streams.steps_record_received
      streams.steps_timeouts streams.steps_schedule_ack fails_mono fails_process_frame fails_ack_frame fails_record_received;
      unfold reset_idle_timer_def tr_schedule_ack_def; intro fails_intros)+

lemma returns_on_datagram: "returns (on_datagram api P packet)"
  unfolding on_datagram_def Let_def by (intro returns_intros returns_frames)

lemma returns_on_datagram_bytes: "returns (on_datagram_bytes api P bs)"
proof -
  have "returns (decode_with_crypto P bs)"
    by (rule returnsI [OF _ streams.decoding])
      (auto simp: fails_in_def decode_with_crypto_def map_err_def split: option.splits prod.splits sum.splits)
  then show ?thesis
    unfolding on_datagram_bytes_def by (intro returns_intros returns_lift returns_on_datagram)
qed

lemma returns_close: "returns (close api code reason)"
proof -
  have "returns (st_modify (\<lambda>c. c\<lparr>cn_close_error := x\<rparr>))" "returns (set_state Closing)"
    "returns (in_transport (tr_queue f))" "returns (on_timers (schedule_close api d))" for x f d
    by (simp add: returns_def)
      (rule returnsI; intro fails_intros fails_schedule [THEN fails_mono] streams.closing streams.steps_in
        streams.steps_on_timers sending.tm.steps_schedules; simp)+
  then show ?thesis
    unfolding close_def by (intro returns_intros)
qed

lemma returns_process_timer: "returns (process_timer api event)"
proof (cases "event = HandshakeTimeout \<or> event = IdleTimeout")
  case True
  have "returns (hs_on_timeout api)"
    by (rule returnsI; unfold hs_on_timeout_def;
        intro fails_intros fails_schedule [THEN fails_mono] streams.conn_intros streams.conn_ops) simp_all
  with True show ?thesis
    unfolding process_timer_def by (auto intro!: returns_intros returns_close)
next
  case False
  have "fails_in (- {Endless}) (on_error (process_retransmit pn g) give_up)" for pn g
    using no_endless [OF fails_requeue(2)]
    by (auto simp: fails_in_def on_error_def process_retransmit_def split: option.splits prod.splits sum.splits if_splits)
      (metis fst_conv)+
  then have "fails_in (- {Endless}) (process_timer api event)"
    using False unfolding process_timer_def
    by (cases event; simp only: timer_event.case; intro fails_intros fails_schedule [THEN fails_mono]; simp)
  then show ?thesis
    by (rule returnsI [OF _ streams.steps_process_timer])
qed

lemma returns_streams:
  "returns (open_stream api)" "returns (write_stream api sid data fin)" "returns (read_stream api sid n)"
proof -
  have "returns (\<lambda>c. on_streams (mgr_open_local (f c) w (g c)) c)" for f g w
    using returns_manager [OF streams.mg.steps_open] by (simp add: returns_def)
  moreover have "returns (\<lambda>c. on_streams (mgr_write sid data fin (f c) (g c)) c)" for f g
    using returns_manager [OF streams.mg.steps_records(1)] by (simp add: returns_def)
  moreover have "returns (in_transport h)" "returns (push_output x)"
    "returns (st_modify (\<lambda>c. c\<lparr>cn_connection_receive := k c\<rparr>))" for h x k
    by (simp_all add: returns_def in_transport_def push_output_def)
  ultimately show "returns (open_stream api)" "returns (write_stream api sid data fin)" "returns (read_stream api sid n)"
    unfolding open_stream_def write_stream_def read_stream_def ensure_established_def
    by (auto intro!: returns_intros returns_manager streams.mg.steps_records(2) split: option.split)
qed

lemma returns_advance_time:
  assumes "slotmap_laws api" "wheel_reachable api (ts_wheel (cn_timers c))" "streams_ok c"
  shows "fst (advance_time api elapsed c) \<noteq> Inl Endless"
proof -
  have wheel: "wheel_advance_by api elapsed [] (ts_wheel (cn_timers c)) \<noteq> None"
    using advance_ok [OF reachable_inv [OF assms(2,1)] assms(1), of elapsed "[]"] advance_refused [of "ts_wheel (cn_timers c)" elapsed api "[]"]
    by (metis option.distinct(1))
  let ?rest = "\<lambda>expired. st_then (st_for expired (\<lambda>event. st_then (in_timers (clear_timer_slot event)) (process_timer api event)))
      (flush api)"
  let ?c = "c\<lparr>cn_now := cn_now c + elapsed\<rparr>"
  obtain r d where adv: "on_timers (tm_advance api elapsed) ?c = (r, d)"
    by fastforce
  have r: "r \<noteq> Inl Endless" and d: "streams_ok d"
    using adv wheel assms(3)
    by (auto simp: on_timers_def st_field_def tm_advance_def map_err_def split: option.splits prod.splits sum.splits)
  have "returns (in_timers h)" for h
    by (simp add: returns_def in_timers_def)
  then have "returns (?rest expired)" for expired
    by (intro returns_intros returns_process_timer)
  then have "fst (st_bind (on_timers (tm_advance api elapsed)) ?rest ?c) \<noteq> Inl Endless"
    using adv r d by (cases r) (auto simp: st_bind_def returns_def)
  then show ?thesis
    by (auto simp: advance_time_def dur_add_def lift_core_def map_err_def ok_or_def st_bind_def)
qed

end
