(* ===== verification/Conn_Properties.thy ===== *)
theory Conn_Properties
  imports Conn_Flush
begin

text \<open>
  The connection as a whole: sequences of calls of its API, what holds of every state they lead to, and the
  states a connection passes through.
\<close>

section \<open>Calls\<close>

datatype conn_call =
    Receive bytes
  | Handle packet
  | Advance duration
  | OpenStream
  | WriteStream stream_id bytes bool
  | ReadStream stream_id usize
  | CloseCall u32 bytes

fun perform :: "slotmap_api \<Rightarrow> primitives \<Rightarrow> conn_call \<Rightarrow> unit conn_op" where
  "perform api P (Receive bs) = on_datagram_bytes api P bs"
| "perform api P (Handle packet) = on_datagram api P packet"
| "perform api P (Advance elapsed) = advance_time api elapsed"
| "perform api P OpenStream = st_bind (open_stream api) (\<lambda>_. st_return ())"
| "perform api P (WriteStream sid data fin) = st_bind (write_stream api sid data fin) (\<lambda>_. st_return ())"
| "perform api P (ReadStream sid n) = st_bind (read_stream api sid n) (\<lambda>_. st_return ())"
| "perform api P (CloseCall code reason) = close api code reason"

text \<open>The connections that \<open>new_client\<close> or \<open>new_server\<close> and then any calls lead to, whether the calls succeed or
  fail, with everything that has been drained from their output on the way.\<close>

inductive conn_reachable ::
  "slotmap_api \<Rightarrow> primitives \<Rightarrow> connection_role \<Rightarrow> connection_id \<Rightarrow> connection_config \<Rightarrow> core_output list \<Rightarrow> connection \<Rightarrow> bool"
  for api P role cid config where
  conn_start: "connection_new api P nonce key role cid config start_handshake = Inr c \<Longrightarrow>
    conn_reachable api P role cid config [] c"
| conn_perform: "conn_reachable api P role cid config drained c \<Longrightarrow> perform api P call c = (r, c') \<Longrightarrow>
    conn_reachable api P role cid config drained c'"
| conn_drain: "conn_reachable api P role cid config drained c \<Longrightarrow> drain_output c = (Inr out, c') \<Longrightarrow>
    conn_reachable api P role cid config (drained @ out) c'"

lemma drained: "drain_output c = (Inr out, c') \<Longrightarrow> out = cn_output c \<and> c' = c\<lparr>cn_output := []\<rparr>"
  by (auto simp: drain_output_def)

context conn_relation
begin

lemma steps_perform: "steps R (perform api P call)"
  by (cases call) (auto intro!: steps_on_datagram_bytes steps_on_datagram steps_advance_time steps_open_stream
      steps_write_stream steps_read_stream steps_close steps_bind steps_basic)

lemma started:
  assumes "connection_new api P nonce key role cid config start_handshake = Inr c"
  obtains c0 where "connection_initial P nonce key role cid config start_handshake = Inr c0" "R c0 c"
proof -
  obtain c0 where c0: "connection_initial P nonce key role cid config start_handshake = Inr c0"
    and run: "(case connection_start api start_handshake c0 of (Inl e, _) \<Rightarrow> Inl e | (Inr _, c) \<Rightarrow> Inr c) = Inr c"
    using assms by (auto simp: connection_new_def and_then_def map_err_def split: sum.splits)
  then obtain x where "connection_start api start_handshake c0 = (Inr x, c)"
    by (auto split: prod.splits sum.splits)
  then have "R c0 c"
    using stepsD [OF steps_start] by blast
  with c0 that show ?thesis
    by blast
qed

text \<open>An invariant that the relation keeps, that the constructor establishes and that does not depend on the
  output holds of every reachable connection.\<close>

lemma reachable_invariant:
  assumes reach: "conn_reachable api P role cid config drained c"
    and keep: "\<And>c c'. I c \<Longrightarrow> R c c' \<Longrightarrow> I c'"
    and start: "\<And>nonce key b c. connection_initial P nonce key role cid config b = Inr c \<Longrightarrow> I c"
    and drain: "\<And>c. I c \<Longrightarrow> I (c\<lparr>cn_output := []\<rparr>)"
  shows "I c"
  using reach
proof (induction rule: conn_reachable.induct)
  case (conn_start nonce key b c)
  then show ?case
    using started start keep by metis
next
  case (conn_perform drained c call r c')
  then show ?case
    using keep stepsD [OF steps_perform] by metis
next
  case (conn_drain drained c out c')
  then show ?case
    using drain drained by metis
qed

end

section \<open>States\<close>

text \<open>The order in which a connection passes through its states, and the coarser order in which closing and
  closed are one phase.\<close>

fun state_level :: "connection_state \<Rightarrow> nat" where
  "state_level Idle = 0"
| "state_level Handshaking = 1"
| "state_level Established = 2"
| "state_level Closing = 3"
| "state_level Closed = 4"

definition state_phase :: "connection_state \<Rightarrow> nat" where
  "state_phase s = min 3 (state_level s)"

lemma state_phase_simps [simp]:
  "state_phase Idle = 0" "state_phase Handshaking = 1" "state_phase Established = 2"
  "state_phase Closing = 3" "state_phase Closed = 3"
  by (simp_all add: state_phase_def)

definition same_state :: "connection \<Rightarrow> connection \<Rightarrow> bool" where
  "same_state c c' \<longleftrightarrow> cn_state c' = cn_state c \<and> cn_role c' = cn_role c \<and> cn_id c' = cn_id c
     \<and> cn_packet_crypto c' = cn_packet_crypto c"

interpretation stable: conn_base same_state "\<lambda>_ _. True" api "\<lambda>_ _. True" "\<lambda>_ _. True" for api
  by unfold_locales
    (auto simp: same_state_def bump_number_def transmitted_def recorded_def dropped_def Let_def)

definition moves_on :: "connection \<Rightarrow> connection \<Rightarrow> bool" where
  "moves_on c c' \<longleftrightarrow> state_phase (cn_state c) \<le> state_phase (cn_state c') \<and> cn_role c' = cn_role c \<and> cn_id c' = cn_id c"

lemma moves_on_same: "same_state c c' \<Longrightarrow> moves_on c c'"
  by (simp add: same_state_def moves_on_def)

lemma set_state_run: "set_state s c =
    (Inr (), if cn_state c = s then c else c\<lparr>cn_state := s, cn_output := cn_output c @ [ConnectionStateChanged s]\<rparr>)"
  by (auto simp: set_state_def push_output_def)

lemma activate_run: "\<exists>r x. activate_crypto c = (r, c\<lparr>cn_packet_crypto := x\<rparr>)"
  by (auto simp: activate_crypto_def st_bind_def lift_core_def map_err_def ok_or_def
      intro: exI [of _ "cn_packet_crypto c"] split: option.split)

interpretation moves: step_relation moves_on
  by unfold_locales (auto simp: moves_on_def)

lemma moves_activate: "steps moves_on activate_crypto"
proof (rule stepsI)
  fix c
  obtain r x where "activate_crypto c = (r, c\<lparr>cn_packet_crypto := x\<rparr>)"
    using activate_run by blast
  then show "moves_on c (snd (activate_crypto c))"
    by (simp add: moves_on_def)
qed

text \<open>Receiving a hello or an acknowledgement does not move the state by itself; the next state it asks for is
  the one after the present state.\<close>

lemma stable_receives:
  "steps same_state (receive_client_hello P ptype hello)"
  "steps same_state (receive_server_hello P ptype reply)"
  "steps same_state (receive_handshake_ack P ptype ack)"
  unfolding receive_client_hello_def receive_server_hello_def receive_handshake_ack_def Let_def
  by (intro stable.conn_intros stable.conn_ops; simp)+

lemma next_states:
  "receive_client_hello P ptype hello c = (Inr (f, Some s, m), c') \<Longrightarrow> s = Handshaking \<and> cn_state c' = Idle"
  "receive_server_hello P ptype reply c = (Inr (f, w), c') \<Longrightarrow> cn_state c' = Handshaking"
  "receive_handshake_ack P ptype ack c = (Inr s, c') \<Longrightarrow> s = Established \<and> cn_state c' = Handshaking"
proof -
  show "receive_handshake_ack P ptype ack c = (Inr s, c') \<Longrightarrow> s = Established \<and> cn_state c' = Handshaking"
    by (auto simp: receive_handshake_ack_def st_bind_eq_Inr lift_core_def crypto_result_def core_fail_def st_then_def
        in_timers_def split: if_splits)
  show "receive_server_hello P ptype reply c = (Inr (f, w), c') \<Longrightarrow> cn_state c' = Handshaking"
    using stepsD [OF stable_receives(2), of P ptype reply c]
    by (auto simp: receive_server_hello_def core_fail_def same_state_def split: if_splits)
  show "receive_client_hello P ptype hello c = (Inr (f, Some s, m), c') \<Longrightarrow> s = Handshaking \<and> cn_state c' = Idle"
    by (auto simp: receive_client_hello_def st_bind_eq_Inr lift_core_def crypto_result_def core_fail_def st_then_def
        in_handshake_def in_config_def Let_def st_when_def split: if_splits)
qed

lemma moves_set_state: "state_phase (cn_state c) \<le> state_phase s \<Longrightarrow> moves_on c (snd (set_state s c))"
  by (simp add: set_state_run moves_on_def)

lemma moves_stable: "steps same_state m \<Longrightarrow> steps moves_on m"
  by (simp add: steps_def moves_on_same)

lemma activate_state: "activate_crypto c = (r, d) \<Longrightarrow> cn_state d = cn_state c \<and> cn_role d = cn_role c \<and> cn_id d = cn_id c"
  using activate_run [of c] by auto

lemma schedule_state:
  "schedule_handshake_timeout api c = (r, d) \<Longrightarrow> cn_state d = cn_state c \<and> cn_role d = cn_role c \<and> cn_id d = cn_id c"
  by (auto simp: schedule_handshake_timeout_def on_timers_def st_field_def split: prod.splits)

lemma client_hello_tail:
  assumes "\<And>state. s = Some state \<Longrightarrow> state = Handshaking \<and> cn_state e = Idle"
    and "c' = snd (st_then (st_when b activate_crypto)
     (case s of None \<Rightarrow> st_return () | Some state \<Rightarrow> st_then (schedule_handshake_timeout api) (set_state state)) e)"
  shows "cn_role c' = cn_role e \<and> cn_id c' = cn_id e
     \<and> (cn_state c' = cn_state e \<or> cn_state e = Idle \<and> cn_state c' = Handshaking)"
proof -
  obtain r1 d1 where one: "st_when b activate_crypto e = (r1, d1)"
    by fastforce
  have d1: "cn_state d1 = cn_state e \<and> cn_role d1 = cn_role e \<and> cn_id d1 = cn_id e"
    using one activate_state [of e r1 d1] by (cases b) auto
  obtain r2 d2 where two: "schedule_handshake_timeout api d1 = (r2, d2)"
    by fastforce
  note d2 = schedule_state [OF two]
  show ?thesis
    using one two d1 d2 assms
    by (cases r1; cases r2; cases s) (simp_all add: st_then_def st_bind_def set_state_run)
qed

lemma client_hello_state:
  assumes "process_client_hello api P ptype hello c = (r', c')"
  shows "cn_role c' = cn_role c \<and> cn_id c' = cn_id c
     \<and> (cn_state c' = cn_state c \<or> cn_state c = Idle \<and> cn_state c' = Handshaking)"
proof -
  obtain r d where run: "receive_client_hello P ptype hello c = (r, d)"
    by fastforce
  have d: "cn_state d = cn_state c" "cn_role d = cn_role c" "cn_id d = cn_id c"
    using stepsD [OF stable_receives(1) run] by (simp_all add: same_state_def)
  show ?thesis
  proof (cases r)
    case (Inr x)
    obtain frame s m where x: "x = (frame, s, m)"
      by (cases x)
    let ?e = "(case m of None \<Rightarrow> d | Some off \<Rightarrow> d\<lparr>cn_connection_send := sfc_set_max_offset (cn_connection_send d) off\<rparr>)
        \<lparr>cn_handshake := set_frame frame (cn_handshake d), cn_transport := tr_queue frame (cn_transport d)\<rparr>"
    have e: "cn_state ?e = cn_state d" "cn_role ?e = cn_role d" "cn_id ?e = cn_id d"
      by (cases m; simp)+
    have eq: "process_client_hello api P ptype hello c =
        st_then (st_when (cn_role ?e = Server) activate_crypto)
          (case s of None \<Rightarrow> st_return ()
           | Some state \<Rightarrow> st_then (schedule_handshake_timeout api) (set_state state)) ?e"
      using run Inr x
      by (cases m) (simp_all add: process_client_hello_def st_bind_run in_handshake_def in_transport_def)
    have "s = Some state \<Longrightarrow> state = Handshaking \<and> cn_state ?e = Idle" for state
      using next_states(1) run Inr x e by metis
    moreover have "c' = snd (process_client_hello api P ptype hello c)"
      using assms by simp
    ultimately have "cn_role c' = cn_role ?e \<and> cn_id c' = cn_id ?e
        \<and> (cn_state c' = cn_state ?e \<or> cn_state ?e = Idle \<and> cn_state c' = Handshaking)"
      unfolding eq by (rule client_hello_tail)
    then show ?thesis
      unfolding e d .
  qed (use run d assms in \<open>simp add: process_client_hello_def st_bind_run\<close>)
qed

lemma moves_client_hello: "steps moves_on (process_client_hello api P ptype hello)"
proof (rule stepsI)
  fix c
  show "moves_on c (snd (process_client_hello api P ptype hello c))"
    using client_hello_state [OF prod.collapse [symmetric], of api P ptype hello c] by (auto simp: moves_on_def)
qed

lemma moves_establish:
  assumes "cn_state e = Handshaking"
  shows "moves_on e (snd (st_then (set_state Established) activate_crypto e))"
proof -
  obtain d where d: "set_state Established e = (Inr (), d)" "moves_on e d"
    using moves_set_state [of e Established] assms by (auto simp: set_state_run)
  have "moves_on d (snd (activate_crypto d))"
    using moves_activate by (simp add: steps_def)
  with d show ?thesis
    using moves.trans by (auto simp: st_then_def st_bind_def)
qed

lemma moves_server_hello: "steps moves_on (process_server_hello P ptype hello)"
proof (rule stepsI)
  fix c
  obtain r d where run: "receive_server_hello P ptype hello c = (r, d)"
    by fastforce
  have same: "moves_on c d"
    using stepsD [OF stable_receives(2) run] by (rule moves_on_same)
  show "moves_on c (snd (process_server_hello P ptype hello c))"
  proof (cases r)
    case (Inr x)
    obtain frame m where x: "x = (frame, m)"
      by (cases x)
    have d: "cn_state d = Handshaking"
      using next_states(2) run Inr x by blast
    let ?e = "d\<lparr>cn_connection_send := sfc_set_max_offset (cn_connection_send d) m,
        cn_handshake := set_frame frame (cn_handshake d), cn_transport := tr_queue frame (cn_transport d),
        cn_timers := cancel_handshake (cn_timers d)\<rparr>"
    have eq: "process_server_hello P ptype hello c = st_then (set_state Established) activate_crypto ?e"
      using run Inr x by (simp add: process_server_hello_def st_bind_run in_handshake_def in_transport_def in_timers_def)
    have "moves_on d ?e"
      by (simp add: moves_on_def)
    moreover have "moves_on ?e (snd (st_then (set_state Established) activate_crypto ?e))"
      by (rule moves_establish) (use d in simp)
    ultimately show ?thesis
      unfolding eq by (rule moves.trans [OF same moves.trans])
  qed (use run same in \<open>simp add: process_server_hello_def st_bind_run\<close>)
qed

lemma moves_handshake_ack: "steps moves_on (process_handshake_ack P ptype ack)"
proof (rule stepsI)
  fix c
  obtain r d where run: "receive_handshake_ack P ptype ack c = (r, d)"
    by fastforce
  have same: "moves_on c d"
    using stepsD [OF stable_receives(3) run] by (rule moves_on_same)
  show "moves_on c (snd (process_handshake_ack P ptype ack c))"
  proof (cases r)
    case (Inr s)
    then have "s = Established" "cn_state d = Handshaking"
      using next_states(3) run by blast+
    then show ?thesis
      using same run Inr moves_establish [of d] moves.trans by (auto simp: process_handshake_ack_def st_bind_run)
  qed (use run same in \<open>simp add: process_handshake_ack_def st_bind_run\<close>)
qed

interpretation states: conn_relation moves_on "\<lambda>_ _. True" api "\<lambda>_ _. True" "\<lambda>_ _. True" P for api P
proof unfold_locales
  show "steps moves_on (set_state Closing)" "steps moves_on (set_state Closed)"
    by (rule stepsI, rule moves_set_state, case_tac "cn_state s", simp_all)+
  show "steps moves_on (decode_with_crypto P bs)" for bs
    by (auto simp: steps_def decode_with_crypto_def moves_on_def split: option.split prod.split)
qed (simp_all add: moves_on_def moves_client_hello moves_server_hello moves_handshake_ack bump_number_def transmitted_def
    recorded_def dropped_def Let_def)

section \<open>The initial connection\<close>

lemma initial_run:
  assumes "connection_initial P nonce key role cid config b = Inr c"
  obtains h t where "config_validate config = Inr ()" "timer_state_new config = Inr t"
    "handshake_new P nonce key cid config = Inr h"
    "c = \<lparr>cn_role = role, cn_id = cid, cn_config = config, cn_state = (if b then Handshaking else Idle), cn_now = 0,
       cn_streams = mgr_new (local_stream_parity role), cn_transport = transport_new config, cn_handshake = h,
       cn_packet_crypto = None, cn_timers = t, cn_output = [],
       cn_connection_send = send_flow_control_new (cfg_initial_connection_window config),
       cn_connection_receive = receive_flow_control_new (cfg_initial_connection_window config), cn_close_error = None\<rparr>"
  using assms by (auto simp: connection_initial_def and_then_def map_err_def split: sum.splits)

lemma initial_flight:
  assumes "connection_initial P nonce key role cid config b = Inr c" "cfg_max_congestion_window config \<noteq> - 1"
  shows "flight_inv c"
proof -
  obtain h t where v: "config_validate config = Inr ()" and c: "c = \<lparr>cn_role = role, cn_id = cid, cn_config = config,
       cn_state = (if b then Handshaking else Idle), cn_now = 0,
       cn_streams = mgr_new (local_stream_parity role), cn_transport = transport_new config, cn_handshake = h,
       cn_packet_crypto = None, cn_timers = t, cn_output = [],
       cn_connection_send = send_flow_control_new (cfg_initial_connection_window config),
       cn_connection_receive = receive_flow_control_new (cfg_initial_connection_window config), cn_close_error = None\<rparr>"
    using initial_run [OF assms(1)] by metis
  note V = config_validate_ok [OF v]
  have "cc_inv (tr_congestion (transport_new config))"
    using cc_inv_new order.trans [OF V(7,8)] by (simp add: transport_new_def)
  moreover have "rtt_inv (tr_rtt (transport_new config))"
    using rtt_new_inv V(10,11) by (simp add: transport_new_def)
  ultimately show ?thesis
    using V(2) assms(2) by (simp add: c flight_inv_def transport_new_def congestion_new_def)
qed

lemma initial_wheel:
  assumes "connection_initial P nonce key role cid config b = Inr c"
  shows "wheel_reachable api (ts_wheel (cn_timers c))"
proof -
  obtain h t where t: "timer_state_new config = Inr t" and c: "cn_timers c = t"
    using initial_run [OF assms] by (metis connection.select_convs(10))
  then obtain b wc where "builder_build b = Inr wc" "ts_wheel t = wheel_new wc"
    by (auto simp: timer_state_new_def config_wheel_def and_then_def map_err_def split: sum.splits)
  with c show ?thesis
    using reach_new by metis
qed

section \<open>Reachable connections\<close>

lemma sorted_join:
  fixes xs ys :: "u64 list"
  assumes "sorted_wrt (<) xs" "\<forall>n \<in> set xs. n < k" "k \<le> k'" "sorted_wrt (<) ys" "\<forall>n \<in> set ys. k \<le> n \<and> n < k'"
  shows "sorted_wrt (<) (xs @ ys) \<and> (\<forall>n \<in> set (xs @ ys). n < k')"
proof -
  have "x < y" if "x \<in> set xs" "y \<in> set ys" for x y
    using assms(2,5) that by (meson less_le_trans)
  then show ?thesis
    using assms by (auto simp: sorted_wrt_append intro: less_le_trans)
qed

lemma reachable_numbers:
  assumes "conn_reachable api P role cid config drained c"
  shows "sorted_wrt (<) (sent_numbers (drained @ cn_output c))
     \<and> (\<forall>n \<in> set (sent_numbers (drained @ cn_output c)). n < next_number c)"
  using assms
proof (induction rule: conn_reachable.induct)
  case (conn_start nonce key b c)
  then obtain c0 where "connection_initial P nonce key role cid config b = Inr c0" "sends_in_order c0 c"
    using sending.started by metis
  then show ?case
    by (auto simp: sends_in_order_def elim!: initial_run)
next
  case (conn_perform drained c call r c')
  obtain new where "cn_output c' = cn_output c @ new" "sorted_wrt (<) (sent_numbers new)"
      "\<forall>n \<in> set (sent_numbers new). next_number c \<le> n \<and> n < next_number c'" "next_number c \<le> next_number c'"
    using stepsD [OF sending.steps_perform conn_perform.hyps(2)] by (auto simp: sends_in_order_def)
  with conn_perform.IH sorted_join [of "sent_numbers (drained @ cn_output c)" "next_number c" "next_number c'" "sent_numbers new"]
  show ?case
    by simp
next
  case (conn_drain drained c out c')
  then show ?case
    using drained [OF conn_drain.hyps(2)] by simp
qed

lemma reachable_streams: "conn_reachable api P role cid config drained c \<Longrightarrow> streams_ok c"
  by (erule streams.reachable_invariant) (auto simp: streams_grow_def mgr_new_def elim!: initial_run)

lemma reachable_flight:
  assumes "conn_reachable api P role cid config drained c" "cfg_max_congestion_window config \<noteq> - 1"
  shows "flight_inv c"
  using assms(1)
proof (rule flight.reachable_invariant)
  show "flight_inv c" if "connection_initial P nonce key role cid config b = Inr c" for nonce key b c
    using initial_flight [OF that assms(2)] .
  show "flight_inv c \<Longrightarrow> flight_inv (c\<lparr>cn_output := []\<rparr>)" for c
    by (simp add: flight_inv_def)
qed (simp add: keeps_flight_def)

lemma reachable_wheel:
  assumes "conn_reachable api P role cid config drained c" "issued_keys (cn_timers c) \<le> 2 ^ 31"
  shows "wheel_reachable api (ts_wheel (cn_timers c))"
proof -
  have "issued_keys (cn_timers c) \<le> 2 ^ 31 \<longrightarrow> wheel_reachable api (ts_wheel (cn_timers c))"
    using assms(1)
    by (rule timers.reachable_invariant) (auto simp: wheel_works_def initial_wheel)
  with assms(2) show ?thesis
    by blast
qed

end
