(* ===== verification/Conn_Sample.thy ===== *)
theory Conn_Sample
  imports Conn_Properties
begin

text \<open>
  Concrete connections at which the properties of the following theories are applied: the default
  configuration without keepalive, and the primitives of \<open>sample_primitives\<close>.
\<close>

definition sample_config :: connection_config where
  "sample_config = connection_config_default\<lparr>cfg_keepalive_interval := None\<rparr>"

abbreviation sample_initial :: "connection_role \<Rightarrow> bool \<Rightarrow> core_error + connection" where
  "sample_initial role start_handshake \<equiv>
     connection_initial sample_primitives (Some (replicate 16 1)) (Some (replicate 32 2)) role 7 sample_config start_handshake"

text \<open>A wheel with the default configuration that has not been used.\<close>

definition fresh_wheel :: "'a wheel \<Rightarrow> bool" where
  "fresh_wheel w \<longleftrightarrow> (\<exists>wc. builder_build default_wheel_builder = Inr wc \<and> w = wheel_new wc)"

lemma sample_connection:
  obtains c h where "sample_initial role b = Inr c" "fresh_wheel (ts_wheel (cn_timers c))" "ts_idle (cn_timers c) = None"
    "cn_config c = sample_config" "cn_role c = role" "cn_id c = 7" "cn_state c = (if b then Handshaking else Idle)"
    "cn_packet_crypto c = None" "cn_transport c = transport_new sample_config" "cn_handshake c = h"
    "hs_key_pair h = \<lparr>kp_secret = replicate 32 2, kp_public_key = replicate 32 2\<rparr>" "hs_local_nonce h = replicate 16 1"
    "hs_connection_id h = 7" "hs_peer_client_nonce h = None" "hs_client_nonce h = None"
proof -
  obtain wc where wc: "builder_build default_wheel_builder = Inr wc"
    using default_wheel_builds by blast
  have cw: "config_wheel sample_config = Inr wc"
    using wc by (simp add: config_wheel_def sample_config_def connection_config_default_def default_wheel_builder_def
        DEFAULT_BASE_TICK_def map_err_def)
  have valid: "config_validate sample_config = Inr ()"
    by (simp add: config_validate_def sample_config_def connection_config_default_def DEFAULT_MAX_DATAGRAM_SIZE_def
        FIXED_HEADER_LEN_def MAX_COOKIE_LEN_def)
  have public: "x25519_public sample_primitives s = s" for s
    by (simp add: sample_primitives_def)
  show thesis
    using that [of _ _] valid cw wc
    by (simp add: connection_initial_def map_err_def and_then_def handshake_new_def ephemeral_generate_def
        ok_or_def timer_state_new_def fresh_wheel_def public)
qed

lemma fresh_deadline:
  assumes "fresh_wheel w" "delay \<le> 10 ^ 12"
  shows "\<exists>d. deadline_after w delay = Inr d"
proof -
  obtain wc where wc: "builder_build default_wheel_builder = Inr wc" and w: "w = wheel_new wc"
    using assms(1) by (auto simp: fresh_wheel_def)
  have base: "unat (wc_base_tick_nanos wc) = 10000000"
    using builder_build_ok(7) [OF wc]
    by (simp add: default_wheel_builder_def builder_level_slots_def builder_base_tick_def DEFAULT_BASE_TICK_def)
  have "(delay + 9999999) div 10000000 \<le> (10 ^ 12 + 9999999) div 10000000"
    using assms(2) by (intro div_le_mono) simp
  moreover have "unat (n :: u64) < 18446744073709551616" for n
    using unsigned_less [of n, where 'a = nat] by simp
  ultimately show ?thesis
    by (auto simp: deadline_after_def w wheel_new_def base checked_add_def ok_or_def and_then_def)
qed

lemma fresh_insert:
  assumes "fresh_wheel w" "delay \<le> 10 ^ 12"
  obtains k w' where "wheel_insert first_free_api item delay w = (Inr k, w')" "sm_issued (wh_tasks w') = [k]"
proof -
  obtain wc where wc: "builder_build default_wheel_builder = Inr wc" and w: "w = wheel_new wc"
    using assms(1) by (auto simp: fresh_wheel_def)
  obtain d where d: "deadline_after w delay = Inr d"
    using fresh_deadline [OF assms] by blast
  have none: "sm_issued (wh_tasks w) = []"
    by (simp add: w wheel_new_def sm_new_def)
  then have "length (sm_issued (wh_tasks w)) < 2 ^ 31"
    by simp
  from insert_ok [OF new_wheel_ok(1) [OF wc w] first_free_laws this d, of item] that none show thesis
    by (metis list.size(3))
qed

lemma idle_timer_starts:
  assumes "fresh_wheel (ts_wheel (cn_timers c))" "ts_idle (cn_timers c) = None" "cn_config c = sample_config"
  obtains t where "reset_idle_timer first_free_api c = (Inr (), c\<lparr>cn_timers := t\<rparr>)" "issued_keys t = 1"
proof -
  have delay: "cfg_idle_timeout sample_config = 30000000000"
    by (simp add: sample_config_def connection_config_default_def)
  obtain k w where w: "wheel_insert first_free_api IdleTimeout 30000000000 (ts_wheel (cn_timers c)) = (Inr k, w)"
    "sm_issued (wh_tasks w) = [k]"
    using fresh_insert [OF assms(1), of 30000000000 IdleTimeout] by auto
  have "reset_idle_timer first_free_api c = (Inr (), c\<lparr>cn_timers := (cn_timers c)\<lparr>ts_wheel := w, ts_idle := Some k\<rparr>\<rparr>)"
    using w assms(2,3) delay
    by (simp add: reset_idle_timer_def on_timers_def st_field_def schedule_idle_def tm_schedule_def
        st_then_def st_bind_def cancel_slot_def map_err_def)
  from that [OF this] w(2) show thesis
    by simp
qed

text \<open>A server that has been constructed, and is therefore reachable.\<close>

lemma sample_server:
  obtains c where "conn_reachable first_free_api sample_primitives Server 7 sample_config [] c"
    "cn_state c = Idle" "cn_id c = 7" "issued_keys (cn_timers c) = 1"
proof -
  obtain c0 where c0: "sample_initial Server False = Inr c0" "fresh_wheel (ts_wheel (cn_timers c0))" "ts_idle (cn_timers c0) = None"
    "cn_config c0 = sample_config" "cn_state c0 = Idle" "cn_id c0 = 7"
    using sample_connection [of Server False] by (metis (full_types))
  obtain t where t: "reset_idle_timer first_free_api c0 = (Inr (), c0\<lparr>cn_timers := t\<rparr>)" "issued_keys t = 1"
    using idle_timer_starts [OF c0(2,3,4)] by blast
  have "cfg_keepalive_interval sample_config = None"
    by (simp add: sample_config_def)
  then have "connection_start first_free_api False c0 = (Inr (), c0\<lparr>cn_timers := t\<rparr>)"
    using t(1) c0(4) by (simp add: connection_start_def st_then_def st_bind_def)
  then have "connection_new first_free_api sample_primitives (Some (replicate 16 1)) (Some (replicate 32 2)) Server 7
      sample_config False = Inr (c0\<lparr>cn_timers := t\<rparr>)"
    using c0(1) by (simp add: connection_new_def map_err_def and_then_def)
  from that [OF conn_start [OF this]] c0(5,6) t(2) show thesis
    by simp
qed

end
