(* ===== verification/Conn_Theorems.thy ===== *)
theory Conn_Theorems
  imports Conn_Sample
begin

text \<open>
  What a connection promises, for every sequence of calls: its packet numbers, the packets in flight, that
  each call returns, the order of its states, and what it does with datagrams it does not accept.
\<close>

section \<open>Properties\<close>

text \<open>C1. Packet numbers are never reused: over the whole life of a connection, through any sequence of calls
  that succeed or fail, the packets handed out for sending carry strictly ascending numbers, all below the
  next number to be used. The number is the nonce of the packet protection, so no nonce is used twice under
  a key.\<close>

theorem packet_numbers_never_reused:
  assumes "conn_reachable api P role cid config drained c"
  shows "sorted_wrt (<) (sent_numbers (drained @ cn_output c))
     \<and> (\<forall>n \<in> set (sent_numbers (drained @ cn_output c)). n < tr_next_packet_number (cn_transport c))"
  using reachable_numbers [OF assms] .

theorem packet_numbers_never_reused_witness:
  "\<exists>c. conn_reachable first_free_api sample_primitives Server 7 sample_config [] c
     \<and> sorted_wrt (<) (sent_numbers ([] @ cn_output c))"
proof -
  obtain c where c: "conn_reachable first_free_api sample_primitives Server 7 sample_config [] c"
    by (rule sample_server)
  from packet_numbers_never_reused [OF this] c show ?thesis
    by blast
qed

text \<open>C17. Packets in flight: in every reachable state the recorded packets are in the order of their numbers,
  each below the next number and sent in the past; congestion control counts exactly the bytes of the
  recorded packets, which never exceed the maximal window; the window and the retransmission timeout
  are within their configured bounds.\<close>

theorem packets_in_flight_accounted:
  assumes "conn_reachable api P role cid config drained c" "cfg_max_congestion_window config \<noteq> - 1"
  shows "bt_inv (tr_sent (cn_transport c))
     \<and> (\<forall>(pn, p) \<in> set (tr_sent (cn_transport c)).
          pn < tr_next_packet_number (cn_transport c) \<and> sp_packet_number p = pn \<and> sp_sent_at p \<le> cn_now c)
     \<and> unat (bytes_in_flight (tr_congestion (cn_transport c)))
         = sum_list (map (\<lambda>(_, p). sp_encoded_len p) (tr_sent (cn_transport c)))
     \<and> bytes_in_flight (tr_congestion (cn_transport c)) \<le> max_cwnd (tr_congestion (cn_transport c))
     \<and> cc_inv (tr_congestion (cn_transport c)) \<and> rtt_inv (tr_rtt (cn_transport c))"
  using reachable_flight [OF assms] by (simp add: flight_inv_def)

theorem packets_in_flight_accounted_witness:
  "\<exists>c. conn_reachable first_free_api sample_primitives Server 7 sample_config [] c
     \<and> cc_inv (tr_congestion (cn_transport c)) \<and> rtt_inv (tr_rtt (cn_transport c))"
proof -
  obtain c where c: "conn_reachable first_free_api sample_primitives Server 7 sample_config [] c"
    by (rule sample_server)
  have "cfg_max_congestion_window sample_config \<noteq> - 1"
    by (simp add: sample_config_def connection_config_default_def)
  from packets_in_flight_accounted [OF c this] c show ?thesis
    by blast
qed

text \<open>C16. Every call returns: on every reachable connection that has used at most \<open>2 ^ 31\<close> timer keys, each call
  of the API ends, with success, with an error or with the panic of an overflowing \<open>Duration\<close>; it never
  runs forever: the loop of \<open>flush\<close> runs out of frames and no list of the timing wheel is cyclic.\<close>

theorem calls_return:
  assumes "conn_reachable api P role cid config drained c" "slotmap_laws api"
    and "length (sm_issued (wh_tasks (ts_wheel (cn_timers c)))) \<le> 2 ^ 31"
  shows "fst (perform api P call c) \<noteq> Inl Endless"
proof -
  have ok: "streams_ok c" and wheel: "wheel_reachable api (ts_wheel (cn_timers c))"
    using reachable_streams reachable_wheel assms by blast+
  have returned: "fst (m c) \<noteq> Inl Endless" if "returns m" for m :: "unit conn_op"
    using that ok by (simp add: returns_def)
  show ?thesis
  proof (cases call)
    case (Advance elapsed)
    then show ?thesis
      using returns_advance_time [OF assms(2) wheel ok] by simp
  qed (auto intro!: returned returns_on_datagram_bytes returns_on_datagram returns_close returns_bind returns_streams
      returns_basic simp del: st_run)
qed

theorem calls_return_witness:
  "\<exists>c. conn_reachable first_free_api sample_primitives Server 7 sample_config [] c
     \<and> fst (perform first_free_api sample_primitives (Advance 40000000000) c) \<noteq> Inl Endless"
proof -
  obtain c where c: "conn_reachable first_free_api sample_primitives Server 7 sample_config [] c"
    and n: "issued_keys (cn_timers c) = 1"
    by (rule sample_server)
  then have "length (sm_issued (wh_tasks (ts_wheel (cn_timers c)))) \<le> 2 ^ 31"
    by simp
  from calls_return [OF c first_free_laws this] c show ?thesis
    by blast
qed

text \<open>A closed connection stays closed through every call but the clock.\<close>

lemma closed_stays:
  assumes "cn_state c = Closed" "\<nexists>elapsed. call = Advance elapsed" "perform api P call c = (r, c')"
  shows "cn_state c' = Closed"
proof (cases call)
  case (Receive bs)
  have "cn_state d' = Closed" if "on_datagram api P packet d = (x, d')" "cn_state d = Closed" for packet d x d'
    using that by (simp add: on_datagram_def core_fail_def)
  moreover have "cn_state d = Closed" if "decode_with_crypto P bs c = (x, d)" for x d
    using that assms(1) by (auto simp: decode_with_crypto_def split: option.splits prod.splits)
  ultimately show ?thesis
    using assms Receive
    by (auto simp: on_datagram_bytes_def st_bind_def lift_core_def split: sum.splits prod.splits if_splits)
next
  case (ReadStream sid n)
  have "steps same_state (read_stream api sid n)"
    unfolding read_stream_def
    by (intro stable.conn_intros stable.conn_ops stable.steps_on_streams sending.mg.steps_records(2) stable.steps_event
        stable.steps_flush) simp_all
  then have "steps same_state (perform api P call)"
    unfolding ReadStream perform.simps by (intro stable.conn_intros)
  from stepsD [OF this assms(3)] assms(1) show ?thesis
    by (simp add: same_state_def)
qed (use assms in \<open>auto simp: on_datagram_def open_stream_def write_stream_def ensure_established_def close_def
    core_fail_def st_bind_def st_then_def\<close>)

lemma level_phase: "s \<noteq> Closed \<Longrightarrow> state_level s = state_phase s" "state_phase s \<le> state_level s" "state_level s \<le> state_level Closed"
  by (cases s; simp)+

text \<open>C18. States only move on: every call, whether it succeeds or fails, leaves the connection in the state it
  was in or moves it on in the order \<open>Idle\<close>, \<open>Handshaking\<close>, \<open>Established\<close>, \<open>Closing\<close>, \<open>Closed\<close>, with one exception that the
  code allows: advancing the clock can move a \<open>Closed\<close> connection back to \<open>Closing\<close>, when a packet reaches its
  retransmission limit in the same step as the close timeout. The role and the identifier of the connection
  never change.\<close>

theorem states_only_move_on:
  assumes "conn_reachable api P role cid config drained c" "perform api P call c = (r, c')"
  shows "(state_level (cn_state c) \<le> state_level (cn_state c')
       \<or> (\<exists>elapsed. call = Advance elapsed) \<and> cn_state c = Closed \<and> cn_state c' = Closing)
     \<and> cn_role c' = role \<and> cn_id c' = cid"
proof -
  have "cn_role c = role \<and> cn_id c = cid"
    using assms(1)
    by (rule states.reachable_invariant) (auto simp: moves_on_def elim!: initial_run)
  moreover have moves: "moves_on c c'"
    using stepsD [OF states.steps_perform assms(2)] .
  moreover have "state_level (cn_state c) \<le> state_level (cn_state c')" if "cn_state c \<noteq> Closed"
    using moves level_phase(1) [OF that] level_phase(2) [of "cn_state c'"] by (simp add: moves_on_def)
  moreover have "cn_state c' \<in> {Closing, Closed}" if "cn_state c = Closed"
    using moves that by (cases "cn_state c'") (simp_all add: moves_on_def)
  moreover have "\<exists>elapsed. call = Advance elapsed" if "cn_state c = Closed" "cn_state c' \<noteq> Closed"
    using closed_stays [OF that(1) _ assms(2)] that(2) by blast
  ultimately show ?thesis
    by (cases "cn_state c = Closed") (auto simp: moves_on_def)
qed

theorem states_only_move_on_witness:
  "\<exists>c r c'. conn_reachable first_free_api sample_primitives Server 7 sample_config [] c
     \<and> perform first_free_api sample_primitives OpenStream c = (r, c') \<and> cn_role c' = Server \<and> cn_id c' = 7"
proof -
  obtain c where c: "conn_reachable first_free_api sample_primitives Server 7 sample_config [] c"
    by (rule sample_server)
  obtain r c' where run: "perform first_free_api sample_primitives OpenStream c = (r, c')"
    by fastforce
  from states_only_move_on [OF c run] c run show ?thesis
    by blast
qed

lemma decoded_flags:
  assumes "decode_encrypted_packet P bs limit crypto = (Inr packet, crypto')"
  shows "\<exists>flags. peek_packet_flags bs limit = Inr flags \<and> flags_contains flags ENCRYPTED"
  using assms
  by (auto simp: decode_encrypted_packet_def peek_packet_flags_def and_then_def split: sum.splits if_splits)

text \<open>Data and close packets change neither the configuration nor the packet protection: the frames of the
  handshake are refused in them.\<close>

definition same_session :: "connection \<Rightarrow> connection \<Rightarrow> bool" where
  "same_session c c' \<longleftrightarrow> cn_config c' = cn_config c \<and> cn_packet_crypto c' = cn_packet_crypto c"

interpretation session: conn_frames same_session "\<lambda>_ _. True" api "\<lambda>_ _. True" "\<lambda>_ _. True" P ptype
  "{f. ptype \<in> {Data_PT, Close_PT}}" for api P ptype
proof unfold_locales
  show "steps same_session (set_state Closing)" "steps same_session (set_state Closed)"
    by (simp_all add: steps_def set_state_run same_session_def)
qed (auto simp: same_session_def steps_def process_client_hello_def receive_client_hello_def process_server_hello_def
    receive_server_hello_def process_handshake_ack_def receive_handshake_ack_def process_retry_def receive_retry_def
    core_fail_def st_bind_def bump_number_def transmitted_def recorded_def dropped_def Let_def)

text \<open>C2. Sealed packets reach the peer, once: let one end of a session, established or closing, encode a data or
  close packet with well-formed frames. The other end, if both work with the same datagram limit and its
  replay window would accept the number, handles the datagram as the same packet, with the encryption flag
  set and with the delays of ACK frames truncated to whole microseconds. In the state that this leaves,
  whether the packet was accepted or led to an error, the same datagram is refused as a replay and changes
  nothing.\<close>

theorem sealed_packet_handled_once:
  assumes "aead_correct P" "valid_packet (wire_packet packet)" "pkt_type packet \<in> {Data_PT, Close_PT}"
    and a: "cn_packet_crypto a = Some ka" "cn_state a \<in> {Established, Closing}"
    and b: "cn_packet_crypto b = Some kb" "cfg_max_datagram_size (cn_config b) = cfg_max_datagram_size (cn_config a)"
    and "session_ends ka kb" "connection_encode_packet P a packet = Inr bs"
    and replay: "replay_rel (pc_replay kb) S" "replay_spec S (pkt_number packet) = Inr ()"
    and first: "on_datagram_bytes api P bs b = (r, c)"
  shows "(\<exists>kb'. on_datagram api P ((wire_packet packet)\<lparr>pkt_flags := pkt_flags packet OR ENCRYPTED\<rparr>)
         (b\<lparr>cn_packet_crypto := Some kb'\<rparr>) = (r, c))
     \<and> (\<exists>e. on_datagram_bytes api P bs c = (Inl (Stop (Protocol (Crypto (Replay e)))), c))"
proof -
  let ?limit = "cfg_max_datagram_size (cn_config a)"
  let ?packet = "(wire_packet packet)\<lparr>pkt_flags := pkt_flags packet OR ENCRYPTED\<rparr>"
  have enc: "encode_packet_with_crypto P packet ?limit ka = Inr bs"
    using assms(3,9) a by (auto simp: connection_encode_packet_def map_err_def split: sum.splits)
  obtain kb' e where once: "decode_encrypted_packet P bs ?limit kb = (Inr ?packet, kb')"
    and again: "decode_encrypted_packet P bs ?limit kb' = (Inl (Crypto (Replay e)), kb')"
    using sealed_once [OF assms(1,8,2) enc replay] by blast
  obtain flags where flags: "peek_packet_flags bs ?limit = Inr flags" "flags_contains flags ENCRYPTED"
    using decoded_flags [OF once] by blast
  have run: "on_datagram api P ?packet (b\<lparr>cn_packet_crypto := Some kb'\<rparr>) = (r, c)"
    using flags once b first
    by (simp add: on_datagram_bytes_def lift_core_def map_err_def decode_with_crypto_def st_bind_def)
  have "same_session (b\<lparr>cn_packet_crypto := Some kb'\<rparr>) c"
    by (rule stepsD [OF session.steps_packet run]) (use assms(3) in auto)
  then have "cn_config c = cn_config b" "cn_packet_crypto c = Some kb'"
    by (simp_all add: same_session_def)
  then have "on_datagram_bytes api P bs c = (Inl (Stop (Protocol (Crypto (Replay e)))), c)"
    using flags again b by (simp add: on_datagram_bytes_def lift_core_def map_err_def decode_with_crypto_def st_bind_def)
  with run show ?thesis
    by blast
qed

theorem sealed_packet_handled_once_witness:
  "\<exists>(b :: connection) bs packet kb' r c e. pkt_type packet = Data_PT
     \<and> on_datagram_bytes first_free_api sample_primitives bs b = (r, c)
     \<and> on_datagram first_free_api sample_primitives packet (b\<lparr>cn_packet_crypto := Some kb'\<rparr>) = (r, c)
     \<and> on_datagram_bytes first_free_api sample_primitives bs c = (Inl (Stop (Protocol (Crypto (Replay e)))), c)"
proof -
  obtain c :: connection where conf: "cn_config c = sample_config"
    by (rule sample_connection [of Client True])
  let ?ka = "packet_crypto_new Client_CR sample_keys" and ?kb = "packet_crypto_new Server_CR sample_keys"
  let ?a = "c\<lparr>cn_packet_crypto := Some ?ka, cn_state := Established\<rparr>" and ?b = "c\<lparr>cn_packet_crypto := Some ?kb\<rparr>"
  obtain bs where bs: "encode_packet_with_crypto sample_primitives sample_packet 1200 ?ka = Inr bs"
    using sample_packet_encrypts by blast
  have type: "pkt_type sample_packet = Data_PT"
    by (simp add: sample_packet_def)
  have valid: "valid_packet (wire_packet sample_packet)"
    using sample_packet_valid wire_packet_valid by simp
  obtain r d where first: "on_datagram_bytes first_free_api sample_primitives bs ?b = (r, d)"
    by fastforce
  have "connection_encode_packet sample_primitives ?a sample_packet = Inr bs"
    using bs type conf by (simp add: connection_encode_packet_def sample_config_def connection_config_default_def
        DEFAULT_MAX_DATAGRAM_SIZE_def map_err_def)
  moreover have "replay_rel (pc_replay ?kb) {}"
    using window.start by (simp add: packet_crypto_new_def)
  moreover have "replay_spec {} (pkt_number sample_packet) = Inr ()"
    by (simp add: replay_spec_def)
  ultimately obtain kb' e where "on_datagram first_free_api sample_primitives
      ((wire_packet sample_packet)\<lparr>pkt_flags := pkt_flags sample_packet OR ENCRYPTED\<rparr>) (?b\<lparr>cn_packet_crypto := Some kb'\<rparr>) = (r, d)"
    "on_datagram_bytes first_free_api sample_primitives bs d = (Inl (Stop (Protocol (Crypto (Replay e)))), d)"
    using sealed_packet_handled_once [OF sample_primitives_laws(1) valid, of ?a ?ka ?b ?kb bs "{}" first_free_api r d]
      first type sample_ends [of sample_keys] by auto
  then show ?thesis
    using type first
    by (intro exI [of _ ?b] exI [of _ bs] exI [of _ "(wire_packet sample_packet)\<lparr>pkt_flags := pkt_flags sample_packet OR ENCRYPTED\<rparr>"]
        exI [of _ kb'] exI [of _ r] exI [of _ d] exI [of _ e]) simp
qed

lemma plain_flags:
  assumes "decode_packet bs limit = Inr packet"
  shows "\<exists>flags. peek_packet_flags bs limit = Inr flags \<and> \<not> flags_contains flags ENCRYPTED"
  using assms
  by (auto simp: decode_packet_def decode_plain_packet_def peek_packet_flags_def and_then_def Let_def split: sum.splits if_splits)

text \<open>C14. Packets in the clear are handled like sealed ones: in every state, with or without session keys, the
  plain encoding of a packet with well-formed frames, which anybody can produce, is handled as that packet
  (with the delays of ACK frames truncated to whole microseconds); the session keys and the
  replay window play no part. So an established connection acts on data and close packets that carry no
  proof of their origin.\<close>

theorem plain_packet_handled:
  assumes "valid_packet (wire_packet packet)" "encode_packet packet (cfg_max_datagram_size (cn_config c)) = Inr bs"
  shows "on_datagram_bytes api P bs c = on_datagram api P (wire_packet packet) c"
proof -
  have dec: "decode_packet bs (cfg_max_datagram_size (cn_config c)) = Inr (wire_packet packet)"
    by (rule decode_encode_wire [OF assms])
  then obtain flags where "peek_packet_flags bs (cfg_max_datagram_size (cn_config c)) = Inr flags"
    "\<not> flags_contains flags ENCRYPTED"
    using plain_flags by blast
  with dec show ?thesis
    by (simp add: on_datagram_bytes_def lift_core_def map_err_def st_bind_def)
qed

theorem plain_packet_handled_witness:
  "\<exists>(c :: connection) bs. cn_state c = Established \<and> cn_packet_crypto c = Some (packet_crypto_new Server_CR sample_keys)
     \<and> on_datagram_bytes first_free_api sample_primitives bs c = on_datagram first_free_api sample_primitives sample_packet c"
proof -
  obtain c :: connection where conf: "cn_config c = sample_config"
    by (rule sample_connection [of Server False])
  let ?c = "c\<lparr>cn_state := Established, cn_packet_crypto := Some (packet_crypto_new Server_CR sample_keys)\<rparr>"
  have limit: "cfg_max_datagram_size (cn_config ?c) = 1200"
    using conf by (simp add: sample_config_def connection_config_default_def DEFAULT_MAX_DATAGRAM_SIZE_def)
  obtain bs where "encode_packet sample_packet 1200 = Inr bs"
    using sample_packet_encodes by blast
  then have "on_datagram_bytes first_free_api sample_primitives bs ?c = on_datagram first_free_api sample_primitives sample_packet ?c"
    using plain_packet_handled [of sample_packet ?c bs first_free_api sample_primitives] limit sample_packet_valid
      wire_packet_valid by simp
  then show ?thesis
    by (intro exI [of _ ?c] exI [of _ bs]) simp
qed

end
