(* ===== verification/Conn_Handshake.thy ===== *)
theory Conn_Handshake
  imports Conn_Sample
begin

text \<open>
  The handshake: a connection is established only on the strength of a Finished tag that verifies under keys
  agreed with its own key pair, and two honest ends that exchange their hellos agree on the keys.
\<close>

section \<open>What establishes a connection\<close>

text \<open>The frame carries the Finished tag of the peer, and it verifies under the keys of the connection.\<close>

definition proves_finished :: "primitives \<Rightarrow> connection \<Rightarrow> packet_type \<Rightarrow> frame \<Rightarrow> bool" where
  "proves_finished P c ptype f \<longleftrightarrow> ptype = Handshake_PT \<and> cn_state c = Handshaking \<and>
     (case f of
        ServerHello hello \<Rightarrow> cn_role c = Client \<and>
          (\<exists>nonce secret keys transcript. hs_client_nonce (cn_handshake c) = Some nonce
             \<and> transcript = handshake_transcript_hash P (hs_connection_id (cn_handshake c)) nonce
                 (sh_server_nonce hello) (kp_public_key (hs_key_pair (cn_handshake c))) (sh_server_public_key hello)
             \<and> ephemeral_agree P (hs_key_pair (cn_handshake c)) (sh_server_public_key hello) = Inr secret
             \<and> derive_session_keys P secret transcript = Inr keys
             \<and> verify_finished P keys Server_CR transcript (sh_server_finished hello) = Inr ())
      | HandshakeAck ack \<Rightarrow> cn_role c = Server \<and> ha_cookie ack = hs_peer_cookie (cn_handshake c) \<and>
          (\<exists>keys transcript. hs_session_keys (cn_handshake c) = Some keys
             \<and> hs_transcript_hash (cn_handshake c) = Some transcript
             \<and> verify_finished P keys Client_CR transcript (ha_client_finished ack) = Inr ())
      | _ \<Rightarrow> False)"

lemma lift_core_Inr: "lift_core r c = (Inr x, d) \<longleftrightarrow> r = Inr x \<and> d = c"
  by (cases r) (auto simp: lift_core_def map_err_def)

lemma crypto_result_Inr: "crypto_result r c = (Inr x, d) \<longleftrightarrow> r = Inr x \<and> d = c"
  by (cases r) (auto simp: crypto_result_def lift_core_Inr map_err_def)

lemma ok_or_Inr: "ok_or e r = Inr x \<longleftrightarrow> r = Some x"
  by (cases r) (simp_all add: ok_or_def)

lemma core_fail_run: "core_fail e c = (Inl (Stop e), c)"
  by (simp add: core_fail_def)

lemmas run_simps = st_bind_eq_Inr st_then_def lift_core_Inr crypto_result_Inr ok_or_Inr core_fail_run
  in_handshake_def in_config_def in_timers_def in_transport_def

lemma server_hello_proves:
  assumes "receive_server_hello P ptype hello c = (Inr x, d)"
  shows "proves_finished P c ptype (ServerHello hello)"
  using assms
  by (auto simp: receive_server_hello_def run_simps Let_def learn_limits_def proves_finished_def split: if_splits)

lemma handshake_ack_proves:
  assumes "receive_handshake_ack P ptype ack c = (Inr x, d)"
  shows "proves_finished P c ptype (HandshakeAck ack)"
  using assms
  by (auto simp: receive_handshake_ack_def run_simps proves_finished_def split: if_splits)

text \<open>The parts of the handshake that the verification of a Finished tag looks at.\<close>

definition same_proof :: "connection \<Rightarrow> connection \<Rightarrow> bool" where
  "same_proof c c' \<longleftrightarrow> cn_role c' = cn_role c
     \<and> hs_connection_id (cn_handshake c') = hs_connection_id (cn_handshake c)
     \<and> hs_key_pair (cn_handshake c') = hs_key_pair (cn_handshake c)
     \<and> hs_client_nonce (cn_handshake c') = hs_client_nonce (cn_handshake c)
     \<and> hs_session_keys (cn_handshake c') = hs_session_keys (cn_handshake c)
     \<and> hs_transcript_hash (cn_handshake c') = hs_transcript_hash (cn_handshake c)
     \<and> (cn_role c = Server \<longrightarrow> hs_peer_cookie (cn_handshake c') = hs_peer_cookie (cn_handshake c))"

lemma proves_same:
  assumes "same_proof c c'" "cn_state c' = cn_state c" "proves_finished P c' ptype f"
  shows "proves_finished P c ptype f"
  using assms by (cases f) (auto simp: proves_finished_def same_proof_def)

text \<open>The connection gets established only by a frame that proves itself to the connection as it was at first.\<close>

definition establishes_by :: "primitives \<Rightarrow> packet_type \<Rightarrow> frame set \<Rightarrow> connection \<Rightarrow> connection \<Rightarrow> bool" where
  "establishes_by P ptype F c c' \<longleftrightarrow> (\<exists>f \<in> F. proves_finished P c ptype f) \<or>
     (cn_state c' = Established \<longrightarrow> cn_state c = Established) \<and>
     (ptype = Handshake_PT \<longrightarrow> (cn_state c' = cn_state c \<or> cn_state c' \<in> {Closing, Closed}) \<and> same_proof c c')"

lemma establishes_trans:
  assumes "establishes_by P ptype F a b" "establishes_by P ptype F b c"
  shows "establishes_by P ptype F a c"
proof (cases "\<exists>f \<in> F. proves_finished P a ptype f")
  case False
  have "\<not> proves_finished P b ptype f" if "f \<in> F" for f
  proof
    assume b: "proves_finished P b ptype f"
    then have "ptype = Handshake_PT" "cn_state b = Handshaking"
      by (simp_all add: proves_finished_def)
    then have "same_proof a b" "cn_state b = cn_state a"
      using assms(1) False by (auto simp: establishes_by_def)
    then show False
      using proves_same b False that by blast
  qed
  then show ?thesis
    using assms False by (auto simp: establishes_by_def same_proof_def)
qed (simp add: establishes_by_def)

lemma establishes_keep: "cn_state c' = cn_state c \<Longrightarrow> same_proof c c' \<Longrightarrow> establishes_by P ptype F c c'"
  by (simp add: establishes_by_def)

lemma same_proof_refl: "same_proof c c"
  by (simp add: same_proof_def)

lemma client_hello_establishes: "steps (establishes_by P ptype F) (process_client_hello api P ptype hello)"
proof (rule stepsI)
  fix c
  show "establishes_by P ptype F c (snd (process_client_hello api P ptype hello c))"
  proof (cases "ptype = Handshake_PT")
    case True
    then show ?thesis
      by (simp add: process_client_hello_def receive_client_hello_def core_fail_def st_bind_def establishes_keep same_proof_refl)
  next
    case False
    then show ?thesis
      using client_hello_state [OF prod.collapse [symmetric], of api P ptype hello c] by (auto simp: establishes_by_def)
  qed
qed

lemma server_hello_failed:
  assumes "receive_server_hello P ptype hello c = (Inl e, d)"
  shows "cn_state d = cn_state c \<and> same_proof c d"
  using assms
  by (auto simp: receive_server_hello_def st_bind_def st_then_def lift_core_def crypto_result_def core_fail_def Let_def
      in_handshake_def in_config_def learn_limits_def same_proof_def split: sum.splits if_splits)

lemma server_hello_establishes:
  assumes "ServerHello hello \<in> F"
  shows "steps (establishes_by P ptype F) (process_server_hello P ptype hello)"
proof (rule stepsI)
  fix c
  obtain r d where run: "receive_server_hello P ptype hello c = (r, d)"
    by fastforce
  show "establishes_by P ptype F c (snd (process_server_hello P ptype hello c))"
  proof (cases r)
    case Inl
    with run show ?thesis
      using server_hello_failed by (auto simp: process_server_hello_def st_bind_run intro: establishes_keep)
  next
    case (Inr x)
    then show ?thesis
      using server_hello_proves [OF run [unfolded Inr]] assms unfolding establishes_by_def by blast
  qed
qed

lemma handshake_ack_establishes:
  assumes "HandshakeAck ack \<in> F"
  shows "steps (establishes_by P ptype F) (process_handshake_ack P ptype ack)"
proof (rule stepsI)
  fix c
  obtain r d where run: "receive_handshake_ack P ptype ack c = (r, d)"
    by fastforce
  show "establishes_by P ptype F c (snd (process_handshake_ack P ptype ack c))"
  proof (cases r)
    case Inl
    then have "d = c"
      using run by (auto simp: receive_handshake_ack_def st_bind_def st_then_def lift_core_def crypto_result_def
          core_fail_def in_timers_def split: sum.splits if_splits)
    with Inl run show ?thesis
      by (simp add: process_handshake_ack_def st_bind_run establishes_keep same_proof_refl)
  next
    case (Inr x)
    then show ?thesis
      using handshake_ack_proves [OF run [unfolded Inr]] assms unfolding establishes_by_def by blast
  qed
qed

lemma retry_establishes: "steps (establishes_by P ptype F) (process_retry api ptype retry)"
proof (cases "ptype = Handshake_PT")
  case True
  then show ?thesis
    by (simp add: steps_def process_retry_def receive_retry_def core_fail_def st_bind_def establishes_keep same_proof_refl)
next
  case False
  have "steps same_state (process_retry api ptype retry)"
    unfolding process_retry_def receive_retry_def schedule_handshake_timeout_def
    by (intro stable.conn_intros stable.conn_ops) simp_all
  with False show ?thesis
    by (simp add: steps_def same_state_def establishes_by_def)
qed

interpretation establishing: conn_frames "establishes_by P ptype F" "\<lambda>_ _. True" api "\<lambda>_ _. True" "\<lambda>_ _. True" P ptype F
  for P ptype F api
proof unfold_locales
  show "steps (establishes_by P ptype F) (set_state Closing)" "steps (establishes_by P ptype F) (set_state Closed)"
    by (auto simp: steps_def establishes_by_def set_state_run same_proof_def)
qed (auto simp: bump_number_def transmitted_def recorded_def dropped_def Let_def same_proof_def
    intro: establishes_keep establishes_trans client_hello_establishes server_hello_establishes handshake_ack_establishes
      retry_establishes)

section \<open>Both ends\<close>

text \<open>HMAC takes keys of any length: the primitive does not fail.\<close>

definition hmac_total :: "primitives \<Rightarrow> bool" where
  "hmac_total P \<longleftrightarrow> (\<forall>key message. hmac_sha256 P key message \<noteq> None)"

text \<open>A key pair as \<open>EphemeralKeyPair::generate\<close> makes it.\<close>

definition generated :: "primitives \<Rightarrow> ephemeral_key_pair \<Rightarrow> bool" where
  "generated P kp \<longleftrightarrow> kp_public_key kp = x25519_public P (kp_secret kp)"

lemma finished_tag_total: "hmac_total P \<Longrightarrow> \<exists>tag. finished_tag P keys role transcript = Inr tag"
  by (auto simp: hmac_total_def finished_tag_def and_then_def ok_or_def split: option.splits sum.splits)

lemma verify_own_tag: "finished_tag P keys role transcript = Inr tag \<Longrightarrow> verify_finished P keys role transcript tag = Inr ()"
  by (simp add: verify_finished_def and_then_def)

lemma agree_both:
  assumes "key_exchange_agrees P" "generated P a" "generated P b" "ephemeral_agree P b (kp_public_key a) = Inr secret"
  shows "ephemeral_agree P a (kp_public_key b) = Inr secret"
  using assms by (auto simp: key_exchange_agrees_def generated_def ephemeral_agree_def Let_def split: if_splits)

text \<open>A server that accepts a hello while it is idle: what it has computed and what it answers.\<close>

abbreviation hello_transcript :: "primitives \<Rightarrow> handshake_state \<Rightarrow> client_hello \<Rightarrow> bytes" where
  "hello_transcript P h hello \<equiv> handshake_transcript_hash P (hs_connection_id h) (ch_client_nonce hello)
     (hs_local_nonce h) (ch_client_public_key hello) (kp_public_key (hs_key_pair h))"

definition answered :: "primitives \<Rightarrow> handshake_state \<Rightarrow> client_hello \<Rightarrow> session_keys \<Rightarrow> frame \<Rightarrow> handshake_state \<Rightarrow> bool" where
  "answered P h hello keys f h' \<longleftrightarrow>
     (\<exists>secret tag sh. ephemeral_agree P (hs_key_pair h) (ch_client_public_key hello) = Inr secret
        \<and> derive_session_keys P secret (hello_transcript P h hello) = Inr keys
        \<and> finished_tag P keys Server_CR (hello_transcript P h hello) = Inr tag \<and> f = ServerHello sh
        \<and> sh_server_nonce sh = hs_local_nonce h \<and> sh_server_public_key sh = kp_public_key (hs_key_pair h)
        \<and> sh_server_finished sh = tag \<and> sh_cookie sh = ch_cookie hello)
     \<and> hs_session_keys h' = Some keys \<and> hs_transcript_hash h' = Some (hello_transcript P h hello)
     \<and> hs_peer_cookie h' = ch_cookie hello"

lemma receive_client_hello_answers:
  assumes "receive_client_hello P ptype hello s = (Inr (f, st, m), d)"
  shows "st = (if cn_state s = Idle then Some Handshaking else None) \<and> (\<exists>keys. answered P (cn_handshake s) hello keys f (cn_handshake d))"
  using assms
  by (auto simp: receive_client_hello_def run_simps Let_def learn_limits_def answered_def st_when_def split: if_splits)

lemma answered_frame: "answered P h hello keys f (set_frame g h') = answered P h hello keys f h'"
  by (simp add: answered_def set_frame_def)

lemma server_accepts:
  assumes s: "cn_role s = Server" "cn_state s = Idle" "cn_packet_crypto s = None"
    and run: "process_frame api P Initial_PT (ClientHello hello) s = (Inr (), s1)"
  shows "\<exists>keys f. answered P (cn_handshake s) hello keys f (cn_handshake s1) \<and> hs_frame (cn_handshake s1) = Some f
     \<and> cn_packet_crypto s1 = Some (packet_crypto_new Server_CR keys) \<and> cn_state s1 = Handshaking \<and> cn_role s1 = Server"
proof -
  obtain f st m d where rec: "receive_client_hello P Initial_PT hello s = (Inr (f, st, m), d)"
    using run by (auto simp: process_frame_def process_client_hello_def st_bind_eq_Inr)
  obtain keys where st: "st = Some Handshaking" and ans: "answered P (cn_handshake s) hello keys f (cn_handshake d)"
    using receive_client_hello_answers [OF rec] s(2) by auto
  have d: "cn_state d = Idle" "cn_role d = Server" "cn_packet_crypto d = None"
    using stepsD [OF stable_receives(1) rec] s by (simp_all add: same_state_def)
  obtain e where pe: "process_client_hello api P Initial_PT hello s =
      st_then activate_crypto (st_then (schedule_handshake_timeout api) (set_state Handshaking)) e"
    and e: "cn_state e = Idle" "cn_role e = Server" "cn_packet_crypto e = None" "cn_handshake e = set_frame f (cn_handshake d)"
    using rec st d
    by (cases m) (simp_all add: process_client_hello_def st_bind_run in_handshake_def in_transport_def)
  have keys: "hs_session_keys (set_frame f (cn_handshake d)) = Some keys"
    using ans by (simp add: answered_def set_frame_def)
  have "activate_crypto e = (Inr (), e\<lparr>cn_packet_crypto := Some (packet_crypto_new Server_CR keys)\<rparr>)"
    using e keys by (simp add: activate_crypto_def lift_core_def map_err_def ok_or_def crypto_role_of_def st_bind_def)
  then obtain t where "s1 = snd (set_state Handshaking (e\<lparr>cn_packet_crypto := Some (packet_crypto_new Server_CR keys), cn_timers := t\<rparr>))"
    using run pe by (auto simp: process_frame_def st_then_def st_bind_def schedule_handshake_timeout_def on_timers_def st_field_def
        set_state_run split: prod.splits sum.splits)
  moreover have "answered P (cn_handshake s) hello keys f (cn_handshake e)" "hs_frame (cn_handshake e) = Some f"
    using ans e(4) by (simp_all add: answered_frame) (simp add: set_frame_def)
  ultimately show ?thesis
    using e by (auto simp: set_state_run)
qed

lemma server_answers:
  assumes s: "cn_role s = Server" "cn_state s = Idle" "cn_packet_crypto s = None" "hs_peer_client_nonce (cn_handshake s) = None"
    and "ephemeral_agree P (hs_key_pair (cn_handshake s)) (ch_client_public_key hello) = Inr secret"
      "derive_session_keys P secret (hello_transcript P (cn_handshake s) hello) = Inr keys"
      "finished_tag P keys Server_CR (hello_transcript P (cn_handshake s) hello) = Inr tag"
    and "schedule_handshake api (cfg_handshake_timeout (cn_config s)) (cn_timers s) = (Inr (), t)"
  shows "\<exists>s1. process_frame api P Initial_PT (ClientHello hello) s = (Inr (), s1)"
  using assms
  by (simp add: process_frame_def process_client_hello_def receive_client_hello_def in_handshake_def in_config_def
      in_transport_def learn_limits_def lower_datagram_size_def lift_core_def crypto_result_def map_err_def ok_or_def Let_def
      set_state_run activate_crypto_def set_frame_def schedule_handshake_timeout_def on_timers_def st_field_def
      st_bind_def st_then_def)

text \<open>A client that accepts the answer.\<close>

lemma client_accepts:
  assumes c: "cn_role c = Client" "cn_state c = Handshaking" "cn_packet_crypto c = None"
      "hs_client_nonce (cn_handshake c) = Some nonce"
    and th: "transcript = handshake_transcript_hash P (hs_connection_id (cn_handshake c)) nonce
       (sh_server_nonce sh) (kp_public_key (hs_key_pair (cn_handshake c))) (sh_server_public_key sh)"
    and keys: "ephemeral_agree P (hs_key_pair (cn_handshake c)) (sh_server_public_key sh) = Inr secret"
      "derive_session_keys P secret transcript = Inr keys"
    and tags: "verify_finished P keys Server_CR transcript (sh_server_finished sh) = Inr ()"
      "finished_tag P keys Client_CR transcript = Inr tag"
  shows "\<exists>c1. process_frame api P Handshake_PT (ServerHello sh) c = (Inr (), c1) \<and> cn_state c1 = Established
     \<and> hs_frame (cn_handshake c1) = Some (HandshakeAck \<lparr>ha_cookie = sh_cookie sh, ha_client_finished = tag\<rparr>)
     \<and> cn_packet_crypto c1 = Some (packet_crypto_new Client_CR keys)"
  using assms
  by (simp add: process_frame_def process_server_hello_def receive_server_hello_def in_handshake_def in_config_def
      in_transport_def in_timers_def learn_limits_def lift_core_def crypto_result_def map_err_def ok_or_def Let_def
      set_state_run activate_crypto_def set_frame_def crypto_role_of_def st_bind_def st_then_def)

lemma server_finishes:
  assumes s: "cn_role s = Server" "cn_state s = Handshaking" "cn_packet_crypto s = Some crypto"
      "hs_transcript_hash (cn_handshake s) = Some transcript" "hs_session_keys (cn_handshake s) = Some keys"
    and ack: "ha_cookie ack = hs_peer_cookie (cn_handshake s)"
      "verify_finished P keys Client_CR transcript (ha_client_finished ack) = Inr ()"
  shows "\<exists>s1. process_frame api P Handshake_PT (HandshakeAck ack) s = (Inr (), s1) \<and> cn_state s1 = Established
     \<and> cn_packet_crypto s1 = Some crypto"
  using assms
  by (simp add: process_frame_def process_handshake_ack_def receive_handshake_ack_def in_timers_def lift_core_def
      crypto_result_def map_err_def ok_or_def set_state_run activate_crypto_def st_bind_def st_then_def)

section \<open>Properties\<close>

text \<open>The clock and the calls of the application establish nothing.\<close>

definition not_establishing :: "connection \<Rightarrow> connection \<Rightarrow> bool" where
  "not_establishing c c' \<longleftrightarrow> (cn_state c' = Established \<longrightarrow> cn_state c = Established)"

interpretation idle: conn_closing not_establishing "\<lambda>_ _. True" api "\<lambda>_ _. True" "\<lambda>_ _. True" for api
proof unfold_locales
  show "steps not_establishing (set_state Closing)" "steps not_establishing (set_state Closed)"
    by (auto simp: steps_def not_establishing_def set_state_run)
qed (auto simp: not_establishing_def bump_number_def transmitted_def recorded_def dropped_def Let_def)

lemma only_datagrams_establish:
  assumes "cn_state c \<noteq> Established" "cn_state c' = Established" "perform api P call c = (r, c')"
  shows "(\<exists>bs. call = Receive bs) \<or> (\<exists>packet. call = Handle packet)"
proof (rule ccontr)
  assume no: "\<not> ?thesis"
  have "steps not_establishing (perform api P call)"
    using no by (cases call) (auto intro!: idle.steps_advance_time idle.steps_open_stream idle.steps_write_stream
        idle.steps_read_stream idle.steps_close idle.steps_bind idle.steps_basic)
  from stepsD [OF this assms(3)] assms(1,2) show False
    by (simp add: not_establishing_def)
qed

text \<open>C4. Established only when finished: only a datagram establishes a connection. One that does is a handshake
  packet that arrives while the connection is handshaking, and it carries the peer's Finished tag, verified
  by this connection: at a client, a hello of the server whose tag verifies under the keys agreed between the
  client's own key pair and the public key in the hello, for the transcript with the client's own nonce; at a
  server, an acknowledgement with the cookie of the hello it answered, whose tag verifies under the session
  keys and the transcript it stored when it answered.\<close>

theorem established_only_when_finished:
  assumes "cn_state c \<noteq> Established" "cn_state c' = Established"
  shows "(on_datagram api P packet c = (r, c') \<longrightarrow> (\<exists>f \<in> set (pkt_frames packet). proves_finished P c (pkt_type packet) f))
     \<and> (perform api P call c = (r, c') \<longrightarrow> (\<exists>bs. call = Receive bs) \<or> (\<exists>packet. call = Handle packet))"
proof -
  have "\<exists>f \<in> set (pkt_frames packet). proves_finished P c (pkt_type packet) f" if run: "on_datagram api P packet c = (r, c')"
  proof -
    have "establishes_by P (pkt_type packet) (set (pkt_frames packet)) c c'"
      by (rule stepsD [OF establishing.steps_packet run]) simp_all
    with assms show ?thesis
      by (simp add: establishes_by_def)
  qed
  then show ?thesis
    using only_datagrams_establish [OF assms] by blast
qed

text \<open>A client of the sample connection and the answer of a server, for the witness.\<close>

definition sample_answer :: server_hello where
  "sample_answer = \<lparr>sh_server_nonce = replicate 16 3, sh_server_public_key = replicate 32 3,
     sh_server_finished = replicate 16 2, sh_max_datagram_size = 1200, sh_max_streams = 4,
     sh_initial_connection_window = 1000, sh_initial_stream_window = 100, sh_cookie = []\<rparr>"

lemma sample_client:
  obtains c :: connection where "cn_role c = Client" "cn_state c = Handshaking" "cn_packet_crypto c = None" "cn_id c = 7"
    "hs_client_nonce (cn_handshake c) = Some (hs_local_nonce (cn_handshake c))" "hs_connection_id (cn_handshake c) = 7"
    "hs_key_pair (cn_handshake c) = \<lparr>kp_secret = replicate 32 2, kp_public_key = replicate 32 2\<rparr>"
    "fresh_wheel (ts_wheel (cn_timers c))" "ts_idle (cn_timers c) = None" "cn_config c = sample_config"
    "cn_transport c = transport_new sample_config"
proof (rule sample_connection [of Client True])
  fix c :: connection and h
  assume "fresh_wheel (ts_wheel (cn_timers c))" "ts_idle (cn_timers c) = None"
    "cn_config c = sample_config" "cn_role c = Client" "cn_id c = 7" "cn_state c = (if True then Handshaking else Idle)"
    "cn_packet_crypto c = None" "cn_transport c = transport_new sample_config" "cn_handshake c = h"
    "hs_key_pair h = \<lparr>kp_secret = replicate 32 2, kp_public_key = replicate 32 2\<rparr>" "hs_local_nonce h = replicate 16 1"
    "hs_connection_id h = 7"
  then show thesis
    using that [of "c\<lparr>cn_handshake := h\<lparr>hs_client_nonce := Some (hs_local_nonce h)\<rparr>\<rparr>"] by simp
qed

lemma sample_agreement:
  "ephemeral_agree sample_primitives \<lparr>kp_secret = replicate 32 2, kp_public_key = k\<rparr> (replicate 32 3) = Inr (replicate 32 5)"
  "derive_session_keys sample_primitives (replicate 32 5) th = Inr sample_keys"
  "verify_finished sample_primitives keys role th (replicate 16 2) = Inr ()"
  "finished_tag sample_primitives keys role th = Inr (replicate 16 2)"
  by (simp_all add: ephemeral_agree_def derive_session_keys_def verify_finished_def finished_tag_def sample_primitives_def
      and_then_def ok_or_def Let_def X25519_PUBLIC_KEY_LEN_def FINISHED_TAG_LEN_def AEAD_KEY_LEN_def sample_keys_def
      map2_map_map replicate_eq_replicate)

lemma state_after_datagram:
  assumes "cn_state c \<noteq> Closed" "pkt_connection_id packet = cn_id c" "pkt_type packet \<noteq> Retry_PT" "pkt_frames packet = [f]" "\<not> is_ack f"
    and "reset_idle_timer api c = (Inr (), c1)" "record_received (pkt_number packet) c1 = (Inr True, c2)"
    and "process_frame api P (pkt_type packet) f c2 = (Inr (), c3)"
  shows "cn_state (snd (on_datagram api P packet c)) = cn_state c3"
proof -
  let ?rest = "st_then (st_when (list_ex is_ack_eliciting [f]) (tr_schedule_ack api)) (flush api)"
  have ack: "receive_ack_frame f = st_return ()"
    using assms(5) by (auto simp: receive_ack_frame_def is_ack_def split: frame.splits)
  have "on_datagram api P packet c = ?rest c3"
    using assms ack by (simp add: on_datagram_def st_then_run st_bind_run Let_def)
  moreover have "steps same_state ?rest"
    by (intro stable.conn_intros stable.steps_schedule_ack stable.steps_flush)
  ultimately show ?thesis
    by (simp add: steps_def same_state_def)
qed

theorem established_only_when_finished_witness:
  "\<exists>c packet r c'. cn_state c = Handshaking \<and> pkt_frames packet = [ServerHello sample_answer]
     \<and> on_datagram first_free_api sample_primitives packet c = (r, c') \<and> cn_state c' = Established
     \<and> proves_finished sample_primitives c (pkt_type packet) (ServerHello sample_answer)"
proof -
  obtain c :: connection where c: "cn_role c = Client" "cn_state c = Handshaking" "cn_packet_crypto c = None" "cn_id c = 7"
    "hs_client_nonce (cn_handshake c) = Some (hs_local_nonce (cn_handshake c))"
    "hs_key_pair (cn_handshake c) = \<lparr>kp_secret = replicate 32 2, kp_public_key = replicate 32 2\<rparr>"
    and fresh: "fresh_wheel (ts_wheel (cn_timers c))" "ts_idle (cn_timers c) = None" "cn_config c = sample_config"
      "cn_transport c = transport_new sample_config"
    by (rule sample_client)
  obtain t where t: "reset_idle_timer first_free_api c = (Inr (), c\<lparr>cn_timers := t\<rparr>)"
    using idle_timer_starts [OF fresh(1,2,3)] by blast
  let ?p = "\<lparr>pkt_type = Handshake_PT, pkt_flags = 1, pkt_connection_id = 7, pkt_number = 0, pkt_frames = [ServerHello sample_answer]\<rparr>"
  obtain c2 where c2: "record_received 0 (c\<lparr>cn_timers := t\<rparr>) = (Inr True, c2)"
    and same: "cn_role c2 = cn_role c" "cn_state c2 = cn_state c" "cn_packet_crypto c2 = cn_packet_crypto c" "cn_handshake c2 = cn_handshake c"
    using fresh(4) by (simp add: record_received_def rp_record_def transport_new_def received_packets_new_def Let_def split: prod.splits)
  obtain c3 where c3: "process_frame first_free_api sample_primitives Handshake_PT (ServerHello sample_answer) c2 = (Inr (), c3)" "cn_state c3 = Established"
    using client_accepts [where c = c2 and P = sample_primitives and sh = sample_answer and secret = "replicate 32 5"
        and keys = sample_keys and tag = "replicate 16 2" and api = first_free_api] c same
    by (auto simp: sample_agreement sample_answer_def)
  obtain r c' where run: "on_datagram first_free_api sample_primitives ?p c = (r, c')"
    by fastforce
  have "cn_state (snd (on_datagram first_free_api sample_primitives ?p c)) = cn_state c3"
    by (rule state_after_datagram [OF _ _ _ _ _ t]) (use c c2 c3 in \<open>simp_all add: is_ack_def\<close>)
  then have est: "cn_state c' = Established"
    using c3 run by simp
  have "cn_state c \<noteq> Established"
    using c(2) by simp
  from established_only_when_finished [OF this est, of first_free_api sample_primitives ?p r] run c(2) est show ?thesis
    by (intro exI [of _ c] exI [of _ ?p] exI [of _ r] exI [of _ c']) auto
qed

text \<open>C19. Both ends agree: let an idle server accept the hello of a handshaking client of the same connection.
  Then the client accepts the server's answer and is established, the server accepts the client's
  acknowledgement and is established, and both protect packets with the same keys in opposite roles. The
  primitives are as documented: the key exchange is symmetric and HMAC does not fail.\<close>

theorem handshake_agrees:
  assumes "key_exchange_agrees P" "hmac_total P"
    and c: "cn_role c = Client" "cn_state c = Handshaking" "cn_packet_crypto c = None"
      "hs_client_nonce (cn_handshake c) = Some (hs_local_nonce (cn_handshake c))"
    and s: "cn_role s = Server" "cn_state s = Idle" "cn_packet_crypto s = None"
    and kp: "generated P (hs_key_pair (cn_handshake c))" "generated P (hs_key_pair (cn_handshake s))"
    and cid: "hs_connection_id (cn_handshake s) = hs_connection_id (cn_handshake c)"
    and first: "process_frame api P Initial_PT (ClientHello (client_hello_of (cn_handshake c) cfg)) s = (Inr (), s1)"
  shows "\<exists>sh c1 ack s2 cc sc.
       hs_frame (cn_handshake s1) = Some (ServerHello sh)
     \<and> process_frame api P Handshake_PT (ServerHello sh) c = (Inr (), c1) \<and> cn_state c1 = Established
     \<and> hs_frame (cn_handshake c1) = Some (HandshakeAck ack)
     \<and> process_frame api P Handshake_PT (HandshakeAck ack) s1 = (Inr (), s2) \<and> cn_state s2 = Established
     \<and> cn_packet_crypto c1 = Some cc \<and> cn_packet_crypto s2 = Some sc \<and> session_ends cc sc"
proof -
  let ?hello = "client_hello_of (cn_handshake c) cfg"
  let ?th = "hello_transcript P (cn_handshake s) ?hello"
  obtain keys f where ans: "answered P (cn_handshake s) ?hello keys f (cn_handshake s1)" "hs_frame (cn_handshake s1) = Some f"
    and s1: "cn_packet_crypto s1 = Some (packet_crypto_new Server_CR keys)" "cn_state s1 = Handshaking" "cn_role s1 = Server"
    using server_accepts [OF s first] by blast
  obtain secret sh where sec: "ephemeral_agree P (hs_key_pair (cn_handshake s)) (kp_public_key (hs_key_pair (cn_handshake c))) = Inr secret"
    and keys: "derive_session_keys P secret ?th = Inr keys"
    and tag: "finished_tag P keys Server_CR ?th = Inr (sh_server_finished sh)"
    and f: "f = ServerHello sh" and sh: "sh_server_nonce sh = hs_local_nonce (cn_handshake s)"
      "sh_server_public_key sh = kp_public_key (hs_key_pair (cn_handshake s))" "sh_cookie sh = ch_cookie ?hello"
    using ans(1) by (auto simp: answered_def client_hello_of_def)
  obtain ctag where ctag: "finished_tag P keys Client_CR ?th = Inr ctag"
    using finished_tag_total [OF assms(2)] by blast
  have th: "?th = handshake_transcript_hash P (hs_connection_id (cn_handshake c)) (hs_local_nonce (cn_handshake c))
      (sh_server_nonce sh) (kp_public_key (hs_key_pair (cn_handshake c))) (sh_server_public_key sh)"
    by (simp add: client_hello_of_def cid sh)
  have "ephemeral_agree P (hs_key_pair (cn_handshake c)) (sh_server_public_key sh) = Inr secret"
    using agree_both [OF assms(1) kp sec] sh by simp
  from client_accepts [OF c th this keys verify_own_tag [OF tag] ctag]
  obtain c1 where c1: "process_frame api P Handshake_PT (ServerHello sh) c = (Inr (), c1)" "cn_state c1 = Established"
    "hs_frame (cn_handshake c1) = Some (HandshakeAck \<lparr>ha_cookie = sh_cookie sh, ha_client_finished = ctag\<rparr>)"
    "cn_packet_crypto c1 = Some (packet_crypto_new Client_CR keys)"
    by blast
  let ?ack = "\<lparr>ha_cookie = sh_cookie sh, ha_client_finished = ctag\<rparr>"
  have h1: "hs_transcript_hash (cn_handshake s1) = Some ?th" "hs_session_keys (cn_handshake s1) = Some keys"
    "ha_cookie ?ack = hs_peer_cookie (cn_handshake s1)"
    using ans(1) sh by (simp_all add: answered_def)
  have "verify_finished P keys Client_CR ?th (ha_client_finished ?ack) = Inr ()"
    using verify_own_tag [OF ctag] by simp
  from server_finishes [OF s1(3,2,1) h1 this]
  obtain s2 where "process_frame api P Handshake_PT (HandshakeAck ?ack) s1 = (Inr (), s2)" "cn_state s2 = Established"
    "cn_packet_crypto s2 = Some (packet_crypto_new Server_CR keys)"
    by blast
  with c1 ans(2) f show ?thesis
    using sample_ends by blast
qed

theorem handshake_agrees_witness:
  "\<exists>c s s1 c1 s2 cc sc sh ack. cn_role c = Client \<and> cn_role s = Server
     \<and> process_frame first_free_api sample_primitives Initial_PT (ClientHello (client_hello_of (cn_handshake c) sample_config)) s = (Inr (), s1)
     \<and> process_frame first_free_api sample_primitives Handshake_PT (ServerHello sh) c = (Inr (), c1)
     \<and> process_frame first_free_api sample_primitives Handshake_PT (HandshakeAck ack) s1 = (Inr (), s2)
     \<and> cn_packet_crypto c1 = Some cc \<and> cn_packet_crypto s2 = Some sc \<and> session_ends cc sc"
proof -
  obtain c :: connection where c: "cn_role c = Client" "cn_state c = Handshaking" "cn_packet_crypto c = None"
    "hs_client_nonce (cn_handshake c) = Some (hs_local_nonce (cn_handshake c))" "hs_connection_id (cn_handshake c) = 7"
    and ckp: "hs_key_pair (cn_handshake c) = \<lparr>kp_secret = replicate 32 2, kp_public_key = replicate 32 2\<rparr>"
    by (rule sample_client)
  obtain s :: connection where s: "cn_role s = Server" "cn_state s = Idle" "cn_packet_crypto s = None" "hs_connection_id (cn_handshake s) = 7"
      "hs_peer_client_nonce (cn_handshake s) = None"
    and skp: "hs_key_pair (cn_handshake s) = \<lparr>kp_secret = replicate 32 2, kp_public_key = replicate 32 2\<rparr>"
    and fresh: "fresh_wheel (ts_wheel (cn_timers s))" "cn_config s = sample_config"
    by (rule sample_connection [of Server False]) auto
  have kp: "generated sample_primitives (hs_key_pair (cn_handshake c))" "generated sample_primitives (hs_key_pair (cn_handshake s))"
    by (simp_all add: generated_def ckp skp sample_primitives_def)
  have hm: "hmac_total sample_primitives"
    by (simp add: hmac_total_def sample_primitives_def)
  have delay: "cfg_handshake_timeout (cn_config s) = 5000000000"
    by (simp add: fresh(2) sample_config_def connection_config_default_def)
  have "(5000000000 :: duration) \<le> 10 ^ 12"
    by simp
  then obtain k w where "wheel_insert first_free_api HandshakeTimeout 5000000000 (ts_wheel (cn_timers s)) = (Inr k, w)"
    by (rule fresh_insert [OF fresh(1)])
  then obtain t where t: "schedule_handshake first_free_api (cfg_handshake_timeout (cn_config s)) (cn_timers s) = (Inr (), t)"
    unfolding delay by (simp add: schedule_handshake_def tm_schedule_def st_field_def st_bind_def map_err_def)
  let ?hello = "client_hello_of (cn_handshake c) sample_config"
  have "ephemeral_agree sample_primitives (hs_key_pair (cn_handshake s)) (ch_client_public_key ?hello) = Inr (replicate 32 4)"
    by (simp add: client_hello_of_def ckp skp ephemeral_agree_def sample_primitives_def map2_map_map X25519_PUBLIC_KEY_LEN_def)
  moreover have "derive_session_keys sample_primitives (replicate 32 4) th = Inr sample_keys" for th
    by (simp add: derive_session_keys_def sample_primitives_def and_then_def ok_or_def Let_def X25519_PUBLIC_KEY_LEN_def
        AEAD_KEY_LEN_def sample_keys_def)
  ultimately obtain s1 where s1: "process_frame first_free_api sample_primitives Initial_PT (ClientHello ?hello) s = (Inr (), s1)"
    using server_answers [OF s(1,2,3,5) _ _ sample_agreement(4) t] by blast
  have cid: "hs_connection_id (cn_handshake s) = hs_connection_id (cn_handshake c)"
    using c(5) s(4) by simp
  obtain sh c1 ack s2 cc sc where
    "process_frame first_free_api sample_primitives Handshake_PT (ServerHello sh) c = (Inr (), c1)"
    "process_frame first_free_api sample_primitives Handshake_PT (HandshakeAck ack) s1 = (Inr (), s2)"
    "cn_packet_crypto c1 = Some cc" "cn_packet_crypto s2 = Some sc" "session_ends cc sc"
    using handshake_agrees [OF sample_primitives_laws(2) hm c(1,2,3,4) s(1,2,3) kp cid s1] by metis
  with c(1) s(1) s1 show ?thesis
    by (intro exI [of _ c] exI [of _ s] exI [of _ s1] exI [of _ c1] exI [of _ s2] exI [of _ cc] exI [of _ sc]
        exI [of _ sh] exI [of _ ack]) simp
qed

text \<open>Packet keys of a later hello: a handshaking server that has answered one hello answers another one with
  the same nonce, and from then on expects the Finished tag of the keys agreed in the later one; but it
  goes on protecting packets with the keys of the first.\<close>

theorem later_hello_keeps_packet_keys:
  assumes "cn_state s = Handshaking" "cn_packet_crypto s = Some crypto"
    and "process_frame api P Initial_PT (ClientHello hello) s = (Inr (), s1)"
  shows "cn_packet_crypto s1 = Some crypto
     \<and> (\<exists>secret keys. ephemeral_agree P (hs_key_pair (cn_handshake s)) (ch_client_public_key hello) = Inr secret
          \<and> derive_session_keys P secret (hello_transcript P (cn_handshake s) hello) = Inr keys
          \<and> hs_session_keys (cn_handshake s1) = Some keys)"
proof -
  obtain f st m d where rec: "receive_client_hello P Initial_PT hello s = (Inr (f, st, m), d)"
    using assms(3) by (auto simp: process_frame_def process_client_hello_def st_bind_eq_Inr)
  obtain keys where st: "st = None" and ans: "answered P (cn_handshake s) hello keys f (cn_handshake d)"
    using receive_client_hello_answers [OF rec] assms(1) by auto
  have d: "cn_packet_crypto d = Some crypto"
    using stepsD [OF stable_receives(1) rec] assms(2) by (simp add: same_state_def)
  have "cn_packet_crypto s1 = Some crypto" "cn_handshake s1 = set_frame f (cn_handshake d)"
    using assms(3) rec st d
    by (cases m; auto simp: process_frame_def process_client_hello_def st_bind_run in_handshake_def in_transport_def
        activate_crypto_def st_then_def st_when_def split: if_splits)+
  then show ?thesis
    using ans by (auto simp: answered_def set_frame_def)
qed

theorem later_hello_keeps_packet_keys_witness:
  "\<exists>(s :: connection) (s1 :: connection). cn_state s = Handshaking \<and> cn_packet_crypto s = Some (packet_crypto_new Server_CR (sample_keys\<lparr>sk_finished := []\<rparr>))
     \<and> cn_packet_crypto s1 = cn_packet_crypto s \<and> hs_session_keys (cn_handshake s1) = Some sample_keys"
proof -
  obtain s :: connection where s: "cn_role s = Server" "hs_peer_client_nonce (cn_handshake s) = None"
    "hs_key_pair (cn_handshake s) = \<lparr>kp_secret = replicate 32 2, kp_public_key = replicate 32 2\<rparr>"
    by (rule sample_connection [of Server False]) auto
  let ?crypto = "packet_crypto_new Server_CR (sample_keys\<lparr>sk_finished := []\<rparr>)"
  let ?s = "s\<lparr>cn_state := Handshaking, cn_packet_crypto := Some ?crypto\<rparr>"
  let ?hello = "\<lparr>ch_client_nonce = replicate 16 1, ch_client_public_key = replicate 32 3, ch_max_datagram_size = 1200,
      ch_max_streams = 4, ch_initial_connection_window = 1000, ch_initial_stream_window = 100, ch_cookie = []\<rparr>"
  obtain s1 where run: "process_frame first_free_api sample_primitives Initial_PT (ClientHello ?hello) ?s = (Inr (), s1)"
    using s by (simp add: process_frame_def process_client_hello_def receive_client_hello_def in_handshake_def in_config_def
        in_transport_def learn_limits_def lower_datagram_size_def lift_core_def crypto_result_def map_err_def Let_def
        activate_crypto_def set_frame_def sample_agreement st_bind_def st_then_def)
  have "cn_packet_crypto s1 = Some ?crypto" "hs_session_keys (cn_handshake s1) = Some sample_keys"
    using later_hello_keeps_packet_keys [of ?s ?crypto, OF _ _ run] s(3) by (auto simp: sample_agreement)
  then show ?thesis
    by (intro exI [of _ ?s] exI [of _ s1]) simp
qed

end
