(* ===== verification/Conn_Recovery.thy ===== *)
theory Conn_Recovery
  imports Conn_Sample
begin

text \<open>
  Loss recovery: what an acknowledgement does to the packets in flight, and that the frames of a packet given
  up for lost go back to the front of their queues.
\<close>

section \<open>Acknowledged packets\<close>

abbreviation in_flight :: "connection \<Rightarrow> packet_number \<Rightarrow> sent_packet option" where
  "in_flight c pn \<equiv> bt_get (tr_sent (cn_transport c)) pn"

lemma ack_loop_flight: "in_flight (snd (ack_loop pns sample c)) k = (if k \<in> set pns then None else in_flight c k)"
proof (induction pns sample c rule: ack_loop.induct)
  case (2 pn pns sample c)
  show ?case
  proof (cases "in_flight c pn")
    case None
    with 2 show ?thesis
      by auto
  next
    case (Some p)
    have "in_flight (ack_packet pn p c) k = (if k = pn then None else in_flight c k)"
      by (simp add: ack_packet_def bt_get_remove)
    with 2 Some show ?thesis
      by (cases "k = pn") auto
  qed
qed simp

lemma same_flight_requeue: "steps (\<lambda>c c'. same_flight (cn_transport c) (cn_transport c')) (requeue_one n q)"
  unfolding requeue_one_def
  by (cases "qf_frame q"; simp add: steps_def in_transport_def on_streams_def st_field_def split: prod.split)

interpretation untouched: step_relation "\<lambda>c c'. same_flight (cn_transport c) (cn_transport c')"
  by unfold_locales (auto simp: same_flight_def)

lemma same_flight_requeue_lost: "steps (\<lambda>c c'. same_flight (cn_transport c) (cn_transport c')) (requeue_lost fs n)"
  unfolding requeue_lost_def Let_def core_fail_def
  by (intro untouched.steps_bind untouched.steps_basic steps_if untouched.steps_for same_flight_requeue)

lemma lose_packet_flight:
  assumes "lose_packet pn c = (Inr (), c')"
  shows "in_flight c' k = (if k = pn then None else in_flight c k)"
proof (cases "in_flight c pn")
  case None
  with assms show ?thesis
    by (auto simp: lose_packet_def)
next
  case (Some p)
  let ?d = "c\<lparr>cn_transport := (cn_transport c)\<lparr>tr_sent := bt_remove pn (tr_sent (cn_transport c)),
      tr_congestion := cc_on_loss (tr_congestion (cn_transport c)) (sp_encoded_len p)\<rparr>,
      cn_timers := tm_cancel (sp_timer_id p) (cn_timers c)\<rparr>"
  have "requeue_lost (sp_frames p) (sp_retransmit_count p) ?d = (Inr (), c')"
    using assms Some by (simp add: lose_packet_def)
  from stepsD [OF same_flight_requeue_lost this] show ?thesis
    by (simp add: same_flight_def bt_get_remove)
qed

lemma lose_all_flight:
  "st_for pns lose_packet c = (Inr (), c') \<Longrightarrow> in_flight c' k = (if k \<in> set pns then None else in_flight c k)"
proof (induction pns arbitrary: c)
  case (Cons pn pns)
  then obtain d where d: "lose_packet pn c = (Inr (), d)" "st_for pns lose_packet d = (Inr (), c')"
    by (auto simp: st_then_def st_bind_eq_Inr)
  from Cons.IH [OF d(2)] lose_packet_flight [OF d(1)] show ?case
    by auto
qed simp

definition passed_by :: "ack_frame \<Rightarrow> connection \<Rightarrow> packet_number \<Rightarrow> nat" where
  "passed_by ack c pn =
     length (filter (\<lambda>n. ack_ranges_contains (ack_ranges ack) n \<and> n > pn) (bt_keys (tr_sent (cn_transport c))))"

lemma bt_keys_get: "k \<in> set (bt_keys m) \<longleftrightarrow> bt_get m k \<noteq> None"
  by (auto simp: bt_keys_def bt_get_def map_of_eq_None_iff)

lemma apply_ack_flight:
  assumes "apply_ack ack c = (Inr (), c')"
  shows "in_flight c' pn =
     (if ack_ranges_contains (ack_ranges ack) pn \<or> of_nat (passed_by ack c pn) \<ge> cfg_fast_loss_threshold (cn_config c)
      then None else in_flight c pn)"
proof -
  let ?acked = "filter (ack_ranges_contains (ack_ranges ack)) (bt_keys (tr_sent (cn_transport c)))"
  obtain sample d where d: "ack_loop ?acked None c = (sample, d)"
    by fastforce
  let ?rtt = "case sample of None \<Rightarrow> st_return () | Some s \<Rightarrow> update_rtt s (ack_delay ack)"
  obtain e where e: "?rtt d = (Inr (), e)"
    and rest: "st_for (filter (\<lambda>pn. of_nat (length (filter (\<lambda>acked. acked > pn) ?acked)) \<ge> cfg_fast_loss_threshold (cn_config e))
        (bt_keys (tr_sent (cn_transport e)))) lose_packet e = (Inr (), c')"
    using assms d
    by (auto simp: apply_ack_def st_bind_eq_Inr st_then_def lift_core_def core_fail_def split: if_splits)
  have same: "tr_sent (cn_transport e) = tr_sent (cn_transport d)" "cn_config e = cn_config d"
    using e by (auto simp: update_rtt_def split: option.splits)
  have conf: "cn_config (snd (ack_loop pns s c)) = cn_config c" for pns s c
    by (induction pns s c rule: ack_loop.induct) (auto simp: ack_packet_def split: option.split)
  have loop: "in_flight d k = (if k \<in> set ?acked then None else in_flight c k)" for k
    using ack_loop_flight [of ?acked None c k] d by simp
  have count: "length (filter (\<lambda>acked. acked > pn) ?acked) = passed_by ack c pn"
    by (simp add: passed_by_def conj_commute)
  show ?thesis
    using lose_all_flight [OF rest, of pn] same conf [of ?acked None c] d loop [of pn] count
    by (auto simp: bt_keys_get)
qed

section \<open>Lost frames\<close>

text \<open>The frames of a packet that wait in the queue of the transport, and the data of a stream that waits in
  the queue of that stream.\<close>

fun control_frames :: "u32 \<Rightarrow> queued_frame list \<Rightarrow> queued_frame list" where
  "control_frames n [] = []"
| "control_frames n (q # qs) =
     (case qf_frame q of StreamData _ \<Rightarrow> control_frames n qs | f \<Rightarrow> queued_frame_with_count f n # control_frames n qs)"

fun stream_items :: "stream_id \<Rightarrow> u32 \<Rightarrow> queued_frame list \<Rightarrow> pending_data list" where
  "stream_items sid n [] = []"
| "stream_items sid n (q # qs) =
     (case qf_frame q of
        StreamData d \<Rightarrow>
          (if sd_stream_id d = sid
           then \<lparr>pd_offset = sd_offset d, pd_data = sd_data d, pd_fin = sd_fin d, pd_retransmit_count = n\<rparr> # stream_items sid n qs
           else stream_items sid n qs)
      | _ \<Rightarrow> stream_items sid n qs)"

definition send_queue :: "connection \<Rightarrow> stream_id \<Rightarrow> pending_data list" where
  "send_queue c sid = (case bt_get (mg_streams (cn_streams c)) sid of None \<Rightarrow> [] | Some s \<Rightarrow> ss_queue (sr_send s))"

lemma requeue_one_queues:
  assumes "requeue_one n q c = (Inr (), c')" "streams_ok c"
  shows "tr_pending_frames (cn_transport c') = control_frames n [q] @ tr_pending_frames (cn_transport c)"
    and "send_queue c' sid = stream_items sid n [q] @ send_queue c sid"
proof -
  have "tr_pending_frames (cn_transport c') = control_frames n [q] @ tr_pending_frames (cn_transport c)
     \<and> send_queue c' sid = stream_items sid n [q] @ send_queue c sid"
  proof (cases "qf_frame q")
    case (StreamData d)
    then show ?thesis
      using assms
      by (auto simp: requeue_one_def on_streams_def st_field_def mgr_requeue_def on_stream_def map_err_def send_queue_def
          bt_get_insert ss_requeue_def split: option.splits prod.splits)
  qed (use assms in \<open>auto simp: requeue_one_def in_transport_def send_queue_def\<close>)
  then show "tr_pending_frames (cn_transport c') = control_frames n [q] @ tr_pending_frames (cn_transport c)"
    "send_queue c' sid = stream_items sid n [q] @ send_queue c sid"
    by blast+
qed

lemma st_for_snoc: "st_for (xs @ [x]) f = st_then (st_for xs f) (f x)"
proof (induction xs)
  case Nil
  show ?case
    by (auto simp: st_then_def st_bind_def fun_eq_iff split: prod.split sum.split)
next
  case (Cons y ys)
  then show ?case
    by (auto simp: st_then_def st_bind_def fun_eq_iff split: prod.split sum.split)
qed

lemma requeue_one_streams: "requeue_one n q c = (r, c') \<Longrightarrow> streams_ok c \<Longrightarrow> streams_ok c'"
  using stepsD [OF streams.steps_requeue_one] by (fastforce simp: streams_grow_def)

lemma requeue_all_streams: "st_for qs (requeue_one n) c = (r, c') \<Longrightarrow> streams_ok c \<Longrightarrow> streams_ok c'"
  using stepsD [OF streams.steps_for [OF streams.steps_requeue_one]] by (fastforce simp: streams_grow_def)

lemma requeue_all_queues:
  "st_for (rev qs) (requeue_one n) c = (Inr (), c') \<Longrightarrow> streams_ok c \<Longrightarrow>
     tr_pending_frames (cn_transport c') = control_frames n qs @ tr_pending_frames (cn_transport c)
     \<and> send_queue c' sid = stream_items sid n qs @ send_queue c sid"
proof (induction qs arbitrary: c')
  case (Cons q qs)
  obtain d where d: "st_for (rev qs) (requeue_one n) c = (Inr (), d)" "requeue_one n q d = (Inr (), c')"
    using Cons.prems(1) by (auto simp: st_for_snoc st_then_def st_bind_eq_Inr)
  have ok: "streams_ok d"
    using requeue_all_streams [OF d(1) Cons.prems(2)] .
  show ?case
    using Cons.IH [OF d(1) Cons.prems(2)] requeue_one_queues [OF d(2) ok]
    by (cases "qf_frame q") auto
qed simp

lemma requeue_one_fails: "fails_in {e. \<exists>sid. e = Stop (UnknownStream sid)} (requeue_one n q)"
proof (cases "qf_frame q")
  case (StreamData d)
  then show ?thesis
    by (auto simp: fails_in_def requeue_one_def on_streams_def st_field_def mgr_requeue_def on_stream_def map_err_def
        split: option.splits prod.splits sum.splits)
qed (simp_all add: requeue_one_def fails_intros)

section \<open>Properties\<close>

text \<open>C7. Acknowledgements settle exactly what they cover: an accepted acknowledgement takes out of the record of
  packets in flight those in its ranges and those that at least the configured number of later packets, newly
  acknowledged by it, have passed; every other packet stays as it was. It is accepted only if the largest
  number it names has been used.\<close>

theorem acknowledgement_settles_packets:
  assumes "apply_ack ack c = (Inr (), c')"
  shows "bt_get (tr_sent (cn_transport c')) pn =
       (if ack_ranges_contains (ack_ranges ack) pn \<or> of_nat (passed_by ack c pn) \<ge> cfg_fast_loss_threshold (cn_config c)
        then None else bt_get (tr_sent (cn_transport c)) pn)
     \<and> ack_largest ack < tr_next_packet_number (cn_transport c)"
  using apply_ack_flight [OF assms, of pn] assms
  by (auto simp: apply_ack_def st_bind_eq_Inr core_fail_def lift_core_def split: if_splits)

definition sample_sent :: sent_packet where
  "sample_sent = \<lparr>sp_packet_number = 5, sp_sent_at = 0, sp_encoded_len = 40, sp_frames = [queued_frame_new (Ping \<lparr>ping_nonce = 1\<rparr>)],
     sp_retransmit_count = 0, sp_timer_id = 1, sp_generation = 1\<rparr>"

lemma sample_in_flight:
  obtains c :: connection where "tr_sent (cn_transport c) = [(5, sample_sent)]" "tr_next_packet_number (cn_transport c) = 6"
    "cn_config c = sample_config" "tr_pending_frames (cn_transport c) = []" "bt_inv (mg_streams (cn_streams c))"
proof (rule sample_connection [of Client True])
  fix c :: connection and h
  assume init: "sample_initial Client True = Inr c" and c: "cn_config c = sample_config" "cn_transport c = transport_new sample_config"
  have "bt_inv (mg_streams (cn_streams c))"
    using init by (auto simp: mgr_new_def elim!: initial_run)
  with c that [of "c\<lparr>cn_transport := (cn_transport c)\<lparr>tr_sent := [(5, sample_sent)], tr_next_packet_number := 6\<rparr>\<rparr>"] show thesis
    by (simp add: transport_new_def)
qed

theorem acknowledgement_settles_packets_witness:
  "\<exists>c c' :: connection. apply_ack \<lparr>ack_largest = 2, ack_delay = 0, ack_ranges = [\<lparr>range_start = 0, range_end = 2\<rparr>]\<rparr> c = (Inr (), c')
     \<and> bt_get (tr_sent (cn_transport c')) 5 = Some sample_sent"
proof -
  obtain c :: connection where c: "tr_sent (cn_transport c) = [(5, sample_sent)]" "tr_next_packet_number (cn_transport c) = 6"
    "cn_config c = sample_config"
    by (rule sample_in_flight)
  let ?ack = "\<lparr>ack_largest = 2, ack_delay = 0, ack_ranges = [\<lparr>range_start = 0, range_end = 2\<rparr>]\<rparr> :: ack_frame"
  have out: "\<not> ack_ranges_contains (ack_ranges ?ack) 5"
    by (simp add: ack_ranges_contains_def ack_range_contains_def)
  have run: "apply_ack ?ack c = (Inr (), c)"
    using c out
    by (simp add: apply_ack_def lift_core_def map_err_def ack_frame_validate_def st_bind_def st_then_def
        sample_config_def connection_config_default_def ack_ranges_largest_def as_micros_def)
  have "passed_by ?ack c 5 = 0"
    using c out by (simp add: passed_by_def)
  with acknowledgement_settles_packets [OF run, of 5] c out have "bt_get (tr_sent (cn_transport c)) 5 = Some sample_sent"
    by (simp add: sample_config_def connection_config_default_def)
  with run show ?thesis
    by blast
qed

text \<open>C15. Lost frames are not forgotten: when the retransmission timer of a packet in flight goes off, either
  the packet has been retransmitted too often and the call fails with \<open>RetransmissionLimit\<close>, or a stream of its
  data does not exist, or all its frames are back at the front of their queues, in their order: control
  frames in the queue of the transport, data in the queue of its stream, each with the retransmission
  count raised by one.\<close>

theorem lost_frames_requeued:
  assumes "bt_inv (mg_streams (cn_streams c))" "bt_get (tr_sent (cn_transport c)) pn = Some p"
    and "process_retransmit pn (sp_generation p) c = (r, c')"
  shows "bt_get (tr_sent (cn_transport c')) pn = None \<and>
     (case r of
        Inl e \<Rightarrow> (if saturating_add (sp_retransmit_count p) 1 > cfg_max_retransmissions (cn_config c)
           then e = Stop RetransmissionLimit else \<exists>sid. e = Stop (UnknownStream sid))
      | Inr _ \<Rightarrow> (let n = saturating_add (sp_retransmit_count p) 1 in
           n \<le> cfg_max_retransmissions (cn_config c)
           \<and> tr_pending_frames (cn_transport c') = control_frames n (sp_frames p) @ tr_pending_frames (cn_transport c)
           \<and> (\<forall>sid. send_queue c' sid = stream_items sid n (sp_frames p) @ send_queue c sid)))"
proof -
  let ?n = "saturating_add (sp_retransmit_count p) 1"
  let ?d = "c\<lparr>cn_transport := (cn_transport c)\<lparr>tr_sent := bt_remove pn (tr_sent (cn_transport c)),
      tr_congestion := cc_on_loss (tr_congestion (cn_transport c)) (sp_encoded_len p),
      tr_rtt := rtt_on_timeout (tr_rtt (cn_transport c))\<rparr>\<rparr>"
  have run: "requeue_lost (sp_frames p) (sp_retransmit_count p) ?d = (r, c')"
    using assms(2,3) by (simp add: process_retransmit_def)
  have gone: "bt_get (tr_sent (cn_transport c')) pn = None"
    using stepsD [OF same_flight_requeue_lost run] by (simp add: same_flight_def bt_get_remove)
  show ?thesis
  proof (cases "?n > cfg_max_retransmissions (cn_config c)")
    case True
    with run gone show ?thesis
      by (auto simp: requeue_lost_def Let_def core_fail_def)
  next
    case False
    then have loop: "st_for (rev (sp_frames p)) (requeue_one ?n) ?d = (r, c')"
      using run by (simp add: requeue_lost_def Let_def)
    show ?thesis
    proof (cases r)
      case (Inl e)
      have "fails_in {e. \<exists>sid. e = Stop (UnknownStream sid)} (st_for (rev (sp_frames p)) (requeue_one ?n))"
        by (rule fails_for, rule requeue_one_fails)
      from fails_inD [OF this] loop Inl have "\<exists>sid. e = Stop (UnknownStream sid)"
        by blast
      with Inl False gone show ?thesis
        by simp
    next
      case (Inr u)
      then have "st_for (rev (sp_frames p)) (requeue_one ?n) ?d = (Inr (), c')"
        using loop by simp
      from requeue_all_queues [OF this] assms(1) have
        "tr_pending_frames (cn_transport c') = control_frames ?n (sp_frames p) @ tr_pending_frames (cn_transport c)
         \<and> send_queue c' sid = stream_items sid ?n (sp_frames p) @ send_queue c sid" for sid
        by (simp add: send_queue_def)
      with Inr False gone show ?thesis
        by (simp add: Let_def not_less)
    qed
  qed
qed

theorem lost_frames_requeued_witness:
  "\<exists>c r c'. process_retransmit 5 1 c = (r, c') \<and> bt_get (tr_sent (cn_transport c)) 5 = Some sample_sent
     \<and> tr_pending_frames (cn_transport c') = [\<lparr>qf_frame = Ping \<lparr>ping_nonce = 1\<rparr>, qf_retransmit_count = 1\<rparr>]"
proof -
  obtain c :: connection where c: "tr_sent (cn_transport c) = [(5, sample_sent)]" "cn_config c = sample_config"
    "tr_pending_frames (cn_transport c) = []" "bt_inv (mg_streams (cn_streams c))"
    by (rule sample_in_flight)
  obtain r c' where run: "process_retransmit 5 (sp_generation sample_sent) c = (r, c')"
    by fastforce
  have flight: "bt_get (tr_sent (cn_transport c)) 5 = Some sample_sent"
    using c(1) by simp
  have "\<exists>u. r = Inr u"
    using run c by (auto simp: process_retransmit_def requeue_lost_def sample_sent_def queued_frame_new_def requeue_one_def
        in_transport_def st_then_def st_bind_def sample_config_def connection_config_default_def saturating_add_def Let_def)
  with lost_frames_requeued [OF c(4) flight run] run flight c(3) show ?thesis
    by (auto simp: sample_sent_def queued_frame_new_def queued_frame_with_count_def Let_def)
qed

text \<open>A closed connection may not stay closed: a packet that is still recorded when its retransmission timer
  goes off for the last time moves the connection to \<open>Closing\<close>, whatever its state is, \<open>Closed\<close> included.\<close>

theorem closed_connection_reopens:
  assumes "cn_state c = Closed" "bt_get (tr_sent (cn_transport c)) pn = Some p"
    and "saturating_add (sp_retransmit_count p) 1 > cfg_max_retransmissions (cn_config c)"
  shows "\<exists>c'. process_timer api (Retransmit pn (sp_generation p)) c = (Inl (Stop RetransmissionLimit), c') \<and> cn_state c' = Closing
     \<and> cn_output c' = cn_output c @ [ConnectionStateChanged Closing]"
  using assms
  by (simp add: process_timer_def on_error_def process_retransmit_def requeue_lost_def Let_def core_fail_def give_up_def
      set_state_run st_then_def st_bind_def)

theorem closed_connection_reopens_witness:
  "\<exists>c c'. cn_state c = Closed \<and> process_timer first_free_api (Retransmit 5 1) c = (Inl (Stop RetransmissionLimit), c') \<and> cn_state c' = Closing"
proof -
  obtain c :: connection where c: "cn_config c = sample_config"
    by (rule sample_in_flight)
  let ?p = "sample_sent\<lparr>sp_retransmit_count := 8\<rparr>"
  let ?c = "c\<lparr>cn_state := Closed, cn_transport := (cn_transport c)\<lparr>tr_sent := [(5, ?p)]\<rparr>\<rparr>"
  have "saturating_add (sp_retransmit_count ?p) 1 > cfg_max_retransmissions (cn_config ?c)"
    using c by (simp add: sample_config_def connection_config_default_def saturating_add_def)
  then obtain c' where "process_timer first_free_api (Retransmit 5 (sp_generation ?p)) ?c = (Inl (Stop RetransmissionLimit), c')"
    "cn_state c' = Closing"
    using closed_connection_reopens [of ?c 5 ?p first_free_api] by auto
  then show ?thesis
    by (intro exI [of _ ?c] exI [of _ c']) (simp add: sample_sent_def)
qed

end
