(* ===== verification/Transfer_Types.thy ===== *)
theory Transfer_Types
  imports Cursor
begin

text \<open>
  The basic types of the file transfer protocol: \<open>transfer-protocol/src/error.rs\<close> and \<open>types.rs\<close>. Identifiers,
  tokens and keys are fixed-size arrays in the source and lists of bytes here, whose length is part of the
  well-formedness of a message. A \<open>String\<close> is its UTF-8 bytes. The random bytes of \<open>PairingCode::generate\<close> are an
  argument; \<open>None\<close> stands for a failing source of randomness.

  Shown here: a pairing code is read back from any spelling of it and from itself, and the shifts and masks
  of \<open>generate_with_len\<close> take the random bytes apart into consecutive groups of five bits.
\<close>

section \<open>Errors\<close>

datatype transfer_error =
    MessageTooShort usize usize
  | MessageTooLarge usize usize
  | DeclaredLengthMismatch usize usize
  | UnsupportedVersion_TP u8
  | UnknownMessageType u8
  | InvalidFlags_TP u16
  | Truncated_TP string
  | InvalidValue_TP string
  | InvalidUtf8_TP string
  | FieldTooLarge string usize usize
  | TooManyItems string usize usize
  | InvalidPairingCode
  | RandomnessUnavailable_TP

section \<open>Identifiers and digests\<close>

definition ID_LEN :: usize where "ID_LEN = 16"
definition CHECK_TOKEN_LEN :: usize where "CHECK_TOKEN_LEN = 32"
definition PAIRING_CODE_MIN_LEN :: usize where "PAIRING_CODE_MIN_LEN = 8"
definition PAIRING_CODE_MAX_LEN :: usize where "PAIRING_CODE_MAX_LEN = 10"

type_synonym pairing_id = bytes
type_synonym transfer_id = bytes
type_synonym file_id = bytes
type_synonym client_instance_id = bytes
type_synonym candidate_id = bytes
type_synonym path_id = bytes
type_synonym relay_id = bytes
type_synonym transaction_id = bytes
type_synonym session_ticket = bytes
type_synonym check_token = bytes
type_synonym pairing_code = bytes
type_synonym i64 = "64 word"

datatype hash_algorithm = Blake3 | Sha256

definition hash_algorithm_byte :: "hash_algorithm \<Rightarrow> u8" where
  "hash_algorithm_byte a = (case a of Blake3 \<Rightarrow> 1 | Sha256 \<Rightarrow> 2)"

definition hash_algorithm_try_from :: "u8 \<Rightarrow> unit + hash_algorithm" where
  "hash_algorithm_try_from v = (if v = 1 then Inr Blake3 else if v = 2 then Inr Sha256 else Inl ())"

record digest =
  dg_algorithm :: hash_algorithm
  dg_bytes :: bytes

section \<open>Pairing codes\<close>

text \<open>\<open>b"0123456789ABCDEFGHJKMNPQRSTVWXYZ"\<close>\<close>

definition CROCKFORD_ALPHABET :: bytes where
  "CROCKFORD_ALPHABET =
     [0x30, 0x31, 0x32, 0x33, 0x34, 0x35, 0x36, 0x37, 0x38, 0x39,
      0x41, 0x42, 0x43, 0x44, 0x45, 0x46, 0x47, 0x48, 0x4a, 0x4b, 0x4d, 0x4e,
      0x50, 0x51, 0x52, 0x53, 0x54, 0x56, 0x57, 0x58, 0x59, 0x5a]"

definition to_ascii_uppercase :: "u8 \<Rightarrow> u8" where
  "to_ascii_uppercase b = (if in_range 0x61 0x7a b then b - 0x20 else b)"

definition pairing_code_parse :: "bytes \<Rightarrow> transfer_error + pairing_code" where
  "pairing_code_parse s =
     (if \<not> (PAIRING_CODE_MIN_LEN \<le> length s \<and> length s \<le> PAIRING_CODE_MAX_LEN)
         \<or> \<not> list_all (\<lambda>b. to_ascii_uppercase b \<in> set CROCKFORD_ALPHABET) s
      then Inl InvalidPairingCode
      else Inr (map to_ascii_uppercase s))"

text \<open>One symbol: five bits of the random bytes, which may straddle two of them. The buffer of the code has
  seven bytes, of which the first \<open>byte_len\<close> are random; the values are \<open>u16\<close>.\<close>

definition code_symbol :: "bytes \<Rightarrow> usize \<Rightarrow> usize \<Rightarrow> usize" where
  "code_symbol random byte_len index =
     (let bit_offset = index * 5;
          byte_index = bit_offset div 8;
          intra_byte_offset = bit_offset mod 8;
          high = push_bit 8 (ucast (random ! byte_index) :: u16);
          v = (if byte_index + 1 < byte_len then high OR ucast (random ! (byte_index + 1)) else high)
      in unat (drop_bit (11 - intra_byte_offset) v AND 0x1f))"

definition generate_with_len :: "bytes option \<Rightarrow> usize \<Rightarrow> transfer_error + pairing_code" where
  "generate_with_len random len =
     (if \<not> (PAIRING_CODE_MIN_LEN \<le> len \<and> len \<le> PAIRING_CODE_MAX_LEN)
      then Inl (InvalidValue_TP ''pairing code length'')
      else
        let byte_len = (len * 5 + 7) div 8 in
        and_then (ok_or RandomnessUnavailable_TP random) (\<lambda>bytes.
        Inr (map (\<lambda>index. CROCKFORD_ALPHABET ! code_symbol bytes byte_len index) [0..<len])))"

definition pairing_code_generate :: "bytes option \<Rightarrow> transfer_error + pairing_code" where
  "pairing_code_generate random = generate_with_len random PAIRING_CODE_MIN_LEN"

text \<open>A code in the form in which \<open>parse\<close> and \<open>generate\<close> leave it.\<close>

definition valid_code :: "pairing_code \<Rightarrow> bool" where
  "valid_code s \<longleftrightarrow> PAIRING_CODE_MIN_LEN \<le> length s \<and> length s \<le> PAIRING_CODE_MAX_LEN
     \<and> set s \<subseteq> set CROCKFORD_ALPHABET"

lemma alphabet_upper: "b \<in> set CROCKFORD_ALPHABET \<Longrightarrow> to_ascii_uppercase b = b \<and> b < 0x80"
  by (auto simp: CROCKFORD_ALPHABET_def to_ascii_uppercase_def in_range_def)

lemma length_alphabet [simp]: "length CROCKFORD_ALPHABET = 32"
  by (simp add: CROCKFORD_ALPHABET_def)

lemma parse_valid: "valid_code s \<Longrightarrow> pairing_code_parse s = Inr s"
  using alphabet_upper by (auto simp: pairing_code_parse_def valid_code_def list_all_iff intro!: map_idI)

lemma parsed_valid: "pairing_code_parse s = Inr c \<Longrightarrow> valid_code c \<and> length c = length s"
  by (auto simp: pairing_code_parse_def valid_code_def list_all_iff split: if_splits)

lemma ascii_utf8: "list_all (\<lambda>b. b < 0x80) s \<Longrightarrow> utf8_valid s"
  by (induction s) auto

lemma valid_code_utf8: "valid_code s \<Longrightarrow> utf8_valid s"
  using alphabet_upper by (intro ascii_utf8) (auto simp: valid_code_def list_all_iff)

section \<open>Five bits at a time\<close>

text \<open>The bits of a byte string, the most significant of each byte first, and the number that a group of
  bits spells.\<close>

definition bits_of :: "bytes \<Rightarrow> bool list" where
  "bits_of bs = concat (map (\<lambda>b. map (\<lambda>n. bit b (7 - n)) [0..<8]) bs)"

definition bits_value :: "bool list \<Rightarrow> nat" where
  "bits_value bits = horner_sum of_bool 2 (rev bits)"

lemma length_bits_of: "length (bits_of bs) = 8 * length bs"
  by (induction bs) (simp_all add: bits_of_def)

lemma nth_bits_of: "n < 8 * length bs \<Longrightarrow> bits_of bs ! n = bit (bs ! (n div 8)) (7 - n mod 8)"
proof (induction bs arbitrary: n)
  case (Cons b bs)
  show ?case
  proof (cases "n < 8")
    case True
    then show ?thesis
      by (simp add: bits_of_def nth_append)
  next
    case False
    then obtain m where m: "n = m + 8"
      by (metis add.commute le_add_diff_inverse not_less)
    then have "n div 8 = Suc (m div 8)"
      by simp
    then show ?thesis
      using Cons.IH [of m] Cons.prems m by (simp add: bits_of_def nth_append)
  qed
qed simp

lemma bit_symbol_window:
  assumes "n < 5" "k < 8"
  shows "bit (push_bit 8 (ucast (x :: u8) :: u16) OR ucast (y :: u8)) (11 - k + n) =
     (if k + (4 - n) < 8 then bit x (7 - (k + (4 - n))) else bit y (15 - (k + (4 - n))))"
proof -
  have "n = 0 \<or> n = 1 \<or> n = 2 \<or> n = 3 \<or> n = 4"
    "k = 0 \<or> k = 1 \<or> k = 2 \<or> k = 3 \<or> k = 4 \<or> k = 5 \<or> k = 6 \<or> k = 7"
    using assms by auto
  moreover have "\<not> bit y m" if "8 \<le> m" for m
    using that bit_imp_le_length [of y m] by auto
  ultimately show ?thesis
    by (elim disjE) (simp_all add: bit_or_iff bit_push_bit_iff bit_ucast_iff)
qed

lemma window_div:
  fixes j r :: nat
  assumes "r < 16"
  shows "(8 * j + r) div 8 = (if r < 8 then j else j + 1)" "(8 * j + r) mod 8 = (if r < 8 then r else r - 8)"
proof -
  show "(8 * j + r) div 8 = (if r < 8 then j else j + 1)"
  proof (cases "r < 8")
    case False
    then have "8 * j + r = 8 * (j + 1) + (r - 8)" "r - 8 < 8"
      using assms by simp_all
    then show ?thesis
      using False by (metis div_less div_mult_self4 add.right_neutral add.commute zero_neq_numeral)
  qed simp
  show "(8 * j + r) mod 8 = (if r < 8 then r else r - 8)"
  proof (cases "r < 8")
    case False
    then have "8 * j + r = 8 * (j + 1) + (r - 8)" "r - 8 < 8"
      using assms by simp_all
    then show ?thesis
      using False by (metis mod_less mod_mult_self4)
  qed simp
qed

lemma code_symbol_bits:
  assumes "byte_len \<le> length random" "5 * i + 5 \<le> 8 * byte_len"
  shows "code_symbol random byte_len i = bits_value (take 5 (drop (5 * i) (bits_of random)))"
proof (rule bit_eqI)
  fix n
  define k j where kj: "k = 5 * i mod 8" "j = 5 * i div 8"
  let ?x = "random ! j" and ?y = "if j + 1 < byte_len then random ! (j + 1) else 0"
  have i: "5 * i = 8 * j + k" "k < 8"
    by (simp_all add: kj)
  have v: "(if j + 1 < byte_len then push_bit 8 (ucast ?x :: u16) OR ucast (random ! (j + 1)) else push_bit 8 (ucast ?x))
      = push_bit 8 (ucast ?x :: u16) OR ucast ?y"
    by simp
  have low: "bit (unat (drop_bit m w AND 0x1f)) n \<longleftrightarrow> n < 5 \<and> bit w (m + n)" for w :: u16 and m
  proof -
    have "drop_bit m w AND 0x1f = take_bit 5 (drop_bit m w)"
      by (simp add: take_bit_eq_mask mask_eq_exp_minus_1)
    then show ?thesis
      by (simp add: bit_unsigned_iff bit_take_bit_iff bit_drop_bit_eq)
  qed
  have "bit (code_symbol random byte_len i) n \<longleftrightarrow> n < 5 \<and> bit (push_bit 8 (ucast ?x :: u16) OR ucast ?y) (11 - k + n)"
    unfolding code_symbol_def Let_def mult.commute [of i] kj [symmetric] v
    by (rule low)
  also have "\<dots> \<longleftrightarrow> n < 5 \<and> bits_of random ! (5 * i + (4 - n))"
  proof (cases "n < 5")
    case True
    let ?m = "5 * i + (4 - n)"
    have m: "?m < 8 * byte_len" "?m = 8 * j + (k + (4 - n))"
      using assms(2) i by linarith+
    then have "bits_of random ! ?m = bit (random ! (?m div 8)) (7 - ?m mod 8)"
      using assms(1) by (intro nth_bits_of) linarith
    moreover have "?m div 8 = (if k + (4 - n) < 8 then j else j + 1)"
      "?m mod 8 = (if k + (4 - n) < 8 then k + (4 - n) else k + (4 - n) - 8)"
      unfolding m(2) using i(2) by (intro window_div; linarith)+
    moreover have "j + 1 < byte_len" if "\<not> k + (4 - n) < 8"
      using that m by linarith
    ultimately show ?thesis
      using bit_symbol_window [OF True i(2), of ?x ?y] True by (cases "k + (4 - n) < 8") (simp_all only: if_True if_False simp_thms, simp)
  qed simp
  also have "\<dots> \<longleftrightarrow> bit (bits_value (take 5 (drop (5 * i) (bits_of random)))) n"
    using assms by (auto simp: bits_value_def bit_horner_sum_bit_iff rev_nth length_bits_of)
  finally show "bit (code_symbol random byte_len i) n \<longleftrightarrow> bit (bits_value (take 5 (drop (5 * i) (bits_of random)))) n" .
qed

lemma bits_value_less: "bits_value bits < 2 ^ length bits"
  unfolding bits_value_def using horner_sum_of_bool_2_less [of "rev bits"] by simp

lemma generated_valid:
  assumes "generate_with_len (Some random) len = Inr c" "(len * 5 + 7) div 8 \<le> length random"
  shows "valid_code c"
proof -
  have len: "PAIRING_CODE_MIN_LEN \<le> len \<and> len \<le> PAIRING_CODE_MAX_LEN"
    and c: "c = map (\<lambda>i. CROCKFORD_ALPHABET ! code_symbol random ((len * 5 + 7) div 8) i) [0..<len]"
    using assms(1) by (auto simp: generate_with_len_def Let_def split: if_splits)
  have "code_symbol random ((len * 5 + 7) div 8) i < 32" if "i < len" for i
  proof -
    have "code_symbol random ((len * 5 + 7) div 8) i = bits_value (take 5 (drop (5 * i) (bits_of random)))"
      using that assms(2) by (intro code_symbol_bits) linarith+
    then show ?thesis
      using bits_value_less [of "take 5 (drop (5 * i) (bits_of random))"]
        power_increasing [of "length (take 5 (drop (5 * i) (bits_of random)))" 5 "2 :: nat"] by simp
  qed
  then show ?thesis
    using len c by (auto simp: valid_code_def)
qed

section \<open>Properties\<close>

text \<open>Generated pairing codes: for every admissible length the shifts and masks of \<open>generate_with_len\<close> read the
  random bytes as one string of bits and spell each group of five bits, in order, as one symbol of the
  alphabet, so that no bit is used twice; and the code that comes out is accepted by \<open>parse\<close> unchanged.\<close>

theorem pairing_code_generated:
  assumes "PAIRING_CODE_MIN_LEN \<le> len" "len \<le> PAIRING_CODE_MAX_LEN" "length random = (len * 5 + 7) div 8"
  shows "\<exists>c. generate_with_len (Some random) len = Inr c
     \<and> c = map (\<lambda>i. CROCKFORD_ALPHABET ! bits_value (take 5 (drop (5 * i) (bits_of random)))) [0..<len]
     \<and> pairing_code_parse c = Inr c"
proof -
  have "code_symbol random ((len * 5 + 7) div 8) i = bits_value (take 5 (drop (5 * i) (bits_of random)))" if "i < len" for i
    using that assms(3) by (intro code_symbol_bits) linarith+
  then obtain c where "generate_with_len (Some random) len = Inr c"
    "c = map (\<lambda>i. CROCKFORD_ALPHABET ! bits_value (take 5 (drop (5 * i) (bits_of random)))) [0..<len]"
    using assms by (simp add: generate_with_len_def Let_def)
  moreover from this(1) assms(3) have "pairing_code_parse c = Inr c"
    by (metis parse_valid generated_valid order.refl)
  ultimately show ?thesis
    by blast
qed

theorem pairing_code_generated_witness:
  "\<exists>c. generate_with_len (Some [0xff, 0, 0x12, 0x34, 0x56]) 8 = Inr c \<and> pairing_code_parse c = Inr c"
  using pairing_code_generated [of 8 "[0xff, 0, 0x12, 0x34, 0x56]"]
  by (auto simp: PAIRING_CODE_MIN_LEN_def PAIRING_CODE_MAX_LEN_def)

end
