(* ===== verification/Transfer_Message.thy ===== *)
theory Transfer_Message
  imports Transfer_Types
begin

text \<open>
  The messages of the file transfer protocol and their validation: \<open>transfer-protocol/src/message.rs\<close>. The three
  groups are \<open>pairing_control\<close>, \<open>transfer_control\<close> and \<open>path_check\<close>, one constructor per variant of the source
  with the fields in the order of the source. An enum that goes over the wire has its \<open>repr(u8)\<close> value and its
  \<open>TryFrom<u8>\<close>. Socket addresses follow \<open>std::net\<close>: the octets of the address and the port, for version six
  with flow information and scope.
\<close>

section \<open>Limits\<close>

definition MAX_CANDIDATES :: usize where "MAX_CANDIDATES = 64"
definition MAX_MANIFEST_FILES :: usize where "MAX_MANIFEST_FILES = 1000000"
definition MAX_PATH_LEN :: usize where "MAX_PATH_LEN = 4096"
definition MAX_DISPLAY_NAME_LEN :: usize where "MAX_DISPLAY_NAME_LEN = 256"
definition MAX_IDENTITY_HINT_LEN :: usize where "MAX_IDENTITY_HINT_LEN = 256"
definition MAX_ROOT_LABEL_LEN :: usize where "MAX_ROOT_LABEL_LEN = 256"
definition MAX_TICKET_LEN :: usize where "MAX_TICKET_LEN = 4096"
definition MAX_TRANSFER_ERROR_MESSAGE_LEN :: usize where "MAX_TRANSFER_ERROR_MESSAGE_LEN = 1024"

lemmas transfer_limits =
  MAX_CANDIDATES_def MAX_MANIFEST_FILES_def MAX_PATH_LEN_def MAX_DISPLAY_NAME_LEN_def MAX_IDENTITY_HINT_LEN_def
  MAX_ROOT_LABEL_LEN_def MAX_TICKET_LEN_def MAX_TRANSFER_ERROR_MESSAGE_LEN_def

section \<open>Enumerations\<close>

datatype message_type =
    CreatePairing_MT
  | PairingCreated_MT
  | JoinPairing_MT
  | PairingJoined_MT
  | OfferReady_MT
  | AcceptOffer_MT
  | CandidateList_MT
  | PathCheckAuthorization_MT
  | PathSelected_MT
  | RelayOpen_MT
  | RelayClosed_MT
  | Cancel_MT
  | ResumeTicket_MT
  | ResumeTransfer_MT
  | ResumeAccepted_MT
  | PeerReconnected_MT
  | SessionHello_MT
  | ManifestBegin_MT
  | ManifestItem_MT
  | ManifestEnd_MT
  | ReceiveDecision_MT
  | ResumeQuery_MT
  | ResumeState_MT
  | FileBegin_MT
  | Checkpoint_MT
  | FileComplete_MT
  | FileRejected_MT
  | TransferComplete_MT
  | TransferError_MT
  | PathCheckRequest_MT
  | PathCheckResponse_MT

definition message_type_byte :: "message_type \<Rightarrow> u8" where
  "message_type_byte v = (case v of
      CreatePairing_MT \<Rightarrow> 1
    | PairingCreated_MT \<Rightarrow> 2
    | JoinPairing_MT \<Rightarrow> 3
    | PairingJoined_MT \<Rightarrow> 4
    | OfferReady_MT \<Rightarrow> 5
    | AcceptOffer_MT \<Rightarrow> 6
    | CandidateList_MT \<Rightarrow> 7
    | PathCheckAuthorization_MT \<Rightarrow> 8
    | PathSelected_MT \<Rightarrow> 9
    | RelayOpen_MT \<Rightarrow> 10
    | RelayClosed_MT \<Rightarrow> 11
    | Cancel_MT \<Rightarrow> 12
    | ResumeTicket_MT \<Rightarrow> 13
    | ResumeTransfer_MT \<Rightarrow> 14
    | ResumeAccepted_MT \<Rightarrow> 15
    | PeerReconnected_MT \<Rightarrow> 16
    | SessionHello_MT \<Rightarrow> 20
    | ManifestBegin_MT \<Rightarrow> 21
    | ManifestItem_MT \<Rightarrow> 22
    | ManifestEnd_MT \<Rightarrow> 23
    | ReceiveDecision_MT \<Rightarrow> 24
    | ResumeQuery_MT \<Rightarrow> 25
    | ResumeState_MT \<Rightarrow> 26
    | FileBegin_MT \<Rightarrow> 27
    | Checkpoint_MT \<Rightarrow> 28
    | FileComplete_MT \<Rightarrow> 29
    | FileRejected_MT \<Rightarrow> 30
    | TransferComplete_MT \<Rightarrow> 31
    | TransferError_MT \<Rightarrow> 32
    | PathCheckRequest_MT \<Rightarrow> 40
    | PathCheckResponse_MT \<Rightarrow> 41)"

definition message_type_try_from :: "u8 \<Rightarrow> transfer_error + message_type" where
  "message_type_try_from v =
     (if v = 1 then Inr CreatePairing_MT
      else if v = 2 then Inr PairingCreated_MT
      else if v = 3 then Inr JoinPairing_MT
      else if v = 4 then Inr PairingJoined_MT
      else if v = 5 then Inr OfferReady_MT
      else if v = 6 then Inr AcceptOffer_MT
      else if v = 7 then Inr CandidateList_MT
      else if v = 8 then Inr PathCheckAuthorization_MT
      else if v = 9 then Inr PathSelected_MT
      else if v = 10 then Inr RelayOpen_MT
      else if v = 11 then Inr RelayClosed_MT
      else if v = 12 then Inr Cancel_MT
      else if v = 13 then Inr ResumeTicket_MT
      else if v = 14 then Inr ResumeTransfer_MT
      else if v = 15 then Inr ResumeAccepted_MT
      else if v = 16 then Inr PeerReconnected_MT
      else if v = 20 then Inr SessionHello_MT
      else if v = 21 then Inr ManifestBegin_MT
      else if v = 22 then Inr ManifestItem_MT
      else if v = 23 then Inr ManifestEnd_MT
      else if v = 24 then Inr ReceiveDecision_MT
      else if v = 25 then Inr ResumeQuery_MT
      else if v = 26 then Inr ResumeState_MT
      else if v = 27 then Inr FileBegin_MT
      else if v = 28 then Inr Checkpoint_MT
      else if v = 29 then Inr FileComplete_MT
      else if v = 30 then Inr FileRejected_MT
      else if v = 31 then Inr TransferComplete_MT
      else if v = 32 then Inr TransferError_MT
      else if v = 40 then Inr PathCheckRequest_MT
      else if v = 41 then Inr PathCheckResponse_MT
      else Inl (UnknownMessageType v))"

datatype transfer_role = Offerer | Accepter

definition transfer_role_byte :: "transfer_role \<Rightarrow> u8" where
  "transfer_role_byte v = (case v of Offerer \<Rightarrow> 1 | Accepter \<Rightarrow> 2)"

definition transfer_role_try_from :: "u8 \<Rightarrow> transfer_error + transfer_role" where
  "transfer_role_try_from v =
     (if v = 1 then Inr Offerer
      else if v = 2 then Inr Accepter
      else Inl (InvalidValue_TP ''transfer role''))"

datatype capability = Upload

definition capability_byte :: "capability \<Rightarrow> u8" where
  "capability_byte v = (case v of Upload \<Rightarrow> 1)"

definition capability_try_from :: "u8 \<Rightarrow> transfer_error + capability" where
  "capability_try_from v =
     (if v = 1 then Inr Upload
      else Inl (InvalidValue_TP ''capability''))"

datatype accept_decision = Accept | Reject

definition accept_decision_byte :: "accept_decision \<Rightarrow> u8" where
  "accept_decision_byte v = (case v of Accept \<Rightarrow> 1 | Reject \<Rightarrow> 2)"

definition accept_decision_try_from :: "u8 \<Rightarrow> transfer_error + accept_decision" where
  "accept_decision_try_from v =
     (if v = 1 then Inr Accept
      else if v = 2 then Inr Reject
      else Inl (InvalidValue_TP ''decision''))"

datatype candidate_kind = Host_CK | RoutedLan_CK | ServerReflexive | PeerReflexive | Relay_CK

definition candidate_kind_byte :: "candidate_kind \<Rightarrow> u8" where
  "candidate_kind_byte v = (case v of Host_CK \<Rightarrow> 1 | RoutedLan_CK \<Rightarrow> 2 | ServerReflexive \<Rightarrow> 3 | PeerReflexive \<Rightarrow> 4 | Relay_CK \<Rightarrow> 5)"

definition candidate_kind_try_from :: "u8 \<Rightarrow> transfer_error + candidate_kind" where
  "candidate_kind_try_from v =
     (if v = 1 then Inr Host_CK
      else if v = 2 then Inr RoutedLan_CK
      else if v = 3 then Inr ServerReflexive
      else if v = 4 then Inr PeerReflexive
      else if v = 5 then Inr Relay_CK
      else Inl (InvalidValue_TP ''candidate kind''))"

datatype path_kind = Host_PK | RoutedLan_PK | ReflexiveDirect | Relay_PK

definition path_kind_byte :: "path_kind \<Rightarrow> u8" where
  "path_kind_byte v = (case v of Host_PK \<Rightarrow> 1 | RoutedLan_PK \<Rightarrow> 2 | ReflexiveDirect \<Rightarrow> 3 | Relay_PK \<Rightarrow> 4)"

definition path_kind_try_from :: "u8 \<Rightarrow> transfer_error + path_kind" where
  "path_kind_try_from v =
     (if v = 1 then Inr Host_PK
      else if v = 2 then Inr RoutedLan_PK
      else if v = 3 then Inr ReflexiveDirect
      else if v = 4 then Inr Relay_PK
      else Inl (InvalidValue_TP ''path kind''))"

datatype relay_close_reason = Complete_RC | Cancelled_RC | Failed_RC | Expired_RC

definition relay_close_reason_byte :: "relay_close_reason \<Rightarrow> u8" where
  "relay_close_reason_byte v = (case v of Complete_RC \<Rightarrow> 1 | Cancelled_RC \<Rightarrow> 2 | Failed_RC \<Rightarrow> 3 | Expired_RC \<Rightarrow> 4)"

definition relay_close_reason_try_from :: "u8 \<Rightarrow> transfer_error + relay_close_reason" where
  "relay_close_reason_try_from v =
     (if v = 1 then Inr Complete_RC
      else if v = 2 then Inr Cancelled_RC
      else if v = 3 then Inr Failed_RC
      else if v = 4 then Inr Expired_RC
      else Inl (InvalidValue_TP ''relay close reason''))"

datatype crypto_suite = InsecureTesting | X25519ChaCha20Poly1305

definition crypto_suite_byte :: "crypto_suite \<Rightarrow> u8" where
  "crypto_suite_byte v = (case v of InsecureTesting \<Rightarrow> 0 | X25519ChaCha20Poly1305 \<Rightarrow> 1)"

definition crypto_suite_try_from :: "u8 \<Rightarrow> transfer_error + crypto_suite" where
  "crypto_suite_try_from v =
     (if v = 0 then Inr InsecureTesting
      else if v = 1 then Inr X25519ChaCha20Poly1305
      else Inl (InvalidValue_TP ''crypto suite''))"

datatype overwrite_policy = Ask | NoReplace | ReplaceAfterConfirm | RenameWithSuffix

definition overwrite_policy_byte :: "overwrite_policy \<Rightarrow> u8" where
  "overwrite_policy_byte v = (case v of Ask \<Rightarrow> 1 | NoReplace \<Rightarrow> 2 | ReplaceAfterConfirm \<Rightarrow> 3 | RenameWithSuffix \<Rightarrow> 4)"

definition overwrite_policy_try_from :: "u8 \<Rightarrow> transfer_error + overwrite_policy" where
  "overwrite_policy_try_from v =
     (if v = 1 then Inr Ask
      else if v = 2 then Inr NoReplace
      else if v = 3 then Inr ReplaceAfterConfirm
      else if v = 4 then Inr RenameWithSuffix
      else Inl (InvalidValue_TP ''overwrite policy''))"

datatype file_reject_reason = Policy | AlreadyExists | InvalidPath_FR | StorageError_FR | IntegrityError

definition file_reject_reason_byte :: "file_reject_reason \<Rightarrow> u8" where
  "file_reject_reason_byte v = (case v of Policy \<Rightarrow> 1 | AlreadyExists \<Rightarrow> 2 | InvalidPath_FR \<Rightarrow> 3 | StorageError_FR \<Rightarrow> 4 | IntegrityError \<Rightarrow> 5)"

definition file_reject_reason_try_from :: "u8 \<Rightarrow> transfer_error + file_reject_reason" where
  "file_reject_reason_try_from v =
     (if v = 1 then Inr Policy
      else if v = 2 then Inr AlreadyExists
      else if v = 3 then Inr InvalidPath_FR
      else if v = 4 then Inr StorageError_FR
      else if v = 5 then Inr IntegrityError
      else Inl (InvalidValue_TP ''file reject reason''))"

datatype transfer_error_scope = Session_ES | File_ES | Path_ES

definition transfer_error_scope_byte :: "transfer_error_scope \<Rightarrow> u8" where
  "transfer_error_scope_byte v = (case v of Session_ES \<Rightarrow> 1 | File_ES \<Rightarrow> 2 | Path_ES \<Rightarrow> 3)"

definition transfer_error_scope_try_from :: "u8 \<Rightarrow> transfer_error + transfer_error_scope" where
  "transfer_error_scope_try_from v =
     (if v = 1 then Inr Session_ES
      else if v = 2 then Inr File_ES
      else if v = 3 then Inr Path_ES
      else Inl (InvalidValue_TP ''transfer error scope''))"

text \<open>What is written for a value of an enumeration is read as that value, and only that.\<close>

lemma enum_round_trip [simp]:
  "message_type_try_from (message_type_byte v0) = Inr v0"
  "transfer_role_try_from (transfer_role_byte v1) = Inr v1"
  "capability_try_from (capability_byte v2) = Inr v2"
  "accept_decision_try_from (accept_decision_byte v3) = Inr v3"
  "candidate_kind_try_from (candidate_kind_byte v4) = Inr v4"
  "path_kind_try_from (path_kind_byte v5) = Inr v5"
  "relay_close_reason_try_from (relay_close_reason_byte v6) = Inr v6"
  "crypto_suite_try_from (crypto_suite_byte v7) = Inr v7"
  "overwrite_policy_try_from (overwrite_policy_byte v8) = Inr v8"
  "file_reject_reason_try_from (file_reject_reason_byte v9) = Inr v9"
  "transfer_error_scope_try_from (transfer_error_scope_byte v10) = Inr v10"
  subgoal by (cases v0) (simp_all add: message_type_try_from_def message_type_byte_def)
  subgoal by (cases v1) (simp_all add: transfer_role_try_from_def transfer_role_byte_def)
  subgoal by (cases v2) (simp_all add: capability_try_from_def capability_byte_def)
  subgoal by (cases v3) (simp_all add: accept_decision_try_from_def accept_decision_byte_def)
  subgoal by (cases v4) (simp_all add: candidate_kind_try_from_def candidate_kind_byte_def)
  subgoal by (cases v5) (simp_all add: path_kind_try_from_def path_kind_byte_def)
  subgoal by (cases v6) (simp_all add: relay_close_reason_try_from_def relay_close_reason_byte_def)
  subgoal by (cases v7) (simp_all add: crypto_suite_try_from_def crypto_suite_byte_def)
  subgoal by (cases v8) (simp_all add: overwrite_policy_try_from_def overwrite_policy_byte_def)
  subgoal by (cases v9) (simp_all add: file_reject_reason_try_from_def file_reject_reason_byte_def)
  subgoal by (cases v10) (simp_all add: transfer_error_scope_try_from_def transfer_error_scope_byte_def)
  done

section \<open>Addresses and candidates\<close>

datatype socket_addr = V4 bytes u16 | V6 bytes u16 u32 u32

fun addr_ip :: "socket_addr \<Rightarrow> bytes" where
  "addr_ip (V4 ip port) = ip"
| "addr_ip (V6 ip port flowinfo scope_id) = ip"

fun addr_port :: "socket_addr \<Rightarrow> u16" where
  "addr_port (V4 ip port) = port"
| "addr_port (V6 ip port flowinfo scope_id) = port"

definition is_unspecified :: "socket_addr \<Rightarrow> bool" where
  "is_unspecified a \<longleftrightarrow> list_all (\<lambda>b. b = 0) (addr_ip a)"

text \<open>\<open>224.0.0.0/4\<close> and \<open>ff00::/8\<close>\<close>

fun is_multicast :: "socket_addr \<Rightarrow> bool" where
  "is_multicast (V4 ip port) = (case ip of b # _ \<Rightarrow> in_range 224 239 b | [] \<Rightarrow> False)"
| "is_multicast (V6 ip port flowinfo scope_id) = (case ip of b # _ \<Rightarrow> b = 0xff | [] \<Rightarrow> False)"

definition unusable_addr :: "socket_addr \<Rightarrow> bool" where
  "unusable_addr a \<longleftrightarrow> is_unspecified a \<or> is_multicast a \<or> addr_port a = 0"

record candidate =
  cd_id :: candidate_id
  cd_kind :: candidate_kind
  cd_address :: "socket_addr option"
  cd_priority :: u16
  cd_interface_index :: "u32 option"

definition candidate_validate :: "candidate \<Rightarrow> transfer_error + unit" where
  "candidate_validate c =
     (if cd_kind c = Relay_CK then
        if cd_address c \<noteq> None then Inl (InvalidValue_TP ''relay candidate address'') else Inr ()
      else
        (case cd_address c of
           None \<Rightarrow> Inl (InvalidValue_TP ''candidate address'')
         | Some a \<Rightarrow> if unusable_addr a then Inl (InvalidValue_TP ''candidate address'') else Inr ()))"

record file_metadata =
  md_modified_time_unix_seconds :: "i64 option"
  md_mode :: "u32 option"

section \<open>Messages\<close>

datatype pairing_control =
    CreatePairing client_instance_id capability u32 bytes
  | PairingCreated pairing_id pairing_code u64 session_ticket
  | JoinPairing pairing_code client_instance_id bytes
  | PairingJoined pairing_id bytes bytes session_ticket
  | OfferReady transfer_id digest u64 u64 bytes
  | AcceptOffer transfer_id accept_decision bytes
  | CandidateList transfer_id "candidate list" digest
  | PathCheckAuthorization transfer_id check_token u64
  | PathSelected transfer_id path_id path_kind u64 u16
  | RelayOpen transfer_id relay_id session_ticket
  | RelayClosed transfer_id relay_close_reason
  | Cancel transfer_id u16
  | ResumeTicket pairing_id transfer_id transfer_role digest u64 session_ticket
  | ResumeTransfer pairing_id transfer_id transfer_role client_instance_id session_ticket
  | ResumeAccepted pairing_id transfer_id transfer_role digest u64
  | PeerReconnected transfer_id transfer_role

datatype transfer_control =
    SessionHello transfer_id u8 crypto_suite digest bytes
  | ManifestBegin u64 u64 digest
  | ManifestItem file_id bytes u64 digest file_metadata
  | ManifestEnd digest
  | ReceiveDecision bool overwrite_policy bytes
  | ResumeQuery file_id digest u64
  | ResumeState file_id u64 u64 digest
  | FileBegin file_id u64 u64 u64 digest
  | Checkpoint file_id u64 u64
  | FileComplete file_id u64 digest
  | FileRejected file_id file_reject_reason
  | TransferComplete transfer_id u64 u64
  | TransferError transfer_error_scope u32 bool bytes

datatype path_check =
    PathCheckRequest transfer_id transaction_id check_token candidate_id u64
  | PathCheckResponse transfer_id transaction_id check_token candidate_id socket_addr u64

datatype message = Pairing pairing_control | Transfer transfer_control | Path path_check

fun pairing_type :: "pairing_control \<Rightarrow> message_type" where
  "pairing_type (CreatePairing _ _ _ _) = CreatePairing_MT"
| "pairing_type (PairingCreated _ _ _ _) = PairingCreated_MT"
| "pairing_type (JoinPairing _ _ _) = JoinPairing_MT"
| "pairing_type (PairingJoined _ _ _ _) = PairingJoined_MT"
| "pairing_type (OfferReady _ _ _ _ _) = OfferReady_MT"
| "pairing_type (AcceptOffer _ _ _) = AcceptOffer_MT"
| "pairing_type (CandidateList _ _ _) = CandidateList_MT"
| "pairing_type (PathCheckAuthorization _ _ _) = PathCheckAuthorization_MT"
| "pairing_type (PathSelected _ _ _ _ _) = PathSelected_MT"
| "pairing_type (RelayOpen _ _ _) = RelayOpen_MT"
| "pairing_type (RelayClosed _ _) = RelayClosed_MT"
| "pairing_type (Cancel _ _) = Cancel_MT"
| "pairing_type (ResumeTicket _ _ _ _ _ _) = ResumeTicket_MT"
| "pairing_type (ResumeTransfer _ _ _ _ _) = ResumeTransfer_MT"
| "pairing_type (ResumeAccepted _ _ _ _ _) = ResumeAccepted_MT"
| "pairing_type (PeerReconnected _ _) = PeerReconnected_MT"

fun transfer_type :: "transfer_control \<Rightarrow> message_type" where
  "transfer_type (SessionHello _ _ _ _ _) = SessionHello_MT"
| "transfer_type (ManifestBegin _ _ _) = ManifestBegin_MT"
| "transfer_type (ManifestItem _ _ _ _ _) = ManifestItem_MT"
| "transfer_type (ManifestEnd _) = ManifestEnd_MT"
| "transfer_type (ReceiveDecision _ _ _) = ReceiveDecision_MT"
| "transfer_type (ResumeQuery _ _ _) = ResumeQuery_MT"
| "transfer_type (ResumeState _ _ _ _) = ResumeState_MT"
| "transfer_type (FileBegin _ _ _ _ _) = FileBegin_MT"
| "transfer_type (Checkpoint _ _ _) = Checkpoint_MT"
| "transfer_type (FileComplete _ _ _) = FileComplete_MT"
| "transfer_type (FileRejected _ _) = FileRejected_MT"
| "transfer_type (TransferComplete _ _ _) = TransferComplete_MT"
| "transfer_type (TransferError _ _ _ _) = TransferError_MT"

fun path_type :: "path_check \<Rightarrow> message_type" where
  "path_type (PathCheckRequest _ _ _ _ _) = PathCheckRequest_MT"
| "path_type (PathCheckResponse _ _ _ _ _ _) = PathCheckResponse_MT"

fun message_type_of :: "message \<Rightarrow> message_type" where
  "message_type_of (Pairing m) = pairing_type m"
| "message_type_of (Transfer m) = transfer_type m"
| "message_type_of (Path m) = path_type m"

section \<open>Validation\<close>

fun first_error :: "('a \<Rightarrow> 'e + unit) \<Rightarrow> 'a list \<Rightarrow> 'e + unit" where
  "first_error f [] = Inr ()"
| "first_error f (x # xs) = and_then (f x) (\<lambda>_. first_error f xs)"

definition validate_candidates :: "candidate list \<Rightarrow> transfer_error + unit" where
  "validate_candidates cs =
     (if length cs > MAX_CANDIDATES then Inl (TooManyItems ''candidates'' MAX_CANDIDATES (length cs))
      else first_error candidate_validate cs)"

definition validate_code :: "pairing_code \<Rightarrow> transfer_error + unit" where
  "validate_code code = and_then (pairing_code_parse code) (\<lambda>_. Inr ())"

definition validate_ticket :: "session_ticket \<Rightarrow> transfer_error + unit" where
  "validate_ticket ticket =
     (if length ticket > MAX_TICKET_LEN then Inl (FieldTooLarge ''session ticket'' MAX_TICKET_LEN (length ticket))
      else Inr ())"

definition validate_non_empty_ticket :: "session_ticket \<Rightarrow> transfer_error + unit" where
  "validate_non_empty_ticket ticket =
     and_then (validate_ticket ticket) (\<lambda>_.
     if ticket = [] then Inl (InvalidValue_TP ''resume ticket'') else Inr ())"

definition validate_string :: "bytes \<Rightarrow> usize \<Rightarrow> string \<Rightarrow> transfer_error + unit" where
  "validate_string s maximum field =
     (if length s > maximum \<or> length s > 65535 then Inl (FieldTooLarge field (min maximum 65535) (length s))
      else Inr ())"

definition validate_file_count :: "u64 \<Rightarrow> transfer_error + unit" where
  "validate_file_count file_count =
     (if file_count > of_nat MAX_MANIFEST_FILES
      then Inl (TooManyItems ''file_count'' MAX_MANIFEST_FILES (unat file_count)) else Inr ())"

fun pairing_validate :: "pairing_control \<Rightarrow> transfer_error + unit" where
  "pairing_validate (PairingCreated _ code _ ticket) =
     and_then (validate_ticket ticket) (\<lambda>_. validate_code code)"
| "pairing_validate (PairingJoined _ offerer accepter ticket) =
     and_then (validate_string offerer MAX_IDENTITY_HINT_LEN ''offerer identity'') (\<lambda>_.
     and_then (validate_string accepter MAX_IDENTITY_HINT_LEN ''accepter identity'') (\<lambda>_.
     validate_ticket ticket))"
| "pairing_validate (OfferReady _ _ file_count _ name) =
     and_then (validate_file_count file_count) (\<lambda>_.
     validate_string name MAX_DISPLAY_NAME_LEN ''sender display name'')"
| "pairing_validate (AcceptOffer _ _ policy) = validate_string policy MAX_ROOT_LABEL_LEN ''receiver root policy''"
| "pairing_validate (CandidateList _ cs _) = validate_candidates cs"
| "pairing_validate (RelayOpen _ _ ticket) = validate_ticket ticket"
| "pairing_validate (ResumeTicket _ _ _ _ _ ticket) = validate_non_empty_ticket ticket"
| "pairing_validate (ResumeTransfer _ _ _ _ ticket) = validate_non_empty_ticket ticket"
| "pairing_validate _ = Inr ()"

fun transfer_validate :: "transfer_control \<Rightarrow> transfer_error + unit" where
  "transfer_validate (ManifestBegin file_count _ _) = validate_file_count file_count"
| "transfer_validate (ManifestItem _ path _ _ _) = validate_string path MAX_PATH_LEN ''relative path''"
| "transfer_validate (ReceiveDecision _ _ label) = validate_string label MAX_ROOT_LABEL_LEN ''target root label''"
| "transfer_validate (TransferError _ _ _ text) =
     validate_string text MAX_TRANSFER_ERROR_MESSAGE_LEN ''transfer error message''"
| "transfer_validate _ = Inr ()"

fun path_validate :: "path_check \<Rightarrow> transfer_error + unit" where
  "path_validate (PathCheckRequest _ _ _ _ _) = Inr ()"
| "path_validate (PathCheckResponse _ _ _ _ observed_address _) =
     (if unusable_addr observed_address then Inl (InvalidValue_TP ''path check observed address'') else Inr ())"

fun message_validate :: "message \<Rightarrow> transfer_error + unit" where
  "message_validate (Pairing m) = pairing_validate m"
| "message_validate (Transfer m) = transfer_validate m"
| "message_validate (Path m) = path_validate m"

section \<open>Well-formed values\<close>

text \<open>What the types of the source say: the lengths of arrays, that strings are UTF-8, and that a \<open>PairingCode\<close> is
  one that \<open>parse\<close> or \<open>generate\<close> returned.\<close>

definition valid_id :: "bytes \<Rightarrow> bool" where "valid_id x \<longleftrightarrow> length x = ID_LEN"

definition valid_digest :: "digest \<Rightarrow> bool" where "valid_digest d \<longleftrightarrow> length (dg_bytes d) = 32"

fun valid_addr :: "socket_addr \<Rightarrow> bool" where
  "valid_addr (V4 ip _) = (length ip = 4)"
| "valid_addr (V6 ip _ _ _) = (length ip = 16)"

definition valid_candidate :: "candidate \<Rightarrow> bool" where
  "valid_candidate c \<longleftrightarrow> valid_id (cd_id c) \<and> (\<forall>a. cd_address c = Some a \<longrightarrow> valid_addr a)"

fun valid_pairing :: "pairing_control \<Rightarrow> bool" where
  "valid_pairing (CreatePairing cid _ _ key) \<longleftrightarrow> valid_id cid \<and> length key = 32"
| "valid_pairing (PairingCreated pid code _ _) \<longleftrightarrow> valid_id pid \<and> valid_code code"
| "valid_pairing (JoinPairing code cid key) \<longleftrightarrow> valid_code code \<and> valid_id cid \<and> length key = 32"
| "valid_pairing (PairingJoined pid offerer accepter _) \<longleftrightarrow> valid_id pid \<and> utf8_valid offerer \<and> utf8_valid accepter"
| "valid_pairing (OfferReady tid d _ _ name) \<longleftrightarrow> valid_id tid \<and> valid_digest d \<and> utf8_valid name"
| "valid_pairing (AcceptOffer tid _ policy) \<longleftrightarrow> valid_id tid \<and> utf8_valid policy"
| "valid_pairing (CandidateList tid cs d) \<longleftrightarrow> valid_id tid \<and> list_all valid_candidate cs \<and> valid_digest d"
| "valid_pairing (PathCheckAuthorization tid token _) \<longleftrightarrow> valid_id tid \<and> length token = CHECK_TOKEN_LEN"
| "valid_pairing (PathSelected tid pid _ _ _) \<longleftrightarrow> valid_id tid \<and> valid_id pid"
| "valid_pairing (RelayOpen tid rid _) \<longleftrightarrow> valid_id tid \<and> valid_id rid"
| "valid_pairing (RelayClosed tid _) \<longleftrightarrow> valid_id tid"
| "valid_pairing (Cancel tid _) \<longleftrightarrow> valid_id tid"
| "valid_pairing (ResumeTicket pid tid _ d _ _) \<longleftrightarrow> valid_id pid \<and> valid_id tid \<and> valid_digest d"
| "valid_pairing (ResumeTransfer pid tid _ cid _) \<longleftrightarrow> valid_id pid \<and> valid_id tid \<and> valid_id cid"
| "valid_pairing (ResumeAccepted pid tid _ d _) \<longleftrightarrow> valid_id pid \<and> valid_id tid \<and> valid_digest d"
| "valid_pairing (PeerReconnected tid _) \<longleftrightarrow> valid_id tid"

fun valid_transfer :: "transfer_control \<Rightarrow> bool" where
  "valid_transfer (SessionHello tid _ _ d namespace) \<longleftrightarrow> valid_id tid \<and> valid_digest d \<and> length namespace = 16"
| "valid_transfer (ManifestBegin _ _ d) \<longleftrightarrow> valid_digest d"
| "valid_transfer (ManifestItem fid path _ d _) \<longleftrightarrow> valid_id fid \<and> utf8_valid path \<and> valid_digest d"
| "valid_transfer (ManifestEnd d) \<longleftrightarrow> valid_digest d"
| "valid_transfer (ReceiveDecision _ _ label) \<longleftrightarrow> utf8_valid label"
| "valid_transfer (ResumeQuery fid d _) \<longleftrightarrow> valid_id fid \<and> valid_digest d"
| "valid_transfer (ResumeState fid _ _ d) \<longleftrightarrow> valid_id fid \<and> valid_digest d"
| "valid_transfer (FileBegin fid _ _ _ d) \<longleftrightarrow> valid_id fid \<and> valid_digest d"
| "valid_transfer (Checkpoint fid _ _) \<longleftrightarrow> valid_id fid"
| "valid_transfer (FileComplete fid _ d) \<longleftrightarrow> valid_id fid \<and> valid_digest d"
| "valid_transfer (FileRejected fid _) \<longleftrightarrow> valid_id fid"
| "valid_transfer (TransferComplete tid _ _) \<longleftrightarrow> valid_id tid"
| "valid_transfer (TransferError _ _ _ text) \<longleftrightarrow> utf8_valid text"

fun valid_path :: "path_check \<Rightarrow> bool" where
  "valid_path (PathCheckRequest tid xid token cid _) \<longleftrightarrow>
     valid_id tid \<and> valid_id xid \<and> length token = CHECK_TOKEN_LEN \<and> valid_id cid"
| "valid_path (PathCheckResponse tid xid token cid a _) \<longleftrightarrow>
     valid_id tid \<and> valid_id xid \<and> length token = CHECK_TOKEN_LEN \<and> valid_id cid \<and> valid_addr a"

fun valid_message :: "message \<Rightarrow> bool" where
  "valid_message (Pairing m) = valid_pairing m"
| "valid_message (Transfer m) = valid_transfer m"
| "valid_message (Path m) = valid_path m"

end
