(* ===== verification/Transfer_Wire.thy ===== *)
theory Transfer_Wire
  imports Transfer_Message
begin

text \<open>
  \<open>Writer\<close> and \<open>Reader\<close> of \<open>transfer-protocol/src/codec.rs\<close>. A statement on the writer takes the bytes written so far
  to those after it or to an error; \<open>wr_seq\<close> is a sequence of statements. The reader is a cursor as in \<open>Cursor\<close>.

  \<open>emits w d x\<close> ties the two together: whatever \<open>w\<close> appends is read by \<open>d\<close> as \<open>x\<close>. The rules for the fields and
  for sequences prove it of a whole message along its text.
\<close>

section \<open>Writer\<close>

type_synonym write_op = "bytes \<Rightarrow> transfer_error + bytes"
type_synonym 'a read_op = "(transfer_error, 'a) reader"

fun wr_seq :: "write_op list \<Rightarrow> write_op" where
  "wr_seq [] out = Inr out"
| "wr_seq (w # ws) out = and_then (w out) (wr_seq ws)"

definition wr_fail :: "transfer_error \<Rightarrow> write_op" where
  "wr_fail e out = Inl e"

definition wr_fixed :: "bytes \<Rightarrow> write_op" where
  "wr_fixed bs out = Inr (out @ bs)"

definition wr_u8 :: "u8 \<Rightarrow> write_op" where "wr_u8 v = wr_fixed [v]"
definition wr_u16 :: "u16 \<Rightarrow> write_op" where "wr_u16 v = wr_fixed (to_be_bytes 2 v)"
definition wr_u32 :: "u32 \<Rightarrow> write_op" where "wr_u32 v = wr_fixed (to_be_bytes 4 v)"
definition wr_u64 :: "u64 \<Rightarrow> write_op" where "wr_u64 v = wr_fixed (to_be_bytes 8 v)"
definition wr_i64 :: "i64 \<Rightarrow> write_op" where "wr_i64 v = wr_fixed (to_be_bytes 8 v)"
definition wr_id :: "bytes \<Rightarrow> write_op" where "wr_id x = wr_fixed x"

definition wr_bool :: "bool \<Rightarrow> write_op" where "wr_bool b = wr_u8 (if b then 1 else 0)"

definition wr_blob :: "bytes \<Rightarrow> usize \<Rightarrow> write_op" where
  "wr_blob bs maximum =
     (if length bs > maximum \<or> length bs > 4294967295
      then wr_fail (FieldTooLarge ''blob'' (min maximum 4294967295) (length bs))
      else wr_seq [wr_u32 (of_nat (length bs)), wr_fixed bs])"

definition wr_string :: "bytes \<Rightarrow> usize \<Rightarrow> string \<Rightarrow> write_op" where
  "wr_string s maximum field =
     (if length s > maximum \<or> length s > 65535 then wr_fail (FieldTooLarge field (min maximum 65535) (length s))
      else wr_seq [wr_u16 (of_nat (length s)), wr_fixed s])"

definition wr_pairing_code :: "pairing_code \<Rightarrow> write_op" where
  "wr_pairing_code code =
     (if length code > 255 then wr_fail InvalidPairingCode
      else wr_seq [wr_u8 (of_nat (length code)), wr_fixed code])"

definition wr_digest :: "digest \<Rightarrow> write_op" where
  "wr_digest d = wr_seq [wr_u8 (hash_algorithm_byte (dg_algorithm d)), wr_fixed (dg_bytes d)]"

fun wr_socket_addr :: "socket_addr \<Rightarrow> write_op" where
  "wr_socket_addr (V4 ip port) = wr_seq [wr_u8 4, wr_fixed ip, wr_u16 port]"
| "wr_socket_addr (V6 ip port flowinfo scope_id) =
     wr_seq [wr_u8 6, wr_fixed ip, wr_u16 port, wr_u32 flowinfo, wr_u32 scope_id]"

definition wr_socket_addr_option :: "socket_addr option \<Rightarrow> write_op" where
  "wr_socket_addr_option a = (case a of Some a \<Rightarrow> wr_socket_addr a | None \<Rightarrow> wr_u8 0)"

section \<open>Reader\<close>

definition rd_take :: "usize \<Rightarrow> string \<Rightarrow> bytes read_op" where
  "rd_take len ctxt input offset =
     and_then (ok_or (Truncated_TP ctxt) (checked_add_usize offset len)) (\<lambda>stop.
     and_then (ok_or (Truncated_TP ctxt) (slice input offset stop)) (\<lambda>bs.
     Inr (bs, stop)))"

definition rd_finish :: "unit read_op" where
  "rd_finish input offset =
     (if offset = length input then Inr ((), offset) else Inl (InvalidValue_TP ''trailing message body''))"

definition rd_fail :: "transfer_error \<Rightarrow> 'a read_op" where
  "rd_fail e = lift_read (Inl e)"

definition rd_u8 :: "u8 read_op" where
  "rd_u8 = then_read (rd_take 1 ''u8'') (\<lambda>bs.
     case bs of b # _ \<Rightarrow> return_read b | [] \<Rightarrow> rd_fail (Truncated_TP ''u8''))"

definition rd_array :: "nat \<Rightarrow> string \<Rightarrow> bytes read_op" where
  "rd_array n ctxt = rd_take n ctxt"

definition rd_u16 :: "u16 read_op" where "rd_u16 = map_read from_be_bytes (rd_array 2 ''u16'')"
definition rd_u32 :: "u32 read_op" where "rd_u32 = map_read from_be_bytes (rd_array 4 ''u32'')"
definition rd_u64 :: "u64 read_op" where "rd_u64 = map_read from_be_bytes (rd_array 8 ''u64'')"
definition rd_i64 :: "i64 read_op" where "rd_i64 = map_read from_be_bytes (rd_array 8 ''i64'')"

definition rd_id :: "string \<Rightarrow> bytes read_op" where "rd_id ctxt = rd_array ID_LEN ctxt"

definition rd_blob :: "usize \<Rightarrow> string \<Rightarrow> bytes read_op" where
  "rd_blob maximum ctxt =
     then_read rd_u32 (\<lambda>len.
     if unat len > maximum then rd_fail (FieldTooLarge ctxt maximum (unat len))
     else rd_take (unat len) ctxt)"

definition rd_string :: "usize \<Rightarrow> string \<Rightarrow> bytes read_op" where
  "rd_string maximum ctxt =
     then_read rd_u16 (\<lambda>len.
     if unat len > maximum then rd_fail (FieldTooLarge ctxt maximum (unat len))
     else
       then_read (rd_take (unat len) ctxt) (\<lambda>bs.
       if utf8_valid bs then return_read bs else rd_fail (InvalidUtf8_TP ctxt)))"

definition rd_pairing_code :: "pairing_code read_op" where
  "rd_pairing_code =
     then_read rd_u8 (\<lambda>len.
     then_read (rd_take (unat len) ''pairing code'') (\<lambda>bs.
     if utf8_valid bs then lift_read (pairing_code_parse bs) else rd_fail (InvalidUtf8_TP ''pairing code'')))"

definition rd_digest :: "digest read_op" where
  "rd_digest =
     then_read rd_u8 (\<lambda>v.
     then_read (lift_read (map_err (\<lambda>_. InvalidValue_TP ''hash algorithm'') (hash_algorithm_try_from v))) (\<lambda>algorithm.
     then_read (rd_array 32 ''digest'') (\<lambda>bs.
     return_read \<lparr>dg_algorithm = algorithm, dg_bytes = bs\<rparr>)))"

definition rd_bool :: "string \<Rightarrow> bool read_op" where
  "rd_bool field =
     then_read rd_u8 (\<lambda>v.
     if v = 0 then return_read False else if v = 1 then return_read True else rd_fail (InvalidValue_TP field))"

definition rd_enum :: "(u8 \<Rightarrow> transfer_error + 'a) \<Rightarrow> string \<Rightarrow> 'a read_op" where
  "rd_enum try_from field =
     then_read rd_u8 (\<lambda>v. lift_read (map_err (\<lambda>_. InvalidValue_TP field) (try_from v)))"

definition rd_socket_addr :: "socket_addr read_op" where
  "rd_socket_addr =
     then_read rd_u8 (\<lambda>version.
     if version = 4 then
       then_read (rd_array 4 ''IPv4 address'') (\<lambda>ip.
       then_read rd_u16 (\<lambda>port. return_read (V4 ip port)))
     else if version = 6 then
       then_read (rd_array 16 ''IPv6 address'') (\<lambda>ip.
       then_read rd_u16 (\<lambda>port.
       then_read rd_u32 (\<lambda>flowinfo.
       then_read rd_u32 (\<lambda>scope_id. return_read (V6 ip port flowinfo scope_id)))))
     else rd_fail (InvalidValue_TP ''socket address''))"

text \<open>\<open>self.offset -= 1\<close> before the address is read: the version byte is read again.\<close>

definition rd_socket_addr_option :: "socket_addr option read_op" where
  "rd_socket_addr_option input offset =
     and_then (rd_u8 input offset) (\<lambda>(version, offset).
     if version = 0 then Inr (None, offset)
     else if version = 4 \<or> version = 6 then map_read Some rd_socket_addr input (offset - 1)
     else Inl (InvalidValue_TP ''candidate address''))"

section \<open>What is written is read back\<close>

definition emits :: "write_op \<Rightarrow> 'a read_op \<Rightarrow> 'a \<Rightarrow> bool" where
  "emits w d x \<longleftrightarrow> (\<forall>out buf. w out = Inr buf \<longrightarrow> (\<exists>bs. buf = out @ bs \<and> reads d bs x))"

named_theorems emits_rules \<open>what a statement on the writer leaves is read back\<close>

lemma emitsI: "(\<And>out buf. w out = Inr buf \<Longrightarrow> \<exists>bs. buf = out @ bs \<and> reads d bs x) \<Longrightarrow> emits w d x"
  by (simp add: emits_def)

lemma emits_fixed: "reads d bs x \<Longrightarrow> emits (wr_fixed bs) d x"
  by (simp add: emits_def wr_fixed_def)

lemma emits_nil [emits_rules]: "emits (wr_seq []) (return_read x) x"
  by (auto simp: emits_def)

lemma emits_cons [emits_rules]:
  assumes "emits w d x" "emits (wr_seq ws) (f x) y"
  shows "emits (wr_seq (w # ws)) (then_read d f) y"
proof (rule emitsI)
  fix out buf
  assume "wr_seq (w # ws) out = Inr buf"
  then obtain mid where "w out = Inr mid" "wr_seq ws mid = Inr buf"
    by (auto simp: result_simps)
  then obtain bs cs where "mid = out @ bs" "reads d bs x" "buf = mid @ cs" "reads (f x) cs y"
    using assms unfolding emits_def by blast
  then show "\<exists>bs. buf = out @ bs \<and> reads (then_read d f) bs y"
    by (intro exI [of _ "bs @ cs"]) auto
qed

lemma emits_one: "emits (wr_seq [w]) d x = emits w d x"
proof -
  have "wr_seq [w] out = w out" for out
    by (cases "w out") simp_all
  then show ?thesis
    by (simp add: emits_def)
qed

lemma emits_fail [emits_rules]: "emits (wr_fail e) d x"
  by (simp add: emits_def wr_fail_def)

lemma emits_map: "emits w d x \<Longrightarrow> emits w (map_read g d) (g x)"
  unfolding emits_def by (metis reads_map_read)

lemma reads_take: "n = length bs \<Longrightarrow> reads (rd_take n ctxt) bs bs"
  by (rule readsI) (simp add: rd_take_def checked_add_usize_def)

lemma emits_array [emits_rules]: "length bs = n \<Longrightarrow> emits (wr_fixed bs) (rd_array n ctxt) bs"
  unfolding rd_array_def by (intro emits_fixed reads_take) simp

lemma emits_id [emits_rules]: "valid_id x \<Longrightarrow> emits (wr_id x) (rd_id ctxt) x"
  unfolding wr_id_def rd_id_def by (intro emits_array) (simp add: valid_id_def)

lemma emits_u8 [emits_rules]: "emits (wr_u8 v) rd_u8 v"
proof -
  have "reads rd_u8 ([v] @ []) v"
    unfolding rd_u8_def by (rule reads_then [OF reads_take]) (simp_all add: reads_return)
  then show ?thesis
    unfolding wr_u8_def by (intro emits_fixed) simp
qed

lemma emits_words [emits_rules]:
  "emits (wr_u16 a) rd_u16 a" "emits (wr_u32 b) rd_u32 b" "emits (wr_u64 c) rd_u64 c" "emits (wr_i64 d) rd_i64 d"
  unfolding wr_u16_def wr_u32_def wr_u64_def wr_i64_def rd_u16_def rd_u32_def rd_u64_def rd_i64_def
  using emits_map [OF emits_array [of "to_be_bytes 2 a" 2 "''u16''"], of "from_be_bytes :: _ \<Rightarrow> u16"]
    emits_map [OF emits_array [of "to_be_bytes 4 b" 4 "''u32''"], of "from_be_bytes :: _ \<Rightarrow> u32"]
    emits_map [OF emits_array [of "to_be_bytes 8 c" 8 "''u64''"], of "from_be_bytes :: _ \<Rightarrow> u64"]
    emits_map [OF emits_array [of "to_be_bytes 8 d" 8 "''i64''"], of "from_be_bytes :: _ \<Rightarrow> i64"]
  by (simp_all del: to_be_bytes.simps)

lemma emits_blob [emits_rules]: "emits (wr_blob bs maximum) (rd_blob maximum ctxt) bs"
proof (cases "length bs > maximum \<or> length bs > 4294967295")
  case False
  then have "unat (of_nat (length bs) :: u32) = length bs"
    by (intro unat_of_nat_small) simp
  with False show ?thesis
    unfolding wr_blob_def rd_blob_def
    by (simp del: wr_seq.simps)
      (intro emits_cons [OF emits_words(2)], simp add: emits_one emits_fixed reads_take del: wr_seq.simps)
qed (simp add: wr_blob_def emits_fail)

lemma emits_string [emits_rules]: "utf8_valid s \<Longrightarrow> emits (wr_string s maximum field) (rd_string maximum ctxt) s"
proof (cases "length s > maximum \<or> length s > 65535")
  case False
  assume utf8: "utf8_valid s"
  have n: "unat (of_nat (length s) :: u16) = length s"
    using False by (intro unat_of_nat_small) simp
  have "reads (then_read (rd_take (length s) ctxt) (\<lambda>bs. if utf8_valid bs then return_read bs else rd_fail (InvalidUtf8_TP ctxt))) (s @ []) s"
    by (rule reads_then [OF reads_take]) (simp_all add: utf8 reads_return)
  with False n show ?thesis
    unfolding wr_string_def rd_string_def
    by (simp del: wr_seq.simps) (intro emits_cons [OF emits_words(1)], simp add: emits_one emits_fixed del: wr_seq.simps)
qed (simp add: wr_string_def emits_fail)

lemma emits_pairing_code [emits_rules]:
  assumes "valid_code code"
  shows "emits (wr_pairing_code code) rd_pairing_code code"
proof -
  have len: "length code \<le> 255"
    using assms by (simp add: valid_code_def PAIRING_CODE_MAX_LEN_def)
  then have n: "unat (of_nat (length code) :: u8) = length code"
    by (intro unat_of_nat_small) simp
  have "reads (then_read (rd_take (length code) ''pairing code'') (\<lambda>bs.
      if utf8_valid bs then lift_read (pairing_code_parse bs) else rd_fail (InvalidUtf8_TP ''pairing code''))) (code @ []) code"
    by (rule reads_then [OF reads_take]) (simp_all add: valid_code_utf8 parse_valid assms reads_lift)
  with len n show ?thesis
    unfolding wr_pairing_code_def rd_pairing_code_def
    by (simp del: wr_seq.simps) (intro emits_cons [OF emits_u8], simp add: emits_one emits_fixed del: wr_seq.simps)
qed

lemma emits_enum:
  assumes "try_from v = Inr x"
  shows "emits (wr_u8 v) (rd_enum try_from field) x"
proof -
  have "emits (wr_seq [wr_u8 v]) (rd_enum try_from field) x"
    unfolding rd_enum_def using assms by (intro emits_cons [OF emits_u8]) (auto simp: emits_def)
  then show ?thesis
    by (simp add: emits_one)
qed

lemma emits_enums [emits_rules]:
  "emits (wr_u8 (capability_byte a)) (rd_enum capability_try_from field) a"
  "emits (wr_u8 (transfer_role_byte b)) (rd_enum transfer_role_try_from field) b"
  "emits (wr_u8 (accept_decision_byte c)) (rd_enum accept_decision_try_from field) c"
  "emits (wr_u8 (candidate_kind_byte d)) (rd_enum candidate_kind_try_from field) d"
  "emits (wr_u8 (path_kind_byte e)) (rd_enum path_kind_try_from field) e"
  "emits (wr_u8 (relay_close_reason_byte f)) (rd_enum relay_close_reason_try_from field) f"
  "emits (wr_u8 (crypto_suite_byte g)) (rd_enum crypto_suite_try_from field) g"
  "emits (wr_u8 (overwrite_policy_byte h)) (rd_enum overwrite_policy_try_from field) h"
  "emits (wr_u8 (file_reject_reason_byte i)) (rd_enum file_reject_reason_try_from field) i"
  "emits (wr_u8 (transfer_error_scope_byte j)) (rd_enum transfer_error_scope_try_from field) j"
  by (rule emits_enum, simp)+

lemma emits_bool [emits_rules]: "emits (wr_bool b) (rd_bool field) b"
proof -
  have "emits (wr_seq [wr_u8 (if b then 1 else 0)]) (rd_bool field) b"
    unfolding rd_bool_def by (intro emits_cons [OF emits_u8]) (auto simp: emits_def)
  then show ?thesis
    by (simp add: wr_bool_def emits_one)
qed

lemma then_read_lift [simp]: "then_read (lift_read (Inr x)) f = f x"
  by (simp add: then_read_def lift_read_def fun_eq_iff)

lemma emits_digest [emits_rules]:
  assumes "valid_digest d"
  shows "emits (wr_digest d) rd_digest d"
proof -
  have alg: "hash_algorithm_try_from (hash_algorithm_byte a) = Inr a" for a
    by (cases a) (simp_all add: hash_algorithm_try_from_def hash_algorithm_byte_def)
  have "emits (wr_seq [wr_fixed (dg_bytes d)]) (then_read (rd_array 32 ''digest'') (\<lambda>bs.
      return_read \<lparr>dg_algorithm = dg_algorithm d, dg_bytes = bs\<rparr>)) \<lparr>dg_algorithm = dg_algorithm d, dg_bytes = dg_bytes d\<rparr>"
    using assms by - (rule emits_rules | simp add: valid_digest_def)+
  moreover have "\<lparr>dg_algorithm = dg_algorithm d, dg_bytes = dg_bytes d\<rparr> = d"
    by simp
  ultimately show ?thesis
    unfolding wr_digest_def rd_digest_def
    by (intro emits_cons [OF emits_u8]) (simp add: alg)
qed

lemma emits_socket_addr [emits_rules]: "valid_addr a \<Longrightarrow> emits (wr_socket_addr a) rd_socket_addr a"
proof (induction a rule: wr_socket_addr.induct)
  case (1 ip port)
  then show ?case
    unfolding wr_socket_addr.simps rd_socket_addr_def
    by - (rule emits_cons [OF emits_u8], unfold if_P [OF refl], (rule emits_rules | simp)+)
next
  case (2 ip port flowinfo scope_id)
  have six: "(6 :: u8) = 4 \<longleftrightarrow> False"
    by simp
  from 2 show ?case
    unfolding wr_socket_addr.simps rd_socket_addr_def
    by - (rule emits_cons [OF emits_u8], unfold six if_False if_P [OF refl], (rule emits_rules | simp)+)
qed

text \<open>The first byte that \<open>wr_socket_addr\<close> writes is the version, which the optional reader looks at.\<close>

lemma socket_addr_version:
  "wr_socket_addr a out = Inr buf \<Longrightarrow> \<exists>b rest. buf = out @ b # rest \<and> (b = 4 \<or> b = 6)"
  by (cases a) (auto simp: wr_u8_def wr_u16_def wr_u32_def wr_fixed_def)

lemma reads_addr_option:
  assumes "reads rd_socket_addr (b # rest) a" "b = 4 \<or> b = 6"
  shows "reads rd_socket_addr_option (b # rest) (Some a)"
proof (rule readsI)
  fix pre post :: bytes
  assume len: "length pre + length (b # rest) < usize_limit"
  have "reads rd_u8 [b] b"
    using emits_u8 [of b] by (auto simp: emits_def wr_u8_def wr_fixed_def)
  from readsD [OF this, of pre "rest @ post"] len
  have "rd_u8 (pre @ (b # rest) @ post) (length pre) = Inr (b, length pre + 1)"
    by simp
  moreover have "map_read Some rd_socket_addr (pre @ (b # rest) @ post) (length pre)
      = Inr (Some a, length pre + length (b # rest))"
    by (rule readsD [OF reads_map_read [OF assms(1)] len])
  ultimately show "rd_socket_addr_option (pre @ (b # rest) @ post) (length pre) = Inr (Some a, length pre + length (b # rest))"
    using assms(2) by (auto simp: rd_socket_addr_option_def)
qed

lemma emits_socket_addr_option [emits_rules]:
  assumes "\<forall>x. a = Some x \<longrightarrow> valid_addr x"
  shows "emits (wr_socket_addr_option a) rd_socket_addr_option a"
proof (cases a)
  case None
  have "reads rd_socket_addr_option [0] None"
    using readsD [of rd_u8 "[0]" 0] emits_u8 [of 0]
    by (intro readsI) (auto simp: rd_socket_addr_option_def emits_def wr_u8_def wr_fixed_def reads_def)
  with None show ?thesis
    by (simp add: wr_socket_addr_option_def wr_u8_def emits_fixed)
next
  case (Some x)
  show ?thesis
  proof (rule emitsI)
    fix out buf
    assume w: "wr_socket_addr_option a out = Inr buf"
    then have w: "wr_socket_addr x out = Inr buf"
      using Some by (simp add: wr_socket_addr_option_def)
    then obtain bs where bs: "buf = out @ bs" "reads rd_socket_addr bs x"
      using emits_socket_addr [of x] assms Some unfolding emits_def by blast
    moreover obtain b rest where "buf = out @ b # rest" "b = 4 \<or> b = 6"
      using socket_addr_version [OF w] by blast
    ultimately show "\<exists>bs. buf = out @ bs \<and> reads rd_socket_addr_option bs a"
      using reads_addr_option Some by auto
  qed
qed

section \<open>What a reader promises\<close>

named_theorems safe_fields \<open>what the fields that are read satisfy\<close>

lemma safe_take: "safe_read (rd_take n ctxt) (\<lambda>bs. length bs = n)"
  by (rule safe_readI) (auto simp: rd_take_def result_simps checked_add_usize_def split: if_splits)

lemma safe_fail: "safe_read (rd_fail e) P"
  unfolding rd_fail_def by (rule safe_lift) simp

lemma safe_rd_array [safe_fields]: "safe_read (rd_array n ctxt) (\<lambda>bs. length bs = n)"
  by (simp add: rd_array_def safe_take)

lemma safe_rd_id [safe_fields]: "safe_read (rd_id ctxt) valid_id"
  by (simp add: rd_id_def valid_id_def [abs_def] safe_rd_array)

lemma safe_rd_u8 [safe_fields]: "safe_read rd_u8 (\<lambda>_. True)"
  unfolding rd_u8_def by (rule safe_then [OF safe_take]) (auto intro: safe_return safe_fail split: list.split)

lemma rd_u8_advances:
  assumes "rd_u8 input offset = Inr (v, offset')"
  shows "offset' = offset + 1"
proof -
  from assms obtain bs stop where t: "rd_take 1 ''u8'' input offset = Inr (bs, stop)"
    and r: "(case bs of b # _ \<Rightarrow> return_read b | [] \<Rightarrow> rd_fail (Truncated_TP ''u8'')) input stop = Inr (v, offset')"
    by (auto simp: rd_u8_def then_read_def result_simps)
  from t have "stop = offset + 1"
    by (auto simp: rd_take_def result_simps checked_add_usize_def split: if_splits)
  with r show ?thesis
    by (auto simp: return_read_def rd_fail_def lift_read_def split: list.splits)
qed

lemma safe_rd_words [safe_fields]:
  "safe_read rd_u16 (\<lambda>_. True)" "safe_read rd_u32 (\<lambda>_. True)" "safe_read rd_u64 (\<lambda>_. True)" "safe_read rd_i64 (\<lambda>_. True)"
  unfolding rd_u16_def rd_u32_def rd_u64_def rd_i64_def by (rule safe_map_read [OF safe_rd_array], simp)+

lemma safe_rd_blob [safe_fields]: "safe_read (rd_blob maximum ctxt) (\<lambda>bs. length bs \<le> maximum)"
  unfolding rd_blob_def
  by (rule safe_then [OF safe_rd_words(2)]) (auto intro: safe_fail safe_read_mono [OF safe_take])

lemma safe_rd_string [safe_fields]:
  "safe_read (rd_string maximum ctxt) (\<lambda>s. length s \<le> maximum \<and> length s \<le> 65535 \<and> utf8_valid s)"
proof -
  have "unat (len :: u16) \<le> 65535" for len
    using unat_le_max [of len] by simp
  then show ?thesis
    unfolding rd_string_def
    by (intro safe_then [OF safe_rd_words(1)])
      (auto intro!: safe_fail safe_then [OF safe_take] safe_return split: if_split)
qed

lemma safe_rd_pairing_code [safe_fields]: "safe_read rd_pairing_code valid_code"
  unfolding rd_pairing_code_def
  by (intro safe_then [OF safe_rd_u8] safe_then [OF safe_take])
    (auto intro: safe_fail safe_lift dest: parsed_valid)

lemma safe_rd_enum [safe_fields]: "safe_read (rd_enum try_from field) (\<lambda>_. True)"
  unfolding rd_enum_def by (rule safe_then [OF safe_rd_u8], rule safe_lift) simp

lemma safe_rd_bool [safe_fields]: "safe_read (rd_bool field) (\<lambda>_. True)"
  unfolding rd_bool_def by (rule safe_then [OF safe_rd_u8]) (auto intro: safe_return safe_fail)

lemma safe_rd_digest [safe_fields]: "safe_read rd_digest valid_digest"
  unfolding rd_digest_def
  by (rule safe_then [OF safe_rd_u8], rule safe_then [OF safe_lift], rule TrueI, rule safe_then [OF safe_rd_array],
      rule safe_return) (simp add: valid_digest_def)

lemma safe_rd_socket_addr [safe_fields]: "safe_read rd_socket_addr valid_addr"
proof -
  have four: "safe_read (then_read (rd_array 4 ''IPv4 address'') (\<lambda>ip. then_read rd_u16 (\<lambda>port. return_read (V4 ip port)))) valid_addr"
    by (rule safe_then [OF safe_rd_array], rule safe_then [OF safe_rd_words(1)], rule safe_return) simp
  have six: "safe_read (then_read (rd_array 16 ''IPv6 address'') (\<lambda>ip. then_read rd_u16 (\<lambda>port.
      then_read rd_u32 (\<lambda>flowinfo. then_read rd_u32 (\<lambda>scope_id. return_read (V6 ip port flowinfo scope_id)))))) valid_addr"
    by (rule safe_then [OF safe_rd_array], rule safe_then [OF safe_rd_words(1)], rule safe_then [OF safe_rd_words(2)],
        rule safe_then [OF safe_rd_words(2)], rule safe_return) simp
  show ?thesis
    unfolding rd_socket_addr_def by (rule safe_then [OF safe_rd_u8]) (auto intro: four six safe_fail)
qed

lemma safe_rd_socket_addr_option [safe_fields]:
  "safe_read rd_socket_addr_option (\<lambda>a. \<forall>x. a = Some x \<longrightarrow> valid_addr x)"
proof (rule safe_readI)
  fix input offset a offset'
  assume off: "offset \<le> length input" and rd: "rd_socket_addr_option input offset = Inr (a, offset')"
  then obtain version o1 where v: "rd_u8 input offset = Inr (version, o1)"
    by (auto simp: rd_socket_addr_option_def result_simps)
  then have o1: "o1 = offset + 1" "o1 \<le> length input"
    using safe_readD [OF safe_rd_u8 off v] rd_u8_advances by auto
  show "offset \<le> offset' \<and> offset' \<le> length input \<and> (\<forall>x. a = Some x \<longrightarrow> valid_addr x)"
  proof (cases "version = 0")
    case True
    with rd v o1 show ?thesis
      by (simp add: rd_socket_addr_option_def)
  next
    case False
    with rd v o1 have "map_read Some rd_socket_addr input offset = Inr (a, offset')"
      by (auto simp: rd_socket_addr_option_def split: if_splits)
    from safe_readD [OF safe_map_read [OF safe_rd_socket_addr] off this, of "\<lambda>a. \<forall>x. a = Some x \<longrightarrow> valid_addr x"]
    show ?thesis
      by simp
  qed
qed

end
