(* ===== verification/Transfer_Codec.thy ===== *)
theory Transfer_Codec
  imports Transfer_Wire
begin

text \<open>
  The message codec of the file transfer protocol, \<open>transfer-protocol/src/codec.rs\<close>: flags, envelope, limits, and
  the bodies of the messages. Every message is read back as it was written, and whatever is accepted
  satisfies the limits and the validation, but for the answers to path checks, which are not validated.
\<close>

section \<open>Flags, envelope, limits\<close>

definition PROTOCOL_VERSION :: u8 where "PROTOCOL_VERSION = 1"
definition ENVELOPE_LEN :: usize where "ENVELOPE_LEN = 16"
definition MAX_CONTROL_MESSAGE_LEN :: usize where "MAX_CONTROL_MESSAGE_LEN = 1024 * 1024"
definition MAX_MANIFEST_ITEM_LEN :: usize where "MAX_MANIFEST_ITEM_LEN = 16 * 1024"
definition MAX_MESSAGE_FLAGS :: u16 where "MAX_MESSAGE_FLAGS = 7"

type_synonym message_flags = u16

definition RESPONSE :: message_flags where "RESPONSE = 1"
definition ERROR :: message_flags where "ERROR = 2"
definition MORE_FRAGMENTS :: message_flags where "MORE_FRAGMENTS = 4"

definition message_flags_contains :: "message_flags \<Rightarrow> message_flags \<Rightarrow> bool" where
  "message_flags_contains a b \<longleftrightarrow> a AND b = b"

definition message_flags_from_bits :: "u16 \<Rightarrow> transfer_error + message_flags" where
  "message_flags_from_bits bits =
     (if bits AND NOT MAX_MESSAGE_FLAGS \<noteq> 0 then Inl (InvalidFlags_TP bits) else Inr bits)"

record envelope =
  env_message_type :: message_type
  env_version :: u8
  env_flags :: message_flags
  env_request_id :: u64

record decoded_message =
  dm_envelope :: envelope
  dm_message :: message

record codec_limits =
  cl_max_message_len :: usize
  cl_max_candidates :: usize
  cl_max_manifest_files :: usize

definition codec_limits_default :: codec_limits where
  "codec_limits_default = \<lparr>cl_max_message_len = MAX_CONTROL_MESSAGE_LEN, cl_max_candidates = MAX_CANDIDATES,
     cl_max_manifest_files = MAX_MANIFEST_FILES\<rparr>"

definition validate_limits :: "codec_limits \<Rightarrow> transfer_error + unit" where
  "validate_limits limits =
     (if cl_max_message_len limits < ENVELOPE_LEN \<or> cl_max_message_len limits > MAX_CONTROL_MESSAGE_LEN
      then Inl (InvalidValue_TP ''max_message_len'')
      else if cl_max_candidates limits > MAX_CANDIDATES then Inl (InvalidValue_TP ''max_candidates'')
      else if cl_max_manifest_files limits > MAX_MANIFEST_FILES then Inl (InvalidValue_TP ''max_manifest_files'')
      else Inr ())"

section \<open>Writing the bodies\<close>

definition encode_candidate :: "candidate \<Rightarrow> write_op" where
  "encode_candidate c out =
     and_then (candidate_validate c) (\<lambda>_.
     wr_seq [wr_id (cd_id c), wr_u8 (candidate_kind_byte (cd_kind c)), wr_socket_addr_option (cd_address c),
       wr_u16 (cd_priority c), wr_u32 (case cd_interface_index c of None \<Rightarrow> - 1 | Some i \<Rightarrow> i)] out)"

definition encode_metadata :: "file_metadata \<Rightarrow> write_op" where
  "encode_metadata md =
     (let flags = (if md_modified_time_unix_seconds md \<noteq> None then 1 else 0) OR (if md_mode md \<noteq> None then 2 else 0)
      in wr_seq ([wr_u8 flags]
        @ (case md_modified_time_unix_seconds md of None \<Rightarrow> [] | Some v \<Rightarrow> [wr_i64 v])
        @ (case md_mode md of None \<Rightarrow> [] | Some v \<Rightarrow> [wr_u32 v])))"

text \<open>\<open>if file_count > limits.max_manifest_files { return Err(..) }\<close>\<close>

definition count_error :: "codec_limits \<Rightarrow> u64 \<Rightarrow> transfer_error option" where
  "count_error limits file_count =
     (if file_count > of_nat (cl_max_manifest_files limits)
      then Some (TooManyItems ''file_count'' (cl_max_manifest_files limits) (unat file_count)) else None)"

fun encode_pairing :: "codec_limits \<Rightarrow> pairing_control \<Rightarrow> write_op" where
  "encode_pairing limits (CreatePairing client_instance_id cap requested_ttl key) =
     wr_seq [wr_id client_instance_id, wr_u8 (capability_byte cap), wr_u32 requested_ttl, wr_fixed key]"
| "encode_pairing limits (PairingCreated pid code expires_at ticket) =
     wr_seq [wr_id pid, wr_pairing_code code, wr_u64 expires_at, wr_blob ticket MAX_TICKET_LEN]"
| "encode_pairing limits (JoinPairing code client_instance_id key) =
     wr_seq [wr_pairing_code code, wr_id client_instance_id, wr_fixed key]"
| "encode_pairing limits (PairingJoined pid offerer accepter ticket) =
     wr_seq [wr_id pid, wr_string offerer 256 ''offerer identity'', wr_string accepter 256 ''accepter identity'',
       wr_blob ticket MAX_TICKET_LEN]"
| "encode_pairing limits (OfferReady tid manifest_digest file_count total_size name) =
     (case count_error limits file_count of
        Some e \<Rightarrow> wr_fail e
      | None \<Rightarrow> wr_seq [wr_id tid, wr_digest manifest_digest, wr_u64 file_count, wr_u64 total_size,
          wr_string name 256 ''sender display name''])"
| "encode_pairing limits (AcceptOffer tid decision policy) =
     wr_seq [wr_id tid, wr_u8 (accept_decision_byte decision), wr_string policy MAX_ROOT_LABEL_LEN ''receiver root policy'']"
| "encode_pairing limits (CandidateList tid cs candidate_digest) =
     (if length cs > cl_max_candidates limits
      then wr_fail (TooManyItems ''candidates'' (cl_max_candidates limits) (length cs))
      else wr_seq [wr_id tid, wr_u16 (of_nat (length cs)), write_all encode_candidate cs, wr_digest candidate_digest])"
| "encode_pairing limits (PathCheckAuthorization tid token expires_at) =
     wr_seq [wr_id tid, wr_fixed token, wr_u64 expires_at]"
| "encode_pairing limits (PathSelected tid pid kind rtt_millis mtu) =
     wr_seq [wr_id tid, wr_id pid, wr_u8 (path_kind_byte kind), wr_u64 rtt_millis, wr_u16 mtu]"
| "encode_pairing limits (RelayOpen tid rid ticket) = wr_seq [wr_id tid, wr_id rid, wr_blob ticket MAX_TICKET_LEN]"
| "encode_pairing limits (RelayClosed tid reason) = wr_seq [wr_id tid, wr_u8 (relay_close_reason_byte reason)]"
| "encode_pairing limits (Cancel tid reason_code) = wr_seq [wr_id tid, wr_u16 reason_code]"
| "encode_pairing limits (ResumeTicket pid tid role manifest_digest expires_at ticket) =
     wr_seq [wr_id pid, wr_id tid, wr_u8 (transfer_role_byte role), wr_digest manifest_digest, wr_u64 expires_at,
       wr_blob ticket MAX_TICKET_LEN]"
| "encode_pairing limits (ResumeTransfer pid tid role client_instance_id ticket) =
     wr_seq [wr_id pid, wr_id tid, wr_u8 (transfer_role_byte role), wr_id client_instance_id, wr_blob ticket MAX_TICKET_LEN]"
| "encode_pairing limits (ResumeAccepted pid tid role manifest_digest expires_at) =
     wr_seq [wr_id pid, wr_id tid, wr_u8 (transfer_role_byte role), wr_digest manifest_digest, wr_u64 expires_at]"
| "encode_pairing limits (PeerReconnected tid role) = wr_seq [wr_id tid, wr_u8 (transfer_role_byte role)]"

fun encode_transfer :: "codec_limits \<Rightarrow> transfer_control \<Rightarrow> write_op" where
  "encode_transfer limits (SessionHello tid version suite manifest_digest namespace) =
     wr_seq [wr_id tid, wr_u8 version, wr_u8 (crypto_suite_byte suite), wr_digest manifest_digest, wr_fixed namespace]"
| "encode_transfer limits (ManifestBegin file_count total_size manifest_digest) =
     (case count_error limits file_count of
        Some e \<Rightarrow> wr_fail e
      | None \<Rightarrow> wr_seq [wr_u64 file_count, wr_u64 total_size, wr_digest manifest_digest])"
| "encode_transfer limits (ManifestItem fid path sz content_hash md) =
     wr_seq [wr_id fid, wr_string path MAX_PATH_LEN ''relative path'', wr_u64 sz, wr_digest content_hash, encode_metadata md]"
| "encode_transfer limits (ManifestEnd manifest_digest) = wr_digest manifest_digest"
| "encode_transfer limits (ReceiveDecision accepted policy label) =
     wr_seq [wr_bool accepted, wr_u8 (overwrite_policy_byte policy), wr_string label MAX_ROOT_LABEL_LEN ''target root label'']"
| "encode_transfer limits (ResumeQuery fid content_hash sz) = wr_seq [wr_id fid, wr_digest content_hash, wr_u64 sz]"
| "encode_transfer limits (ResumeState fid durable_offset checkpoint_id state_hash) =
     wr_seq [wr_id fid, wr_u64 durable_offset, wr_u64 checkpoint_id, wr_digest state_hash]"
| "encode_transfer limits (FileBegin fid stream_id base_offset remaining_size content_hash) =
     wr_seq [wr_id fid, wr_u64 stream_id, wr_u64 base_offset, wr_u64 remaining_size, wr_digest content_hash]"
| "encode_transfer limits (Checkpoint fid durable_offset checkpoint_id) =
     wr_seq [wr_id fid, wr_u64 durable_offset, wr_u64 checkpoint_id]"
| "encode_transfer limits (FileComplete fid final_size content_hash) =
     wr_seq [wr_id fid, wr_u64 final_size, wr_digest content_hash]"
| "encode_transfer limits (FileRejected fid reason) = wr_seq [wr_id fid, wr_u8 (file_reject_reason_byte reason)]"
| "encode_transfer limits (TransferComplete tid completed_files total_size) =
     wr_seq [wr_id tid, wr_u64 completed_files, wr_u64 total_size]"
| "encode_transfer limits (TransferError scope code retryable text) =
     wr_seq [wr_u8 (transfer_error_scope_byte scope), wr_u32 code, wr_bool retryable,
       wr_string text MAX_TRANSFER_ERROR_MESSAGE_LEN ''transfer error message'']"

fun encode_path :: "path_check \<Rightarrow> write_op" where
  "encode_path (PathCheckRequest tid xid token cid send_timestamp_millis) =
     wr_seq [wr_id tid, wr_id xid, wr_fixed token, wr_id cid, wr_u64 send_timestamp_millis]"
| "encode_path (PathCheckResponse tid xid token cid observed_address receive_timestamp_millis) =
     wr_seq [wr_id tid, wr_id xid, wr_fixed token, wr_id cid, wr_socket_addr observed_address, wr_u64 receive_timestamp_millis]"

fun encode_body :: "codec_limits \<Rightarrow> message \<Rightarrow> write_op" where
  "encode_body limits (Pairing m) = encode_pairing limits m"
| "encode_body limits (Transfer m) = encode_transfer limits m"
| "encode_body limits (Path m) = encode_path m"

section \<open>Reading the bodies\<close>

definition decode_candidate :: "candidate read_op" where
  "decode_candidate =
     then_read (rd_id ''candidate id'') (\<lambda>cid.
     then_read (rd_enum candidate_kind_try_from ''candidate kind'') (\<lambda>kind.
     then_read rd_socket_addr_option (\<lambda>address.
     then_read rd_u16 (\<lambda>priority.
     then_read rd_u32 (\<lambda>index.
     let c = \<lparr>cd_id = cid, cd_kind = kind, cd_address = address, cd_priority = priority,
       cd_interface_index = (if index = - 1 then None else Some index)\<rparr> in
     then_read (lift_read (candidate_validate c)) (\<lambda>_. return_read c))))))"

definition rd_optional :: "bool \<Rightarrow> 'a read_op \<Rightarrow> 'a option read_op" where
  "rd_optional present d = (if present then map_read Some d else return_read None)"

definition decode_metadata :: "file_metadata read_op" where
  "decode_metadata =
     then_read rd_u8 (\<lambda>flags.
     if flags AND NOT 3 \<noteq> 0 then rd_fail (InvalidValue_TP ''file metadata'')
     else
       then_read (rd_optional (flags AND 1 \<noteq> 0) rd_i64) (\<lambda>modified.
       then_read (rd_optional (flags AND 2 \<noteq> 0) rd_u32) (\<lambda>mode.
       return_read \<lparr>md_modified_time_unix_seconds = modified, md_mode = mode\<rparr>)))"

definition check_count :: "codec_limits \<Rightarrow> u64 \<Rightarrow> 'a read_op \<Rightarrow> 'a read_op" where
  "check_count limits file_count d =
     (case count_error limits file_count of Some e \<Rightarrow> rd_fail e | None \<Rightarrow> d)"

fun decode_pairing_body :: "codec_limits \<Rightarrow> message_type \<Rightarrow> pairing_control read_op" where
  "decode_pairing_body limits CreatePairing_MT =
     then_read (rd_id ''client instance id'') (\<lambda>cid.
     then_read (rd_enum capability_try_from ''capability'') (\<lambda>cap.
     then_read rd_u32 (\<lambda>ttl.
     then_read (rd_array 32 ''client ephemeral key'') (\<lambda>key. return_read (CreatePairing cid cap ttl key)))))"
| "decode_pairing_body limits PairingCreated_MT =
     then_read (rd_id ''pairing id'') (\<lambda>pid.
     then_read rd_pairing_code (\<lambda>code.
     then_read rd_u64 (\<lambda>expires_at.
     then_read (rd_blob MAX_TICKET_LEN ''session ticket'') (\<lambda>ticket. return_read (PairingCreated pid code expires_at ticket)))))"
| "decode_pairing_body limits JoinPairing_MT =
     then_read rd_pairing_code (\<lambda>code.
     then_read (rd_id ''client instance id'') (\<lambda>cid.
     then_read (rd_array 32 ''client ephemeral key'') (\<lambda>key. return_read (JoinPairing code cid key))))"
| "decode_pairing_body limits PairingJoined_MT =
     then_read (rd_id ''pairing id'') (\<lambda>pid.
     then_read (rd_string 256 ''offerer identity'') (\<lambda>offerer.
     then_read (rd_string 256 ''accepter identity'') (\<lambda>accepter.
     then_read (rd_blob MAX_TICKET_LEN ''session ticket'') (\<lambda>ticket. return_read (PairingJoined pid offerer accepter ticket)))))"
| "decode_pairing_body limits OfferReady_MT =
     then_read (rd_id ''transfer id'') (\<lambda>tid.
     then_read rd_digest (\<lambda>d.
     then_read rd_u64 (\<lambda>file_count.
     check_count limits file_count
       (then_read rd_u64 (\<lambda>total_size.
        then_read (rd_string 256 ''sender display name'') (\<lambda>name. return_read (OfferReady tid d file_count total_size name)))))))"
| "decode_pairing_body limits AcceptOffer_MT =
     then_read (rd_id ''transfer id'') (\<lambda>tid.
     then_read (rd_enum accept_decision_try_from ''decision'') (\<lambda>decision.
     then_read (rd_string MAX_ROOT_LABEL_LEN ''receiver root policy'') (\<lambda>policy. return_read (AcceptOffer tid decision policy))))"
| "decode_pairing_body limits CandidateList_MT =
     then_read (rd_id ''transfer id'') (\<lambda>tid.
     then_read rd_u16 (\<lambda>count.
     if unat count > cl_max_candidates limits
     then rd_fail (TooManyItems ''candidates'' (cl_max_candidates limits) (unat count))
     else
       then_read (read_many decode_candidate (unat count)) (\<lambda>cs.
       then_read rd_digest (\<lambda>d. return_read (CandidateList tid cs d)))))"
| "decode_pairing_body limits PathCheckAuthorization_MT =
     then_read (rd_id ''transfer id'') (\<lambda>tid.
     then_read (rd_array CHECK_TOKEN_LEN ''check token'') (\<lambda>token.
     then_read rd_u64 (\<lambda>expires_at. return_read (PathCheckAuthorization tid token expires_at))))"
| "decode_pairing_body limits PathSelected_MT =
     then_read (rd_id ''transfer id'') (\<lambda>tid.
     then_read (rd_id ''path id'') (\<lambda>pid.
     then_read (rd_enum path_kind_try_from ''path kind'') (\<lambda>kind.
     then_read rd_u64 (\<lambda>rtt.
     then_read rd_u16 (\<lambda>mtu. return_read (PathSelected tid pid kind rtt mtu))))))"
| "decode_pairing_body limits RelayOpen_MT =
     then_read (rd_id ''transfer id'') (\<lambda>tid.
     then_read (rd_id ''relay id'') (\<lambda>rid.
     then_read (rd_blob MAX_TICKET_LEN ''relay ticket'') (\<lambda>ticket. return_read (RelayOpen tid rid ticket))))"
| "decode_pairing_body limits RelayClosed_MT =
     then_read (rd_id ''transfer id'') (\<lambda>tid.
     then_read (rd_enum relay_close_reason_try_from ''relay close reason'') (\<lambda>reason. return_read (RelayClosed tid reason)))"
| "decode_pairing_body limits Cancel_MT =
     then_read (rd_id ''transfer id'') (\<lambda>tid.
     then_read rd_u16 (\<lambda>reason_code. return_read (Cancel tid reason_code)))"
| "decode_pairing_body limits ResumeTicket_MT =
     then_read (rd_id ''pairing id'') (\<lambda>pid.
     then_read (rd_id ''transfer id'') (\<lambda>tid.
     then_read (rd_enum transfer_role_try_from ''transfer role'') (\<lambda>role.
     then_read rd_digest (\<lambda>d.
     then_read rd_u64 (\<lambda>expires_at.
     then_read (rd_blob MAX_TICKET_LEN ''resume ticket'') (\<lambda>ticket. return_read (ResumeTicket pid tid role d expires_at ticket)))))))"
| "decode_pairing_body limits ResumeTransfer_MT =
     then_read (rd_id ''pairing id'') (\<lambda>pid.
     then_read (rd_id ''transfer id'') (\<lambda>tid.
     then_read (rd_enum transfer_role_try_from ''transfer role'') (\<lambda>role.
     then_read (rd_id ''client instance id'') (\<lambda>cid.
     then_read (rd_blob MAX_TICKET_LEN ''resume ticket'') (\<lambda>ticket. return_read (ResumeTransfer pid tid role cid ticket))))))"
| "decode_pairing_body limits ResumeAccepted_MT =
     then_read (rd_id ''pairing id'') (\<lambda>pid.
     then_read (rd_id ''transfer id'') (\<lambda>tid.
     then_read (rd_enum transfer_role_try_from ''transfer role'') (\<lambda>role.
     then_read rd_digest (\<lambda>d.
     then_read rd_u64 (\<lambda>expires_at. return_read (ResumeAccepted pid tid role d expires_at))))))"
| "decode_pairing_body limits PeerReconnected_MT =
     then_read (rd_id ''transfer id'') (\<lambda>tid.
     then_read (rd_enum transfer_role_try_from ''transfer role'') (\<lambda>role. return_read (PeerReconnected tid role)))"
| "decode_pairing_body limits _ = rd_fail (InvalidValue_TP ''pairing message type'')"

definition decode_pairing :: "codec_limits \<Rightarrow> message_type \<Rightarrow> pairing_control read_op" where
  "decode_pairing limits ty =
     then_read (decode_pairing_body limits ty) (\<lambda>m.
     then_read (lift_read (pairing_validate m)) (\<lambda>_. return_read m))"

fun decode_transfer_body :: "codec_limits \<Rightarrow> message_type \<Rightarrow> transfer_control read_op" where
  "decode_transfer_body limits SessionHello_MT =
     then_read (rd_id ''transfer id'') (\<lambda>tid.
     then_read rd_u8 (\<lambda>version.
     then_read (rd_enum crypto_suite_try_from ''crypto suite'') (\<lambda>suite.
     then_read rd_digest (\<lambda>d.
     then_read (rd_array 16 ''resume namespace'') (\<lambda>namespace. return_read (SessionHello tid version suite d namespace))))))"
| "decode_transfer_body limits ManifestBegin_MT =
     then_read rd_u64 (\<lambda>file_count.
     check_count limits file_count
       (then_read rd_u64 (\<lambda>total_size.
        then_read rd_digest (\<lambda>d. return_read (ManifestBegin file_count total_size d)))))"
| "decode_transfer_body limits ManifestItem_MT =
     then_read (rd_id ''file id'') (\<lambda>fid.
     then_read (rd_string MAX_PATH_LEN ''relative path'') (\<lambda>path.
     then_read rd_u64 (\<lambda>size.
     then_read rd_digest (\<lambda>d.
     then_read decode_metadata (\<lambda>md. return_read (ManifestItem fid path size d md))))))"
| "decode_transfer_body limits ManifestEnd_MT = then_read rd_digest (\<lambda>d. return_read (ManifestEnd d))"
| "decode_transfer_body limits ReceiveDecision_MT =
     then_read (rd_bool ''accepted'') (\<lambda>accepted.
     then_read (rd_enum overwrite_policy_try_from ''overwrite policy'') (\<lambda>policy.
     then_read (rd_string MAX_ROOT_LABEL_LEN ''target root label'') (\<lambda>label. return_read (ReceiveDecision accepted policy label))))"
| "decode_transfer_body limits ResumeQuery_MT =
     then_read (rd_id ''file id'') (\<lambda>fid.
     then_read rd_digest (\<lambda>d.
     then_read rd_u64 (\<lambda>size. return_read (ResumeQuery fid d size))))"
| "decode_transfer_body limits ResumeState_MT =
     then_read (rd_id ''file id'') (\<lambda>fid.
     then_read rd_u64 (\<lambda>durable_offset.
     then_read rd_u64 (\<lambda>checkpoint_id.
     then_read rd_digest (\<lambda>d. return_read (ResumeState fid durable_offset checkpoint_id d)))))"
| "decode_transfer_body limits FileBegin_MT =
     then_read (rd_id ''file id'') (\<lambda>fid.
     then_read rd_u64 (\<lambda>stream_id.
     then_read rd_u64 (\<lambda>base_offset.
     then_read rd_u64 (\<lambda>remaining_size.
     then_read rd_digest (\<lambda>d. return_read (FileBegin fid stream_id base_offset remaining_size d))))))"
| "decode_transfer_body limits Checkpoint_MT =
     then_read (rd_id ''file id'') (\<lambda>fid.
     then_read rd_u64 (\<lambda>durable_offset.
     then_read rd_u64 (\<lambda>checkpoint_id. return_read (Checkpoint fid durable_offset checkpoint_id))))"
| "decode_transfer_body limits FileComplete_MT =
     then_read (rd_id ''file id'') (\<lambda>fid.
     then_read rd_u64 (\<lambda>final_size.
     then_read rd_digest (\<lambda>d. return_read (FileComplete fid final_size d))))"
| "decode_transfer_body limits FileRejected_MT =
     then_read (rd_id ''file id'') (\<lambda>fid.
     then_read (rd_enum file_reject_reason_try_from ''file reject reason'') (\<lambda>reason. return_read (FileRejected fid reason)))"
| "decode_transfer_body limits TransferComplete_MT =
     then_read (rd_id ''transfer id'') (\<lambda>tid.
     then_read rd_u64 (\<lambda>completed_files.
     then_read rd_u64 (\<lambda>total_size. return_read (TransferComplete tid completed_files total_size))))"
| "decode_transfer_body limits TransferError_MT =
     then_read (rd_enum transfer_error_scope_try_from ''transfer error scope'') (\<lambda>scope.
     then_read rd_u32 (\<lambda>code.
     then_read (rd_bool ''retryable'') (\<lambda>retryable.
     then_read (rd_string MAX_TRANSFER_ERROR_MESSAGE_LEN ''transfer error message'') (\<lambda>text.
     return_read (TransferError scope code retryable text)))))"
| "decode_transfer_body limits _ = rd_fail (InvalidValue_TP ''transfer message type'')"

definition decode_transfer :: "codec_limits \<Rightarrow> message_type \<Rightarrow> transfer_control read_op" where
  "decode_transfer limits ty =
     then_read (decode_transfer_body limits ty) (\<lambda>m.
     then_read (lift_read (transfer_validate m)) (\<lambda>_. return_read m))"

fun decode_path :: "message_type \<Rightarrow> path_check read_op" where
  "decode_path PathCheckRequest_MT =
     then_read (rd_id ''transfer id'') (\<lambda>tid.
     then_read (rd_id ''transaction id'') (\<lambda>xid.
     then_read (rd_array CHECK_TOKEN_LEN ''check token'') (\<lambda>token.
     then_read (rd_id ''candidate id'') (\<lambda>cid.
     then_read rd_u64 (\<lambda>sent. return_read (PathCheckRequest tid xid token cid sent))))))"
| "decode_path PathCheckResponse_MT =
     then_read (rd_id ''transfer id'') (\<lambda>tid.
     then_read (rd_id ''transaction id'') (\<lambda>xid.
     then_read (rd_array CHECK_TOKEN_LEN ''check token'') (\<lambda>token.
     then_read (rd_id ''candidate id'') (\<lambda>cid.
     then_read rd_socket_addr (\<lambda>address.
     then_read rd_u64 (\<lambda>received. return_read (PathCheckResponse tid xid token cid address received)))))))"
| "decode_path _ = rd_fail (InvalidValue_TP ''path message type'')"

definition decode_body :: "codec_limits \<Rightarrow> message_type \<Rightarrow> message read_op" where
  "decode_body limits ty =
     (if message_type_byte ty \<ge> 40 then map_read Path (decode_path ty)
      else if message_type_byte ty \<ge> 20 then map_read Transfer (decode_transfer limits ty)
      else map_read Pairing (decode_pairing limits ty))"

section \<open>Whole messages\<close>

definition encode_message_with_limits ::
  "message \<Rightarrow> u64 \<Rightarrow> message_flags \<Rightarrow> codec_limits \<Rightarrow> transfer_error + bytes" where
  "encode_message_with_limits m request_id flags limits =
     and_then (validate_limits limits) (\<lambda>_.
     and_then (message_validate m) (\<lambda>_.
     and_then (encode_body limits m []) (\<lambda>body.
     and_then (ok_or (MessageTooLarge (cl_max_message_len limits) (2 ^ 64 - 1)) (checked_add_usize ENVELOPE_LEN (length body))) (\<lambda>total_len.
     let max_message_len = (if message_type_of m = ManifestItem_MT then min (cl_max_message_len limits) MAX_MANIFEST_ITEM_LEN
       else cl_max_message_len limits) in
     if total_len > max_message_len \<or> total_len > 4294967295
     then Inl (MessageTooLarge (min max_message_len 4294967295) total_len)
     else Inr (to_be_bytes 4 (of_nat total_len :: u32) @ [message_type_byte (message_type_of m), PROTOCOL_VERSION]
       @ to_be_bytes 2 flags @ to_be_bytes 8 request_id @ body)))))"

definition encode_message :: "message \<Rightarrow> u64 \<Rightarrow> message_flags \<Rightarrow> transfer_error + bytes" where
  "encode_message m request_id flags = encode_message_with_limits m request_id flags codec_limits_default"

definition decode_message_with_limits :: "bytes \<Rightarrow> codec_limits \<Rightarrow> transfer_error + decoded_message" where
  "decode_message_with_limits bs limits =
     and_then (validate_limits limits) (\<lambda>_.
     if length bs < ENVELOPE_LEN then Inl (MessageTooShort ENVELOPE_LEN (length bs))
     else if length bs > cl_max_message_len limits then Inl (MessageTooLarge (cl_max_message_len limits) (length bs))
     else
       let declared_len = unat (from_be_bytes (take 4 bs) :: u32) in
       if declared_len < ENVELOPE_LEN then Inl (InvalidValue_TP ''message length'')
       else if declared_len > cl_max_message_len limits then Inl (MessageTooLarge (cl_max_message_len limits) declared_len)
       else if declared_len \<noteq> length bs then Inl (DeclaredLengthMismatch declared_len (length bs))
       else
         and_then (message_type_try_from (bs ! 4)) (\<lambda>ty.
         if ty = ManifestItem_MT \<and> declared_len > MAX_MANIFEST_ITEM_LEN
         then Inl (MessageTooLarge MAX_MANIFEST_ITEM_LEN declared_len)
         else if bs ! 5 \<noteq> PROTOCOL_VERSION then Inl (UnsupportedVersion_TP (bs ! 5))
         else
           and_then (message_flags_from_bits (from_be_bytes (take 2 (drop 6 bs)))) (\<lambda>flags.
           let request_id = from_be_bytes (take 8 (drop 8 bs)); body = drop ENVELOPE_LEN bs in
           and_then (decode_body limits ty body 0) (\<lambda>(m, offset).
           and_then (rd_finish body offset) (\<lambda>_.
           Inr \<lparr>dm_envelope = \<lparr>env_message_type = ty, env_version = bs ! 5, env_flags = flags,
             env_request_id = request_id\<rparr>, dm_message = m\<rparr>)))))"

definition decode_message :: "bytes \<Rightarrow> transfer_error + decoded_message" where
  "decode_message bs = decode_message_with_limits bs codec_limits_default"

section \<open>Candidates and metadata\<close>

text \<open>\<open>u32::MAX\<close> on the wire stands for no interface, so a candidate with that index does not survive.\<close>

definition wire_candidate :: "candidate \<Rightarrow> bool" where
  "wire_candidate c \<longleftrightarrow> valid_candidate c \<and> cd_interface_index c \<noteq> Some (- 1)"

lemma emits_validated:
  assumes "emits w d x" "check x = Inr ()"
  shows "emits w (then_read d (\<lambda>x. then_read (lift_read (check x)) (\<lambda>_. return_read x))) x"
proof (rule emitsI)
  fix out buf
  assume "w out = Inr buf"
  then obtain bs where bs: "buf = out @ bs" "reads d bs x"
    using assms(1) unfolding emits_def by blast
  have "reads (then_read d (\<lambda>x. then_read (lift_read (check x)) (\<lambda>_. return_read x))) (bs @ []) x"
    by (rule reads_then [OF bs(2)]) (simp add: assms(2) reads_return)
  with bs(1) show "\<exists>bs. buf = out @ bs \<and> reads (then_read d (\<lambda>x. then_read (lift_read (check x)) (\<lambda>_. return_read x))) bs x"
    by auto
qed

lemma emits_candidate:
  assumes "wire_candidate c"
  shows "emits (encode_candidate c) decode_candidate c"
proof (rule emitsI)
  fix out buf
  assume enc: "encode_candidate c out = Inr buf"
  let ?index = "case cd_interface_index c of None \<Rightarrow> - 1 | Some i \<Rightarrow> i"
  let ?c = "\<lparr>cd_id = cd_id c, cd_kind = cd_kind c, cd_address = cd_address c, cd_priority = cd_priority c,
      cd_interface_index = (if ?index = - 1 then None else Some ?index)\<rparr>"
  have c: "?c = c"
    using assms by (cases "cd_interface_index c") (auto simp: wire_candidate_def)
  have ok: "candidate_validate c = Inr ()"
    using enc by (auto simp: encode_candidate_def result_simps)
  have "emits (wr_seq [wr_id (cd_id c), wr_u8 (candidate_kind_byte (cd_kind c)), wr_socket_addr_option (cd_address c),
      wr_u16 (cd_priority c), wr_u32 ?index]) decode_candidate c"
    unfolding decode_candidate_def Let_def using assms
    by - (rule emits_cons emits_id emits_enums emits_socket_addr_option emits_words
        | simp only: c ok then_read_lift emits_nil | simp add: wire_candidate_def valid_candidate_def)+
  with enc ok show "\<exists>bs. buf = out @ bs \<and> reads decode_candidate bs c"
    by (auto simp: encode_candidate_def emits_def simp del: wr_seq.simps)
qed

lemma safe_decode_candidate: "safe_read decode_candidate wire_candidate"
  unfolding decode_candidate_def Let_def
  by (rule safe_then [OF safe_rd_id], rule safe_then [OF safe_rd_enum], rule safe_then [OF safe_rd_socket_addr_option],
      rule safe_then [OF safe_rd_words(1)], rule safe_then [OF safe_rd_words(2)], rule safe_then [OF safe_lift],
      rule TrueI, rule safe_return) (simp add: wire_candidate_def valid_candidate_def)

interpretation candidates: wire_codec decode_candidate wire_candidate encode_candidate
proof
  show "\<exists>bs. buf = out @ bs \<and> reads decode_candidate bs x" if "wire_candidate x" "encode_candidate x out = Inr buf" for x out buf
    using emits_candidate [OF that(1)] that(2) unfolding emits_def by blast
qed (rule safe_decode_candidate)

lemma emits_candidates [emits_rules]:
  "list_all wire_candidate cs \<Longrightarrow> emits (write_all encode_candidate cs) (read_many decode_candidate (length cs)) cs"
  unfolding emits_def list_all_iff using candidates.write_all_reads by blast

lemma then_read_return [simp]: "then_read (return_read x) f = f x"
  by (simp add: then_read_def return_read_def fun_eq_iff)

lemma rd_optional_simps [simp]: "rd_optional False d = return_read None" "rd_optional True d = map_read Some d"
  by (simp_all add: rd_optional_def)

lemma emits_metadata_fields:
  assumes "flags AND NOT 3 = 0"
    and "emits (wr_seq ws) (then_read (rd_optional (flags AND 1 \<noteq> 0) rd_i64) (\<lambda>modified.
       then_read (rd_optional (flags AND 2 \<noteq> 0) rd_u32) (\<lambda>mode.
       return_read \<lparr>md_modified_time_unix_seconds = modified, md_mode = mode\<rparr>))) md"
  shows "emits (wr_seq (wr_u8 flags # ws)) decode_metadata md"
  unfolding decode_metadata_def using assms by (intro emits_cons [OF emits_u8]) simp

lemma emits_some:
  "emits w d x \<Longrightarrow> emits (wr_seq ws) (f (Some x)) y \<Longrightarrow> emits (wr_seq (w # ws)) (then_read (map_read Some d) f) y"
  by (rule emits_cons [OF emits_map])

lemma emits_metadata [emits_rules]: "emits (encode_metadata md) decode_metadata md"
proof -
  obtain t m where md: "md = \<lparr>md_modified_time_unix_seconds = t, md_mode = m\<rparr>"
    by (cases md)
  have fields: "emits (wr_seq ((case t of None \<Rightarrow> [] | Some v \<Rightarrow> [wr_i64 v]) @ (case m of None \<Rightarrow> [] | Some v \<Rightarrow> [wr_u32 v])))
      (then_read (rd_optional (t \<noteq> None) rd_i64) (\<lambda>modified. then_read (rd_optional (m \<noteq> None) rd_u32) (\<lambda>mode.
       return_read \<lparr>md_modified_time_unix_seconds = modified, md_mode = mode\<rparr>))) md"
    unfolding md by (cases t; cases m) (simp_all del: wr_seq.simps, (rule emits_some emits_words emits_nil
        | simp only: rd_optional_simps then_read_return)+)
  have flags: "flags AND NOT 3 = 0" "flags AND 1 \<noteq> 0 \<longleftrightarrow> t \<noteq> None" "flags AND 2 \<noteq> 0 \<longleftrightarrow> m \<noteq> None"
    if "flags = (if t \<noteq> None then 1 else 0) OR (if m \<noteq> None then 2 else 0)" for flags :: u8
    using that by (cases t; cases m; simp)+
  show ?thesis
    unfolding encode_metadata_def Let_def md file_metadata.simps append.simps
    by (rule emits_metadata_fields, rule flags(1), rule refl, unfold flags(2,3) [OF refl] md [symmetric], rule fields)
qed

section \<open>Bodies are read back\<close>

text \<open>The well-formed messages of which every candidate survives the wire.\<close>

fun wire_pairing :: "pairing_control \<Rightarrow> bool" where
  "wire_pairing (CandidateList tid cs d) \<longleftrightarrow> valid_id tid \<and> list_all wire_candidate cs \<and> valid_digest d"
| "wire_pairing m = valid_pairing m"

fun wire_message :: "message \<Rightarrow> bool" where
  "wire_message (Pairing m) = wire_pairing m"
| "wire_message m = valid_message m"

lemma emits_return: "emits w d x \<Longrightarrow> emits w (then_read d (\<lambda>x. return_read (g x))) (g x)"
  unfolding emits_def by (metis reads_map)

lemma emits_counted: "emits (wr_seq ws) d x \<Longrightarrow> count_error limits n = None \<Longrightarrow> emits (wr_seq ws) (check_count limits n d) x"
  by (simp add: check_count_def)

lemma emits_pairing:
  assumes "wire_pairing m" "cl_max_candidates limits \<le> MAX_CANDIDATES"
  shows "emits (encode_pairing limits m) (decode_pairing_body limits (pairing_type m)) m"
proof (cases m)
  case (OfferReady tid d n sz name)
  with assms show ?thesis
    by (cases "count_error limits n")
      (simp_all add: emits_fail del: wr_seq.simps, (rule emits_rules emits_counted | simp)+)
next
  case (CandidateList tid cs d)
  show ?thesis
  proof (cases "length cs > cl_max_candidates limits")
    case False
    then have "unat (of_nat (length cs) :: u16) = length cs"
      using assms(2) by (intro unat_of_nat_small) (simp add: MAX_CANDIDATES_def)
    with False have cont: "emits (wr_seq [write_all encode_candidate cs, wr_digest d])
        (if unat (of_nat (length cs) :: u16) > cl_max_candidates limits
         then rd_fail (TooManyItems ''candidates'' (cl_max_candidates limits) (unat (of_nat (length cs) :: u16)))
         else then_read (read_many decode_candidate (unat (of_nat (length cs) :: u16))) (\<lambda>cs.
           then_read rd_digest (\<lambda>d. return_read (CandidateList tid cs d)))) (CandidateList tid cs d)"
      using assms(1) CandidateList by (simp del: wr_seq.simps) (rule emits_rules | simp)+
    have "valid_id tid"
      using assms(1) CandidateList by simp
    then show ?thesis
      unfolding CandidateList encode_pairing.simps pairing_type.simps decode_pairing_body.simps if_not_P [OF False]
      by - (rule emits_cons, erule emits_id, rule emits_cons, rule emits_words, rule cont)
  qed (simp add: CandidateList emits_fail)
qed (use assms in \<open>simp_all del: wr_seq.simps\<close>, (rule emits_rules | simp)+)

lemma emits_transfer:
  assumes "valid_transfer m"
  shows "emits (encode_transfer limits m) (decode_transfer_body limits (transfer_type m)) m"
proof (cases m)
  case (ManifestBegin n sz d)
  with assms show ?thesis
    by (cases "count_error limits n")
      (simp_all add: emits_fail del: wr_seq.simps, (rule emits_rules emits_counted | simp)+)
next
  case (ManifestEnd d)
  with assms show ?thesis
    by (simp add: emits_return emits_digest)
qed (use assms in \<open>simp_all del: wr_seq.simps\<close>, (rule emits_rules | simp)+)

lemma emits_path: "valid_path m \<Longrightarrow> emits (encode_path m) (decode_path (path_type m)) m"
  by (cases m) (simp_all del: wr_seq.simps, (rule emits_rules | simp)+)

lemma type_ranges:
  "\<not> 20 \<le> message_type_byte (pairing_type p) \<and> \<not> 40 \<le> message_type_byte (pairing_type p)"
  "20 \<le> message_type_byte (transfer_type t) \<and> \<not> 40 \<le> message_type_byte (transfer_type t)"
  "40 \<le> message_type_byte (path_type q)"
  by (cases p; simp add: message_type_byte_def word_le_nat_alt) (cases t; cases q; simp add: message_type_byte_def word_le_nat_alt)+

lemma emits_body:
  assumes "wire_message m" "message_validate m = Inr ()" "cl_max_candidates limits \<le> MAX_CANDIDATES"
  shows "emits (encode_body limits m) (decode_body limits (message_type_of m)) m"
proof (cases m)
  case (Pairing p)
  then show ?thesis
    using assms type_ranges(1) [of p] emits_validated [OF emits_pairing [of p limits], of pairing_validate]
    by (simp add: decode_body_def decode_pairing_def emits_map)
next
  case (Transfer t)
  then show ?thesis
    using assms type_ranges(2) [of t] emits_validated [OF emits_transfer [of t limits], of transfer_validate]
    by (simp add: decode_body_def decode_transfer_def emits_map)
next
  case (Path q)
  then show ?thesis
    using assms type_ranges(3) [of q] emits_path [of q] by (simp add: decode_body_def emits_map)
qed

section \<open>What is accepted\<close>

text \<open>Well-formed, within the limits of the codec, of the announced type and, for pairing and transfer
  messages, valid.\<close>

definition accepted_pairing :: "codec_limits \<Rightarrow> message_type \<Rightarrow> pairing_control \<Rightarrow> bool" where
  "accepted_pairing limits ty m \<longleftrightarrow> wire_pairing m \<and> pairing_type m = ty
     \<and> (\<forall>tid cs d. m = CandidateList tid cs d \<longrightarrow> length cs \<le> cl_max_candidates limits)
     \<and> (\<forall>tid d n sz name. m = OfferReady tid d n sz name \<longrightarrow> n \<le> of_nat (cl_max_manifest_files limits))"

definition accepted_transfer :: "codec_limits \<Rightarrow> message_type \<Rightarrow> transfer_control \<Rightarrow> bool" where
  "accepted_transfer limits ty m \<longleftrightarrow> valid_transfer m \<and> transfer_type m = ty
     \<and> (\<forall>n sz d. m = ManifestBegin n sz d \<longrightarrow> n \<le> of_nat (cl_max_manifest_files limits))"

lemma safe_counted: "(n \<le> of_nat (cl_max_manifest_files limits) \<Longrightarrow> safe_read d P) \<Longrightarrow> safe_read (check_count limits n d) P"
  by (auto simp: check_count_def count_error_def safe_fail)

lemma safe_metadata [safe_fields]: "safe_read decode_metadata (\<lambda>_. True)"
proof -
  have opt: "safe_read (rd_optional b d) (\<lambda>_. True)" if "safe_read d (\<lambda>_. True)" for b and d :: "'a read_op"
    using that by (auto simp: rd_optional_def intro: safe_return safe_map_read)
  show ?thesis
    unfolding decode_metadata_def
    by (rule safe_then [OF safe_rd_u8]) (auto intro!: safe_fail safe_then [OF opt] safe_rd_words safe_return)
qed

lemma safe_pairing_body: "safe_read (decode_pairing_body limits ty) (accepted_pairing limits ty)"
proof (cases ty)
  case OfferReady_MT
  show ?thesis
    unfolding OfferReady_MT decode_pairing_body.simps
    by (rule safe_then, rule safe_fields, rule safe_then, rule safe_fields, rule safe_then, rule safe_fields,
        rule safe_counted, rule safe_then, rule safe_fields, rule safe_then, rule safe_fields, rule safe_return)
      (simp add: accepted_pairing_def)
next
  case CandidateList_MT
  show ?thesis
    unfolding CandidateList_MT decode_pairing_body.simps
    by (rule safe_then, rule safe_fields, rule safe_then, rule safe_fields, split if_split, intro conjI impI,
        rule safe_fail, rule safe_then, rule candidates.safe_many, rule safe_then, rule safe_fields, rule safe_return)
      (auto simp: accepted_pairing_def list_all_iff)
qed (simp_all only: decode_pairing_body.simps, (rule safe_fail | (rule safe_then, rule safe_fields)+,
      rule safe_return, simp add: accepted_pairing_def)+)

lemma safe_transfer_body: "safe_read (decode_transfer_body limits ty) (accepted_transfer limits ty)"
proof (cases ty)
  case ManifestBegin_MT
  show ?thesis
    unfolding ManifestBegin_MT decode_transfer_body.simps
    by (rule safe_then, rule safe_fields, rule safe_counted, rule safe_then, rule safe_fields, rule safe_then,
        rule safe_fields, rule safe_return) (simp add: accepted_transfer_def)
qed (simp_all only: decode_transfer_body.simps, (rule safe_fail | (rule safe_then, rule safe_fields)+,
      rule safe_return, simp add: accepted_transfer_def)+)

lemma safe_path: "safe_read (decode_path ty) (\<lambda>m. valid_path m \<and> path_type m = ty)"
  by (cases ty) (simp_all only: decode_path.simps, (rule safe_fail | (rule safe_then, rule safe_fields)+,
      rule safe_return, simp)+)

lemma safe_validated:
  assumes "safe_read d P"
  shows "safe_read (then_read d (\<lambda>m. then_read (lift_read (check m)) (\<lambda>_. return_read m))) (\<lambda>m. P m \<and> check m = Inr ())"
proof (rule safe_then [OF assms])
  fix m
  assume "P m"
  show "safe_read (then_read (lift_read (check m)) (\<lambda>_. return_read m)) (\<lambda>m. P m \<and> check m = Inr ())"
    by (rule safe_then [OF safe_lift, of _ "\<lambda>_. check m = Inr ()"]) (use \<open>P m\<close> in \<open>auto intro: safe_return\<close>)
qed

definition accepted_message :: "codec_limits \<Rightarrow> message_type \<Rightarrow> message \<Rightarrow> bool" where
  "accepted_message limits ty m \<longleftrightarrow> wire_message m \<and> message_type_of m = ty
     \<and> (case m of
          Pairing p \<Rightarrow> accepted_pairing limits ty p \<and> pairing_validate p = Inr ()
        | Transfer t \<Rightarrow> accepted_transfer limits ty t \<and> transfer_validate t = Inr ()
        | Path p \<Rightarrow> valid_path p \<and> path_type p = ty)"

lemma safe_body: "safe_read (decode_body limits ty) (accepted_message limits ty)"
proof -
  have "safe_read (map_read Path (decode_path ty)) (accepted_message limits ty)"
    by (rule safe_map_read [OF safe_path]) (simp add: accepted_message_def)
  moreover have "safe_read (map_read Transfer (decode_transfer limits ty)) (accepted_message limits ty)"
    unfolding decode_transfer_def
    by (rule safe_map_read [OF safe_validated [OF safe_transfer_body]]) (simp add: accepted_message_def accepted_transfer_def)
  moreover have "safe_read (map_read Pairing (decode_pairing limits ty)) (accepted_message limits ty)"
    unfolding decode_pairing_def
    by (rule safe_map_read [OF safe_validated [OF safe_pairing_body]]) (simp add: accepted_message_def accepted_pairing_def)
  ultimately show ?thesis
    by (simp add: decode_body_def)
qed

section \<open>Envelopes\<close>

text \<open>A body behind the envelope that announces it, as \<open>encode_message_with_limits\<close> writes it.\<close>

definition enveloped :: "message_type \<Rightarrow> message_flags \<Rightarrow> u64 \<Rightarrow> bytes \<Rightarrow> bytes" where
  "enveloped ty flags request_id body =
     to_be_bytes 4 (of_nat (16 + length body) :: u32) @ [message_type_byte ty, PROTOCOL_VERSION]
       @ to_be_bytes 2 flags @ to_be_bytes 8 request_id @ body"

lemma decode_enveloped:
  assumes "validate_limits limits = Inr ()" "reads (decode_body limits ty) body m"
    and "16 + length body \<le> cl_max_message_len limits"
    and "ty = ManifestItem_MT \<Longrightarrow> 16 + length body \<le> MAX_MANIFEST_ITEM_LEN"
    and "flags AND NOT MAX_MESSAGE_FLAGS = 0"
  shows "decode_message_with_limits (enveloped ty flags request_id body) limits =
     Inr \<lparr>dm_envelope = \<lparr>env_message_type = ty, env_version = PROTOCOL_VERSION, env_flags = flags,
       env_request_id = request_id\<rparr>, dm_message = m\<rparr>"
proof -
  let ?bs = "enveloped ty flags request_id body"
  have len: "16 + length body \<le> 1024 * 1024"
    using assms(1,3) by (auto simp: validate_limits_def MAX_CONTROL_MESSAGE_LEN_def split: if_splits)
  from readsD [OF assms(2), of "[]" "[]"] have dec: "decode_body limits ty body 0 = Inr (m, length body)"
    using len by (simp add: usize_limit_def)
  have n: "unat (of_nat (16 + length body) :: u32) = 16 + length body"
    using len by (intro unat_of_nat_small) simp
  have parts: "length ?bs = 16 + length body" "take 4 ?bs = to_be_bytes 4 (of_nat (16 + length body) :: u32)"
    "?bs ! 4 = message_type_byte ty" "?bs ! 5 = PROTOCOL_VERSION" "take 2 (drop 6 ?bs) = to_be_bytes 2 flags"
    "take 8 (drop 8 ?bs) = to_be_bytes 8 request_id" "drop 16 ?bs = body"
    by (simp_all add: enveloped_def nth_append del: to_be_bytes.simps)
  show ?thesis
    using assms dec n
    by (auto simp: decode_message_with_limits_def ENVELOPE_LEN_def Let_def parts message_flags_from_bits_def rd_finish_def
        simp del: to_be_bytes.simps of_nat_add)
qed

lemma known_flags: "RESPONSE AND NOT MAX_MESSAGE_FLAGS = 0" "(0 :: message_flags) AND NOT MAX_MESSAGE_FLAGS = 0"
  by (simp_all add: RESPONSE_def MAX_MESSAGE_FLAGS_def ERROR_def MORE_FRAGMENTS_def)

lemma default_limits:
  "validate_limits codec_limits_default = Inr ()" "cl_max_message_len codec_limits_default = 1024 * 1024"
  "cl_max_candidates codec_limits_default = MAX_CANDIDATES"
  by (simp_all add: validate_limits_def codec_limits_default_def ENVELOPE_LEN_def MAX_CONTROL_MESSAGE_LEN_def transfer_limits)

lemma decode_encoded:
  assumes "wire_message m" "flags AND NOT MAX_MESSAGE_FLAGS = 0"
    and "encode_message_with_limits m request_id flags limits = Inr bs"
  shows "decode_message_with_limits bs limits = Inr \<lparr>dm_envelope = \<lparr>env_message_type = message_type_of m,
       env_version = PROTOCOL_VERSION, env_flags = flags, env_request_id = request_id\<rparr>, dm_message = m\<rparr>
     \<and> length bs \<le> cl_max_message_len limits"
proof -
  let ?ty = "message_type_of m"
  from assms(3) obtain body where lim: "validate_limits limits = Inr ()" and val: "message_validate m = Inr ()"
    and enc: "encode_body limits m [] = Inr body" and len: "16 + length body \<le> cl_max_message_len limits"
      "?ty = ManifestItem_MT \<Longrightarrow> 16 + length body \<le> MAX_MANIFEST_ITEM_LEN"
    and bs: "bs = enveloped ?ty flags request_id body"
    by (auto simp: encode_message_with_limits_def result_simps Let_def checked_add_usize_def ENVELOPE_LEN_def enveloped_def
        split: if_splits)
  have "cl_max_candidates limits \<le> MAX_CANDIDATES"
    using lim by (auto simp: validate_limits_def split: if_splits)
  from emits_body [OF assms(1) val this] enc have "reads (decode_body limits ?ty) body m"
    unfolding emits_def by fastforce
  from decode_enveloped [OF lim this len assms(2)] len(1) show ?thesis
    by (simp add: bs enveloped_def del: to_be_bytes.simps)
qed

section \<open>Properties\<close>

text \<open>C10. Message round trip: a message that is encoded is within the size limit and is decoded, under the same
  limits, as the same message with the same request identifier and flags. The hypotheses are what the types
  of the source guarantee (lengths of arrays, UTF-8, known flags), and that no candidate has the interface
  index \<open>u32::MAX\<close>, which stands for none on the wire.\<close>

theorem message_round_trip:
  assumes "wire_message m" "flags AND NOT MAX_MESSAGE_FLAGS = 0"
    and "encode_message_with_limits m request_id flags limits = Inr bs"
  shows "decode_message_with_limits bs limits = Inr \<lparr>dm_envelope = \<lparr>env_message_type = message_type_of m,
       env_version = PROTOCOL_VERSION, env_flags = flags, env_request_id = request_id\<rparr>, dm_message = m\<rparr>
     \<and> length bs \<le> cl_max_message_len limits"
  using assms by (rule decode_encoded)

theorem message_round_trip_witness:
  "\<exists>bs. encode_message_with_limits (Transfer (FileRejected (replicate 16 7) Policy)) 9 RESPONSE codec_limits_default = Inr bs
     \<and> decode_message_with_limits bs codec_limits_default = Inr \<lparr>dm_envelope = \<lparr>env_message_type = FileRejected_MT,
       env_version = PROTOCOL_VERSION, env_flags = RESPONSE, env_request_id = 9\<rparr>,
       dm_message = Transfer (FileRejected (replicate 16 7) Policy)\<rparr> \<and> length bs = 33"
proof -
  let ?m = "Transfer (FileRejected (replicate 16 7) Policy)"
  obtain bs where bs: "encode_message_with_limits ?m 9 RESPONSE codec_limits_default = Inr bs" "length bs = 33"
    by (simp add: encode_message_with_limits_def wr_fixed_def wr_u8_def wr_id_def default_limits
      checked_add_usize_def usize_limit_def ENVELOPE_LEN_def del: to_be_bytes.simps)
  with message_round_trip [of ?m RESPONSE 9 codec_limits_default bs] known_flags show ?thesis
    by (auto simp: valid_id_def ID_LEN_def)
qed

text \<open>C31. Decoding is sound: whatever bytes arrive, an accepted message is within the limits of the codec, has the
  announced type, the supported version and only known flags, and its arrays, strings and codes are
  well-formed. Every accepted pairing or transfer message satisfies \<open>validate\<close>, and so does every accepted path
  message but one kind: a path check response whose observed address is unusable (unspecified, multicast or
  port 0), which \<open>validate\<close> would refuse and \<open>decode_path\<close> lets through.\<close>

theorem message_decode_sound:
  assumes "decode_message_with_limits bs limits = Inr d"
  shows "accepted_message limits (env_message_type (dm_envelope d)) (dm_message d)
     \<and> (message_validate (dm_message d) = Inr ()
          \<or> (\<exists>tid xid token cid address received.
               dm_message d = Path (PathCheckResponse tid xid token cid address received) \<and> unusable_addr address))
     \<and> env_version (dm_envelope d) = PROTOCOL_VERSION
     \<and> env_flags (dm_envelope d) AND NOT MAX_MESSAGE_FLAGS = 0
     \<and> ENVELOPE_LEN \<le> length bs \<and> length bs \<le> cl_max_message_len limits
     \<and> length bs \<le> MAX_CONTROL_MESSAGE_LEN
     \<and> (env_message_type (dm_envelope d) = ManifestItem_MT \<longrightarrow> length bs \<le> MAX_MANIFEST_ITEM_LEN)"
proof -
  from assms obtain ty m offset where body: "decode_body limits ty (drop ENVELOPE_LEN bs) 0 = Inr (m, offset)"
    and d: "env_message_type (dm_envelope d) = ty" "dm_message d = m" "env_version (dm_envelope d) = PROTOCOL_VERSION"
      "env_flags (dm_envelope d) AND NOT MAX_MESSAGE_FLAGS = 0"
    and len: "validate_limits limits = Inr ()" "ENVELOPE_LEN \<le> length bs" "length bs \<le> cl_max_message_len limits"
      "ty = ManifestItem_MT \<longrightarrow> length bs \<le> MAX_MANIFEST_ITEM_LEN"
    by (auto simp: decode_message_with_limits_def Let_def result_simps message_flags_from_bits_def split: if_splits)
  have ok: "accepted_message limits ty m"
    using safe_readD(3) [OF safe_body _ body] by simp
  have "message_validate m = Inr ()
      \<or> (\<exists>tid xid token cid address received. m = Path (PathCheckResponse tid xid token cid address received) \<and> unusable_addr address)"
  proof (cases m)
    case (Path p)
    then show ?thesis
      by (cases p) auto
  qed (use ok in \<open>simp_all add: accepted_message_def\<close>)
  with ok d len show ?thesis
    by (auto simp: validate_limits_def split: if_splits)
qed

theorem message_decode_sound_witness:
  "\<exists>d. decode_message_with_limits (enveloped FileRejected_MT 0 5 (replicate 16 7 @ [2])) codec_limits_default = Inr d
     \<and> accepted_message codec_limits_default FileRejected_MT (dm_message d)"
proof -
  let ?m = "Transfer (FileRejected (replicate 16 7) AlreadyExists)"
  let ?bs = "enveloped FileRejected_MT 0 5 (replicate 16 7 @ [2])"
  have "emits (encode_body codec_limits_default ?m) (decode_body codec_limits_default FileRejected_MT) ?m"
    using emits_body [of ?m codec_limits_default] default_limits(3) by (simp add: valid_id_def ID_LEN_def)
  moreover have "encode_body codec_limits_default ?m [] = Inr (replicate 16 7 @ [2])"
    by (simp add: wr_fixed_def wr_u8_def wr_id_def file_reject_reason_byte_def)
  ultimately have "reads (decode_body codec_limits_default FileRejected_MT) (replicate 16 7 @ [2]) ?m"
    unfolding emits_def by fastforce
  from decode_enveloped [OF default_limits(1) this, of 0 5] known_flags
  obtain d where d: "decode_message_with_limits ?bs codec_limits_default = Inr d"
      "env_message_type (dm_envelope d) = FileRejected_MT"
    by (simp add: default_limits)
  with message_decode_sound [OF d(1)] show ?thesis
    by auto
qed

text \<open>The reader of path checks is the one that does not call \<open>validate\<close>: a response that reports an address which
  no encoder may send is accepted.\<close>

theorem unvalidated_path_response:
  assumes "valid_path (PathCheckResponse tid xid token cid address received)" "unusable_addr address"
  shows "\<exists>bs. decode_message bs = Inr \<lparr>dm_envelope = \<lparr>env_message_type = PathCheckResponse_MT, env_version = PROTOCOL_VERSION,
       env_flags = 0, env_request_id = request_id\<rparr>, dm_message = Path (PathCheckResponse tid xid token cid address received)\<rparr>"
    and "encode_message (Path (PathCheckResponse tid xid token cid address received)) request_id 0
       = Inl (InvalidValue_TP ''path check observed address'')"
proof -
  let ?m = "PathCheckResponse tid xid token cid address received"
  obtain body where body: "encode_path ?m [] = Inr body" "length body \<le> 200"
    using assms(1) by (cases address) (auto simp: wr_fixed_def wr_u8_def wr_u16_def wr_u32_def wr_u64_def wr_id_def valid_id_def
        ID_LEN_def CHECK_TOKEN_LEN_def simp del: to_be_bytes.simps)
  have "reads (decode_body codec_limits_default PathCheckResponse_MT) body (Path ?m)"
    using emits_map [OF emits_path [OF assms(1)], of Path] body(1) unfolding emits_def
    by (fastforce simp: decode_body_def message_type_byte_def)
  from decode_enveloped [OF default_limits(1) this, of 0 request_id] known_flags body(2)
  show "\<exists>bs. decode_message bs = Inr \<lparr>dm_envelope = \<lparr>env_message_type = PathCheckResponse_MT, env_version = PROTOCOL_VERSION,
       env_flags = 0, env_request_id = request_id\<rparr>, dm_message = Path ?m\<rparr>"
    by (auto simp: decode_message_def default_limits)
  show "encode_message (Path ?m) request_id 0 = Inl (InvalidValue_TP ''path check observed address'')"
    using assms(2) by (simp add: encode_message_def encode_message_with_limits_def default_limits)
qed

end
