(* ===== verification/Transfer_Manifest.thy ===== *)
theory Transfer_Manifest
  imports Transfer_Message Btree_Map "HOL-Library.List_Lexorder"
begin

text \<open>
  The manifest of a transfer and the errors of a session: \<open>transfer-core/src/error.rs\<close> and \<open>manifest.rs\<close>. A
  path is the UTF-8 bytes of a \<open>String\<close>; none of the characters that \<open>validate_relative_path\<close> looks for is part of
  a longer UTF-8 sequence, so the test on bytes is the test on characters.

  Shown here: the accepted paths are exactly the joins of proper components, and \<open>Manifest::new\<close> accepts exactly
  the lists of entries without a repeated file or path whose sizes add up within 64 bits.
\<close>

section \<open>Errors\<close>

text \<open>\<open>CoreError\<close> of the crate; the constructors that another enum also has carry the suffix \<open>SE\<close>.\<close>

datatype session_error =
    InvalidState_SE string string
  | InvalidRole string
  | InvalidTransferId
  | ProtocolVersionMismatch u8 u8
  | CryptoSuiteMismatch
  | ManifestRequired
  | ManifestNotReady
  | ManifestMismatch
  | ManifestCountMismatch u64 usize
  | ManifestSizeMismatch u64 u64
  | DuplicateFile file_id
  | UnknownFile file_id
  | InvalidPath
  | InvalidFileSize file_id
  | InvalidOffset_SE file_id u64 u64
  | InvalidCheckpoint file_id u64 u64
  | InvalidStream file_id u64
  | InvalidDataOffset file_id u64 u64
  | DataExceedsFile file_id u64 usize u64
  | IntegrityMismatch file_id
  | ActiveFileLimit usize
  | PathUnavailable
  | InvalidPathTransition
  | DuplicateControl_SE
  | Cancelled_SE
  | Channel string
  | Storage string

definition check_transfer_id :: "transfer_id \<Rightarrow> transfer_id \<Rightarrow> session_error + unit" where
  "check_transfer_id expected actual = (if expected = actual then Inr () else Inl InvalidTransferId)"

section \<open>Paths\<close>

text \<open>\<open>str::split\<close> by one character: one part more than there are separators.\<close>

fun split_on :: "u8 \<Rightarrow> bytes \<Rightarrow> bytes list" where
  "split_on d [] = [[]]"
| "split_on d (b # bs) =
     (if b = d then [] # split_on d bs
      else (case split_on d bs of c # cs \<Rightarrow> (b # c) # cs | [] \<Rightarrow> [[b]]))"

definition SLASH :: u8 where "SLASH = 0x2f"
definition BACKSLASH :: u8 where "BACKSLASH = 0x5c"
definition DOT :: u8 where "DOT = 0x2e"

definition validate_relative_path :: "bytes \<Rightarrow> session_error + unit" where
  "validate_relative_path path =
     (if path = [] \<or> length path > MAX_PATH_LEN \<or> 0 \<in> set path then Inl InvalidPath
      else if take 1 path = [SLASH] \<or> BACKSLASH \<in> set path then Inl InvalidPath
      else first_error (\<lambda>component.
             if component = [] \<or> component = [DOT] \<or> component = [DOT, DOT] then Inl InvalidPath else Inr ())
           (split_on SLASH path))"

section \<open>Manifests\<close>

record manifest_entry =
  me_file_id :: file_id
  me_relative_path :: bytes
  me_size :: u64
  me_content_hash :: digest
  me_metadata :: file_metadata

definition manifest_entry_new :: "file_id \<Rightarrow> bytes \<Rightarrow> u64 \<Rightarrow> digest \<Rightarrow> file_metadata \<Rightarrow> session_error + manifest_entry" where
  "manifest_entry_new file_id relative_path sz content_hash metadata =
     and_then (validate_relative_path relative_path) (\<lambda>_.
     Inr \<lparr>me_file_id = file_id, me_relative_path = relative_path, me_size = sz, me_content_hash = content_hash,
       me_metadata = metadata\<rparr>)"

record manifest =
  mf_digest :: digest
  mf_entries :: "manifest_entry list"
  mf_total_size :: u64

text \<open>The loop of \<open>Manifest::new\<close> over the entries, with the maps of the identifiers and paths seen so far.\<close>

fun check_entries ::
  "(file_id, unit) btree_map \<Rightarrow> (bytes, unit) btree_map \<Rightarrow> u64 \<Rightarrow> manifest_entry list \<Rightarrow> session_error + u64" where
  "check_entries ids paths total_size [] = Inr total_size"
| "check_entries ids paths total_size (e # es) =
     and_then (validate_relative_path (me_relative_path e)) (\<lambda>_.
     if bt_get ids (me_file_id e) \<noteq> None then Inl (DuplicateFile (me_file_id e))
     else if bt_get paths (me_relative_path e) \<noteq> None then Inl InvalidPath
     else
       and_then (ok_or (InvalidFileSize (me_file_id e)) (checked_add total_size (me_size e))) (\<lambda>total_size.
       check_entries (bt_insert (me_file_id e) () ids) (bt_insert (me_relative_path e) () paths) total_size es))"

definition manifest_new :: "digest \<Rightarrow> manifest_entry list \<Rightarrow> session_error + manifest" where
  "manifest_new digest entries =
     (if length entries > MAX_MANIFEST_FILES
      then Inl (ManifestCountMismatch (of_nat MAX_MANIFEST_FILES) (length entries))
      else
        and_then (check_entries [] [] 0 entries) (\<lambda>total_size.
        Inr \<lparr>mf_digest = digest, mf_entries = entries, mf_total_size = total_size\<rparr>))"

definition file_count :: "manifest \<Rightarrow> u64" where
  "file_count m = of_nat (length (mf_entries m))"

definition manifest_entry_of :: "manifest \<Rightarrow> file_id \<Rightarrow> manifest_entry option" where
  "manifest_entry_of m file_id = find (\<lambda>e. me_file_id e = file_id) (mf_entries m)"

fun position :: "('a \<Rightarrow> bool) \<Rightarrow> 'a list \<Rightarrow> usize option" where
  "position P [] = None"
| "position P (x # xs) = (if P x then Some 0 else map_option Suc (position P xs))"

definition manifest_position :: "manifest \<Rightarrow> file_id \<Rightarrow> usize option" where
  "manifest_position m file_id = position (\<lambda>e. me_file_id e = file_id) (mf_entries m)"

section \<open>Splitting and joining\<close>

fun join_with :: "u8 \<Rightarrow> bytes list \<Rightarrow> bytes" where
  "join_with d [] = []"
| "join_with d [c] = c"
| "join_with d (c # cs) = c @ d # join_with d cs"

lemma split_on_nonempty [simp]: "split_on d bs \<noteq> []"
  by (cases bs) (auto split: list.splits)

lemma join_split: "join_with d (split_on d bs) = bs"
proof (induction bs)
  case (Cons b bs)
  then show ?case
    by (cases "split_on d bs" rule: list.exhaust; cases "tl (split_on d bs)") auto
qed simp

lemma split_chars: "c \<in> set (split_on d bs) \<Longrightarrow> d \<notin> set c \<and> set c \<subseteq> set bs"
  by (induction bs arbitrary: c) (fastforce split: if_splits list.splits)+

lemma split_free: "d \<notin> set c \<Longrightarrow> split_on d c = [c]"
  by (induction c) auto

lemma split_component: "d \<notin> set c \<Longrightarrow> split_on d (c @ d # bs) = c # split_on d bs"
  by (induction c) auto

lemma split_join: "cs \<noteq> [] \<Longrightarrow> list_all (\<lambda>c. d \<notin> set c) cs \<Longrightarrow> split_on d (join_with d cs) = cs"
  by (induction d cs rule: join_with.induct) (simp_all add: split_free split_component)

lemma set_join: "set (join_with d cs) \<subseteq> insert d (\<Union>(set ` set cs))"
  by (induction d cs rule: join_with.induct) auto

lemma first_error_ok: "first_error f xs = Inr () \<longleftrightarrow> list_all (\<lambda>x. f x = Inr ()) xs"
  by (induction xs) (auto simp: result_simps)

section \<open>Accepted paths\<close>

text \<open>A name of a file or directory inside the one it is resolved in.\<close>

definition proper_component :: "bytes \<Rightarrow> bool" where
  "proper_component c \<longleftrightarrow> c \<noteq> [] \<and> c \<noteq> [DOT] \<and> c \<noteq> [DOT, DOT] \<and> SLASH \<notin> set c \<and> BACKSLASH \<notin> set c \<and> 0 \<notin> set c"

lemmas path_chars = SLASH_def BACKSLASH_def DOT_def

lemma join_proper:
  assumes "cs \<noteq> []" "list_all proper_component cs"
  shows "join_with SLASH cs \<noteq> []" "take 1 (join_with SLASH cs) \<noteq> [SLASH]" "0 \<notin> set (join_with SLASH cs)"
    "BACKSLASH \<notin> set (join_with SLASH cs)" "split_on SLASH (join_with SLASH cs) = cs"
proof -
  obtain b c cs' where cs: "cs = (b # c) # cs'" "b \<noteq> SLASH"
    using assms by (cases cs; cases "hd cs") (auto simp: proper_component_def)
  have "\<exists>bs. join_with SLASH cs = b # bs"
    unfolding cs by (cases cs') simp_all
  then show "join_with SLASH cs \<noteq> []" "take 1 (join_with SLASH cs) \<noteq> [SLASH]"
    using cs(2) by auto
  have free: "b \<notin> set (join_with SLASH cs)" if "b \<noteq> SLASH" "\<forall>c \<in> set cs. b \<notin> set c" for b
    using set_join [of SLASH cs] that by blast
  show "0 \<notin> set (join_with SLASH cs)" "BACKSLASH \<notin> set (join_with SLASH cs)"
    using assms(2) by (intro free; simp add: list_all_iff proper_component_def; simp add: path_chars)+
  show "split_on SLASH (join_with SLASH cs) = cs"
    using assms by (intro split_join) (auto simp: list_all_iff proper_component_def)
qed

text \<open>The relative paths that are accepted are exactly the joins by \<open>/\<close> of proper names, of bounded length: no path
  is absolute, empty or goes up by \<open>..\<close>, and no path of proper names is refused.\<close>

theorem path_accepted_iff:
  "validate_relative_path path = Inr () \<longleftrightarrow>
     length path \<le> MAX_PATH_LEN \<and> (\<exists>cs. cs \<noteq> [] \<and> list_all proper_component cs \<and> path = join_with SLASH cs)"
proof
  assume *: "validate_relative_path path = Inr ()"
  then have "list_all proper_component (split_on SLASH path)"
    using split_chars [of _ SLASH path]
    by (auto simp: validate_relative_path_def first_error_ok list_all_iff proper_component_def split: if_splits)
  with * show "length path \<le> MAX_PATH_LEN \<and> (\<exists>cs. cs \<noteq> [] \<and> list_all proper_component cs \<and> path = join_with SLASH cs)"
    by (intro conjI exI [of _ "split_on SLASH path"]) (auto simp: validate_relative_path_def join_split split: if_splits)
next
  assume "length path \<le> MAX_PATH_LEN \<and> (\<exists>cs. cs \<noteq> [] \<and> list_all proper_component cs \<and> path = join_with SLASH cs)"
  then obtain cs where "length path \<le> MAX_PATH_LEN" "cs \<noteq> []" "list_all proper_component cs" "path = join_with SLASH cs"
    by blast
  then show "validate_relative_path path = Inr ()"
    using join_proper [of cs]
    by (auto simp: validate_relative_path_def first_error_ok list_all_iff proper_component_def)
qed

section \<open>Accepted manifests\<close>

definition total_of :: "manifest_entry list \<Rightarrow> nat" where
  "total_of es = (\<Sum>e \<leftarrow> es. unat (me_size e))"

lemma total_of_simps [simp]: "total_of [] = 0" "total_of (e # es) = unat (me_size e) + total_of es"
  "total_of (es @ es') = total_of es + total_of es'"
  by (simp_all add: total_of_def)

lemma total_of_size: "e \<in> set es \<Longrightarrow> unat (me_size e) \<le> total_of es"
  by (induction es) auto

definition valid_entries :: "manifest_entry list \<Rightarrow> bool" where
  "valid_entries es \<longleftrightarrow> length es \<le> MAX_MANIFEST_FILES
     \<and> list_all (\<lambda>e. validate_relative_path (me_relative_path e) = Inr ()) es
     \<and> distinct (map me_file_id es) \<and> distinct (map me_relative_path es) \<and> total_of es < 2 ^ 64"

lemma check_entries_ok:
  assumes "bt_inv ids" "bt_inv paths"
  shows "check_entries ids paths t es = Inr n \<longleftrightarrow>
     list_all (\<lambda>e. validate_relative_path (me_relative_path e) = Inr ()) es
     \<and> distinct (map me_file_id es) \<and> distinct (map me_relative_path es)
     \<and> list_all (\<lambda>e. bt_get ids (me_file_id e) = None \<and> bt_get paths (me_relative_path e) = None) es
     \<and> unat t + total_of es < 2 ^ 64 \<and> n = t + of_nat (total_of es)"
  using assms
proof (induction es arbitrary: ids paths t)
  case (Cons e es)
  let ?ids = "bt_insert (me_file_id e) () ids" and ?paths = "bt_insert (me_relative_path e) () paths"
  note IH = Cons.IH [of ?ids ?paths "t + me_size e", OF bt_inv_insert bt_inv_insert, OF Cons.prems]
  have seen: "list_all (\<lambda>e'. bt_get ?ids (me_file_id e') = None \<and> bt_get ?paths (me_relative_path e') = None) es \<longleftrightarrow>
      me_file_id e \<notin> set (map me_file_id es) \<and> me_relative_path e \<notin> set (map me_relative_path es)
      \<and> list_all (\<lambda>e'. bt_get ids (me_file_id e') = None \<and> bt_get paths (me_relative_path e') = None) es"
    using Cons.prems by (simp add: list_all_iff bt_get_insert image_iff) metis
  show ?case
  proof (cases "unat t + unat (me_size e) < 2 ^ 64")
    case True
    then have sum: "unat (t + me_size e) = unat t + unat (me_size e)"
      by (subst unat_word_ariths) simp
    show ?thesis
      using True by (simp add: result_simps IH seen sum checked_add_def) (auto simp: add.assoc)
  next
    case False
    then show ?thesis
      by (auto simp: result_simps)
  qed
qed (use unsigned_less [where 'b = 64 and 'a = nat] in auto)

lemma manifest_new_ok:
  "manifest_new digest es = Inr m \<longleftrightarrow>
     valid_entries es \<and> m = \<lparr>mf_digest = digest, mf_entries = es, mf_total_size = of_nat (total_of es)\<rparr>"
  by (auto simp: manifest_new_def valid_entries_def result_simps check_entries_ok list_all_iff)

text \<open>\<open>Manifest::new\<close> accepts exactly the lists of at most a million entries without a repeated file identifier or path,
  whose sizes add up within 64 bits and whose paths are joins by \<open>/\<close> of proper names, of bounded length (none is absolute,
  empty or goes up by \<open>..\<close>), and it keeps the digest, the entries and the sum of their sizes.\<close>

theorem manifest_accepted:
  "manifest_new digest es = Inr m \<longleftrightarrow>
     length es \<le> MAX_MANIFEST_FILES \<and> distinct (map me_file_id es) \<and> distinct (map me_relative_path es)
     \<and> list_all (\<lambda>path. length path \<le> MAX_PATH_LEN
         \<and> (\<exists>cs. cs \<noteq> [] \<and> list_all proper_component cs \<and> path = join_with SLASH cs)) (map me_relative_path es)
     \<and> (\<Sum>e \<leftarrow> es. unat (me_size e)) < 2 ^ 64
     \<and> m = \<lparr>mf_digest = digest, mf_entries = es, mf_total_size = of_nat (\<Sum>e \<leftarrow> es. unat (me_size e))\<rparr>"
  unfolding manifest_new_ok valid_entries_def path_accepted_iff total_of_def list.pred_map comp_def
  by blast

end
