(* ===== verification/Transfer_Session.thy ===== *)
theory Transfer_Session
  imports Transfer_Codec Transfer_Manifest State_Result
begin

text \<open>
  One transfer between two peers: \<open>transfer-core/src/session.rs\<close> with the types of \<open>channel.rs\<close>. A session is a
  record; every method on \<open>&mut self\<close> is a computation of \<open>State_Result\<close>, so what a method has changed before an early
  return is kept. The traits \<open>Storage\<close>, \<open>PathSelector\<close>, \<open>Clock\<close>, \<open>ControlChannel\<close> and \<open>DataChannel\<close>, over which the methods
  are generic, are arguments: the functions of the trait on a state of the implementor, or the value of the clock.
  Subtractions and additions of \<open>u64\<close> that the code does not check are those of words; that they never wrap is a
  theorem of \<open>Session_Invariant\<close>.
\<close>

section \<open>Data\<close>

datatype session_role = Offerer_SR | Accepter_SR

datatype session_state =
    New
  | AwaitingHello
  | SendingManifest
  | ReceivingManifest
  | AwaitingDecision
  | AwaitingResume
  | SendingData
  | ReceivingData
  | AwaitingTransferComplete
  | Completed
  | Rejected
  | Cancelled
  | Failed

definition session_state_name :: "session_state \<Rightarrow> string" where
  "session_state_name st = (case st of
      New \<Rightarrow> ''new''
    | AwaitingHello \<Rightarrow> ''awaiting hello''
    | SendingManifest \<Rightarrow> ''sending manifest''
    | ReceivingManifest \<Rightarrow> ''receiving manifest''
    | AwaitingDecision \<Rightarrow> ''awaiting decision''
    | AwaitingResume \<Rightarrow> ''awaiting resume''
    | SendingData \<Rightarrow> ''sending data''
    | ReceivingData \<Rightarrow> ''receiving data''
    | AwaitingTransferComplete \<Rightarrow> ''awaiting transfer complete''
    | Completed \<Rightarrow> ''completed''
    | Rejected \<Rightarrow> ''rejected''
    | Cancelled \<Rightarrow> ''cancelled''
    | Failed \<Rightarrow> ''failed'')"

record session_config =
  sc_max_parallel_files :: usize
  sc_protocol_version :: u8
  sc_crypto_suite :: crypto_suite
  sc_first_data_stream_id :: u64
  sc_idle_timeout :: duration

definition session_config_default :: session_config where
  "session_config_default = \<lparr>sc_max_parallel_files = 2, sc_protocol_version = PROTOCOL_VERSION,
     sc_crypto_suite = X25519ChaCha20Poly1305, sc_first_data_stream_id = 1, sc_idle_timeout = 60 * 10 ^ 9\<rparr>"

definition session_config_validate :: "session_config \<Rightarrow> session_error + unit" where
  "session_config_validate c =
     (if sc_max_parallel_files c = 0 \<or> sc_first_data_stream_id c = 0 \<or> sc_idle_timeout c = 0
      then Inl (InvalidState_SE ''create session'' ''invalid configuration'') else Inr ())"

record data_chunk =
  dc_file_id :: file_id
  dc_stream_id :: u64
  dc_offset :: u64
  dc_bytes :: bytes
  dc_fin :: bool

record progress_report =
  fp_file_id :: file_id
  fp_durable_offset :: u64
  fp_received_offset :: u64
  fp_checkpoint_id :: u64
  fp_active_stream_id :: "u64 option"
  fp_complete :: bool

record durable_state =
  ds_durable_offset :: u64
  ds_checkpoint_id :: u64
  ds_state_hash :: digest

record path_selection =
  ps_path_id :: path_id
  ps_kind :: path_kind
  ps_rtt_millis :: u64
  ps_mtu :: u16

datatype path_state = Unselected | Direct path_selection | Relay relay_id | Failed_PS

datatype session_event =
    StateChanged session_state session_state
  | DataReceived file_id u64 bytes bool
  | DuplicateData file_id u64
  | DuplicateControl
  | Checkpointed file_id u64 u64
  | FileReadyToComplete file_id
  | FileCompleted file_id
  | TransferCompleted
  | PathSelected_EV path_selection
  | PathFallback relay_id

datatype outbound_message = Pairing_OM pairing_control | Transfer_OM transfer_control

record file_runtime =
  fr_entry :: manifest_entry
  fr_durable_offset :: u64
  fr_received_offset :: u64
  fr_checkpoint_id :: u64
  fr_state_hash :: digest
  fr_active_stream_id :: "u64 option"
  fr_base_offset :: u64
  fr_send_offset :: u64
  fr_fin_queued :: bool
  fr_awaiting_finish :: bool
  fr_complete :: bool

definition file_runtime_new :: "manifest_entry \<Rightarrow> digest \<Rightarrow> file_runtime" where
  "file_runtime_new entry zero_digest = \<lparr>fr_entry = entry, fr_durable_offset = 0, fr_received_offset = 0,
     fr_checkpoint_id = 0, fr_state_hash = zero_digest, fr_active_stream_id = None, fr_base_offset = 0,
     fr_send_offset = 0, fr_fin_queued = False, fr_awaiting_finish = False, fr_complete = False\<rparr>"

definition progress :: "file_runtime \<Rightarrow> progress_report" where
  "progress f = \<lparr>fp_file_id = me_file_id (fr_entry f), fp_durable_offset = fr_durable_offset f,
     fp_received_offset = fr_received_offset f, fp_checkpoint_id = fr_checkpoint_id f,
     fp_active_stream_id = fr_active_stream_id f, fp_complete = fr_complete f\<rparr>"

record manifest_assembly =
  ma_expected_count :: u64
  ma_expected_size :: u64
  ma_digest :: digest
  ma_entries :: "manifest_entry list"

record transfer_session =
  ts_role :: session_role
  ts_transfer_id :: transfer_id
  ts_config :: session_config
  ts_state :: session_state
  ts_manifest :: "manifest option"
  ts_remote_manifest_digest :: "digest option"
  ts_receive_decision :: "bool option"
  ts_assembly :: "manifest_assembly option"
  ts_files :: "(file_id, file_runtime) btree_map"
  ts_pending_resumes :: "(file_id, durable_state) btree_map"
  ts_completed_files :: u64
  ts_completed_size :: u64
  ts_next_stream_id :: u64
  ts_controls :: "outbound_message list"
  ts_data :: "data_chunk list"
  ts_path :: path_state
  ts_last_activity_millis :: u64

type_synonym 'a session_op = "(transfer_session, session_error, 'a) st"

abbreviation "entry_size f \<equiv> me_size (fr_entry f)"
abbreviation "entry_hash f \<equiv> me_content_hash (fr_entry f)"

section \<open>Helpers\<close>

definition state_error :: "string \<Rightarrow> session_state \<Rightarrow> session_error" where
  "state_error operation st = InvalidState_SE operation (session_state_name st)"

definition session_set_state :: "session_state \<Rightarrow> session_event session_op" where
  "session_set_state to = st_bind (st_read ts_state) (\<lambda>from.
     st_then (st_modify (\<lambda>s. s\<lparr>ts_state := to\<rparr>)) (st_return (StateChanged from to)))"

definition change_state :: "session_state \<Rightarrow> session_event list session_op" where
  "change_state to = st_bind (st_read ts_state) (\<lambda>from.
     if from = to then st_return [] else st_bind (session_set_state to) (\<lambda>e. st_return [e]))"

definition require_role :: "session_role \<Rightarrow> string \<Rightarrow> unit session_op" where
  "require_role role operation = st_bind (st_read ts_role) (\<lambda>r.
     if r = role then st_return () else st_fail (InvalidRole operation))"

definition get_file :: "file_id \<Rightarrow> file_runtime session_op" where
  "get_file file_id = st_bind (st_read ts_files) (\<lambda>files. st_lift (ok_or (UnknownFile file_id) (bt_get files file_id)))"

text \<open>The write through the reference that \<open>file_mut\<close> returns.\<close>

definition put_file :: "file_id \<Rightarrow> file_runtime \<Rightarrow> unit session_op" where
  "put_file file_id f = st_modify (\<lambda>s. s\<lparr>ts_files := bt_insert file_id f (ts_files s)\<rparr>)"

definition active_file_count :: "transfer_session \<Rightarrow> usize" where
  "active_file_count s = length (filter (\<lambda>f. fr_active_stream_id f \<noteq> None) (bt_values (ts_files s)))"

definition all_completed :: "transfer_session \<Rightarrow> bool" where
  "all_completed s \<longleftrightarrow> ts_completed_files s = of_nat (length (ts_files s))"

definition allocate_stream_id :: "u64 session_op" where
  "allocate_stream_id = st_bind (st_read ts_next_stream_id) (\<lambda>stream_id.
     st_bind (st_lift (ok_or (InvalidState_SE ''allocate data stream'' ''stream id exhausted'') (checked_add stream_id 1))) (\<lambda>next.
     st_then (st_modify (\<lambda>s. s\<lparr>ts_next_stream_id := next\<rparr>)) (st_return stream_id)))"

definition queue_transfer :: "transfer_control \<Rightarrow> unit session_op" where
  "queue_transfer m = st_modify (\<lambda>s. s\<lparr>ts_controls := ts_controls s @ [Transfer_OM m]\<rparr>)"

definition queue_pairing :: "pairing_control \<Rightarrow> unit session_op" where
  "queue_pairing m = st_modify (\<lambda>s. s\<lparr>ts_controls := ts_controls s @ [Pairing_OM m]\<rparr>)"

definition validate_offset :: "file_id \<Rightarrow> u64 \<Rightarrow> u64 \<Rightarrow> session_error + unit" where
  "validate_offset file_id offset maximum =
     (if offset \<le> maximum then Inr () else Inl (InvalidOffset_SE file_id offset maximum))"

text \<open>\<open>TransferComplete\<close> with the counters of the session.\<close>

definition queue_transfer_complete :: "unit session_op" where
  "queue_transfer_complete = st_bind (st_read (\<lambda>s. s)) (\<lambda>s.
     queue_transfer (TransferComplete (ts_transfer_id s) (ts_completed_files s) (ts_completed_size s)))"

section \<open>Construction\<close>

definition session_empty :: "session_role \<Rightarrow> transfer_id \<Rightarrow> session_config \<Rightarrow> transfer_session" where
  "session_empty role transfer_id config = \<lparr>ts_role = role, ts_transfer_id = transfer_id, ts_config = config,
     ts_state = New, ts_manifest = None, ts_remote_manifest_digest = None, ts_receive_decision = None, ts_assembly = None,
     ts_files = [], ts_pending_resumes = [], ts_completed_files = 0, ts_completed_size = 0,
     ts_next_stream_id = sc_first_data_stream_id config, ts_controls = [], ts_data = [], ts_path = Unselected,
     ts_last_activity_millis = 0\<rparr>"

definition runtimes :: "digest \<Rightarrow> manifest_entry list \<Rightarrow> (file_id, file_runtime) btree_map" where
  "runtimes zero_digest entries =
     fold (\<lambda>e files. bt_insert (me_file_id e) (file_runtime_new e zero_digest) files) entries []"

definition install_manifest :: "manifest \<Rightarrow> unit session_op" where
  "install_manifest m =
     (let zero_digest = \<lparr>dg_algorithm = dg_algorithm (mf_digest m), dg_bytes = replicate 32 0\<rparr> in
      st_modify (\<lambda>s. s\<lparr>ts_files := runtimes zero_digest (mf_entries m), ts_manifest := Some m\<rparr>))"

definition new_offerer :: "transfer_id \<Rightarrow> manifest \<Rightarrow> session_config \<Rightarrow> session_error + transfer_session" where
  "new_offerer transfer_id m config =
     and_then (session_config_validate config) (\<lambda>_.
     Inr (snd (install_manifest m (session_empty Offerer_SR transfer_id config))))"

definition new_accepter :: "transfer_id \<Rightarrow> session_config \<Rightarrow> session_error + transfer_session" where
  "new_accepter transfer_id config =
     and_then (session_config_validate config) (\<lambda>_. Inr (session_empty Accepter_SR transfer_id config))"

definition file_progress :: "transfer_session \<Rightarrow> file_id \<Rightarrow> session_error + progress_report" where
  "file_progress s file_id = ok_or (UnknownFile file_id) (map_option progress (bt_get (ts_files s) file_id))"

definition drain_control :: "outbound_message list session_op" where
  "drain_control = st_bind (st_read ts_controls) (\<lambda>ms. st_then (st_modify (\<lambda>s. s\<lparr>ts_controls := []\<rparr>)) (st_return ms))"

definition drain_data :: "data_chunk list session_op" where
  "drain_data = st_bind (st_read ts_data) (\<lambda>cs. st_then (st_modify (\<lambda>s. s\<lparr>ts_data := []\<rparr>)) (st_return cs))"

section \<open>Offer and decision\<close>

definition manifest_item :: "manifest_entry \<Rightarrow> transfer_control" where
  "manifest_item e = ManifestItem (me_file_id e) (me_relative_path e) (me_size e) (me_content_hash e) (me_metadata e)"

text \<open>The announcement of the manifest, which \<open>start_offerer\<close> and \<open>reconnect\<close> both write out.\<close>

definition queue_manifest :: "manifest \<Rightarrow> unit session_op" where
  "queue_manifest m =
     st_bind (st_read (\<lambda>s. s)) (\<lambda>s.
     st_then (queue_transfer (SessionHello (ts_transfer_id s) (sc_protocol_version (ts_config s))
       (sc_crypto_suite (ts_config s)) (mf_digest m) (ts_transfer_id s)))
     (st_then (queue_transfer (ManifestBegin (file_count m) (mf_total_size m) (mf_digest m)))
     (st_then (st_for (mf_entries m) (\<lambda>e. queue_transfer (manifest_item e)))
     (queue_transfer (ManifestEnd (mf_digest m))))))"

definition session_manifest :: "manifest session_op" where
  "session_manifest = st_bind (st_read ts_manifest) (\<lambda>m. st_lift (ok_or ManifestRequired m))"

definition start_offerer :: "session_event list session_op" where
  "start_offerer =
     st_bind session_manifest (\<lambda>m.
     st_bind (change_state SendingManifest) (\<lambda>events.
     st_then (queue_manifest m)
     (st_bind (change_state AwaitingDecision) (\<lambda>rest.
     st_return (events @ rest)))))"

definition session_start :: "session_event list session_op" where
  "session_start = st_bind (st_read (\<lambda>s. s)) (\<lambda>s.
     if ts_state s \<noteq> New then st_fail (state_error ''start'' (ts_state s))
     else (case ts_role s of
         Offerer_SR \<Rightarrow> start_offerer
       | Accepter_SR \<Rightarrow> change_state AwaitingHello))"

definition accept_offer :: "accept_decision \<Rightarrow> overwrite_policy \<Rightarrow> bytes \<Rightarrow> session_event list session_op" where
  "accept_offer decision policy label =
     st_then (require_role Accepter_SR ''accept offer'')
     (st_bind (st_read ts_state) (\<lambda>st.
     if st \<noteq> AwaitingDecision then st_fail (state_error ''accept offer'' st)
     else
       st_then (queue_transfer (ReceiveDecision (decision = Accept) policy label))
       (if decision \<noteq> Accept then change_state Rejected
        else
          st_bind (change_state AwaitingResume) (\<lambda>events.
          st_bind (st_read (\<lambda>s. s)) (\<lambda>s.
          if ts_files s = [] then
            st_then (queue_transfer (TransferComplete (ts_transfer_id s) 0 0))
            (st_bind (change_state Completed) (\<lambda>rest. st_return (events @ rest)))
          else st_return events)))))"

definition reject_offer :: "u16 \<Rightarrow> session_event list session_op" where
  "reject_offer reason_code =
     st_then (require_role Accepter_SR ''reject offer'')
     (st_bind (st_read (\<lambda>s. s)) (\<lambda>s.
     if ts_state s \<noteq> AwaitingDecision then st_fail (state_error ''reject offer'' (ts_state s))
     else st_then (queue_pairing (Cancel (ts_transfer_id s) reason_code)) (change_state Rejected)))"

definition handle_session_hello ::
  "transfer_id \<Rightarrow> u8 \<Rightarrow> crypto_suite \<Rightarrow> digest \<Rightarrow> session_event list session_op" where
  "handle_session_hello transfer_id version suite digest =
     st_then (require_role Accepter_SR ''handle session hello'')
     (st_bind (st_read (\<lambda>s. s)) (\<lambda>s.
     st_then (st_lift (check_transfer_id (ts_transfer_id s) transfer_id))
     (if ts_remote_manifest_digest s = Some digest \<and> ts_state s \<noteq> AwaitingHello then st_return [DuplicateControl]
      else if ts_state s \<noteq> AwaitingHello then st_fail (state_error ''handle session hello'' (ts_state s))
      else if version \<noteq> sc_protocol_version (ts_config s)
      then st_fail (ProtocolVersionMismatch (sc_protocol_version (ts_config s)) version)
      else if suite \<noteq> sc_crypto_suite (ts_config s) then st_fail CryptoSuiteMismatch
      else
        st_then (st_modify (\<lambda>s. s\<lparr>ts_remote_manifest_digest := Some digest\<rparr>))
        (change_state ReceivingManifest))))"

definition manifest_has_digest :: "transfer_session \<Rightarrow> digest \<Rightarrow> bool" where
  "manifest_has_digest s digest \<longleftrightarrow> (case ts_manifest s of None \<Rightarrow> False | Some m \<Rightarrow> mf_digest m = digest)"

definition handle_manifest_begin :: "u64 \<Rightarrow> u64 \<Rightarrow> digest \<Rightarrow> session_event list session_op" where
  "handle_manifest_begin count total_size digest =
     st_then (require_role Accepter_SR ''handle manifest begin'')
     (st_bind (st_read (\<lambda>s. s)) (\<lambda>s.
     if ts_state s \<noteq> ReceivingManifest then
       if manifest_has_digest s digest then st_return [DuplicateControl]
       else st_fail (state_error ''handle manifest begin'' (ts_state s))
     else if ts_remote_manifest_digest s \<noteq> Some digest then st_fail ManifestMismatch
     else if count > of_nat MAX_MANIFEST_FILES
     then st_fail (ManifestCountMismatch (of_nat MAX_MANIFEST_FILES) (unat count))
     else
       st_then (st_modify (\<lambda>s. s\<lparr>ts_assembly := Some \<lparr>ma_expected_count = count, ma_expected_size = total_size,
         ma_digest = digest, ma_entries = []\<rparr>\<rparr>))
       (st_return [])))"

definition handle_manifest_item :: "manifest_entry \<Rightarrow> session_event list session_op" where
  "handle_manifest_item entry =
     st_then (require_role Accepter_SR ''handle manifest item'')
     (st_bind (st_read (\<lambda>s. s)) (\<lambda>s.
     case ts_assembly s of
       None \<Rightarrow>
         if Option.bind (ts_manifest s) (\<lambda>m. manifest_entry_of m (me_file_id entry)) = Some entry
         then st_return [DuplicateControl] else st_fail ManifestNotReady
     | Some assembly \<Rightarrow>
         if of_nat (length (ma_entries assembly)) \<ge> ma_expected_count assembly
         then st_fail (ManifestCountMismatch (ma_expected_count assembly) (length (ma_entries assembly) + 1))
         else
           (case find (\<lambda>item. me_file_id item = me_file_id entry) (ma_entries assembly) of
              Some existing \<Rightarrow>
                if existing = entry then st_return [DuplicateControl] else st_fail (DuplicateFile (me_file_id entry))
            | None \<Rightarrow>
                st_then (st_modify (\<lambda>s. s\<lparr>ts_assembly := Some (assembly\<lparr>ma_entries := ma_entries assembly @ [entry]\<rparr>)\<rparr>))
                (st_return []))))"

text \<open>\<open>try_fold\<close> with the checked addition.\<close>

fun checked_total :: "u64 \<Rightarrow> manifest_entry list \<Rightarrow> session_error + u64" where
  "checked_total t [] = Inr t"
| "checked_total t (e # es) =
     and_then (ok_or (InvalidFileSize (me_file_id e)) (checked_add t (me_size e))) (\<lambda>t. checked_total t es)"

definition handle_manifest_end :: "digest \<Rightarrow> session_event list session_op" where
  "handle_manifest_end digest =
     st_then (require_role Accepter_SR ''handle manifest end'')
     (st_bind (st_read (\<lambda>s. s)) (\<lambda>s.
     st_then (st_modify (\<lambda>s. s\<lparr>ts_assembly := None\<rparr>))
     (case ts_assembly s of
        None \<Rightarrow> if manifest_has_digest s digest then st_return [DuplicateControl] else st_fail ManifestNotReady
      | Some assembly \<Rightarrow>
          if digest \<noteq> ma_digest assembly then st_fail ManifestMismatch
          else if of_nat (length (ma_entries assembly)) \<noteq> ma_expected_count assembly
          then st_fail (ManifestCountMismatch (ma_expected_count assembly) (length (ma_entries assembly)))
          else
            st_bind (st_lift (checked_total 0 (ma_entries assembly))) (\<lambda>actual_size.
            if actual_size \<noteq> ma_expected_size assembly
            then st_fail (ManifestSizeMismatch (ma_expected_size assembly) actual_size)
            else
              st_bind (st_lift (manifest_new digest (ma_entries assembly))) (\<lambda>m.
              st_then (install_manifest m) (change_state AwaitingDecision))))))"

definition resume_query :: "manifest_entry \<Rightarrow> transfer_control" where
  "resume_query e = ResumeQuery (me_file_id e) (me_content_hash e) (me_size e)"

definition handle_receive_decision :: "bool \<Rightarrow> session_event list session_op" where
  "handle_receive_decision accepted =
     st_then (require_role Offerer_SR ''handle receive decision'')
     (st_bind (st_read (\<lambda>s. s)) (\<lambda>s.
     if ts_state s \<noteq> AwaitingDecision then
       if ts_receive_decision s = Some accepted \<or> (ts_state s = AwaitingResume \<and> accepted) then st_return [DuplicateControl]
       else st_fail (state_error ''handle receive decision'' (ts_state s))
     else
       st_then (st_modify (\<lambda>s. s\<lparr>ts_receive_decision := Some accepted\<rparr>))
       (if \<not> accepted then change_state Rejected
        else
          st_bind session_manifest (\<lambda>m.
          st_then (st_for (mf_entries m) (\<lambda>e. queue_transfer (resume_query e)))
          (st_bind (change_state AwaitingResume) (\<lambda>events.
          st_bind (st_read ts_files) (\<lambda>files.
          if files = [] then st_bind (change_state AwaitingTransferComplete) (\<lambda>rest. st_return (events @ rest))
          else st_return events)))))))"

section \<open>Resuming and starting files\<close>

definition handle_resume_query :: "file_id \<Rightarrow> digest \<Rightarrow> u64 \<Rightarrow> session_event list session_op" where
  "handle_resume_query file_id content_hash sz =
     st_then (require_role Accepter_SR ''handle resume query'')
     (st_bind (get_file file_id) (\<lambda>f.
     if entry_hash f \<noteq> content_hash \<or> entry_size f \<noteq> sz then st_fail ManifestMismatch
     else if fr_complete f then
       st_then (queue_transfer (FileComplete file_id (entry_size f) (entry_hash f)))
       (st_then queue_transfer_complete (st_return [DuplicateControl]))
     else
       st_bind (st_read ts_state) (\<lambda>st.
       if \<not> (st = AwaitingResume \<or> st = ReceivingData) then
         if fr_complete f then st_return [DuplicateControl]
         else st_fail (state_error ''handle resume query'' st)
       else
         st_then (queue_transfer (ResumeState file_id (fr_durable_offset f) (fr_checkpoint_id f) (fr_state_hash f)))
         (st_return []))))"

definition start_file :: "file_id \<Rightarrow> session_event list session_op" where
  "start_file file_id =
     st_bind allocate_stream_id (\<lambda>stream_id.
     st_bind (get_file file_id) (\<lambda>f.
     if fr_active_stream_id f \<noteq> None \<or> fr_complete f then st_return [DuplicateControl]
     else
       let base_offset = fr_durable_offset f in
       st_then (put_file file_id (f\<lparr>fr_active_stream_id := Some stream_id, fr_base_offset := base_offset, fr_send_offset := 0,
         fr_fin_queued := (entry_size f = base_offset)\<rparr>))
       (st_then (queue_transfer (FileBegin file_id stream_id base_offset (entry_size f - base_offset) (entry_hash f)))
       (st_return []))))"

lemma start_file_pending [simp]: "ts_pending_resumes (snd (start_file fid s)) = ts_pending_resumes s"
  by (auto simp: start_file_def allocate_stream_id_def get_file_def put_file_def queue_transfer_def st_bind_def st_then_def
      Let_def split: sum.splits prod.splits)

text \<open>The loop of \<open>start_pending_files\<close>. Each round removes the first pending file, so it ends.\<close>

function start_pending_loop :: "transfer_session \<Rightarrow> (session_error + session_event list) \<times> transfer_session" where
  "start_pending_loop s =
     (if active_file_count s < sc_max_parallel_files (ts_config s) then
        (case ts_pending_resumes s of
           [] \<Rightarrow> (Inr [], s)
         | (fid, _) # _ \<Rightarrow>
             (case start_file fid (s\<lparr>ts_pending_resumes := bt_remove fid (ts_pending_resumes s)\<rparr>) of
                (Inl e, s') \<Rightarrow> (Inl e, s')
              | (Inr events, s') \<Rightarrow>
                  (case start_pending_loop s' of
                     (Inl e, s'') \<Rightarrow> (Inl e, s'')
                   | (Inr rest, s'') \<Rightarrow> (Inr (events @ rest), s''))))
      else (Inr [], s))"
  by pat_completeness auto

termination
proof (relation "measure (\<lambda>s. length (ts_pending_resumes s))")
  fix s :: transfer_session and p ps fid d r s' events
  assume *: "ts_pending_resumes s = p # ps" "(fid, d) = p"
    "(r, s') = start_file fid (s\<lparr>ts_pending_resumes := bt_remove fid (ts_pending_resumes s)\<rparr>)"
  from *(3) have "ts_pending_resumes s' = bt_remove fid (ts_pending_resumes s)"
    by (metis start_file_pending snd_conv transfer_session.select_convs(10) transfer_session.surjective
        transfer_session.update_convs(10))
  also have "length \<dots> < length (ts_pending_resumes s)"
    using *(1,2) by (intro length_bt_remove) auto
  finally show "(s', s) \<in> measure (\<lambda>s. length (ts_pending_resumes s))"
    by simp
qed simp

declare start_pending_loop.simps [simp del]

definition start_pending_files :: "session_event list session_op" where
  "start_pending_files =
     st_bind start_pending_loop (\<lambda>events.
     st_bind (st_read (\<lambda>s. s)) (\<lambda>s.
     if active_file_count s > 0 \<and> ts_state s = AwaitingResume
     then st_bind (change_state SendingData) (\<lambda>rest. st_return (events @ rest))
     else st_return events))"

definition handle_resume_state :: "file_id \<Rightarrow> durable_state \<Rightarrow> session_event list session_op" where
  "handle_resume_state file_id d =
     st_then (require_role Offerer_SR ''handle resume state'')
     (st_bind (st_read ts_state) (\<lambda>st.
     if \<not> (st = AwaitingResume \<or> st = SendingData \<or> st = AwaitingTransferComplete)
     then st_fail (state_error ''handle resume state'' st)
     else
       st_bind (get_file file_id) (\<lambda>f.
       st_then (st_lift (validate_offset file_id (ds_durable_offset d) (entry_size f)))
       (if fr_complete f then st_return [DuplicateControl]
        else if ds_checkpoint_id d < fr_checkpoint_id f
          \<or> (ds_checkpoint_id d = fr_checkpoint_id f \<and> ds_durable_offset d \<noteq> fr_durable_offset f)
        then st_fail (InvalidCheckpoint file_id (ds_checkpoint_id d) (fr_checkpoint_id f))
        else if ds_checkpoint_id d = fr_checkpoint_id f \<and> ds_durable_offset d = fr_durable_offset f
          \<and> ds_state_hash d = fr_state_hash f \<and> fr_active_stream_id f \<noteq> None
        then st_return [DuplicateControl]
        else
          st_then (put_file file_id (f\<lparr>fr_durable_offset := ds_durable_offset d, fr_checkpoint_id := ds_checkpoint_id d,
            fr_state_hash := ds_state_hash d\<rparr>))
          (st_then (st_modify (\<lambda>s. s\<lparr>ts_pending_resumes := bt_insert file_id d (ts_pending_resumes s)\<rparr>))
          start_pending_files)))))"

section \<open>Data\<close>

definition queue_data :: "file_id \<Rightarrow> bytes \<Rightarrow> bool \<Rightarrow> data_chunk session_op" where
  "queue_data file_id bs fin =
     st_then (require_role Offerer_SR ''queue data'')
     (st_bind (get_file file_id) (\<lambda>f.
     st_bind (st_lift (ok_or (InvalidStream file_id 0) (fr_active_stream_id f))) (\<lambda>stream_id.
     let remaining = entry_size f - fr_base_offset f;
         exceeds = DataExceedsFile file_id (fr_send_offset f) (length bs) remaining
     in
       st_bind (st_lift (ok_or exceeds (checked_add (fr_send_offset f) (of_nat (length bs))))) (\<lambda>new_offset.
       if new_offset > remaining \<or> (fin \<and> new_offset \<noteq> remaining) then st_fail exceeds
       else if fr_fin_queued f then st_fail (InvalidState_SE ''queue data'' ''file already finished'')
       else
         let chunk = \<lparr>dc_file_id = file_id, dc_stream_id = stream_id, dc_offset = new_offset - of_nat (length bs),
               dc_bytes = bs, dc_fin = fin\<rparr>
         in
           st_then (put_file file_id (f\<lparr>fr_send_offset := new_offset, fr_fin_queued := fin\<rparr>))
           (st_then (st_modify (\<lambda>s. s\<lparr>ts_data := ts_data s @ [chunk]\<rparr>))
           (st_return chunk))))))"

definition handle_file_begin :: "file_id \<Rightarrow> u64 \<Rightarrow> u64 \<Rightarrow> u64 \<Rightarrow> digest \<Rightarrow> session_event list session_op" where
  "handle_file_begin file_id stream_id base_offset remaining_size content_hash =
     st_then (require_role Accepter_SR ''handle file begin'')
     (st_bind (get_file file_id) (\<lambda>f.
     if fr_complete f then
       st_then (queue_transfer (FileComplete file_id (entry_size f) (entry_hash f)))
       (st_then queue_transfer_complete (st_return [DuplicateControl]))
     else
       st_then (st_lift (validate_offset file_id base_offset (entry_size f)))
       (if content_hash \<noteq> entry_hash f \<or> remaining_size \<noteq> entry_size f - base_offset then st_fail ManifestMismatch
        else
          (case fr_active_stream_id f of
             Some active_stream_id \<Rightarrow>
               if active_stream_id = stream_id \<and> fr_base_offset f = base_offset then st_return [DuplicateControl]
               else st_fail (InvalidStream file_id stream_id)
           | None \<Rightarrow>
               st_bind (st_read (\<lambda>s. s)) (\<lambda>s.
               if active_file_count s \<ge> sc_max_parallel_files (ts_config s)
               then st_fail (ActiveFileLimit (sc_max_parallel_files (ts_config s)))
               else if base_offset \<noteq> fr_durable_offset f
               then st_fail (InvalidOffset_SE file_id base_offset (fr_durable_offset f))
               else
                 st_then (put_file file_id (f\<lparr>fr_active_stream_id := Some stream_id, fr_base_offset := base_offset,
                   fr_received_offset := base_offset, fr_awaiting_finish := (remaining_size = 0)\<rparr>))
                 (change_state ReceivingData))))))"

text \<open>The received offset is advanced before the test of an early end of the stream, and stays so when it fails.\<close>

definition handle_data :: "data_chunk \<Rightarrow> session_event list session_op" where
  "handle_data chunk =
     st_then (require_role Accepter_SR ''handle data'')
     (st_bind (get_file (dc_file_id chunk)) (\<lambda>f.
     st_bind (st_lift (ok_or (InvalidStream (dc_file_id chunk) (dc_stream_id chunk)) (fr_active_stream_id f))) (\<lambda>active_stream_id.
     if active_stream_id \<noteq> dc_stream_id chunk then st_fail (InvalidStream (dc_file_id chunk) (dc_stream_id chunk))
     else
       let expected = fr_received_offset f - fr_base_offset f;
           remaining = entry_size f - fr_base_offset f;
           exceeds = DataExceedsFile (dc_file_id chunk) (dc_offset chunk) (length (dc_bytes chunk)) remaining
       in
         st_bind (st_lift (ok_or exceeds (checked_add (dc_offset chunk) (of_nat (length (dc_bytes chunk)))))) (\<lambda>stop.
         if stop > remaining then st_fail exceeds
         else if dc_offset chunk < expected \<and> stop \<le> expected
         then st_return [DuplicateData (dc_file_id chunk) (dc_offset chunk)]
         else if dc_offset chunk \<noteq> expected
         then st_fail (InvalidDataOffset (dc_file_id chunk) expected (dc_offset chunk))
         else
           let f' = f\<lparr>fr_received_offset := fr_base_offset f + stop\<rparr> in
           st_then (put_file (dc_file_id chunk) f')
           (if dc_fin chunk \<and> fr_received_offset f' \<noteq> entry_size f
            then st_fail (InvalidOffset_SE (dc_file_id chunk) (fr_received_offset f') (entry_size f))
            else
              let f'' = (if dc_fin chunk then f'\<lparr>fr_awaiting_finish := True\<rparr> else f');
                  event = DataReceived (dc_file_id chunk) (fr_base_offset f + dc_offset chunk) (dc_bytes chunk) (dc_fin chunk)
              in
                st_then (put_file (dc_file_id chunk) f'')
                (st_return (if fr_awaiting_finish f'' then [event, FileReadyToComplete (dc_file_id chunk)] else [event])))))))"

section \<open>Checkpoints and completion\<close>

definition stale_checkpoint :: "u64 \<Rightarrow> u64 \<Rightarrow> file_runtime \<Rightarrow> bool" where
  "stale_checkpoint durable_offset checkpoint_id f \<longleftrightarrow>
     checkpoint_id < fr_checkpoint_id f \<or> durable_offset < fr_durable_offset f
     \<or> (checkpoint_id = fr_checkpoint_id f \<and> durable_offset \<noteq> fr_durable_offset f)"

definition session_checkpoint :: "file_id \<Rightarrow> u64 \<Rightarrow> u64 \<Rightarrow> session_event list session_op" where
  "session_checkpoint file_id durable_offset checkpoint_id =
     st_then (require_role Accepter_SR ''checkpoint'')
     (st_bind (get_file file_id) (\<lambda>f.
     st_then (st_lift (validate_offset file_id durable_offset (fr_received_offset f)))
     (if stale_checkpoint durable_offset checkpoint_id f
      then st_fail (InvalidCheckpoint file_id checkpoint_id (fr_checkpoint_id f))
      else if checkpoint_id = fr_checkpoint_id f \<and> durable_offset = fr_durable_offset f then st_return [DuplicateControl]
      else
        st_then (put_file file_id (f\<lparr>fr_durable_offset := durable_offset, fr_checkpoint_id := checkpoint_id\<rparr>))
        (st_then (queue_transfer (Checkpoint file_id durable_offset checkpoint_id))
        (st_return [Checkpointed file_id durable_offset checkpoint_id])))))"

definition handle_remote_checkpoint :: "file_id \<Rightarrow> u64 \<Rightarrow> u64 \<Rightarrow> session_event list session_op" where
  "handle_remote_checkpoint file_id durable_offset checkpoint_id =
     st_then (require_role Offerer_SR ''handle checkpoint'')
     (st_bind (get_file file_id) (\<lambda>f.
     if checkpoint_id = fr_checkpoint_id f then
       if durable_offset = fr_durable_offset f then st_return [DuplicateControl]
       else st_fail (InvalidCheckpoint file_id checkpoint_id (fr_checkpoint_id f))
     else
       st_bind (st_lift (ok_or (InvalidFileSize file_id) (checked_add (fr_base_offset f) (fr_send_offset f)))) (\<lambda>maximum.
       st_then (st_lift (validate_offset file_id durable_offset maximum))
       (if stale_checkpoint durable_offset checkpoint_id f
        then st_fail (InvalidCheckpoint file_id checkpoint_id (fr_checkpoint_id f))
        else
          st_then (put_file file_id (f\<lparr>fr_durable_offset := durable_offset, fr_checkpoint_id := checkpoint_id\<rparr>))
          (st_return [])))))"

definition mark_complete :: "file_id \<Rightarrow> file_runtime \<Rightarrow> u64 \<Rightarrow> unit session_op" where
  "mark_complete file_id f final_size =
     st_then (put_file file_id (f\<lparr>fr_complete := True, fr_active_stream_id := None\<rparr>))
     (st_modify (\<lambda>s. s\<lparr>ts_completed_files := ts_completed_files s + 1, ts_completed_size := ts_completed_size s + final_size\<rparr>))"

definition complete_file :: "file_id \<Rightarrow> u64 \<Rightarrow> digest \<Rightarrow> session_event list session_op" where
  "complete_file file_id final_size content_hash =
     st_then (require_role Accepter_SR ''complete file'')
     (st_bind (get_file file_id) (\<lambda>f.
     if fr_complete f then st_return [DuplicateControl]
     else if \<not> fr_awaiting_finish f \<or> fr_received_offset f \<noteq> entry_size f
     then st_fail (InvalidState_SE ''complete file'' ''file data is incomplete'')
     else if final_size \<noteq> entry_size f \<or> content_hash \<noteq> entry_hash f then st_fail (IntegrityMismatch file_id)
     else if fr_durable_offset f \<noteq> entry_size f
     then st_fail (InvalidOffset_SE file_id (fr_durable_offset f) (entry_size f))
     else
       st_then (mark_complete file_id f final_size)
       (st_then (queue_transfer (FileComplete file_id final_size content_hash))
       (st_bind (st_read (\<lambda>s. s)) (\<lambda>s.
       if all_completed s then
         st_then queue_transfer_complete
         (st_bind (change_state Completed) (\<lambda>rest. st_return (FileCompleted file_id # rest @ [TransferCompleted])))
       else st_return [FileCompleted file_id])))))"

definition handle_file_complete_ack :: "file_id \<Rightarrow> u64 \<Rightarrow> digest \<Rightarrow> session_event list session_op" where
  "handle_file_complete_ack file_id final_size content_hash =
     st_then (require_role Offerer_SR ''handle file complete'')
     (st_bind (get_file file_id) (\<lambda>f.
     if fr_complete f then st_return [DuplicateControl]
     else if final_size \<noteq> entry_size f \<or> content_hash \<noteq> entry_hash f then st_fail (IntegrityMismatch file_id)
     else
       let remaining = entry_size f - fr_base_offset f in
       if fr_send_offset f \<noteq> remaining \<or> (\<not> fr_fin_queued f \<and> remaining \<noteq> 0)
       then st_fail (InvalidState_SE ''handle file complete'' ''data stream is incomplete'')
       else
         st_then (mark_complete file_id f final_size)
         (st_bind start_pending_files (\<lambda>events.
         st_bind (st_read (\<lambda>s. s)) (\<lambda>s.
         if all_completed s
         then st_bind (change_state AwaitingTransferComplete) (\<lambda>rest. st_return (FileCompleted file_id # events @ rest))
         else st_return (FileCompleted file_id # events))))))"

definition handle_file_rejected :: "file_id \<Rightarrow> file_reject_reason \<Rightarrow> session_event list session_op" where
  "handle_file_rejected file_id reason =
     st_then (require_role Offerer_SR ''handle file rejected'')
     (st_bind (get_file file_id) (\<lambda>_. change_state Failed))"

definition handle_transfer_complete :: "transfer_id \<Rightarrow> u64 \<Rightarrow> u64 \<Rightarrow> session_event list session_op" where
  "handle_transfer_complete transfer_id completed_files total_size =
     st_then (require_role Offerer_SR ''handle transfer complete'')
     (st_bind (st_read (\<lambda>s. s)) (\<lambda>s.
     st_then (st_lift (check_transfer_id (ts_transfer_id s) transfer_id))
     (if ts_state s = Completed then st_return [DuplicateControl]
      else if ts_state s \<noteq> AwaitingTransferComplete \<or> completed_files \<noteq> ts_completed_files s
        \<or> total_size \<noteq> ts_completed_size s
      then st_fail (state_error ''handle transfer complete'' (ts_state s))
      else st_bind (change_state Completed) (\<lambda>events. st_return (events @ [TransferCompleted])))))"

section \<open>Reconnection\<close>

text \<open>What \<open>reconnect\<close> does to a file that is not complete.\<close>

definition reset_file :: "session_role \<Rightarrow> file_runtime \<Rightarrow> file_runtime" where
  "reset_file role f =
     (if fr_complete f then f
      else
        let f' = f\<lparr>fr_active_stream_id := None, fr_send_offset := 0, fr_fin_queued := False, fr_awaiting_finish := False\<rparr> in
        if role = Accepter_SR then f'\<lparr>fr_received_offset := fr_durable_offset f\<rparr> else f')"

definition file_complete_message :: "file_runtime \<Rightarrow> transfer_control" where
  "file_complete_message f = FileComplete (me_file_id (fr_entry f)) (entry_size f) (entry_hash f)"

definition query_incomplete :: "manifest_entry \<Rightarrow> unit session_op" where
  "query_incomplete e =
     st_bind (get_file (me_file_id e)) (\<lambda>f.
     if \<not> fr_complete f then queue_transfer (resume_query e) else st_return ())"

definition reconnect :: "session_event list session_op" where
  "reconnect =
     st_bind (st_read (\<lambda>s. s)) (\<lambda>s.
     if ts_state s = Completed \<and> ts_role s = Accepter_SR then
       st_then (st_modify (\<lambda>s. s\<lparr>ts_controls := [], ts_data := []\<rparr>))
       (st_then (st_for (filter fr_complete (bt_values (ts_files s))) (\<lambda>f. queue_transfer (file_complete_message f)))
       (st_then queue_transfer_complete (st_return [])))
     else if ts_state s = Completed \<or> ts_state s = Rejected \<or> ts_state s = Cancelled
     then st_fail (state_error ''reconnect'' (ts_state s))
     else
       st_then (st_modify (\<lambda>s. s\<lparr>ts_data := [], ts_pending_resumes := [],
         ts_files := map (\<lambda>(k, f). (k, reset_file (ts_role s) f)) (ts_files s)\<rparr>))
       (st_then
         (case ts_role s of
            Offerer_SR \<Rightarrow>
              st_bind session_manifest (\<lambda>m.
              st_then (queue_manifest m)
              (st_for (mf_entries m) query_incomplete))
          | Accepter_SR \<Rightarrow> st_return ())
       (change_state AwaitingResume)))"

definition handle_transfer_error :: "transfer_error_scope \<Rightarrow> u32 \<Rightarrow> bool \<Rightarrow> bytes \<Rightarrow> session_event list session_op" where
  "handle_transfer_error scope code retryable text = (if retryable then reconnect else change_state Failed)"

section \<open>Control messages\<close>

fun handle_control :: "transfer_control \<Rightarrow> session_event list session_op" where
  "handle_control (SessionHello tid version suite digest _) = handle_session_hello tid version suite digest"
| "handle_control (ManifestBegin count total_size digest) = handle_manifest_begin count total_size digest"
| "handle_control (ManifestItem fid path sz content_hash metadata) =
     st_bind (st_lift (manifest_entry_new fid path sz content_hash metadata)) handle_manifest_item"
| "handle_control (ManifestEnd digest) = handle_manifest_end digest"
| "handle_control (ReceiveDecision accepted _ _) = handle_receive_decision accepted"
| "handle_control (ResumeQuery fid content_hash sz) = handle_resume_query fid content_hash sz"
| "handle_control (ResumeState fid durable_offset checkpoint_id state_hash) =
     handle_resume_state fid \<lparr>ds_durable_offset = durable_offset, ds_checkpoint_id = checkpoint_id, ds_state_hash = state_hash\<rparr>"
| "handle_control (FileBegin fid stream_id base_offset remaining_size content_hash) =
     handle_file_begin fid stream_id base_offset remaining_size content_hash"
| "handle_control (Checkpoint fid durable_offset checkpoint_id) = handle_remote_checkpoint fid durable_offset checkpoint_id"
| "handle_control (FileComplete fid final_size content_hash) = handle_file_complete_ack fid final_size content_hash"
| "handle_control (FileRejected fid reason) = handle_file_rejected fid reason"
| "handle_control (TransferComplete tid completed_files total_size) = handle_transfer_complete tid completed_files total_size"
| "handle_control (TransferError scope code retryable text) = handle_transfer_error scope code retryable text"

definition handle_control_with_flags :: "transfer_control \<Rightarrow> message_flags \<Rightarrow> session_event list session_op" where
  "handle_control_with_flags m flags =
     (if message_flags_contains flags ERROR
      then st_fail (InvalidState_SE ''handle control'' ''error flag requires an error message'')
      else handle_control m)"

section \<open>With storage\<close>

text \<open>The methods of the trait \<open>Storage\<close> on a state of the implementor. \<open>durable_state\<close> takes \<open>&self\<close>.\<close>

record 'st storage_ops =
  so_durable_state :: "'st \<Rightarrow> transfer_id \<Rightarrow> file_id \<Rightarrow> session_error + durable_state"
  so_write_data :: "transfer_id \<Rightarrow> file_id \<Rightarrow> u64 \<Rightarrow> bytes \<Rightarrow> ('st, session_error, unit) st"
  so_checkpoint :: "transfer_id \<Rightarrow> file_id \<Rightarrow> durable_state \<Rightarrow> ('st, session_error, unit) st"
  so_complete_file :: "transfer_id \<Rightarrow> file_id \<Rightarrow> u64 \<Rightarrow> digest \<Rightarrow> ('st, session_error, unit) st"

type_synonym ('st, 'a) stored_op = "(transfer_session \<times> 'st, session_error, 'a) st"

definition on_session :: "'a session_op \<Rightarrow> ('st, 'a) stored_op" where
  "on_session = st_field fst (\<lambda>s p. (s, snd p)) (\<lambda>e. e)"

definition on_storage :: "('st, session_error, 'a) st \<Rightarrow> ('st, 'a) stored_op" where
  "on_storage = st_field snd (\<lambda>t p. (fst p, t)) (\<lambda>e. e)"

fun received_bytes :: "session_event list \<Rightarrow> bytes option" where
  "received_bytes [] = None"
| "received_bytes (DataReceived _ _ bs _ # _) = Some bs"
| "received_bytes (_ # events) = received_bytes events"

definition handle_data_with_storage :: "'st storage_ops \<Rightarrow> data_chunk \<Rightarrow> ('st, session_event list) stored_op" where
  "handle_data_with_storage ops chunk =
     st_bind (on_session (get_file (dc_file_id chunk))) (\<lambda>f.
     let absolute_offset = saturating_add (fr_base_offset f) (dc_offset chunk) in
     st_bind (on_session (handle_data chunk)) (\<lambda>events.
     st_bind (st_read (ts_transfer_id \<circ> fst)) (\<lambda>tid.
     case received_bytes events of
       None \<Rightarrow> st_return events
     | Some bs \<Rightarrow> (\<lambda>p.
         case on_storage (so_write_data ops tid (dc_file_id chunk) absolute_offset bs) p of
           (Inl e, p') \<Rightarrow> (Inl e, (fst p'\<lparr>ts_state := Failed\<rparr>, snd p'))
         | (Inr _, p') \<Rightarrow> (Inr events, p')))))"

definition set_durable_state :: "file_id \<Rightarrow> durable_state \<Rightarrow> unit session_op" where
  "set_durable_state file_id d =
     st_bind (get_file file_id) (\<lambda>f.
     st_then (st_lift (validate_offset file_id (ds_durable_offset d) (entry_size f)))
     (if stale_checkpoint (ds_durable_offset d) (ds_checkpoint_id d) f
      then st_fail (InvalidCheckpoint file_id (ds_checkpoint_id d) (fr_checkpoint_id f))
      else put_file file_id (f\<lparr>fr_durable_offset := ds_durable_offset d, fr_checkpoint_id := ds_checkpoint_id d,
        fr_state_hash := ds_state_hash d\<rparr>)))"

definition respond_to_resume_query_with_storage ::
  "'st storage_ops \<Rightarrow> file_id \<Rightarrow> digest \<Rightarrow> u64 \<Rightarrow> ('st, session_event list) stored_op" where
  "respond_to_resume_query_with_storage ops file_id content_hash sz =
     st_bind (st_read (\<lambda>p. p)) (\<lambda>p.
     st_bind (st_lift (so_durable_state ops (snd p) (ts_transfer_id (fst p)) file_id)) (\<lambda>d.
     st_then (on_session (set_durable_state file_id d))
     (on_session (handle_resume_query file_id content_hash sz))))"

definition validate_checkpoint :: "file_id \<Rightarrow> u64 \<Rightarrow> u64 \<Rightarrow> unit session_op" where
  "validate_checkpoint file_id durable_offset checkpoint_id =
     st_bind (get_file file_id) (\<lambda>f.
     st_then (st_lift (validate_offset file_id durable_offset (fr_received_offset f)))
     (if stale_checkpoint durable_offset checkpoint_id f
      then st_fail (InvalidCheckpoint file_id checkpoint_id (fr_checkpoint_id f))
      else st_return ()))"

definition checkpoint_with_storage ::
  "'st storage_ops \<Rightarrow> file_id \<Rightarrow> u64 \<Rightarrow> u64 \<Rightarrow> digest \<Rightarrow> ('st, session_event list) stored_op" where
  "checkpoint_with_storage ops file_id durable_offset checkpoint_id state_hash =
     st_then (on_session (validate_checkpoint file_id durable_offset checkpoint_id))
     (st_bind (st_read (ts_transfer_id \<circ> fst)) (\<lambda>tid.
     st_then (on_storage (so_checkpoint ops tid file_id \<lparr>ds_durable_offset = durable_offset, ds_checkpoint_id = checkpoint_id,
       ds_state_hash = state_hash\<rparr>))
     (on_session
       (st_bind (get_file file_id) (\<lambda>f.
        st_then (put_file file_id (f\<lparr>fr_state_hash := state_hash\<rparr>))
        (session_checkpoint file_id durable_offset checkpoint_id))))))"

definition validate_file_completion :: "file_id \<Rightarrow> u64 \<Rightarrow> digest \<Rightarrow> unit session_op" where
  "validate_file_completion file_id final_size content_hash =
     st_bind (get_file file_id) (\<lambda>f.
     if fr_complete f then st_return ()
     else if \<not> fr_awaiting_finish f \<or> fr_received_offset f \<noteq> entry_size f
     then st_fail (InvalidState_SE ''complete file'' ''file data is incomplete'')
     else if final_size \<noteq> entry_size f \<or> content_hash \<noteq> entry_hash f then st_fail (IntegrityMismatch file_id)
     else if fr_durable_offset f \<noteq> entry_size f
     then st_fail (InvalidOffset_SE file_id (fr_durable_offset f) (entry_size f))
     else st_return ())"

definition complete_file_with_storage ::
  "'st storage_ops \<Rightarrow> file_id \<Rightarrow> u64 \<Rightarrow> digest \<Rightarrow> ('st, session_event list) stored_op" where
  "complete_file_with_storage ops file_id final_size content_hash =
     st_then (on_session (validate_file_completion file_id final_size content_hash))
     (st_bind (st_read (ts_transfer_id \<circ> fst)) (\<lambda>tid.
     st_then (on_storage (so_complete_file ops tid file_id final_size content_hash))
     (on_session (complete_file file_id final_size content_hash))))"

section \<open>Paths\<close>

text \<open>The trait \<open>PathSelector\<close> on a state of the implementor.\<close>

record 'p path_selector =
  sel_select :: "transfer_id \<Rightarrow> candidate list \<Rightarrow> ('p, session_error, path_selection) st"
  sel_relay :: "transfer_id \<Rightarrow> ('p, session_error, relay_id \<times> session_ticket) st"

definition select_path :: "'p path_selector \<Rightarrow> candidate list \<Rightarrow> ('p, session_event list) stored_op" where
  "select_path selector candidates =
     st_bind (st_read (ts_transfer_id \<circ> fst)) (\<lambda>tid.
     st_bind (on_storage (sel_select selector tid candidates)) (\<lambda>p.
     on_session
       (st_then (st_modify (\<lambda>s. s\<lparr>ts_path := Direct p\<rparr>))
       (st_then (queue_pairing (PathSelected tid (ps_path_id p) (ps_kind p) (ps_rtt_millis p) (ps_mtu p)))
       (st_return [PathSelected_EV p])))))"

definition fallback_to_relay :: "'p path_selector \<Rightarrow> ('p, session_event list) stored_op" where
  "fallback_to_relay selector =
     st_bind (st_read fst) (\<lambda>s.
     if (case ts_path s of Direct _ \<Rightarrow> False | Failed_PS \<Rightarrow> False | _ \<Rightarrow> True) then st_fail InvalidPathTransition
     else
       st_bind (on_storage (sel_relay selector (ts_transfer_id s))) (\<lambda>(relay_id, relay_ticket).
       on_session
         (st_then (st_modify (\<lambda>s. s\<lparr>ts_path := Relay relay_id\<rparr>))
         (st_then (queue_pairing (RelayOpen (ts_transfer_id s) relay_id relay_ticket))
         (st_return [PathFallback relay_id])))))"

definition is_relay :: "path_state \<Rightarrow> bool" where
  "is_relay p \<longleftrightarrow> (case p of Relay _ \<Rightarrow> True | _ \<Rightarrow> False)"

definition for_transfer :: "transfer_id \<Rightarrow> 'a session_op \<Rightarrow> 'a session_op" where
  "for_transfer transfer_id k =
     st_bind (st_read ts_transfer_id) (\<lambda>tid. st_then (st_lift (check_transfer_id tid transfer_id)) k)"

fun handle_pairing :: "pairing_control \<Rightarrow> session_event list session_op" where
  "handle_pairing (PathSelected tid path_id kind rtt_millis mtu) =
     for_transfer tid
       (st_bind (st_read ts_path) (\<lambda>path.
        if is_relay path then st_fail InvalidPathTransition
        else
          let p = \<lparr>ps_path_id = path_id, ps_kind = kind, ps_rtt_millis = rtt_millis, ps_mtu = mtu\<rparr> in
          st_then (st_modify (\<lambda>s. s\<lparr>ts_path := Direct p\<rparr>)) (st_return [PathSelected_EV p])))"
| "handle_pairing (RelayOpen tid relay_id _) =
     for_transfer tid
       (st_then (st_modify (\<lambda>s. s\<lparr>ts_path := Relay relay_id\<rparr>)) (st_return [PathFallback relay_id]))"
| "handle_pairing (RelayClosed tid reason) =
     for_transfer tid
       (st_bind (st_read ts_path) (\<lambda>path.
        if \<not> is_relay path then st_fail InvalidPathTransition
        else
          st_then (st_modify (\<lambda>s. s\<lparr>ts_path := Failed_PS\<rparr>))
          (if reason = Failed_RC then change_state Failed else st_return [])))"
| "handle_pairing (Cancel tid _) = for_transfer tid (change_state Cancelled)"
| "handle_pairing _ = st_fail InvalidPathTransition"

definition mark_path_failed :: "session_event list session_op" where
  "mark_path_failed = st_then (st_modify (\<lambda>s. s\<lparr>ts_path := Failed_PS\<rparr>)) (st_return [])"

section \<open>Time and output\<close>

definition touch :: "u64 \<Rightarrow> transfer_session \<Rightarrow> transfer_session" where
  "touch now s = s\<lparr>ts_last_activity_millis := now\<rparr>"

definition is_idle_expired :: "u64 \<Rightarrow> transfer_session \<Rightarrow> bool" where
  "is_idle_expired now s \<longleftrightarrow>
     saturating_sub now (ts_last_activity_millis s) \<ge> of_nat (sc_idle_timeout (ts_config s) div 10 ^ 6)"

text \<open>One of the loops of \<open>flush\<close>: what could not be sent stays at the front of the queue.\<close>

fun send_all :: "('m \<Rightarrow> ('c, string, unit) st) \<Rightarrow> 'm list \<Rightarrow> 'c \<Rightarrow> (session_error + unit) \<times> 'm list \<times> 'c" where
  "send_all send [] c = (Inr (), [], c)"
| "send_all send (m # ms) c =
     (case send m c of
        (Inl e, c') \<Rightarrow> (Inl (Channel e), m # ms, c')
      | (Inr _, c') \<Rightarrow> send_all send ms c')"

definition session_flush ::
  "(outbound_message \<Rightarrow> ('c, string, unit) st) \<Rightarrow> (data_chunk \<Rightarrow> ('d, string, unit) st) \<Rightarrow>
   transfer_session \<times> 'c \<times> 'd \<Rightarrow> (session_error + unit) \<times> transfer_session \<times> 'c \<times> 'd" where
  "session_flush send_control send_data p =
     (case p of (s, c, d) \<Rightarrow>
      case send_all send_control (ts_controls s) c of
        (Inl e, controls, c') \<Rightarrow> (Inl e, s\<lparr>ts_controls := controls\<rparr>, c', d)
      | (Inr _, controls, c') \<Rightarrow>
          (case send_all send_data (ts_data s) d of
             (r, chunks, d') \<Rightarrow> (r, s\<lparr>ts_controls := controls, ts_data := chunks\<rparr>, c', d')))"

definition build_transfer_error :: "transfer_error_scope \<Rightarrow> u32 \<Rightarrow> bool \<Rightarrow> bytes \<Rightarrow> outbound_message" where
  "build_transfer_error scope code retryable text = Transfer_OM (TransferError scope code retryable text)"

definition build_file_rejection :: "file_id \<Rightarrow> file_reject_reason \<Rightarrow> outbound_message" where
  "build_file_rejection file_id reason = Transfer_OM (FileRejected file_id reason)"

definition send_path_check_authorization :: "check_token \<Rightarrow> u64 \<Rightarrow> unit session_op" where
  "send_path_check_authorization check_token expires_at =
     st_bind (st_read ts_transfer_id) (\<lambda>tid. queue_pairing (PathCheckAuthorization tid check_token expires_at))"

definition send_candidate_list :: "candidate list \<Rightarrow> digest \<Rightarrow> unit session_op" where
  "send_candidate_list candidates digest =
     st_bind (st_read ts_transfer_id) (\<lambda>tid. queue_pairing (CandidateList tid candidates digest))"

definition send_file_rejection :: "file_id \<Rightarrow> file_reject_reason \<Rightarrow> unit session_op" where
  "send_file_rejection file_id reason = queue_transfer (FileRejected file_id reason)"

definition send_cancel :: "u16 \<Rightarrow> unit session_op" where
  "send_cancel reason_code =
     st_bind (st_read ts_transfer_id) (\<lambda>tid.
     st_then (queue_pairing (Cancel tid reason_code)) (st_modify (\<lambda>s. s\<lparr>ts_state := Cancelled\<rparr>)))"

definition is_complete :: "transfer_session \<Rightarrow> bool" where
  "is_complete s \<longleftrightarrow> ts_state s = Completed \<and> all_completed s"

definition reset_for_test :: "transfer_session \<Rightarrow> transfer_session" where
  "reset_for_test s = s\<lparr>ts_controls := [], ts_data := [], ts_path := Unselected, ts_last_activity_millis := 0\<rparr>"

end
