(* ===== verification/Session_Invariant.thy ===== *)
theory Session_Invariant
  imports Transfer_Session "HOL-Library.Multiset"
begin

text \<open>
  The invariant of a transfer session and its preservation by every operation of \<open>Transfer_Session\<close>, on success and on
  failure, whatever the peer sends and whatever storage and path selector do. It says that the files of the session
  are those of the manifest, that the offsets of a file stay within it (so that no unchecked addition or subtraction of
  the source wraps), that the counters count the complete files, that no more than \<open>max_parallel_files\<close> files are
  active, and what the states mean.
\<close>

section \<open>Running the operations\<close>

named_theorems session_run \<open>execution of the helpers of a session\<close>

lemma run_require_role [session_run]:
  "st_then (require_role r op) k s = (if ts_role s = r then k s else (Inl (InvalidRole op), s))"
  by (simp add: require_role_def st_then_def st_bind_def)

lemma run_get_file [session_run]:
  "st_bind (get_file fid) k s = (case bt_get (ts_files s) fid of None \<Rightarrow> (Inl (UnknownFile fid), s) | Some f \<Rightarrow> k f s)"
  by (simp add: get_file_def st_bind_def ok_or_def split: option.split)

lemma run_lift [session_run]:
  "st_bind (st_lift (ok_or e x)) k s = (case x of None \<Rightarrow> (Inl e, s) | Some y \<Rightarrow> k y s)"
  "st_then (st_lift (validate_offset fid offset maximum)) k' s =
     (if offset \<le> maximum then k' s else (Inl (InvalidOffset_SE fid offset maximum), s))"
  "st_then (st_lift (check_transfer_id a b)) k' s = (if a = b then k' s else (Inl InvalidTransferId, s))"
  by (auto simp: st_bind_def st_then_def validate_offset_def check_transfer_id_def split: option.splits)

lemma run_bind_lift: "st_bind (st_lift r) k s = (case r of Inl e \<Rightarrow> (Inl e, s) | Inr x \<Rightarrow> k x s)"
  by (cases r) (simp_all add: st_bind_def)

lemma run_put_file [session_run]:
  "st_then (put_file fid f) k s = k (s\<lparr>ts_files := bt_insert fid f (ts_files s)\<rparr>)"
  "put_file fid f s = (Inr (), s\<lparr>ts_files := bt_insert fid f (ts_files s)\<rparr>)"
  by (simp_all add: put_file_def)

lemma run_queue [session_run]:
  "st_then (queue_transfer m) k s = k (s\<lparr>ts_controls := ts_controls s @ [Transfer_OM m]\<rparr>)"
  "queue_transfer m s = (Inr (), s\<lparr>ts_controls := ts_controls s @ [Transfer_OM m]\<rparr>)"
  "st_then (queue_pairing p) k s = k (s\<lparr>ts_controls := ts_controls s @ [Pairing_OM p]\<rparr>)"
  "queue_pairing p s = (Inr (), s\<lparr>ts_controls := ts_controls s @ [Pairing_OM p]\<rparr>)"
  "st_then queue_transfer_complete k s =
     k (s\<lparr>ts_controls := ts_controls s @ [Transfer_OM (TransferComplete (ts_transfer_id s) (ts_completed_files s) (ts_completed_size s))]\<rparr>)"
  by (simp_all add: queue_transfer_def queue_pairing_def queue_transfer_complete_def st_then_def st_bind_def)

definition state_events :: "session_state \<Rightarrow> session_state \<Rightarrow> session_event list" where
  "state_events from to = (if from = to then [] else [StateChanged from to])"

lemma state_events_simps [simp]: "state_events st st = []" "from \<noteq> to \<Longrightarrow> state_events from to = [StateChanged from to]"
  by (simp_all add: state_events_def)

lemma run_change_state [session_run]:
  "change_state to s = (Inr (state_events (ts_state s) to), s\<lparr>ts_state := to\<rparr>)"
  "st_bind (change_state to) k s = k (state_events (ts_state s) to) (s\<lparr>ts_state := to\<rparr>)"
  by (auto simp: change_state_def session_set_state_def st_bind_def state_events_def)

lemma run_manifest [session_run]:
  "st_bind session_manifest k s = (case ts_manifest s of None \<Rightarrow> (Inl ManifestRequired, s) | Some m \<Rightarrow> k m s)"
  by (simp add: session_manifest_def st_bind_def split: option.split)

lemma run_install [session_run]: "st_then (install_manifest m) k s = k (snd (install_manifest m s))"
  by (simp add: install_manifest_def Let_def)

lemma run_queue_all [session_run]:
  "st_then (st_for es (\<lambda>e. queue_transfer (g e))) k s = k (s\<lparr>ts_controls := ts_controls s @ map (Transfer_OM \<circ> g) es\<rparr>)"
  "st_for es (\<lambda>e. queue_transfer (g e)) s = (Inr (), s\<lparr>ts_controls := ts_controls s @ map (Transfer_OM \<circ> g) es\<rparr>)"
proof -
  show "st_for es (\<lambda>e. queue_transfer (g e)) s = (Inr (), s\<lparr>ts_controls := ts_controls s @ map (Transfer_OM \<circ> g) es\<rparr>)" for s
    by (induction es arbitrary: s) (simp_all add: session_run)
  then show "st_then (st_for es (\<lambda>e. queue_transfer (g e))) k s = k (s\<lparr>ts_controls := ts_controls s @ map (Transfer_OM \<circ> g) es\<rparr>)"
    by (simp add: st_then_def st_bind_def)
qed

definition manifest_messages :: "transfer_session \<Rightarrow> manifest \<Rightarrow> transfer_control list" where
  "manifest_messages s m =
     SessionHello (ts_transfer_id s) (sc_protocol_version (ts_config s)) (sc_crypto_suite (ts_config s)) (mf_digest m) (ts_transfer_id s)
     # ManifestBegin (file_count m) (mf_total_size m) (mf_digest m)
     # map manifest_item (mf_entries m) @ [ManifestEnd (mf_digest m)]"

lemma run_queue_manifest [session_run]:
  "st_then (queue_manifest m) k s = k (s\<lparr>ts_controls := ts_controls s @ map Transfer_OM (manifest_messages s m)\<rparr>)"
proof -
  have "queue_manifest m s = (Inr (), s\<lparr>ts_controls := ts_controls s @ map Transfer_OM (manifest_messages s m)\<rparr>)"
    by (simp add: queue_manifest_def session_run manifest_messages_def comp_def)
  then show ?thesis
    by (simp add: st_then_def st_bind_def)
qed

section \<open>Replacing one file\<close>

lemma bt_insert_existing:
  assumes "bt_inv m" "bt_get m k = Some v"
  obtains xs ys where "m = xs @ (k, v) # ys" "\<And>v'. bt_insert k v' m = xs @ (k, v') # ys"
    "\<And>k'. k' \<in> set (bt_keys xs) \<union> set (bt_keys ys) \<Longrightarrow> k' \<noteq> k"
proof -
  have "\<exists>xs ys. m = xs @ (k, v) # ys \<and> (\<forall>v'. bt_insert k v' m = xs @ (k, v') # ys)
     \<and> (\<forall>k' \<in> set (bt_keys xs) \<union> set (bt_keys ys). k' \<noteq> k)"
    using assms
  proof (induction m)
    case (Cons p m)
    obtain k1 v1 where p: "p = (k1, v1)"
      by (cases p)
    show ?case
    proof (cases "k1 = k")
      case True
      then show ?thesis
        using Cons.prems by (intro exI [of _ "[]"] exI [of _ m]) (auto simp: p)
    next
      case False
      then obtain xs ys where IH: "m = xs @ (k, v) # ys" "\<And>v'. bt_insert k v' m = xs @ (k, v') # ys"
        "\<And>k'. k' \<in> set (bt_keys xs) \<union> set (bt_keys ys) \<Longrightarrow> k' \<noteq> k"
        using Cons by (auto simp: p)
      have "k1 < k"
        using Cons.prems(1) IH(1) by (auto simp: p bt_keys_def)
      then show ?thesis
        using IH by (intro exI [of _ "p # xs"] exI [of _ ys]) (auto simp: p)
    qed
  qed simp
  then show ?thesis
    using that by blast
qed

lemma bt_insert_twice [simp]: "bt_insert k v (bt_insert k v' m) = bt_insert k v m"
  by (induction k v' m rule: bt_insert.induct) auto

section \<open>The invariant\<close>

definition file_ok :: "session_role \<Rightarrow> file_runtime \<Rightarrow> bool" where
  "file_ok role f \<longleftrightarrow>
     fr_durable_offset f \<le> entry_size f \<and> fr_received_offset f \<le> entry_size f
     \<and> unat (fr_base_offset f) + unat (fr_send_offset f) \<le> unat (entry_size f)
     \<and> (fr_fin_queued f \<longrightarrow> unat (fr_base_offset f) + unat (fr_send_offset f) = unat (entry_size f))
     \<and> (fr_awaiting_finish f \<longrightarrow> fr_received_offset f = entry_size f)
     \<and> (fr_active_stream_id f \<noteq> None \<longrightarrow> \<not> fr_complete f)
     \<and> (role = Accepter_SR \<and> fr_active_stream_id f \<noteq> None \<longrightarrow> fr_base_offset f \<le> fr_received_offset f)
     \<and> (role = Accepter_SR \<and> fr_complete f \<longrightarrow> fr_received_offset f = entry_size f \<and> fr_durable_offset f = entry_size f)
     \<and> (role = Accepter_SR \<longrightarrow> fr_send_offset f = 0 \<and> \<not> fr_fin_queued f)
     \<and> (role = Offerer_SR \<and> fr_complete f \<longrightarrow> unat (fr_base_offset f) + unat (fr_send_offset f) = unat (entry_size f))"

definition complete_files :: "transfer_session \<Rightarrow> file_runtime list" where
  "complete_files s = filter fr_complete (bt_values (ts_files s))"

definition session_entries :: "transfer_session \<Rightarrow> manifest_entry list" where
  "session_entries s = (case ts_manifest s of None \<Rightarrow> [] | Some m \<Rightarrow> mf_entries m)"

definition files_inv :: "transfer_session \<Rightarrow> bool" where
  "files_inv s \<longleftrightarrow> bt_inv (ts_files s) \<and> bt_inv (ts_pending_resumes s)
     \<and> (\<forall>(k, f) \<in> set (ts_files s). me_file_id (fr_entry f) = k \<and> file_ok (ts_role s) f)
     \<and> mset (map fr_entry (bt_values (ts_files s))) = mset (session_entries s)
     \<and> valid_entries (session_entries s)
     \<and> ts_completed_files s = of_nat (length (complete_files s))
     \<and> ts_completed_size s = of_nat (total_of (map fr_entry (complete_files s)))
     \<and> active_file_count s \<le> sc_max_parallel_files (ts_config s)"

definition all_files_complete :: "transfer_session \<Rightarrow> bool" where
  "all_files_complete s \<longleftrightarrow> ts_manifest s \<noteq> None \<and> list_all fr_complete (bt_values (ts_files s))"

definition state_ok :: "session_state \<Rightarrow> transfer_session \<Rightarrow> bool" where
  "state_ok st s \<longleftrightarrow>
     (ts_role s = Accepter_SR \<and> (st = New \<or> st = AwaitingHello \<or> st = ReceivingManifest) \<longrightarrow> ts_manifest s = None)
     \<and> (st = AwaitingDecision \<longrightarrow> ts_manifest s \<noteq> None)
     \<and> (st = AwaitingTransferComplete \<or> st = Completed \<longrightarrow> all_files_complete s)"

definition session_inv :: "transfer_session \<Rightarrow> bool" where
  "session_inv s \<longleftrightarrow> files_inv s \<and> state_ok (ts_state s) s
     \<and> (ts_assembly s \<noteq> None \<longrightarrow> ts_role s = Accepter_SR \<and> ts_manifest s = None)
     \<and> (ts_role s = Offerer_SR \<longrightarrow> ts_manifest s \<noteq> None)
     \<and> (\<forall>m. ts_manifest s = Some m \<longrightarrow> mf_total_size m = of_nat (total_of (mf_entries m)))"

lemmas session_observers = complete_files_def session_entries_def active_file_count_def all_files_complete_def

lemma inv_irrelevant [simp]:
  "session_inv (s\<lparr>ts_controls := c\<rparr>) = session_inv s"
  "session_inv (s\<lparr>ts_data := d\<rparr>) = session_inv s"
  "session_inv (s\<lparr>ts_path := p\<rparr>) = session_inv s"
  "session_inv (s\<lparr>ts_remote_manifest_digest := r\<rparr>) = session_inv s"
  "session_inv (s\<lparr>ts_receive_decision := b\<rparr>) = session_inv s"
  "session_inv (s\<lparr>ts_next_stream_id := n\<rparr>) = session_inv s"
  "session_inv (s\<lparr>ts_last_activity_millis := t\<rparr>) = session_inv s"
  by (simp_all add: session_inv_def files_inv_def state_ok_def session_observers)

lemma inv_state: "session_inv s \<Longrightarrow> state_ok st s \<Longrightarrow> session_inv (s\<lparr>ts_state := st\<rparr>)"
  by (simp add: session_inv_def files_inv_def state_ok_def session_observers)

lemma state_ok_irrelevant [simp]:
  "state_ok st (s\<lparr>ts_controls := c\<rparr>) = state_ok st s"
  "state_ok st (s\<lparr>ts_data := d\<rparr>) = state_ok st s"
  "state_ok st (s\<lparr>ts_path := p\<rparr>) = state_ok st s"
  "state_ok st (s\<lparr>ts_state := st'\<rparr>) = state_ok st s"
  "state_ok st (s\<lparr>ts_remote_manifest_digest := r\<rparr>) = state_ok st s"
  "state_ok st (s\<lparr>ts_receive_decision := b\<rparr>) = state_ok st s"
  by (simp_all add: state_ok_def session_observers)

text \<open>The states that say nothing about manifest and files.\<close>

lemma state_ok_free:
  "st \<in> {SendingManifest, AwaitingResume, SendingData, ReceivingData, Rejected, Cancelled, Failed} \<Longrightarrow> state_ok st s"
  by (auto simp: state_ok_def)

lemma inv_pending: "session_inv s \<Longrightarrow> bt_inv p \<Longrightarrow> session_inv (s\<lparr>ts_pending_resumes := p\<rparr>)"
  by (simp add: session_inv_def files_inv_def state_ok_def session_observers)

lemma inv_pendingD: "session_inv s \<Longrightarrow> bt_inv (ts_pending_resumes s)"
  by (simp add: session_inv_def files_inv_def)

lemma inv_file:
  assumes "session_inv s" "bt_get (ts_files s) k = Some f"
  shows "file_ok (ts_role s) f" "me_file_id (fr_entry f) = k" "bt_inv (ts_files s)"
proof -
  from assms have "(k, f) \<in> set (ts_files s)" "bt_inv (ts_files s)"
    by (auto simp: session_inv_def files_inv_def bt.entries_get)
  with assms(1) show "file_ok (ts_role s) f" "me_file_id (fr_entry f) = k" "bt_inv (ts_files s)"
    by (auto simp: session_inv_def files_inv_def)
qed

text \<open>A file is replaced by one of the same entry.\<close>

lemma inv_put_file:
  assumes "session_inv s" "bt_get (ts_files s) k = Some f"
    and "file_ok (ts_role s) f'" "fr_entry f' = fr_entry f" "fr_complete f' = fr_complete f"
    and "fr_active_stream_id f' \<noteq> None \<Longrightarrow> fr_active_stream_id f = None \<Longrightarrow> active_file_count s < sc_max_parallel_files (ts_config s)"
  shows "session_inv (s\<lparr>ts_files := bt_insert k f' (ts_files s)\<rparr>)"
proof -
  let ?s = "s\<lparr>ts_files := bt_insert k f' (ts_files s)\<rparr>"
  from inv_file(3) [OF assms(1,2)] assms(2) obtain xs ys where
    split: "ts_files s = xs @ (k, f) # ys" "bt_insert k f' (ts_files s) = xs @ (k, f') # ys"
    by (auto elim: bt_insert_existing)
  have "bt_inv (xs @ (k, f') # ys)"
    using bt_inv_insert [OF inv_file(3) [OF assms(1,2)], of k f'] unfolding split(2) .
  moreover have "map fr_entry (complete_files ?s) = map fr_entry (complete_files s)"
    "length (complete_files ?s) = length (complete_files s)" "all_files_complete ?s = all_files_complete s"
    "map fr_entry (bt_values (ts_files ?s)) = map fr_entry (bt_values (ts_files s))"
    using assms(4,5) by (simp_all add: session_observers split(2)) (simp_all add: split(1) bt_values_def)
  moreover have "active_file_count ?s \<le> sc_max_parallel_files (ts_config s)"
    using assms(1,6) by (simp add: session_inv_def files_inv_def active_file_count_def split(2))
      (auto simp: split(1) bt_values_def split: if_splits)
  moreover have "\<forall>(k', g) \<in> set (xs @ (k, f') # ys). me_file_id (fr_entry g) = k' \<and> file_ok (ts_role s) g"
    using assms(1,3,4) by (auto simp: session_inv_def files_inv_def split(1))
  ultimately show ?thesis
    using assms(1) by (simp add: session_inv_def files_inv_def state_ok_def session_entries_def split(2))
qed

section \<open>Counting\<close>

lemma total_of_mset: "mset es = mset es' \<Longrightarrow> total_of es = total_of es'"
  unfolding total_of_def by (metis mset_map sum_mset_sum_list)

lemma total_of_filter: "total_of (map fr_entry (filter P fs)) \<le> total_of (map fr_entry fs)"
  by (induction fs) auto

lemma inv_lengths:
  assumes "session_inv s"
  shows "length (ts_files s) = length (session_entries s)" "length (ts_files s) \<le> 1000000"
    "total_of (map fr_entry (bt_values (ts_files s))) = total_of (session_entries s)"
    "total_of (session_entries s) < 2 ^ 64"
proof -
  from assms have *: "mset (map fr_entry (bt_values (ts_files s))) = mset (session_entries s)" "valid_entries (session_entries s)"
    by (auto simp: session_inv_def files_inv_def)
  from mset_eq_length [OF *(1)] *(2) show "length (ts_files s) = length (session_entries s)" "length (ts_files s) \<le> 1000000"
    by (simp_all add: bt_values_def valid_entries_def MAX_MANIFEST_FILES_def)
  show "total_of (map fr_entry (bt_values (ts_files s))) = total_of (session_entries s)"
    by (rule total_of_mset) (rule *)
  show "total_of (session_entries s) < 2 ^ 64"
    using *(2) by (simp add: valid_entries_def)
qed

lemma length_filter_all: "length (filter P xs) = length xs \<longleftrightarrow> list_all P xs"
proof (induction xs)
  case (Cons x xs)
  then show ?case
    by auto (metis Suc_n_not_le_n length_filter_le)
qed simp

lemma complete_files_length: "length (complete_files s) \<le> length (ts_files s)"
  using length_filter_le [of fr_complete "bt_values (ts_files s)"] by (simp add: complete_files_def bt_values_def)

lemma all_completed_iff:
  assumes "session_inv s"
  shows "all_completed s \<longleftrightarrow> list_all fr_complete (bt_values (ts_files s))"
proof -
  have "all_completed s \<longleftrightarrow> (of_nat (length (complete_files s)) :: u64) = of_nat (length (ts_files s))"
    using assms by (simp add: all_completed_def session_inv_def files_inv_def)
  also have "\<dots> \<longleftrightarrow> length (complete_files s) = length (ts_files s)"
    using inv_lengths(2) [OF assms] complete_files_length [of s] by (auto dest!: arg_cong [where f = unat] simp: unat_of_nat_small)
  also have "\<dots> \<longleftrightarrow> list_all fr_complete (bt_values (ts_files s))"
    using length_filter_all [of fr_complete "bt_values (ts_files s)"] by (simp add: complete_files_def bt_values_def)
  finally show ?thesis .
qed

lemma inv_mark_complete:
  assumes "session_inv s" "bt_get (ts_files s) k = Some f" "\<not> fr_complete f"
    and "file_ok (ts_role s) (f\<lparr>fr_complete := True, fr_active_stream_id := None\<rparr>)"
  shows "session_inv (snd (mark_complete k f (entry_size f) s))"
proof -
  let ?f = "f\<lparr>fr_complete := True, fr_active_stream_id := None\<rparr>"
  from inv_file(3) [OF assms(1,2)] assms(2) obtain xs ys where
    split: "ts_files s = xs @ (k, f) # ys" "bt_insert k ?f (ts_files s) = xs @ (k, ?f) # ys"
    by (auto elim: bt_insert_existing)
  have bt: "bt_inv (xs @ (k, ?f) # ys)"
    using bt_inv_insert [OF inv_file(3) [OF assms(1,2)], of k ?f] unfolding split(2) .
  have run: "snd (mark_complete k f (entry_size f) s) = s\<lparr>ts_files := xs @ (k, ?f) # ys,
      ts_completed_files := ts_completed_files s + 1, ts_completed_size := ts_completed_size s + entry_size f\<rparr>"
    by (simp add: mark_complete_def session_run split(2))
  have "list_all fr_complete (bt_values (ts_files s)) \<Longrightarrow> False"
    using assms(3) by (simp add: split bt_values_def)
  then show ?thesis
    unfolding run using assms bt
    by (auto simp: session_inv_def files_inv_def state_ok_def session_observers split bt_values_def add.assoc
        split: if_splits option.splits)
qed

section \<open>Installing a manifest\<close>

lemma runtimes_append: "runtimes z (es @ [e]) = bt_insert (me_file_id e) (file_runtime_new e z) (runtimes z es)"
  by (simp add: runtimes_def)

lemma mset_bt_insert: "bt_inv m \<Longrightarrow> bt_get m k = None \<Longrightarrow> mset (bt_insert k v m) = add_mset (k, v) (mset m)"
  by (induction k v m rule: bt_insert.induct) (auto split: if_splits)

lemma runtimes_values:
  "distinct (map me_file_id es) \<Longrightarrow>
   mset (runtimes z es) = image_mset (\<lambda>e. (me_file_id e, file_runtime_new e z)) (mset es) \<and> bt_inv (runtimes z es)"
proof (induction es rule: rev_induct)
  case (snoc e es)
  then have IH: "mset (runtimes z es) = image_mset (\<lambda>e. (me_file_id e, file_runtime_new e z)) (mset es)" "bt_inv (runtimes z es)"
    by simp_all
  have "set (runtimes z es) = (\<lambda>e. (me_file_id e, file_runtime_new e z)) ` set es"
    using arg_cong [OF IH(1), of set_mset] by simp
  with IH(2) snoc.prems have "bt_get (runtimes z es) (me_file_id e) = None"
    by (auto simp: bt_get_def map_of_eq_None_iff)
  with IH show ?case
    by (simp add: runtimes_append mset_bt_insert bt_inv_insert)
qed (simp add: runtimes_def)

lemma file_ok_new: "file_ok role (file_runtime_new e z)"
  by (simp add: file_ok_def file_runtime_new_def)

lemma files_inv_install:
  assumes "ts_manifest s = None" "files_inv s" "manifest_new d es = Inr m"
  shows "files_inv (snd (install_manifest m s))"
proof -
  from assms(3) have m: "mf_entries m = es" "valid_entries es"
    by (auto simp: manifest_new_ok)
  let ?z = "\<lparr>dg_algorithm = dg_algorithm (mf_digest m), dg_bytes = replicate 32 0\<rparr>"
  let ?files = "runtimes ?z es"
  have files: "mset ?files = image_mset (\<lambda>e. (me_file_id e, file_runtime_new e ?z)) (mset es)" "bt_inv ?files"
    using m(2) runtimes_values by (auto simp: valid_entries_def)
  have set: "set ?files = (\<lambda>e. (me_file_id e, file_runtime_new e ?z)) ` set es"
    using arg_cong [OF files(1), of set_mset] by simp
  have none: "filter fr_complete (bt_values ?files) = []" "filter (\<lambda>f. fr_active_stream_id f \<noteq> None) (bt_values ?files) = []"
    by (auto simp: filter_empty_conv bt_values_def set file_runtime_new_def)
  have "mset (map fr_entry (bt_values ?files)) = image_mset (fr_entry \<circ> snd) (mset ?files)"
    by (simp add: bt_values_def multiset.map_comp)
  also have "\<dots> = mset es"
    unfolding files(1) by (simp add: multiset.map_comp comp_def file_runtime_new_def)
  finally have entries: "mset (map fr_entry (bt_values ?files)) = mset es" .
  have "\<forall>(k, f) \<in> set ?files. me_file_id (fr_entry f) = k \<and> file_ok (ts_role s) f"
    using file_ok_new by (auto simp: set file_runtime_new_def)
  moreover have "ts_completed_files s = 0" "ts_completed_size s = 0"
    using assms(1,2) by (auto simp: files_inv_def session_observers)
  ultimately show ?thesis
    using assms(2) files(2) none entries m
    by (simp add: files_inv_def session_observers install_manifest_def Let_def)
qed

section \<open>Preservation\<close>

text \<open>Below, \<open>session_inv (snd (op s))\<close> for one operation after the other, by running it.\<close>

named_theorems session_keeps \<open>preservation of the invariant\<close>

lemmas session_split = if_split option.split session_role.split prod.split sum.split

lemma keeps_start [session_keeps]: "session_inv s \<Longrightarrow> session_inv (snd (session_start s))"
  by (auto simp: session_start_def start_offerer_def session_run session_inv_def state_ok_def files_inv_def session_observers
      split: session_split)

lemma empty_complete: "session_inv s \<Longrightarrow> ts_files s = [] \<Longrightarrow> ts_manifest s \<noteq> None \<Longrightarrow> all_files_complete s"
  by (simp add: all_files_complete_def bt_values_def)

lemma decision_manifest: "session_inv s \<Longrightarrow> ts_state s = AwaitingDecision \<Longrightarrow> ts_manifest s \<noteq> None"
  by (simp add: session_inv_def state_ok_def)

lemma keeps_accept_offer [session_keeps]: "session_inv s \<Longrightarrow> session_inv (snd (accept_offer decision policy label s))"
  using empty_complete [of s] decision_manifest [of s]
  by (auto simp: accept_offer_def session_run state_ok_def all_files_complete_def intro!: inv_state split: session_split)

lemma keeps_reject_offer [session_keeps]: "session_inv s \<Longrightarrow> session_inv (snd (reject_offer code s))"
  by (simp add: reject_offer_def session_run inv_state state_ok_free)

lemma early_manifest:
  assumes "session_inv s" "ts_role s = Accepter_SR" "ts_state s = New \<or> ts_state s = AwaitingHello \<or> ts_state s = ReceivingManifest"
  shows "ts_manifest s = None"
  using assms unfolding session_inv_def state_ok_def by blast

lemma inv_assembly:
  "session_inv s \<Longrightarrow> ts_role s = Accepter_SR \<Longrightarrow> ts_manifest s = None \<Longrightarrow> session_inv (s\<lparr>ts_assembly := a\<rparr>)"
  by (simp add: session_inv_def state_ok_def files_inv_def session_observers)

lemma inv_assembled: "session_inv s \<Longrightarrow> ts_assembly s = Some a \<Longrightarrow> ts_manifest s = None"
  by (simp add: session_inv_def)

lemma keeps_session_hello [session_keeps]: "session_inv s \<Longrightarrow> session_inv (snd (handle_session_hello tid v suite d s))"
  by (simp add: handle_session_hello_def session_run inv_state state_ok_def early_manifest)

lemma keeps_manifest_begin [session_keeps]: "session_inv s \<Longrightarrow> session_inv (snd (handle_manifest_begin n t d s))"
  by (simp add: handle_manifest_begin_def session_run inv_assembly early_manifest)

lemma keeps_manifest_item [session_keeps]: "session_inv s \<Longrightarrow> session_inv (snd (handle_manifest_item e s))"
  by (auto simp: handle_manifest_item_def session_run intro!: inv_assembly dest: inv_assembled split: session_split)

lemma inv_no_assembly: "session_inv s \<Longrightarrow> session_inv (s\<lparr>ts_assembly := None\<rparr>)"
  by (simp add: session_inv_def state_ok_def files_inv_def session_observers)

lemma inv_install:
  assumes "session_inv s" "ts_manifest s = None" "ts_assembly s = None" "manifest_new d es = Inr m"
  shows "session_inv (snd (install_manifest m s)\<lparr>ts_state := AwaitingDecision\<rparr>)"
proof -
  have "files_inv (snd (install_manifest m s))"
    using assms by (intro files_inv_install) (simp_all add: session_inv_def)
  moreover have "mf_total_size m = of_nat (total_of (mf_entries m))"
    using assms(4) by (simp add: manifest_new_ok)
  ultimately show ?thesis
    using assms(1,3) by (simp add: session_inv_def state_ok_def install_manifest_def files_inv_def session_observers Let_def)
qed

lemma keeps_manifest_end [session_keeps]:
  assumes "session_inv s"
  shows "session_inv (snd (handle_manifest_end d s))"
proof (cases "ts_assembly s")
  case None
  then show ?thesis
    using inv_no_assembly [OF assms] assms by (simp add: handle_manifest_end_def session_run)
next
  case (Some a)
  with assms have none: "ts_manifest s = None"
    by (simp add: session_inv_def)
  show ?thesis
    using inv_no_assembly [OF assms] assms inv_install [OF inv_no_assembly [OF assms]] none
    by (auto simp: handle_manifest_end_def session_run Some run_bind_lift split: session_split)
qed

lemma keeps_receive_decision [session_keeps]: "session_inv s \<Longrightarrow> session_inv (snd (handle_receive_decision b s))"
  using empty_complete [of s] decision_manifest [of s]
  by (auto simp: handle_receive_decision_def session_run state_ok_def all_files_complete_def intro!: inv_state split: session_split)

lemma keeps_resume_query [session_keeps]: "session_inv s \<Longrightarrow> session_inv (snd (handle_resume_query fid d n s))"
  by (auto simp: handle_resume_query_def session_run split: session_split)

text \<open>The bounds of a file, over its natural numbers.\<close>

lemma base_plus:
  "unat (b :: u64) + unat n \<le> unat sz \<Longrightarrow> unat (b + n) = unat b + unat n"
  "unat (b :: u64) \<le> unat sz \<Longrightarrow> unat (sz - b) = unat sz - unat b"
proof -
  assume "unat b + unat n \<le> unat sz"
  then show "unat (b + n) = unat b + unat n"
    using unsigned_less [of sz, where 'a = nat] by (subst unat_word_ariths) simp
next
  assume "unat b \<le> unat sz"
  then show "unat (sz - b) = unat sz - unat b"
    by (intro unat_sub) (simp add: word_le_nat_alt)
qed

lemma run_allocate [session_run]:
  "st_bind allocate_stream_id k s =
     (case checked_add (ts_next_stream_id s) 1 of
        None \<Rightarrow> (Inl (InvalidState_SE ''allocate data stream'' ''stream id exhausted''), s)
      | Some n \<Rightarrow> k (ts_next_stream_id s) (s\<lparr>ts_next_stream_id := n\<rparr>))"
  by (simp add: allocate_stream_id_def st_bind_def ok_or_def split: option.split)

lemma active_irrelevant [simp]:
  "active_file_count (s\<lparr>ts_next_stream_id := n\<rparr>) = active_file_count s"
  "active_file_count (s\<lparr>ts_controls := c\<rparr>) = active_file_count s"
  "active_file_count (s\<lparr>ts_pending_resumes := p\<rparr>) = active_file_count s"
  "active_file_count (s\<lparr>ts_state := st\<rparr>) = active_file_count s"
  by (simp_all add: active_file_count_def)

lemma start_file_inv:
  assumes "session_inv s" "active_file_count s < sc_max_parallel_files (ts_config s)" "ts_role s = Offerer_SR"
  shows "session_inv (snd (start_file fid s))"
proof -
  have started: "session_inv (s\<lparr>ts_next_stream_id := n, ts_files := bt_insert fid (f\<lparr>fr_active_stream_id := Some i,
      fr_base_offset := fr_durable_offset f, fr_send_offset := 0, fr_fin_queued := (entry_size f = fr_durable_offset f)\<rparr>) (ts_files s)\<rparr>)"
    if "bt_get (ts_files s) fid = Some f" "fr_active_stream_id f = None" "\<not> fr_complete f" for f n i
  proof -
    have "file_ok (ts_role s) (f\<lparr>fr_active_stream_id := Some i, fr_base_offset := fr_durable_offset f, fr_send_offset := 0,
      fr_fin_queued := (entry_size f = fr_durable_offset f)\<rparr>)"
      using inv_file(1) [OF assms(1) that(1)] that(2,3) assms(3) by (auto simp: file_ok_def word_le_nat_alt)
    then show ?thesis
      using inv_put_file [of "s\<lparr>ts_next_stream_id := n\<rparr>" fid f] assms that by simp
  qed
  show ?thesis
    using assms(1) started by (auto simp: start_file_def session_run Let_def split: session_split)
qed

lemma start_file_frame:
  "ts_role (snd (start_file fid s)) = ts_role s" "ts_config (snd (start_file fid s)) = ts_config s"
  "ts_state (snd (start_file fid s)) = ts_state s" "ts_manifest (snd (start_file fid s)) = ts_manifest s"
  by (auto simp: start_file_def session_run Let_def split: session_split)

text \<open>What every round of the loop keeps holds at its end.\<close>

lemma start_pending_loop_rule:
  assumes "P s"
    and step: "\<And>s fid d ps. P s \<Longrightarrow> active_file_count s < sc_max_parallel_files (ts_config s) \<Longrightarrow> ts_pending_resumes s = (fid, d) # ps \<Longrightarrow>
       P (snd (start_file fid (s\<lparr>ts_pending_resumes := bt_remove fid (ts_pending_resumes s)\<rparr>)))"
  shows "P (snd (start_pending_loop s))"
  using assms(1)
proof (induction s rule: start_pending_loop.induct)
  case (1 s)
  show ?case
  proof (cases "active_file_count s < sc_max_parallel_files (ts_config s) \<and> ts_pending_resumes s \<noteq> []")
    case True
    then obtain fid d ps where p: "ts_pending_resumes s = (fid, d) # ps"
      by (cases "ts_pending_resumes s") auto
    obtain r s1 where run: "start_file fid (s\<lparr>ts_pending_resumes := bt_remove fid (ts_pending_resumes s)\<rparr>) = (r, s1)"
      by fastforce
    have "P s1"
      using step [OF 1(2) _ p] True by (simp add: run)
    then show ?thesis
      using True 1(1) [of "(fid, d)" ps fid d r s1] p run
      by (subst start_pending_loop.simps) (auto split: sum.splits prod.splits)
  next
    case False
    then show ?thesis
      using 1(2) by (subst start_pending_loop.simps) auto
  qed
qed

lemma start_pending_loop_inv:
  assumes "session_inv s" "ts_role s = Offerer_SR"
  shows "session_inv (snd (start_pending_loop s)) \<and> ts_role (snd (start_pending_loop s)) = Offerer_SR"
proof (rule start_pending_loop_rule)
  show "session_inv s \<and> ts_role s = Offerer_SR"
    using assms by simp
next
  fix s fid d ps
  assume *: "session_inv s \<and> ts_role s = Offerer_SR" "active_file_count s < sc_max_parallel_files (ts_config s)"
  let ?s = "s\<lparr>ts_pending_resumes := bt_remove fid (ts_pending_resumes s)\<rparr>"
  have "session_inv ?s"
    using * by (intro inv_pending bt_inv_remove inv_pendingD) simp_all
  with start_file_inv [of ?s fid] * show "session_inv (snd (start_file fid ?s)) \<and> ts_role (snd (start_file fid ?s)) = Offerer_SR"
    by (simp add: start_file_frame)
qed

lemma start_pending_loop_frame:
  "ts_role (snd (start_pending_loop s)) = ts_role s \<and> ts_manifest (snd (start_pending_loop s)) = ts_manifest s
     \<and> ts_state (snd (start_pending_loop s)) = ts_state s"
  by (rule start_pending_loop_rule) (simp_all add: start_file_frame)

lemma start_pending_frame:
  "ts_role (snd (start_pending_files s)) = ts_role s" "ts_manifest (snd (start_pending_files s)) = ts_manifest s"
  using start_pending_loop_frame [of s] by (auto simp: start_pending_files_def st_bind_def session_run split: session_split)

lemma start_pending_files_inv:
  "session_inv s \<Longrightarrow> ts_role s = Offerer_SR \<Longrightarrow> session_inv (snd (start_pending_files s))"
  using start_pending_loop_inv [of s]
  by (auto simp: start_pending_files_def st_bind_def session_run state_ok_free intro!: inv_state split: session_split)

text \<open>A file is replaced by one that is active only if it was.\<close>

lemma inv_update_file:
  assumes "session_inv s" "bt_get (ts_files s) k = Some f" "file_ok (ts_role s) f'"
    and "fr_entry f' = fr_entry f" "fr_complete f' = fr_complete f" "fr_active_stream_id f' = fr_active_stream_id f"
  shows "session_inv (s\<lparr>ts_files := bt_insert k f' (ts_files s)\<rparr>)"
  using assms by (intro inv_put_file) auto

lemma keeps_resume_state [session_keeps]:
  assumes "session_inv s"
  shows "session_inv (snd (handle_resume_state fid d s))"
proof -
  let ?f = "\<lambda>f. f\<lparr>fr_durable_offset := ds_durable_offset d, fr_checkpoint_id := ds_checkpoint_id d, fr_state_hash := ds_state_hash d\<rparr>"
  let ?s = "\<lambda>f. s\<lparr>ts_files := bt_insert fid (?f f) (ts_files s), ts_pending_resumes := bt_insert fid d (ts_pending_resumes s)\<rparr>"
  have "session_inv (?s f)" if "ts_role s = Offerer_SR" "bt_get (ts_files s) fid = Some f" "ds_durable_offset d \<le> entry_size f" for f
    using inv_file(1) [OF assms that(2)] that assms bt_inv_insert [OF inv_pendingD [OF assms]]
    by (intro inv_pending inv_update_file [where f = f]) (auto simp: file_ok_def)
  then show ?thesis
    using assms by (auto simp: handle_resume_state_def session_run intro: start_pending_files_inv split: session_split)
qed

lemma keeps_queue_data [session_keeps]:
  assumes "session_inv s"
  shows "session_inv (snd (queue_data fid bs fin s))"
proof -
  have "session_inv (s\<lparr>ts_files := bt_insert fid (f\<lparr>fr_send_offset := n, fr_fin_queued := fin\<rparr>) (ts_files s)\<rparr>)"
    if "ts_role s = Offerer_SR" "bt_get (ts_files s) fid = Some f" "n \<le> entry_size f - fr_base_offset f"
      "fr_active_stream_id f = Some i" "fin \<longrightarrow> n = entry_size f - fr_base_offset f" for f n i
  proof -
    have ok: "file_ok (ts_role s) f"
      using inv_file(1) [OF assms that(2)] .
    then have "unat (entry_size f - fr_base_offset f) = unat (entry_size f) - unat (fr_base_offset f)"
        "unat (fr_base_offset f) \<le> unat (entry_size f)"
      using base_plus(2) [of "fr_base_offset f" "entry_size f"] by (auto simp: file_ok_def)
    then have "file_ok (ts_role s) (f\<lparr>fr_send_offset := n, fr_fin_queued := fin\<rparr>)"
      using ok that by (auto simp: file_ok_def word_le_nat_alt)
    then show ?thesis
      using assms that by (intro inv_update_file) auto
  qed
  then show ?thesis
    using assms by (auto simp: queue_data_def session_run Let_def split: session_split)
qed

lemma keeps_file_begin [session_keeps]:
  assumes "session_inv s"
  shows "session_inv (snd (handle_file_begin fid i base remaining d s))"
proof -
  have "session_inv (s\<lparr>ts_files := bt_insert fid (f\<lparr>fr_active_stream_id := Some i, fr_base_offset := base,
      fr_received_offset := base, fr_awaiting_finish := (remaining = 0)\<rparr>) (ts_files s), ts_state := ReceivingData\<rparr>)"
    if "ts_role s = Accepter_SR" "bt_get (ts_files s) fid = Some f" "base \<le> entry_size f" "remaining = entry_size f - base"
      "\<not> fr_complete f" "active_file_count s < sc_max_parallel_files (ts_config s)" for f
  proof (intro inv_state inv_put_file [OF assms that(2)])
    show "file_ok (ts_role s) (f\<lparr>fr_active_stream_id := Some i, fr_base_offset := base,
      fr_received_offset := base, fr_awaiting_finish := (remaining = 0)\<rparr>)"
      using inv_file(1) [OF assms that(2)] that by (auto simp: file_ok_def word_le_nat_alt)
  qed (use that in \<open>auto simp: state_ok_free\<close>)
  then show ?thesis
    using assms by (auto simp: handle_file_begin_def session_run split: session_split)
qed

lemma checked_add_le: "checked_add a b = Some n \<Longrightarrow> a \<le> (n :: 'a::len word)"
  by (auto simp: result_simps word_le_nat_alt unat_word_ariths)

lemma keeps_data [session_keeps]:
  assumes "session_inv s"
  shows "session_inv (snd (handle_data c s))"
proof -
  define fid where "fid = dc_file_id c"
  have step: "session_inv (s\<lparr>ts_files := bt_insert fid (f\<lparr>fr_received_offset := fr_base_offset f + n\<rparr>) (ts_files s)\<rparr>)
     \<and> (fr_base_offset f + n = entry_size f \<longrightarrow> session_inv (s\<lparr>ts_files := bt_insert fid (f\<lparr>fr_received_offset := fr_base_offset f + n,
          fr_awaiting_finish := True\<rparr>) (ts_files s)\<rparr>))"
    if "ts_role s = Accepter_SR" "bt_get (ts_files s) fid = Some f" "fr_active_stream_id f = Some i"
      "\<not> entry_size f - fr_base_offset f < n" "checked_add (fr_received_offset f - fr_base_offset f) b = Some n" for f i n b
  proof -
    have ok: "file_ok (ts_role s) f"
      using inv_file(1) [OF assms that(2)] .
    then have base: "unat (fr_base_offset f) \<le> unat (entry_size f)" "unat (fr_base_offset f) \<le> unat (fr_received_offset f)"
      using that by (auto simp: file_ok_def word_le_nat_alt)
    then have n: "unat (fr_base_offset f) + unat n \<le> unat (entry_size f)"
      "unat (fr_received_offset f) \<le> unat (fr_base_offset f) + unat n"
      using that(4) checked_add_le [OF that(5)] base_plus(2) [OF base(1)] base_plus(2) [OF base(2)]
      by (auto simp: word_le_nat_alt word_less_nat_alt)
    from base_plus(1) [OF n(1)] n ok that have
      "file_ok (ts_role s) (f\<lparr>fr_received_offset := fr_base_offset f + n\<rparr>)"
      "fr_base_offset f + n = entry_size f \<Longrightarrow> file_ok (ts_role s) (f\<lparr>fr_received_offset := fr_base_offset f + n, fr_awaiting_finish := True\<rparr>)"
      by (auto simp: file_ok_def word_le_nat_alt word_unat_eq_iff)
    then show ?thesis
      using assms that by (auto intro!: inv_update_file)
  qed
  show ?thesis
    using assms step unfolding fid_def
    by (auto simp: handle_data_def session_run Let_def split: session_split)
qed

lemma keeps_checkpoint [session_keeps]:
  assumes "session_inv s"
  shows "session_inv (snd (session_checkpoint fid d i s))"
proof -
  have "session_inv (s\<lparr>ts_files := bt_insert fid (f\<lparr>fr_durable_offset := d, fr_checkpoint_id := i\<rparr>) (ts_files s)\<rparr>)"
    if "ts_role s = Accepter_SR" "bt_get (ts_files s) fid = Some f" "d \<le> fr_received_offset f" "\<not> stale_checkpoint d i f" for f
    using inv_file(1) [OF assms that(2)] that
    by (intro inv_update_file [OF assms]) (auto simp: file_ok_def stale_checkpoint_def)
  then show ?thesis
    using assms by (auto simp: session_checkpoint_def session_run split: session_split)
qed

lemma keeps_remote_checkpoint [session_keeps]:
  assumes "session_inv s"
  shows "session_inv (snd (handle_remote_checkpoint fid d i s))"
proof -
  have "session_inv (s\<lparr>ts_files := bt_insert fid (f\<lparr>fr_durable_offset := d, fr_checkpoint_id := i\<rparr>) (ts_files s)\<rparr>)"
    if "ts_role s = Offerer_SR" "bt_get (ts_files s) fid = Some f" "d \<le> n" "checked_add (fr_base_offset f) (fr_send_offset f) = Some n" for f n
    using inv_file(1) [OF assms that(2)] that
    by (intro inv_update_file [OF assms]) (auto simp: file_ok_def word_le_nat_alt result_simps unat_word_ariths)
  then show ?thesis
    using assms by (auto simp: handle_remote_checkpoint_def session_run split: session_split)
qed

lemma run_mark_complete: "st_then (mark_complete fid f n) k s = k (snd (mark_complete fid f n s))"
  by (simp add: mark_complete_def session_run st_then_def st_bind_def)

lemma mark_complete_frame:
  "ts_role (snd (mark_complete fid f n s)) = ts_role s" "ts_manifest (snd (mark_complete fid f n s)) = ts_manifest s"
  "ts_state (snd (mark_complete fid f n s)) = ts_state s"
  by (simp_all add: mark_complete_def session_run)

lemma inv_has_manifest: "session_inv s \<Longrightarrow> bt_get (ts_files s) k = Some f \<Longrightarrow> ts_manifest s \<noteq> None"
  by (auto simp: session_inv_def files_inv_def session_entries_def bt_values_def split: option.splits)

lemma inv_all_completed:
  "session_inv s \<Longrightarrow> all_completed s \<Longrightarrow> ts_manifest s \<noteq> None \<Longrightarrow> all_files_complete s"
  by (simp add: all_completed_iff all_files_complete_def)

lemma all_completed_irrelevant [simp]:
  "all_completed (s\<lparr>ts_controls := c\<rparr>) = all_completed s" "all_files_complete (s\<lparr>ts_controls := c\<rparr>) = all_files_complete s"
  by (simp_all add: all_completed_def all_files_complete_def)

lemma state_ok_finished: "all_files_complete s \<Longrightarrow> state_ok AwaitingTransferComplete s \<and> state_ok Completed s"
  by (simp add: state_ok_def)

lemma keeps_complete_file [session_keeps]:
  assumes "session_inv s"
  shows "session_inv (snd (complete_file fid n d s))"
proof -
  have "session_inv (snd (mark_complete fid f (entry_size f) s))
     \<and> ts_manifest (snd (mark_complete fid f (entry_size f) s)) \<noteq> None"
    if "ts_role s = Accepter_SR" "bt_get (ts_files s) fid = Some f" "\<not> fr_complete f"
      "fr_received_offset f = entry_size f" "fr_durable_offset f = entry_size f" for f
    using inv_file(1) [OF assms that(2)] that inv_has_manifest [OF assms that(2)] mark_complete_frame(2) [of fid f _ s]
    by (intro conjI inv_mark_complete [OF assms]) (auto simp: file_ok_def)
  then show ?thesis
    using assms state_ok_finished inv_all_completed
    by (auto simp: complete_file_def session_run run_mark_complete intro!: inv_state split: session_split)
qed

lemma run_start_pending:
  "st_bind start_pending_files k s = (case start_pending_files s of (Inl e, s') \<Rightarrow> (Inl e, s') | (Inr x, s') \<Rightarrow> k x s')"
  by (simp add: st_bind_def)

lemma keeps_file_complete_ack [session_keeps]:
  assumes "session_inv s"
  shows "session_inv (snd (handle_file_complete_ack fid n d s))"
proof -
  have fin: "session_inv (snd (start_pending_files t))" "ts_manifest (snd (start_pending_files t)) \<noteq> None"
    if t: "t = snd (mark_complete fid f (entry_size f) s)" and "ts_role s = Offerer_SR" "bt_get (ts_files s) fid = Some f"
      "\<not> fr_complete f" "fr_send_offset f = entry_size f - fr_base_offset f" for f t
  proof -
    have ok: "file_ok (ts_role s) f"
      using inv_file(1) [OF assms that(3)] .
    then have "unat (fr_base_offset f) + unat (fr_send_offset f) = unat (entry_size f)"
      using that(5) base_plus(2) [of "fr_base_offset f" "entry_size f"] by (auto simp: file_ok_def)
    with ok that have "session_inv t"
      unfolding t by (intro inv_mark_complete [OF assms]) (auto simp: file_ok_def)
    then show "session_inv (snd (start_pending_files t))" "ts_manifest (snd (start_pending_files t)) \<noteq> None"
      using that(2) inv_has_manifest [OF assms that(3)]
      by (simp_all add: t mark_complete_frame start_pending_files_inv start_pending_frame)
  qed
  show ?thesis
  proof (cases "\<exists>f. ts_role s = Offerer_SR \<and> bt_get (ts_files s) fid = Some f \<and> \<not> fr_complete f
      \<and> fr_send_offset f = entry_size f - fr_base_offset f \<and> n = entry_size f")
    case True
    then obtain f where f: "ts_role s = Offerer_SR" "bt_get (ts_files s) fid = Some f" "\<not> fr_complete f"
      "fr_send_offset f = entry_size f - fr_base_offset f" "n = entry_size f"
      by blast
    obtain r s1 where run: "start_pending_files (snd (mark_complete fid f (entry_size f) s)) = (r, s1)"
      by fastforce
    from fin [OF refl f(1-4)] have "session_inv s1" "ts_manifest s1 \<noteq> None"
      by (simp_all add: run)
    then show ?thesis
      using assms f inv_all_completed [of s1] state_ok_finished [of s1]
      by (auto simp: handle_file_complete_ack_def session_run run_mark_complete run_start_pending Let_def run intro!: inv_state
          split: session_split)
  next
    case False
    then show ?thesis
      using assms by (auto simp: handle_file_complete_ack_def session_run Let_def split: session_split)
  qed
qed

lemma keeps_file_rejected [session_keeps]: "session_inv s \<Longrightarrow> session_inv (snd (handle_file_rejected fid r s))"
  by (simp add: handle_file_rejected_def session_run inv_state state_ok_free split: session_split)

lemma keeps_transfer_complete [session_keeps]: "session_inv s \<Longrightarrow> session_inv (snd (handle_transfer_complete tid n t s))"
  by (auto simp: handle_transfer_complete_def session_run session_inv_def [of s] state_ok_def intro!: inv_state)

text \<open>Resetting the files that are not complete.\<close>

lemma reset_file_frame [simp]:
  "fr_entry (reset_file r f) = fr_entry f" "fr_complete (reset_file r f) = fr_complete f"
  "fr_durable_offset (reset_file r f) = fr_durable_offset f"
  by (simp_all add: reset_file_def Let_def)

lemma reset_file_ok: "file_ok r f \<Longrightarrow> file_ok r (reset_file r f) \<and> fr_active_stream_id (reset_file r f) = None"
  by (auto simp: file_ok_def reset_file_def Let_def)

lemma reset_values: "bt_values (map (\<lambda>(k, f). (k, g f)) m) = map g (bt_values m)"
  "bt_keys (map (\<lambda>(k, f). (k, g f)) m) = bt_keys m"
  by (auto simp: bt_values_def bt_keys_def case_prod_beta)

lemma inv_reset:
  assumes "session_inv s"
  shows "session_inv (s\<lparr>ts_pending_resumes := [], ts_files := map (\<lambda>(k, f). (k, reset_file (ts_role s) f)) (ts_files s)\<rparr>)"
    (is "session_inv ?s")
proof -
  have complete: "complete_files ?s = map (reset_file (ts_role s)) (complete_files s)"
    by (simp add: complete_files_def reset_values filter_map comp_def)
  have entries: "map fr_entry (bt_values (ts_files ?s)) = map fr_entry (bt_values (ts_files s))"
    by (simp add: reset_values)
  have ok: "\<forall>(k, f) \<in> set (ts_files ?s). me_file_id (fr_entry f) = k \<and> file_ok (ts_role s) f \<and> fr_active_stream_id f = None"
    using assms reset_file_ok by (fastforce simp: session_inv_def files_inv_def)
  then have active: "active_file_count ?s = 0"
    by (auto simp: active_file_count_def bt_values_def filter_empty_conv)
  have all: "all_files_complete ?s = all_files_complete s"
    by (simp add: all_files_complete_def reset_values list.pred_map comp_def)
  have "bt_inv (ts_files ?s)"
    using assms by (simp add: session_inv_def files_inv_def bt_inv_def reset_values)
  then show ?thesis
    using assms ok active entries all
    by (auto simp: session_inv_def files_inv_def state_ok_def complete session_entries_def comp_def)
qed

lemma inv_entry_file:
  assumes "session_inv s" "ts_manifest s = Some m" "e \<in> set (mf_entries m)"
  obtains f where "bt_get (ts_files s) (me_file_id e) = Some f" "fr_entry f = e"
proof -
  have "set (map fr_entry (bt_values (ts_files s))) = set (mf_entries m)"
    using assms(1,2) by (intro mset_eq_setD) (simp add: session_inv_def files_inv_def session_entries_def)
  with assms(3) have "e \<in> (\<lambda>p. fr_entry (snd p)) ` set (ts_files s)"
    by (simp add: bt_values_def image_image comp_def)
  then obtain k f where f: "(k, f) \<in> set (ts_files s)" "fr_entry f = e"
    by auto
  with assms(1) have "k = me_file_id e" "bt_inv (ts_files s)"
    by (auto simp: session_inv_def files_inv_def)
  with f that show ?thesis
    by (simp add: bt.entries_get)
qed

definition incomplete_entries :: "transfer_session \<Rightarrow> manifest_entry list \<Rightarrow> manifest_entry list" where
  "incomplete_entries s es = filter (\<lambda>e. \<not> fr_complete (the (bt_get (ts_files s) (me_file_id e)))) es"

lemma run_resume_queries:
  "list_all (\<lambda>e. bt_get (ts_files s) (me_file_id e) \<noteq> None) es \<Longrightarrow>
   st_for es query_incomplete s = (Inr (), s\<lparr>ts_controls := ts_controls s @ map (Transfer_OM \<circ> resume_query) (incomplete_entries s es)\<rparr>)"
proof (induction es arbitrary: s)
  case (Cons e es)
  then obtain f where f: "bt_get (ts_files s) (me_file_id e) = Some f"
    by auto
  let ?s = "if fr_complete f then s else s\<lparr>ts_controls := ts_controls s @ [Transfer_OM (resume_query e)]\<rparr>"
  have "query_incomplete e s = (Inr (), ?s)"
    by (simp add: query_incomplete_def session_run f)
  moreover have "incomplete_entries ?s es = incomplete_entries s es"
    by (simp add: incomplete_entries_def)
  ultimately show ?case
    using Cons.prems Cons.IH [of ?s] f by (simp add: st_then_def st_bind_def incomplete_entries_def)
qed (simp add: incomplete_entries_def)

lemma files_present:
  assumes "session_inv s" "ts_manifest s = Some m"
  shows "list_all (\<lambda>e. bt_get (ts_files s) (me_file_id e) \<noteq> None) (mf_entries m)"
  unfolding list_all_iff by (auto elim: inv_entry_file [OF assms])

text \<open>The session after a reconnection that has something to resume, and what it asks its peer.\<close>

definition reconnected :: "transfer_session \<Rightarrow> transfer_session" where
  "reconnected s = s\<lparr>ts_data := [], ts_pending_resumes := [],
     ts_files := map (\<lambda>(k, f). (k, reset_file (ts_role s) f)) (ts_files s), ts_state := AwaitingResume\<rparr>"

definition reconnect_messages :: "transfer_session \<Rightarrow> transfer_control list" where
  "reconnect_messages s =
     (case (ts_role s, ts_manifest s) of
        (Offerer_SR, Some m) \<Rightarrow> manifest_messages s m @ map resume_query (incomplete_entries s (mf_entries m))
      | _ \<Rightarrow> [])"

lemma bt_get_map: "bt_get (map (\<lambda>(k, f). (k, g f)) m) k = map_option g (bt_get m k)"
  by (simp add: bt_get_def map_of_map comp_def)

lemma reconnect_run:
  assumes "session_inv s" "ts_state s \<noteq> Completed" "ts_state s \<noteq> Rejected" "ts_state s \<noteq> Cancelled"
  shows "reconnect s = (Inr (state_events (ts_state s) AwaitingResume),
     reconnected s\<lparr>ts_controls := ts_controls s @ map Transfer_OM (reconnect_messages s)\<rparr>)"
proof (cases "ts_role s")
  case Offerer_SR
  then obtain m where m: "ts_manifest s = Some m"
    using assms(1) by (auto simp: session_inv_def)
  let ?files = "map (\<lambda>(k, f). (k, reset_file (ts_role s) f)) (ts_files s)"
  have present: "list_all (\<lambda>e. bt_get ?files (me_file_id e) \<noteq> None) (mf_entries m)"
    using files_present [OF assms(1) m] by (simp add: bt_get_map)
  have "incomplete_entries t (mf_entries m) = incomplete_entries s (mf_entries m)" if "ts_files t = ?files" for t
    unfolding incomplete_entries_def that using files_present [OF assms(1) m]
    by (intro filter_cong) (auto simp: list_all_iff bt_get_map)
  then show ?thesis
    using assms present Offerer_SR
    by (simp add: reconnect_def session_run m reconnected_def reconnect_messages_def st_then_def [of _ "change_state _"]
        st_bind_def [of "st_bind _ _"] run_resume_queries manifest_messages_def)
next
  case Accepter_SR
  then show ?thesis
    using assms by (simp add: reconnect_def session_run reconnected_def reconnect_messages_def)
qed

lemma keeps_reconnect [session_keeps]:
  assumes "session_inv s"
  shows "session_inv (snd (reconnect s))"
proof (cases "ts_state s = Completed \<or> ts_state s = Rejected \<or> ts_state s = Cancelled")
  case True
  then show ?thesis
    using assms by (auto simp: reconnect_def session_run)
next
  case False
  have "session_inv (reconnected s)"
    using inv_state [OF inv_reset [of "s\<lparr>ts_data := []\<rparr>"] state_ok_free, of AwaitingResume] assms
    by (simp add: reconnected_def)
  then show ?thesis
    using False assms by (simp add: reconnect_run)
qed

lemma keeps_transfer_error [session_keeps]: "session_inv s \<Longrightarrow> session_inv (snd (handle_transfer_error sc n retry msg s))"
  by (simp add: handle_transfer_error_def keeps_reconnect session_run inv_state state_ok_free)

lemma keeps_control [session_keeps]: "session_inv s \<Longrightarrow> session_inv (snd (handle_control m s))"
  by (cases m) (auto simp: session_keeps run_bind_lift split: sum.split)

lemma keeps_control_flags [session_keeps]: "session_inv s \<Longrightarrow> session_inv (snd (handle_control_with_flags m flags s))"
  by (simp add: handle_control_with_flags_def keeps_control)

lemma keeps_pairing [session_keeps]: "session_inv s \<Longrightarrow> session_inv (snd (handle_pairing m s))"
  by (cases m) (simp_all add: for_transfer_def session_run Let_def inv_state state_ok_free)

lemma keeps_outputs [session_keeps]:
  "session_inv s \<Longrightarrow> session_inv (snd (mark_path_failed s))"
  "session_inv s \<Longrightarrow> session_inv (snd (drain_control s))"
  "session_inv s \<Longrightarrow> session_inv (snd (drain_data s))"
  "session_inv s \<Longrightarrow> session_inv (snd (send_path_check_authorization token expires s))"
  "session_inv s \<Longrightarrow> session_inv (snd (send_candidate_list cs d s))"
  "session_inv s \<Longrightarrow> session_inv (snd (send_file_rejection fid r s))"
  "session_inv s \<Longrightarrow> session_inv (snd (send_cancel code s))"
  by (simp_all add: mark_path_failed_def drain_control_def drain_data_def send_path_check_authorization_def
      send_candidate_list_def send_file_rejection_def send_cancel_def session_run inv_state state_ok_free)

lemma keeps_flush [session_keeps]: "session_inv s \<Longrightarrow> session_inv (fst (snd (session_flush send_c send_d (s, c, d))))"
  by (simp add: session_flush_def split: prod.split sum.split)

lemma keeps_set_durable [session_keeps]:
  assumes "session_inv s"
  shows "session_inv (snd (set_durable_state fid d s))"
proof -
  have "session_inv (s\<lparr>ts_files := bt_insert fid (f\<lparr>fr_durable_offset := ds_durable_offset d,
      fr_checkpoint_id := ds_checkpoint_id d, fr_state_hash := ds_state_hash d\<rparr>) (ts_files s)\<rparr>)"
    if "bt_get (ts_files s) fid = Some f" "ds_durable_offset d \<le> entry_size f"
      "\<not> stale_checkpoint (ds_durable_offset d) (ds_checkpoint_id d) f" for f
    using inv_file(1) [OF assms that(1)] that
    by (intro inv_update_file [OF assms]) (auto simp: file_ok_def stale_checkpoint_def)
  then show ?thesis
    using assms by (auto simp: set_durable_state_def session_run split: session_split)
qed

section \<open>With storage and path selector\<close>

text \<open>The storage, or the path selector, is the second component: nothing it does touches the session.\<close>

abbreviation "stored_inv p \<equiv> session_inv (fst p)"

lemma stored_session [keeps_intros]: "(\<And>s. session_inv s \<Longrightarrow> session_inv (snd (m s))) \<Longrightarrow> keeps stored_inv (on_session m)"
  unfolding on_session_def by (rule keeps_field) simp

lemma stored_storage [keeps_intros]: "keeps stored_inv (on_storage m)"
  unfolding on_storage_def by (rule keeps_field) simp

lemma get_file_state [simp]: "snd (get_file fid s) = s"
  by (simp add: get_file_def)

lemma checks_state [simp]: "snd (validate_checkpoint fid d i s) = s" "snd (validate_file_completion fid n h s) = s"
  by (simp_all add: validate_checkpoint_def validate_file_completion_def session_run split: option.split)

lemma keeps_hash_checkpoint:
  assumes "session_inv s"
  shows "session_inv (snd (st_bind (get_file fid) (\<lambda>f. st_then (put_file fid (f\<lparr>fr_state_hash := h\<rparr>)) (session_checkpoint fid d i)) s))"
proof -
  have "session_inv (s\<lparr>ts_files := bt_insert fid (f\<lparr>fr_state_hash := h\<rparr>) (ts_files s)\<rparr>)" if "bt_get (ts_files s) fid = Some f" for f
    using inv_file(1) [OF assms that] by (intro inv_update_file [OF assms that]) (simp_all add: file_ok_def)
  then show ?thesis
    using assms by (simp add: session_run keeps_checkpoint split: option.split)
qed

lemma keeps_stored:
  "keeps stored_inv (handle_data_with_storage ops chunk)"
  "keeps stored_inv (respond_to_resume_query_with_storage ops fid h n)"
  "keeps stored_inv (checkpoint_with_storage ops fid d i h)"
  "keeps stored_inv (complete_file_with_storage ops fid n h)"
proof -
  have stored: "keeps stored_inv (\<lambda>p. case on_storage m p of
      (Inl e, p') \<Rightarrow> (Inl e, (fst p'\<lparr>ts_state := Failed\<rparr>, snd p')) | (Inr _, p') \<Rightarrow> (Inr events, p'))" for m events
    by (rule keepsI) (auto simp: on_storage_def st_field_def inv_state state_ok_free split: prod.split sum.split)
  show "keeps stored_inv (handle_data_with_storage ops chunk)"
    unfolding handle_data_with_storage_def Let_def
    by (intro keeps_intros stored) (simp_all add: keeps_data)
  show "keeps stored_inv (respond_to_resume_query_with_storage ops fid h n)"
    unfolding respond_to_resume_query_with_storage_def
    by (intro keeps_intros) (simp_all add: keeps_set_durable keeps_resume_query)
  show "keeps stored_inv (checkpoint_with_storage ops fid d i h)"
    unfolding checkpoint_with_storage_def
    by (intro keeps_intros) (simp_all add: keeps_hash_checkpoint)
  show "keeps stored_inv (complete_file_with_storage ops fid n h)"
    unfolding complete_file_with_storage_def
    by (intro keeps_intros) (simp_all add: keeps_complete_file)
qed

lemma keeps_selected:
  "keeps stored_inv (select_path sel cs)" "keeps stored_inv (fallback_to_relay sel)"
  unfolding select_path_def fallback_to_relay_def by (intro keeps_intros; simp add: session_run)+

end
