(* ===== verification/Session_Properties.thy ===== *)
theory Session_Properties
  imports Session_Invariant
begin

text \<open>
  What a transfer session does as a whole: the reachable sessions and their invariant, the transfer of the manifest from
  the offerer to the accepter, of the bytes of a file, the reconnection and the agreement on where a file is resumed,
  and the places where the source lets a peer do more than the protocol means or cannot finish.
\<close>

section \<open>Reachable sessions\<close>

text \<open>A step is one call of the public interface, with any arguments. The second component is the state of the
  implementors of \<open>Storage\<close> and \<open>PathSelector\<close>; \<open>flush\<close> may be given any channels.\<close>

inductive session_step ::
  "'st storage_ops \<Rightarrow> 'st path_selector \<Rightarrow> transfer_session \<times> 'st \<Rightarrow> transfer_session \<times> 'st \<Rightarrow> bool"
  for ops :: "'st storage_ops" and sel :: "'st path_selector" where
  start: "session_step ops sel (s, t) (snd (session_start s), t)"
| accept: "session_step ops sel (s, t) (snd (accept_offer decision policy label s), t)"
| reject: "session_step ops sel (s, t) (snd (reject_offer code s), t)"
| control: "session_step ops sel (s, t) (snd (handle_control m s), t)"
| control_flags: "session_step ops sel (s, t) (snd (handle_control_with_flags m flags s), t)"
| pairing: "session_step ops sel (s, t) (snd (handle_pairing p s), t)"
| queue: "session_step ops sel (s, t) (snd (queue_data fid bs fin s), t)"
| data: "session_step ops sel (s, t) (snd (handle_data chunk s), t)"
| checkpoint: "session_step ops sel (s, t) (snd (session_checkpoint fid durable i s), t)"
| complete: "session_step ops sel (s, t) (snd (complete_file fid n h s), t)"
| set_durable: "session_step ops sel (s, t) (snd (set_durable_state fid d s), t)"
| reconnect: "session_step ops sel (s, t) (snd (reconnect s), t)"
| path_failed: "session_step ops sel (s, t) (snd (mark_path_failed s), t)"
| touch: "session_step ops sel (s, t) (touch now s, t)"
| drain_control: "session_step ops sel (s, t) (snd (drain_control s), t)"
| drain_data: "session_step ops sel (s, t) (snd (drain_data s), t)"
| authorization: "session_step ops sel (s, t) (snd (send_path_check_authorization token expires s), t)"
| candidates: "session_step ops sel (s, t) (snd (send_candidate_list cs digest s), t)"
| rejection: "session_step ops sel (s, t) (snd (send_file_rejection fid reason s), t)"
| cancel: "session_step ops sel (s, t) (snd (send_cancel code s), t)"
| flush: "session_step ops sel (s, t) (fst (snd (session_flush send_c send_d (s, c :: 'st, d :: 'st))), t)"
| data_stored: "session_step ops sel p (snd (handle_data_with_storage ops chunk p))"
| query_stored: "session_step ops sel p (snd (respond_to_resume_query_with_storage ops fid h n p))"
| checkpoint_stored: "session_step ops sel p (snd (checkpoint_with_storage ops fid durable i h p))"
| complete_stored: "session_step ops sel p (snd (complete_file_with_storage ops fid n h p))"
| select: "session_step ops sel p (snd (select_path sel cs p))"
| fallback: "session_step ops sel p (snd (fallback_to_relay sel p))"

inductive session_reachable :: "'st storage_ops \<Rightarrow> 'st path_selector \<Rightarrow> transfer_session \<times> 'st \<Rightarrow> bool"
  for ops :: "'st storage_ops" and sel :: "'st path_selector" where
  offerer: "manifest_new digest es = Inr m \<Longrightarrow> new_offerer tid m config = Inr s \<Longrightarrow> session_reachable ops sel (s, t)"
| accepter: "new_accepter tid config = Inr s \<Longrightarrow> session_reachable ops sel (s, t)"
| step: "session_reachable ops sel p \<Longrightarrow> session_step ops sel p q \<Longrightarrow> session_reachable ops sel q"

lemma step_inv: "session_step ops sel p q \<Longrightarrow> stored_inv p \<Longrightarrow> stored_inv q"
  by (induction rule: session_step.induct)
    (auto simp: session_keeps touch_def keepsD [OF keeps_stored(1)] keepsD [OF keeps_stored(2)] keepsD [OF keeps_stored(3)]
      keepsD [OF keeps_stored(4)] keepsD [OF keeps_selected(1)] keepsD [OF keeps_selected(2)])

lemma empty_inv: "role = Accepter_SR \<Longrightarrow> session_inv (session_empty role tid config)"
  "files_inv (session_empty role tid config)"
  by (simp_all add: session_inv_def files_inv_def state_ok_def session_observers session_empty_def bt_values_def valid_entries_def)

lemma new_offerer_inv: "manifest_new digest es = Inr m \<Longrightarrow> new_offerer tid m config = Inr s \<Longrightarrow> session_inv s"
  using files_inv_install [OF _ empty_inv(2), of Offerer_SR tid config digest es m]
  by (auto simp: new_offerer_def result_simps session_inv_def state_ok_def install_manifest_def session_empty_def manifest_new_ok)

lemma session_reachable_inv: "session_reachable ops sel p \<Longrightarrow> stored_inv p"
proof (induction rule: session_reachable.induct)
  case (offerer digest es m tid config s t)
  then show ?case
    by (simp add: new_offerer_inv)
next
  case (accepter tid config s t)
  then show ?case
    by (auto simp: new_accepter_def result_simps empty_inv)
next
  case (step p q)
  then show ?case
    by (simp add: step_inv)
qed

section \<open>Bounds and completion\<close>

text \<open>C9. None of the additions and subtractions that the session does without a check wraps, whatever the peer sends: in
  a reachable session the offsets of every file stay within its size, so the remaining size, the expected offset and the
  end of the sent data are what they are over the integers, the counters are the number and the total size of the complete
  files, and at most \<open>max_parallel_files\<close> files have a stream.\<close>

theorem session_offsets_exact:
  assumes "session_reachable ops sel (s, t)" "bt_get (ts_files s) fid = Some f"
  shows "unat (entry_size f - fr_base_offset f) + unat (fr_base_offset f) = unat (entry_size f)
     \<and> unat (fr_base_offset f + fr_send_offset f) = unat (fr_base_offset f) + unat (fr_send_offset f)
     \<and> fr_base_offset f + fr_send_offset f \<le> entry_size f
     \<and> fr_durable_offset f \<le> entry_size f \<and> fr_received_offset f \<le> entry_size f
     \<and> (ts_role s = Accepter_SR \<and> fr_active_stream_id f \<noteq> None \<longrightarrow>
          unat (fr_received_offset f - fr_base_offset f) + unat (fr_base_offset f) = unat (fr_received_offset f))
     \<and> unat (ts_completed_files s) = length (filter fr_complete (bt_values (ts_files s)))
     \<and> unat (ts_completed_size s) = (\<Sum>f \<leftarrow> filter fr_complete (bt_values (ts_files s)). unat (entry_size f))
     \<and> active_file_count s \<le> sc_max_parallel_files (ts_config s)"
proof -
  have inv: "session_inv s"
    using session_reachable_inv [OF assms(1)] by simp
  note ok = inv_file(1) [OF inv assms(2), unfolded file_ok_def]
  note plus = base_plus(1) [of "fr_base_offset f" "fr_send_offset f" "entry_size f"]
  note minus = base_plus(2) [of "fr_base_offset f" "entry_size f"] base_plus(2) [of "fr_base_offset f" "fr_received_offset f"]
  have count: "length (complete_files s) \<le> 1000000"
    using inv_lengths(2) [OF inv] complete_files_length [of s] by linarith
  have total: "total_of (map fr_entry (complete_files s)) < 2 ^ 64"
    using inv_lengths(3,4) [OF inv] total_of_filter [of fr_complete "bt_values (ts_files s)"] by (simp add: complete_files_def)
  have "unat (ts_completed_files s) = length (complete_files s)"
    "unat (ts_completed_size s) = total_of (map fr_entry (complete_files s))"
    using inv count total by (simp_all add: session_inv_def files_inv_def unat_of_nat_small)
  then show ?thesis
    using ok plus minus inv
    by (auto simp: word_le_nat_alt complete_files_def total_of_def comp_def session_inv_def files_inv_def)
qed

text \<open>C3. A session is completed only when the transfer is: in a reachable session in state \<open>Completed\<close> every entry of the
  manifest belongs to a file that is complete, of which the accepter has received and made durable every byte and the
  offerer has sent every byte, and the counters are those of the whole manifest.\<close>

theorem completed_means_transferred:
  assumes "session_reachable ops sel (s, t)" "ts_state s = Completed"
  shows "is_complete s
     \<and> (\<exists>m. ts_manifest s = Some m \<and> unat (ts_completed_files s) = length (mf_entries m) \<and> ts_completed_size s = mf_total_size m
       \<and> (\<forall>e \<in> set (mf_entries m). \<exists>f. bt_get (ts_files s) (me_file_id e) = Some f \<and> fr_entry f = e \<and> fr_complete f
          \<and> (ts_role s = Accepter_SR \<longrightarrow> fr_received_offset f = me_size e \<and> fr_durable_offset f = me_size e)
          \<and> (ts_role s = Offerer_SR \<longrightarrow> unat (fr_base_offset f) + unat (fr_send_offset f) = unat (me_size e))))"
proof -
  have inv: "session_inv s"
    using session_reachable_inv [OF assms(1)] by simp
  then have all: "all_files_complete s"
    using assms(2) by (simp add: session_inv_def state_ok_def)
  then obtain m where m: "ts_manifest s = Some m"
    by (auto simp: all_files_complete_def)
  have files: "complete_files s = bt_values (ts_files s)"
    using all by (simp add: all_files_complete_def complete_files_def list_all_iff filter_id_conv)
  have "unat (ts_completed_files s) = length (mf_entries m)" "ts_completed_size s = mf_total_size m"
    using inv inv_lengths [OF inv] m
    by (simp_all add: session_inv_def files_inv_def files session_entries_def bt_values_def unat_of_nat_small)
  moreover have "\<exists>f. bt_get (ts_files s) (me_file_id e) = Some f \<and> fr_entry f = e \<and> fr_complete f
      \<and> (ts_role s = Accepter_SR \<longrightarrow> fr_received_offset f = me_size e \<and> fr_durable_offset f = me_size e)
      \<and> (ts_role s = Offerer_SR \<longrightarrow> unat (fr_base_offset f) + unat (fr_send_offset f) = unat (me_size e))"
    if e: "e \<in> set (mf_entries m)" for e
  proof -
    obtain f where f: "bt_get (ts_files s) (me_file_id e) = Some f" "fr_entry f = e"
      using inv_entry_file [OF inv m e] by blast
    have "fr_complete f"
      using all map_of_SomeD [OF f(1) [unfolded bt_get_def]] by (auto simp: all_files_complete_def list_all_iff bt_values_def)
    with inv_file(1) [OF inv f(1)] f show ?thesis
      by (auto simp: file_ok_def)
  qed
  moreover have "is_complete s"
    using all all_completed_iff [OF inv] assms(2) by (simp add: is_complete_def all_files_complete_def)
  ultimately show ?thesis
    using m by blast
qed

section \<open>The manifest\<close>

text \<open>The control messages of one peer handed to the other, one after the other, up to the first error.\<close>

primrec deliver :: "transfer_control list \<Rightarrow> session_event list session_op" where
  "deliver [] = st_return []"
| "deliver (m # ms) = st_bind (handle_control m) (\<lambda>events. st_bind (deliver ms) (\<lambda>rest. st_return (events @ rest)))"

lemma deliver_Cons_run:
  "handle_control m s = (Inr ev, s') \<Longrightarrow> deliver ms s' = (Inr evs, s'') \<Longrightarrow> deliver (m # ms) s = (Inr (ev @ evs), s'')"
  by (simp add: st_bind_def)

lemma deliver_append_run:
  "deliver ms s = (Inr ev, s') \<Longrightarrow> deliver ms' s' = (Inr evs, s'') \<Longrightarrow> deliver (ms @ ms') s = (Inr (ev @ evs), s'')"
proof (induction ms arbitrary: s ev)
  case (Cons m ms)
  then obtain ev1 s1 ev2 where "handle_control m s = (Inr ev1, s1)" "deliver ms s1 = (Inr ev2, s')" "ev = ev1 @ ev2"
    by (auto simp: st_bind_eq_Inr)
  with Cons.IH [of s1 ev2] Cons.prems(2) show ?case
    by (simp add: st_bind_def)
qed simp

lemma find_fresh: "find P xs = None \<longleftrightarrow> list_all (\<lambda>x. \<not> P x) xs"
  by (induction xs) auto

lemma deliver_items:
  assumes "ts_role s = Accepter_SR" "ts_assembly s = Some \<lparr>ma_expected_count = n, ma_expected_size = z, ma_digest = d, ma_entries = pre\<rparr>"
    and "distinct (map me_file_id (pre @ es))" "list_all (\<lambda>e. validate_relative_path (me_relative_path e) = Inr ()) es"
    and "length (pre @ es) \<le> unat n"
  shows "deliver (map manifest_item es) s =
     (Inr [], s\<lparr>ts_assembly := Some \<lparr>ma_expected_count = n, ma_expected_size = z, ma_digest = d, ma_entries = pre @ es\<rparr>\<rparr>)"
  using assms
proof (induction es arbitrary: s pre)
  case (Cons e es)
  let ?a = "\<lambda>es. Some \<lparr>ma_expected_count = n, ma_expected_size = z, ma_digest = d, ma_entries = es\<rparr>"
  have entry: "manifest_entry_new (me_file_id e) (me_relative_path e) (me_size e) (me_content_hash e) (me_metadata e) = Inr e"
    using Cons.prems(4) by (simp add: manifest_entry_new_def)
  have room: "\<not> n \<le> word_of_nat (length pre)"
    using Cons.prems(5) unsigned_less [of n, where 'a = nat] by (simp add: word_le_nat_alt unat_of_nat_small)
  have new: "find (\<lambda>item. me_file_id item = me_file_id e) pre = None"
    using Cons.prems(3) by (auto simp: find_fresh list_all_iff) (metis image_eqI)
  have "handle_control (manifest_item e) s = (Inr [], s\<lparr>ts_assembly := ?a (pre @ [e])\<rparr>)"
    using Cons.prems(1,2) room new by (simp add: manifest_item_def entry handle_manifest_item_def session_run)
  moreover have "deliver (map manifest_item es) (s\<lparr>ts_assembly := ?a (pre @ [e])\<rparr>) = (Inr [], s\<lparr>ts_assembly := ?a (pre @ e # es)\<rparr>)"
    using Cons.IH [of "s\<lparr>ts_assembly := ?a (pre @ [e])\<rparr>" "pre @ [e]"] Cons.prems by simp
  ultimately show ?case
    using deliver_Cons_run [of "manifest_item e" s "[]"] by simp
qed simp

lemma checked_total_of: "unat t + total_of es < 2 ^ 64 \<Longrightarrow> checked_total t es = Inr (t + of_nat (total_of es))"
proof (induction es arbitrary: t)
  case (Cons e es)
  then have "unat (t + me_size e) = unat t + unat (me_size e)"
    by (subst unat_word_ariths) simp
  with Cons show ?case
    by (simp add: checked_add_def add.assoc)
qed simp

lemma file_count_word: "length es \<le> MAX_MANIFEST_FILES \<Longrightarrow> unat (of_nat (length es) :: u64) = length es"
  by (rule unat_of_nat_small) (simp add: MAX_MANIFEST_FILES_def)

text \<open>The accepter after the manifest of the offerer.\<close>

definition with_manifest :: "manifest \<Rightarrow> transfer_session \<Rightarrow> transfer_session" where
  "with_manifest m a = (snd (install_manifest m a))\<lparr>ts_remote_manifest_digest := Some (mf_digest m), ts_assembly := None,
     ts_state := AwaitingDecision\<rparr>"

lemma deliver_manifest:
  assumes "manifest_new digest es = Inr m" "ts_role a = Accepter_SR" "ts_state a = AwaitingHello"
    and "ts_transfer_id a = ts_transfer_id off" "sc_protocol_version (ts_config a) = sc_protocol_version (ts_config off)"
    and "sc_crypto_suite (ts_config a) = sc_crypto_suite (ts_config off)"
  shows "deliver (manifest_messages off m) a =
     (Inr [StateChanged AwaitingHello ReceivingManifest, StateChanged ReceivingManifest AwaitingDecision], with_manifest m a)"
proof -
  from assms(1) have m: "mf_digest m = digest" "mf_entries m = es" "mf_total_size m = of_nat (total_of es)"
    and valid: "length es \<le> MAX_MANIFEST_FILES" "distinct (map me_file_id es)"
      "list_all (\<lambda>e. validate_relative_path (me_relative_path e) = Inr ()) es" "total_of es < 2 ^ 64"
    by (auto simp: manifest_new_ok valid_entries_def)
  let ?n = "of_nat (length es) :: u64"
  let ?asm = "\<lambda>xs. \<lparr>ma_expected_count = ?n, ma_expected_size = of_nat (total_of es), ma_digest = digest, ma_entries = xs\<rparr>"
  let ?a1 = "a\<lparr>ts_remote_manifest_digest := Some digest, ts_state := ReceivingManifest\<rparr>"
  have hello: "handle_control (SessionHello (ts_transfer_id off) (sc_protocol_version (ts_config off)) (sc_crypto_suite (ts_config off))
      digest (ts_transfer_id off)) a = (Inr [StateChanged AwaitingHello ReceivingManifest], ?a1)"
    using assms(2-6) by (simp add: handle_session_hello_def session_run)
  have "?n \<le> of_nat MAX_MANIFEST_FILES"
    using valid(1) by (simp add: word_le_nat_alt file_count_word) (simp add: MAX_MANIFEST_FILES_def)
  then have begin_run: "handle_control (ManifestBegin ?n (of_nat (total_of es)) digest) ?a1 = (Inr [], ?a1\<lparr>ts_assembly := Some (?asm [])\<rparr>)"
    using assms(2) by (simp add: handle_manifest_begin_def session_run)
  have items: "deliver (map manifest_item es) (?a1\<lparr>ts_assembly := Some (?asm [])\<rparr>) = (Inr [], ?a1\<lparr>ts_assembly := Some (?asm es)\<rparr>)"
    using deliver_items [of "?a1\<lparr>ts_assembly := Some (?asm [])\<rparr>" ?n "of_nat (total_of es)" digest "[]" es] assms(2) valid
    by (simp add: file_count_word)
  have "handle_control (ManifestEnd digest) (?a1\<lparr>ts_assembly := Some (?asm es)\<rparr>) =
      (Inr [StateChanged ReceivingManifest AwaitingDecision], with_manifest m a)"
    using assms(1,2) valid(4) m checked_total_of [of 0 es]
    by (cases a) (simp add: handle_manifest_end_def session_run run_bind_lift install_manifest_def Let_def with_manifest_def)
  from deliver_Cons_run [OF this, of "[]"]
  have end_run: "deliver [ManifestEnd digest] (?a1\<lparr>ts_assembly := Some (?asm es)\<rparr>) =
      (Inr [StateChanged ReceivingManifest AwaitingDecision], with_manifest m a)"
    by simp
  show ?thesis
    using deliver_Cons_run [OF hello deliver_Cons_run [OF begin_run deliver_append_run [OF items end_run]]]
    by (simp add: manifest_messages_def m file_count_def)
qed

lemma find_entry: "distinct (map me_file_id es) \<Longrightarrow> e \<in> set es \<Longrightarrow> find (\<lambda>x. me_file_id x = me_file_id e) es = Some e"
  by (induction es) auto

lemma deliver_ignored:
  "list_all (\<lambda>m. handle_control m s = (Inr [DuplicateControl], s)) ms \<Longrightarrow>
   deliver ms s = (Inr (replicate (length ms) DuplicateControl), s)"
  by (induction ms) (simp_all add: st_bind_def)

lemma redeliver_manifest:
  assumes "manifest_new digest es = Inr m" "ts_role s = Accepter_SR" "ts_state s \<noteq> AwaitingHello" "ts_state s \<noteq> ReceivingManifest"
    and "ts_transfer_id s = ts_transfer_id off" "ts_remote_manifest_digest s = Some digest" "ts_assembly s = None" "ts_manifest s = Some m"
  shows "deliver (manifest_messages off m) s = (Inr (replicate (length es + 3) DuplicateControl), s)"
proof -
  from assms(1) have m: "mf_digest m = digest" "mf_entries m = es" and valid: "distinct (map me_file_id es)"
      "list_all (\<lambda>e. validate_relative_path (me_relative_path e) = Inr ()) es"
    by (auto simp: manifest_new_ok valid_entries_def)
  have "s\<lparr>ts_assembly := None\<rparr> = s"
    using assms(7) by (cases s) simp
  then have "list_all (\<lambda>c. handle_control c s = (Inr [DuplicateControl], s)) (manifest_messages off m)"
    using assms(2-8) m valid find_entry [OF valid(1)]
    by (auto simp: manifest_messages_def handle_session_hello_def handle_manifest_begin_def handle_manifest_end_def session_run
        manifest_has_digest_def list_all_iff manifest_item_def manifest_entry_new_def handle_manifest_item_def manifest_entry_of_def)
  from deliver_ignored [OF this] show ?thesis
    by (simp add: manifest_messages_def m add.commute numeral_eq_Suc)
qed

text \<open>C28. The manifest reaches the accepter: two new sessions of the same transfer that agree on version and suite are started,
  and what the offerer has queued is handed to the accepter in order. Every message is accepted, the accepter then waits for the
  decision with the manifest and the files of the offerer, and a second copy of the same messages is ignored.\<close>

theorem manifest_transferred:
  assumes "manifest_new digest es = Inr m" "new_offerer tid m config = Inr off" "new_accepter tid config' = Inr acc"
    and "sc_protocol_version config' = sc_protocol_version config" "sc_crypto_suite config' = sc_crypto_suite config"
  shows "\<exists>off' acc' acc'' ms events.
     session_start off = (Inr [StateChanged New SendingManifest, StateChanged SendingManifest AwaitingDecision], off')
     \<and> session_start acc = (Inr [StateChanged New AwaitingHello], acc')
     \<and> ts_controls off' = map Transfer_OM ms \<and> length ms = length es + 3
     \<and> deliver ms acc' = (Inr events, acc'')
     \<and> ts_manifest acc'' = Some m \<and> ts_files acc'' = ts_files off'
     \<and> ts_state acc'' = AwaitingDecision \<and> ts_state off' = AwaitingDecision
     \<and> deliver ms acc'' = (Inr (replicate (length ms) DuplicateControl), acc'')"
proof -
  have off: "off = snd (install_manifest m (session_empty Offerer_SR tid config))" and acc: "acc = session_empty Accepter_SR tid config'"
    using assms(2,3) by (auto simp: new_offerer_def new_accepter_def result_simps)
  let ?ms = "manifest_messages off m"
  let ?acc = "acc\<lparr>ts_state := AwaitingHello\<rparr>"
  let ?off = "off\<lparr>ts_state := AwaitingDecision, ts_controls := map Transfer_OM ?ms\<rparr>"
  have "session_start off = (Inr [StateChanged New SendingManifest, StateChanged SendingManifest AwaitingDecision], ?off)"
    by (simp add: session_start_def start_offerer_def off session_empty_def install_manifest_def session_run manifest_messages_def)
  moreover have "session_start acc = (Inr [StateChanged New AwaitingHello], ?acc)"
    by (simp add: session_start_def acc session_empty_def session_run)
  moreover have "deliver ?ms ?acc = (Inr [StateChanged AwaitingHello ReceivingManifest, StateChanged ReceivingManifest AwaitingDecision],
      with_manifest m ?acc)"
    using assms(4,5) by (intro deliver_manifest [OF assms(1)]) (simp_all add: off acc session_empty_def install_manifest_def)
  moreover have len: "length ?ms = length es + 3"
    using assms(1) by (auto simp: manifest_messages_def manifest_new_ok)
  moreover have "deliver ?ms (with_manifest m ?acc) = (Inr (replicate (length es + 3) DuplicateControl), with_manifest m ?acc)"
    using assms(1) by (intro redeliver_manifest [OF assms(1)])
      (auto simp: off acc session_empty_def install_manifest_def with_manifest_def Let_def manifest_new_ok)
  moreover have "ts_manifest (with_manifest m ?acc) = Some m" "ts_files (with_manifest m ?acc) = ts_files off"
    "ts_state (with_manifest m ?acc) = AwaitingDecision"
    by (simp_all add: with_manifest_def install_manifest_def Let_def off)
  ultimately show ?thesis
    by (intro exI [of _ ?off] exI [of _ ?acc] exI [of _ "with_manifest m ?acc"] exI [of _ ?ms]
        exI [of _ "[StateChanged AwaitingHello ReceivingManifest, StateChanged ReceivingManifest AwaitingDecision]"]) simp
qed

section \<open>The bytes of a file\<close>

text \<open>The offerer queues the pieces of a file, the last one as the end; the accepter handles chunks in order.\<close>

primrec queue_pieces :: "file_id \<Rightarrow> bytes list \<Rightarrow> data_chunk list session_op" where
  "queue_pieces fid [] = st_return []"
| "queue_pieces fid (bs # bss) =
     st_bind (queue_data fid bs (bss = [])) (\<lambda>c. st_bind (queue_pieces fid bss) (\<lambda>cs. st_return (c # cs)))"

primrec receive_chunks :: "data_chunk list \<Rightarrow> session_event list session_op" where
  "receive_chunks [] = st_return []"
| "receive_chunks (c # cs) =
     st_bind (handle_data c) (\<lambda>events. st_bind (receive_chunks cs) (\<lambda>rest. st_return (events @ rest)))"

text \<open>The events of a file that arrives in pieces: consecutive bytes from the offset on, then the file is ready.\<close>

primrec piece_events :: "file_id \<Rightarrow> nat \<Rightarrow> bytes list \<Rightarrow> session_event list" where
  "piece_events fid offset [] = [FileReadyToComplete fid]"
| "piece_events fid offset (bs # bss) = DataReceived fid (of_nat offset) bs (bss = []) # piece_events fid (offset + length bs) bss"

primrec piece_chunks :: "file_id \<Rightarrow> u64 \<Rightarrow> nat \<Rightarrow> bytes list \<Rightarrow> data_chunk list" where
  "piece_chunks fid i offset [] = []"
| "piece_chunks fid i offset (bs # bss) =
     \<lparr>dc_file_id = fid, dc_stream_id = i, dc_offset = of_nat offset, dc_bytes = bs, dc_fin = (bss = [])\<rparr>
     # piece_chunks fid i (offset + length bs) bss"

lemma offset_words:
  assumes "unat b + k + n \<le> unat (sz :: u64)"
  shows "unat (of_nat k :: u64) = k" "unat (of_nat n :: u64) = n" "checked_add (of_nat k :: u64) (of_nat n) = Some (of_nat (k + n))"
    "unat (of_nat (k + n) :: u64) = k + n" "unat (sz - b) = unat sz - unat b" "unat (b + of_nat (k + n)) = unat b + k + n"
    "unat (b + of_nat k) = unat b + k" "b + of_nat k - b = of_nat k"
proof -
  have lt: "unat b + k + n < 2 ^ 64"
    using assms unsigned_less [of sz, where 'a = nat] by simp
  then show k: "unat (of_nat k :: u64) = k" and n: "unat (of_nat n :: u64) = n" and kn: "unat (of_nat (k + n) :: u64) = k + n"
    by (simp_all add: unat_of_nat_small del: of_nat_add)
  with lt show "checked_add (of_nat k :: u64) (of_nat n) = Some (of_nat (k + n))"
    by (simp add: checked_add_def)
  show "unat (sz - b) = unat sz - unat b"
    using assms by (intro base_plus(2)) simp
  show "unat (b + of_nat (k + n)) = unat b + k + n" "unat (b + of_nat k) = unat b + k"
    using assms base_plus(1) [of b "of_nat (k + n)" sz] base_plus(1) [of b "of_nat k" sz] k kn by simp_all
  show "b + of_nat k - b = of_nat k"
    by simp
qed

lemma queue_data_run:
  assumes "ts_role s = Offerer_SR" "bt_get (ts_files s) fid = Some f" "fr_active_stream_id f = Some i" "\<not> fr_fin_queued f"
    and "fr_send_offset f = of_nat k" "unat (fr_base_offset f) + k + length bs \<le> unat (entry_size f)"
    and "fin \<Longrightarrow> unat (fr_base_offset f) + k + length bs = unat (entry_size f)"
  shows "queue_data fid bs fin s =
     (let c = \<lparr>dc_file_id = fid, dc_stream_id = i, dc_offset = of_nat k, dc_bytes = bs, dc_fin = fin\<rparr> in
      (Inr c, s\<lparr>ts_files := bt_insert fid (f\<lparr>fr_send_offset := of_nat (k + length bs), fr_fin_queued := fin\<rparr>) (ts_files s),
        ts_data := ts_data s @ [c]\<rparr>))"
proof -
  note w = offset_words [OF assms(6)]
  define n :: u64 where "n = of_nat (k + length bs)"
  have "\<not> entry_size f - fr_base_offset f < n"
    using assms(6) w(4,5) by (simp add: word_less_nat_alt n_def del: of_nat_add)
  moreover have "fin \<longrightarrow> n = entry_size f - fr_base_offset f"
    using assms(7) w(4,5) by (auto simp: word_unat_eq_iff n_def simp del: of_nat_add)
  moreover have "n - of_nat (length bs) = of_nat k"
    by (simp add: n_def)
  ultimately show ?thesis
    using assms(1-5) w(3) unfolding n_def [symmetric] by (simp add: queue_data_def session_run Let_def)
qed

lemma handle_data_run:
  assumes "ts_role s = Accepter_SR" "bt_get (ts_files s) fid = Some f" "fr_active_stream_id f = Some i" "\<not> fr_awaiting_finish f"
    and "fr_received_offset f = fr_base_offset f + of_nat k" "unat (fr_base_offset f) + k + length bs \<le> unat (entry_size f)"
    and "fin \<Longrightarrow> unat (fr_base_offset f) + k + length bs = unat (entry_size f)"
  shows "handle_data \<lparr>dc_file_id = fid, dc_stream_id = i, dc_offset = of_nat k, dc_bytes = bs, dc_fin = fin\<rparr> s =
     (Inr (DataReceived fid (of_nat (unat (fr_base_offset f) + k)) bs fin # (if fin then [FileReadyToComplete fid] else [])),
      s\<lparr>ts_files := bt_insert fid (f\<lparr>fr_received_offset := fr_base_offset f + of_nat (k + length bs), fr_awaiting_finish := fin\<rparr>) (ts_files s)\<rparr>)"
proof -
  note w = offset_words [OF assms(6)]
  define n :: u64 where "n = of_nat (k + length bs)"
  have "\<not> entry_size f - fr_base_offset f < n"
    using assms(6) w(4,5) by (simp add: word_less_nat_alt n_def del: of_nat_add)
  moreover have "fin \<longrightarrow> fr_base_offset f + n = entry_size f"
    using assms(7) w(6) by (auto simp: word_unat_eq_iff n_def simp del: of_nat_add)
  moreover have same: "f\<lparr>fr_received_offset := x, fr_awaiting_finish := False\<rparr> = f\<lparr>fr_received_offset := x\<rparr>" for x
    using assms(4) by (cases f) simp
  ultimately show ?thesis
    using assms(1-5) w(3,8) unfolding n_def [symmetric]
    by (cases fin) (simp_all add: handle_data_def session_run Let_def same)
qed

lemma queue_pieces_run:
  assumes "bt_inv (ts_files s)" "ts_role s = Offerer_SR" "bt_get (ts_files s) fid = Some f" "fr_active_stream_id f = Some i"
    and "\<not> fr_fin_queued f" "fr_send_offset f = of_nat k"
    and "unat (fr_base_offset f) + k + length (concat bss) = unat (entry_size f)" "bss \<noteq> []"
  shows "queue_pieces fid bss s = (Inr (piece_chunks fid i k bss),
     s\<lparr>ts_files := bt_insert fid (f\<lparr>fr_send_offset := of_nat (k + length (concat bss)), fr_fin_queued := True\<rparr>) (ts_files s),
       ts_data := ts_data s @ piece_chunks fid i k bss\<rparr>)"
  using assms
proof (induction bss arbitrary: s f k)
  case (Cons bs bss)
  let ?c = "\<lparr>dc_file_id = fid, dc_stream_id = i, dc_offset = of_nat k, dc_bytes = bs, dc_fin = (bss = [])\<rparr>"
  let ?f = "f\<lparr>fr_send_offset := of_nat (k + length bs), fr_fin_queued := (bss = [])\<rparr>"
  let ?s = "s\<lparr>ts_files := bt_insert fid ?f (ts_files s), ts_data := ts_data s @ [?c]\<rparr>"
  have fits: "unat (fr_base_offset f) + k + length bs \<le> unat (entry_size f)"
    and last: "bss = [] \<Longrightarrow> unat (fr_base_offset f) + k + length bs = unat (entry_size f)"
    using Cons.prems(7) by simp_all
  have run: "queue_data fid bs (bss = []) s = (Inr ?c, ?s)"
    by (rule queue_data_run [OF Cons.prems(2-6) fits last, unfolded Let_def])
  show ?case
  proof (cases "bss = []")
    case True
    with run show ?thesis
      by (simp add: st_bind_def)
  next
    case False
    have "queue_pieces fid bss ?s = (Inr (piece_chunks fid i (k + length bs) bss),
       ?s\<lparr>ts_files := bt_insert fid (?f\<lparr>fr_send_offset := of_nat (k + length bs + length (concat bss)), fr_fin_queued := True\<rparr>) (ts_files ?s),
          ts_data := ts_data ?s @ piece_chunks fid i (k + length bs) bss\<rparr>)"
      using Cons.prems False by (intro Cons.IH) (simp_all add: bt_inv_insert bt_get_insert add.assoc)
    with run show ?thesis
      by (simp add: st_bind_def add.assoc)
  qed
qed simp

lemma receive_chunks_run:
  assumes "bt_inv (ts_files s)" "ts_role s = Accepter_SR" "bt_get (ts_files s) fid = Some f" "fr_active_stream_id f = Some i"
    and "\<not> fr_awaiting_finish f" "fr_received_offset f = fr_base_offset f + of_nat k"
    and "unat (fr_base_offset f) + k + length (concat bss) = unat (entry_size f)" "bss \<noteq> []"
  shows "receive_chunks (piece_chunks fid i k bss) s = (Inr (piece_events fid (unat (fr_base_offset f) + k) bss),
     s\<lparr>ts_files := bt_insert fid (f\<lparr>fr_received_offset := entry_size f, fr_awaiting_finish := True\<rparr>) (ts_files s)\<rparr>)"
  using assms
proof (induction bss arbitrary: s f k)
  case (Cons bs bss)
  let ?c = "\<lparr>dc_file_id = fid, dc_stream_id = i, dc_offset = of_nat k, dc_bytes = bs, dc_fin = (bss = [])\<rparr>"
  let ?f = "f\<lparr>fr_received_offset := fr_base_offset f + of_nat (k + length bs), fr_awaiting_finish := (bss = [])\<rparr>"
  let ?s = "s\<lparr>ts_files := bt_insert fid ?f (ts_files s)\<rparr>"
  have fits: "unat (fr_base_offset f) + k + length bs \<le> unat (entry_size f)"
    and last: "bss = [] \<Longrightarrow> unat (fr_base_offset f) + k + length bs = unat (entry_size f)"
    using Cons.prems(7) by simp_all
  have run: "handle_data ?c s = (Inr (DataReceived fid (of_nat (unat (fr_base_offset f) + k)) bs (bss = [])
      # (if bss = [] then [FileReadyToComplete fid] else [])), ?s)"
    by (rule handle_data_run [OF Cons.prems(2-6) fits last])
  show ?case
  proof (cases "bss = []")
    case True
    have "fr_base_offset f + of_nat (k + length bs) = entry_size f"
      using offset_words(6) [of "fr_base_offset f" k "length bs" "entry_size f"] Cons.prems(7) True
      by (simp add: word_unat_eq_iff del: of_nat_add)
    with run True show ?thesis
      by (simp add: st_bind_def del: of_nat_add)
  next
    case False
    have "receive_chunks (piece_chunks fid i (k + length bs) bss) ?s = (Inr (piece_events fid (unat (fr_base_offset ?f) + (k + length bs)) bss),
       ?s\<lparr>ts_files := bt_insert fid (?f\<lparr>fr_received_offset := entry_size ?f, fr_awaiting_finish := True\<rparr>) (ts_files ?s)\<rparr>)"
      using Cons.prems False by (intro Cons.IH) (simp_all add: bt_inv_insert bt_get_insert add.assoc)
    with run False show ?thesis
      by (simp add: st_bind_def add.assoc)
  qed
qed simp

text \<open>C5. The bytes of a file arrive as they are sent. Both sessions have started the file on the same stream from the same offset,
  and the offerer queues its remaining bytes in any pieces, the last one as the end. Every piece is accepted for sending, the queued
  chunks are those handed to the accepter, which reports exactly these bytes, in order and at their absolute offsets, and then
  that the file is ready to complete, with everything received.\<close>

theorem file_data_transferred:
  assumes "session_reachable ops sel (off, t)" "session_reachable ops sel (acc, t)"
    and "ts_role off = Offerer_SR" "ts_role acc = Accepter_SR"
    and "bt_get (ts_files off) fid = Some f" "bt_get (ts_files acc) fid = Some g" "entry_size g = entry_size f"
    and "fr_active_stream_id f = Some i" "fr_active_stream_id g = Some i" "fr_base_offset g = fr_base_offset f"
    and "fr_send_offset f = 0" "\<not> fr_fin_queued f" "fr_received_offset g = fr_base_offset g" "\<not> fr_awaiting_finish g"
    and "bss \<noteq> []" "length (concat bss) = unat (entry_size f - fr_base_offset f)"
  shows "\<exists>chunks off' acc'. queue_pieces fid bss off = (Inr chunks, off') \<and> ts_data off' = ts_data off @ chunks
     \<and> receive_chunks chunks acc = (Inr (piece_events fid (unat (fr_base_offset f)) bss), acc')
     \<and> bt_get (ts_files acc') fid = Some (g\<lparr>fr_received_offset := entry_size f, fr_awaiting_finish := True\<rparr>)
     \<and> bt_get (ts_files off') fid = Some (f\<lparr>fr_send_offset := entry_size f - fr_base_offset f, fr_fin_queued := True\<rparr>)"
proof -
  have inv: "session_inv off" "session_inv acc"
    using session_reachable_inv [OF assms(1)] session_reachable_inv [OF assms(2)] by simp_all
  have base: "unat (fr_base_offset f) \<le> unat (entry_size f)"
    using inv_file(1) [OF inv(1) assms(5)] by (simp add: file_ok_def)
  then have len: "unat (fr_base_offset f) + 0 + length (concat bss) = unat (entry_size f)"
    using assms(16) base_plus(2) [of "fr_base_offset f" "entry_size f"] by simp
  have sent: "of_nat (length (concat bss)) = entry_size f - fr_base_offset f"
    by (simp only: assms(16)) simp
  note bt = inv_file(3) [OF inv(1) assms(5)] inv_file(3) [OF inv(2) assms(6)]
  have "queue_pieces fid bss off = (Inr (piece_chunks fid i 0 bss),
     off\<lparr>ts_files := bt_insert fid (f\<lparr>fr_send_offset := entry_size f - fr_base_offset f, fr_fin_queued := True\<rparr>) (ts_files off),
       ts_data := ts_data off @ piece_chunks fid i 0 bss\<rparr>)"
    using queue_pieces_run [OF bt(1) assms(3,5,8,12) _ len assms(15)] assms(11) sent by simp
  moreover have "receive_chunks (piece_chunks fid i 0 bss) acc = (Inr (piece_events fid (unat (fr_base_offset f)) bss),
     acc\<lparr>ts_files := bt_insert fid (g\<lparr>fr_received_offset := entry_size f, fr_awaiting_finish := True\<rparr>) (ts_files acc)\<rparr>)"
    using receive_chunks_run [OF bt(2) assms(4,6,9,14), of 0 bss] assms(7,10,13,15) len by simp
  ultimately show ?thesis
    using bt by (simp add: bt_get_insert)
qed

section \<open>Reconnection\<close>

text \<open>C30. A reconnection loses nothing that is durable: in a reachable session that is not completed, rejected or cancelled it
  succeeds, keeps the manifest, the counters and of every file what is complete, its durable offset, checkpoint and state hash, gives up
  every stream, sets the accepter back to the durable offset of the incomplete files, and the offerer announces its manifest again and asks
  about exactly the files that are not complete.\<close>

theorem reconnect_keeps_durable:
  assumes "session_reachable ops sel (s, t)" "ts_state s \<notin> {Completed, Rejected, Cancelled}"
  shows "\<exists>events s'. reconnect s = (Inr events, s') \<and> ts_state s' = AwaitingResume \<and> ts_manifest s' = ts_manifest s
     \<and> ts_completed_files s' = ts_completed_files s \<and> active_file_count s' = 0 \<and> ts_pending_resumes s' = [] \<and> ts_data s' = []
     \<and> ts_controls s' = ts_controls s @ map Transfer_OM (reconnect_messages s)
     \<and> map fst (ts_files s') = map fst (ts_files s)
     \<and> (\<forall>fid f. bt_get (ts_files s) fid = Some f \<longrightarrow> (\<exists>f'. bt_get (ts_files s') fid = Some f'
          \<and> fr_entry f' = fr_entry f \<and> fr_complete f' = fr_complete f \<and> fr_durable_offset f' = fr_durable_offset f
          \<and> fr_checkpoint_id f' = fr_checkpoint_id f \<and> fr_state_hash f' = fr_state_hash f \<and> fr_active_stream_id f' = None
          \<and> (ts_role s = Accepter_SR \<longrightarrow> fr_received_offset f' = fr_durable_offset f)
          \<and> (ts_role s = Offerer_SR \<and> \<not> fr_complete f \<longrightarrow> fr_send_offset f' = 0)))"
proof -
  have inv: "session_inv s"
    using session_reachable_inv [OF assms(1)] by simp
  let ?s = "reconnected s\<lparr>ts_controls := ts_controls s @ map Transfer_OM (reconnect_messages s)\<rparr>"
  have run: "reconnect s = (Inr (state_events (ts_state s) AwaitingResume), ?s)"
    using reconnect_run [OF inv] assms(2) by simp
  have files: "\<exists>f'. bt_get (ts_files ?s) fid = Some f' \<and> fr_entry f' = fr_entry f \<and> fr_complete f' = fr_complete f
      \<and> fr_durable_offset f' = fr_durable_offset f \<and> fr_checkpoint_id f' = fr_checkpoint_id f \<and> fr_state_hash f' = fr_state_hash f
      \<and> fr_active_stream_id f' = None \<and> (ts_role s = Accepter_SR \<longrightarrow> fr_received_offset f' = fr_durable_offset f)
      \<and> (ts_role s = Offerer_SR \<and> \<not> fr_complete f \<longrightarrow> fr_send_offset f' = 0)"
    if "bt_get (ts_files s) fid = Some f" for fid f
    using inv_file(1) [OF inv that] that by (auto simp: reconnected_def bt_get_map reset_file_def Let_def file_ok_def)
  have "list_all (\<lambda>f. fr_active_stream_id f = None) (bt_values (ts_files ?s))"
    using inv reset_file_ok [of "ts_role s"]
    by (fastforce simp: reconnected_def reset_values list_all_iff session_inv_def files_inv_def bt_values_def)
  then have "active_file_count ?s = 0"
    by (simp add: active_file_count_def list_all_iff filter_empty_conv)
  with run files show ?thesis
    by (intro exI [of _ "state_events (ts_state s) AwaitingResume"] exI [of _ ?s]) (simp add: reconnected_def case_prod_beta comp_def)
qed

lemma start_single_pending:
  assumes "ts_pending_resumes s = [(fid, d)]" "active_file_count s < sc_max_parallel_files (ts_config s)"
    and "start_file fid (s\<lparr>ts_pending_resumes := []\<rparr>) = (Inr [], s')"
  shows "start_pending_loop s = (Inr [], s')"
proof -
  have "ts_pending_resumes s' = []"
    using start_file_pending [of fid "s\<lparr>ts_pending_resumes := []\<rparr>"] assms(3) by simp
  then have "start_pending_loop s' = (Inr [], s')"
    by (subst start_pending_loop.simps) simp
  moreover have "bt_remove fid [(fid, d)] = []"
    by (simp add: bt_remove_def)
  ultimately show ?thesis
    using assms by (subst start_pending_loop.simps) simp
qed

text \<open>The file that a resume state of the peer starts on the offerer.\<close>

lemma resume_state_starts:
  assumes "ts_role s = Offerer_SR" "ts_state s = AwaitingResume \<or> ts_state s = SendingData" "ts_pending_resumes s = []" "bt_inv (ts_files s)"
    and "bt_get (ts_files s) fid = Some f" "\<not> fr_complete f" "fr_active_stream_id f = None"
    and "active_file_count s < sc_max_parallel_files (ts_config s)" "ts_next_stream_id s < - 1"
    and "ds_durable_offset d \<le> entry_size f"
    and "fr_checkpoint_id f < ds_checkpoint_id d \<or> (fr_checkpoint_id f = ds_checkpoint_id d \<and> fr_durable_offset f = ds_durable_offset d)"
  shows "\<exists>events s'. handle_resume_state fid d s = (Inr events, s')
     \<and> ts_controls s' = ts_controls s @ [Transfer_OM (FileBegin fid (ts_next_stream_id s) (ds_durable_offset d)
          (entry_size f - ds_durable_offset d) (entry_hash f))]
     \<and> ts_state s' = SendingData
     \<and> bt_get (ts_files s') fid = Some (f\<lparr>fr_durable_offset := ds_durable_offset d, fr_checkpoint_id := ds_checkpoint_id d,
          fr_state_hash := ds_state_hash d, fr_active_stream_id := Some (ts_next_stream_id s), fr_base_offset := ds_durable_offset d,
          fr_send_offset := 0, fr_fin_queued := (entry_size f = ds_durable_offset d)\<rparr>)"
proof -
  let ?i = "ts_next_stream_id s"
  let ?f = "f\<lparr>fr_durable_offset := ds_durable_offset d, fr_checkpoint_id := ds_checkpoint_id d, fr_state_hash := ds_state_hash d\<rparr>"
  let ?s = "s\<lparr>ts_files := bt_insert fid ?f (ts_files s), ts_pending_resumes := [(fid, d)]\<rparr>"
  let ?g = "?f\<lparr>fr_active_stream_id := Some ?i, fr_base_offset := ds_durable_offset d, fr_send_offset := 0,
      fr_fin_queued := (entry_size f = ds_durable_offset d)\<rparr>"
  let ?s' = "s\<lparr>ts_files := bt_insert fid ?g (ts_files s), ts_next_stream_id := ?i + 1, ts_controls := ts_controls s @
      [Transfer_OM (FileBegin fid ?i (ds_durable_offset d) (entry_size f - ds_durable_offset d) (entry_hash f))]\<rparr>"
  have i: "checked_add ?i 1 = Some (?i + 1)"
    using assms(9) by (simp add: checked_add_def word_less_nat_alt unat_max_word)
  have "start_file fid (?s\<lparr>ts_pending_resumes := []\<rparr>) = (Inr [], ?s')"
    using assms(3,4,6,7) i by (cases s) (simp add: start_file_def session_run Let_def bt_get_insert)
  moreover have active: "active_file_count ?s = active_file_count s"
    using assms(4,5) by (auto elim!: bt_insert_existing simp: active_file_count_def bt_values_def)
  ultimately have loop: "start_pending_loop ?s = (Inr [], ?s')"
    using assms(8) by (intro start_single_pending) simp_all
  have "active_file_count ?s' > 0"
    using assms(4,5) by (auto elim!: bt_insert_existing simp: active_file_count_def bt_values_def)
  then have "start_pending_files ?s = (Inr (if ts_state s = AwaitingResume then [StateChanged AwaitingResume SendingData] else []),
      ?s'\<lparr>ts_state := SendingData\<rparr>)"
    using assms(2) loop by (cases s) (auto simp: start_pending_files_def st_bind_def session_run)
  moreover have "handle_resume_state fid d s = start_pending_files ?s"
    using assms by (auto simp: handle_resume_state_def session_run)
  ultimately show ?thesis
    using assms(4) by (simp add: bt_get_insert)
qed

text \<open>C29. Both peers resume a file at the same place. The accepter answers the question of the offerer with its durable offset; when the
  offerer does not know a later checkpoint, it starts the file there, and the accepter accepts the stream: both then have the same stream with
  the durable offset of the accepter as its base, nothing sent and nothing received beyond it.\<close>

theorem resume_agreed:
  assumes "session_reachable ops sel (off, t)" "session_reachable ops sel (acc, t)"
    and "ts_role off = Offerer_SR" "ts_role acc = Accepter_SR"
    and "ts_state off = AwaitingResume \<or> ts_state off = SendingData" "ts_state acc = AwaitingResume \<or> ts_state acc = ReceivingData"
    and "bt_get (ts_files off) fid = Some f" "bt_get (ts_files acc) fid = Some g" "fr_entry g = fr_entry f"
    and "\<not> fr_complete f" "\<not> fr_complete g" "fr_active_stream_id f = None" "fr_active_stream_id g = None"
    and "active_file_count off < sc_max_parallel_files (ts_config off)" "active_file_count acc < sc_max_parallel_files (ts_config acc)"
    and "ts_pending_resumes off = []" "ts_next_stream_id off < - 1"
    and "fr_checkpoint_id f < fr_checkpoint_id g \<or> (fr_checkpoint_id f = fr_checkpoint_id g \<and> fr_durable_offset f = fr_durable_offset g)"
  shows "\<exists>answer file_begin acc1 off' acc2 ev1 ev2 f' g'.
     handle_control (resume_query (fr_entry f)) acc = (Inr [], acc1) \<and> ts_controls acc1 = ts_controls acc @ [Transfer_OM answer]
     \<and> handle_control answer off = (Inr ev1, off') \<and> ts_controls off' = ts_controls off @ [Transfer_OM file_begin]
     \<and> handle_control file_begin acc1 = (Inr ev2, acc2)
     \<and> ts_state off' = SendingData \<and> ts_state acc2 = ReceivingData
     \<and> bt_get (ts_files off') fid = Some f' \<and> bt_get (ts_files acc2) fid = Some g'
     \<and> fr_active_stream_id f' = Some (ts_next_stream_id off) \<and> fr_active_stream_id g' = Some (ts_next_stream_id off)
     \<and> fr_base_offset f' = fr_durable_offset g \<and> fr_base_offset g' = fr_durable_offset g
     \<and> fr_send_offset f' = 0 \<and> fr_received_offset g' = fr_durable_offset g
     \<and> fr_fin_queued f' = (entry_size f = fr_durable_offset g) \<and> fr_awaiting_finish g' = (entry_size f = fr_durable_offset g)"
proof -
  have inv: "session_inv off" "session_inv acc"
    using session_reachable_inv [OF assms(1)] session_reachable_inv [OF assms(2)] by simp_all
  have fid: "me_file_id (fr_entry f) = fid"
    by (rule inv_file(2) [OF inv(1) assms(7)])
  have durable: "fr_durable_offset g \<le> entry_size f"
    using inv_file(1) [OF inv(2) assms(8)] assms(9) by (simp add: file_ok_def)
  let ?d = "\<lparr>ds_durable_offset = fr_durable_offset g, ds_checkpoint_id = fr_checkpoint_id g, ds_state_hash = fr_state_hash g\<rparr>"
  let ?answer = "ResumeState fid (fr_durable_offset g) (fr_checkpoint_id g) (fr_state_hash g)"
  let ?opening = "FileBegin fid (ts_next_stream_id off) (fr_durable_offset g) (entry_size f - fr_durable_offset g) (entry_hash f)"
  let ?acc = "acc\<lparr>ts_controls := ts_controls acc @ [Transfer_OM ?answer]\<rparr>"
  let ?g = "g\<lparr>fr_active_stream_id := Some (ts_next_stream_id off), fr_base_offset := fr_durable_offset g,
      fr_received_offset := fr_durable_offset g, fr_awaiting_finish := (entry_size f = fr_durable_offset g)\<rparr>"
  have query: "handle_control (resume_query (fr_entry f)) acc = (Inr [], ?acc)"
    using assms(4,6,8,9,11) by (auto simp: resume_query_def handle_resume_query_def session_run fid)
  obtain ev1 off' where off': "handle_control ?answer off = (Inr ev1, off')" "ts_controls off' = ts_controls off @ [Transfer_OM ?opening]"
    "ts_state off' = SendingData" "bt_get (ts_files off') fid = Some (f\<lparr>fr_durable_offset := fr_durable_offset g, fr_checkpoint_id := fr_checkpoint_id g,
          fr_state_hash := fr_state_hash g, fr_active_stream_id := Some (ts_next_stream_id off), fr_base_offset := fr_durable_offset g,
          fr_send_offset := 0, fr_fin_queued := (entry_size f = fr_durable_offset g)\<rparr>)"
    using resume_state_starts [OF assms(3,5,16) inv_file(3) [OF inv(1) assms(7)] assms(7,10,12,14,17), of ?d] durable assms(18) by auto
  have "handle_control ?opening ?acc = (Inr (state_events (ts_state acc) ReceivingData),
      ?acc\<lparr>ts_files := bt_insert fid ?g (ts_files acc), ts_state := ReceivingData\<rparr>)"
    using assms(4,8,9,11,13,15) durable by (simp add: handle_file_begin_def session_run)
  moreover have "bt_get (bt_insert fid ?g (ts_files acc)) fid = Some ?g"
    using inv_file(3) [OF inv(2) assms(8)] by (simp add: bt_get_insert)
  ultimately show ?thesis
    using query off'
    by (intro exI [of _ ?answer] exI [of _ ?opening] exI [of _ ?acc] exI [of _ off']
        exI [of _ "?acc\<lparr>ts_files := bt_insert fid ?g (ts_files acc), ts_state := ReceivingData\<rparr>"]) simp
qed

section \<open>Where the source departs from the protocol\<close>

text \<open>The handler of \<open>FileBegin\<close> has no test of the state: a session that has rejected or cancelled the transfer, or has not
  decided yet, starts to receive the file that the peer begins.\<close>

theorem file_begun_in_any_state:
  assumes "session_inv s" "ts_role s = Accepter_SR" "bt_get (ts_files s) fid = Some g" "\<not> fr_complete g" "fr_active_stream_id g = None"
    and "active_file_count s < sc_max_parallel_files (ts_config s)"
  shows "\<exists>s'. handle_control (FileBegin fid i (fr_durable_offset g) (entry_size g - fr_durable_offset g) (entry_hash g)) s
       = (Inr (state_events (ts_state s) ReceivingData), s') \<and> ts_state s' = ReceivingData
     \<and> (\<exists>g'. bt_get (ts_files s') fid = Some g' \<and> fr_active_stream_id g' = Some i)"
  using inv_file(1,3) [OF assms(1,3)] assms(2-6)
  by (auto simp: handle_file_begin_def session_run file_ok_def bt_get_insert)

text \<open>The answer of an accepter that has completed a file, \<open>FileComplete\<close>, is refused by an offerer that has reconnected: the
  reconnection has set the sent offset back, and the acknowledgement is compared with it.\<close>

theorem completion_refused_after_reconnect:
  assumes "session_inv s" "ts_role s = Offerer_SR" "ts_state s \<notin> {Completed, Rejected, Cancelled}"
    and "bt_get (ts_files s) fid = Some f" "\<not> fr_complete f" "fr_base_offset f < entry_size f"
  shows "fst (handle_control (FileComplete fid (entry_size f) (entry_hash f)) (snd (reconnect s)))
     = Inl (InvalidState_SE ''handle file complete'' ''data stream is incomplete'')"
proof -
  have "reconnect s = (Inr (state_events (ts_state s) AwaitingResume),
      reconnected s\<lparr>ts_controls := ts_controls s @ map Transfer_OM (reconnect_messages s)\<rparr>)"
    using assms(3) by (intro reconnect_run [OF assms(1)]) auto
  moreover have "bt_get (ts_files (reconnected s)) fid = Some (reset_file Offerer_SR f)"
    using assms(2,4) by (simp add: reconnected_def bt_get_map)
  moreover have "ts_role (reconnected s) = Offerer_SR" "entry_size f - fr_base_offset f \<noteq> 0"
    using assms(2,6) by (auto simp: reconnected_def)
  ultimately show ?thesis
    using assms(5) by (simp add: handle_file_complete_ack_def session_run Let_def reset_file_def)
qed

text \<open>An offerer whose files are all acknowledged and that reconnects before \<open>TransferComplete\<close> arrives does not accept it any more: it
  waits for a resume state, and the messages that an accepter sends again when it is complete are duplicates or an error.\<close>

theorem completion_lost_on_reconnect:
  assumes "session_inv s" "ts_role s = Offerer_SR" "ts_state s = AwaitingTransferComplete" "s' = snd (reconnect s)"
  shows "fst (handle_control (TransferComplete (ts_transfer_id s) (ts_completed_files s) (ts_completed_size s)) s')
       = Inl (state_error ''handle transfer complete'' AwaitingResume)"
    and "bt_get (ts_files s) fid = Some f \<Longrightarrow> handle_control (FileComplete fid n h) s' = (Inr [DuplicateControl], s')"
proof -
  have run: "reconnect s = (Inr (state_events (ts_state s) AwaitingResume),
      reconnected s\<lparr>ts_controls := ts_controls s @ map Transfer_OM (reconnect_messages s)\<rparr>)"
    using assms(3) by (intro reconnect_run [OF assms(1)]) auto
  then show "fst (handle_control (TransferComplete (ts_transfer_id s) (ts_completed_files s) (ts_completed_size s)) s')
      = Inl (state_error ''handle transfer complete'' AwaitingResume)"
    using assms(2,4) by (simp add: handle_transfer_complete_def session_run reconnected_def)
  assume f: "bt_get (ts_files s) fid = Some f"
  have "fr_complete f"
    using assms(1,3) map_of_SomeD [OF f [unfolded bt_get_def]]
    by (auto simp: session_inv_def state_ok_def all_files_complete_def list_all_iff bt_values_def)
  then have "bt_get (ts_files s') fid = Some f" "ts_role s' = Offerer_SR"
    using assms(2,4) f run by (simp_all add: reconnected_def bt_get_map reset_file_def)
  with \<open>fr_complete f\<close> show "handle_control (FileComplete fid n h) s' = (Inr [DuplicateControl], s')"
    by (simp add: handle_file_complete_ack_def session_run)
qed

text \<open>A chunk that ends the stream too early is refused, but the received offset has been advanced: the same bytes without the end are
  then a duplicate, and are never reported as received.\<close>

theorem early_end_skips_data:
  assumes "session_inv s" "ts_role s = Accepter_SR" "bt_get (ts_files s) fid = Some g" "fr_active_stream_id g = Some i"
    and "fr_received_offset g = fr_base_offset g + of_nat k" "bs \<noteq> []" "unat (fr_base_offset g) + k + length bs < unat (entry_size g)"
    and "c = \<lparr>dc_file_id = fid, dc_stream_id = i, dc_offset = of_nat k, dc_bytes = bs, dc_fin = True\<rparr>"
  shows "\<exists>e s'. handle_data c s = (Inl e, s') \<and> handle_data (c\<lparr>dc_fin := False\<rparr>) s' = (Inr [DuplicateData fid (of_nat k)], s')"
proof -
  define n :: u64 where "n = of_nat (k + length bs)"
  have fits: "unat (fr_base_offset g) + k + length bs \<le> unat (entry_size g)"
    using assms(7) by simp
  note w = offset_words [OF fits]
  have room: "\<not> entry_size g - fr_base_offset g < n"
    using fits w(4,5) by (simp add: word_less_nat_alt n_def del: of_nat_add)
  have early: "fr_base_offset g + n \<noteq> entry_size g"
    using assms(7) w(6) by (auto simp: word_unat_eq_iff n_def simp del: of_nat_add)
  have past: "of_nat k < n"
    using assms(6) w(1,4) by (simp add: word_less_nat_alt n_def del: of_nat_add)
  show ?thesis
    using assms(2-5,8) w(3,8) room early past inv_file(3) [OF assms(1,3)] unfolding n_def [symmetric]
    by (simp add: handle_data_def session_run Let_def bt_get_insert)
qed

end
