(* ===== verification/Session_Sample.thy ===== *)
theory Session_Sample
  imports Session_Properties
begin

text \<open>
  One transfer of a file of five bytes, run through the operations of both sessions: the concrete sessions at which the
  theorems of \<open>Session_Properties\<close> are applied.
\<close>

definition sample_digest :: digest where "sample_digest = \<lparr>dg_algorithm = Blake3, dg_bytes = replicate 32 0\<rparr>"

definition sample_entry :: manifest_entry where
  "sample_entry = \<lparr>me_file_id = [1], me_relative_path = [0x61], me_size = 5, me_content_hash = sample_digest,
     me_metadata = \<lparr>md_modified_time_unix_seconds = None, md_mode = None\<rparr>\<rparr>"

definition sample_manifest :: manifest where
  "sample_manifest = \<lparr>mf_digest = sample_digest, mf_entries = [sample_entry], mf_total_size = 5\<rparr>"

definition sample_ops :: "unit storage_ops" where
  "sample_ops = \<lparr>so_durable_state = (\<lambda>_ _ fid. Inl (UnknownFile fid)), so_write_data = (\<lambda>_ _ _ _. st_return ()),
     so_checkpoint = (\<lambda>_ _ _. st_return ()), so_complete_file = (\<lambda>_ _ _ _. st_return ())\<rparr>"

definition sample_selector :: "unit path_selector" where
  "sample_selector = \<lparr>sel_select = (\<lambda>_ _. st_fail PathUnavailable), sel_relay = (\<lambda>_. st_fail PathUnavailable)\<rparr>"

text \<open>The offerer after the decision and after the resume state of its file.\<close>

definition offerer_new :: transfer_session where
  "offerer_new = snd (install_manifest sample_manifest (session_empty Offerer_SR [7] session_config_default))"

definition offerer_asking :: transfer_session where
  "offerer_asking = snd (handle_control (ReceiveDecision True Ask []) (snd (session_start offerer_new)))"

definition offerer_sending :: transfer_session where
  "offerer_sending = snd (handle_control (ResumeState [1] 0 0 sample_digest) offerer_asking)"

text \<open>The accepter after it has accepted, after the file has begun, and at the end.\<close>

definition accepter_accepted :: transfer_session where
  "accepter_accepted = snd (accept_offer Accept Ask [] (snd (deliver (manifest_messages offerer_new sample_manifest)
     (snd (session_start (session_empty Accepter_SR [7] session_config_default))))))"

definition accepter_receiving :: transfer_session where
  "accepter_receiving = snd (handle_control (FileBegin [1] 1 0 5 sample_digest) accepter_accepted)"

definition accepter_completed :: transfer_session where
  "accepter_completed = snd (complete_file [1] 5 sample_digest (snd (session_checkpoint [1] 5 1
     (snd (handle_data \<lparr>dc_file_id = [1], dc_stream_id = 1, dc_offset = 0, dc_bytes = [1, 2, 3, 4, 5], dc_fin = True\<rparr>
       accepter_receiving)))))"

lemma sample_path: "validate_relative_path [0x61] = Inr ()"
  by (simp add: validate_relative_path_def path_chars MAX_PATH_LEN_def)

lemma sample_manifest_new: "manifest_new sample_digest [sample_entry] = Inr sample_manifest"
  by (simp add: manifest_new_ok valid_entries_def sample_entry_def sample_manifest_def sample_path MAX_MANIFEST_FILES_def)

lemma sample_new:
  "new_offerer [7] sample_manifest session_config_default = Inr offerer_new"
  "new_accepter [7] session_config_default = Inr (session_empty Accepter_SR [7] session_config_default)"
  by (simp_all add: new_offerer_def new_accepter_def offerer_new_def session_config_validate_def session_config_default_def)

lemma reachable_deliver: "session_reachable ops sel (s, t) \<Longrightarrow> session_reachable ops sel (snd (deliver ms s), t)"
proof (induction ms arbitrary: s)
  case (Cons m ms)
  have "session_reachable ops sel (snd (handle_control m s), t)"
    by (rule session_reachable.step [OF Cons.prems session_step.control])
  with Cons.IH [of "snd (handle_control m s)"] show ?case
    by (auto simp: st_bind_def split: prod.splits sum.splits)
qed simp

lemmas reach = session_reachable.step [OF _ session_step.start] session_reachable.step [OF _ session_step.control]
  session_reachable.step [OF _ session_step.accept] session_reachable.step [OF _ session_step.data]
  session_reachable.step [OF _ session_step.checkpoint] session_reachable.step [OF _ session_step.complete] reachable_deliver

lemma sample_reachable:
  "session_reachable sample_ops sample_selector (offerer_asking, ())"
  "session_reachable sample_ops sample_selector (offerer_sending, ())"
  "session_reachable sample_ops sample_selector (accepter_accepted, ())"
  "session_reachable sample_ops sample_selector (accepter_receiving, ())"
  "session_reachable sample_ops sample_selector (accepter_completed, ())"
proof -
  note off = session_reachable.offerer [OF sample_manifest_new sample_new(1)]
  note acc = session_reachable.accepter [OF sample_new(2)]
  show "session_reachable sample_ops sample_selector (offerer_asking, ())"
    unfolding offerer_asking_def by (intro reach off)
  then show "session_reachable sample_ops sample_selector (offerer_sending, ())"
    unfolding offerer_sending_def by (rule reach)
  show accepted: "session_reachable sample_ops sample_selector (accepter_accepted, ())"
    unfolding accepter_accepted_def by (intro reach acc)
  show receiving: "session_reachable sample_ops sample_selector (accepter_receiving, ())"
    unfolding accepter_receiving_def by (rule reach(2) [OF accepted])
  show "session_reachable sample_ops sample_selector (accepter_completed, ())"
    unfolding accepter_completed_def by (intro reach receiving)
qed

section \<open>The sessions, evaluated\<close>

lemma then_assoc: "st_then (st_then a b) c = st_then a (st_then b c)"
  by (rule ext) (auto simp: st_then_def st_bind_def split: prod.split sum.split)

lemmas sample_defs = sample_digest_def sample_entry_def sample_manifest_def session_config_default_def session_empty_def
  install_manifest_def runtimes_def file_runtime_new_def

lemma offerer_asking_eval:
  "ts_role offerer_asking = Offerer_SR" "ts_state offerer_asking = AwaitingResume" "ts_pending_resumes offerer_asking = []"
  "ts_next_stream_id offerer_asking = 1" "ts_config offerer_asking = session_config_default"
  "ts_files offerer_asking = [([1], file_runtime_new sample_entry sample_digest)]"
  by (simp_all add: offerer_asking_def offerer_new_def sample_defs session_start_def start_offerer_def session_run
      handle_receive_decision_def then_assoc)

lemma accepter_accepted_eval:
  "ts_role accepter_accepted = Accepter_SR" "ts_state accepter_accepted = AwaitingResume"
  "ts_config accepter_accepted = session_config_default" "ts_completed_files accepter_accepted = 0"
  "ts_files accepter_accepted = [([1], file_runtime_new sample_entry sample_digest)]"
proof -
  let ?a = "snd (session_start (session_empty Accepter_SR [7] session_config_default))"
  have "snd (deliver (manifest_messages offerer_new sample_manifest) ?a) = with_manifest sample_manifest ?a"
    by (subst deliver_manifest [OF sample_manifest_new])
      (simp_all add: offerer_new_def session_start_def session_empty_def install_manifest_def session_run Let_def)
  then show "ts_role accepter_accepted = Accepter_SR" "ts_state accepter_accepted = AwaitingResume"
    "ts_config accepter_accepted = session_config_default" "ts_completed_files accepter_accepted = 0"
    "ts_files accepter_accepted = [([1], file_runtime_new sample_entry sample_digest)]"
    by (simp_all add: accepter_accepted_def with_manifest_def accept_offer_def session_run sample_defs session_start_def)
qed

definition sample_sending :: file_runtime where
  "sample_sending = (file_runtime_new sample_entry sample_digest)\<lparr>fr_active_stream_id := Some 1\<rparr>"

lemma offerer_sending_eval:
  "ts_role offerer_sending = Offerer_SR" "bt_get (ts_files offerer_sending) [1] = Some sample_sending"
proof -
  let ?d = "\<lparr>ds_durable_offset = 0, ds_checkpoint_id = 0, ds_state_hash = sample_digest\<rparr>"
  have "ts_next_stream_id offerer_asking < - 1"
    by (simp add: offerer_asking_eval word_less_nat_alt unat_max_word)
  then obtain ev s' where run: "handle_resume_state [1] ?d offerer_asking = (Inr ev, s')"
      "bt_get (ts_files s') [1] = Some sample_sending"
    using resume_state_starts [of offerer_asking "[1]" "file_runtime_new sample_entry sample_digest" ?d]
    by (auto simp: offerer_asking_eval active_file_count_def bt_values_def session_config_default_def file_runtime_new_def
        sample_sending_def sample_entry_def)
  then show "bt_get (ts_files offerer_sending) [1] = Some sample_sending"
    by (simp add: offerer_sending_def)
  have "ts_role (snd (handle_resume_state [1] ?d offerer_asking)) = Offerer_SR"
    by (simp add: handle_resume_state_def session_run offerer_asking_eval start_pending_frame file_runtime_new_def split: option.split)
  then show "ts_role offerer_sending = Offerer_SR"
    by (simp add: offerer_sending_def)
qed

lemma accepter_receiving_eval:
  "ts_role accepter_receiving = Accepter_SR" "ts_files accepter_receiving = [([1], sample_sending)]"
  "ts_completed_files accepter_receiving = 0"
  by (simp_all add: accepter_receiving_def accepter_accepted_eval handle_file_begin_def session_run active_file_count_def bt_values_def
      session_config_default_def file_runtime_new_def sample_entry_def sample_sending_def)

lemma accepter_completed_eval: "ts_role accepter_completed = Accepter_SR" "ts_state accepter_completed = Completed"
  by (simp_all add: accepter_completed_def handle_data_def session_checkpoint_def complete_file_def session_run Let_def
      accepter_receiving_eval sample_sending_def file_runtime_new_def sample_entry_def checked_add_def stale_checkpoint_def
      mark_complete_def all_completed_def then_assoc)

section \<open>Applications\<close>

theorem session_offsets_exact_witness:
  "unat (ts_completed_files accepter_receiving) = 0 \<and> active_file_count accepter_receiving \<le> 2"
  using session_offsets_exact [OF sample_reachable(4), of "[1]" sample_sending]
  by (simp add: accepter_receiving_eval sample_sending_def file_runtime_new_def bt_values_def active_file_count_def)

theorem completed_means_transferred_witness: "ts_state accepter_completed = Completed \<and> is_complete accepter_completed"
  using completed_means_transferred [OF sample_reachable(5) accepter_completed_eval(2)] accepter_completed_eval(2) by simp

theorem manifest_transferred_witness:
  "\<exists>off acc acc' ms events. session_start offerer_new = (Inr [StateChanged New SendingManifest, StateChanged SendingManifest AwaitingDecision], off)
     \<and> ts_controls off = map Transfer_OM ms \<and> deliver ms acc = (Inr events, acc') \<and> ts_manifest acc' = Some sample_manifest"
  using manifest_transferred [OF sample_manifest_new sample_new refl refl] by blast

theorem file_data_transferred_witness:
  "\<exists>chunks off' acc'. queue_pieces [1] [[1, 2], [3, 4, 5]] offerer_sending = (Inr chunks, off')
     \<and> receive_chunks chunks accepter_receiving =
         (Inr [DataReceived [1] 0 [1, 2] False, DataReceived [1] 2 [3, 4, 5] True, FileReadyToComplete [1]], acc')"
  using file_data_transferred [OF sample_reachable(2,4) offerer_sending_eval(1) accepter_receiving_eval(1) offerer_sending_eval(2),
      of sample_sending 1 "[[1, 2], [3, 4, 5]]"]
  by (auto simp: accepter_receiving_eval sample_sending_def file_runtime_new_def sample_entry_def)

theorem reconnect_keeps_durable_witness:
  "\<exists>events s'. reconnect offerer_asking = (Inr events, s') \<and> ts_state s' = AwaitingResume \<and> active_file_count s' = 0"
  using reconnect_keeps_durable [OF sample_reachable(1)] by (auto simp: offerer_asking_eval)

theorem resume_agreed_witness:
  "\<exists>acc1 off' f' ev1 answer. handle_control (resume_query sample_entry) accepter_accepted = (Inr [], acc1)
     \<and> handle_control answer offerer_asking = (Inr ev1, off') \<and> bt_get (ts_files off') [1] = Some f' \<and> fr_base_offset f' = 0"
proof -
  let ?f = "file_runtime_new sample_entry sample_digest"
  have "active_file_count offerer_asking < sc_max_parallel_files (ts_config offerer_asking)"
    "active_file_count accepter_accepted < sc_max_parallel_files (ts_config accepter_accepted)"
    by (simp_all add: offerer_asking_eval accepter_accepted_eval active_file_count_def bt_values_def session_config_default_def
        file_runtime_new_def)
  moreover have "fr_entry ?f = sample_entry" "\<not> fr_complete ?f" "fr_active_stream_id ?f = None" "fr_durable_offset ?f = 0"
    "(1 :: u64) < - 1"
    by (simp_all add: file_runtime_new_def word_less_nat_alt unat_max_word)
  ultimately show ?thesis
    using resume_agreed [OF sample_reachable(1,3), of "[1]" ?f ?f]
    by (simp add: offerer_asking_eval accepter_accepted_eval) blast
qed

end
