(* ===== verification/Retry_Cookie.thy ===== *)
theory Retry_Cookie
  imports Frame Transfer_Message
begin

text \<open>
  The cookies with which an endpoint makes a client prove its address before it keeps any state: \<open>reliable-udp/src/retry.rs\<close>.
  A \<open>SystemTime\<close> is a number of nanoseconds since the epoch, negative before it. HMAC-SHA256, of another crate, is the argument
  \<open>hmac\<close> of the operations: a key and a message give the tag; it takes keys of any length, so the \<open>expect\<close> of \<open>sign\<close> does not panic.
  The random secret of \<open>prepare\<close> is an argument, \<open>None\<close> when there is no randomness.

  Shown here: the cookies that are accepted for a client are exactly those that were issued to it within the time allowed, and the
  message under the tag determines address, connection and nonce.
\<close>

definition COOKIE_VERSION :: u8 where "COOKIE_VERSION = 1"
definition TIMESTAMP_LEN :: usize where "TIMESTAMP_LEN = 8"
definition TAG_LEN :: usize where "TAG_LEN = 16"
definition COOKIE_LEN :: usize where "COOKIE_LEN = 1 + TIMESTAMP_LEN + TAG_LEN"

lemmas cookie_lengths = COOKIE_VERSION_def TIMESTAMP_LEN_def TAG_LEN_def COOKIE_LEN_def

record retry_config =
  rc_enabled :: bool
  rc_cookie_secret :: "bytes option"
  rc_cookie_ttl :: duration
  rc_clock_skew :: duration

definition retry_config_default :: retry_config where
  "retry_config_default = \<lparr>rc_enabled = True, rc_cookie_secret = None, rc_cookie_ttl = 10 * 10 ^ 9, rc_clock_skew = 5 * 10 ^ 9\<rparr>"

datatype retry_error = InvalidConfig_RE | RandomnessUnavailable_RE

text \<open>\<open>prepare\<close> with the secret that the random source would give.\<close>

definition retry_prepare :: "bytes option \<Rightarrow> retry_config \<Rightarrow> (retry_error + unit) \<times> retry_config" where
  "retry_prepare random c =
     (if \<not> rc_enabled c then (Inr (), c)
      else if rc_cookie_ttl c < 10 ^ 9 \<or> rc_clock_skew c > rc_cookie_ttl c then (Inl InvalidConfig_RE, c)
      else
        (case (if rc_cookie_secret c = None then map_option (\<lambda>secret. c\<lparr>rc_cookie_secret := Some secret\<rparr>) random else Some c) of
           None \<Rightarrow> (Inl RandomnessUnavailable_RE, c)
         | Some c \<Rightarrow>
             if (case rc_cookie_secret c of Some secret \<Rightarrow> list_all (\<lambda>b. b = 0) secret | None \<Rightarrow> False)
             then (Inl InvalidConfig_RE, c) else (Inr (), c)))"

record cookie_context =
  ck_peer :: socket_addr
  ck_connection_id :: u64
  ck_client_nonce :: bytes
  ck_cookie_ttl :: duration
  ck_clock_skew :: duration

definition unix_seconds :: "int \<Rightarrow> retry_error + u64" where
  "unix_seconds now = (if now < 0 then Inl InvalidConfig_RE else Inr (of_nat (nat now div 10 ^ 9)))"

text \<open>The bytes that \<open>encode_addr\<close> and \<open>update_mac\<close> feed to the MAC, in their order.\<close>

fun encode_addr :: "socket_addr \<Rightarrow> bytes" where
  "encode_addr (V4 ip port) = [4] @ ip @ to_be_bytes 2 port"
| "encode_addr (V6 ip port flowinfo scope_id) =
     [6] @ ip @ to_be_bytes 2 port @ to_be_bytes 4 flowinfo @ to_be_bytes 4 scope_id"

text \<open>\<open>b"reliable-udp retry cookie v1"\<close>\<close>

definition COOKIE_DOMAIN :: bytes where
  "COOKIE_DOMAIN = ascii ''reliable-udp retry cookie v1''"

definition update_mac :: "socket_addr \<Rightarrow> u64 \<Rightarrow> bytes \<Rightarrow> u64 \<Rightarrow> bytes" where
  "update_mac peer connection_id client_nonce timestamp =
     COOKIE_DOMAIN @ encode_addr peer @ to_be_bytes 8 connection_id @ client_nonce @ to_be_bytes 8 timestamp"

type_synonym mac = "bytes \<Rightarrow> bytes \<Rightarrow> bytes"

definition sign_cookie :: "mac \<Rightarrow> bytes \<Rightarrow> socket_addr \<Rightarrow> u64 \<Rightarrow> bytes \<Rightarrow> u64 \<Rightarrow> bytes" where
  "sign_cookie hmac secret peer connection_id client_nonce timestamp =
     hmac secret (update_mac peer connection_id client_nonce timestamp)"

definition issue_cookie :: "mac \<Rightarrow> bytes \<Rightarrow> socket_addr \<Rightarrow> u64 \<Rightarrow> bytes \<Rightarrow> int \<Rightarrow> retry_error + bytes" where
  "issue_cookie hmac secret peer connection_id client_nonce now =
     and_then (unix_seconds now) (\<lambda>timestamp.
     Inr ([COOKIE_VERSION] @ to_be_bytes 8 timestamp
       @ take TAG_LEN (sign_cookie hmac secret peer connection_id client_nonce timestamp)))"

definition as_secs :: "duration \<Rightarrow> u64" where
  "as_secs d = of_nat (d div 10 ^ 9)"

definition validate_cookie :: "mac \<Rightarrow> bytes \<Rightarrow> bytes \<Rightarrow> int \<Rightarrow> cookie_context \<Rightarrow> bool" where
  "validate_cookie hmac secret cookie now ctxt =
     (if length cookie \<noteq> COOKIE_LEN \<or> cookie ! 0 \<noteq> COOKIE_VERSION then False
      else
        let timestamp = from_be_bytes (take TIMESTAMP_LEN (drop 1 cookie)) in
        case unix_seconds now of
          Inl _ \<Rightarrow> False
        | Inr now_seconds \<Rightarrow>
            let allowed_future = as_secs (ck_clock_skew ctxt) in
            if timestamp > saturating_add now_seconds allowed_future
              \<or> saturating_sub now_seconds timestamp > saturating_add (as_secs (ck_cookie_ttl ctxt)) allowed_future
            then False
            else
              take TAG_LEN (sign_cookie hmac secret (ck_peer ctxt) (ck_connection_id ctxt) (ck_client_nonce ctxt) timestamp)
                = drop (1 + TIMESTAMP_LEN) cookie)"

section \<open>What is accepted\<close>

text \<open>A time in whole seconds, and when a cookie issued at one time is in the tolerance around another, over the natural numbers.\<close>

definition seconds_of :: "int \<Rightarrow> nat" where
  "seconds_of now = nat now div 10 ^ 9"

definition fresh_at :: "cookie_context \<Rightarrow> int \<Rightarrow> int \<Rightarrow> bool" where
  "fresh_at ctxt now issued \<longleftrightarrow>
     seconds_of issued \<le> seconds_of now + ck_clock_skew ctxt div 10 ^ 9
     \<and> seconds_of now \<le> seconds_of issued + ck_cookie_ttl ctxt div 10 ^ 9 + ck_clock_skew ctxt div 10 ^ 9"

text \<open>Times and tolerances for which no sum saturates: half of the range of the seconds is for the time, a quarter for each tolerance.\<close>

definition representable :: "cookie_context \<Rightarrow> int \<Rightarrow> bool" where
  "representable ctxt now \<longleftrightarrow> 0 \<le> now \<and> seconds_of now < 2 ^ 63
     \<and> ck_cookie_ttl ctxt div 10 ^ 9 < 2 ^ 62 \<and> ck_clock_skew ctxt div 10 ^ 9 < 2 ^ 62"

lemma unix_seconds_run: "0 \<le> now \<Longrightarrow> unix_seconds now = Inr (of_nat (seconds_of now))"
  by (simp add: unix_seconds_def seconds_of_def)

lemma unat_seconds: "representable ctxt now \<Longrightarrow> unat (of_nat (seconds_of now) :: u64) = seconds_of now"
  by (rule unat_of_nat_small) (simp add: representable_def)

lemma unat_tolerances:
  "representable ctxt now \<Longrightarrow> unat (as_secs (ck_cookie_ttl ctxt)) = ck_cookie_ttl ctxt div 10 ^ 9"
  "representable ctxt now \<Longrightarrow> unat (as_secs (ck_clock_skew ctxt)) = ck_clock_skew ctxt div 10 ^ 9"
  unfolding as_secs_def representable_def by (rule unat_of_nat_small, simp)+

lemma freshness_test:
  assumes "representable ctxt now"
  shows "timestamp > saturating_add (of_nat (seconds_of now)) (as_secs (ck_clock_skew ctxt))
      \<or> saturating_sub (of_nat (seconds_of now)) timestamp
          > saturating_add (as_secs (ck_cookie_ttl ctxt)) (as_secs (ck_clock_skew ctxt))
    \<longleftrightarrow> \<not> (unat timestamp \<le> seconds_of now + ck_clock_skew ctxt div 10 ^ 9
        \<and> seconds_of now \<le> unat timestamp + ck_cookie_ttl ctxt div 10 ^ 9 + ck_clock_skew ctxt div 10 ^ 9)"
proof -
  have "seconds_of now + ck_clock_skew ctxt div 10 ^ 9 \<le> 2 ^ 64 - 1"
    and "ck_cookie_ttl ctxt div 10 ^ 9 + ck_clock_skew ctxt div 10 ^ 9 \<le> 2 ^ 64 - 1"
    using assms by (simp_all add: representable_def)
  then show ?thesis
    by (auto simp: word_less_nat_alt unat_saturating_add unat_saturating_sub unat_seconds [OF assms] unat_tolerances [OF assms]
        min_absorb1)
qed

text \<open>The parts of a cookie of the right length.\<close>

lemma cookie_parts:
  "length cookie = COOKIE_LEN \<Longrightarrow> cookie ! 0 = COOKIE_VERSION \<Longrightarrow>
     cookie = [COOKIE_VERSION] @ to_be_bytes 8 (from_be_bytes (take TIMESTAMP_LEN (drop 1 cookie)) :: u64)
       @ drop (1 + TIMESTAMP_LEN) cookie"
proof (cases cookie)
  case (Cons v rest)
  assume "length cookie = COOKIE_LEN" "cookie ! 0 = COOKIE_VERSION"
  with Cons have len: "length (take 8 rest) = 8" and v: "v = COOKIE_VERSION"
    by (simp_all add: cookie_lengths)
  have "to_be_bytes 8 (from_be_bytes (take 8 rest) :: u64) = take 8 rest"
    using to_from_be_bytes [of "take 8 rest", where 'a = 64] unfolding len by simp
  then show ?thesis
    using Cons v by (simp add: cookie_lengths)
qed (simp add: cookie_lengths)

lemma validate_cookie_run:
  assumes "representable ctxt now"
  shows "validate_cookie hmac secret cookie now ctxt \<longleftrightarrow>
    length cookie = COOKIE_LEN \<and> (\<exists>timestamp.
      unat timestamp \<le> seconds_of now + ck_clock_skew ctxt div 10 ^ 9
      \<and> seconds_of now \<le> unat timestamp + ck_cookie_ttl ctxt div 10 ^ 9 + ck_clock_skew ctxt div 10 ^ 9
      \<and> cookie = [COOKIE_VERSION] @ to_be_bytes 8 timestamp
          @ take TAG_LEN (sign_cookie hmac secret (ck_peer ctxt) (ck_connection_id ctxt) (ck_client_nonce ctxt) timestamp))"
    (is "_ \<longleftrightarrow> ?accepted")
proof
  let ?t = "from_be_bytes (take TIMESTAMP_LEN (drop 1 cookie)) :: u64"
  have now: "unix_seconds now = Inr (of_nat (seconds_of now))"
    using assms by (simp add: unix_seconds_run representable_def)
  assume "validate_cookie hmac secret cookie now ctxt"
  then have *: "length cookie = COOKIE_LEN" "cookie ! 0 = COOKIE_VERSION"
      "unat ?t \<le> seconds_of now + ck_clock_skew ctxt div 10 ^ 9
        \<and> seconds_of now \<le> unat ?t + ck_cookie_ttl ctxt div 10 ^ 9 + ck_clock_skew ctxt div 10 ^ 9"
      "take TAG_LEN (sign_cookie hmac secret (ck_peer ctxt) (ck_connection_id ctxt) (ck_client_nonce ctxt) ?t)
        = drop (1 + TIMESTAMP_LEN) cookie"
    unfolding validate_cookie_def Let_def now sum.case freshness_test [OF assms] by (simp_all split: if_splits)
  show ?accepted
    using * cookie_parts [OF *(1,2)] by metis
next
  have now: "unix_seconds now = Inr (of_nat (seconds_of now))"
    using assms by (simp add: unix_seconds_run representable_def)
  assume ?accepted
  then show "validate_cookie hmac secret cookie now ctxt"
    unfolding validate_cookie_def Let_def now sum.case freshness_test [OF assms]
    by (auto simp: TIMESTAMP_LEN_def)
qed

text \<open>What the code relies on of the MAC: its tags have 32 bytes.\<close>

definition mac_32 :: "mac \<Rightarrow> bool" where
  "mac_32 hmac \<longleftrightarrow> (\<forall>key message. length (hmac key message) = 32)"

text \<open>The cookies accepted for a client are those that \<open>issue_cookie\<close> makes for it at a time within the tolerance.\<close>

lemma accepted_are_issued:
  assumes "mac_32 hmac" and "representable ctxt now"
  shows "validate_cookie hmac secret cookie now ctxt \<longleftrightarrow>
    (\<exists>issued. 0 \<le> issued \<and> fresh_at ctxt now issued
      \<and> issue_cookie hmac secret (ck_peer ctxt) (ck_connection_id ctxt) (ck_client_nonce ctxt) issued = Inr cookie)"
proof -
  let ?tag = "\<lambda>t. take TAG_LEN (sign_cookie hmac secret (ck_peer ctxt) (ck_connection_id ctxt) (ck_client_nonce ctxt) t)"
  let ?cookie = "\<lambda>t. [COOKIE_VERSION] @ to_be_bytes 8 t @ ?tag t"
  have len: "length (?cookie t) = COOKIE_LEN" for t :: u64
    using assms(1) by (simp add: mac_32_def sign_cookie_def cookie_lengths)
  have issue: "issue_cookie hmac secret (ck_peer ctxt) (ck_connection_id ctxt) (ck_client_nonce ctxt) issued
      = Inr (?cookie (of_nat (seconds_of issued)))" if "0 \<le> issued" for issued
    using that by (simp add: issue_cookie_def unix_seconds_run)
  have "seconds_of (int (unat t) * 10 ^ 9) = unat t" for t :: u64
    by (simp add: seconds_of_def nat_mult_distrib)
  moreover have "unat (of_nat (seconds_of issued) :: u64) = seconds_of issued" if "fresh_at ctxt now issued" for issued
    using that assms(2) by (intro unat_of_nat_small) (simp add: fresh_at_def representable_def)
  ultimately show ?thesis
    unfolding validate_cookie_run [OF assms(2)]
  proof (intro iffI; elim conjE exE)
    fix t assume *: "\<And>t :: u64. seconds_of (int (unat t) * 10 ^ 9) = unat t" and "cookie = ?cookie t"
      and "unat t \<le> seconds_of now + ck_clock_skew ctxt div 10 ^ 9"
      and "seconds_of now \<le> unat t + ck_cookie_ttl ctxt div 10 ^ 9 + ck_clock_skew ctxt div 10 ^ 9"
    then show "\<exists>issued. 0 \<le> issued \<and> fresh_at ctxt now issued
        \<and> issue_cookie hmac secret (ck_peer ctxt) (ck_connection_id ctxt) (ck_client_nonce ctxt) issued = Inr cookie"
      by (intro exI [of _ "int (unat t) * 10 ^ 9"]) (simp add: issue fresh_at_def * [of t, simplified])
  next
    fix issued assume *: "\<And>issued. fresh_at ctxt now issued \<Longrightarrow> unat (of_nat (seconds_of issued) :: u64) = seconds_of issued"
      and "0 \<le> issued" "fresh_at ctxt now issued"
      and "issue_cookie hmac secret (ck_peer ctxt) (ck_connection_id ctxt) (ck_client_nonce ctxt) issued = Inr cookie"
    then show "length cookie = COOKIE_LEN \<and> (\<exists>t. unat t \<le> seconds_of now + ck_clock_skew ctxt div 10 ^ 9
        \<and> seconds_of now \<le> unat t + ck_cookie_ttl ctxt div 10 ^ 9 + ck_clock_skew ctxt div 10 ^ 9 \<and> cookie = ?cookie t)"
      using len by (auto simp: issue fresh_at_def intro!: exI [of _ "of_nat (seconds_of issued)"])
  qed
qed

definition sample_mac :: mac where
  "sample_mac key message = replicate 32 (foldl (+) 0 (key @ message))"

definition sample_context :: cookie_context where
  "sample_context = \<lparr>ck_peer = V4 [127, 0, 0, 1] 9000, ck_connection_id = 3, ck_client_nonce = replicate 16 9,
     ck_cookie_ttl = 10 * 10 ^ 9, ck_clock_skew = 0\<rparr>"

definition sample_cookie :: bytes where
  "sample_cookie = [COOKIE_VERSION] @ to_be_bytes 8 (100 :: u64)
     @ take TAG_LEN (sign_cookie sample_mac (replicate 32 7) (V4 [127, 0, 0, 1] 9000) 3 (replicate 16 9) 100)"

lemma sample_mac_32: "mac_32 sample_mac"
  by (simp add: mac_32_def sample_mac_def)

lemma sample_representable: "representable sample_context (105 * 10 ^ 9)"
  by (simp add: representable_def seconds_of_def sample_context_def)

section \<open>What a cookie is bound to\<close>

lemma encode_addr_prefix_free:
  "valid_addr a \<Longrightarrow> valid_addr b \<Longrightarrow> encode_addr a @ xs = encode_addr b @ ys \<Longrightarrow> a = b \<and> xs = ys"
  by (cases a; cases b) (auto simp: to_be_bytes_eq_iff)

lemma update_mac_inj:
  "valid_addr a \<Longrightarrow> valid_addr b \<Longrightarrow> length n = NONCE_LEN \<Longrightarrow> length n' = NONCE_LEN \<Longrightarrow>
     update_mac a c n t = update_mac b c' n' t' \<Longrightarrow> a = b \<and> c = c' \<and> n = n' \<and> t = t'"
  using encode_addr_prefix_free [of a b "to_be_bytes 8 c @ n @ to_be_bytes 8 t" "to_be_bytes 8 c' @ n' @ to_be_bytes 8 t'"]
  by (simp add: update_mac_def to_be_bytes_eq_iff)

lemma cookie_fields:
  "[v] @ to_be_bytes 8 (a :: u64) @ xs = [v] @ to_be_bytes 8 b @ ys \<Longrightarrow> a = b \<and> xs = ys"
  by (simp add: to_be_bytes_eq_iff)

lemma issued_cookie:
  assumes "0 \<le> issued"
  shows "issue_cookie hmac secret peer connection_id nonce issued = Inr ([COOKIE_VERSION] @ to_be_bytes 8 (of_nat (seconds_of issued) :: u64)
    @ take TAG_LEN (hmac secret (update_mac peer connection_id nonce (of_nat (seconds_of issued)))))"
  using assms by (simp add: issue_cookie_def unix_seconds_run sign_cookie_def)

text \<open>C32: Take a MAC with tags of 32 bytes, times in \<open>0 .. 2 ^ 63\<close> seconds since the epoch, and a life time and a clock skew below
  \<open>2 ^ 62\<close> seconds, so that no sum saturates. A cookie that was issued for an address, a connection and a nonce at some time is accepted
  for a client exactly when it is the same address, the same connection and the same nonce, and the time now is within the tolerance
  around the time of issue; unless the two messages under the MAC differ and their tags agree in the first 16 bytes. And every
  cookie that is accepted for a client is one that the secret issues for that client within the tolerance.\<close>

theorem accepted_cookies:
  assumes "mac_32 hmac" and "representable ctxt now" and "0 \<le> issued" "seconds_of issued < 2 ^ 63"
    and "valid_addr peer" "length nonce = NONCE_LEN" "valid_addr (ck_peer ctxt)" "length (ck_client_nonce ctxt) = NONCE_LEN"
    and "issue_cookie hmac secret peer connection_id nonce issued = Inr cookie"
    and no_collision: "\<And>m m'. m = update_mac peer connection_id nonce (of_nat (seconds_of issued)) \<Longrightarrow>
      m' = update_mac (ck_peer ctxt) (ck_connection_id ctxt) (ck_client_nonce ctxt) (of_nat (seconds_of issued)) \<Longrightarrow>
      take TAG_LEN (hmac secret m) = take TAG_LEN (hmac secret m') \<Longrightarrow> m = m'"
  shows "(validate_cookie hmac secret cookie now ctxt \<longleftrightarrow>
       peer = ck_peer ctxt \<and> connection_id = ck_connection_id ctxt \<and> nonce = ck_client_nonce ctxt \<and> fresh_at ctxt now issued)
     \<and> (validate_cookie hmac secret other now ctxt \<longleftrightarrow>
       (\<exists>at. 0 \<le> at \<and> fresh_at ctxt now at
          \<and> issue_cookie hmac secret (ck_peer ctxt) (ck_connection_id ctxt) (ck_client_nonce ctxt) at = Inr other))"
proof -
  have cookie: "cookie = [COOKIE_VERSION] @ to_be_bytes 8 (of_nat (seconds_of issued) :: u64)
      @ take TAG_LEN (hmac secret (update_mac peer connection_id nonce (of_nat (seconds_of issued))))"
    using assms(9) issued_cookie [OF assms(3)] by simp
  have small: "seconds_of at = seconds_of issued"
    if "fresh_at ctxt now at" "(of_nat (seconds_of at) :: u64) = of_nat (seconds_of issued)" for at
  proof -
    have "seconds_of at < 2 ^ 64"
      using that(1) assms(2) by (simp add: fresh_at_def representable_def)
    then have "unat (of_nat (seconds_of at) :: u64) = seconds_of at"
      by (intro unat_of_nat_small) simp
    moreover have "unat (of_nat (seconds_of issued) :: u64) = seconds_of issued"
      using assms(4) by (intro unat_of_nat_small) simp
    ultimately show ?thesis
      using that(2) by metis
  qed
  have "peer = ck_peer ctxt \<and> connection_id = ck_connection_id ctxt \<and> nonce = ck_client_nonce ctxt \<and> fresh_at ctxt now issued"
    if accepted: "validate_cookie hmac secret cookie now ctxt"
  proof -
    obtain at where at: "0 \<le> at" "fresh_at ctxt now at"
        "issue_cookie hmac secret (ck_peer ctxt) (ck_connection_id ctxt) (ck_client_nonce ctxt) at = Inr cookie"
      using iffD1 [OF accepted_are_issued [OF assms(1,2)] accepted] by blast
    note fields = cookie_fields [OF trans [OF sum.inject(2) [THEN iffD1, OF trans [OF issued_cookie [OF at(1), symmetric] at(3)]] cookie]]
    have eq: "(of_nat (seconds_of at) :: u64) = of_nat (seconds_of issued)"
      by (rule conjunct1 [OF fields])
    have tags: "take TAG_LEN (hmac secret (update_mac peer connection_id nonce (of_nat (seconds_of issued))))
        = take TAG_LEN (hmac secret (update_mac (ck_peer ctxt) (ck_connection_id ctxt) (ck_client_nonce ctxt) (of_nat (seconds_of at))))"
      by (rule conjunct2 [OF fields, symmetric])
    from no_collision [OF refl refl tags [unfolded eq]]
    have "peer = ck_peer ctxt \<and> connection_id = ck_connection_id ctxt \<and> nonce = ck_client_nonce ctxt"
      using update_mac_inj [OF assms(5,7,6,8)] by blast
    moreover have "fresh_at ctxt now issued"
      using at(2) small [OF at(2) eq] by (simp add: fresh_at_def)
    ultimately show ?thesis
      by blast
  qed
  moreover have "validate_cookie hmac secret cookie now ctxt"
    if "peer = ck_peer ctxt" "connection_id = ck_connection_id ctxt" "nonce = ck_client_nonce ctxt" "fresh_at ctxt now issued"
    unfolding accepted_are_issued [OF assms(1,2)] using that assms(3,9) by blast
  ultimately show ?thesis
    using accepted_are_issued [OF assms(1,2)] by blast
qed

text \<open>A cookie for one nonce, presented with that nonce and with another.\<close>

theorem accepted_cookies_witness:
  "issue_cookie sample_mac (replicate 32 7) (V4 [127, 0, 0, 1] 9000) 3 (replicate 16 9) (100 * 10 ^ 9) = Inr sample_cookie
    \<and> validate_cookie sample_mac (replicate 32 7) sample_cookie (105 * 10 ^ 9) sample_context
    \<and> \<not> validate_cookie sample_mac (replicate 32 7) sample_cookie (105 * 10 ^ 9) (sample_context\<lparr>ck_client_nonce := replicate 16 8\<rparr>)"
proof -
  let ?peer = "V4 [127, 0, 0, 1] 9000"
  have fresh: "fresh_at sample_context (105 * 10 ^ 9) (100 * 10 ^ 9)"
    by (simp add: fresh_at_def seconds_of_def sample_context_def)
  have issued: "issue_cookie sample_mac (replicate 32 7) ?peer 3 (replicate 16 9) (100 * 10 ^ 9) = Inr sample_cookie"
    by (simp add: issue_cookie_def unix_seconds_def sample_cookie_def)
  have client: "ck_peer sample_context = ?peer" "ck_connection_id sample_context = 3" "ck_client_nonce sample_context = replicate 16 9"
    by (simp_all add: sample_context_def)
  have valid: "valid_addr ?peer" "length (replicate 16 (n :: u8)) = NONCE_LEN" for n
    by (simp_all add: NONCE_LEN_def)
  have time: "(0 :: int) \<le> 100 * 10 ^ 9" "seconds_of (100 * 10 ^ 9) = 100"
    by (simp_all add: seconds_of_def)
  have rep: "representable (sample_context\<lparr>ck_client_nonce := nonce\<rparr>) (105 * 10 ^ 9)" for nonce
    using sample_representable by (simp add: representable_def)
  have total: "foldl (+) a (xs :: bytes) = a + sum_list xs" for a xs
    by (induction xs arbitrary: a) (simp_all add: add.assoc)
  have differ: "take TAG_LEN (sample_mac (replicate 32 7) (update_mac ?peer 3 (replicate 16 9) 100))
      \<noteq> take TAG_LEN (sample_mac (replicate 32 7) (update_mac ?peer 3 (replicate 16 8) 100))"
    by (simp add: sample_mac_def total update_mac_def sum_list_replicate TAG_LEN_def)
  have "validate_cookie sample_mac (replicate 32 7) sample_cookie (105 * 10 ^ 9) sample_context"
    by (rule iffD2 [OF conjunct1 [OF accepted_cookies [OF sample_mac_32 sample_representable time(1) _ valid(1) valid(2) _ _ issued]]])
      (simp_all only: client fresh valid time, simp_all)
  moreover have "\<not> validate_cookie sample_mac (replicate 32 7) sample_cookie (105 * 10 ^ 9) (sample_context\<lparr>ck_client_nonce := replicate 16 8\<rparr>)"
    (is "\<not> ?accepted")
  proof
    assume ?accepted
    then have "replicate 16 (9 :: u8) = ck_client_nonce (sample_context\<lparr>ck_client_nonce := replicate 16 8\<rparr>)"
      using accepted_cookies [OF sample_mac_32 rep [of "replicate 16 8"] time(1) _ valid(1) valid(2) _ _ issued]
        differ client valid time by auto
    then show False
      by simp
  qed
  ultimately show ?thesis
    using issued by blast
qed

section \<open>The configuration\<close>

text \<open>An enabled configuration that was prepared has a secret that is not all zero and a tolerance within the life time.\<close>

definition prepared :: "retry_config \<Rightarrow> bool" where
  "prepared c \<longleftrightarrow> rc_clock_skew c \<le> rc_cookie_ttl c \<and> 10 ^ 9 \<le> rc_cookie_ttl c
     \<and> (\<exists>secret. rc_cookie_secret c = Some secret \<and> \<not> list_all (\<lambda>b. b = 0) secret)"

lemma retry_prepare_ok:
  "retry_prepare random c = (Inr (), c') \<Longrightarrow> rc_enabled c' \<Longrightarrow> prepared c'
     \<and> (\<forall>secret. rc_cookie_secret c = Some secret \<longrightarrow> rc_cookie_secret c' = Some secret)"
  by (auto simp: retry_prepare_def prepared_def split: if_splits option.splits)

lemma retry_prepare_default:
  "retry_prepare (Some secret) retry_config_default =
     (if list_all (\<lambda>b. b = 0) secret then Inl InvalidConfig_RE else Inr (), retry_config_default\<lparr>rc_cookie_secret := Some secret\<rparr>)"
  by (simp add: retry_prepare_def retry_config_default_def)

end
