(* ===== verification/Path_Candidate.thy ===== *)
theory Path_Candidate
  imports Transfer_Codec "HOL-Library.Product_Lexorder" "HOL-Library.List_Lexorder" "HOL-Library.Option_ord"
begin

text \<open>
  The pairs of local and remote addresses that a peer tries, and the digest of a list of candidates:
  \<open>network-probe/src/candidate.rs\<close>, with the errors of \<open>network-probe/src/error.rs\<close>. The order of \<open>SocketAddr\<close> that the
  sort uses is the one the standard library derives: IPv4 before IPv6, then the fields in their order; \<open>sort_by\<close> and
  \<open>sort_by_key\<close> are stable, as \<open>sort_key\<close> is. The hash function BLAKE3, of another crate, is the argument \<open>blake3\<close>.

  Shown here: the pairs are exactly the possible ones when there is room, and otherwise the ones of the highest priority;
  both ends give a pair the same kind and priority; candidates that pass \<open>validate\<close> never make a relay pair; the digest
  does not depend on the order of the candidates and, but for one value of the interface index, what is hashed determines them.
\<close>

datatype probe_error =
    InvalidConfig_PE string
  | Io_PE
  | Protocol_PE transfer_error
  | RandomnessUnavailable_PE
  | NoCandidates
  | AuthorizationExpired
  | UnauthorizedCheck
  | InvalidCandidate candidate_id

datatype selection_error = NoSuccessfulDirectPath | RandomnessUnavailable_SE

section \<open>The order of addresses\<close>

fun addr_key :: "socket_addr \<Rightarrow> bool \<times> bytes \<times> u16 \<times> u32 \<times> u32" where
  "addr_key (V4 ip port) = (False, ip, port, 0, 0)"
| "addr_key (V6 ip port flowinfo scope_id) = (True, ip, port, flowinfo, scope_id)"

lemma addr_key_inj [simp]: "addr_key a = addr_key b \<longleftrightarrow> a = b"
  by (cases a; cases b) auto

instantiation socket_addr :: linorder
begin

definition less_eq_socket_addr :: "socket_addr \<Rightarrow> socket_addr \<Rightarrow> bool" where
  "a \<le> b \<longleftrightarrow> addr_key a \<le> addr_key b"

definition less_socket_addr :: "socket_addr \<Rightarrow> socket_addr \<Rightarrow> bool" where
  "a < b \<longleftrightarrow> addr_key a < addr_key b"

instance
  by standard (auto simp: less_eq_socket_addr_def less_socket_addr_def simp del: prod_less_eq simp flip: addr_key_inj)

end

section \<open>Pairs\<close>

record candidate_pair =
  cp_local :: candidate
  cp_remote :: candidate
  cp_kind :: path_kind
  cp_priority :: u32

fun same_subnet :: "socket_addr \<Rightarrow> socket_addr \<Rightarrow> u32 option \<Rightarrow> bool" where
  "same_subnet (V4 left _) (V4 right _) interface_index = (take 3 left = take 3 right)"
| "same_subnet (V6 left _ _ _) (V6 right _ _ _) interface_index = (take 8 left = take 8 right)"
| "same_subnet _ _ interface_index = False"

definition reflexive_kind :: "candidate_kind \<Rightarrow> bool" where
  "reflexive_kind k \<longleftrightarrow> k = ServerReflexive \<or> k = PeerReflexive"

definition pair_kind :: "candidate \<Rightarrow> candidate \<Rightarrow> socket_addr \<Rightarrow> socket_addr \<Rightarrow> path_kind" where
  "pair_kind local_c remote_c local_address remote_address =
     (if cd_kind local_c = Relay_CK \<or> cd_kind remote_c = Relay_CK then Relay_PK
      else if reflexive_kind (cd_kind local_c) \<or> reflexive_kind (cd_kind remote_c) then ReflexiveDirect
      else if same_subnet local_address remote_address (cd_interface_index local_c) then Host_PK
      else RoutedLan_PK)"

definition path_priority :: "path_kind \<Rightarrow> u32" where
  "path_priority k = (case k of Host_PK \<Rightarrow> 100 | RoutedLan_PK \<Rightarrow> 90 | ReflexiveDirect \<Rightarrow> 70 | Relay_PK \<Rightarrow> 10)"

definition make_pair :: "candidate \<Rightarrow> candidate \<Rightarrow> candidate_pair option" where
  "make_pair local_c remote_c =
     Option.bind (cd_address local_c) (\<lambda>local_address.
     Option.bind (cd_address remote_c) (\<lambda>remote_address.
     let kind = pair_kind local_c remote_c local_address remote_address;
         priority = saturating_add (saturating_add (ucast (cd_priority local_c)) (ucast (cd_priority remote_c))) (path_priority kind)
     in Some \<lparr>cp_local = local_c, cp_remote = remote_c, cp_kind = kind, cp_priority = priority\<rparr>))"

definition all_pairs :: "candidate list \<Rightarrow> candidate list \<Rightarrow> candidate_pair list" where
  "all_pairs local_cs remote_cs = concat (map (\<lambda>l. List.map_filter (make_pair l) remote_cs) local_cs)"

text \<open>The higher priority first, then by the remote and by the local address.\<close>

definition pair_key :: "candidate_pair \<Rightarrow> int \<times> socket_addr option \<times> socket_addr option" where
  "pair_key p = (- int (unat (cp_priority p)), cd_address (cp_remote p), cd_address (cp_local p))"

definition pair_candidates :: "candidate list \<Rightarrow> candidate list \<Rightarrow> usize \<Rightarrow> candidate_pair list" where
  "pair_candidates local_cs remote_cs max_pairs =
     (if max_pairs = 0 then [] else take max_pairs (sort_key pair_key (all_pairs local_cs remote_cs)))"

section \<open>Digest and exchange\<close>

fun encode_socket :: "socket_addr option \<Rightarrow> bytes" where
  "encode_socket None = [0]"
| "encode_socket (Some (V4 ip port)) = [4] @ ip @ to_be_bytes 2 port"
| "encode_socket (Some (V6 ip port flowinfo scope_id)) =
     [6] @ ip @ to_be_bytes 2 port @ to_be_bytes 4 flowinfo @ to_be_bytes 4 scope_id"

text \<open>\<open>b"udp-transfer-candidates-v1\0"\<close>\<close>

definition CANDIDATES_DOMAIN :: bytes where
  "CANDIDATES_DOMAIN = ascii ''udp-transfer-candidates-v1'' @ [0]"

definition candidate_input :: "candidate \<Rightarrow> bytes" where
  "candidate_input c = cd_id c @ [candidate_kind_byte (cd_kind c)] @ encode_socket (cd_address c)
     @ to_be_bytes 2 (cd_priority c)
     @ to_be_bytes 4 (case cd_interface_index c of Some i \<Rightarrow> i | None \<Rightarrow> - 1)"

definition digest_input :: "candidate list \<Rightarrow> bytes" where
  "digest_input cs = CANDIDATES_DOMAIN @ concat (map candidate_input (sort_key cd_id cs))"

definition candidate_digest :: "(bytes \<Rightarrow> bytes) \<Rightarrow> candidate list \<Rightarrow> digest" where
  "candidate_digest blake3 cs = \<lparr>dg_algorithm = Blake3, dg_bytes = blake3 (digest_input cs)\<rparr>"

record candidate_exchange =
  cx_transfer_id :: transfer_id
  cx_local :: "candidate list"
  cx_remote :: "candidate list"
  cx_digest :: digest
  cx_check_token :: check_token

definition candidate_exchange_new ::
  "(bytes \<Rightarrow> bytes) \<Rightarrow> transfer_id \<Rightarrow> candidate list \<Rightarrow> candidate list \<Rightarrow> check_token \<Rightarrow> probe_error + candidate_exchange" where
  "candidate_exchange_new blake3 tid local_cs remote_cs token =
     (if local_cs = [] \<or> remote_cs = [] then Inl NoCandidates
      else Inr \<lparr>cx_transfer_id = tid, cx_local = local_cs, cx_remote = remote_cs,
        cx_digest = candidate_digest blake3 local_cs, cx_check_token = token\<rparr>)"

definition exchange_pairs :: "candidate_exchange \<Rightarrow> usize \<Rightarrow> candidate_pair list" where
  "exchange_pairs x max_pairs = pair_candidates (cx_local x) (cx_remote x) max_pairs"

section \<open>What the pairs are\<close>

lemma set_all_pairs: "set (all_pairs ls rs) = {p. \<exists>l \<in> set ls. \<exists>r \<in> set rs. make_pair l r = Some p}"
  by (fastforce simp: all_pairs_def List.map_filter_def image_iff)

lemma make_pair_Some:
  "make_pair l r = Some p \<Longrightarrow> cp_local p = l \<and> cp_remote p = r
     \<and> (\<exists>a b. cd_address l = Some a \<and> cd_address r = Some b \<and> cp_kind p = pair_kind l r a b)"
  by (auto simp: make_pair_def bind_eq_Some_conv Let_def)

lemma make_pair_exists: "(\<exists>p. make_pair l r = Some p) \<longleftrightarrow> cd_address l \<noteq> None \<and> cd_address r \<noteq> None"
  by (auto simp: make_pair_def bind_eq_Some_conv Let_def)

text \<open>With 16-bit priorities the sum of \<open>pair_candidates\<close> never saturates.\<close>

lemma unat_path_priority: "unat (path_priority k) \<le> 100"
  by (cases k) (simp_all add: path_priority_def)

lemma unat_ucast_u16: "unat (ucast (v :: u16) :: u32) = unat v"
  by (simp add: unat_ucast_mod) (use unsigned_less [of v, where 'a = nat] in simp)

lemma pair_priority:
  assumes "make_pair l r = Some p"
  shows "unat (cp_priority p) = unat (cd_priority l) + unat (cd_priority r) + unat (path_priority (cp_kind p))"
  using assms unat_path_priority [of "cp_kind p"] unat_le_max [of "cd_priority l"] unat_le_max [of "cd_priority r"]
  by (auto simp: make_pair_def bind_eq_Some_conv Let_def unat_saturating_add unat_ucast_u16)

lemma same_subnet_commute: "same_subnet a b i \<longleftrightarrow> same_subnet b a j"
  by (cases a; cases b) auto

lemma pair_kind_commute: "pair_kind l r a b = pair_kind r l b a"
  using same_subnet_commute [of a b "cd_interface_index l" "cd_interface_index r"] by (auto simp: pair_kind_def)

lemma make_pair_mirrored:
  assumes "make_pair l r = Some p" and "make_pair r l = Some q"
  shows "cp_kind q = cp_kind p" and "cp_priority q = cp_priority p"
proof -
  show kind: "cp_kind q = cp_kind p"
    using make_pair_Some [OF assms(1)] make_pair_Some [OF assms(2)] pair_kind_commute by fastforce
  show "cp_priority q = cp_priority p"
    using pair_priority [OF assms(1)] pair_priority [OF assms(2)] by (simp add: kind word_unat_eq_iff)
qed

text \<open>A list sorted by a key and cut: what is left out is not before what is kept.\<close>

lemma take_sort_key_le:
  assumes "x \<in> set (take n (sort_key f xs))" and "y \<in> set (drop n (sort_key f xs))"
  shows "f x \<le> f y"
proof -
  have "sorted (map f (take n (sort_key f xs)) @ map f (drop n (sort_key f xs)))"
    by (metis append_take_drop_id map_append sorted_sort_key)
  with assms show ?thesis by (auto simp: sorted_append)
qed

lemma pair_key_le: "pair_key p \<le> pair_key q \<Longrightarrow> cp_priority q \<le> cp_priority p"
  by (auto simp: pair_key_def less_eq_prod_def word_le_def)


section \<open>Properties\<close>

text \<open>C36: The pairs that are tried come from a local and a remote candidate that both have an address, there are as many as possible
  up to the limit, the higher priorities first, and a possible pair that is not tried has at most the priority of every pair that is.\<close>

theorem pairs_are_best:
  "let ps = pair_candidates ls rs max_pairs in
    length ps = min max_pairs (length (all_pairs ls rs))
    \<and> set ps \<subseteq> {p. \<exists>l r. l \<in> set ls \<and> r \<in> set rs \<and> make_pair l r = Some p}
    \<and> sorted_wrt (\<lambda>p q. cp_priority q \<le> cp_priority p) ps
    \<and> {q. \<exists>l r. l \<in> set ls \<and> r \<in> set rs \<and> make_pair l r = Some q} - set ps
       \<subseteq> {q. length ps = max_pairs \<and> set ps \<subseteq> {p. cp_priority q \<le> cp_priority p}}"
proof -
  let ?all = "sort_key pair_key (all_pairs ls rs)"
  define ps where "ps = pair_candidates ls rs max_pairs"
  then have ps: "ps = take max_pairs ?all"
    by (simp add: pair_candidates_def)
  have possible: "{p. \<exists>l r. l \<in> set ls \<and> r \<in> set rs \<and> make_pair l r = Some p} = set ?all"
    by (auto simp: set_all_pairs)
  have "sorted_wrt (\<lambda>p q. pair_key p \<le> pair_key q) ?all"
    using sorted_sort_key [of pair_key "all_pairs ls rs"] by (simp add: sorted_map)
  then have "sorted_wrt (\<lambda>p q. cp_priority q \<le> cp_priority p) ps"
    unfolding ps by (intro sorted_wrt_take sorted_wrt_mono_rel [OF pair_key_le]) simp_all
  moreover have "length ps = max_pairs \<and> set ps \<subseteq> {p. cp_priority q \<le> cp_priority p}" if "q \<in> set ?all - set ps" for q
  proof -
    have q: "q \<in> set (drop max_pairs ?all)"
      using that unfolding ps by (metis DiffD1 DiffD2 UnE append_take_drop_id set_append)
    then have "max_pairs < length ?all"
      by (metis drop_all empty_iff linorder_not_less list.set(1))
    then show ?thesis
      unfolding ps using pair_key_le [OF take_sort_key_le [OF _ q]] by auto
  qed
  ultimately show ?thesis
    unfolding possible Let_def ps_def [symmetric] by (auto simp: ps dest: in_set_takeD)
qed

lemma valid_candidate_relay: "candidate_validate c = Inr () \<Longrightarrow> cd_address c = Some a \<Longrightarrow> cd_kind c \<noteq> Relay_CK"
  by (auto simp: candidate_validate_def)

lemma valid_candidates_direct:
  assumes "list_all (\<lambda>c. candidate_validate c = Inr ()) (ls @ rs)" and "p \<in> set (pair_candidates ls rs n)"
  shows "cp_kind p \<noteq> Relay_PK"
proof -
  from assms(2) obtain l r where "l \<in> set ls" "r \<in> set rs" and p: "make_pair l r = Some p"
    by (auto simp: pair_candidates_def set_all_pairs split: if_splits dest!: in_set_takeD)
  with assms(1) have "cd_kind l \<noteq> Relay_CK" "cd_kind r \<noteq> Relay_CK"
    using make_pair_Some [OF p] valid_candidate_relay by (auto simp: list_all_iff)
  then show ?thesis
    using make_pair_Some [OF p] by (auto simp: pair_kind_def split: if_splits)
qed

section \<open>What the digest determines\<close>

lemma sort_key_unique:
  assumes "set xs = set ys" "distinct (map f xs)" "distinct (map f ys)"
  shows "sort_key f xs = sort_key f ys"
proof -
  have "distinct (map f (sort_key f zs))" if "distinct (map f zs)" for zs
    using that by (simp add: distinct_map)
  then have "map f (sort_key f xs) = map f (sort_key f ys)"
    using assms by (intro sorted_distinct_set_unique) auto
  then show ?thesis
    using assms by (intro map_inj_on [of f]) (auto simp: distinct_map)
qed

lemma candidate_digest_order:
  "set cs = set ds \<Longrightarrow> distinct (map cd_id cs) \<Longrightarrow> distinct (map cd_id ds) \<Longrightarrow>
     candidate_digest blake3 cs = candidate_digest blake3 ds"
  using sort_key_unique [of cs ds cd_id] by (simp add: candidate_digest_def digest_input_def)

lemma encode_socket_prefix_free:
  "\<forall>x. a = Some x \<longrightarrow> valid_addr x \<Longrightarrow> \<forall>x. b = Some x \<longrightarrow> valid_addr x \<Longrightarrow>
     encode_socket a @ xs = encode_socket b @ ys \<Longrightarrow> a = b \<and> xs = ys"
  by (cases a rule: encode_socket.cases; cases b rule: encode_socket.cases) (auto simp: to_be_bytes_eq_iff)

lemma candidate_kind_byte_inj: "candidate_kind_byte k = candidate_kind_byte k' \<longleftrightarrow> k = k'"
  by (cases k; cases k') (simp_all add: candidate_kind_byte_def)

lemma candidate_input_prefix_free:
  assumes "wire_candidate c" "wire_candidate d" "candidate_input c @ xs = candidate_input d @ ys"
  shows "c = d \<and> xs = ys"
proof -
  have ids: "length (cd_id c) = length (cd_id d)"
    using assms(1,2) by (simp add: wire_candidate_def valid_candidate_def valid_id_def)
  let ?rest = "\<lambda>c xs. to_be_bytes 2 (cd_priority c) @ to_be_bytes 4 ((case cd_interface_index c of Some i \<Rightarrow> i | None \<Rightarrow> - 1) :: u32) @ xs"
  have id: "cd_id c = cd_id d" and kind: "cd_kind c = cd_kind d"
    and socket: "encode_socket (cd_address c) @ ?rest c xs = encode_socket (cd_address d) @ ?rest d ys"
    using assms(3) ids by (auto simp: candidate_input_def candidate_kind_byte_inj)
  have addr: "cd_address c = cd_address d" and rest: "?rest c xs = ?rest d ys"
    using encode_socket_prefix_free [OF _ _ socket] assms(1,2) by (auto simp: wire_candidate_def valid_candidate_def)
  have "cd_priority c = cd_priority d" "cd_interface_index c = cd_interface_index d" "xs = ys"
    using rest assms(1,2) by (auto simp: to_be_bytes_eq_iff wire_candidate_def split: option.splits)
  with id kind addr show ?thesis by simp
qed

lemma candidate_input_nonempty: "candidate_input c \<noteq> []"
  by (simp add: candidate_input_def)

lemma candidate_inputs_inj:
  "list_all wire_candidate cs \<Longrightarrow> list_all wire_candidate ds \<Longrightarrow>
     concat (map candidate_input cs) = concat (map candidate_input ds) \<Longrightarrow> cs = ds"
proof (induction cs arbitrary: ds)
  case Nil
  then show ?case by (cases ds) (simp_all add: candidate_input_nonempty)
next
  case (Cons c cs)
  obtain d ds' where ds: "ds = d # ds'"
    using Cons.prems(3) by (cases ds) (simp_all add: candidate_input_nonempty)
  have "c = d \<and> concat (map candidate_input cs) = concat (map candidate_input ds')"
    using Cons.prems unfolding ds by (intro candidate_input_prefix_free) simp_all
  then show ?case
    using Cons.prems Cons.IH [of ds'] unfolding ds by simp
qed

text \<open>For a hash without collisions on the two inputs, equal digests mean equal candidates, whatever their order. Two candidates
  that differ only in having no interface index and the index \<open>u32::MAX\<close> are hashed alike and excluded by \<open>wire_candidate\<close>.\<close>

lemma candidate_digest_binds:
  assumes "list_all wire_candidate cs" "list_all wire_candidate ds"
    and "blake3 (digest_input cs) = blake3 (digest_input ds) \<Longrightarrow> digest_input cs = digest_input ds"
    and "candidate_digest blake3 cs = candidate_digest blake3 ds"
  shows "set cs = set ds"
proof -
  have "digest_input cs = digest_input ds"
    using assms(3,4) by (simp add: candidate_digest_def)
  then have "sort_key cd_id cs = sort_key cd_id ds"
    using assms(1,2) by (intro candidate_inputs_inj) (simp_all add: digest_input_def list_all_iff)
  then show ?thesis
    by (metis set_sort)
qed

lemma digest_ignores_last_index:
  "candidate_digest blake3 [c\<lparr>cd_interface_index := None\<rparr>] = candidate_digest blake3 [c\<lparr>cd_interface_index := Some (- 1)\<rparr>]"
  by (simp add: candidate_digest_def digest_input_def candidate_input_def)

end
