(* ===== verification/Path_Check.thy ===== *)
theory Path_Check
  imports Path_Candidate State_Result "HOL-Library.AList"
begin

text \<open>
  The connectivity checks: \<open>network-probe/src/check.rs\<close>. \<open>check_candidates\<close> sends in every round one request to each candidate with
  an address and counts the responses that arrive before the deadline; \<open>respond_once\<close> answers a request that is authorised. What the
  socket, the clock and the random source do is an argument: \<open>probe_env\<close> for one request, a list of \<open>arrival\<close>s for a round, which ends
  with the deadline or a failure of the socket. A time is in nanoseconds. A datagram longer than the buffer is cut, as \<open>recv_from\<close> does.
  A \<open>HashMap\<close> that is only read by its keys is an association list.

  Shown here: what the counters of a result say, that every counted response answers a request of that round for that candidate with
  the token of the check, and that the answer of \<open>respond_once\<close> to a request is counted.
\<close>

section \<open>Configuration\<close>

definition DEFAULT_PROBE_TIMEOUT :: duration where "DEFAULT_PROBE_TIMEOUT = 500 * 10 ^ 6"
definition DEFAULT_PROBE_RETRIES :: usize where "DEFAULT_PROBE_RETRIES = 2"
definition DEFAULT_SAMPLE_COUNT :: usize where "DEFAULT_SAMPLE_COUNT = 3"
definition DEFAULT_MTU_SAMPLE :: usize where "DEFAULT_MTU_SAMPLE = 1200"
definition MAX_PROBE_DATAGRAM :: usize where "MAX_PROBE_DATAGRAM = 1472"

record probe_config =
  pc_timeout :: duration
  pc_retries :: usize
  pc_samples :: usize
  pc_max_candidates :: usize
  pc_max_datagram_size :: usize
  pc_mtu_sample_size :: usize

definition probe_config_default :: probe_config where
  "probe_config_default = \<lparr>pc_timeout = DEFAULT_PROBE_TIMEOUT, pc_retries = DEFAULT_PROBE_RETRIES, pc_samples = DEFAULT_SAMPLE_COUNT,
     pc_max_candidates = 16, pc_max_datagram_size = MAX_PROBE_DATAGRAM, pc_mtu_sample_size = DEFAULT_MTU_SAMPLE\<rparr>"

definition probe_config_validate :: "probe_config \<Rightarrow> probe_error + unit" where
  "probe_config_validate c =
     (if pc_timeout c = 0 then Inl (InvalidConfig_PE ''timeout'')
      else if pc_samples c = 0 then Inl (InvalidConfig_PE ''samples'')
      else if pc_max_candidates c = 0 then Inl (InvalidConfig_PE ''max_candidates'')
      else if \<not> (64 \<le> pc_max_datagram_size c \<and> pc_max_datagram_size c \<le> 65507) then Inl (InvalidConfig_PE ''max_datagram_size'')
      else if pc_mtu_sample_size c < 64 \<or> pc_mtu_sample_size c > pc_max_datagram_size c then Inl (InvalidConfig_PE ''mtu_sample_size'')
      else Inr ())"

definition probe_rounds :: "probe_config \<Rightarrow> usize" where
  "probe_rounds c = max (pc_samples c) (min (pc_retries c + 1) (usize_limit - 1))"

section \<open>Authorisation\<close>

record check_authorization =
  ca_transfer_id :: transfer_id
  ca_check_token :: check_token
  ca_expires_at_millis :: u64
  ca_candidates :: "(candidate_id \<times> socket_addr) list"

fun authorize_candidates :: "candidate list \<Rightarrow> (candidate_id \<times> socket_addr) list \<Rightarrow> probe_error + (candidate_id \<times> socket_addr) list" where
  "authorize_candidates [] authorized = Inr authorized"
| "authorize_candidates (c # cs) authorized =
     (case cd_address c of
        None \<Rightarrow> authorize_candidates cs authorized
      | Some address \<Rightarrow>
          if is_unspecified address \<or> addr_port address = 0 then Inl (InvalidCandidate (cd_id c))
          else authorize_candidates cs (AList.update (cd_id c) address authorized))"

definition check_authorization_new ::
  "transfer_id \<Rightarrow> check_token \<Rightarrow> u64 \<Rightarrow> candidate list \<Rightarrow> probe_error + check_authorization" where
  "check_authorization_new tid token expires_at_millis candidates =
     and_then (authorize_candidates candidates []) (\<lambda>authorized.
     if authorized = [] then Inl NoCandidates
     else Inr \<lparr>ca_transfer_id = tid, ca_check_token = token, ca_expires_at_millis = expires_at_millis, ca_candidates = authorized\<rparr>)"

definition authorization_expired :: "check_authorization \<Rightarrow> u64 \<Rightarrow> bool" where
  "authorization_expired a now_millis \<longleftrightarrow> now_millis \<ge> ca_expires_at_millis a"

definition permits :: "check_authorization \<Rightarrow> candidate_id \<Rightarrow> socket_addr \<Rightarrow> u64 \<Rightarrow> bool" where
  "permits a cid source now_millis \<longleftrightarrow>
     \<not> authorization_expired a now_millis \<and> map_of (ca_candidates a) cid \<noteq> None
     \<and> \<not> is_unspecified source \<and> \<not> is_multicast source \<and> addr_port source \<noteq> 0"

section \<open>Results\<close>

record check_result =
  cr_candidate :: candidate
  cr_sent :: u32
  cr_received :: u32
  cr_rtt_millis :: "u64 option"
  cr_mtu :: u16
  cr_observed_address :: "socket_addr option"

definition succeeded :: "check_result \<Rightarrow> bool" where
  "succeeded r \<longleftrightarrow> cr_received r > 0"

definition loss_percent :: "check_result \<Rightarrow> u8" where
  "loss_percent r =
     (if cr_sent r = 0 then 100
      else
        let lost = saturating_sub (cr_sent r) (cr_received r);
            percent = min ((ucast lost :: u64) * 100 div ucast (cr_sent r)) 100
        in if unat percent < 2 ^ 8 then ucast percent else 100)"

text \<open>\<open>u16::try_from(size).unwrap_or(u16::MAX)\<close>\<close>

definition mtu_of :: "usize \<Rightarrow> u16" where
  "mtu_of sz = (if sz < 2 ^ 16 then of_nat sz else - 1)"

section \<open>The initiator\<close>

record probe_env =
  pe_transaction :: "transaction_id option"
  pe_millis :: u64
  pe_delivered :: bool
  pe_started :: duration

datatype arrival = Arrived bytes socket_addr duration

record round_env =
  re_probe :: "usize \<Rightarrow> probe_env"
  re_arrivals :: "arrival list"

record probe_state =
  ps_results :: "check_result list"
  ps_pending :: "(transaction_id \<times> usize \<times> duration) list"
  ps_sent :: "(socket_addr \<times> bytes) list"

definition set_result :: "usize \<Rightarrow> (check_result \<Rightarrow> check_result) \<Rightarrow> probe_state \<Rightarrow> probe_state" where
  "set_result i f s = s\<lparr>ps_results := (ps_results s)[i := f (ps_results s ! i)]\<rparr>"

definition probe_request :: "transfer_id \<Rightarrow> check_token \<Rightarrow> candidate_id \<Rightarrow> transaction_id \<Rightarrow> u64 \<Rightarrow> transfer_error + bytes" where
  "probe_request tid token cid xid millis = encode_message (Path (PathCheckRequest tid xid token cid millis)) 0 0"

definition send_probe ::
  "probe_config \<Rightarrow> transfer_id \<Rightarrow> check_token \<Rightarrow> (usize \<Rightarrow> probe_env) \<Rightarrow> usize \<times> socket_addr \<Rightarrow> (probe_state, probe_error, unit) st" where
  "send_probe c tid token env ia =
     (case ia of (i, address) \<Rightarrow>
       case pe_transaction (env i) of
         None \<Rightarrow> st_fail RandomnessUnavailable_PE
       | Some xid \<Rightarrow>
           st_bind (st_read (\<lambda>s. cd_id (cr_candidate (ps_results s ! i)))) (\<lambda>cid.
           st_bind (st_lift (map_err Protocol_PE (probe_request tid token cid xid (pe_millis (env i))))) (\<lambda>bytes.
           if length bytes > pc_max_datagram_size c then st_fail (InvalidConfig_PE ''encoded probe datagram'')
           else if \<not> pe_delivered (env i) then st_fail Io_PE
           else st_modify (\<lambda>s. set_result i (\<lambda>r. r\<lparr>cr_sent := saturating_add (cr_sent r) 1\<rparr>)
             (s\<lparr>ps_pending := AList.update xid (i, pe_started (env i)) (ps_pending s), ps_sent := ps_sent s @ [(address, bytes)]\<rparr>)))))"

definition response_transaction ::
  "decoded_message \<Rightarrow> (transaction_id \<times> usize \<times> duration) list \<Rightarrow> (transaction_id \<times> usize \<times> duration) option" where
  "response_transaction decoded pending =
     (case dm_message decoded of
        Path (PathCheckResponse _ xid _ _ _ _) \<Rightarrow> map_option (\<lambda>(i, started). (xid, i, started)) (map_of pending xid)
      | _ \<Rightarrow> None)"

text \<open>The measurement of one response: the least round-trip time, the address the peer saw, the size of the sample.\<close>

definition note_response :: "probe_config \<Rightarrow> u64 \<Rightarrow> socket_addr \<Rightarrow> check_result \<Rightarrow> check_result" where
  "note_response c rtt observed r =
     r\<lparr>cr_received := saturating_add (cr_received r) 1,
       cr_rtt_millis := Some (case cr_rtt_millis r of None \<Rightarrow> rtt | Some current \<Rightarrow> min current rtt),
       cr_observed_address := Some observed,
       cr_mtu := mtu_of (pc_mtu_sample_size c)\<rparr>"

definition receive_probe :: "probe_config \<Rightarrow> transfer_id \<Rightarrow> check_token \<Rightarrow> arrival \<Rightarrow> probe_state \<Rightarrow> probe_state" where
  "receive_probe c tid token a s =
     (case a of Arrived bytes source now \<Rightarrow>
       case decode_message (take (pc_max_datagram_size c) bytes) of
         Inl _ \<Rightarrow> s
       | Inr decoded \<Rightarrow>
           (case response_transaction decoded (ps_pending s) of
              None \<Rightarrow> s
            | Some (xid, i, started) \<Rightarrow>
                (case dm_message decoded of
                   Path (PathCheckResponse response_transfer _ response_token cid observed _) \<Rightarrow>
                     if response_transfer \<noteq> tid \<or> response_token \<noteq> token \<or> cid \<noteq> cd_id (cr_candidate (ps_results s ! i)) then s
                     else set_result i (note_response c (of_nat ((now - started) div 10 ^ 6)) observed)
                       (s\<lparr>ps_pending := AList.delete xid (ps_pending s)\<rparr>)
                 | _ \<Rightarrow> s)))"

fun receive_probes :: "probe_config \<Rightarrow> transfer_id \<Rightarrow> check_token \<Rightarrow> arrival list \<Rightarrow> probe_state \<Rightarrow> probe_state" where
  "receive_probes c tid token [] s = s"
| "receive_probes c tid token (a # as) s =
     (if ps_pending s = [] then s else receive_probes c tid token as (receive_probe c tid token a s))"

definition probe_round ::
  "probe_config \<Rightarrow> transfer_id \<Rightarrow> check_token \<Rightarrow> (usize \<times> socket_addr) list \<Rightarrow> round_env \<Rightarrow> (probe_state, probe_error, unit) st" where
  "probe_round c tid token usable env =
     st_then (st_modify (\<lambda>s. s\<lparr>ps_pending := []\<rparr>))
     (st_then (st_for usable (send_probe c tid token (re_probe env)))
     (st_modify (receive_probes c tid token (re_arrivals env))))"

definition blank_result :: "candidate \<Rightarrow> check_result" where
  "blank_result candidate = \<lparr>cr_candidate = candidate, cr_sent = 0, cr_received = 0, cr_rtt_millis = None, cr_mtu = 0,
     cr_observed_address = None\<rparr>"

definition usable_candidates :: "candidate list \<Rightarrow> (usize \<times> socket_addr) list" where
  "usable_candidates candidates =
     List.map_filter (\<lambda>(i, c). map_option (\<lambda>address. (i, address)) (cd_address c)) (enumerate 0 candidates)"

definition check_candidates ::
  "probe_config \<Rightarrow> transfer_id \<Rightarrow> check_token \<Rightarrow> candidate list \<Rightarrow> (usize \<Rightarrow> round_env) \<Rightarrow> (probe_error + check_result list) \<times> (socket_addr \<times> bytes) list" where
  "check_candidates c tid token candidates env =
     (case probe_config_validate c of
        Inl e \<Rightarrow> (Inl e, [])
      | Inr _ \<Rightarrow>
          if candidates = [] then (Inl NoCandidates, [])
          else if length candidates > pc_max_candidates c then (Inl (InvalidConfig_PE ''candidate count''), [])
          else if usable_candidates candidates = [] then (Inl NoCandidates, [])
          else
            (case st_for [0 ..< probe_rounds c] (\<lambda>round. probe_round c tid token (usable_candidates candidates) (env round))
                \<lparr>ps_results = map blank_result candidates, ps_pending = [], ps_sent = []\<rparr> of
               (Inl e, s) \<Rightarrow> (Inl e, ps_sent s)
             | (Inr _, s) \<Rightarrow> (Inr (ps_results s), ps_sent s)))"

text \<open>\<open>check\<close>: the same for one candidate.\<close>

definition check_one ::
  "probe_config \<Rightarrow> transfer_id \<Rightarrow> check_token \<Rightarrow> candidate \<Rightarrow> (usize \<Rightarrow> round_env) \<Rightarrow> (probe_error + check_result) \<times> (socket_addr \<times> bytes) list" where
  "check_one c tid token candidate env =
     (case check_candidates c tid token [candidate] env of
        (Inl e, out) \<Rightarrow> (Inl e, out)
      | (Inr results, out) \<Rightarrow> (if results = [] then Inl NoCandidates else Inr (last results), out))"

section \<open>The responder\<close>

text \<open>The datagram is \<open>None\<close> when the socket fails. The clock is read up to three times: for the permission, for the error, for the response.\<close>

definition respond_once ::
  "probe_config \<Rightarrow> check_authorization \<Rightarrow> (bytes \<times> socket_addr) option \<Rightarrow> u64 \<Rightarrow> u64 \<Rightarrow> u64 \<Rightarrow> bool
     \<Rightarrow> (probe_error + check_result) \<times> (socket_addr \<times> bytes) list" where
  "respond_once c authorization datagram now1 now2 now3 delivered =
     (case datagram of
        None \<Rightarrow> (Inl Io_PE, [])
      | Some (bytes, source) \<Rightarrow>
          (case decode_message (take (pc_max_datagram_size c) bytes) of
             Inl e \<Rightarrow> (Inl (Protocol_PE e), [])
           | Inr decoded \<Rightarrow>
               (case dm_message decoded of
                  Path (PathCheckRequest tid xid token cid _) \<Rightarrow>
                    if tid \<noteq> ca_transfer_id authorization \<or> token \<noteq> ca_check_token authorization \<or> \<not> permits authorization cid source now1 then
                      (Inl (if authorization_expired authorization now2 then AuthorizationExpired else UnauthorizedCheck), [])
                    else
                      (case encode_message (Path (PathCheckResponse tid xid token cid source now3)) 0 RESPONSE of
                         Inl e \<Rightarrow> (Inl (Protocol_PE e), [])
                       | Inr response \<Rightarrow>
                           if \<not> delivered then (Inl Io_PE, [])
                           else
                             (Inr \<lparr>cr_candidate = \<lparr>cd_id = cid, cd_kind = PeerReflexive, cd_address = Some source, cd_priority = 0,
                                 cd_interface_index = None\<rparr>,
                               cr_sent = 1, cr_received = 1, cr_rtt_millis = None, cr_mtu = mtu_of (pc_mtu_sample_size c),
                               cr_observed_address = Some source\<rparr>, [(source, response)]))
                | _ \<Rightarrow> (Inl UnauthorizedCheck, []))))"

section \<open>The counters\<close>

definition pending_for :: "usize \<Rightarrow> probe_state \<Rightarrow> nat" where
  "pending_for i s = length (filter (\<lambda>(x, j, t). j = i) (ps_pending s))"

text \<open>A result after any number of steps; \<open>answered\<close> says whether a response may have been counted, \<open>n\<close> how many requests are open.\<close>

definition result_ok :: "probe_config \<Rightarrow> candidate \<Rightarrow> bool \<Rightarrow> nat \<Rightarrow> check_result \<Rightarrow> bool" where
  "result_ok c candidate answered n r \<longleftrightarrow>
     cr_candidate r = candidate \<and> (unat (cr_received r) + n \<le> unat (cr_sent r) \<or> cr_sent r = - 1)
     \<and> (if cr_received r = 0 then cr_rtt_millis r = None \<and> cr_mtu r = 0 \<and> cr_observed_address r = None
        else answered \<and> cr_rtt_millis r \<noteq> None \<and> cr_mtu r = mtu_of (pc_mtu_sample_size c) \<and> cr_observed_address r \<noteq> None)"

definition probe_inv :: "probe_config \<Rightarrow> candidate list \<Rightarrow> (usize \<Rightarrow> transaction_id option) \<Rightarrow> (usize \<Rightarrow> bool) \<Rightarrow> probe_state \<Rightarrow> bool" where
  "probe_inv c candidates transaction answered s \<longleftrightarrow>
     length (ps_results s) = length candidates
     \<and> (\<forall>(x, i, t) \<in> set (ps_pending s). transaction i = Some x \<and> i < length candidates)
     \<and> (\<forall>i < length candidates. result_ok c (candidates ! i) (answered i) (pending_for i s) (ps_results s ! i))"

definition transaction_of :: "(usize \<Rightarrow> probe_env) \<Rightarrow> usize \<Rightarrow> transaction_id option" where
  "transaction_of env i = pe_transaction (env i)"

lemma result_ok_mono: "result_ok c candidate answered n r \<Longrightarrow> m \<le> n \<Longrightarrow> result_ok c candidate answered m r"
  by (auto simp: result_ok_def split: if_splits)

lemma max_word_u32: "unat (- 1 :: u32) = 2 ^ 32 - 1"
  by (simp add: unat_max_word)

lemma saturating_succ_u32: "unat (saturating_add v 1 :: u32) = (if v = - 1 then unat v else unat v + 1)"
proof -
  have "v \<noteq> - 1 \<Longrightarrow> unat v \<noteq> 2 ^ 32 - 1"
    using max_word_u32 by (metis word_unat_eq_iff)
  with unat_le_max [of v] show ?thesis
    by (auto simp: unat_saturating_add max_word_u32)
qed

lemma saturated_stays: "saturating_add (- 1) 1 = (- 1 :: u32)"
  by (simp add: word_unat_eq_iff saturating_succ_u32)

lemma result_ok_sent:
  assumes "result_ok c candidate answered n r" "m \<le> n + 1"
  shows "result_ok c candidate answered m (r\<lparr>cr_sent := saturating_add (cr_sent r) 1\<rparr>)"
  using assms by (cases "cr_sent r = - 1") (auto simp: result_ok_def saturating_succ_u32 saturated_stays split: if_splits)

lemma result_ok_received:
  assumes "result_ok c candidate answered n r" "m + 1 \<le> n" "answered"
  shows "result_ok c candidate answered m (note_response c rtt observed r)"
proof -
  have "saturating_add (cr_received r) 1 \<noteq> 0"
    by (auto simp: word_unat_eq_iff saturating_succ_u32 max_word_u32)
  moreover have "unat (saturating_add (cr_received r) 1) \<le> unat (cr_received r) + 1"
    by (simp add: saturating_succ_u32)
  ultimately show ?thesis
    using assms by (auto simp: result_ok_def note_response_def)
qed

lemma pending_update_other: "j \<noteq> i \<Longrightarrow> length (filter (\<lambda>(x, k, t). k = j) (AList.update xid (i, t0) ps)) \<le> length (filter (\<lambda>(x, k, t). k = j) ps)"
  by (induction ps) auto

lemma pending_update_this: "length (filter (\<lambda>(x, k, t). k = i) (AList.update xid (i, t0) ps)) \<le> length (filter (\<lambda>(x, k, t). k = i) ps) + 1"
  by (induction ps) auto

lemma set_alist_update: "set (AList.update k v ps) \<subseteq> insert (k, v) (set ps)"
  by (induction ps) auto

lemma pending_delete_any: "length (filter P (AList.delete xid ps)) \<le> length (filter P ps)"
  by (induction ps) auto

lemma pending_delete_this:
  "map_of ps xid = Some (i, t0) \<Longrightarrow>
     length (filter (\<lambda>(x, k, t). k = i) (AList.delete xid ps)) + 1 \<le> length (filter (\<lambda>(x, k, t). k = i) ps)"
  by (induction ps) (auto split: if_splits intro: pending_delete_any le_SucI)

lemma set_alist_delete: "set (AList.delete k ps) \<subseteq> set ps"
  by (induction ps) auto

text \<open>One request: the counter goes up by one unless the call fails, and then nothing changes.\<close>

lemma send_probe_run:
  "send_probe c tid token env (i, address) s =
     (case pe_transaction (env i) of
        None \<Rightarrow> (Inl RandomnessUnavailable_PE, s)
      | Some xid \<Rightarrow>
          (case probe_request tid token (cd_id (cr_candidate (ps_results s ! i))) xid (pe_millis (env i)) of
             Inl e \<Rightarrow> (Inl (Protocol_PE e), s)
           | Inr bytes \<Rightarrow>
               if length bytes > pc_max_datagram_size c then (Inl (InvalidConfig_PE ''encoded probe datagram''), s)
               else if \<not> pe_delivered (env i) then (Inl Io_PE, s)
               else (Inr (), set_result i (\<lambda>r. r\<lparr>cr_sent := saturating_add (cr_sent r) 1\<rparr>)
                 (s\<lparr>ps_pending := AList.update xid (i, pe_started (env i)) (ps_pending s), ps_sent := ps_sent s @ [(address, bytes)]\<rparr>))))"
  by (simp add: send_probe_def map_err_def split: option.splits sum.splits)

lemma send_probe_keeps:
  assumes "i < length candidates"
  shows "keeps (probe_inv c candidates (transaction_of env) answered) (send_probe c tid token env (i, address))"
proof (rule keepsI)
  fix s
  let ?I = "probe_inv c candidates (transaction_of env) answered"
  assume I: "?I s"
  have "?I (set_result i (\<lambda>r. r\<lparr>cr_sent := saturating_add (cr_sent r) 1\<rparr>)
      (s\<lparr>ps_pending := AList.update xid (i, pe_started (env i)) (ps_pending s), ps_sent := sent\<rparr>))"
    if x: "pe_transaction (env i) = Some xid" for xid sent
  proof -
    have "result_ok c (candidates ! j) (answered j) (length (filter (\<lambda>(x, k, t). k = j) (AList.update xid (i, pe_started (env i)) (ps_pending s))))
        ((ps_results s)[i := (ps_results s ! i)\<lparr>cr_sent := saturating_add (cr_sent (ps_results s ! i)) 1\<rparr>] ! j)"
      if j: "j < length candidates" for j
    proof (cases "j = i")
      case True
      then show ?thesis
        using I j pending_update_this by (auto simp: probe_inv_def pending_for_def intro!: result_ok_sent)
    next
      case False
      then show ?thesis
        using I j by (auto simp: probe_inv_def pending_for_def intro!: result_ok_mono [OF _ pending_update_other [OF False]])
    qed
    then show ?thesis
      using I assms x set_alist_update [of xid "(i, pe_started (env i))" "ps_pending s"]
      by (fastforce simp: probe_inv_def set_result_def pending_for_def transaction_of_def)
  qed
  then show "?I (snd (send_probe c tid token env (i, address) s))"
    using I by (auto simp: send_probe_run split: option.splits sum.splits)
qed

text \<open>A response that answers the request of one round for the candidate at an index: one of the datagrams of the round is a response of
  this check to the transaction of that request, naming the candidate.\<close>

definition answers :: "probe_config \<Rightarrow> transfer_id \<Rightarrow> check_token \<Rightarrow> candidate list \<Rightarrow> round_env \<Rightarrow> usize \<Rightarrow> bool" where
  "answers c tid token candidates env i \<longleftrightarrow>
     (\<exists>bytes source now d xid observed millis.
        Arrived bytes source now \<in> set (re_arrivals env)
        \<and> decode_message (take (pc_max_datagram_size c) bytes) = Inr d
        \<and> dm_message d = Path (PathCheckResponse tid xid token (cd_id (candidates ! i)) observed millis)
        \<and> pe_transaction (re_probe env i) = Some xid)"

text \<open>Either a datagram changes nothing, or it is the response to an open request and settles it.\<close>

lemma receive_probe_counted:
  assumes "receive_probe c tid token (Arrived bytes source now) s \<noteq> s"
  shows "\<exists>d xid i started observed millis. decode_message (take (pc_max_datagram_size c) bytes) = Inr d
    \<and> dm_message d = Path (PathCheckResponse tid xid token (cd_id (cr_candidate (ps_results s ! i))) observed millis)
    \<and> map_of (ps_pending s) xid = Some (i, started)
    \<and> receive_probe c tid token (Arrived bytes source now) s =
       set_result i (note_response c (of_nat ((now - started) div 10 ^ 6)) observed) (s\<lparr>ps_pending := AList.delete xid (ps_pending s)\<rparr>)"
  using assms
  by (auto simp: receive_probe_def response_transaction_def split: sum.splits option.splits message.splits path_check.splits if_splits)

lemma receive_probe_keeps:
  assumes I: "probe_inv c candidates (transaction_of (re_probe env)) answered s"
    and a: "a \<in> set (re_arrivals env)" "\<And>i. answers c tid token candidates env i \<Longrightarrow> answered i"
  shows "probe_inv c candidates (transaction_of (re_probe env)) answered (receive_probe c tid token a s)"
proof (cases a)
  case (Arrived bytes source now)
  show ?thesis
  proof (cases "receive_probe c tid token a s = s")
    case True
    then show ?thesis using I by simp
  next
    case False
    then obtain d xid i started observed millis where counted:
        "decode_message (take (pc_max_datagram_size c) bytes) = Inr d"
        "dm_message d = Path (PathCheckResponse tid xid token (cd_id (cr_candidate (ps_results s ! i))) observed millis)"
        "map_of (ps_pending s) xid = Some (i, started)"
        "receive_probe c tid token a s =
           set_result i (note_response c (of_nat ((now - started) div 10 ^ 6)) observed) (s\<lparr>ps_pending := AList.delete xid (ps_pending s)\<rparr>)"
      unfolding Arrived using receive_probe_counted by blast
    have i: "i < length candidates" "pe_transaction (re_probe env i) = Some xid"
      using I map_of_SomeD [OF counted(3)] by (auto simp: probe_inv_def transaction_of_def)
    have "cr_candidate (ps_results s ! i) = candidates ! i"
      using I i by (simp add: probe_inv_def result_ok_def)
    then have answered: "answered i"
      using counted(1,2) a(1) i(2) unfolding Arrived by (intro a(2)) (auto simp: answers_def)
    have "result_ok c (candidates ! j) (answered j) (length (filter (\<lambda>(x, k, t). k = j) (AList.delete xid (ps_pending s))))
        ((ps_results s)[i := note_response c rtt observed (ps_results s ! i)] ! j)" if j: "j < length candidates" for j rtt
    proof (cases "j = i")
      case True
      then show ?thesis
        using I j answered pending_delete_this [OF counted(3)]
        by (auto simp: probe_inv_def pending_for_def intro!: result_ok_received)
    next
      case False
      then show ?thesis
        using I j by (auto simp: probe_inv_def pending_for_def intro!: result_ok_mono [OF _ pending_delete_any])
    qed
    then show ?thesis
      unfolding counted(4) using I set_alist_delete [of xid "ps_pending s"]
      by (fastforce simp: probe_inv_def set_result_def pending_for_def transaction_of_def)
  qed
qed

lemma receive_probes_keeps:
  assumes "probe_inv c candidates (transaction_of (re_probe env)) answered s"
    and "set as \<subseteq> set (re_arrivals env)" "\<And>i. answers c tid token candidates env i \<Longrightarrow> answered i"
  shows "probe_inv c candidates (transaction_of (re_probe env)) answered (receive_probes c tid token as s)"
  using assms(1,2)
proof (induction as arbitrary: s)
  case (Cons a as)
  then have "probe_inv c candidates (transaction_of (re_probe env)) answered (receive_probe c tid token a s)"
    by (intro receive_probe_keeps assms(3)) simp_all
  then show ?case
    using Cons.prems Cons.IH by simp
qed simp

lemma usable_index: "(i, address) \<in> set (usable_candidates candidates) \<longleftrightarrow> i < length candidates \<and> cd_address (candidates ! i) = Some address"
  by (auto simp: usable_candidates_def List.map_filter_def in_set_enumerate_eq image_iff intro: bexI [of _ "(i, candidates ! i)"])

lemma keeps_for_in: "(\<And>x. x \<in> set xs \<Longrightarrow> keeps I (f x)) \<Longrightarrow> keeps I (st_for xs f)"
  by (induction xs) (simp_all add: keeps_then)

lemma probe_round_keeps:
  assumes I: "probe_inv c candidates transaction answered s"
    and answered: "\<And>i. answers c tid token candidates env i \<Longrightarrow> answered i"
  shows "probe_inv c candidates (transaction_of (re_probe env)) answered
    (snd (probe_round c tid token (usable_candidates candidates) env s))"
proof -
  let ?I = "probe_inv c candidates (transaction_of (re_probe env)) answered"
  have "?I (s\<lparr>ps_pending := []\<rparr>)"
    using I by (auto simp: probe_inv_def pending_for_def intro: result_ok_mono)
  moreover have "keeps ?I (st_then (st_for (usable_candidates candidates) (send_probe c tid token (re_probe env)))
      (st_modify (receive_probes c tid token (re_arrivals env))))"
    by (intro keeps_then keeps_for_in keeps_modify)
      (auto simp: usable_index intro: send_probe_keeps receive_probes_keeps answered)
  ultimately show ?thesis
    unfolding probe_round_def st_then_simps(1) by (rule keepsD [rotated])
qed

section \<open>How many requests are sent\<close>

definition sents :: "probe_state \<Rightarrow> u32 list" where
  "sents s = map cr_sent (ps_results s)"

lemma send_probe_sents:
  "send_probe c tid token env (i, address) s = (Inr (), s') \<Longrightarrow> sents s' = (sents s)[i := saturating_add (sents s ! i) 1]"
  by (cases "i < length (ps_results s)")
    (auto simp: send_probe_run set_result_def sents_def map_update list_update_beyond split: option.splits sum.splits if_splits)

lemma map_update_same: "f y = f (xs ! i) \<Longrightarrow> map f (xs[i := y]) = map f xs"
  by (cases "i < length xs") (simp_all add: map_update list_update_beyond list_update_same_conv)

lemma receive_probe_sents: "sents (receive_probe c tid token a s) = sents s"
proof (cases a)
  case (Arrived bytes source now)
  show ?thesis
    using receive_probe_counted [of c tid token bytes source now s] unfolding Arrived
    by (cases "receive_probe c tid token (Arrived bytes source now) s = s")
      (auto simp: set_result_def sents_def note_response_def map_update_same simp del: map_update)
qed

lemma receive_probes_sents: "sents (receive_probes c tid token as s) = sents s"
  by (induction as arbitrary: s) (simp_all add: receive_probe_sents)

lemma send_probes_sents:
  assumes "st_for usable (send_probe c tid token env) s = (Inr (), s')"
    and "distinct (map fst usable)" "fst ` set usable \<subseteq> {..< length (sents s)}"
  shows "length (sents s') = length (sents s)
    \<and> (\<forall>j. sents s' ! j = (if j \<in> fst ` set usable then saturating_add (sents s ! j) 1 else sents s ! j))"
  using assms
proof (induction usable arbitrary: s)
  case (Cons ia usable)
  obtain i address where ia: "ia = (i, address)" by (cases ia)
  from Cons.prems(1) obtain s1 where s1: "send_probe c tid token env (i, address) s = (Inr (), s1)"
    and rest: "st_for usable (send_probe c tid token env) s1 = (Inr (), s')"
    by (auto simp: ia st_then_def st_bind_eq_Inr)
  have sents: "sents s1 = (sents s)[i := saturating_add (sents s ! i) 1]"
    using send_probe_sents [OF s1] .
  have "length (sents s') = length (sents s1)
      \<and> (\<forall>j. sents s' ! j = (if j \<in> fst ` set usable then saturating_add (sents s1 ! j) 1 else sents s1 ! j))"
    using Cons.prems ia by (intro Cons.IH rest) (auto simp: sents)
  moreover have "i \<notin> fst ` set usable" "i < length (sents s)"
    using Cons.prems(2,3) by (auto simp: ia image_iff)
  ultimately show ?case
    by (auto simp: sents ia nth_list_update)
qed simp

lemma distinct_usable: "distinct (map fst (usable_candidates candidates))"
proof -
  have "map fst (List.map_filter (\<lambda>(i, c). map_option (\<lambda>address. (i, address)) (cd_address c)) ics)
      = map fst (filter (\<lambda>(i, c). cd_address c \<noteq> None) ics)" for ics :: "(nat \<times> candidate) list"
    by (induction ics) (auto simp: List.map_filter_def)
  then show ?thesis
    by (simp add: usable_candidates_def distinct_map_filter)
qed

lemma probe_rounds_sents:
  assumes "st_for rounds (\<lambda>round. probe_round c tid token (usable_candidates candidates) (env round)) s = (Inr (), s')"
    and "length (sents s) = length candidates"
  shows "length (sents s') = length candidates
    \<and> (\<forall>j < length candidates. unat (sents s' ! j) =
         (if cd_address (candidates ! j) = None then unat (sents s ! j) else min (unat (sents s ! j) + length rounds) (2 ^ 32 - 1)))"
  using assms
proof (induction rounds arbitrary: s)
  case Nil
  then show ?case using unat_le_max [of "sents s ! j" for j] by auto
next
  case (Cons k rounds)
  from Cons.prems(1) obtain s1 s2 where
      s1: "st_for (usable_candidates candidates) (send_probe c tid token (re_probe (env k))) (s\<lparr>ps_pending := []\<rparr>) = (Inr (), s1)"
    and s2: "s2 = receive_probes c tid token (re_arrivals (env k)) s1"
    and rest: "st_for rounds (\<lambda>round. probe_round c tid token (usable_candidates candidates) (env round)) s2 = (Inr (), s')"
    unfolding probe_round_def st_for.simps st_then_def st_bind_eq_Inr by force
  have start: "sents (s\<lparr>ps_pending := []\<rparr>) = sents s"
    by (simp add: sents_def)
  have "fst ` set (usable_candidates candidates) \<subseteq> {..< length (sents s)}"
    using Cons.prems(2) by (auto simp: usable_index)
  then have one: "length (sents s2) = length candidates
      \<and> (\<forall>j. sents s2 ! j = (if j \<in> fst ` set (usable_candidates candidates) then saturating_add (sents s ! j) 1 else sents s ! j))"
    using send_probes_sents [OF s1 distinct_usable] Cons.prems(2) unfolding s2 receive_probes_sents start by simp
  have "j \<in> fst ` set (usable_candidates candidates) \<longleftrightarrow> cd_address (candidates ! j) \<noteq> None" if "j < length candidates" for j
    using that by (auto simp: usable_index intro!: image_eqI [of _ fst "(j, the (cd_address (candidates ! j)))"])
  with one Cons.IH [OF rest] show ?case
    by (auto simp: unat_saturating_add)
qed

section \<open>Properties\<close>

lemma unat_loss_percent:
  "cr_sent r \<noteq> 0 \<Longrightarrow> unat (loss_percent r) = (unat (cr_sent r) - unat (cr_received r)) * 100 div unat (cr_sent r)"
proof -
  assume sent: "cr_sent r \<noteq> 0"
  let ?lost = "saturating_sub (cr_sent r) (cr_received r)"
  have lost: "unat ?lost \<le> unat (cr_sent r)" and pos: "0 < unat (cr_sent r)"
    using sent by (simp_all add: unat_saturating_sub unat_gt_0)
  have wide: "unat (ucast v :: u64) = unat v" for v :: u32
    using unat_le_max [of v] by (simp add: unat_ucast_mod)
  have "unat ((ucast ?lost :: u64) * 100) = unat ?lost * 100"
    using unat_le_max [of ?lost] by (simp add: unat_word_ariths wide)
  then have percent: "unat ((ucast ?lost :: u64) * 100 div ucast (cr_sent r)) = unat ?lost * 100 div unat (cr_sent r)"
    by (simp add: unat_div_distrib wide)
  have "unat ?lost * 100 div unat (cr_sent r) \<le> 100"
    using div_le_mono [OF mult_le_mono1 [OF lost, of 100], of "unat (cr_sent r)"] pos by simp
  then show ?thesis
    using sent percent by (simp add: loss_percent_def Let_def unat_min unat_ucast_mod unat_saturating_sub min_def word_le_nat_alt)
qed

lemma check_candidates_ok:
  assumes "check_candidates c tid token candidates env = (Inr results, out)"
  obtains s where "st_for [0 ..< probe_rounds c] (\<lambda>round. probe_round c tid token (usable_candidates candidates) (env round))
      \<lparr>ps_results = map blank_result candidates, ps_pending = [], ps_sent = []\<rparr> = (Inr (), s)"
    "results = ps_results s" "probe_config_validate c = Inr ()" "candidates \<noteq> []" "length candidates \<le> pc_max_candidates c"
  using assms by (fastforce simp: check_candidates_def split: sum.splits if_splits prod.splits)

lemma probe_rounds_keeps:
  assumes "probe_inv c candidates transaction answered s"
    and "\<And>i k. k \<in> set rounds \<Longrightarrow> answers c tid token candidates (env k) i \<Longrightarrow> answered i"
  shows "\<exists>transaction. probe_inv c candidates transaction answered
    (snd (st_for rounds (\<lambda>round. probe_round c tid token (usable_candidates candidates) (env round)) s))"
  using assms
proof (induction rounds arbitrary: s transaction)
  case (Cons k rounds)
  let ?m = "probe_round c tid token (usable_candidates candidates) (env k)"
  have I: "probe_inv c candidates (transaction_of (re_probe (env k))) answered (snd (?m s))"
    using Cons.prems by (intro probe_round_keeps) auto
  show ?case
  proof (cases "?m s")
    case (Pair r s1)
    then show ?thesis
      using I Cons.IH [of _ s1] Cons.prems(2) by (cases r) (auto simp: st_then_def st_bind_def)
  qed
qed auto

text \<open>C34: When a check of candidates returns, there is one result per candidate, in their order. A candidate without an address got no
  request, every other one a request in each round (up to the range of the counter). No more responses are counted than requests were
  sent, and a response is counted only if in one of the rounds a datagram arrived that answers the request of that round for that
  candidate, with the transfer and the token of the check; then the result has a round-trip time and the sampled MTU.\<close>

theorem check_results_sound:
  assumes "check_candidates c tid token candidates env = (Inr results, out)"
  shows "map cr_candidate results = candidates
    \<and> (\<forall>i < length candidates. let r = results ! i in
         unat (cr_sent r) = (if cd_address (candidates ! i) = None then 0 else min (probe_rounds c) (2 ^ 32 - 1))
         \<and> cr_received r \<le> cr_sent r
         \<and> (if succeeded r
            then (\<exists>k < probe_rounds c. answers c tid token candidates (env k) i) \<and> cr_rtt_millis r \<noteq> None
              \<and> cr_mtu r = mtu_of (pc_mtu_sample_size c)
            else cr_rtt_millis r = None \<and> cr_mtu r = 0))"
proof -
  let ?s0 = "\<lparr>ps_results = map blank_result candidates, ps_pending = [], ps_sent = []\<rparr>"
  let ?answered = "\<lambda>i. \<exists>k < probe_rounds c. answers c tid token candidates (env k) i"
  from assms obtain s where run: "st_for [0 ..< probe_rounds c] (\<lambda>round. probe_round c tid token (usable_candidates candidates) (env round))
      ?s0 = (Inr (), s)" and results: "results = ps_results s"
    by (rule check_candidates_ok)
  have "probe_inv c candidates (\<lambda>_. None) ?answered ?s0"
    by (simp add: probe_inv_def result_ok_def pending_for_def blank_result_def)
  then obtain transaction where inv: "probe_inv c candidates transaction ?answered s"
    using probe_rounds_keeps [of c candidates "\<lambda>_. None" ?answered ?s0 "[0 ..< probe_rounds c]" tid token env] run by auto
  have "length (sents s) = length candidates \<and> (\<forall>j < length candidates. unat (sents s ! j) =
      (if cd_address (candidates ! j) = None then unat (sents ?s0 ! j) else min (unat (sents ?s0 ! j) + length [0 ..< probe_rounds c]) (2 ^ 32 - 1)))"
    by (rule probe_rounds_sents [OF run]) (simp add: sents_def)
  then have sent: "unat (cr_sent (results ! j)) = (if cd_address (candidates ! j) = None then 0 else min (probe_rounds c) (2 ^ 32 - 1))"
    if "j < length candidates" for j
    using that by (auto simp: sents_def results blank_result_def)
  have ok: "result_ok c (candidates ! i) (?answered i) (pending_for i s) (results ! i)" if "i < length candidates" for i
    using inv that by (simp add: probe_inv_def results)
  have len: "length results = length candidates"
    using inv by (simp add: probe_inv_def results)
  have "cr_received (results ! i) \<le> cr_sent (results ! i)" if "i < length candidates" for i
    using ok [OF that] unat_le_max [of "cr_received (results ! i)"] by (auto simp: result_ok_def word_le_nat_alt max_word_u32)
  moreover have "map cr_candidate results = candidates"
    using ok len by (intro nth_equalityI) (simp_all add: result_ok_def)
  ultimately show ?thesis
    using sent ok by (auto simp: Let_def result_ok_def succeeded_def word_gt_0 split: if_splits)
qed

section \<open>A request and its answer\<close>

lemma CHECK_TOKEN_LEN_32: "CHECK_TOKEN_LEN = 32"
  by (simp add: CHECK_TOKEN_LEN_def)

text \<open>What \<open>encode_message\<close> gives for a body that fits.\<close>

lemma encode_message_run:
  assumes "message_validate m = Inr ()" "encode_body codec_limits_default m [] = Inr body"
    and "length body \<le> 200" "message_type_of m \<noteq> ManifestItem_MT"
  shows "\<exists>bs. encode_message m request_id flags = Inr bs \<and> length bs = 16 + length body"
  using assms
  by (simp add: encode_message_def encode_message_with_limits_def default_limits checked_add_usize_def usize_limit_def ENVELOPE_LEN_def
      del: to_be_bytes.simps)

lemma encode_path_length:
  assumes "valid_path p"
  shows "\<exists>body. encode_path p [] = Inr body \<and> length body \<le> 115"
proof (cases p)
  case (PathCheckResponse tid xid token cid observed millis)
  then show ?thesis
    using assms by (cases observed) (simp_all add: wr_fixed_def wr_u8_def wr_u16_def wr_u32_def wr_u64_def wr_id_def valid_id_def ID_LEN_def CHECK_TOKEN_LEN_32
      del: to_be_bytes.simps)
qed (use assms in \<open>simp add: wr_fixed_def wr_u64_def wr_id_def valid_id_def ID_LEN_def CHECK_TOKEN_LEN_32 del: to_be_bytes.simps\<close>)

lemma path_message_travels:
  assumes "valid_path p" "path_validate p = Inr ()" "flags AND NOT MAX_MESSAGE_FLAGS = 0"
  shows "\<exists>bs. encode_message (Path p) 0 flags = Inr bs \<and> length bs \<le> 131 \<and> (\<exists>d. decode_message bs = Inr d \<and> dm_message d = Path p)"
proof -
  obtain body where body: "encode_path p [] = Inr body" "length body \<le> 115"
    using encode_path_length [OF assms(1)] by blast
  have "\<exists>bs. encode_message (Path p) 0 flags = Inr bs \<and> length bs = 16 + length body"
    using body assms(2) by (intro encode_message_run) (auto split: path_check.splits simp: path_type.simps elim: path_type.elims)
  then obtain bs where bs: "encode_message (Path p) 0 flags = Inr bs" "length bs \<le> 131"
    using body(2) by auto
  then show ?thesis
    using decode_encoded [of "Path p" flags 0 codec_limits_default bs] assms(1,3)
    by (auto simp: encode_message_def decode_message_def)
qed

lemma permitted_source_usable: "permits a cid source now \<Longrightarrow> \<not> unusable_addr source"
  by (simp add: permits_def unusable_addr_def)

lemma take_whole: "length xs \<le> n \<Longrightarrow> take n xs = xs"
  by simp

text \<open>A datagram is answered only when it is a request that the authorisation permits; the answer goes to where it came from.\<close>

lemma answer_only_permitted:
  assumes "snd (respond_once c authorization datagram now1 now2 now3 delivered) \<noteq> []"
  shows "\<exists>bytes source d xid cid millis response. datagram = Some (bytes, source)
    \<and> decode_message (take (pc_max_datagram_size c) bytes) = Inr d
    \<and> dm_message d = Path (PathCheckRequest (ca_transfer_id authorization) xid (ca_check_token authorization) cid millis)
    \<and> permits authorization cid source now1
    \<and> snd (respond_once c authorization datagram now1 now2 now3 delivered) = [(source, response)]"
  using assms
  by (auto simp: respond_once_def split: option.splits sum.splits message.splits path_check.splits if_splits)

text \<open>C33: A request of the initiator that reaches a responder which has authorised the check is answered, and the answer, when it comes back
  before the deadline, is counted for the candidate: the request is settled, and the round-trip time and the address that the responder
  saw are noted. The buffers of both ends hold the 131 bytes that a response can have.\<close>

theorem probe_answered:
  assumes "131 \<le> pc_max_datagram_size c" "131 \<le> pc_max_datagram_size c'"
    and "valid_path (PathCheckRequest tid xid token cid millis)" "valid_addr source"
    and "ca_transfer_id authorization = tid" "ca_check_token authorization = token" "permits authorization cid source now1"
    and "map_of (ps_pending s) xid = Some (i, started)" "cd_id (cr_candidate (ps_results s ! i)) = cid"
  shows "\<exists>request response r.
    probe_request tid token cid xid millis = Inr request
    \<and> respond_once c' authorization (Some (request, source)) now1 now2 now3 True = (Inr r, [(source, response)])
    \<and> receive_probe c tid token (Arrived response sender now) s =
        set_result i (note_response c (of_nat ((now - started) div 10 ^ 6)) source) (s\<lparr>ps_pending := AList.delete xid (ps_pending s)\<rparr>)"
proof -
  let ?q = "PathCheckRequest tid xid token cid millis" and ?a = "PathCheckResponse tid xid token cid source now3"
  obtain request d where request: "encode_message (Path ?q) 0 0 = Inr request" "length request \<le> 131"
      "decode_message request = Inr d" "dm_message d = Path ?q"
    using path_message_travels [OF assms(3) _ known_flags(2)] by auto
  have "valid_path ?a" "path_validate ?a = Inr ()"
    using assms(3,4) permitted_source_usable [OF assms(7)] by simp_all
  then obtain response e where response: "encode_message (Path ?a) 0 RESPONSE = Inr response" "length response \<le> 131"
      "decode_message response = Inr e" "dm_message e = Path ?a"
    using path_message_travels [OF _ _ known_flags(1)] by blast
  have "respond_once c' authorization (Some (request, source)) now1 now2 now3 True
      = (Inr \<lparr>cr_candidate = \<lparr>cd_id = cid, cd_kind = PeerReflexive, cd_address = Some source, cd_priority = 0, cd_interface_index = None\<rparr>,
          cr_sent = 1, cr_received = 1, cr_rtt_millis = None, cr_mtu = mtu_of (pc_mtu_sample_size c'), cr_observed_address = Some source\<rparr>,
        [(source, response)])"
    using request response assms by (simp add: respond_once_def take_whole)
  moreover have "receive_probe c tid token (Arrived response sender now) s =
      set_result i (note_response c (of_nat ((now - started) div 10 ^ 6)) source) (s\<lparr>ps_pending := AList.delete xid (ps_pending s)\<rparr>)"
    using response assms by (simp add: receive_probe_def response_transaction_def take_whole)
  ultimately show ?thesis
    using request by (auto simp: probe_request_def)
qed

section \<open>A sample check\<close>

definition sample_candidate :: candidate where
  "sample_candidate = \<lparr>cd_id = replicate 16 7, cd_kind = Host_CK, cd_address = Some (V4 [192, 0, 2, 1] 4000), cd_priority = 100,
     cd_interface_index = None\<rparr>"

definition sample_probe_config :: probe_config where
  "sample_probe_config = probe_config_default\<lparr>pc_retries := 0, pc_samples := 1\<rparr>"

definition sample_authorization :: check_authorization where
  "sample_authorization = \<lparr>ca_transfer_id = replicate 16 8, ca_check_token = replicate 32 9, ca_expires_at_millis = 1000,
     ca_candidates = [(replicate 16 7, V4 [192, 0, 2, 1] 4000)]\<rparr>"

definition sample_probe_state :: probe_state where
  "sample_probe_state = \<lparr>ps_results = [(blank_result sample_candidate)\<lparr>cr_sent := 1\<rparr>], ps_pending = [(replicate 16 1, 0, 2000000)], ps_sent = []\<rparr>"

lemmas sample_probe = sample_candidate_def sample_probe_config_def sample_authorization_def sample_probe_state_def probe_config_default_def
  blank_result_def DEFAULT_PROBE_TIMEOUT_def DEFAULT_PROBE_RETRIES_def DEFAULT_SAMPLE_COUNT_def DEFAULT_MTU_SAMPLE_def MAX_PROBE_DATAGRAM_def

lemma sample_authorization_made:
  "check_authorization_new (replicate 16 8) (replicate 32 9) 1000 [sample_candidate] = Inr sample_authorization"
  by (simp add: check_authorization_new_def sample_probe is_unspecified_def)

lemma probe_answered_witness:
  "\<exists>request response r.
     probe_request (replicate 16 8) (replicate 32 9) (replicate 16 7) (replicate 16 1) 5 = Inr request
     \<and> respond_once sample_probe_config sample_authorization (Some (request, V4 [192, 0, 2, 9] 5000)) 999 999 999 True
        = (Inr r, [(V4 [192, 0, 2, 9] 5000, response)])
     \<and> ps_results (receive_probe sample_probe_config (replicate 16 8) (replicate 32 9) (Arrived response (V4 [192, 0, 2, 1] 4000) 5000000) sample_probe_state)
        = [(blank_result sample_candidate)\<lparr>cr_sent := 1, cr_received := 1, cr_rtt_millis := Some 3, cr_mtu := 1200,
            cr_observed_address := Some (V4 [192, 0, 2, 9] 5000)\<rparr>]"
proof -
  have "permits sample_authorization (replicate 16 7) (V4 [192, 0, 2, 9] 5000) 999"
    by (simp add: permits_def authorization_expired_def sample_probe is_unspecified_def in_range_def)
  then obtain request response r where "probe_request (replicate 16 8) (replicate 32 9) (replicate 16 7) (replicate 16 1) 5 = Inr request"
      and "respond_once sample_probe_config sample_authorization (Some (request, V4 [192, 0, 2, 9] 5000)) 999 999 999 True
        = (Inr r, [(V4 [192, 0, 2, 9] 5000, response)])"
      and "receive_probe sample_probe_config (replicate 16 8) (replicate 32 9) (Arrived response (V4 [192, 0, 2, 1] 4000) 5000000) sample_probe_state
        = set_result 0 (note_response sample_probe_config (of_nat ((5000000 - 2000000) div 10 ^ 6)) (V4 [192, 0, 2, 9] 5000))
            (sample_probe_state\<lparr>ps_pending := AList.delete (replicate 16 1) (ps_pending sample_probe_state)\<rparr>)"
    using probe_answered [of sample_probe_config sample_probe_config "replicate 16 8" "replicate 16 1" "replicate 32 9" "replicate 16 7" 5
        "V4 [192, 0, 2, 9] 5000" sample_authorization 999 sample_probe_state 0 2000000 999 999 "V4 [192, 0, 2, 1] 4000" 5000000]
    by (auto simp: valid_id_def ID_LEN_def CHECK_TOKEN_LEN_32 sample_probe)
  then show ?thesis
    by (simp add: set_result_def note_response_def mtu_of_def saturating_add_def sample_probe)
qed

definition sample_round :: "arrival list \<Rightarrow> round_env" where
  "sample_round as = \<lparr>re_probe = (\<lambda>_. \<lparr>pe_transaction = Some (replicate 16 1), pe_millis = 5, pe_delivered = True, pe_started = 2000000\<rparr>),
     re_arrivals = as\<rparr>"

lemma sample_rounds: "probe_rounds sample_probe_config = 1"
  by (simp add: probe_rounds_def sample_probe usize_limit_def)

lemma sample_usable: "usable_candidates [sample_candidate] = [(0, V4 [192, 0, 2, 1] 4000)]"
  by (simp add: usable_candidates_def List.map_filter_def sample_probe)

lemma sample_valid: "probe_config_validate sample_probe_config = Inr ()"
  by (simp add: probe_config_validate_def sample_probe)

lemma sample_fields:
  "pc_max_candidates sample_probe_config = 16" "pc_max_datagram_size sample_probe_config = 1472" "cd_id sample_candidate = replicate 16 7"
  "cr_candidate (blank_result sample_candidate) = sample_candidate" "cr_received (blank_result sample_candidate) = 0"
  by (simp_all add: sample_probe)

lemma check_results_sound_witness:
  "\<exists>response results out.
     check_candidates sample_probe_config (replicate 16 8) (replicate 32 9) [sample_candidate]
       (\<lambda>_. sample_round [Arrived response (V4 [192, 0, 2, 1] 4000) 5000000]) = (Inr results, out)
     \<and> map cr_candidate results = [sample_candidate] \<and> cr_sent (results ! 0) = 1 \<and> succeeded (results ! 0)
     \<and> answers sample_probe_config (replicate 16 8) (replicate 32 9) [sample_candidate]
         (sample_round [Arrived response (V4 [192, 0, 2, 1] 4000) 5000000]) 0"
proof -
  let ?tid = "replicate 16 8 :: bytes" and ?token = "replicate 32 9 :: bytes" and ?xid = "replicate 16 1 :: bytes" and ?cid = "replicate 16 7 :: bytes"
  obtain request where request: "encode_message (Path (PathCheckRequest ?tid ?xid ?token ?cid 5)) 0 0 = Inr request" "length request \<le> 131"
    using path_message_travels [of "PathCheckRequest ?tid ?xid ?token ?cid 5", OF _ _ known_flags(2)]
    by (auto simp: valid_id_def ID_LEN_def CHECK_TOKEN_LEN_32)
  obtain response d where response: "length response \<le> 131" "decode_message response = Inr d"
      "dm_message d = Path (PathCheckResponse ?tid ?xid ?token ?cid (V4 [192, 0, 2, 9] 5000) 6)"
    using path_message_travels [of "PathCheckResponse ?tid ?xid ?token ?cid (V4 [192, 0, 2, 9] 5000) 6", OF _ _ known_flags(1)]
    by (auto simp: valid_id_def ID_LEN_def CHECK_TOKEN_LEN_32 unusable_addr_def is_unspecified_def in_range_def)
  let ?env = "\<lambda>_ :: nat. sample_round [Arrived response (V4 [192, 0, 2, 1] 4000) 5000000]"
  obtain r out where run: "check_candidates sample_probe_config ?tid ?token [sample_candidate] ?env = (Inr [r], out)" "succeeded r"
    using request response
    by (simp add: check_candidates_def sample_valid sample_usable sample_rounds sample_fields probe_round_def st_then_def st_bind_def send_probe_run
        probe_request_def sample_round_def receive_probe_def response_transaction_def take_whole set_result_def note_response_def
        saturating_add_def succeeded_def)
  show ?thesis
    using check_results_sound [OF run(1)] run sample_rounds
    by (intro exI [of _ response] exI [of _ "[r]"] exI [of _ out]) (auto simp: Let_def sample_probe word_unat_eq_iff)
qed

end
