(* ===== verification/Path_Selection.thy ===== *)
theory Path_Selection
  imports Path_Check
begin

text \<open>
  The choice of a path from the results of the checks: \<open>network-probe/src/selection.rs\<close>. The scores are of type \<open>i64\<close>; their
  arithmetic is written out with the wrap-around of a release build (a build with overflow checks panics where it wraps), and they
  are compared as signed numbers. The random path identifier is an argument, \<open>None\<close> when there is no randomness.

  Shown here: a direct path is chosen whenever one is eligible and there is randomness for its identifier, it is a best one, and the
  relay is used only otherwise; with the default weights and round-trip times below \<open>2 ^ 62\<close> ms no score wraps.
\<close>

record path_selection_config =
  sc_address_family_bonus :: i64
  sc_rtt_penalty_per_millis :: i64
  sc_loss_penalty_per_percent :: i64
  sc_mtu_penalty_per_100_bytes :: i64
  sc_minimum_mtu :: u16

definition path_selection_config_default :: path_selection_config where
  "path_selection_config_default = \<lparr>sc_address_family_bonus = 4, sc_rtt_penalty_per_millis = 1, sc_loss_penalty_per_percent = 8,
     sc_mtu_penalty_per_100_bytes = 2, sc_minimum_mtu = 576\<rparr>"

record selected_path =
  sp_path_id :: path_id
  sp_candidate_id :: candidate_id
  sp_address :: socket_addr
  sp_kind :: path_kind
  sp_rtt_millis :: u64
  sp_loss_percent :: u8
  sp_mtu :: u16
  sp_score :: i64

record relay_path =
  ry_relay_id :: relay_id
  ry_relay_ticket :: session_ticket

datatype path_decision = Direct selected_path | Relay relay_path

definition path_kind_of :: "candidate_kind \<Rightarrow> path_kind" where
  "path_kind_of k = (case k of Host_CK \<Rightarrow> Host_PK | RoutedLan_CK \<Rightarrow> RoutedLan_PK | ServerReflexive \<Rightarrow> ReflexiveDirect
     | PeerReflexive \<Rightarrow> ReflexiveDirect | Relay_CK \<Rightarrow> Relay_PK)"

fun is_ipv6 :: "socket_addr \<Rightarrow> bool" where
  "is_ipv6 (V4 _ _) = False"
| "is_ipv6 (V6 _ _ _ _) = True"

text \<open>\<open>i64::try_from(v).unwrap_or(i64::MAX)\<close>\<close>

definition i64_of_u64 :: "u64 \<Rightarrow> i64" where
  "i64_of_u64 v = (if unat v < 2 ^ 63 then v else of_nat (2 ^ 63 - 1))"

definition score :: "check_result \<Rightarrow> path_kind \<Rightarrow> u64 \<Rightarrow> path_selection_config \<Rightarrow> i64" where
  "score result kind rtt config =
     (let topology = (case kind of Host_PK \<Rightarrow> 100 | RoutedLan_PK \<Rightarrow> 90 | ReflexiveDirect \<Rightarrow> 70 | Relay_PK \<Rightarrow> 10);
          family_bonus = (case map_option is_ipv6 (cd_address (cr_candidate result)) of
            Some True \<Rightarrow> sc_address_family_bonus config | _ \<Rightarrow> 0);
          mtu_penalty = (ucast (saturating_sub 1200 (cr_mtu result)) :: u64) div 100
      in ucast (cd_priority (cr_candidate result)) + topology + family_bonus
         - i64_of_u64 rtt * sc_rtt_penalty_per_millis config
         - ucast (loss_percent result) * sc_loss_penalty_per_percent config
         - i64_of_u64 mtu_penalty * sc_mtu_penalty_per_100_bytes config)"

type_synonym scored = "i64 \<times> check_result \<times> socket_addr \<times> u64 \<times> path_kind"

definition score_result :: "path_selection_config \<Rightarrow> check_result \<Rightarrow> scored option" where
  "score_result config result =
     Option.bind (cd_address (cr_candidate result)) (\<lambda>address.
     Option.bind (cr_rtt_millis result) (\<lambda>rtt.
     let kind = path_kind_of (cd_kind (cr_candidate result)) in
     if kind = Relay_PK then None else Some (score result kind rtt config, result, address, rtt, kind)))"

text \<open>The higher score first, then the smaller candidate identifier.\<close>

definition score_key :: "scored \<Rightarrow> int \<times> candidate_id" where
  "score_key x = (- sint (fst x), cd_id (cr_candidate (fst (snd x))))"

definition scored_results :: "check_result list \<Rightarrow> path_selection_config \<Rightarrow> scored list" where
  "scored_results results config =
     sort_key score_key (List.map_filter (score_result config) (filter (\<lambda>r. succeeded r \<and> cr_mtu r \<ge> sc_minimum_mtu config) results))"

definition select_best :: "path_id option \<Rightarrow> check_result list \<Rightarrow> path_selection_config \<Rightarrow> selection_error + selected_path" where
  "select_best random results config =
     (case scored_results results config of
        [] \<Rightarrow> Inl NoSuccessfulDirectPath
      | (sc, result, address, rtt, kind) # _ \<Rightarrow>
          and_then (ok_or RandomnessUnavailable_SE random) (\<lambda>pid.
          Inr \<lparr>sp_path_id = pid, sp_candidate_id = cd_id (cr_candidate result), sp_address = address, sp_kind = kind,
            sp_rtt_millis = rtt, sp_loss_percent = loss_percent result, sp_mtu = cr_mtu result, sp_score = sc\<rparr>))"

definition choose_path ::
  "path_id option \<Rightarrow> check_result list \<Rightarrow> path_selection_config \<Rightarrow> relay_path option \<Rightarrow> bool \<Rightarrow> selection_error + path_decision" where
  "choose_path random results config relay direct_only =
     (case select_best random results config of
        Inr path \<Rightarrow> Inr (Direct path)
      | Inl e \<Rightarrow> if \<not> direct_only then ok_or e (map_option Relay relay) else Inl e)"

section \<open>Which results are eligible\<close>

definition eligible :: "path_selection_config \<Rightarrow> check_result \<Rightarrow> bool" where
  "eligible config r \<longleftrightarrow> succeeded r \<and> cr_mtu r \<ge> sc_minimum_mtu config \<and> cd_address (cr_candidate r) \<noteq> None
     \<and> cr_rtt_millis r \<noteq> None \<and> cd_kind (cr_candidate r) \<noteq> Relay_CK"

definition score_of :: "path_selection_config \<Rightarrow> check_result \<Rightarrow> int" where
  "score_of config r = sint (score r (path_kind_of (cd_kind (cr_candidate r))) (the (cr_rtt_millis r)) config)"

definition path_of :: "path_selection_config \<Rightarrow> path_id \<Rightarrow> check_result \<Rightarrow> selected_path" where
  "path_of config pid r = \<lparr>sp_path_id = pid, sp_candidate_id = cd_id (cr_candidate r), sp_address = the (cd_address (cr_candidate r)),
     sp_kind = path_kind_of (cd_kind (cr_candidate r)), sp_rtt_millis = the (cr_rtt_millis r), sp_loss_percent = loss_percent r,
     sp_mtu = cr_mtu r, sp_score = score r (path_kind_of (cd_kind (cr_candidate r))) (the (cr_rtt_millis r)) config\<rparr>"

lemma path_kind_of_relay: "path_kind_of k = Relay_PK \<longleftrightarrow> k = Relay_CK"
  by (cases k) (simp_all add: path_kind_of_def)

lemma score_result_Some:
  "score_result config r = Some x \<longleftrightarrow> cd_address (cr_candidate r) \<noteq> None \<and> cr_rtt_millis r \<noteq> None \<and> cd_kind (cr_candidate r) \<noteq> Relay_CK
     \<and> x = (score r (path_kind_of (cd_kind (cr_candidate r))) (the (cr_rtt_millis r)) config, r, the (cd_address (cr_candidate r)),
         the (cr_rtt_millis r), path_kind_of (cd_kind (cr_candidate r)))"
  by (auto simp: score_result_def Let_def bind_eq_Some_conv path_kind_of_relay)

lemma set_map_filter: "set (List.map_filter f xs) = {y. \<exists>x \<in> set xs. f x = Some y}"
  by (induction xs) (auto simp: List.map_filter_def)

lemma set_scored: "x \<in> set (scored_results results config) \<longleftrightarrow> (\<exists>r \<in> set results. eligible config r \<and> score_result config r = Some x)"
  by (auto simp: scored_results_def set_map_filter eligible_def score_result_Some)

lemma scored_first_best:
  assumes "scored_results results config = x # xs" "y \<in> set (x # xs)"
  shows "score_key x \<le> score_key y"
proof -
  have "sorted (map score_key (x # xs))"
    unfolding assms(1) [symmetric] scored_results_def by (rule sorted_sort_key)
  with assms(2) show ?thesis
    by (auto simp: score_key_def)
qed

lemma no_scored: "scored_results results config = [] \<longleftrightarrow> \<not> (\<exists>r \<in> set results. eligible config r)"
proof -
  have "eligible config r \<Longrightarrow> \<exists>x. score_result config r = Some x" for r
    by (simp add: eligible_def score_result_Some)
  moreover have "scored_results results config = [] \<longleftrightarrow> (\<forall>x. x \<notin> set (scored_results results config))"
    by (metis empty_iff list.set(1) list.set_intros(1) neq_Nil_conv)
  ultimately show ?thesis
    unfolding set_scored by blast
qed

lemma select_best_run:
  assumes "r \<in> set results" "eligible config r"
  obtains b where "b \<in> set results" "eligible config b" "select_best (Some pid) results config = Inr (path_of config pid b)"
    "\<forall>r \<in> set results. eligible config r \<longrightarrow> score_of config r \<le> score_of config b
      \<and> (score_of config r = score_of config b \<longrightarrow> cd_id (cr_candidate b) \<le> cd_id (cr_candidate r))"
proof -
  obtain x xs where xs: "scored_results results config = x # xs"
    using assms no_scored by (metis neq_Nil_conv)
  then obtain b where b: "b \<in> set results" "eligible config b" "score_result config b = Some x"
    using set_scored by (metis list.set_intros(1))
  have "score_of config r \<le> score_of config b \<and> (score_of config r = score_of config b \<longrightarrow> cd_id (cr_candidate b) \<le> cd_id (cr_candidate r))"
    if r: "r \<in> set results" "eligible config r" for r
  proof -
    obtain y where y: "score_result config r = Some y"
      using r(2) by (auto simp: eligible_def score_result_Some)
    with r have "y \<in> set (x # xs)"
      using set_scored xs by metis
    with scored_first_best [OF xs] have "score_key x \<le> score_key y" by blast
    with b(3) y show ?thesis
      by (auto simp: score_result_Some score_key_def score_of_def less_eq_prod_def)
  qed
  with b that show thesis
    by (auto simp: select_best_def xs score_result_Some path_of_def)
qed

section \<open>Scores as integers\<close>

definition exact_score :: "check_result \<Rightarrow> int" where
  "exact_score r =
     int (unat (cd_priority (cr_candidate r)))
     + (case path_kind_of (cd_kind (cr_candidate r)) of Host_PK \<Rightarrow> 100 | RoutedLan_PK \<Rightarrow> 90 | ReflexiveDirect \<Rightarrow> 70 | Relay_PK \<Rightarrow> 10)
     + (case cd_address (cr_candidate r) of Some a \<Rightarrow> if is_ipv6 a then 4 else 0 | None \<Rightarrow> 0)
     - int (unat (the (cr_rtt_millis r))) - 8 * int (unat (loss_percent r)) - 2 * int ((1200 - unat (cr_mtu r)) div 100)"

lemma sint_of_int_i64: "- (2 ^ 63) \<le> k \<Longrightarrow> k < 2 ^ 63 \<Longrightarrow> sint (of_int k :: i64) = k"
  by (simp add: int_word_sint)

lemma of_int_unat_ucast: "of_int (int (unat v)) = (ucast v :: 'b::len word)"
  by (simp add: unsigned_ucast_eq)

lemma mtu_penalty: "i64_of_u64 ((ucast (saturating_sub 1200 mtu) :: u64) div 100) = of_int (int ((1200 - unat (mtu :: u16)) div 100))"
proof -
  have "unat (saturating_sub 1200 mtu) = 1200 - unat mtu"
    by (simp add: unat_saturating_sub)
  then have "unat (ucast (saturating_sub 1200 mtu) :: u64) = 1200 - unat mtu"
    by (simp add: unat_ucast_mod)
  then have "unat ((ucast (saturating_sub 1200 mtu) :: u64) div 100) = (1200 - unat mtu) div 100"
    by (simp add: unat_div_distrib)
  then show ?thesis
    by (simp add: i64_of_u64_def word_unat_eq_iff unat_of_nat_small)
qed

lemma score_range:
  assumes "0 \<le> t" "t \<le> 100" "0 \<le> b" "b \<le> 4" "l \<le> 255" "p \<le> 65535" "m \<le> 12" "x < 4611686018427387904"
  shows "- (2 ^ 63) \<le> int p + t + b - int x - 8 * int l - 2 * int m" "int p + t + b - int x - 8 * int l - 2 * int m < 2 ^ 63"
  using assms by simp_all

lemma score_exact:
  assumes "unat (the (cr_rtt_millis r)) < 2 ^ 62"
  shows "score_of path_selection_config_default r = exact_score r"
proof -
  let ?kind = "path_kind_of (cd_kind (cr_candidate r))"
  have rtt: "i64_of_u64 (the (cr_rtt_millis r)) = of_int (int (unat (the (cr_rtt_millis r))))"
    using assms by (simp add: i64_of_u64_def)
  have "score r ?kind (the (cr_rtt_millis r)) path_selection_config_default = of_int (exact_score r)"
    unfolding score_def exact_score_def path_selection_config_default_def Let_def mtu_penalty rtt
    by (cases "cd_address (cr_candidate r)"; cases ?kind) (simp_all add: of_int_unat_ucast)
  moreover have "- (2 ^ 63) \<le> exact_score r" "exact_score r < 2 ^ 63"
  proof -
    let ?t = "case ?kind of Host_PK \<Rightarrow> 100 | RoutedLan_PK \<Rightarrow> 90 | ReflexiveDirect \<Rightarrow> 70 | Relay_PK \<Rightarrow> (10 :: int)"
    let ?b = "case cd_address (cr_candidate r) of Some a \<Rightarrow> if is_ipv6 a then 4 else 0 | None \<Rightarrow> (0 :: int)"
    have "0 \<le> ?t" "?t \<le> 100" "0 \<le> ?b" "?b \<le> 4"
      by (simp_all split: path_kind.splits option.splits)
    moreover have "unat (loss_percent r) \<le> 255" "unat (cd_priority (cr_candidate r)) \<le> 65535"
        "(1200 - unat (cr_mtu r)) div 100 \<le> 12" "unat (the (cr_rtt_millis r)) < 4611686018427387904"
      using unat_le_max [of "loss_percent r"] unat_le_max [of "cd_priority (cr_candidate r)"] assms by simp_all
    ultimately show "- (2 ^ 63) \<le> exact_score r" "exact_score r < 2 ^ 63"
      unfolding exact_score_def by (rule score_range)+
  qed
  ultimately show ?thesis
    by (simp add: score_of_def sint_of_int_i64)
qed

section \<open>Properties\<close>

text \<open>C35: When some result is eligible (it succeeded, its MTU suffices, it has an address and a round-trip time and is not a relay) and the
  system delivers the random path identifier, the path chosen is the direct one of an eligible result whose score no other eligible
  result exceeds, with the smallest identifier among equals. When no result is eligible, and also when there is no randomness although
  a direct path is eligible, it is the relay, if there is one and a direct path is not required, and an error if not: that there is no
  direct path, or that there is no randomness. With the default weights and round-trip times below \<open>2 ^ 62\<close> ms the scores compared are
  exact: priority, plus 100, 90 or 70 for the kind of the path, plus 4 for IPv6, minus the milliseconds, minus 8 for each percent lost and
  minus 2 for each full 100 bytes that the MTU is below 1200.\<close>

theorem path_chosen:
  "let fallback = (\<lambda>e. if direct_only then Inl e else case relay of None \<Rightarrow> Inl e | Some p \<Rightarrow> Inr (Relay p)) in
   (if \<exists>r \<in> set results. eligible config r
    then (case random of
        None \<Rightarrow> choose_path random results config relay direct_only = fallback RandomnessUnavailable_SE
      | Some pid \<Rightarrow> \<exists>b \<in> set results. eligible config b
          \<and> choose_path random results config relay direct_only = Inr (Direct (path_of config pid b))
          \<and> (\<forall>r \<in> set results. eligible config r \<longrightarrow> score_of config r \<le> score_of config b
               \<and> (score_of config r = score_of config b \<longrightarrow> cd_id (cr_candidate b) \<le> cd_id (cr_candidate r))))
    else choose_path random results config relay direct_only = fallback NoSuccessfulDirectPath)
   \<and> (\<forall>r \<in> set results. unat (the (cr_rtt_millis r)) < 2 ^ 62 \<longrightarrow> score_of path_selection_config_default r = exact_score r)"
proof (cases "\<exists>r \<in> set results. eligible config r")
  case True
  then obtain r where r: "r \<in> set results" "eligible config r" by blast
  show ?thesis
  proof (cases random)
    case None
    have "scored_results results config \<noteq> []"
      using True by (simp add: no_scored)
    then have "select_best None results config = Inl RandomnessUnavailable_SE"
      by (cases "scored_results results config") (auto simp: select_best_def ok_or_def)
    with True None score_exact show ?thesis
      by (simp add: choose_path_def ok_or_def split: option.splits)
  next
    case (Some pid)
    obtain b where "b \<in> set results" "eligible config b" "select_best (Some pid) results config = Inr (path_of config pid b)"
      "\<forall>r \<in> set results. eligible config r \<longrightarrow> score_of config r \<le> score_of config b
        \<and> (score_of config r = score_of config b \<longrightarrow> cd_id (cr_candidate b) \<le> cd_id (cr_candidate r))"
      using r by (rule select_best_run)
    with True Some score_exact show ?thesis
      by (auto simp: choose_path_def intro!: bexI [of _ b])
  qed
next
  case False
  then have "scored_results results config = []"
    by (simp add: no_scored)
  with False score_exact show ?thesis
    by (simp add: choose_path_def select_best_def ok_or_def split: option.splits)
qed

text \<open>The results of the test \<open>topology_and_rtt_are_used_for_selection\<close>.\<close>

definition sample_result :: "u8 \<Rightarrow> candidate_kind \<Rightarrow> u16 \<Rightarrow> u64 \<Rightarrow> check_result" where
  "sample_result i kind priority rtt = \<lparr>cr_candidate = \<lparr>cd_id = replicate 16 i, cd_kind = kind, cd_address = Some (V4 [192, 0, 2, i] 4000),
       cd_priority = priority, cd_interface_index = Some 2\<rparr>,
     cr_sent = 3, cr_received = 3, cr_rtt_millis = Some rtt, cr_mtu = 1200, cr_observed_address = None\<rparr>"

theorem path_chosen_witness:
  "choose_path (Some (replicate 16 5)) [sample_result 1 ServerReflexive 70 5, sample_result 2 Host_CK 100 20]
     path_selection_config_default None False
   = Inr (Direct (path_of path_selection_config_default (replicate 16 5) (sample_result 2 Host_CK 100 20)))"
proof -
  let ?c = path_selection_config_default and ?r1 = "sample_result 1 ServerReflexive 70 5" and ?r2 = "sample_result 2 Host_CK 100 20"
  have e: "eligible ?c ?r1" "eligible ?c ?r2"
    by (simp_all add: eligible_def succeeded_def sample_result_def path_selection_config_default_def)
  have "loss_percent ?r1 = 0" "loss_percent ?r2 = 0"
    by (simp_all add: loss_percent_def sample_result_def saturating_sub_def Let_def)
  then have s: "score_of ?c ?r1 = 135" "score_of ?c ?r2 = 180"
    by (subst score_exact, simp_all add: exact_score_def sample_result_def path_kind_of_def)+
  show ?thesis
    using path_chosen [where results = "[?r1, ?r2]" and config = ?c and random = "Some (replicate 16 5)" and relay = None
        and direct_only = False] e s by auto
qed

end
