(* ===== verification/Path_Interface.thy ===== *)
theory Path_Interface
  imports Path_Candidate
begin

text \<open>
  The interfaces and routes of the host and the candidates they give: \<open>network-probe/src/interface.rs\<close>. The list of interfaces comes
  from the operating system (\<open>getifaddrs\<close>) and is an argument, as are the contents of the two files under \<open>/proc/net\<close>. The text of these
  files is ASCII: a line ends with a newline, white space is that of ASCII. The model is that of a little-endian host, where \<open>to_le\<close> does
  nothing. The random identifiers are an argument, \<open>None\<close> when there is no randomness.

  Shown here: what the candidates of a host are, that the parser of IPv6 addresses inverts their printing, and that the IPv4
  routes are read with their bytes in the wrong order.
\<close>

datatype ip_addr = Ip4 bytes | Ip6 bytes

fun octets :: "ip_addr \<Rightarrow> bytes" where
  "octets (Ip4 bs) = bs"
| "octets (Ip6 bs) = bs"

definition ip_unspecified :: "ip_addr \<Rightarrow> bool" where
  "ip_unspecified ip \<longleftrightarrow> list_all (\<lambda>b. b = 0) (octets ip)"

fun socket_addr_new :: "ip_addr \<Rightarrow> u16 \<Rightarrow> socket_addr" where
  "socket_addr_new (Ip4 bs) port = V4 bs port"
| "socket_addr_new (Ip6 bs) port = V6 bs port 0 0"

record network_interface =
  ni_name :: string
  ni_index :: u32
  ni_address :: ip_addr
  ni_prefix_len :: u8
  ni_is_loopback :: bool
  ni_is_up :: bool

record network_route =
  nr_interface_name :: string
  nr_interface_index :: "u32 option"
  nr_destination :: ip_addr
  nr_prefix_len :: u8
  nr_gateway :: "ip_addr option"
  nr_is_default :: bool

record network_snapshot =
  ns_interfaces :: "network_interface list"
  ns_routes :: "network_route list"

section \<open>Candidates\<close>

definition has_default_route :: "network_snapshot \<Rightarrow> network_interface \<Rightarrow> bool" where
  "has_default_route n i \<longleftrightarrow>
     list_ex (\<lambda>r. nr_interface_index r = Some (ni_index i) \<and> nr_is_default r \<and> ip_unspecified (nr_destination r)) (ns_routes n)"

definition interface_candidate :: "network_snapshot \<Rightarrow> u16 \<Rightarrow> network_interface \<Rightarrow> candidate_id \<Rightarrow> candidate" where
  "interface_candidate n port i cid =
     \<lparr>cd_id = cid, cd_kind = Host_CK, cd_address = Some (socket_addr_new (ni_address i) port),
      cd_priority = (if has_default_route n i then 100 else 90), cd_interface_index = Some (ni_index i)\<rparr>"

fun candidates_loop ::
  "network_snapshot \<Rightarrow> u16 \<Rightarrow> (usize \<Rightarrow> candidate_id option) \<Rightarrow> network_interface list \<Rightarrow> socket_addr list \<Rightarrow> candidate list
     \<Rightarrow> probe_error + candidate list" where
  "candidates_loop n port random [] seen candidates = Inr candidates"
| "candidates_loop n port random (i # is) seen candidates =
     (let address = socket_addr_new (ni_address i) port in
      if address \<in> set seen then candidates_loop n port random is seen candidates
      else
        (case random (length candidates) of
           None \<Rightarrow> Inl RandomnessUnavailable_PE
         | Some cid \<Rightarrow> candidates_loop n port random is (address # seen) (candidates @ [interface_candidate n port i cid])))"

definition candidate_key :: "candidate \<Rightarrow> int \<times> socket_addr option" where
  "candidate_key c = (- int (unat (cd_priority c)), cd_address c)"

definition snapshot_candidates ::
  "network_snapshot \<Rightarrow> u16 \<Rightarrow> usize \<Rightarrow> (usize \<Rightarrow> candidate_id option) \<Rightarrow> probe_error + candidate list" where
  "snapshot_candidates n port max_candidates random =
     (if max_candidates = 0 then Inl (InvalidConfig_PE ''max_candidates'')
      else if port = 0 then Inl (InvalidConfig_PE ''candidate port'')
      else
        and_then (candidates_loop n port random (filter (\<lambda>i. ni_is_up i \<and> \<not> ni_is_loopback i) (ns_interfaces n)) [] []) (\<lambda>found.
        let candidates = take max_candidates (sort_key candidate_key found) in
        if candidates = [] then Inl NoCandidates else Inr candidates))"

section \<open>Reading the routes\<close>

definition count_ones :: "u8 \<Rightarrow> u8" where
  "count_ones b = of_nat (length (filter (bit b) [0 ..< 8]))"

definition prefix_len :: "ip_addr \<Rightarrow> u8" where
  "prefix_len netmask = sum_list (map count_ones (octets netmask))"

definition is_space :: "char \<Rightarrow> bool" where
  "is_space c \<longleftrightarrow> c \<in> {CHR 0x09, CHR 0x0A, CHR 0x0B, CHR 0x0C, CHR 0x0D, CHR '' ''}"

text \<open>\<open>str::split_whitespace\<close>\<close>

fun split_words :: "string \<Rightarrow> string \<Rightarrow> string list" where
  "split_words [] word = (if word = [] then [] else [rev word])"
| "split_words (c # cs) word =
     (if is_space c then (if word = [] then split_words cs [] else rev word # split_words cs [])
      else split_words cs (c # word))"

definition split_whitespace :: "string \<Rightarrow> string list" where
  "split_whitespace s = split_words s []"

text \<open>\<open>str::lines\<close>: a carriage return before the newline belongs to the line end; nothing follows the last newline.\<close>

definition chop_cr :: "string \<Rightarrow> string" where
  "chop_cr line = (case line of c # cs \<Rightarrow> if c = CHR 0x0D then rev cs else rev line | [] \<Rightarrow> [])"

fun split_lines :: "string \<Rightarrow> string \<Rightarrow> string list" where
  "split_lines [] line = (if line = [] then [] else [rev line])"
| "split_lines (c # cs) line = (if c = CHR 0x0A then chop_cr line # split_lines cs [] else split_lines cs (c # line))"

definition hex_digit :: "char \<Rightarrow> nat option" where
  "hex_digit c =
     (let v = of_char c :: nat in
      if 48 \<le> v \<and> v \<le> 57 then Some (v - 48)
      else if 97 \<le> v \<and> v \<le> 102 then Some (v - 87)
      else if 65 \<le> v \<and> v \<le> 70 then Some (v - 55)
      else None)"

fun hex_digits :: "nat \<Rightarrow> string \<Rightarrow> nat \<Rightarrow> nat option" where
  "hex_digits limit [] acc = Some acc"
| "hex_digits limit (c # cs) acc =
     (case hex_digit c of
        None \<Rightarrow> None
      | Some d \<Rightarrow> if 16 * acc + d < limit then hex_digits limit cs (16 * acc + d) else None)"

text \<open>\<open>from_str_radix(s, 16).ok()\<close> of an unsigned type with the given number of values: a plus sign may precede the digits.\<close>

definition from_str_radix_16 :: "nat \<Rightarrow> string \<Rightarrow> nat option" where
  "from_str_radix_16 limit s =
     (let digits = (case s of c # cs \<Rightarrow> if c = CHR ''+'' then cs else s | [] \<Rightarrow> [])
      in if digits = [] then None else hex_digits limit digits 0)"

definition index_of :: "network_interface list \<Rightarrow> string \<Rightarrow> u32 option" where
  "index_of interfaces name = map_option ni_index (find (\<lambda>i. ni_name i = name) interfaces)"

text \<open>\<open>Ipv4Addr::from(n.to_le())\<close>: the number is stored with its most significant byte first.\<close>

definition ipv4_from :: "nat \<Rightarrow> ip_addr" where
  "ipv4_from v = Ip4 (to_be_bytes 4 (of_nat v :: u32))"

definition IPV4_UNSPECIFIED :: ip_addr where "IPV4_UNSPECIFIED = Ip4 (replicate 4 0)"
definition IPV6_UNSPECIFIED :: ip_addr where "IPV6_UNSPECIFIED = Ip6 (replicate 16 0)"

definition ipv4_route :: "network_interface list \<Rightarrow> string \<Rightarrow> network_route option" where
  "ipv4_route interfaces line =
     (let fields = split_whitespace line in
      if length fields < 8 then None
      else
        Option.bind (from_str_radix_16 (2 ^ 32) (fields ! 1)) (\<lambda>destination.
        Option.bind (from_str_radix_16 (2 ^ 32) (fields ! 2)) (\<lambda>gateway.
        Option.bind (from_str_radix_16 (2 ^ 32) (fields ! 7)) (\<lambda>netmask.
        Some \<lparr>nr_interface_name = fields ! 0, nr_interface_index = index_of interfaces (fields ! 0),
          nr_destination = ipv4_from destination, nr_prefix_len = prefix_len (ipv4_from netmask),
          nr_gateway = (if ipv4_from gateway \<noteq> IPV4_UNSPECIFIED then Some (ipv4_from gateway) else None),
          nr_is_default = (ipv4_from destination = IPV4_UNSPECIFIED)\<rparr>))))"

definition read_linux_ipv4_routes :: "string option \<Rightarrow> network_interface list \<Rightarrow> network_route list" where
  "read_linux_ipv4_routes contents interfaces =
     (case contents of None \<Rightarrow> [] | Some text \<Rightarrow> List.map_filter (ipv4_route interfaces) (drop 1 (split_lines text [])))"

text \<open>The bytes of an address from pairs of digits; slices of the 32 characters.\<close>

definition parse_ipv6_hex :: "string \<Rightarrow> ip_addr option" where
  "parse_ipv6_hex s =
     (if length s \<noteq> 32 then None
      else
        map_option (\<lambda>bs. Ip6 (map of_nat bs))
          (those (map (\<lambda>i. from_str_radix_16 (2 ^ 8) (take 2 (drop (2 * i) s))) [0 ..< 16])))"

definition ipv6_route :: "network_interface list \<Rightarrow> string \<Rightarrow> network_route option" where
  "ipv6_route interfaces line =
     (let fields = split_whitespace line in
      if length fields < 10 then None
      else
        Option.bind (parse_ipv6_hex (fields ! 0)) (\<lambda>destination.
        Option.bind (from_str_radix_16 (2 ^ 8) (fields ! 1)) (\<lambda>prefix.
        Option.bind (parse_ipv6_hex (fields ! 4)) (\<lambda>gateway.
        Some \<lparr>nr_interface_name = fields ! 9, nr_interface_index = index_of interfaces (fields ! 9),
          nr_destination = destination, nr_prefix_len = of_nat prefix,
          nr_gateway = (if gateway \<noteq> IPV6_UNSPECIFIED then Some gateway else None),
          nr_is_default = (destination = IPV6_UNSPECIFIED)\<rparr>))))"

definition read_linux_ipv6_routes :: "string option \<Rightarrow> network_interface list \<Rightarrow> network_route list" where
  "read_linux_ipv6_routes contents interfaces =
     (case contents of None \<Rightarrow> [] | Some text \<Rightarrow> List.map_filter (ipv6_route interfaces) (split_lines text []))"

definition collect_routes :: "string option \<Rightarrow> string option \<Rightarrow> network_interface list \<Rightarrow> network_route list" where
  "collect_routes route ipv6_route_file interfaces =
     read_linux_ipv4_routes route interfaces @ read_linux_ipv6_routes ipv6_route_file interfaces"

section \<open>What the candidates are\<close>

text \<open>The first interface that is up, is not a loopback and has the address.\<close>

definition offered_by :: "network_snapshot \<Rightarrow> u16 \<Rightarrow> socket_addr \<Rightarrow> network_interface option" where
  "offered_by n port a =
     find (\<lambda>i. ni_is_up i \<and> \<not> ni_is_loopback i \<and> socket_addr_new (ni_address i) port = a) (ns_interfaces n)"

text \<open>100 for an interface through which some route to the unspecified address leaves that is marked as default, else 90.\<close>

definition expected_priority :: "network_snapshot \<Rightarrow> network_interface \<Rightarrow> u16" where
  "expected_priority n i =
     (if \<exists>r \<in> set (ns_routes n). nr_interface_index r = Some (ni_index i) \<and> nr_is_default r \<and> (\<forall>b \<in> set (octets (nr_destination r)). b = 0)
      then 100 else 90)"

definition host_candidate :: "network_snapshot \<Rightarrow> u16 \<Rightarrow> candidate \<Rightarrow> bool" where
  "host_candidate n port c \<longleftrightarrow>
     (\<exists>a i. cd_address c = Some a \<and> offered_by n port a = Some i \<and> cd_kind c = Host_CK
        \<and> cd_interface_index c = Some (ni_index i) \<and> cd_priority c = expected_priority n i)"

text \<open>The higher priority first, then the smaller address.\<close>

definition precedes :: "candidate \<Rightarrow> u16 \<Rightarrow> socket_addr option \<Rightarrow> bool" where
  "precedes c priority a \<longleftrightarrow> priority < cd_priority c \<or> priority = cd_priority c \<and> cd_address c < a"

lemma find_filter: "find P (filter Q xs) = find (\<lambda>x. Q x \<and> P x) xs"
  by (induction xs) auto

lemma candidates_loop_ok:
  assumes "candidates_loop n port random is seen cs = Inr found"
    and "distinct (map cd_address cs)" "set (map cd_address cs) = Some ` set seen"
  shows "distinct (map cd_address found)
    \<and> set (map cd_address found) = set (map cd_address cs) \<union> (\<lambda>i. Some (socket_addr_new (ni_address i) port)) ` set is
    \<and> (\<forall>c \<in> set found. c \<in> set cs \<or> (\<exists>a i cid. a \<notin> set seen \<and> find (\<lambda>i. socket_addr_new (ni_address i) port = a) is = Some i
         \<and> cd_address c = Some a \<and> c = interface_candidate n port i cid))"
  using assms
proof (induction n port random "is" seen cs rule: candidates_loop.induct)
  case (2 n port random i "is" seen candidates)
  let ?a = "socket_addr_new (ni_address i) port"
  show ?case
  proof (cases "?a \<in> set seen")
    case True
    then have known: "Some ?a \<in> set (map cd_address candidates)"
      using "2.prems"(3) by auto
    have "candidates_loop n port random is seen candidates = Inr found"
      using "2.prems"(1) True by (simp add: Let_def)
    note IH = "2.IH"(1) [OF refl True this "2.prems"(2,3)]
    have later: "find (\<lambda>i. socket_addr_new (ni_address i) port = a) (i # is) = find (\<lambda>i. socket_addr_new (ni_address i) port = a) is"
      if "a \<notin> set seen" for a
      using True that by auto
    have "\<forall>c \<in> set found. c \<in> set candidates \<or> (\<exists>a j cid. a \<notin> set seen
        \<and> find (\<lambda>i. socket_addr_new (ni_address i) port = a) (i # is) = Some j \<and> cd_address c = Some a \<and> c = interface_candidate n port j cid)"
      using conjunct2 [OF conjunct2 [OF IH]] later by (simp del: find.simps cong: conj_cong)
    then show ?thesis
      using IH known by (auto simp del: set_map find.simps)
  next
    case False
    then obtain cid where cid: "random (length candidates) = Some cid"
      using "2.prems"(1) by (auto simp: Let_def split: option.splits)
    let ?c = "interface_candidate n port i cid"
    have c: "cd_address ?c = Some ?a"
      by (simp add: interface_candidate_def)
    have run: "candidates_loop n port random is (?a # seen) (candidates @ [?c]) = Inr found"
      using "2.prems"(1) False cid by (simp add: Let_def)
    have "distinct (map cd_address (candidates @ [?c]))"
      "set (map cd_address (candidates @ [?c])) = Some ` set (?a # seen)"
      using "2.prems"(2,3) False c by auto
    note IH = "2.IH"(2) [OF refl False cid run this]
    have "c \<in> set candidates \<or> (\<exists>a j cid. a \<notin> set seen
        \<and> find (\<lambda>i. socket_addr_new (ni_address i) port = a) (i # is) = Some j \<and> cd_address c = Some a \<and> c = interface_candidate n port j cid)"
      if member: "c \<in> set found" for c
    proof -
      consider "c \<in> set candidates" | "c = ?c" | a j k where "a \<notin> set (?a # seen)"
          "find (\<lambda>i. socket_addr_new (ni_address i) port = a) is = Some j" "cd_address c = Some a" "c = interface_candidate n port j k"
        using IH member by auto
      then show ?thesis
      proof cases
        case 2
        then show ?thesis
          using False c by (intro disjI2 exI [of _ ?a] exI [of _ i] exI [of _ cid]) simp
      next
        case 3
        then show ?thesis
          by (intro disjI2 exI [of _ a] exI [of _ j] exI [of _ k]) auto
      qed simp
    qed
    then show ?thesis
      using IH c by (auto simp del: find.simps)
  qed
qed simp

lemma expected_is_interface_candidate:
  "offered_by n port a = Some i \<Longrightarrow> cd_address (interface_candidate n port i cid) = Some a \<Longrightarrow> host_candidate n port (interface_candidate n port i cid)"
  by (simp add: host_candidate_def interface_candidate_def expected_priority_def has_default_route_def ip_unspecified_def
      list_ex_iff list_all_iff)

lemma key_precedes:
  "candidate_key c \<le> candidate_key d \<Longrightarrow> cd_address c \<noteq> cd_address d \<Longrightarrow> precedes c (cd_priority d) (cd_address d)"
  by (auto simp: candidate_key_def precedes_def less_eq_prod_def word_less_def word_uint_eq_iff)

text \<open>C37: The candidates of a host are at most as many as asked for and have distinct addresses. Each is the address, with the port, of an
  interface that is up and not a loopback (the first one with that address), has the index of that interface, and priority 100 where a
  default route leaves through it and 90 elsewhere. They are in the order of falling priority and, within a priority, of the address; and
  the address of such an interface is missing only when there are as many candidates as asked for and all of them come before it
  in that order.\<close>

theorem host_candidates:
  assumes "snapshot_candidates n port max_candidates random = Inr cs"
  shows "cs \<noteq> [] \<and> length cs \<le> max_candidates \<and> distinct (map cd_address cs) \<and> list_all (host_candidate n port) cs
    \<and> sorted_wrt (\<lambda>c d. precedes c (cd_priority d) (cd_address d)) cs
    \<and> (\<forall>a i. offered_by n port a = Some i \<longrightarrow> Some a \<in> set (map cd_address cs)
         \<or> length cs = max_candidates \<and> (\<forall>c \<in> set cs. precedes c (expected_priority n i) (Some a)))"
proof -
  let ?is = "filter (\<lambda>i. ni_is_up i \<and> \<not> ni_is_loopback i) (ns_interfaces n)"
  from assms obtain found where loop: "candidates_loop n port random ?is [] [] = Inr found"
    and cs: "cs = take max_candidates (sort_key candidate_key found)" "cs \<noteq> []"
    by (auto simp: snapshot_candidates_def result_simps Let_def split: if_splits)
  note found = candidates_loop_ok [OF loop, simplified find_filter, simplified]
  let ?sorted = "sort_key candidate_key found"
  have host: "host_candidate n port c" if "c \<in> set found" for c
    using found that expected_is_interface_candidate by (auto simp: offered_by_def conj_assoc)
  have distinct: "distinct (map cd_address ?sorted)"
    using found by (simp add: distinct_map)
  have order: "sorted_wrt (\<lambda>c d. precedes c (cd_priority d) (cd_address d)) ?sorted"
  proof -
    have "sorted_wrt (\<lambda>c d. candidate_key c \<le> candidate_key d) ?sorted" "sorted_wrt (\<lambda>c d. cd_address c \<noteq> cd_address d) ?sorted"
      using sorted_sort_key [of candidate_key found] distinct
      by (simp_all add: sorted_map distinct_conv_nth sorted_wrt_iff_nth_less)
    then show ?thesis
      unfolding sorted_wrt_iff_nth_less using key_precedes by blast
  qed
  have "Some a \<in> set (map cd_address cs)
      \<or> length cs = max_candidates \<and> (\<forall>c \<in> set cs. precedes c (expected_priority n i) (Some a))"
    if off: "offered_by n port a = Some i" for a i
  proof (rule disjCI)
    assume missing: "\<not> (length cs = max_candidates \<and> (\<forall>c \<in> set cs. precedes c (expected_priority n i) (Some a)))"
    have "i \<in> set (ns_interfaces n) \<and> ni_is_up i \<and> \<not> ni_is_loopback i \<and> socket_addr_new (ni_address i) port = a"
      using off by (auto simp: offered_by_def find_Some_iff)
    then have "Some a \<in> cd_address ` set found"
      using found by auto
    then obtain d where d: "d \<in> set ?sorted" "cd_address d = Some a"
      by auto
    then have prio: "cd_priority d = expected_priority n i"
      using host [of d] off by (auto simp: host_candidate_def)
    have split: "?sorted = cs @ drop max_candidates ?sorted"
      by (simp add: cs(1))
    have "d \<in> set cs"
    proof (rule ccontr)
      assume "d \<notin> set cs"
      then have rest: "d \<in> set (drop max_candidates ?sorted)"
        using d(1) by (subst (asm) split) simp
      then have "length cs = max_candidates"
        by (cases "length ?sorted \<le> max_candidates") (simp_all add: cs(1))
      moreover have "\<forall>c \<in> set cs. precedes c (expected_priority n i) (Some a)"
      proof
        fix c
        assume "c \<in> set cs"
        then have "precedes c (cd_priority d) (cd_address d)"
          using order rest by (subst (asm) split) (simp add: sorted_wrt_append)
        then show "precedes c (expected_priority n i) (Some a)"
          by (simp add: d(2) prio)
      qed
      ultimately show False
        using missing by blast
    qed
    with d(2) show "Some a \<in> set (map cd_address cs)"
      by force
  qed
  moreover have "distinct (map cd_address cs)"
    using distinct unfolding cs(1) by (metis distinct_take take_map)
  moreover have "list_all (host_candidate n port) cs"
    using host unfolding cs(1) by (auto simp: list_all_iff dest: in_set_takeD)
  moreover have "sorted_wrt (\<lambda>c d. precedes c (cd_priority d) (cd_address d)) cs"
    using order unfolding cs(1) by (rule sorted_wrt_take)
  moreover have "length cs \<le> max_candidates"
    by (simp add: cs(1))
  ultimately show ?thesis
    using cs(2) by blast
qed

text \<open>The interface and the route of the test \<open>route_default_is_detected\<close>.\<close>

definition sample_snapshot :: network_snapshot where
  "sample_snapshot = \<lparr>ns_interfaces = [\<lparr>ni_name = ''eth0'', ni_index = 2, ni_address = Ip4 [192, 0, 2, 1], ni_prefix_len = 24,
       ni_is_loopback = False, ni_is_up = True\<rparr>],
     ns_routes = [\<lparr>nr_interface_name = ''eth0'', nr_interface_index = Some 2, nr_destination = IPV4_UNSPECIFIED, nr_prefix_len = 0,
       nr_gateway = Some (Ip4 [192, 0, 2, 254]), nr_is_default = True\<rparr>]\<rparr>"

theorem host_candidates_witness:
  "\<exists>cs. snapshot_candidates sample_snapshot 4000 4 (\<lambda>_. Some (replicate 16 1)) = Inr cs \<and> distinct (map cd_address cs)
     \<and> list_all (host_candidate sample_snapshot 4000) cs \<and> map cd_address cs = [Some (V4 [192, 0, 2, 1] 4000)] \<and> cd_priority (hd cs) = 100"
proof -
  obtain c where run: "snapshot_candidates sample_snapshot 4000 4 (\<lambda>_. Some (replicate 16 1)) = Inr [c]"
      and c: "cd_address c = Some (V4 [192, 0, 2, 1] 4000)" "cd_priority c = 100"
    by (simp add: snapshot_candidates_def sample_snapshot_def interface_candidate_def has_default_route_def ip_unspecified_def
        IPV4_UNSPECIFIED_def list_all_iff)
  show ?thesis
    using host_candidates [OF run] run c by simp
qed

section \<open>Printed addresses\<close>

lemma hex_digit_char: "d < 16 \<Longrightarrow> hex_digit (hex_char d) = Some d \<and> hex_char d \<noteq> CHR ''+''"
proof -
  have "list_all (\<lambda>d. hex_digit (hex_char d) = Some d \<and> hex_char d \<noteq> CHR ''+'') [0 ..< 16]"
    by code_simp
  then show "d < 16 \<Longrightarrow> hex_digit (hex_char d) = Some d \<and> hex_char d \<noteq> CHR ''+''"
    by (simp add: list_all_iff)
qed

lemma from_hex_byte: "from_str_radix_16 (2 ^ 8) (hex_byte b) = Some (unat b)"
proof -
  have "unat b < 256"
    using unat_le_max [of b] by simp
  then have "unat b div 16 < 16" "unat b mod 16 < 16" "16 * (unat b div 16) + unat b mod 16 < 256"
    by auto
  then show ?thesis
    using hex_digit_char [of "unat b div 16"] hex_digit_char [of "unat b mod 16"]
    by (simp add: from_str_radix_16_def hex_byte_def)
qed

lemma pair_of_hex: "i < length bs \<Longrightarrow> take 2 (drop (2 * i) (concat (map hex_byte bs))) = hex_byte (bs ! i)"
proof (induction bs arbitrary: i)
  case (Cons b bs)
  then show ?case by (cases i) (simp_all add: hex_byte_def)
qed simp

lemma length_hex: "length (concat (map hex_byte bs)) = 2 * length bs"
  by (induction bs) (simp_all add: hex_byte_def)

lemma those_Some: "those (map (\<lambda>x. Some (f x)) xs) = Some (map f xs)"
  by (induction xs) simp_all

text \<open>The kernel prints an IPv6 address as the digits of its 16 bytes in their order; the parser gives the address back.\<close>

lemma parse_ipv6_printed:
  assumes "length bs = 16"
  shows "parse_ipv6_hex (concat (map hex_byte bs)) = Some (Ip6 bs)"
proof -
  have "map (\<lambda>i. from_str_radix_16 (2 ^ 8) (take 2 (drop (2 * i) (concat (map hex_byte bs))))) [0 ..< 16]
      = map (\<lambda>i. Some (unat (bs ! i))) [0 ..< 16]"
    using assms by (intro map_cong refl) (simp add: pair_of_hex from_hex_byte [simplified])
  moreover have "map (\<lambda>i. of_nat (unat (bs ! i))) [0 ..< 16] = bs"
    using assms by (simp add: map_nth flip: assms)
  ultimately show ?thesis
    unfolding parse_ipv6_hex_def length_hex by (simp only: those_Some) (simp add: assms comp_def)
qed

lemma to_be_bytes_4: "to_be_bytes 4 w = [ucast (drop_bit 24 w), ucast (drop_bit 16 w), ucast (drop_bit 8 w), ucast w]"
  by (simp add: numeral_eq_Suc drop_bit_drop_bit)

text \<open>The kernel prints an IPv4 address as the digits of the number that its bytes make in memory, on a little-endian host
  the last byte first. The route to \<open>192.168.1.0\<close> is read as one to \<open>0.1.168.192\<close>.\<close>

lemma ipv4_route_reversed:
  "map_option nr_destination (ipv4_route [] ''eth0 0001A8C0 00000000 0001 0 0 100 00FFFFFF 0 0 0'') = Some (Ip4 [0, 1, 168, 192])"
  by (simp add: ipv4_route_def split_whitespace_def is_space_def from_str_radix_16_def hex_digit_def ipv4_from_def to_be_bytes_4)

end
