(* ===== verification/Pairing_Server.thy ===== *)
theory Pairing_Server
  imports Transfer_Codec State_Result "HOL-Library.AList"
begin

text \<open>
  The server that brings two peers together: \<open>transfer-server/src/server.rs\<close> and \<open>config.rs\<close>. Its state is the map from pairing keys to
  sessions, shared with the tasks of the connections: a session (\<open>Arc<Mutex<PairingState>>\<close>) is an index into the store
  \<open>sv_sessions\<close>, and a task keeps its index after the session has left the map. A connection and the writer of its control stream are
  numbers. What is written to a stream is appended to \<open>sv_outbox\<close>, a relay task that is started to \<open>sv_relays\<close>, a permit of the
  semaphore that a relay holds is in \<open>sv_permits\<close>, the bytes that a relay has passed on are in \<open>sv_forwarded\<close>.

  A handler takes the mutexes several times, and other tasks run in between. Every part that holds a mutex is a definition of its own
  here, and what is shown of the state is shown of each of them. What the clock, the random source and the streams do in such a part is the
  argument \<open>server_env\<close>: \<open>se_ticket\<close> gives the random tickets in the order of their drawing, \<open>se_write\<close> the error of a write, if any,
  \<open>se_order\<close> the order in which the map yields its sessions and \<open>se_locked\<close> the sessions that \<open>try_lock\<close> finds locked. BLAKE3 and the
  text of a codec error are parameters too. An \<open>io::Error\<close> is its text, from which \<open>server_error_code\<close> takes the code.
\<close>

section \<open>Configuration\<close>

record relay_config =
  rl_max_bytes_per_session :: u64
  rl_max_bytes_total :: u64
  rl_max_streams_per_session :: usize
  rl_buffer_size :: usize

definition relay_config_default :: relay_config where
  "relay_config_default = \<lparr>rl_max_bytes_per_session = 4 * 1024 * 1024 * 1024, rl_max_bytes_total = 0, rl_max_streams_per_session = 2,
     rl_buffer_size = 64 * 1024\<rparr>"

record server_config =
  sg_pairing_ttl :: duration
  sg_max_pairings :: usize
  sg_max_join_attempts :: usize
  sg_max_pending_messages :: usize
  sg_relay :: relay_config

definition server_config_new :: server_config where
  "server_config_new = \<lparr>sg_pairing_ttl = 600 * 10 ^ 9, sg_max_pairings = 1024, sg_max_join_attempts = 8,
     sg_max_pending_messages = 1024, sg_relay = relay_config_default\<rparr>"

definition server_config_validate :: "server_config \<Rightarrow> string + unit" where
  "server_config_validate c =
     (if sg_pairing_ttl c = 0 then Inl ''pairing_ttl''
      else if sg_max_pairings c = 0 then Inl ''max_pairings''
      else if sg_max_join_attempts c = 0 then Inl ''max_join_attempts''
      else if sg_max_pending_messages c = 0 then Inl ''max_pending_messages''
      else if rl_max_streams_per_session (sg_relay c) = 0 then Inl ''relay.max_streams_per_session''
      else if rl_buffer_size (sg_relay c) = 0 then Inl ''relay.buffer_size''
      else Inr ())"

record server_counters =
  sn_created_pairings :: u64
  sn_joined_pairings :: u64
  sn_expired_pairings :: u64
  sn_rejected_joins :: u64
  sn_relay_bytes :: u64
  sn_relay_failures :: u64

section \<open>Errors\<close>

type_synonym io_error = bytes

definition ERROR_PAIRING_UNAVAILABLE :: u32 where "ERROR_PAIRING_UNAVAILABLE = 1"
definition ERROR_PAIRING_EXPIRED :: u32 where "ERROR_PAIRING_EXPIRED = 2"
definition ERROR_PAIRING_ALREADY_JOINED :: u32 where "ERROR_PAIRING_ALREADY_JOINED = 3"
definition ERROR_SERVER_LIMIT :: u32 where "ERROR_SERVER_LIMIT = 4"
definition ERROR_RELAY_FAILED :: u32 where "ERROR_RELAY_FAILED = 6"
definition ERROR_PATH_UNAUTHORIZED :: u32 where "ERROR_PATH_UNAUTHORIZED = 7"

lemmas server_codes = ERROR_PAIRING_UNAVAILABLE_def ERROR_PAIRING_EXPIRED_def ERROR_PAIRING_ALREADY_JOINED_def ERROR_SERVER_LIMIT_def
  ERROR_RELAY_FAILED_def ERROR_PATH_UNAUTHORIZED_def

text \<open>\<open>str::parse::<u32>\<close>, which allows a plus sign.\<close>

fun parse_digits :: "bytes \<Rightarrow> nat \<Rightarrow> nat option" where
  "parse_digits [] acc = Some acc"
| "parse_digits (b # bs) acc =
     (if in_range 48 57 b then
        let acc = 10 * acc + (unat b - 48) in if acc < 2 ^ 32 then parse_digits bs acc else None
      else None)"

definition parse_u32 :: "bytes \<Rightarrow> u32 option" where
  "parse_u32 bs =
     (let digits = (case bs of b # cs \<Rightarrow> if b = 43 then cs else bs | [] \<Rightarrow> [])
      in if digits = [] then None else map_option of_nat (parse_digits digits 0))"

definition server_error :: "u32 \<Rightarrow> string \<Rightarrow> io_error" where
  "server_error code text = decimal (unat code) @ ascii '': '' @ ascii text"

text \<open>\<open>split_once(':')\<close> gives the text before the first colon, if there is one.\<close>

definition server_error_code :: "io_error \<Rightarrow> u32 \<Rightarrow> u32" where
  "server_error_code e fallback =
     (if 58 \<in> set e
      then (case parse_u32 (takeWhile (\<lambda>b. b \<noteq> 58) e) of Some code \<Rightarrow> code | None \<Rightarrow> fallback)
      else fallback)"

section \<open>State\<close>

datatype peer_role = Offerer_PR | Accepter_PR

type_synonym connection_ref = nat
type_synonym writer_ref = nat
type_synonym session_ref = nat
type_synonym instant = nat

record peer =
  pr_connection :: connection_ref
  pr_writer :: writer_ref

record path_authorization =
  pa_check_token :: check_token
  pa_expires_at_millis :: u64

record resume_state =
  rs_manifest_digest :: digest
  rs_expires_at :: instant
  rs_expires_at_millis :: u64
  rs_offerer_ticket :: session_ticket
  rs_accepter_ticket :: "session_ticket option"

record pairing_state =
  pg_id :: pairing_id
  pg_expires_at :: instant
  pg_offerer :: peer
  pg_accepter :: "peer option"
  pg_join_attempts :: usize
  pg_pending_for_accepter :: "(message \<times> u64) list"
  pg_relay_id :: relay_id
  pg_relay_ticket :: session_ticket
  pg_relay_bytes :: u64
  pg_relay_slots :: usize
  pg_path_authorizations :: "(transfer_id \<times> path_authorization) list"
  pg_transfers :: "(transfer_id \<times> resume_state) list"

record server =
  sv_config :: server_config
  sv_pairings :: "(bytes \<times> session_ref) list"
  sv_counters :: server_counters
  sv_total_relay_bytes :: u64
  sv_sessions :: "pairing_state list"
  sv_outbox :: "(writer_ref \<times> message \<times> u64) list"
  sv_relays :: "(session_ref \<times> connection_ref \<times> connection_ref) list"
  sv_permits :: "session_ref list"
  sv_forwarded :: "(session_ref \<times> bytes) list"

record server_env =
  se_now :: instant
  se_millis :: u64
  se_ticket :: "nat \<Rightarrow> session_ticket option"
  se_token :: "check_token option"
  se_pairing_id :: "pairing_id option"
  se_pairing_code :: "pairing_code option"
  se_relay_id :: "relay_id option"
  se_write :: "writer_ref \<Rightarrow> message \<Rightarrow> u64 \<Rightarrow> io_error option"
  se_display :: "transfer_error \<Rightarrow> io_error"
  se_order :: "session_ref list"
  se_locked :: "session_ref \<Rightarrow> bool"
  se_blake3 :: "bytes \<Rightarrow> bytes"

type_synonym 'a server_op = "(server, io_error, 'a) st"

definition session_of :: "session_ref \<Rightarrow> server \<Rightarrow> pairing_state" where
  "session_of i s = sv_sessions s ! i"

definition update_session :: "session_ref \<Rightarrow> (pairing_state \<Rightarrow> pairing_state) \<Rightarrow> server \<Rightarrow> server" where
  "update_session i f s = s\<lparr>sv_sessions := (sv_sessions s)[i := f (sv_sessions s ! i)]\<rparr>"

definition add_count :: "((u64 \<Rightarrow> u64) \<Rightarrow> server_counters \<Rightarrow> server_counters) \<Rightarrow> u64 \<Rightarrow> server \<Rightarrow> server" where
  "add_count field n s = s\<lparr>sv_counters := field (\<lambda>v. v + n) (sv_counters s)\<rparr>"

definition server_new :: "server_config \<Rightarrow> server" where
  "server_new c = \<lparr>sv_config = c, sv_pairings = [],
     sv_counters = \<lparr>sn_created_pairings = 0, sn_joined_pairings = 0, sn_expired_pairings = 0, sn_rejected_joins = 0, sn_relay_bytes = 0,
       sn_relay_failures = 0\<rparr>,
     sv_total_relay_bytes = 0, sv_sessions = [], sv_outbox = [], sv_relays = [], sv_permits = [], sv_forwarded = []\<rparr>"

section \<open>Writing\<close>

definition send_message :: "server_env \<Rightarrow> writer_ref \<Rightarrow> message \<Rightarrow> u64 \<Rightarrow> unit server_op" where
  "send_message e w m request_id =
     (case encode_message m request_id 0 of
        Inl err \<Rightarrow> st_fail (se_display e err)
      | Inr _ \<Rightarrow>
          (case se_write e w m request_id of
             Some err \<Rightarrow> st_fail err
           | None \<Rightarrow> st_modify (\<lambda>s. s\<lparr>sv_outbox := sv_outbox s @ [(w, m, request_id)]\<rparr>)))"

definition send_error :: "server_env \<Rightarrow> writer_ref \<Rightarrow> u32 \<Rightarrow> bytes \<Rightarrow> unit server_op" where
  "send_error e w code text = send_message e w (Transfer (TransferError Session_ES code False text)) 0"

text \<open>\<open>let _ = send_message(..)\<close>: an error is dropped.\<close>

definition st_ignore :: "unit server_op \<Rightarrow> unit server_op" where
  "st_ignore m = (\<lambda>s. (Inr (), snd (m s)))"

section \<open>Tickets and authorisations\<close>

definition pairing_key :: "server_env \<Rightarrow> pairing_code \<Rightarrow> bytes" where
  "pairing_key e code = se_blake3 e (ascii ''udp-transfer-pairing-v1'' @ [0] @ code)"

definition random_ticket :: "server_env \<Rightarrow> nat \<Rightarrow> io_error + session_ticket" where
  "random_ticket e k = ok_or (ascii ''randomness unavailable'') (se_ticket e k)"

definition unix_millis_after :: "server_env \<Rightarrow> duration \<Rightarrow> u64" where
  "unix_millis_after e d = (let millis = unat (se_millis e) + d div 10 ^ 6 in if millis < 2 ^ 64 then of_nat millis else - 1)"

definition ensure_resume_state :: "server_env \<Rightarrow> session_ref \<Rightarrow> transfer_id \<Rightarrow> digest \<Rightarrow> resume_state server_op" where
  "ensure_resume_state e i tid manifest_digest =
     st_bind (st_read (session_of i)) (\<lambda>state.
     case map_of (pg_transfers state) tid of
       Some existing \<Rightarrow>
         if rs_manifest_digest existing \<noteq> manifest_digest then st_fail (ascii ''transfer manifest changed'') else st_return existing
     | None \<Rightarrow>
         st_bind (st_lift (random_ticket e 0)) (\<lambda>ticket.
         let resume = \<lparr>rs_manifest_digest = manifest_digest, rs_expires_at = pg_expires_at state,
           rs_expires_at_millis = unix_millis_after e (pg_expires_at state - se_now e), rs_offerer_ticket = ticket, rs_accepter_ticket = None\<rparr>
         in st_then (st_modify (update_session i (\<lambda>state. state\<lparr>pg_transfers := AList.update tid resume (pg_transfers state)\<rparr>)))
           (st_return resume)))"

text \<open>\<open>k\<close> is the number of the ticket that is drawn if there is none.\<close>

definition ensure_accepter_ticket :: "server_env \<Rightarrow> nat \<Rightarrow> session_ref \<Rightarrow> transfer_id \<Rightarrow> resume_state \<Rightarrow> session_ticket server_op" where
  "ensure_accepter_ticket e k i tid resume =
     (case rs_accepter_ticket resume of
        Some ticket \<Rightarrow> st_return ticket
      | None \<Rightarrow>
          st_bind (st_lift (random_ticket e k)) (\<lambda>ticket.
          st_then (st_modify (update_session i (\<lambda>state.
            state\<lparr>pg_transfers := AList.update tid (resume\<lparr>rs_accepter_ticket := Some ticket\<rparr>) (pg_transfers state)\<rparr>)))
          (st_return ticket)))"

definition ensure_path_authorization :: "server_env \<Rightarrow> session_ref \<Rightarrow> transfer_id \<Rightarrow> path_authorization server_op" where
  "ensure_path_authorization e i tid =
     st_bind (st_read (\<lambda>s. map_of (pg_path_authorizations (session_of i s)) tid)) (\<lambda>found.
     if (case found of Some authorization \<Rightarrow> se_millis e < pa_expires_at_millis authorization | None \<Rightarrow> False)
     then st_return (the found)
     else
       st_bind (st_lift (ok_or (ascii ''randomness unavailable'') (se_token e))) (\<lambda>token.
       let authorization = \<lparr>pa_check_token = token, pa_expires_at_millis = unix_millis_after e (30 * 10 ^ 9)\<rparr>
       in st_then (st_modify (update_session i (\<lambda>state.
            state\<lparr>pg_path_authorizations := AList.update tid authorization (pg_path_authorizations state)\<rparr>)))
          (st_return authorization)))"

definition resume_ticket_message ::
  "pairing_id \<Rightarrow> transfer_id \<Rightarrow> transfer_role \<Rightarrow> digest \<Rightarrow> u64 \<Rightarrow> session_ticket \<Rightarrow> message" where
  "resume_ticket_message pid tid role d expires_at ticket = Pairing (ResumeTicket pid tid role d expires_at ticket)"

definition path_authorization_message :: "transfer_id \<Rightarrow> path_authorization \<Rightarrow> message" where
  "path_authorization_message tid a = Pairing (PathCheckAuthorization tid (pa_check_token a) (pa_expires_at_millis a))"

definition relay_open :: "transfer_id \<Rightarrow> relay_id \<Rightarrow> session_ticket \<Rightarrow> message" where
  "relay_open tid rid ticket = Pairing (RelayOpen tid rid ticket)"

section \<open>Pairing\<close>

definition purge_expired_blocking :: "server_env \<Rightarrow> server \<Rightarrow> session_ref list \<times> server" where
  "purge_expired_blocking e s =
     (let expired = filter (\<lambda>(key, i). \<not> se_locked e i \<and> pg_expires_at (session_of i s) \<le> se_now e) (sv_pairings s)
      in (map snd expired, s\<lparr>sv_pairings := filter (\<lambda>(key, i). key \<notin> fst ` set expired) (sv_pairings s)\<rparr>))"

definition purge_expired :: "server_env \<Rightarrow> server \<Rightarrow> server" where
  "purge_expired e s =
     (case purge_expired_blocking e s of (expired, s') \<Rightarrow>
        if expired \<noteq> [] then add_count sn_expired_pairings_update (of_nat (length expired)) s' else s')"

text \<open>The time to live of a pairing: what was asked for, at most what the server allows.\<close>

definition pairing_ttl :: "server_config \<Rightarrow> u32 \<Rightarrow> duration" where
  "pairing_ttl c requested_ttl =
     (let requested = unat requested_ttl * 10 ^ 9 in if requested = 0 then sg_pairing_ttl c else min requested (sg_pairing_ttl c))"

definition pairing_new :: "server_env \<Rightarrow> server_config \<Rightarrow> peer \<Rightarrow> duration \<Rightarrow> pairing_id \<Rightarrow> relay_id \<Rightarrow> session_ticket \<Rightarrow> pairing_state" where
  "pairing_new e c offerer ttl pid rid ticket =
     \<lparr>pg_id = pid, pg_expires_at = se_now e + ttl, pg_offerer = offerer, pg_accepter = None, pg_join_attempts = 0,
      pg_pending_for_accepter = [], pg_relay_id = rid, pg_relay_ticket = ticket, pg_relay_bytes = 0,
      pg_relay_slots = rl_max_streams_per_session (sg_relay c), pg_path_authorizations = [], pg_transfers = []\<rparr>"

text \<open>The part of \<open>create_pairing\<close> that holds the map: the limit, the collision, the insertion.\<close>

definition insert_pairing :: "bytes \<Rightarrow> pairing_state \<Rightarrow> session_ref server_op" where
  "insert_pairing key session =
     st_bind (st_read id) (\<lambda>s.
     if length (sv_pairings s) \<ge> sg_max_pairings (sv_config s) then st_fail (server_error ERROR_SERVER_LIMIT ''pairing limit reached'')
     else if key \<in> fst ` set (sv_pairings s) then st_fail (ascii ''pairing code collision'')
     else
       st_then (st_modify (\<lambda>s. s\<lparr>sv_sessions := sv_sessions s @ [session], sv_pairings := sv_pairings s @ [(key, length (sv_sessions s))]\<rparr>))
       (st_return (length (sv_sessions s))))"

definition create_pairing :: "server_env \<Rightarrow> peer \<Rightarrow> u32 \<Rightarrow> (session_ref \<times> message) server_op" where
  "create_pairing e offerer requested_ttl =
     st_then (st_modify (purge_expired e))
     (st_bind (st_read sv_config) (\<lambda>c.
      let ttl = pairing_ttl c requested_ttl; unavailable = ascii ''randomness unavailable'' in
      st_bind (st_lift (ok_or unavailable (se_pairing_id e))) (\<lambda>pid.
      st_bind (st_lift (ok_or unavailable (se_pairing_code e))) (\<lambda>code.
      st_bind (st_lift (ok_or unavailable (se_relay_id e))) (\<lambda>rid.
      st_bind (st_lift (random_ticket e 0)) (\<lambda>ticket.
      st_bind (insert_pairing (pairing_key e code) (pairing_new e c offerer ttl pid rid ticket)) (\<lambda>i.
      st_then (st_modify (add_count sn_created_pairings_update 1))
      (st_return (i, Pairing (PairingCreated pid code (unix_millis_after e ttl) ticket))))))))))"

text \<open>The offers among the messages that wait for the accepter.\<close>

fun offer_of :: "message \<Rightarrow> (transfer_id \<times> digest) option" where
  "offer_of (Pairing (OfferReady tid d _ _ _)) = Some (tid, d)"
| "offer_of _ = None"

definition is_file_begin :: "message \<Rightarrow> bool" where
  "is_file_begin m \<longleftrightarrow> (case m of Transfer (FileBegin _ _ _ _ _) \<Rightarrow> True | _ \<Rightarrow> False)"

text \<open>The first offer gets an authorisation; a failure of the random source is kept as its result.\<close>

definition first_offer :: "(message \<times> u64) list \<Rightarrow> transfer_id option" where
  "first_offer pending = map_option fst (case List.map_filter (offer_of \<circ> fst) pending of [] \<Rightarrow> None | x # _ \<Rightarrow> Some x)"

definition authorize_first :: "server_env \<Rightarrow> session_ref \<Rightarrow> (message \<times> u64) list \<Rightarrow> (transfer_id \<times> path_authorization) option server_op" where
  "authorize_first e i pending =
     (case first_offer pending of
        None \<Rightarrow> st_return None
      | Some tid \<Rightarrow>
          (\<lambda>s. case ensure_path_authorization e i tid s of
             (Inl _, s') \<Rightarrow> (Inr None, s')
           | (Inr a, s') \<Rightarrow> (Inr (Some (tid, a)), s')))"

text \<open>The loop over the waiting messages: a ticket of the accepter for every offer. \<open>k\<close> counts the messages.\<close>

fun pending_tickets ::
  "server_env \<Rightarrow> nat \<Rightarrow> session_ref \<Rightarrow> (message \<times> u64) list \<Rightarrow> (transfer_id \<times> message) list \<Rightarrow> (transfer_id \<times> message) list server_op" where
  "pending_tickets e k i [] tickets = st_return tickets"
| "pending_tickets e k i ((m, request_id) # pending) tickets =
     (case offer_of m of
        None \<Rightarrow> pending_tickets e (k + 1) i pending tickets
      | Some (tid, d) \<Rightarrow>
          st_bind (st_read (session_of i)) (\<lambda>state.
          case map_of (pg_transfers state) tid of
            None \<Rightarrow> st_fail (ascii ''resume state is missing for offered transfer'')
          | Some resume \<Rightarrow>
              st_bind (ensure_accepter_ticket e k i tid resume) (\<lambda>ticket.
              pending_tickets e (k + 1) i pending
                (AList.update tid (resume_ticket_message (pg_id state) tid Accepter d (rs_expires_at_millis resume) ticket) tickets))))"

text \<open>What is sent for one waiting message: for an offer the ticket, the authorisation and the relay first, then the message itself.\<close>

definition pending_responses ::
  "writer_ref \<Rightarrow> writer_ref \<Rightarrow> relay_id \<Rightarrow> session_ticket \<Rightarrow> (transfer_id \<times> path_authorization) option \<Rightarrow> (transfer_id \<times> message) list
     \<Rightarrow> message \<Rightarrow> (writer_ref \<times> message) list" where
  "pending_responses offerer accepter rid ticket path_auth tickets m =
     (case offer_of m of
        None \<Rightarrow> []
      | Some (tid, _) \<Rightarrow>
          (case map_of tickets tid of None \<Rightarrow> [] | Some t \<Rightarrow> [(accepter, t)])
          @ (case path_auth of
               Some (auth_tid, a) \<Rightarrow>
                 if auth_tid = tid
                 then [(offerer, path_authorization_message tid a), (accepter, path_authorization_message tid a)] else []
             | None \<Rightarrow> [])
          @ [(offerer, relay_open tid rid ticket), (accepter, relay_open tid rid ticket)])
     @ [(accepter, m)]"

text \<open>The part of \<open>join_pairing\<close> that holds the session. It yields what the rest needs.\<close>

record join_context =
  jn_offerer :: peer
  jn_pairing_id :: pairing_id
  jn_relay_id :: relay_id
  jn_relay_ticket :: session_ticket
  jn_pending :: "(message \<times> u64) list"
  jn_path_auth :: "(transfer_id \<times> path_authorization) option"
  jn_tickets :: "(transfer_id \<times> message) list"

definition join_session :: "server_env \<Rightarrow> session_ref \<Rightarrow> peer \<Rightarrow> join_context server_op" where
  "join_session e i accepter =
     st_bind (st_read (session_of i)) (\<lambda>state.
     if pg_expires_at state \<le> se_now e then st_fail (server_error ERROR_PAIRING_EXPIRED ''pairing code has expired'')
     else
       st_then (st_modify (update_session i (\<lambda>state. state\<lparr>pg_join_attempts := pg_join_attempts state + 1\<rparr>)))
       (st_bind (st_read (\<lambda>s. sg_max_join_attempts (sv_config s))) (\<lambda>limit.
        if pg_join_attempts state + 1 > limit then
          st_then (st_modify (add_count sn_rejected_joins_update 1))
          (st_fail (server_error ERROR_PAIRING_UNAVAILABLE ''pairing attempts are limited''))
        else if pg_accepter state \<noteq> None then
          st_then (st_modify (add_count sn_rejected_joins_update 1))
          (st_fail (server_error ERROR_PAIRING_ALREADY_JOINED ''pairing already has an accepter''))
        else
          st_then (st_modify (update_session i (\<lambda>state. state\<lparr>pg_accepter := Some accepter, pg_pending_for_accepter := []\<rparr>)))
          (st_bind (authorize_first e i (pg_pending_for_accepter state)) (\<lambda>path_auth.
           st_bind (pending_tickets e 0 i (pg_pending_for_accepter state) []) (\<lambda>tickets.
           st_return \<lparr>jn_offerer = pg_offerer state, jn_pairing_id = pg_id state, jn_relay_id = pg_relay_id state,
             jn_relay_ticket = pg_relay_ticket state, jn_pending = pg_pending_for_accepter state, jn_path_auth = path_auth,
             jn_tickets = tickets\<rparr>))))))"

text \<open>The rest, after the mutex of the session: the answers to both peers, and a relay for every data stream that has been announced.\<close>

definition join_answer :: "server_env \<Rightarrow> session_ref \<Rightarrow> peer \<Rightarrow> join_context \<Rightarrow> (session_ref \<times> (writer_ref \<times> message) list) server_op" where
  "join_answer e i accepter j =
     st_then (st_modify (add_count sn_joined_pairings_update 1))
     (st_bind (st_lift (random_ticket e (length (jn_pending j)))) (\<lambda>control_ticket.
      let hello = Pairing (PairingJoined (jn_pairing_id j) (ascii ''offerer'') (ascii ''accepter'') control_ticket);
          offerer = pr_writer (jn_offerer j); writer = pr_writer accepter
      in st_then (st_modify (\<lambda>s. s\<lparr>sv_relays := sv_relays s
           @ map (\<lambda>_. (i, pr_connection (jn_offerer j), pr_connection accepter)) (filter (is_file_begin \<circ> fst) (jn_pending j))\<rparr>))
         (st_return (i, [(offerer, hello), (writer, hello)]
           @ concat (map (pending_responses offerer writer (jn_relay_id j) (jn_relay_ticket j) (jn_path_auth j) (jn_tickets j) \<circ> fst)
               (jn_pending j))))))"

definition join_pairing :: "server_env \<Rightarrow> peer \<Rightarrow> pairing_code \<Rightarrow> (session_ref \<times> (writer_ref \<times> message) list) server_op" where
  "join_pairing e accepter code =
     st_then (st_modify (purge_expired e))
     (st_bind (st_read (\<lambda>s. map_of (sv_pairings s) (pairing_key e code))) (\<lambda>found.
      st_bind (st_lift (ok_or (server_error ERROR_PAIRING_UNAVAILABLE ''pairing code is unknown'') found)) (\<lambda>i.
      st_bind (join_session e i accepter) (join_answer e i accepter))))"

section \<open>Reconnection\<close>

text \<open>One session of the loop of \<open>resume_transfer\<close>: \<open>None\<close> to go on with the next.\<close>

definition resume_session ::
  "server_env \<Rightarrow> peer \<Rightarrow> pairing_id \<Rightarrow> transfer_id \<Rightarrow> transfer_role \<Rightarrow> session_ticket \<Rightarrow> session_ref
     \<Rightarrow> (session_ref \<times> peer_role \<times> message \<times> peer option) option server_op" where
  "resume_session e peer pid tid role ticket i =
     st_bind (st_read (session_of i)) (\<lambda>state.
     if pg_id state \<noteq> pid \<or> pg_expires_at state \<le> se_now e then st_return None
     else
       (case map_of (pg_transfers state) tid of
          None \<Rightarrow> st_return None
        | Some resume \<Rightarrow>
            if rs_expires_at resume \<le> se_now e then st_fail (server_error ERROR_PAIRING_EXPIRED ''resume ticket has expired'')
            else
              st_bind (st_lift (case role of
                  Offerer \<Rightarrow> Inr (rs_offerer_ticket resume)
                | Accepter \<Rightarrow> ok_or (server_error ERROR_PAIRING_UNAVAILABLE ''accepter is not ready'') (rs_accepter_ticket resume)))
              (\<lambda>expected.
               if expected \<noteq> ticket then st_fail (server_error ERROR_PAIRING_UNAVAILABLE ''resume ticket is invalid'')
               else
                 let response = Pairing (ResumeAccepted pid tid role (rs_manifest_digest resume) (rs_expires_at_millis resume)) in
                 (case role of
                    Offerer \<Rightarrow>
                      st_then (st_modify (update_session i (\<lambda>state. state\<lparr>pg_offerer := peer\<rparr>)))
                      (st_return (Some (i, Offerer_PR, response, pg_accepter state)))
                  | Accepter \<Rightarrow>
                      st_then (st_modify (update_session i (\<lambda>state. state\<lparr>pg_accepter := Some peer\<rparr>)))
                      (st_return (Some (i, Accepter_PR, response, Some (pg_offerer state))))))))"

fun resume_loop ::
  "server_env \<Rightarrow> peer \<Rightarrow> pairing_id \<Rightarrow> transfer_id \<Rightarrow> transfer_role \<Rightarrow> session_ticket \<Rightarrow> session_ref list
     \<Rightarrow> (session_ref \<times> peer_role \<times> message \<times> peer option) server_op" where
  "resume_loop e peer pid tid role ticket [] = st_fail (server_error ERROR_PAIRING_UNAVAILABLE ''resume ticket is unknown'')"
| "resume_loop e peer pid tid role ticket (i # is) =
     st_bind (resume_session e peer pid tid role ticket i) (\<lambda>r.
     case r of Some x \<Rightarrow> st_return x | None \<Rightarrow> resume_loop e peer pid tid role ticket is)"

definition resume_transfer ::
  "server_env \<Rightarrow> peer \<Rightarrow> pairing_id \<Rightarrow> transfer_id \<Rightarrow> transfer_role \<Rightarrow> session_ticket
     \<Rightarrow> (session_ref \<times> peer_role \<times> message \<times> peer option) server_op" where
  "resume_transfer e peer pid tid role ticket = resume_loop e peer pid tid role ticket (se_order e)"

section \<open>Routing\<close>

fun role_forbidden :: "peer_role \<Rightarrow> message \<Rightarrow> bool" where
  "role_forbidden role (Pairing m) =
     (case m of
        OfferReady _ _ _ _ _ \<Rightarrow> role = Accepter_PR
      | RelayOpen _ _ _ \<Rightarrow> role = Accepter_PR
      | PathCheckAuthorization _ _ _ \<Rightarrow> role = Accepter_PR
      | ResumeTicket _ _ _ _ _ _ \<Rightarrow> role = Accepter_PR
      | ResumeTransfer _ _ _ _ _ \<Rightarrow> role = Accepter_PR
      | ResumeAccepted _ _ _ _ _ \<Rightarrow> role = Accepter_PR
      | PeerReconnected _ _ \<Rightarrow> role = Accepter_PR
      | _ \<Rightarrow> False)"
| "role_forbidden role (Transfer m) = (case m of FileBegin _ _ _ _ _ \<Rightarrow> role = Accepter_PR | _ \<Rightarrow> False)"
| "role_forbidden role (Path m) = False"

definition validate_message_role :: "peer_role \<Rightarrow> message \<Rightarrow> io_error + unit" where
  "validate_message_role role m =
     (if role_forbidden role m then Inl (server_error ERROR_PATH_UNAUTHORIZED ''message is not allowed for this pairing role'') else Inr ())"

definition validate_path_authorization :: "server_env \<Rightarrow> session_ref \<Rightarrow> message \<Rightarrow> unit server_op" where
  "validate_path_authorization e i m =
     (case m of
        Pairing (PathCheckAuthorization tid token expires_at) \<Rightarrow>
          st_bind (st_read (\<lambda>s. map_of (pg_path_authorizations (session_of i s)) tid)) (\<lambda>found.
          case found of
            None \<Rightarrow> st_fail (server_error ERROR_PATH_UNAUTHORIZED ''path check authorization is unknown'')
          | Some expected \<Rightarrow>
              if pa_check_token expected \<noteq> token \<or> pa_expires_at_millis expected \<noteq> expires_at
              then st_fail (server_error ERROR_PATH_UNAUTHORIZED ''path check authorization does not match the transfer'')
              else if se_millis e \<ge> expires_at
              then st_fail (server_error ERROR_PATH_UNAUTHORIZED ''path check authorization has expired'')
              else st_return ())
      | _ \<Rightarrow> st_return ())"

text \<open>The first part of \<open>route_message\<close> for an offer, under the mutex of the session: authorisation, resume state, tickets.\<close>

record resume_ticket_context =
  rt_pairing_id :: pairing_id
  rt_expires_at :: u64
  rt_offerer_writer :: writer_ref
  rt_accepter_writer :: "writer_ref option"
  rt_offerer_ticket :: session_ticket
  rt_accepter_ticket :: "session_ticket option"

definition prepare_offer :: "server_env \<Rightarrow> session_ref \<Rightarrow> transfer_id \<Rightarrow> digest \<Rightarrow> resume_ticket_context server_op" where
  "prepare_offer e i tid d =
     st_bind (ensure_path_authorization e i tid) (\<lambda>_.
     st_bind (st_read (session_of i)) (\<lambda>state.
     st_bind (ensure_resume_state e i tid d) (\<lambda>resume.
     st_bind (if pg_accepter state \<noteq> None then st_bind (ensure_accepter_ticket e 1 i tid resume) (\<lambda>t. st_return (Some t)) else st_return None)
     (\<lambda>accepter_ticket.
      st_return \<lparr>rt_pairing_id = pg_id state, rt_expires_at = rs_expires_at_millis resume, rt_offerer_writer = pr_writer (pg_offerer state),
        rt_accepter_writer = map_option pr_writer (pg_accepter state), rt_offerer_ticket = rs_offerer_ticket resume,
        rt_accepter_ticket = accepter_ticket\<rparr>))))"

definition send_tickets :: "server_env \<Rightarrow> transfer_id \<Rightarrow> digest \<Rightarrow> u64 \<Rightarrow> resume_ticket_context \<Rightarrow> unit server_op" where
  "send_tickets e tid d request_id c =
     st_then (send_message e (rt_offerer_writer c)
       (resume_ticket_message (rt_pairing_id c) tid Offerer d (rt_expires_at c) (rt_offerer_ticket c)) request_id)
     (case (rt_accepter_writer c, rt_accepter_ticket c) of
        (Some w, Some ticket) \<Rightarrow>
          send_message e w (resume_ticket_message (rt_pairing_id c) tid Accepter d (rt_expires_at c) ticket) request_id
      | _ \<Rightarrow> st_return ())"

text \<open>The second part under the mutex: the peer to which the message goes; it waits when there is no accepter yet.\<close>

definition route_target :: "server_env \<Rightarrow> session_ref \<Rightarrow> peer_role \<Rightarrow> message \<Rightarrow> u64 \<Rightarrow> peer option server_op" where
  "route_target e i role m request_id =
     st_bind (st_read (session_of i)) (\<lambda>state.
     if pg_expires_at state \<le> se_now e then st_fail (server_error ERROR_PAIRING_EXPIRED ''pairing session has expired'')
     else
       (case (role, pg_accepter state) of
          (Offerer_PR, Some peer) \<Rightarrow> st_return (Some peer)
        | (Accepter_PR, _) \<Rightarrow> st_return (Some (pg_offerer state))
        | (Offerer_PR, None) \<Rightarrow>
            st_bind (st_read (\<lambda>s. sg_max_pending_messages (sv_config s))) (\<lambda>limit.
            if length (pg_pending_for_accepter state) \<ge> limit
            then st_fail (server_error ERROR_SERVER_LIMIT ''pairing control queue is full'')
            else
              st_then (st_modify (update_session i (\<lambda>state.
                state\<lparr>pg_pending_for_accepter := pg_pending_for_accepter state @ [(m, request_id)]\<rparr>)))
              (st_return None))))"

text \<open>What both peers get for an offer: the authorisation and the relay; the session is read under its mutex.\<close>

definition send_offer_route :: "server_env \<Rightarrow> session_ref \<Rightarrow> transfer_id \<Rightarrow> u64 \<Rightarrow> unit server_op" where
  "send_offer_route e i tid request_id =
     st_bind (st_read (session_of i)) (\<lambda>state.
     st_bind (st_lift (ok_or (ascii ''path authorization was not created'') (map_of (pg_path_authorizations state) tid))) (\<lambda>a.
     let offerer = pr_writer (pg_offerer state); accepter = map_option pr_writer (pg_accepter state);
         authorization = path_authorization_message tid a; relay = relay_open tid (pg_relay_id state) (pg_relay_ticket state);
         send_accepter = (\<lambda>m. case accepter of Some w \<Rightarrow> send_message e w m request_id | None \<Rightarrow> st_return ())
     in st_then (send_message e offerer authorization request_id)
        (st_then (send_accepter authorization)
        (st_then (send_message e offerer relay request_id)
        (send_accepter relay)))))"

definition route_to :: "server_env \<Rightarrow> session_ref \<Rightarrow> peer_role \<Rightarrow> message \<Rightarrow> u64 \<Rightarrow> connection_ref \<Rightarrow> peer \<Rightarrow> unit server_op" where
  "route_to e i role m request_id source target =
     (if is_file_begin m then
        if role \<noteq> Offerer_PR
        then send_error e (pr_writer target) ERROR_RELAY_FAILED (ascii ''only the offerer may open a data stream'')
        else
          st_then (send_message e (pr_writer target) m request_id)
          (st_modify (\<lambda>s. s\<lparr>sv_relays := sv_relays s @ [(i, source, pr_connection target)]\<rparr>))
      else send_message e (pr_writer target) m request_id)"

text \<open>\<open>route_message\<close>; the environment is that of its parts in their order.\<close>

definition route_message ::
  "(nat \<Rightarrow> server_env) \<Rightarrow> session_ref \<Rightarrow> peer_role \<Rightarrow> message \<Rightarrow> u64 \<Rightarrow> connection_ref \<Rightarrow> unit server_op" where
  "route_message env i role m request_id source =
     st_then (st_lift (validate_message_role role m))
     (st_then (case offer_of m of
          Some (tid, d) \<Rightarrow> st_bind (prepare_offer (env 0) i tid d) (send_tickets (env 1) tid d request_id)
        | None \<Rightarrow> st_return ())
     (st_then (validate_path_authorization (env 2) i m)
     (st_bind (route_target (env 3) i role m request_id) (\<lambda>target.
      case target of
        None \<Rightarrow> st_return ()
      | Some peer \<Rightarrow>
          st_then (case offer_of m of Some (tid, _) \<Rightarrow> send_offer_route (env 4) i tid request_id | None \<Rightarrow> st_return ())
          (route_to (env 5) i role m request_id source peer)))))"

section \<open>Relaying\<close>

text \<open>The loop of \<open>compare_exchange_weak\<close> changes the counter in one step from the value it last saw: it is one atomic operation.\<close>

definition reserve_counter :: "u64 \<Rightarrow> u64 \<Rightarrow> u64 \<Rightarrow> u64 option" where
  "reserve_counter counter amount limit =
     (if limit = 0 then Some (counter + amount)
      else
        (case checked_add counter amount of
           None \<Rightarrow> None
         | Some next \<Rightarrow> if next > limit then None else Some next))"

definition reserve_relay_bytes :: "session_ref \<Rightarrow> usize \<Rightarrow> usize server_op" where
  "reserve_relay_bytes i n =
     (let amount = of_nat n :: u64 in
      st_bind (st_read (\<lambda>s. reserve_counter (pg_relay_bytes (session_of i s)) amount (rl_max_bytes_per_session (sg_relay (sv_config s))))) (\<lambda>reserved.
      case reserved of
        None \<Rightarrow> st_fail (ascii ''per-session relay quota exceeded'')
      | Some v \<Rightarrow>
          st_then (st_modify (update_session i (\<lambda>state. state\<lparr>pg_relay_bytes := v\<rparr>)))
          (st_bind (st_read (\<lambda>s. reserve_counter (sv_total_relay_bytes s) amount (rl_max_bytes_total (sg_relay (sv_config s))))) (\<lambda>total.
           case total of
             None \<Rightarrow>
               st_then (st_modify (update_session i (\<lambda>state. state\<lparr>pg_relay_bytes := pg_relay_bytes state - amount\<rparr>)))
               (st_fail (ascii ''server relay quota exceeded''))
           | Some t \<Rightarrow>
               st_then (st_modify (\<lambda>s. add_count sn_relay_bytes_update amount (s\<lparr>sv_total_relay_bytes := t\<rparr>)))
               (st_return n)))))"

text \<open>What a read from the source gives, with the error of the write that follows it, if any. The end of the list is the end of the stream.\<close>

datatype relay_read = ReadBytes bytes "io_error option" | ReadError io_error

fun relay_loop :: "session_ref \<Rightarrow> relay_read list \<Rightarrow> unit server_op" where
  "relay_loop i [] = st_return ()"
| "relay_loop i (ReadError err # inputs) = st_fail err"
| "relay_loop i (ReadBytes bs write_error # inputs) =
     (if bs = [] then st_return ()
      else
        st_bind (reserve_relay_bytes i (length bs)) (\<lambda>allowed.
        case write_error of
          Some err \<Rightarrow> st_fail err
        | None \<Rightarrow>
            st_then (st_modify (\<lambda>s. s\<lparr>sv_forwarded := sv_forwarded s @ [(i, take allowed bs)]\<rparr>))
            (if allowed \<noteq> length bs then st_fail (ascii ''relay byte quota exceeded'') else relay_loop i inputs)))"

text \<open>\<open>result.and(shutdown)\<close>: the shutdown is done in any case, its error counts when there is no other.\<close>

definition relay_stream :: "session_ref \<Rightarrow> io_error option \<Rightarrow> relay_read list \<Rightarrow> io_error option \<Rightarrow> unit server_op" where
  "relay_stream i open_error inputs shutdown_error =
     (case open_error of
        Some err \<Rightarrow> st_fail err
      | None \<Rightarrow>
          st_then (relay_loop i inputs)
          (case shutdown_error of Some err \<Rightarrow> st_fail err | None \<Rightarrow> st_return ()))"

fun take_chars :: "nat \<Rightarrow> bytes \<Rightarrow> bytes" where
  "take_chars n [] = []"
| "take_chars n (b # bs) =
     (if in_range 0x80 0xbf b then b # take_chars n bs else if n = 0 then [] else b # take_chars (n - 1) bs)"

definition send_relay_error :: "server_env \<Rightarrow> session_ref \<Rightarrow> u32 \<Rightarrow> bytes \<Rightarrow> unit server_op" where
  "send_relay_error e i code text =
     st_bind (st_read (session_of i)) (\<lambda>state.
     let m = Transfer (TransferError Path_ES code False (take_chars 256 text)) in
     st_then (send_message e (pr_writer (pg_offerer state)) m 0)
     (case pg_accepter state of Some p \<Rightarrow> send_message e (pr_writer p) m 0 | None \<Rightarrow> st_return ()))"

text \<open>The task of \<open>spawn_relay\<close>: taking the permit, and giving it back with the result of the relay.\<close>

definition relay_begin :: "server_env \<Rightarrow> session_ref \<Rightarrow> bool server_op" where
  "relay_begin e i =
     st_bind (st_read (\<lambda>s. pg_relay_slots (session_of i s))) (\<lambda>slots.
     if slots = 0 then
       st_then (st_ignore (send_relay_error e i ERROR_RELAY_FAILED (ascii ''relay stream limit reached''))) (st_return False)
     else
       st_then (st_modify (\<lambda>s. update_session i (\<lambda>state. state\<lparr>pg_relay_slots := slots - 1\<rparr>) (s\<lparr>sv_permits := sv_permits s @ [i]\<rparr>)))
       (st_return True))"

definition relay_end :: "server_env \<Rightarrow> session_ref \<Rightarrow> io_error option \<Rightarrow> unit server_op" where
  "relay_end e i error =
     st_then (st_modify (\<lambda>s. update_session i (\<lambda>state. state\<lparr>pg_relay_slots := pg_relay_slots state + 1\<rparr>) (s\<lparr>sv_permits := remove1 i (sv_permits s)\<rparr>)))
     (case error of
        None \<Rightarrow> st_return ()
      | Some err \<Rightarrow>
          st_then (st_modify (add_count sn_relay_failures_update 1))
          (st_ignore (send_relay_error e i ERROR_RELAY_FAILED err)))"

definition relay_task :: "(nat \<Rightarrow> server_env) \<Rightarrow> session_ref \<Rightarrow> io_error option \<Rightarrow> relay_read list \<Rightarrow> io_error option \<Rightarrow> unit server_op" where
  "relay_task env i open_error inputs shutdown_error =
     st_bind (relay_begin (env 0) i) (\<lambda>permitted.
     if \<not> permitted then st_return ()
     else
       (\<lambda>s. case relay_stream i open_error inputs shutdown_error s of
          (Inl err, s') \<Rightarrow> relay_end (env 1) i (Some err) s'
        | (Inr _, s') \<Rightarrow> relay_end (env 1) i None s'))"

section \<open>The task of a connection\<close>

record connection_task =
  ct_connection :: connection_ref
  ct_writer :: writer_ref
  ct_role :: "peer_role option"
  ct_pairing :: "session_ref option"

definition task_peer :: "connection_task \<Rightarrow> peer" where
  "task_peer t = \<lparr>pr_connection = ct_connection t, pr_writer = ct_writer t\<rparr>"

text \<open>\<open>match m { Ok(x) => .., Err(error) => .. }\<close>\<close>

definition st_match :: "'a server_op \<Rightarrow> ('a \<Rightarrow> 'b server_op) \<Rightarrow> (io_error \<Rightarrow> 'b server_op) \<Rightarrow> 'b server_op" where
  "st_match m ok err = (\<lambda>s. case m s of (Inr x, s') \<Rightarrow> ok x s' | (Inl e, s') \<Rightarrow> err e s')"

definition report_error :: "server_env \<Rightarrow> connection_task \<Rightarrow> u32 \<Rightarrow> io_error \<Rightarrow> connection_task server_op" where
  "report_error e t fallback err =
     st_then (send_error e (ct_writer t) (server_error_code err fallback) err) (st_return t)"

fun serve_unpaired :: "(nat \<Rightarrow> server_env) \<Rightarrow> connection_task \<Rightarrow> pairing_control \<Rightarrow> u64 \<Rightarrow> connection_task server_op" where
  "serve_unpaired env t (CreatePairing _ Upload requested_ttl _) request_id =
     st_match (create_pairing (env 0) (task_peer t) requested_ttl)
       (\<lambda>(i, response).
        st_then (send_message (env 1) (ct_writer t) response request_id)
        (st_return (t\<lparr>ct_role := Some Offerer_PR, ct_pairing := Some i\<rparr>)))
       (report_error (env 1) t ERROR_SERVER_LIMIT)"
| "serve_unpaired env t (JoinPairing code _ _) request_id =
     st_match (join_pairing (env 0) (task_peer t) code)
       (\<lambda>(i, responses).
        st_then (st_for responses (\<lambda>(w, m). send_message (env 1) w m request_id))
        (st_return (t\<lparr>ct_role := Some Accepter_PR, ct_pairing := Some i\<rparr>)))
       (report_error (env 1) t ERROR_PAIRING_UNAVAILABLE)"
| "serve_unpaired env t (ResumeTransfer pid tid role _ ticket) request_id =
     st_match (resume_transfer (env 0) (task_peer t) pid tid role ticket)
       (\<lambda>(i, peer_role, response, counterpart).
        st_then (send_message (env 1) (ct_writer t) response request_id)
        (st_then (case counterpart of
             Some p \<Rightarrow> st_ignore (send_message (env 2) (pr_writer p) (Pairing (PeerReconnected tid role)) request_id)
           | None \<Rightarrow> st_return ())
        (st_return (t\<lparr>ct_role := Some peer_role, ct_pairing := Some i\<rparr>))))
       (report_error (env 1) t ERROR_PAIRING_UNAVAILABLE)"
| "serve_unpaired env t _ request_id =
     st_then (send_error (env 0) (ct_writer t) ERROR_PAIRING_UNAVAILABLE (ascii ''pairing is required'')) (st_return t)"

text \<open>One message of the loop of \<open>serve_connection\<close>; an error ends the task.\<close>

definition serve_message :: "(nat \<Rightarrow> server_env) \<Rightarrow> connection_task \<Rightarrow> message \<Rightarrow> u64 \<Rightarrow> connection_task server_op" where
  "serve_message env t m request_id =
     (case m of
        Pairing p \<Rightarrow>
          (case ct_role t of
             Some role \<Rightarrow>
               (case ct_pairing t of
                  Some i \<Rightarrow> st_then (route_message env i role m request_id (ct_connection t)) (st_return t)
                | None \<Rightarrow> st_return t)
           | None \<Rightarrow> serve_unpaired env t p request_id)
      | _ \<Rightarrow>
          (case (ct_role t, ct_pairing t) of
             (Some role, Some i) \<Rightarrow>
               st_match (route_message env i role m request_id (ct_connection t)) (\<lambda>_. st_return t)
                 (report_error (env 6) t ERROR_PAIRING_EXPIRED)
           | _ \<Rightarrow>
               st_then (send_error (env 0) (ct_writer t) ERROR_PAIRING_UNAVAILABLE (ascii ''pairing is required'')) (st_return t)))"

end
