(* ===== verification/State_Wp.thy ===== *)
theory State_Wp
  imports State_Result
begin

text \<open>
  Weakest preconditions for the computations of \<open>State_Result\<close>: \<open>wp m Q E s\<close> says that \<open>m\<close>, started in \<open>s\<close>, ends well with a result
  and a state that satisfy \<open>Q\<close>, or fails in a state that satisfies \<open>E\<close>. The rules follow the program text and are used by the simplifier;
  a call is taken care of by its own lemma and \<open>wp_mono\<close>.
\<close>

definition wp :: "('s, 'e, 'a) st \<Rightarrow> ('a \<Rightarrow> 's \<Rightarrow> bool) \<Rightarrow> ('s \<Rightarrow> bool) \<Rightarrow> 's \<Rightarrow> bool" where
  "wp m Q E s = (case m s of (Inr x, s') \<Rightarrow> Q x s' | (Inl e, s') \<Rightarrow> E s')"

lemma wp_simps [simp]:
  "wp (st_bind m f) Q E = wp m (\<lambda>x. wp (f x) Q E) E"
  "wp (st_then m k) Q E = wp m (\<lambda>_. wp k Q E) E"
  "wp (st_return x) Q E = Q x"
  "wp (st_fail e) Q E = E"
  "wp (st_read g) Q E = (\<lambda>s. Q (g s) s)"
  "wp (st_modify h) Q' E = (\<lambda>s. Q' () (h s))"
  "wp (st_lift r) Q E = (case r of Inr x \<Rightarrow> Q x | Inl _ \<Rightarrow> E)"
  by (auto simp: fun_eq_iff wp_def st_then_def st_bind_def split: prod.splits sum.splits)

lemma wp_pair [simp]: "wp (Pair (Inr x)) Q E = Q x" "wp (Pair (Inl e)) Q E = E"
  by (simp_all add: wp_def fun_eq_iff)

lemma wp_mono: "wp m Q E s \<Longrightarrow> (\<And>x s'. Q x s' \<Longrightarrow> Q' x s') \<Longrightarrow> (\<And>s'. E s' \<Longrightarrow> E' s') \<Longrightarrow> wp m Q' E' s"
  by (auto simp: wp_def split: prod.splits sum.splits)

lemma wp_run: "wp m Q E s \<Longrightarrow> m s = (Inr x, s') \<Longrightarrow> Q x s'"
  by (simp add: wp_def)

lemma wp_state: "wp m (\<lambda>_. I) I s \<longleftrightarrow> I (snd (m s))"
  by (auto simp: wp_def split: prod.splits sum.splits)

lemma wp_for:
  assumes "I s" "\<And>x s. I s \<Longrightarrow> wp (f x) (\<lambda>_. I) I s"
  shows "wp (st_for xs f) (\<lambda>_. I) I s"
  using assms(1)
proof (induction xs arbitrary: s)
  case (Cons x xs)
  then show ?case
    by (auto intro: wp_mono [OF assms(2)])
qed simp

end
