(* ===== verification/Pairing_Invariant.thy ===== *)
theory Pairing_Invariant
  imports Pairing_Server State_Wp
begin

text \<open>
  The invariant of the server and its preservation by every part of a handler that holds a mutex, errors included, and so by the handlers.
\<close>

section \<open>The invariant\<close>

text \<open>A session: nobody waits once there is an accepter, the queue is bounded, an offer that waits has its resume state with the digest of the
  offer, every transfer has an authorisation, a ticket of the accepter exists only when there is one, the quota is kept.\<close>

definition offers_prepared :: "pairing_state \<Rightarrow> (message \<times> u64) list \<Rightarrow> bool" where
  "offers_prepared st pending \<longleftrightarrow>
     (\<forall>m \<in> fst ` set pending. \<forall>tid d. offer_of m = Some (tid, d) \<longrightarrow>
        (\<exists>r. map_of (pg_transfers st) tid = Some r \<and> rs_manifest_digest r = d))"

definition session_ok :: "server_config \<Rightarrow> pairing_state \<Rightarrow> bool" where
  "session_ok c st \<longleftrightarrow>
     (pg_accepter st \<noteq> None \<longrightarrow> pg_pending_for_accepter st = [])
     \<and> length (pg_pending_for_accepter st) \<le> sg_max_pending_messages c
     \<and> offers_prepared st (pg_pending_for_accepter st)
     \<and> dom (map_of (pg_transfers st)) \<subseteq> dom (map_of (pg_path_authorizations st))
     \<and> (\<forall>tid r. map_of (pg_transfers st) tid = Some r \<longrightarrow> rs_accepter_ticket r \<noteq> None \<longrightarrow> pg_accepter st \<noteq> None)"

definition within :: "u64 \<Rightarrow> u64 \<Rightarrow> bool" where
  "within limit n \<longleftrightarrow> limit \<noteq> 0 \<longrightarrow> n \<le> limit"

definition forwarded :: "session_ref \<Rightarrow> server \<Rightarrow> nat" where
  "forwarded i s = sum_list (map (length \<circ> snd) (filter (\<lambda>x. fst x = i) (sv_forwarded s)))"

definition relay_ok :: "server \<Rightarrow> session_ref \<Rightarrow> bool" where
  "relay_ok s i \<longleftrightarrow>
     (let c = sg_relay (sv_config s); st = session_of i s in
      within (rl_max_bytes_per_session c) (pg_relay_bytes st)
      \<and> (rl_max_bytes_per_session c \<noteq> 0 \<longrightarrow> forwarded i s \<le> unat (pg_relay_bytes st))
      \<and> pg_relay_slots st + count_list (sv_permits s) i = rl_max_streams_per_session c)"

definition server_inv :: "server \<Rightarrow> bool" where
  "server_inv s \<longleftrightarrow>
     length (sv_pairings s) \<le> sg_max_pairings (sv_config s)
     \<and> distinct (map fst (sv_pairings s))
     \<and> (\<forall>i \<in> snd ` set (sv_pairings s). i < length (sv_sessions s))
     \<and> (\<forall>i < length (sv_sessions s). session_ok (sv_config s) (session_of i s) \<and> relay_ok s i)
     \<and> (\<forall>i \<in> set (sv_permits s) \<union> fst ` set (sv_forwarded s). i < length (sv_sessions s))
     \<and> within (rl_max_bytes_total (sg_relay (sv_config s))) (sv_total_relay_bytes s)
     \<and> sn_relay_bytes (sv_counters s) = sv_total_relay_bytes s"

definition inv_at :: "session_ref \<Rightarrow> server \<Rightarrow> bool" where
  "inv_at i s \<longleftrightarrow> server_inv s \<and> i < length (sv_sessions s)"

lemma server_new_inv: "server_inv (server_new c)"
  by (simp add: server_inv_def server_new_def within_def)

section \<open>Elementary changes\<close>

text \<open>Messages that are written and tasks that are started do not matter.\<close>

lemma inv_outputs [simp]:
  "server_inv (s\<lparr>sv_outbox := x\<rparr>) = server_inv s" "inv_at i (s\<lparr>sv_outbox := x\<rparr>) = inv_at i s"
  "server_inv (s\<lparr>sv_relays := y\<rparr>) = server_inv s" "inv_at i (s\<lparr>sv_relays := y\<rparr>) = inv_at i s"
  by (simp_all add: inv_at_def server_inv_def relay_ok_def session_of_def forwarded_def)

lemma inv_counters [simp]:
  "server_inv (add_count sn_created_pairings_update n s) = server_inv s" "inv_at i (add_count sn_created_pairings_update n s) = inv_at i s"
  "server_inv (add_count sn_joined_pairings_update n s) = server_inv s" "inv_at i (add_count sn_joined_pairings_update n s) = inv_at i s"
  "server_inv (add_count sn_expired_pairings_update n s) = server_inv s" "inv_at i (add_count sn_expired_pairings_update n s) = inv_at i s"
  "server_inv (add_count sn_rejected_joins_update n s) = server_inv s" "inv_at i (add_count sn_rejected_joins_update n s) = inv_at i s"
  "server_inv (add_count sn_relay_failures_update n s) = server_inv s" "inv_at i (add_count sn_relay_failures_update n s) = inv_at i s"
  by (simp_all add: add_count_def inv_at_def server_inv_def relay_ok_def session_of_def forwarded_def)

lemma update_session_fields [simp]:
  "sv_config (update_session i f s) = sv_config s" "sv_pairings (update_session i f s) = sv_pairings s"
  "sv_counters (update_session i f s) = sv_counters s" "sv_total_relay_bytes (update_session i f s) = sv_total_relay_bytes s"
  "length (sv_sessions (update_session i f s)) = length (sv_sessions s)" "sv_permits (update_session i f s) = sv_permits s"
  "sv_forwarded (update_session i f s) = sv_forwarded s" "forwarded j (update_session i f s) = forwarded j s"
  "sv_outbox (update_session i f s) = sv_outbox s" "sv_relays (update_session i f s) = sv_relays s"
  by (simp_all add: update_session_def forwarded_def)

lemma session_of_update:
  "i < length (sv_sessions s) \<Longrightarrow> session_of j (update_session i f s) = (if j = i then f (session_of i s) else session_of j s)"
  by (simp add: update_session_def session_of_def)

lemma session_of_same [simp]: "inv_at i s \<Longrightarrow> session_of i (update_session i f s) = f (session_of i s)"
  by (simp add: session_of_update inv_at_def)

lemma inv_at_session: "inv_at i s \<Longrightarrow> session_ok (sv_config s) (session_of i s)"
  by (simp add: inv_at_def server_inv_def)

lemma inv_update_relay:
  assumes "inv_at i s" "session_ok (sv_config s) (f (session_of i s))"
    and "pg_relay_slots (f (session_of i s)) = pg_relay_slots (session_of i s)"
    and "within (rl_max_bytes_per_session (sg_relay (sv_config s))) (pg_relay_bytes (f (session_of i s)))"
    and "rl_max_bytes_per_session (sg_relay (sv_config s)) \<noteq> 0 \<Longrightarrow> forwarded i s \<le> unat (pg_relay_bytes (f (session_of i s)))"
  shows "inv_at i (update_session i f s)"
proof -
  have "relay_ok (update_session i f s) j" if "j < length (sv_sessions s)" for j
    using that assms by (auto simp: relay_ok_def Let_def session_of_update inv_at_def server_inv_def)
  then show ?thesis
    using assms by (auto simp: inv_at_def server_inv_def session_of_update)
qed

lemma inv_relay: "inv_at i s \<Longrightarrow> relay_ok s i"
  by (simp add: inv_at_def server_inv_def)

lemma inv_update:
  assumes "inv_at i s" "session_ok (sv_config s) (f (session_of i s))"
    and "pg_relay_slots (f (session_of i s)) = pg_relay_slots (session_of i s)"
    and "pg_relay_bytes (f (session_of i s)) = pg_relay_bytes (session_of i s)"
  shows "inv_at i (update_session i f s)"
  using assms inv_relay [OF assms(1)] by (intro inv_update_relay) (auto simp: relay_ok_def Let_def)

text \<open>What the updates of a session keep of it.\<close>

lemma session_ok_authorized:
  "session_ok c st \<Longrightarrow> session_ok c (st\<lparr>pg_path_authorizations := AList.update tid a (pg_path_authorizations st)\<rparr>)"
  by (auto simp: session_ok_def offers_prepared_def update_conv')

lemma session_ok_resume:
  "session_ok c st \<Longrightarrow> map_of (pg_transfers st) tid = None \<Longrightarrow> tid \<in> dom (map_of (pg_path_authorizations st)) \<Longrightarrow>
     rs_accepter_ticket r = None \<Longrightarrow> session_ok c (st\<lparr>pg_transfers := AList.update tid r (pg_transfers st)\<rparr>)"
  by (fastforce simp: session_ok_def offers_prepared_def update_conv' split: if_splits)

lemma session_ok_ticket:
  "session_ok c st \<Longrightarrow> map_of (pg_transfers st) tid = Some r \<Longrightarrow> pg_accepter st \<noteq> None \<Longrightarrow>
     session_ok c (st\<lparr>pg_transfers := AList.update tid (r\<lparr>rs_accepter_ticket := Some t\<rparr>) (pg_transfers st)\<rparr>)"
  by (fastforce simp: session_ok_def offers_prepared_def update_conv' split: if_splits)

lemma session_ok_joined:
  "session_ok c st \<Longrightarrow> session_ok c (st\<lparr>pg_accepter := Some p, pg_pending_for_accepter := []\<rparr>)"
  "session_ok c st \<Longrightarrow> session_ok c (st\<lparr>pg_join_attempts := n\<rparr>)"
  "session_ok c st \<Longrightarrow> session_ok c (st\<lparr>pg_offerer := p\<rparr>)"
  "session_ok c st \<Longrightarrow> pg_accepter st \<noteq> None \<Longrightarrow> session_ok c (st\<lparr>pg_accepter := Some p\<rparr>)"
  by (auto simp: session_ok_def offers_prepared_def)

lemma session_ok_pending:
  "session_ok c st \<Longrightarrow> pg_accepter st = None \<Longrightarrow> length (pg_pending_for_accepter st) < sg_max_pending_messages c \<Longrightarrow>
     offers_prepared st [(m, request_id)] \<Longrightarrow>
     session_ok c (st\<lparr>pg_pending_for_accepter := pg_pending_for_accepter st @ [(m, request_id)]\<rparr>)"
  by (auto simp: session_ok_def offers_prepared_def)

section \<open>Parts that write only\<close>

lemma send_wp: "(\<And>x. Q () (s\<lparr>sv_outbox := x\<rparr>)) \<Longrightarrow> E s \<Longrightarrow> wp (send_message e w m r) Q E s"
  by (simp add: send_message_def split: sum.splits option.splits)

lemma send_error_wp: "(\<And>x. Q () (s\<lparr>sv_outbox := x\<rparr>)) \<Longrightarrow> E s \<Longrightarrow> wp (send_error e w code text) Q E s"
  unfolding send_error_def by (rule send_wp)

section \<open>Tickets and authorisations\<close>

text \<open>A failure of one of the three operations changes nothing; otherwise only the table in question changes.\<close>

lemma authorization_wp:
  assumes "inv_at i s" "E s"
    and "\<And>a s' A. inv_at i s' \<Longrightarrow> session_of i s' = (session_of i s)\<lparr>pg_path_authorizations := A\<rparr> \<Longrightarrow> map_of A tid = Some a \<Longrightarrow>
      sv_config s' = sv_config s \<Longrightarrow> Q a s'"
  shows "wp (ensure_path_authorization e i tid) Q E s"
proof -
  let ?A = "pg_path_authorizations (session_of i s)"
  have "Q a s" if "map_of ?A tid = Some a" for a
    using assms(3) [of s ?A a] assms(1) that by simp
  moreover have "Q a (update_session i (\<lambda>st. st\<lparr>pg_path_authorizations := AList.update tid a (pg_path_authorizations st)\<rparr>) s)" for a
    using assms(1) inv_at_session [OF assms(1)]
    by (intro assms(3) [where A = "AList.update tid a ?A"] inv_update session_ok_authorized) (simp_all add: update_conv')
  ultimately show ?thesis
    using assms(2) by (auto simp: ensure_path_authorization_def Let_def ok_or_def split: option.splits)
qed

lemma resume_state_wp:
  assumes "inv_at i s" "E s" "tid \<in> dom (map_of (pg_path_authorizations (session_of i s)))"
    and "\<And>r s' T. inv_at i s' \<Longrightarrow> session_of i s' = (session_of i s)\<lparr>pg_transfers := T\<rparr> \<Longrightarrow> map_of T tid = Some r \<Longrightarrow>
      rs_manifest_digest r = d \<Longrightarrow> sv_config s' = sv_config s \<Longrightarrow> Q r s'"
  shows "wp (ensure_resume_state e i tid d) Q E s"
proof -
  let ?T = "pg_transfers (session_of i s)"
  have "Q r s" if "map_of ?T tid = Some r" "rs_manifest_digest r = d" for r
    using assms(4) [of s ?T r] assms(1) that by simp
  moreover have "Q r (update_session i (\<lambda>st. st\<lparr>pg_transfers := AList.update tid r (pg_transfers st)\<rparr>) s)"
    if "map_of ?T tid = None" "rs_manifest_digest r = d" "rs_accepter_ticket r = None" for r
    using assms(1,3) inv_at_session [OF assms(1)] that
    by (intro assms(4) [where T = "AList.update tid r ?T"] inv_update session_ok_resume) (simp_all add: update_conv')
  ultimately show ?thesis
    using assms(2) by (auto simp: ensure_resume_state_def random_ticket_def Let_def ok_or_def split: option.splits)
qed

lemma accepter_ticket_wp:
  assumes "inv_at i s" "E s" "map_of (pg_transfers (session_of i s)) tid = Some r" "pg_accepter (session_of i s) \<noteq> None"
    and "\<And>t s' T. inv_at i s' \<Longrightarrow> session_of i s' = (session_of i s)\<lparr>pg_transfers := T\<rparr> \<Longrightarrow>
      map_of T = (map_of (pg_transfers (session_of i s)))(tid \<mapsto> r\<lparr>rs_accepter_ticket := Some t\<rparr>) \<Longrightarrow> sv_config s' = sv_config s \<Longrightarrow> Q t s'"
  shows "wp (ensure_accepter_ticket e k i tid r) Q E s"
proof -
  let ?T = "pg_transfers (session_of i s)"
  have "Q t s" if "rs_accepter_ticket r = Some t" for t
  proof (rule assms(5) [where T = ?T])
    have "r\<lparr>rs_accepter_ticket := Some t\<rparr> = r"
      using that by simp
    then show "map_of ?T = (map_of ?T)(tid \<mapsto> r\<lparr>rs_accepter_ticket := Some t\<rparr>)"
      using assms(3) by auto
  qed (use assms(1) in simp_all)
  moreover have "Q t (update_session i (\<lambda>st. st\<lparr>pg_transfers := AList.update tid (r\<lparr>rs_accepter_ticket := Some t\<rparr>) (pg_transfers st)\<rparr>) s)" for t
    using assms(1,3,4) inv_at_session [OF assms(1)]
    by (intro assms(5) [where T = "AList.update tid (r\<lparr>rs_accepter_ticket := Some t\<rparr>) ?T"] inv_update session_ok_ticket)
      (simp_all add: update_conv')
  ultimately show ?thesis
    using assms(2) by (auto simp: ensure_accepter_ticket_def random_ticket_def ok_or_def split: option.splits)
qed

section \<open>Joining\<close>

definition prepared_in :: "pairing_state \<Rightarrow> transfer_id \<Rightarrow> digest \<Rightarrow> bool" where
  "prepared_in st tid d \<longleftrightarrow> (\<exists>r. map_of (pg_transfers st) tid = Some r \<and> rs_manifest_digest r = d)"

lemma authorize_first_wp:
  assumes "inv_at i s"
    and "\<And>x s' A. inv_at i s' \<Longrightarrow> session_of i s' = (session_of i s)\<lparr>pg_path_authorizations := A\<rparr> \<Longrightarrow> sv_config s' = sv_config s \<Longrightarrow> Q x s'"
  shows "wp (authorize_first e i pending) Q E s"
proof -
  have same: "Q x s" for x
    using assms(2) [of s "pg_path_authorizations (session_of i s)" x] assms(1) by simp
  have "wp (\<lambda>s. case ensure_path_authorization e i tid s of (Inl _, s') \<Rightarrow> (Inr None, s') | (Inr a, s') \<Rightarrow> (Inr (Some (tid, a)), s')) Q E s" for tid
  proof -
    have "wp (ensure_path_authorization e i tid) (\<lambda>a. Q (Some (tid, a))) (Q None) s"
      using assms same by (intro authorization_wp) auto
    then show ?thesis
      by (auto simp: wp_def split: prod.splits sum.splits)
  qed
  then show ?thesis
    using same by (cases "first_offer pending") (simp_all only: authorize_first_def option.case wp_simps)
qed

lemma offers_prepared_Cons:
  "offers_prepared st ((m, r) # pending) \<longleftrightarrow> (\<forall>tid d. offer_of m = Some (tid, d) \<longrightarrow> prepared_in st tid d) \<and> offers_prepared st pending"
  by (auto simp: offers_prepared_def prepared_in_def)

lemma offers_prepared_ticket:
  "offers_prepared st pending \<Longrightarrow> map_of (pg_transfers st) tid = Some r \<Longrightarrow>
     map_of T = (map_of (pg_transfers st))(tid \<mapsto> r\<lparr>rs_accepter_ticket := t\<rparr>) \<Longrightarrow> offers_prepared (st\<lparr>pg_transfers := T\<rparr>) pending"
  by (auto simp: offers_prepared_def)

text \<open>The loop over the waiting messages fails only for lack of randomness.\<close>

lemma pending_tickets_wp:
  assumes "inv_at i s" "pg_accepter (session_of i s) \<noteq> None" "offers_prepared (session_of i s) pending"
    and "\<And>x s' T. inv_at i s' \<Longrightarrow> session_of i s' = (session_of i s)\<lparr>pg_transfers := T\<rparr> \<Longrightarrow> sv_config s' = sv_config s \<Longrightarrow> Q x s'"
    and "\<And>s' T. inv_at i s' \<Longrightarrow> session_of i s' = (session_of i s)\<lparr>pg_transfers := T\<rparr> \<Longrightarrow> \<exists>k. se_ticket e k = None \<Longrightarrow> E s'"
  shows "wp (pending_tickets e k i pending tickets) Q E s"
  using assms
proof (induction pending arbitrary: s k tickets)
  case Nil
  then show ?case
    using Nil.prems(4) [of s "pg_transfers (session_of i s)"] by simp
next
  case (Cons mr pending)
  obtain m request_id where mr: "mr = (m, request_id)" by (cases mr)
  show ?case
  proof (cases "offer_of m")
    case None
    then show ?thesis
      using Cons by (simp add: mr offers_prepared_Cons)
  next
    case (Some td)
    obtain tid d where td: "td = (tid, d)" by (cases td)
    from Cons.prems(3) Some obtain r where r: "map_of (pg_transfers (session_of i s)) tid = Some r"
      by (auto simp: mr td offers_prepared_Cons prepared_in_def)
    let ?msg = "\<lambda>t. resume_ticket_message (pg_id (session_of i s)) tid Accepter d (rs_expires_at_millis r) t"
    have "wp (ensure_accepter_ticket e k i tid r) (\<lambda>t. wp (pending_tickets e (k + 1) i pending (AList.update tid (?msg t) tickets)) Q E) E s"
      (is "wp ?m ?Q E s")
    proof (cases "rs_accepter_ticket r = None \<and> se_ticket e k = None")
      case True
      have "E s"
        using Cons.prems(5) [of s "pg_transfers (session_of i s)"] Cons.prems(1) True by auto
      then show ?thesis
        using True by (simp add: ensure_accepter_ticket_def random_ticket_def ok_or_def)
    next
      case False
      have "wp ?m ?Q (\<lambda>_. True) s"
      proof (rule accepter_ticket_wp [OF Cons.prems(1) _ r Cons.prems(2)])
        fix t s' T
        assume s': "inv_at i s'" "session_of i s' = (session_of i s)\<lparr>pg_transfers := T\<rparr>"
          "map_of T = (map_of (pg_transfers (session_of i s)))(tid \<mapsto> r\<lparr>rs_accepter_ticket := Some t\<rparr>)" "sv_config s' = sv_config s"
        have "offers_prepared (session_of i s) pending"
          using Cons.prems(3) by (simp add: mr offers_prepared_Cons)
        then have "offers_prepared (session_of i s') pending"
          unfolding s'(2) using offers_prepared_ticket [OF _ r s'(3)] by simp
        then show "?Q t s'"
          using s' Cons.prems(2,4,5) by (intro Cons.IH) auto
      qed simp
      then show ?thesis
        using False by (auto simp: wp_def ensure_accepter_ticket_def random_ticket_def ok_or_def st_bind_def split: option.splits prod.splits sum.splits)
    qed
    then show ?thesis
      by (simp only: mr pending_tickets.simps Some td option.case prod.case wp_simps r)
  qed
qed

text \<open>The state in which the accepter has been entered, before the tickets are made.\<close>

definition entered :: "session_ref \<Rightarrow> peer \<Rightarrow> server \<Rightarrow> server" where
  "entered i accepter s =
     update_session i (\<lambda>st. st\<lparr>pg_accepter := Some accepter, pg_pending_for_accepter := []\<rparr>)
       (update_session i (\<lambda>st. st\<lparr>pg_join_attempts := Suc (pg_join_attempts st)\<rparr>) s)"

lemma attempts_inv: "inv_at i s \<Longrightarrow> inv_at i (update_session i (\<lambda>st. st\<lparr>pg_join_attempts := n st\<rparr>) s)"
  by (rule inv_update) (simp_all add: session_ok_joined inv_at_session)

lemma entered_inv: "inv_at i s \<Longrightarrow> inv_at i (entered i p s)"
  unfolding entered_def by (rule inv_update [OF attempts_inv]) (simp_all add: session_ok_joined inv_at_session)

lemma entered_session:
  "inv_at i s \<Longrightarrow> session_of i (entered i p s) =
     (session_of i s)\<lparr>pg_join_attempts := pg_join_attempts (session_of i s) + 1, pg_accepter := Some p, pg_pending_for_accepter := []\<rparr>"
  by (simp add: entered_def attempts_inv)

lemma entered_prepared: "inv_at i s \<Longrightarrow> offers_prepared (session_of i (entered i p s)) (pg_pending_for_accepter (session_of i s))"
  using inv_at_session [of i s] by (simp add: entered_session session_ok_def offers_prepared_def)

lemma join_session_wp:
  assumes "inv_at i s"
  shows "wp (join_session e i p) (\<lambda>_. inv_at i) (inv_at i) s"
proof -
  have "wp (authorize_first e i (pg_pending_for_accepter (session_of i s))) (\<lambda>a. wp (pending_tickets e 0 i (pg_pending_for_accepter (session_of i s)) [])
      (\<lambda>_. inv_at i) (inv_at i)) (inv_at i) (entered i p s)"
  proof (rule authorize_first_wp [OF entered_inv [OF assms]])
    fix x s' A
    assume s': "inv_at i s'" "session_of i s' = (session_of i (entered i p s))\<lparr>pg_path_authorizations := A\<rparr>"
    have "pg_accepter (session_of i s') \<noteq> None" "offers_prepared (session_of i s') (pg_pending_for_accepter (session_of i s))"
      using entered_prepared [OF assms, of p] unfolding s'(2) by (simp_all add: entered_session [OF assms] offers_prepared_def)
    then show "wp (pending_tickets e 0 i (pg_pending_for_accepter (session_of i s)) []) (\<lambda>_. inv_at i) (inv_at i) s'"
      by (rule pending_tickets_wp [OF s'(1)])
  qed
  then show ?thesis
    using assms by (simp add: join_session_def attempts_inv flip: entered_def)
qed

section \<open>Reconnecting\<close>

lemma resume_session_wp:
  assumes "inv_at i s"
  shows "wp (resume_session e p pid tid role ticket i) (\<lambda>_. inv_at i) (inv_at i) s"
proof -
  have "inv_at i (update_session i (\<lambda>st. st\<lparr>pg_offerer := p\<rparr>) s)"
    using assms by (rule inv_update) (simp_all add: session_ok_joined inv_at_session assms)
  moreover have "inv_at i (update_session i (\<lambda>st. st\<lparr>pg_accepter := Some p\<rparr>) s)"
    if "map_of (pg_transfers (session_of i s)) tid = Some r" "rs_accepter_ticket r \<noteq> None" for r
  proof -
    have "pg_accepter (session_of i s) \<noteq> None"
      using inv_at_session [OF assms] that by (auto simp: session_ok_def)
    then show ?thesis
      using assms by (intro inv_update) (simp_all add: session_ok_joined inv_at_session)
  qed
  ultimately show ?thesis
    using assms by (auto simp: resume_session_def Let_def ok_or_def split: option.splits transfer_role.splits)
qed

lemma resume_loop_wp:
  assumes "server_inv s" "\<forall>i \<in> set is. i < length (sv_sessions s)"
  shows "wp (resume_loop e p pid tid role ticket is) (\<lambda>_. server_inv) server_inv s"
  using assms
proof (induction "is" arbitrary: s)
  case (Cons i "is")
  let ?I = "\<lambda>s'. server_inv s' \<and> length (sv_sessions s') = length (sv_sessions s)"
  have "wp (resume_session e p pid tid role ticket i) (\<lambda>_ s'. length (sv_sessions s') = length (sv_sessions s)) (\<lambda>s'. length (sv_sessions s') = length (sv_sessions s)) s"
    by (auto simp: resume_session_def Let_def ok_or_def split: option.splits transfer_role.splits)
  moreover have "wp (resume_session e p pid tid role ticket i) (\<lambda>_. inv_at i) (inv_at i) s"
    using Cons.prems by (intro resume_session_wp) (simp add: inv_at_def)
  ultimately have "wp (resume_session e p pid tid role ticket i) (\<lambda>_. ?I) ?I s"
    by (auto simp: wp_state inv_at_def)
  then show ?case
    using Cons.prems Cons.IH unfolding resume_loop.simps wp_simps
    by (auto elim!: wp_mono split: option.splits)
qed simp

section \<open>Routing\<close>

lemma prepare_offer_wp:
  assumes "inv_at i s" "\<And>c s'. inv_at i s' \<Longrightarrow> prepared_in (session_of i s') tid d \<Longrightarrow> Q c s'"
  shows "wp (prepare_offer e i tid d) Q (inv_at i) s"
proof -
  let ?rest = "\<lambda>st. \<lambda>r. st_bind (if pg_accepter st \<noteq> None then st_bind (ensure_accepter_ticket e 1 i tid r) (\<lambda>t. st_return (Some t)) else st_return None)
     (\<lambda>accepter_ticket. st_return \<lparr>rt_pairing_id = pg_id st, rt_expires_at = rs_expires_at_millis r, rt_offerer_writer = pr_writer (pg_offerer st),
        rt_accepter_writer = map_option pr_writer (pg_accepter st), rt_offerer_ticket = rs_offerer_ticket r, rt_accepter_ticket = accepter_ticket\<rparr>)"
  have rest: "wp (?rest st r) Q (inv_at i) s'"
    if s': "inv_at i s'" "map_of (pg_transfers (session_of i s')) tid = Some r" "rs_manifest_digest r = d" "pg_accepter (session_of i s') = pg_accepter st"
    for s' r st
  proof (cases "pg_accepter st = None")
    case True
    then show ?thesis
      using s' by (simp add: assms(2) prepared_in_def)
  next
    case False
    have "wp (ensure_accepter_ticket e 1 i tid r) (\<lambda>t s''. inv_at i s'' \<and> prepared_in (session_of i s'') tid d) (inv_at i) s'"
      using s' False by (intro accepter_ticket_wp [OF s'(1)]) (auto simp: prepared_in_def)
    then show ?thesis
      using False by (auto elim!: wp_mono intro: assms(2))
  qed
  have "wp (ensure_path_authorization e i tid)
      (\<lambda>_ s1. wp (ensure_resume_state e i tid d) (\<lambda>r. wp (?rest (session_of i s1) r) Q (inv_at i)) (inv_at i) s1) (inv_at i) s"
  proof (rule authorization_wp [where E = "inv_at i", OF assms(1) assms(1)])
    fix a s1 A
    assume s1: "inv_at i s1" "session_of i s1 = (session_of i s)\<lparr>pg_path_authorizations := A\<rparr>" "map_of A tid = Some a"
    show "wp (ensure_resume_state e i tid d) (\<lambda>r. wp (?rest (session_of i s1) r) Q (inv_at i)) (inv_at i) s1"
    proof (rule resume_state_wp [where E = "inv_at i", OF s1(1) s1(1)])
      show "tid \<in> dom (map_of (pg_path_authorizations (session_of i s1)))"
        using s1 by auto
    next
      fix r s' T
      assume "inv_at i s'" "session_of i s' = (session_of i s1)\<lparr>pg_transfers := T\<rparr>" "map_of T tid = Some r" "rs_manifest_digest r = d"
      then show "wp (?rest (session_of i s1) r) Q (inv_at i) s'"
        by (intro rest) simp_all
    qed
  qed
  then show ?thesis
    unfolding prepare_offer_def wp_simps by simp
qed

lemma route_target_wp:
  assumes "inv_at i s" "offers_prepared (session_of i s) [(m, request_id)]"
  shows "wp (route_target e i role m request_id) (\<lambda>_. inv_at i) (inv_at i) s"
proof -
  have "inv_at i (update_session i (\<lambda>st. st\<lparr>pg_pending_for_accepter := pg_pending_for_accepter st @ [(m, request_id)]\<rparr>) s)"
    if "pg_accepter (session_of i s) = None" "length (pg_pending_for_accepter (session_of i s)) < sg_max_pending_messages (sv_config s)"
    using assms that by (intro inv_update session_ok_pending) (simp_all add: inv_at_session)
  then show ?thesis
    using assms(1) by (auto simp: route_target_def split: option.splits peer_role.splits)
qed

section \<open>Relaying\<close>

lemma reserve_counter_exact:
  "reserve_counter v amount limit = Some w \<Longrightarrow> w = v + amount \<and> within limit w \<and> (limit \<noteq> 0 \<longrightarrow> unat w = unat v + unat amount)"
  by (auto simp: reserve_counter_def within_def result_simps word_nat_simps split: if_splits option.splits)

lemma session_ok_relay [simp]: "session_ok c (st\<lparr>pg_relay_bytes := v\<rparr>) = session_ok c st" "session_ok c (st\<lparr>pg_relay_slots := n\<rparr>) = session_ok c st"
  by (simp_all add: session_ok_def offers_prepared_def)

lemma reserve_wp:
  assumes I: "inv_at i s" and "n < 2 ^ 64"
  shows "wp (reserve_relay_bytes i n)
    (\<lambda>allowed s'. inv_at i s' \<and> allowed = n
       \<and> (rl_max_bytes_per_session (sg_relay (sv_config s')) \<noteq> 0 \<longrightarrow> forwarded i s' + n \<le> unat (pg_relay_bytes (session_of i s'))))
    (inv_at i) s"
proof -
  let ?c = "sg_relay (sv_config s)" and ?v = "pg_relay_bytes (session_of i s)" and ?a = "of_nat n :: u64"
  have a: "unat ?a = n"
    using assms(2) by (simp add: unat_of_nat_small)
  show ?thesis
  proof (cases "reserve_counter ?v ?a (rl_max_bytes_per_session ?c)")
    case None
    then show ?thesis
      using I by (simp add: reserve_relay_bytes_def Let_def)
  next
    case (Some v)
    let ?s1 = "update_session i (\<lambda>st. st\<lparr>pg_relay_bytes := v\<rparr>) s"
    note v = reserve_counter_exact [OF Some]
    have ok: "forwarded i s \<le> unat ?v" if "rl_max_bytes_per_session ?c \<noteq> 0"
      using inv_relay [OF I] that by (simp add: relay_ok_def Let_def)
    have s1: "inv_at i ?s1"
      using I v a ok by (intro inv_update_relay) (auto simp: inv_at_session)
    have restored: "inv_at i (update_session i (\<lambda>st. st\<lparr>pg_relay_bytes := pg_relay_bytes st - ?a\<rparr>) ?s1)"
      using s1 I v ok inv_relay [OF I] by (intro inv_update_relay) (auto simp: inv_at_session relay_ok_def Let_def)
    have total: "inv_at i (add_count sn_relay_bytes_update ?a (?s1\<lparr>sv_total_relay_bytes := t\<rparr>))"
      if "reserve_counter (sv_total_relay_bytes s) ?a (rl_max_bytes_total ?c) = Some t" for t
      using reserve_counter_exact [OF that, THEN conjunct1] reserve_counter_exact [OF that, THEN conjunct2, THEN conjunct1] s1
      by (simp add: inv_at_def server_inv_def add_count_def relay_ok_def Let_def session_of_def forwarded_def)
    have kept: "session_of i (add_count sn_relay_bytes_update ?a (?s1\<lparr>sv_total_relay_bytes := t\<rparr>)) = (session_of i s)\<lparr>pg_relay_bytes := v\<rparr>"
        "forwarded i (add_count sn_relay_bytes_update ?a (?s1\<lparr>sv_total_relay_bytes := t\<rparr>)) = forwarded i s"
        "sv_config (add_count sn_relay_bytes_update ?a (?s1\<lparr>sv_total_relay_bytes := t\<rparr>)) = sv_config s" for t
      using I by (simp_all add: add_count_def session_of_def forwarded_def update_session_def inv_at_def)
    have room: "forwarded i s + n \<le> unat v" if "rl_max_bytes_per_session ?c \<noteq> 0"
      using conjunct2 [OF conjunct2 [OF v]] a ok that by simp
    show ?thesis
      using Some restored total kept room
      by (cases "reserve_counter (sv_total_relay_bytes s) ?a (rl_max_bytes_total ?c)") (simp_all add: reserve_relay_bytes_def Let_def)
  qed
qed

fun read_fits :: "relay_read \<Rightarrow> bool" where
  "read_fits (ReadBytes bs _) \<longleftrightarrow> length bs < 2 ^ 64"
| "read_fits (ReadError _) = True"

lemma forward_inv:
  assumes "inv_at i s" "rl_max_bytes_per_session (sg_relay (sv_config s)) \<noteq> 0 \<longrightarrow> forwarded i s + length bs \<le> unat (pg_relay_bytes (session_of i s))"
  shows "inv_at i (s\<lparr>sv_forwarded := sv_forwarded s @ [(i, bs)]\<rparr>)"
proof -
  have "forwarded j (s\<lparr>sv_forwarded := sv_forwarded s @ [(i, bs)]\<rparr>) = forwarded j s + (if j = i then length bs else 0)" for j
    by (simp add: forwarded_def)
  then show ?thesis
    using assms by (auto simp: inv_at_def server_inv_def relay_ok_def Let_def session_of_def)
qed

lemma relay_loop_wp:
  assumes "inv_at i s" "list_all read_fits inputs"
  shows "wp (relay_loop i inputs) (\<lambda>_. inv_at i) (inv_at i) s"
  using assms
proof (induction i inputs arbitrary: s rule: relay_loop.induct)
  case (3 i bs write_error inputs)
  show ?case
  proof (cases "bs = []")
    case False
    have "wp (reserve_relay_bytes i (length bs)) (\<lambda>allowed. case write_error of
          Some err \<Rightarrow> inv_at i
        | None \<Rightarrow> (\<lambda>s. wp (if allowed \<noteq> length bs then st_fail (ascii ''relay byte quota exceeded'') else relay_loop i inputs) (\<lambda>_. inv_at i) (inv_at i)
            (s\<lparr>sv_forwarded := sv_forwarded s @ [(i, take allowed bs)]\<rparr>))) (inv_at i) s"
      using 3 False by (intro wp_mono [OF reserve_wp]) (auto split: option.splits intro!: "3.IH" forward_inv)
    then show ?thesis
      using False by (cases write_error) (simp_all only: relay_loop.simps if_False wp_simps option.case)
  qed (use 3 in simp)
qed simp_all

lemma ignore_wp: "wp m (\<lambda>_. I) I s \<Longrightarrow> wp (st_ignore m) (\<lambda>_. I) I s"
  by (simp add: wp_state st_ignore_def)

lemma relay_error_wp: "inv_at i s \<Longrightarrow> wp (send_relay_error e j code text) (\<lambda>_. inv_at i) (inv_at i) s"
  by (auto simp: send_relay_error_def Let_def split: option.splits intro!: send_wp)

lemma permits_inv:
  assumes "inv_at i s" "n + count_list p i = pg_relay_slots (session_of i s) + count_list (sv_permits s) i"
    and "\<And>j. j \<noteq> i \<Longrightarrow> count_list p j = count_list (sv_permits s) j" "set p \<subseteq> insert i (set (sv_permits s))"
  shows "inv_at i (update_session i (\<lambda>st. st\<lparr>pg_relay_slots := n\<rparr>) (s\<lparr>sv_permits := p\<rparr>))"
proof -
  let ?s = "update_session i (\<lambda>st. st\<lparr>pg_relay_slots := n\<rparr>) (s\<lparr>sv_permits := p\<rparr>)"
  have s: "session_of j ?s = (if j = i then (session_of i s)\<lparr>pg_relay_slots := n\<rparr> else session_of j s)" "forwarded j ?s = forwarded j s"
      "sv_permits ?s = p" "sv_config ?s = sv_config s" for j
    using assms(1) by (auto simp: update_session_def session_of_def forwarded_def inv_at_def)
  have "relay_ok ?s j" if "j < length (sv_sessions s)" for j
    using that assms unfolding relay_ok_def s by (auto simp: inv_at_def server_inv_def relay_ok_def Let_def)
  then show ?thesis
    using assms(1,4) by (auto simp: inv_at_def server_inv_def s)
qed

lemma relay_begin_wp:
  assumes "inv_at i s"
  shows "wp (relay_begin e i) (\<lambda>permitted s'. inv_at i s' \<and> (permitted \<longrightarrow> i \<in> set (sv_permits s'))) (inv_at i) s"
proof (cases "pg_relay_slots (session_of i s) = 0")
  case True
  have "wp (st_ignore (send_relay_error e i ERROR_RELAY_FAILED (ascii ''relay stream limit reached''))) (\<lambda>_. inv_at i) (inv_at i) s"
    using assms by (intro ignore_wp relay_error_wp)
  then show ?thesis
    using True by (auto simp: relay_begin_def)
next
  case False
  have "inv_at i (update_session i (\<lambda>st. st\<lparr>pg_relay_slots := pg_relay_slots (session_of i s) - 1\<rparr>) (s\<lparr>sv_permits := sv_permits s @ [i]\<rparr>))"
    using assms False by (intro permits_inv) auto
  then show ?thesis
    using False by (simp add: relay_begin_def)
qed

lemma relay_end_wp:
  assumes "inv_at i s" "i \<in> set (sv_permits s)"
  shows "wp (relay_end e i error) (\<lambda>_. inv_at i) (inv_at i) s"
proof -
  let ?f = "\<lambda>st. st\<lparr>pg_relay_slots := pg_relay_slots st + 1\<rparr>" and ?s = "s\<lparr>sv_permits := remove1 i (sv_permits s)\<rparr>"
  have count: "count_list (remove1 i xs) j = (if j = i then count_list xs j - 1 else count_list xs j)" if "i \<in> set xs" for xs j
    using that by (induction xs) (auto simp: count_list_0_iff split: if_splits)
  have pos: "0 < count_list (sv_permits s) i"
    using assms(2) by (simp add: count_list_0_iff neq0_conv [symmetric])
  have "update_session i ?f ?s = update_session i (\<lambda>st. st\<lparr>pg_relay_slots := pg_relay_slots (session_of i s) + 1\<rparr>) ?s"
    by (simp add: update_session_def session_of_def)
  also have "inv_at i \<dots>"
    using assms pos count [OF assms(2)] by (intro permits_inv) (auto dest: notin_set_remove1 set_remove1_subset [THEN subsetD])
  finally have "inv_at i (update_session i ?f ?s)" .
  then show ?thesis
    by (auto simp: relay_end_def split: option.splits intro!: ignore_wp relay_error_wp)
qed

end
