(* ===== verification/Pairing_Reach.thy ===== *)
theory Pairing_Reach
  imports Pairing_Invariant
begin

text \<open>
  The servers that can be reached by any interleaving of the parts of the handlers that hold a mutex or touch an atomic counter, and that the
  handlers consist of such parts: handling a message without interruption leads from a reachable server to a reachable one. A chunk that a
  relay reads is one step.
\<close>

section \<open>Steps\<close>

lemma inv_fewer_pairings: "server_inv s \<Longrightarrow> server_inv (s\<lparr>sv_pairings := filter P (sv_pairings s)\<rparr>)"
  by (auto simp: server_inv_def relay_ok_def session_of_def forwarded_def distinct_map_filter
      intro: le_trans [OF length_filter_le])

lemma purge_inv: "server_inv s \<Longrightarrow> server_inv (purge_expired e s)"
  by (auto simp: purge_expired_def purge_expired_blocking_def Let_def inv_fewer_pairings)

lemma insert_pairing_wp:
  assumes "server_inv s" "st = pairing_new e (sv_config s) p ttl pid rid ticket"
  shows "wp (insert_pairing key st) inv_at server_inv s"
proof -
  let ?s = "s\<lparr>sv_sessions := sv_sessions s @ [st], sv_pairings := sv_pairings s @ [(key, length (sv_sessions s))]\<rparr>"
  have "inv_at (length (sv_sessions s)) ?s"
    if "length (sv_pairings s) < sg_max_pairings (sv_config s)" "key \<notin> fst ` set (sv_pairings s)"
  proof -
    have new: "session_ok (sv_config s) st" "pg_relay_bytes st = 0" "pg_relay_slots st = rl_max_streams_per_session (sg_relay (sv_config s))"
      by (simp_all add: assms(2) pairing_new_def session_ok_def offers_prepared_def)
    have none: "count_list (sv_permits s) (length (sv_sessions s)) = 0" "forwarded (length (sv_sessions s)) s = 0"
      using assms(1) by (force simp: server_inv_def count_list_0_iff forwarded_def filter_empty_conv)+
    have "session_of j ?s = (if j < length (sv_sessions s) then session_of j s else st)" if "j < Suc (length (sv_sessions s))" for j
      using that by (auto simp: session_of_def nth_append)
    moreover have "forwarded j ?s = forwarded j s" for j
      by (simp add: forwarded_def)
    ultimately show ?thesis
      using assms(1) that new none
      by (auto simp: inv_at_def server_inv_def relay_ok_def Let_def within_def less_Suc_eq)
  qed
  then show ?thesis
    using assms(1) by (auto simp: insert_pairing_def)
qed

text \<open>A task that routes an offer has prepared it before (\<open>target\<close>), a relay that passes on a chunk or ends has taken a permit before.\<close>

inductive server_step :: "server \<Rightarrow> server \<Rightarrow> bool" where
  purge: "server_step s (purge_expired e s)"
| create: "server_step s (snd (insert_pairing key (pairing_new e (sv_config s) p ttl pid rid ticket) s))"
| created: "server_step s (add_count sn_created_pairings_update 1 s)"
| join: "i < length (sv_sessions s) \<Longrightarrow> server_step s (snd (join_session e i p s))"
| joined: "server_step s (add_count sn_joined_pairings_update 1 s)"
| resume: "i < length (sv_sessions s) \<Longrightarrow> server_step s (snd (resume_session e p pid tid role t i s))"
| offer: "i < length (sv_sessions s) \<Longrightarrow> server_step s (snd (prepare_offer e i tid d s))"
| target: "i < length (sv_sessions s) \<Longrightarrow> offers_prepared (session_of i s) [(m, request_id)] \<Longrightarrow>
    server_step s (snd (route_target e i prole m request_id s))"
| send: "server_step s (s\<lparr>sv_outbox := sv_outbox s @ [(w, m, request_id)]\<rparr>)"
| spawn: "server_step s (s\<lparr>sv_relays := sv_relays s @ relays\<rparr>)"
| relay_start: "i < length (sv_sessions s) \<Longrightarrow> server_step s (snd (relay_begin e i s))"
| relay_chunk: "i \<in> set (sv_permits s) \<Longrightarrow> read_fits input \<Longrightarrow> server_step s (snd (relay_loop i [input] s))"
| relay_stop: "i \<in> set (sv_permits s) \<Longrightarrow> server_step s (snd (relay_end e i error s))"

definition server_reachable :: "server_config \<Rightarrow> server \<Rightarrow> bool" where
  "server_reachable c s \<longleftrightarrow> server_step\<^sup>*\<^sup>* (server_new c) s"

lemma reachable_step: "server_reachable c s \<Longrightarrow> server_step s s' \<Longrightarrow> server_reachable c s'"
  unfolding server_reachable_def by (rule rtranclp.rtrancl_into_rtrancl)

text \<open>No part of a handler changes the configuration, and none but \<open>insert_pairing\<close> the number of sessions.\<close>

definition shape :: "server_config \<Rightarrow> nat \<Rightarrow> server \<Rightarrow> bool" where
  "shape c n s \<longleftrightarrow> sv_config s = c \<and> length (sv_sessions s) = n"

lemma shape_simps [simp]:
  "shape c n (add_count field k s) = shape c n s" "shape c n (purge_expired e s) = shape c n s"
  "shape c n (update_session i f s) = shape c n s" "shape c n (s\<lparr>sv_outbox := x\<rparr>) = shape c n s"
  "shape c n (s\<lparr>sv_relays := y\<rparr>) = shape c n s" "shape c n (s\<lparr>sv_permits := p\<rparr>) = shape c n s"
  "shape c n (s\<lparr>sv_forwarded := q\<rparr>) = shape c n s" "shape c n (s\<lparr>sv_total_relay_bytes := v\<rparr>) = shape c n s"
  by (auto simp: shape_def add_count_def purge_expired_def purge_expired_blocking_def Let_def)

lemma config_count: "sv_config (add_count field k s) = sv_config s"
  by (simp add: add_count_def)

lemma config_purge: "sv_config (purge_expired e s) = sv_config s"
  by (auto simp: purge_expired_def purge_expired_blocking_def Let_def add_count_def)

lemma shape_ignore: "keeps I m \<Longrightarrow> keeps I (st_ignore m)"
  by (simp add: keeps_def st_ignore_def)

lemma shape_send: "keeps (shape c n) (send_message e w m r)"
  by (auto simp: send_message_def split: sum.splits option.splits intro!: keeps_intros)

text \<open>Parts that only update their session keep whatever such updates keep.\<close>

lemma update_tickets:
  assumes "\<And>f s. I s \<Longrightarrow> I (update_session i f s)"
  shows "keeps I (ensure_path_authorization e i tid)" "keeps I (ensure_resume_state e i tid d)" "keeps I (ensure_accepter_ticket e k i tid r)"
  using assms by (auto simp: ensure_path_authorization_def ensure_resume_state_def ensure_accepter_ticket_def Let_def
      split: option.splits intro!: keeps_intros)

lemma update_authorize:
  assumes "\<And>f s. I s \<Longrightarrow> I (update_session i f s)"
  shows "keeps I (authorize_first e i pending)"
  using update_tickets(1) [of I i, OF assms]
  by (auto simp: authorize_first_def keeps_def split: option.splits prod.splits sum.splits) (metis snd_conv)+

lemma update_pending_tickets:
  assumes "\<And>f s. I s \<Longrightarrow> I (update_session i f s)"
  shows "keeps I (pending_tickets e k i pending tickets)"
proof (induction pending arbitrary: k tickets)
  case (Cons x pending)
  show ?case
    by (cases x) (auto split: option.splits intro!: keeps_intros update_tickets assms Cons.IH)
qed (simp only: pending_tickets.simps keeps_basic)

lemma update_join:
  assumes "\<And>f s. I s \<Longrightarrow> I (update_session i f s)" "\<And>s. I s \<Longrightarrow> I (add_count sn_rejected_joins_update 1 s)"
  shows "keeps I (join_session e i p)"
  unfolding join_session_def by (intro keeps_intros update_authorize update_pending_tickets assms)

lemma shape_join: "keeps (shape c n) (join_session e i p)"
  by (rule update_join) simp_all

lemma shape_resume: "keeps (shape c n) (resume_session e p pid tid role ticket i)"
  unfolding resume_session_def by (auto simp: Let_def split: option.splits transfer_role.splits intro!: keeps_intros)

lemma shape_offer: "keeps (shape c n) (prepare_offer e i tid d)"
  unfolding prepare_offer_def by (intro keeps_intros update_tickets) simp_all

lemma shape_target: "keeps (shape c n) (route_target e i prole m r)"
  unfolding route_target_def by (auto split: option.splits peer_role.splits intro!: keeps_intros)

lemma shape_relay:
  "keeps (shape c n) (relay_begin e i)" "keeps (shape c n) (relay_loop i inputs)" "keeps (shape c n) (relay_end e i error)"
proof -
  have error: "keeps (shape c n) (st_ignore (send_relay_error e i code msg))" for code msg
    unfolding send_relay_error_def Let_def by (intro shape_ignore keeps_intros shape_send)
  show "keeps (shape c n) (relay_begin e i)" "keeps (shape c n) (relay_end e i error)"
    unfolding relay_begin_def relay_end_def by (intro keeps_intros error; simp)+
  have reserve: "keeps (shape c n) (reserve_relay_bytes i k)" for k
    unfolding reserve_relay_bytes_def Let_def by (intro keeps_intros; simp)
  show "keeps (shape c n) (relay_loop i inputs)"
  proof (induction inputs)
    case (Cons x inputs)
    show ?case
    proof (cases x)
      case (ReadBytes bs write_error)
      then show ?thesis
        by (simp only: relay_loop.simps) (intro keeps_intros reserve Cons.IH; simp)
    qed (simp only: relay_loop.simps keeps_basic)
  qed (simp only: relay_loop.simps keeps_basic)
qed

lemmas shape_kept = shape_join shape_resume shape_offer shape_target shape_relay

lemma shape_run: "keeps (shape c n) m \<Longrightarrow> shape c n s \<Longrightarrow> sv_config (snd (m s)) = c \<and> length (sv_sessions (snd (m s))) = n"
  by (simp add: keeps_def shape_def)

lemma step_config: "keeps (shape (sv_config s) (length (sv_sessions s))) m \<Longrightarrow> sv_config (snd (m s)) = sv_config s"
  by (simp add: keeps_def shape_def)

lemma step_length: "keeps (shape (sv_config s) (length (sv_sessions s))) m \<Longrightarrow> length (sv_sessions (snd (m s))) = length (sv_sessions s)"
  by (simp add: keeps_def shape_def)

text \<open>A step keeps the configuration and the invariant; every reachable server has them.\<close>

lemma server_step_inv:
  assumes "server_step s s'" "server_inv s"
  shows "server_inv s' \<and> sv_config s' = sv_config s"
  using assms
proof (induction rule: server_step.induct)
  case (create s key e p ttl pid rid ticket)
  then have "wp (insert_pairing key (pairing_new e (sv_config s) p ttl pid rid ticket)) inv_at server_inv s"
    by (intro insert_pairing_wp) auto
  then have "server_inv (snd (insert_pairing key (pairing_new e (sv_config s) p ttl pid rid ticket) s))"
    by (auto simp: wp_def inv_at_def split: prod.splits sum.splits)
  then show ?case
    by (simp add: insert_pairing_def st_then_def)
next
  case (relay_chunk i s input)
  have "wp (relay_loop i [input]) (\<lambda>_. inv_at i) (inv_at i) s"
    using relay_chunk by (intro relay_loop_wp) (auto simp: inv_at_def server_inv_def)
  then show ?case
    by (simp add: wp_state inv_at_def step_config shape_kept)
next
  case (relay_stop i s e error)
  have "wp (relay_end e i error) (\<lambda>_. inv_at i) (inv_at i) s"
    using relay_stop by (intro relay_end_wp) (auto simp: inv_at_def server_inv_def)
  then show ?case
    by (simp add: wp_state inv_at_def step_config shape_kept)
next
  case (relay_start i s e)
  then have "wp (relay_begin e i) (\<lambda>_. inv_at i) (inv_at i) s"
    by (intro wp_mono [OF relay_begin_wp]) (auto simp: inv_at_def)
  then show ?case
    by (simp add: wp_state inv_at_def step_config shape_kept)
next
  case (join i s e p)
  with join_session_wp [of i s e p] show ?case
    by (simp add: wp_state inv_at_def step_config shape_kept)
next
  case (resume i s e p pid tid role t)
  with resume_session_wp [of i s e p pid tid role t] show ?case
    by (simp add: wp_state inv_at_def step_config shape_kept)
next
  case (offer i s e tid d)
  then have "wp (prepare_offer e i tid d) (\<lambda>_. inv_at i) (inv_at i) s"
    by (intro prepare_offer_wp) (auto simp: inv_at_def)
  then show ?case
    by (simp add: wp_state inv_at_def step_config shape_kept)
next
  case (target i s m request_id e prole)
  with route_target_wp [of i s m request_id e prole] show ?case
    by (simp add: wp_state inv_at_def step_config shape_kept)
qed (simp_all add: purge_inv config_purge config_count)

lemma server_reachable_inv: "server_reachable c s \<Longrightarrow> server_inv s \<and> sv_config s = c"
proof -
  assume "server_reachable c s"
  then have "server_step\<^sup>*\<^sup>* (server_new c) s"
    by (simp add: server_reachable_def)
  then show ?thesis
  proof (induction rule: rtranclp_induct)
    case base
    then show ?case by (simp add: server_new_inv) (simp add: server_new_def)
  qed (auto dest: server_step_inv)
qed

section \<open>What is prepared stays prepared\<close>

text \<open>A task runs \<open>prepare_offer\<close> and later, perhaps after steps of others, \<open>route_target\<close>: what the first has entered is still there.\<close>

definition has_offer :: "session_ref \<Rightarrow> transfer_id \<Rightarrow> digest \<Rightarrow> server \<Rightarrow> bool" where
  "has_offer j tid d s \<longleftrightarrow> j < length (sv_sessions s) \<and> prepared_in (session_of j s) tid d"

lemma has_offer_simps [simp]:
  "has_offer j tid d (add_count field k s) = has_offer j tid d s" "has_offer j tid d (purge_expired e s) = has_offer j tid d s"
  "has_offer j tid d (s\<lparr>sv_outbox := x\<rparr>) = has_offer j tid d s" "has_offer j tid d (s\<lparr>sv_relays := y\<rparr>) = has_offer j tid d s"
  "has_offer j tid d (s\<lparr>sv_permits := p\<rparr>) = has_offer j tid d s" "has_offer j tid d (s\<lparr>sv_forwarded := q\<rparr>) = has_offer j tid d s"
  "has_offer j tid d (s\<lparr>sv_total_relay_bytes := v\<rparr>) = has_offer j tid d s"
  by (auto simp: has_offer_def session_of_def add_count_def purge_expired_def purge_expired_blocking_def Let_def)

lemma has_offer_update:
  assumes "has_offer j tid d s" "\<And>x. rs_manifest_digest x = d \<Longrightarrow> map_of (pg_transfers (session_of i s)) tid = Some x \<Longrightarrow> prepared_in (f (session_of i s)) tid d"
  shows "has_offer j tid d (update_session i f s)"
proof (cases "i < length (sv_sessions s)")
  case True
  then show ?thesis using assms by (auto simp: has_offer_def session_of_update prepared_in_def)
next
  case False
  then have "update_session i f s = s" by (simp add: update_session_def list_update_beyond)
  then show ?thesis using assms(1) by simp
qed

lemma has_offer_same:
  "(\<And>st. pg_transfers (f st) = pg_transfers st) \<Longrightarrow> has_offer j tid d s \<Longrightarrow> has_offer j tid d (update_session i f s)"
  by (rule has_offer_update) (auto simp: prepared_in_def)

lemma has_offer_authorization: "keeps (has_offer j tid d) (ensure_path_authorization e i t)"
  unfolding ensure_path_authorization_def Let_def by (intro keeps_intros) (auto intro: has_offer_same)

lemma has_offer_resume: "keeps (has_offer j tid d) (ensure_resume_state e i t d')"
  by (auto simp: keeps_def ensure_resume_state_def random_ticket_def ok_or_def Let_def prepared_in_def update_conv'
      split: option.splits intro!: has_offer_update)

lemma has_offer_ticket:
  "map_of (pg_transfers (session_of i s)) t = Some r \<Longrightarrow> has_offer j tid d s \<Longrightarrow> has_offer j tid d (snd (ensure_accepter_ticket e k i t r s))"
  by (auto simp: ensure_accepter_ticket_def random_ticket_def ok_or_def prepared_in_def update_conv' st_then_def
      split: option.splits intro!: has_offer_update)

lemma has_offer_pending_tickets: "keeps (has_offer j tid d) (pending_tickets e k i pending tickets)"
proof (induction pending arbitrary: k tickets)
  case (Cons x pending)
  obtain m request_id where x: "x = (m, request_id)" by (cases x)
  show ?case
  proof (cases "offer_of m")
    case None
    then show ?thesis using Cons.IH by (simp add: x)
  next
    case (Some td)
    obtain t d' where td: "td = (t, d')" by (cases td)
    have "has_offer j tid d (snd (st_bind (ensure_accepter_ticket e k i t r) (\<lambda>ticket. pending_tickets e (k + 1) i pending (f ticket)) s))"
      if "has_offer j tid d s" "map_of (pg_transfers (session_of i s)) t = Some r" for s r f
      using has_offer_ticket [OF that(2,1), of e k] Cons.IH
      by (auto simp: st_bind_def keeps_def split: prod.splits sum.splits)
    then show ?thesis
      by (auto simp: x Some td keeps_def split: option.splits)
  qed
qed (simp only: pending_tickets.simps keeps_basic)

lemma has_offer_authorize: "keeps (has_offer j tid d) (authorize_first e i pending)"
  using has_offer_authorization [of j tid d e i]
  by (auto simp: authorize_first_def keeps_def split: option.splits prod.splits sum.splits) (metis snd_conv)+

lemma has_offer_join: "keeps (has_offer j tid d) (join_session e i p)"
  unfolding join_session_def
  by (intro keeps_intros has_offer_authorize has_offer_pending_tickets) (auto intro: has_offer_same)

lemma has_offer_resume_session: "keeps (has_offer j tid d) (resume_session e p pid t role ticket i)"
  unfolding resume_session_def
  by (auto simp: Let_def split: option.splits transfer_role.splits intro!: keeps_intros has_offer_same)

lemma resume_state_found:
  assumes "ensure_resume_state e i t d s = (Inr r, s')" "i < length (sv_sessions s)"
  shows "map_of (pg_transfers (session_of i s')) t = Some r"
  using assms by (auto simp: ensure_resume_state_def random_ticket_def ok_or_def Let_def session_of_update update_conv' st_then_def
      split: option.splits if_splits)

lemma has_offer_prepare:
  assumes "has_offer j tid d s" "i < length (sv_sessions s)"
  shows "has_offer j tid d (snd (prepare_offer e i t d' s))"
proof -
  have "i < length (sv_sessions s1)" if "ensure_path_authorization e i t s = (Inr a, s1)" for a s1
    using step_length [OF update_tickets(1) [of _ i e t], of s] that assms(2) by simp
  moreover have "has_offer j tid d s1" if "ensure_path_authorization e i t s = (a, s1)" for a s1
    using keepsD [OF has_offer_authorization assms(1), of e i t] that by simp
  moreover have "has_offer j tid d s2" if "ensure_resume_state e i t d' s1 = (r, s2)" "has_offer j tid d s1" for r s1 s2
    using keepsD [OF has_offer_resume that(2), of e i t d'] that(1) by simp
  moreover have "has_offer j tid d s3" if "ensure_accepter_ticket e 1 i t r s2 = (x, s3)" "map_of (pg_transfers (session_of i s2)) t = Some r"
    "has_offer j tid d s2" for r s2 x s3
    using has_offer_ticket [OF that(2,3), of e 1] that(1) by simp
  ultimately show ?thesis
    by (auto simp: prepare_offer_def st_bind_def split: prod.splits sum.splits) (metis resume_state_found)+
qed

lemma has_offer_target: "keeps (has_offer j tid d) (route_target e i prole m r)"
  unfolding route_target_def by (auto split: option.splits peer_role.splits intro!: keeps_intros has_offer_same)

lemma has_offer_relay:
  "keeps (has_offer j tid d) (relay_begin e i)" "keeps (has_offer j tid d) (relay_loop i [input])" "keeps (has_offer j tid d) (relay_end e i error)"
proof -
  have error: "keeps (has_offer j tid d) (st_ignore (send_relay_error e i code msg))" for code msg
    unfolding send_relay_error_def send_message_def Let_def by (intro shape_ignore keeps_intros) simp_all
  show "keeps (has_offer j tid d) (relay_begin e i)" "keeps (has_offer j tid d) (relay_end e i error)"
    unfolding relay_begin_def relay_end_def by (intro keeps_intros error; auto intro: has_offer_same)+
  have reserve: "keeps (has_offer j tid d) (reserve_relay_bytes i k)" for k
    unfolding reserve_relay_bytes_def Let_def by (intro keeps_intros; auto intro: has_offer_same)
  show "keeps (has_offer j tid d) (relay_loop i [input])"
  proof (cases input)
    case (ReadBytes bs write_error)
    then show ?thesis
      by (simp only: relay_loop.simps) (intro keeps_intros reserve; simp)
  qed (simp only: relay_loop.simps keeps_basic)
qed

lemma prepared_stable:
  assumes "server_step s s'" "has_offer j tid d s"
  shows "has_offer j tid d s'"
  using assms
proof (induction rule: server_step.induct)
  case (create s key e p ttl pid rid ticket)
  then show ?case
    by (auto simp: insert_pairing_def st_then_def has_offer_def session_of_def nth_append)
qed (simp_all add: has_offer_join keepsD has_offer_resume_session has_offer_prepare has_offer_target has_offer_relay)

section \<open>Handlers\<close>

definition live :: "server_config \<Rightarrow> session_ref \<Rightarrow> server \<Rightarrow> bool" where
  "live c i s \<longleftrightarrow> server_reachable c s \<and> i < length (sv_sessions s)"

lemma live_step:
  assumes "server_reachable c s" "server_step s (snd (m s))" "keeps (shape (sv_config s) (length (sv_sessions s))) m" "i < length (sv_sessions s)"
  shows "wp m (\<lambda>_. live c i) (live c i) s"
  using assms by (simp add: wp_state live_def step_length reachable_step)

lemma wp_conj: "wp m Q E s \<Longrightarrow> wp m Q' E' s \<Longrightarrow> wp m (\<lambda>x s. Q x s \<and> Q' x s) (\<lambda>s. E s \<and> E' s) s"
  by (auto simp: wp_def split: prod.splits sum.splits)

text \<open>What is sent and started in between.\<close>

definition sends :: "unit server_op \<Rightarrow> bool" where
  "sends m \<longleftrightarrow> (\<forall>s. server_step\<^sup>*\<^sup>* s (snd (m s)) \<and> sv_sessions (snd (m s)) = sv_sessions s)"

lemma sends_intros:
  "sends (send_message e w m r)" "sends (send_error e w code msg)" "sends (st_return ())" "sends (st_fail err)" "sends (st_lift x)"
  "sends (st_modify (\<lambda>s. s\<lparr>sv_relays := sv_relays s @ relays\<rparr>))"
  by (auto simp: sends_def send_message_def send_error_def split: sum.splits option.splits intro: server_step.send server_step.spawn)

lemma sends_then: "sends m \<Longrightarrow> sends k \<Longrightarrow> sends (st_then m k)"
  by (auto simp: sends_def st_then_def st_bind_def split: prod.splits sum.splits) (metis rtranclp_trans snd_conv)+

lemma sends_bind_read: "(\<And>x. sends (f x)) \<Longrightarrow> sends (st_bind (st_read g) f)"
  by (simp add: sends_def)

lemma sends_ignore: "sends m \<Longrightarrow> sends (st_ignore m)"
  by (simp add: sends_def st_ignore_def)

lemma sends_for: "(\<And>x. sends (f x)) \<Longrightarrow> sends (st_for xs f)"
  by (induction xs) (simp_all add: sends_intros sends_then del: st_run)

lemma sends_wp:
  assumes "sends m" "server_reachable c s" "\<And>s'. server_reachable c s' \<Longrightarrow> sv_sessions s' = sv_sessions s \<Longrightarrow> Q () s'"
    and "\<And>s'. server_reachable c s' \<Longrightarrow> sv_sessions s' = sv_sessions s \<Longrightarrow> E s'"
  shows "wp m Q E s"
proof -
  obtain r s' where m: "m s = (r, s')" by (cases "m s")
  have "server_reachable c s'" "sv_sessions s' = sv_sessions s"
    using assms(1,2) m by (auto simp: sends_def server_reachable_def dest: spec [of _ s])
  then show ?thesis
    using assms(3,4) m by (auto simp: wp_def split: sum.splits)
qed

lemma live_sessions: "live c i s \<Longrightarrow> server_reachable c s' \<Longrightarrow> sv_sessions s' = sv_sessions s \<Longrightarrow> live c i s'"
  by (simp add: live_def)

lemma live_sends: "sends m \<Longrightarrow> live c i s \<Longrightarrow> wp m (\<lambda>_. live c i) (live c i) s"
  by (rule sends_wp) (auto simp: live_def)

lemma reach_purge: "server_reachable c s \<Longrightarrow> server_reachable c (purge_expired e s)"
  by (blast intro: reachable_step server_step.purge)

lemma create_reachable:
  assumes "server_reachable c s"
  shows "wp (create_pairing e p requested) (\<lambda>(i, m). live c i) (server_reachable c) s"
proof -
  let ?s = "purge_expired e s"
  have "wp (insert_pairing key (pairing_new e (sv_config ?s) p ttl pid rid ticket)) (\<lambda>i s'. live c i (add_count sn_created_pairings_update 1 s'))
      (server_reachable c) ?s" (is "wp ?m _ _ _") for key ttl pid rid ticket
  proof -
    have "server_reachable c (snd (?m ?s))"
      by (rule reachable_step [OF reach_purge [OF assms] server_step.create])
    moreover have "i < length (sv_sessions s')" if "?m ?s = (Inr i, s')" for i s'
      using that by (auto simp: insert_pairing_def st_then_def split: if_splits)
    ultimately show ?thesis
      by (auto simp: wp_def live_def add_count_def split: prod.splits sum.splits
          intro: reachable_step [OF _ server_step.created, unfolded add_count_def])
  qed
  then show ?thesis
    using reach_purge [OF assms] by (auto simp: create_pairing_def Let_def random_ticket_def ok_or_def split: option.splits)
qed

lemma join_reachable:
  assumes "server_reachable c s"
  shows "wp (join_pairing e p code) (\<lambda>(i, responses). live c i) (server_reachable c) s"
proof -
  let ?s = "purge_expired e s"
  have s: "server_reachable c ?s"
    using assms by (rule reach_purge)
  have session: "live c i ?s" if "map_of (sv_pairings ?s) key = Some i" for i key
    using server_reachable_inv [OF s] s map_of_SomeD [OF that] by (force simp: live_def server_inv_def)
  have rest: "wp (join_answer e i p j) (\<lambda>(i, responses). live c i) (server_reachable c) s'" if "live c i s'" for i j s'
  proof -
    have "live c i (add_count sn_joined_pairings_update 1 s')"
      using that by (auto simp: live_def add_count_def intro: reachable_step [OF _ server_step.joined, unfolded add_count_def])
    then show ?thesis
      by (auto simp: join_answer_def Let_def live_def intro: reachable_step [OF _ server_step.spawn] split: sum.splits)
  qed
  have "wp (st_bind (join_session e i p) (join_answer e i p)) (\<lambda>(i, responses). live c i) (server_reachable c) ?s"
    if "map_of (sv_pairings ?s) key = Some i" for i key
  proof -
    have "wp (join_session e i p) (\<lambda>_. live c i) (live c i) ?s"
      using session [OF that] by (intro live_step server_step.join shape_join) (auto simp: live_def)
    then show ?thesis
      unfolding wp_simps(1) by (rule wp_mono) (simp_all add: rest live_def [of c i "_ :: server"])
  qed
  then show ?thesis
    using s unfolding join_pairing_def wp_simps ok_or_def by (auto split: option.splits)
qed

lemma resume_reachable:
  assumes "server_reachable c s" "\<forall>i \<in> set (se_order e). i < length (sv_sessions s)"
  shows "wp (resume_transfer e p pid tid role ticket) (\<lambda>(i, _). live c i) (server_reachable c) s"
proof -
  have "wp (resume_loop e p pid tid role ticket is) (\<lambda>(i, _). live c i) (server_reachable c) s" if "\<forall>i \<in> set is. i < length (sv_sessions s)" for "is"
    using that assms(1)
  proof (induction "is" arbitrary: s)
    case (Cons i "is")
    let ?I = "\<lambda>s'. server_reachable c s' \<and> length (sv_sessions s') = length (sv_sessions s)"
    have "?I (snd (resume_session e p pid tid role ticket i s))"
      using Cons.prems by (auto intro: reachable_step server_step.resume step_length shape_resume)
    then have "wp (resume_session e p pid tid role ticket i) (\<lambda>_. ?I) ?I s"
      by (simp add: wp_state)
    moreover have "wp (resume_session e p pid tid role ticket i) (\<lambda>r _. \<forall>x. r = Some x \<longrightarrow> fst x = i) (\<lambda>_. True) s"
      by (auto simp: resume_session_def Let_def split: option.splits transfer_role.splits sum.splits)
    ultimately have "wp (resume_session e p pid tid role ticket i) (\<lambda>r s'. ?I s' \<and> (\<forall>x. r = Some x \<longrightarrow> fst x = i)) (\<lambda>s'. ?I s' \<and> True) s"
      by (rule wp_conj)
    then show ?case
      using Cons.prems(1) Cons.IH unfolding resume_loop.simps wp_simps
      by (auto elim!: wp_mono simp: live_def [of c i "_ :: server"] split: option.splits)
  qed simp
  then show ?thesis
    using assms(2) by (simp add: resume_transfer_def)
qed

text \<open>Routing: between \<open>prepare_offer\<close> and \<open>route_target\<close> messages are sent only.\<close>

lemma sends_option: "sends k \<Longrightarrow> (\<And>x. sends (f x)) \<Longrightarrow> sends (case y of None \<Rightarrow> k | Some x \<Rightarrow> f x)"
  by (cases y) simp_all

lemma sends_if: "sends k \<Longrightarrow> sends l \<Longrightarrow> sends (if b then k else l)"
  by simp

lemma sends_lift: "(\<And>x. sends (f x)) \<Longrightarrow> sends (st_bind (st_lift r) f)"
  by (cases r) (simp_all add: sends_intros del: st_run)

lemmas sends_rules = sends_intros sends_then sends_bind_read sends_ignore sends_for sends_option sends_if sends_lift

lemma sends_route:
  "sends (send_tickets e tid d r x)" "sends (validate_path_authorization e i m)" "sends (send_offer_route e i tid r)"
  "sends (route_to e i prole m r source peer)" "sends (send_relay_error e i code msg)"
  unfolding send_tickets_def validate_path_authorization_def send_offer_route_def route_to_def send_relay_error_def Let_def
  by (auto split: option.splits message.splits pairing_control.splits simp del: st_run intro!: sends_rules)

definition live_offer :: "server_config \<Rightarrow> session_ref \<Rightarrow> message \<Rightarrow> u64 \<Rightarrow> server \<Rightarrow> bool" where
  "live_offer c i m r s \<longleftrightarrow> live c i s \<and> offers_prepared (session_of i s) [(m, r)]"

lemma live_offer_sends: "sends k \<Longrightarrow> live_offer c i m r s \<Longrightarrow> wp k (\<lambda>_. live_offer c i m r) (live c i) s"
  by (rule sends_wp) (auto simp: live_offer_def live_def session_of_def)

lemma prepare_live:
  assumes "live c i s" "offer_of m = Some (tid, d)"
  shows "wp (prepare_offer e i tid d) (\<lambda>_. live_offer c i m r) (live c i) s"
proof -
  have "inv_at i s"
    using assms(1) server_reachable_inv by (auto simp: live_def inv_at_def)
  then have "wp (prepare_offer e i tid d) (\<lambda>_ s'. offers_prepared (session_of i s') [(m, r)]) (\<lambda>_. True) s"
    by (intro wp_mono [OF prepare_offer_wp [where Q = "\<lambda>_ s'. prepared_in (session_of i s') tid d"]])
      (auto simp: offers_prepared_def prepared_in_def assms(2))
  moreover have "wp (prepare_offer e i tid d) (\<lambda>_. live c i) (live c i) s"
    using assms(1) by (intro live_step server_step.offer shape_offer) (auto simp: live_def)
  ultimately show ?thesis
    using wp_conj by (fastforce simp: live_offer_def elim: wp_mono)
qed

lemma target_live: "live_offer c i m r s \<Longrightarrow> wp (route_target e i prole m r) (\<lambda>_. live c i) (live c i) s"
  by (intro live_step server_step.target shape_target) (auto simp: live_offer_def live_def)

lemma route_live:
  assumes "live c i s"
  shows "wp (route_message env i prole m r source) (\<lambda>_. live c i) (live c i) s"
proof -
  let ?offer = "case offer_of m of
      Some (tid, d) \<Rightarrow> st_bind (prepare_offer (env 0) i tid d) (send_tickets (env 1) tid d r) | None \<Rightarrow> st_return ()"
  let ?deliver = "\<lambda>target. case target of
        None \<Rightarrow> st_return ()
      | Some peer \<Rightarrow> st_then (case offer_of m of Some (tid, _) \<Rightarrow> send_offer_route (env 4) i tid r | None \<Rightarrow> st_return ())
          (route_to (env 5) i prole m r source peer)"
  have offer: "wp ?offer (\<lambda>_. live_offer c i m r) (live c i) s"
  proof (cases "offer_of m")
    case None
    then show ?thesis using assms by (simp add: live_offer_def offers_prepared_def)
  next
    case (Some td)
    obtain tid d where td: "td = (tid, d)" by (cases td)
    show ?thesis
      using wp_mono [OF prepare_live [OF assms, of m tid d "env 0" r]] live_offer_sends sends_route(1) by (simp add: Some td)
  qed
  have deliver: "wp (?deliver target) (\<lambda>_. live c i) (live c i) s'" if "live c i s'" for target s'
    by (rule live_sends [OF _ that]) (auto split: option.splits prod.splits intro!: sends_rules sends_route simp del: st_run)
  have "wp (st_bind (route_target (env 3) i prole m r) ?deliver) (\<lambda>_. live c i) (live c i) s'" if "live_offer c i m r s'" for s'
    unfolding wp_simps(1) by (rule wp_mono [OF target_live [OF that]]) (use deliver in auto)
  then have "wp (validate_path_authorization (env 2) i m) (\<lambda>_. wp (st_bind (route_target (env 3) i prole m r) ?deliver) (\<lambda>_. live c i) (live c i)) (live c i) s'"
    if "live_offer c i m r s'" for s'
    by (intro wp_mono [OF live_offer_sends [OF sends_route(2) that]]) auto
  from wp_mono [OF offer this] have "wp (st_then ?offer (st_then (validate_path_authorization (env 2) i m)
      (st_bind (route_target (env 3) i prole m r) ?deliver))) (\<lambda>_. live c i) (live c i) s"
    unfolding wp_simps(2) by auto
  then show ?thesis
    unfolding route_message_def wp_simps(2) [of "st_lift _"] wp_simps(7) validate_message_role_def
    using assms by (cases "role_forbidden prole m") (simp_all only: if_True if_False sum.case)
qed

text \<open>The task of a connection.\<close>

definition task_ok :: "server_config \<Rightarrow> connection_task \<Rightarrow> server \<Rightarrow> bool" where
  "task_ok c t s \<longleftrightarrow> server_reachable c s \<and> (\<forall>i. ct_pairing t = Some i \<longrightarrow> i < length (sv_sessions s))"

lemma match_wp: "wp m (\<lambda>x. wp (f x) Q E) (\<lambda>s. \<forall>err. wp (g err) Q E s) s \<Longrightarrow> wp (st_match m f g) Q E s"
  by (cases "m s"; cases "fst (m s)") (auto simp: wp_def st_match_def)

lemma report_wp:
  assumes "task_ok c t s"
  shows "wp (report_error e t fallback err) (task_ok c) (server_reachable c) s"
  unfolding report_error_def wp_simps(2,3)
  by (rule sends_wp [OF sends_intros(2)]) (use assms in \<open>auto simp: task_ok_def\<close>)

lemma joined_task: "live c i s \<Longrightarrow> task_ok c (t\<lparr>ct_role := prole, ct_pairing := Some i\<rparr>) s"
  by (simp add: live_def task_ok_def)

lemma sends_task: "sends k \<Longrightarrow> task_ok c t s \<Longrightarrow> wp (st_then k (st_return t)) (task_ok c) (server_reachable c) s"
  unfolding wp_simps(2,3) by (rule sends_wp [where c = c]) (auto simp: task_ok_def)

lemma serve_unpaired_reachable:
  assumes "task_ok c t s" "ct_pairing t = None" "set (se_order (env 0)) \<subseteq> snd ` set (sv_pairings s)"
  shows "wp (serve_unpaired env t p r) (task_ok c) (server_reachable c) s"
proof -
  have s: "server_reachable c s" and order: "\<forall>i \<in> set (se_order (env 0)). i < length (sv_sessions s)"
    using assms(1,3) server_reachable_inv [of c s] by (fastforce simp: task_ok_def server_inv_def)+
  have report: "wp (report_error e t fallback err) (task_ok c) (server_reachable c) s'" if "server_reachable c s'" for e fallback err s'
    using that assms(2) by (intro report_wp) (simp add: task_ok_def)
  have answer: "wp (st_then k (st_return (t\<lparr>ct_role := prole, ct_pairing := Some i\<rparr>))) (task_ok c) (server_reachable c) s'"
    if "live c i s'" "sends k" for k prole i s'
    using that by (intro sends_task joined_task)
  have twice: "wp (st_then k (st_then l (st_return (t\<lparr>ct_role := prole, ct_pairing := Some i\<rparr>)))) (task_ok c) (server_reachable c) s'"
    if "live c i s'" "sends k" "sends l" for k l prole i s'
    unfolding wp_simps(2) [of k] by (rule sends_wp [OF that(2)]) (use that answer in \<open>auto simp: live_def\<close>)
  note create = match_wp [OF wp_mono [OF create_reachable [OF s]]]
    and join = match_wp [OF wp_mono [OF join_reachable [OF s]]]
    and resume = match_wp [OF wp_mono [OF resume_reachable [OF s order]]]
  show ?thesis
  proof (cases "(env, t, p, r)" rule: serve_unpaired.cases)
    case (1 _ _ _ ttl _ _)
    then have p: "\<exists>x y. p = CreatePairing x Upload ttl y" by auto
    show ?thesis
      using p by (auto simp del: wp_simps intro!: create report answer sends_intros)
  next
    case (2 _ _ code _ _ _)
    then have p: "\<exists>x y. p = JoinPairing code x y" by auto
    show ?thesis
      using p by (auto simp del: wp_simps intro!: join report answer sends_rules)
  next
    case (3 _ _ pid tid role _ ticket _)
    then have p: "\<exists>x. p = ResumeTransfer pid tid role x ticket" by auto
    show ?thesis
      using p by (auto simp del: wp_simps intro!: resume report twice sends_rules)
  qed (use assms(1) in \<open>auto simp del: wp_simps intro!: sends_task sends_intros\<close>)
qed

lemma serve_reachable:
  assumes "task_ok c t s" "ct_role t = None \<longrightarrow> ct_pairing t = None" "set (se_order (env 0)) \<subseteq> snd ` set (sv_pairings s)"
  shows "wp (serve_message env t m r) (task_ok c) (server_reachable c) s"
proof -
  have route: "wp (route_message env i prole m r source) (\<lambda>_. task_ok c t) (task_ok c t) s" if "ct_pairing t = Some i" for i prole source
    using assms(1) that by (intro wp_mono [OF route_live [of c]]) (auto simp: task_ok_def live_def)
  have ok: "server_reachable c s'" if "task_ok c t s'" for s'
    using that by (simp add: task_ok_def)
  have pairing: ?thesis if "m = Pairing p" for p
  proof (cases "ct_role t")
    case None
    then show ?thesis using assms that by (simp add: serve_message_def serve_unpaired_reachable)
  next
    case (Some prole)
    have "wp (route_message env i prole m r (ct_connection t)) (\<lambda>_. task_ok c t) (server_reachable c) s" if "ct_pairing t = Some i" for i
      using that by (intro wp_mono [OF route]) (auto intro: ok)
    with Some show ?thesis
      using assms(1) that by (auto simp: serve_message_def split: option.splits)
  qed
  have other: ?thesis if "\<And>p. m \<noteq> Pairing p"
  proof (cases "ct_role t = None \<or> ct_pairing t = None")
    case True
    then show ?thesis
      using assms(1) that unfolding serve_message_def
      by (auto simp del: wp_simps split: message.splits option.splits intro!: sends_task sends_intros)
  next
    case False
    then obtain prole i where task: "ct_role t = Some prole" "ct_pairing t = Some i" by auto
    have "wp (route_message env i prole m r (ct_connection t)) (\<lambda>_. task_ok c t)
        (\<lambda>s. \<forall>err. wp (report_error (env 6) t ERROR_PAIRING_EXPIRED err) (task_ok c) (server_reachable c) s) s"
      by (rule wp_mono [OF route [OF task(2)]]) (auto intro: report_wp)
    then show ?thesis
      using that task unfolding serve_message_def by (auto split: message.splits intro!: match_wp)
  qed
  show ?thesis using pairing other by (cases m) auto
qed

text \<open>The task of a relay: the permit, the chunks, the end.\<close>

lemma relay_chunk_first:
  "relay_loop i (x # inputs) s = (case relay_loop i [x] s of
     (Inl e, s') \<Rightarrow> (Inl e, s')
   | (Inr _, s') \<Rightarrow> if \<exists>w. x = ReadBytes [] w then (Inr (), s') else relay_loop i inputs s')"
  by (cases x) (auto simp: st_bind_def st_then_def split: prod.splits sum.splits option.splits)

lemma relay_permits: "keeps (\<lambda>s. sv_permits s = ps) (relay_loop i [x])"
proof -
  have "keeps (\<lambda>s. sv_permits s = ps) (reserve_relay_bytes i k)" for k
    unfolding reserve_relay_bytes_def Let_def by (intro keeps_intros) (simp_all add: add_count_def)
  then show ?thesis
    by (cases x) (auto simp del: st_run simp: keeps_basic intro!: keeps_intros split: option.splits)
qed

lemma relay_loop_reachable:
  assumes "server_reachable c s" "i \<in> set (sv_permits s)" "list_all read_fits inputs"
  shows "server_reachable c (snd (relay_loop i inputs s)) \<and> sv_permits (snd (relay_loop i inputs s)) = sv_permits s"
  using assms
proof (induction inputs arbitrary: s)
  case (Cons x inputs)
  let ?s = "snd (relay_loop i [x] s)"
  have s: "server_reachable c ?s" "sv_permits ?s = sv_permits s"
    using Cons.prems keepsD [OF relay_permits [of "sv_permits s" i x], of s]
    by (auto intro: reachable_step server_step.relay_chunk)
  show ?case
    using Cons.IH [OF s(1)] s Cons.prems by (auto simp: relay_chunk_first [of i x inputs] split: prod.splits sum.splits)
qed simp

lemma relay_task_reachable:
  assumes "live c i s" "list_all read_fits inputs"
  shows "server_reachable c (snd (relay_task env i open_error inputs shutdown_error s))"
proof -
  let ?stop = "\<lambda>s. case relay_stream i open_error inputs shutdown_error s of
      (Inl err, s') \<Rightarrow> relay_end (env 1) i (Some err) s' | (Inr _, s') \<Rightarrow> relay_end (env 1) i None s'"
  have stream: "server_reachable c (snd (relay_stream i open_error inputs shutdown_error s')) \<and>
      i \<in> set (sv_permits (snd (relay_stream i open_error inputs shutdown_error s')))"
    if "server_reachable c s'" "i \<in> set (sv_permits s')" for s'
    using relay_loop_reachable [OF that assms(2)] that
    by (auto simp: relay_stream_def st_then_def st_bind_def split: option.splits prod.splits sum.splits)
  have stop: "server_reachable c (snd (?stop s'))" if "server_reachable c s'" "i \<in> set (sv_permits s')" for s'
    using stream [OF that] by (auto split: prod.splits sum.splits intro!: reachable_step [OF _ server_step.relay_stop])
  have "inv_at i s"
    using assms(1) server_reachable_inv by (auto simp: live_def inv_at_def)
  then have "wp (relay_begin (env 0) i) (\<lambda>permitted s'. permitted \<longrightarrow> i \<in> set (sv_permits s')) (\<lambda>_. True) s"
    by (rule wp_mono [OF relay_begin_wp]) auto
  moreover have "wp (relay_begin (env 0) i) (\<lambda>_. server_reachable c) (server_reachable c) s"
    using assms(1) by (auto simp: wp_state live_def intro: reachable_step server_step.relay_start)
  ultimately have "wp (relay_begin (env 0) i) (\<lambda>permitted s'. (permitted \<longrightarrow> i \<in> set (sv_permits s')) \<and> server_reachable c s')
      (\<lambda>s'. True \<and> server_reachable c s') s"
    by (rule wp_conj)
  then have "wp (st_bind (relay_begin (env 0) i) (\<lambda>permitted. if \<not> permitted then st_return () else ?stop))
      (\<lambda>_. server_reachable c) (server_reachable c) s"
    unfolding wp_simps(1) by (rule wp_mono) (use stop in \<open>auto simp: wp_state\<close>)
  then show ?thesis
    by (simp only: relay_task_def wp_state)
qed

end
