(* ===== verification/Pairing_Sample.thy ===== *)
theory Pairing_Sample
  imports Pairing_Reach
begin

text \<open>
  A run of the server for the examples: a pairing is created, and an offer is made before there is an accepter.
\<close>

definition server_sample_config :: server_config where
  "server_sample_config = server_config_new\<lparr>sg_max_pairings := 1, sg_max_pending_messages := 1\<rparr>"

definition sample_server_env :: server_env where
  "sample_server_env = \<lparr>se_now = 5, se_millis = 1000, se_ticket = (\<lambda>k. Some (of_nat k # replicate 31 1)), se_token = Some (replicate 32 2),
     se_pairing_id = Some (replicate 16 3), se_pairing_code = Some (ascii ''23456789''), se_relay_id = Some (replicate 16 4),
     se_write = (\<lambda>_ _ _. None), se_display = (\<lambda>_. []), se_order = [0], se_locked = (\<lambda>_. False), se_blake3 = id\<rparr>"

definition sample_ticket :: session_ticket where
  "sample_ticket = 0 # replicate 31 1"

definition offer_digest :: digest where
  "offer_digest = \<lparr>dg_algorithm = Blake3, dg_bytes = replicate 32 6\<rparr>"

definition sample_offer :: message where
  "sample_offer = Pairing (OfferReady (replicate 16 5) offer_digest 1 10 (ascii ''a''))"

definition sample_created :: server where
  "sample_created = snd (create_pairing sample_server_env \<lparr>pr_connection = 0, pr_writer = 0\<rparr> 60 (server_new server_sample_config))"

definition sample_prepared :: server where
  "sample_prepared = snd (prepare_offer sample_server_env 0 (replicate 16 5) offer_digest sample_created)"

definition sample_waiting :: server where
  "sample_waiting = snd (route_target sample_server_env 0 Offerer_PR sample_offer 1 sample_prepared)"

lemmas sample_run = create_pairing_def insert_pairing_def pairing_new_def purge_expired_def purge_expired_blocking_def Let_def random_ticket_def
  ok_or_def pairing_ttl_def st_then_def st_bind_def server_new_def server_sample_config_def server_config_new_def sample_server_env_def add_count_def
  prepare_offer_def ensure_path_authorization_def ensure_resume_state_def session_of_def update_session_def route_target_def
  relay_config_default_def

lemma sample_created_state:
  "server_reachable server_sample_config sample_created" "length (sv_sessions sample_created) = 1"
proof -
  have "server_reachable server_sample_config (server_new server_sample_config)"
    by (simp add: server_reachable_def)
  then show "server_reachable server_sample_config sample_created"
    using create_reachable [of server_sample_config "server_new server_sample_config" sample_server_env "\<lparr>pr_connection = 0, pr_writer = 0\<rparr>" 60]
    unfolding sample_created_def by (auto simp: wp_def live_def split: prod.splits sum.splits)
  show "length (sv_sessions sample_created) = 1"
    by (simp add: sample_created_def sample_run)
qed

lemma sample_prepared_state:
  "server_reachable server_sample_config sample_prepared" "length (sv_sessions sample_prepared) = 1"
  "offers_prepared (session_of 0 sample_prepared) [(sample_offer, 1)]"
proof -
  show "server_reachable server_sample_config sample_prepared"
    unfolding sample_prepared_def using sample_created_state by (auto intro!: reachable_step [OF _ server_step.offer])
  show "length (sv_sessions sample_prepared) = 1"
    by (simp add: sample_prepared_def sample_created_def sample_run)
  show "offers_prepared (session_of 0 sample_prepared) [(sample_offer, 1)]"
    by (simp add: offers_prepared_def sample_offer_def sample_prepared_def sample_created_def sample_run)
qed

lemma sample_waiting_reachable: "server_reachable server_sample_config sample_waiting"
  unfolding sample_waiting_def using sample_prepared_state by (auto intro!: reachable_step [OF _ server_step.target])

lemma sample_waiting_session:
  "map_of (sv_pairings sample_waiting) (pairing_key sample_server_env (ascii ''23456789'')) = Some 0"
  "pg_expires_at (session_of 0 sample_waiting) = 60 * 10 ^ 9 + 5" "pg_join_attempts (session_of 0 sample_waiting) = 0"
  "pg_accepter (session_of 0 sample_waiting) = None" "pg_pending_for_accepter (session_of 0 sample_waiting) = [(sample_offer, 1)]"
  "length (sv_sessions sample_waiting) = 1" "length (sv_pairings sample_waiting) = 1"
  by (simp_all add: sample_waiting_def sample_prepared_def sample_created_def sample_run)

lemma sample_waiting_transfer:
  "pg_id (session_of 0 sample_waiting) = replicate 16 3"
  "map_of (pg_transfers (session_of 0 sample_waiting)) (replicate 16 5) =
     Some \<lparr>rs_manifest_digest = offer_digest, rs_expires_at = 60 * 10 ^ 9 + 5, rs_expires_at_millis = 61000,
       rs_offerer_ticket = sample_ticket, rs_accepter_ticket = None\<rparr>"
  by (simp_all add: sample_waiting_def sample_prepared_def sample_created_def sample_run sample_ticket_def unix_millis_after_def)

end
