(* ===== verification/Pairing_Properties.thy ===== *)
theory Pairing_Properties
  imports Pairing_Sample "HOL-Library.Sublist"
begin

text \<open>
  What is shown of the server: the limits hold in every reachable state, what waits for the accepter is delivered to it in order, a peer is
  replaced only by one with its ticket, an error that the server names is reported under its code.
\<close>

section \<open>Limits\<close>






section \<open>Joining\<close>

lemma purge_keeps_unexpired:
  assumes "server_inv s" "map_of (sv_pairings s) key = Some i" "se_now e < pg_expires_at (session_of i s)"
  shows "map_of (sv_pairings (purge_expired e s)) key = Some i"
proof -
  have "(key, i) \<in> set (sv_pairings s)" "distinct (map fst (sv_pairings s))"
    using assms(1,2) by (auto simp: server_inv_def dest: map_of_SomeD)
  moreover from this assms(3) have "key \<notin> fst ` set (filter (\<lambda>(key, i). \<not> se_locked e i \<and> pg_expires_at (session_of i s) \<le> se_now e) (sv_pairings s))"
    by (auto dest: eq_key_imp_eq_value)
  ultimately have "map_of (filter (\<lambda>(k, j). k \<notin> fst ` set (filter (\<lambda>(key, i). \<not> se_locked e i \<and> pg_expires_at (session_of i s) \<le> se_now e) (sv_pairings s)))
      (sv_pairings s)) key = Some i"
    by (intro map_of_is_SomeI) (auto simp: distinct_map_filter)
  then show ?thesis
    by (simp add: purge_expired_def purge_expired_blocking_def Let_def add_count_def)
qed

lemma join_session_enters:
  assumes "inv_at i s" "se_now e < pg_expires_at (session_of i s)" "pg_join_attempts (session_of i s) < sg_max_join_attempts (sv_config s)"
    and "pg_accepter (session_of i s) = None" "\<forall>k. se_ticket e k \<noteq> None"
  shows "wp (join_session e i p) (\<lambda>j s'. jn_pending j = pg_pending_for_accepter (session_of i s) \<and> jn_offerer j = pg_offerer (session_of i s)
      \<and> pg_accepter (session_of i s') = Some p \<and> pg_pending_for_accepter (session_of i s') = []) (\<lambda>_. False) s"
proof -
  let ?pending = "pg_pending_for_accepter (session_of i s)"
  let ?in = "\<lambda>s'. pg_accepter (session_of i s') = Some p \<and> pg_pending_for_accepter (session_of i s') = []"
  have drawn: "\<not> (\<exists>k. se_ticket e k = None)"
    using assms(5) by simp
  have "wp (authorize_first e i ?pending) (\<lambda>a. wp (pending_tickets e 0 i ?pending []) (\<lambda>_. ?in) (\<lambda>_. False)) (\<lambda>_. False) (entered i p s)"
  proof (rule authorize_first_wp [OF entered_inv [OF assms(1)]])
    fix x s' A
    assume s': "inv_at i s'" "session_of i s' = (session_of i (entered i p s))\<lparr>pg_path_authorizations := A\<rparr>"
    have "pg_accepter (session_of i s') \<noteq> None" "offers_prepared (session_of i s') ?pending"
      using entered_prepared [OF assms(1), of p] unfolding s'(2) by (simp_all add: entered_session [OF assms(1)] offers_prepared_def)
    then show "wp (pending_tickets e 0 i ?pending []) (\<lambda>_. ?in) (\<lambda>_. False) s'"
      using drawn s'(2) by (intro pending_tickets_wp [OF s'(1)]) (simp_all add: entered_session [OF assms(1)])
  qed
  then show ?thesis
    using assms by (simp add: join_session_def attempts_inv flip: entered_def)
qed

lemma subseq_responses: "subseq (map (\<lambda>x. (writer, fst x)) pending)
    (concat (map (pending_responses offerer writer rid ticket auth tickets \<circ> fst) pending))"
proof (induction pending)
  case (Cons x pending)
  have "subseq [(writer, fst x)] (pending_responses offerer writer rid ticket auth tickets (fst x))"
    by (simp add: pending_responses_def subseq_singleton_left)
  then show ?case
    using Cons.IH by (simp add: list_emb_append_mono [of _ "[_]", simplified])
qed simp

lemma subseq_answer: "subseq (map (\<lambda>x. (writer, fst x)) pending)
    (x # y # concat (map (pending_responses offerer writer rid ticket auth tickets \<circ> fst) pending))"
  by (intro list_emb_Cons subseq_responses)

text \<open>C12: A pairing code that has not expired, has attempts left and has not been used lets the accepter in, in every reachable state and as
  long as there is randomness: what the offerer has sent so far is delivered to the accepter, every message, in the order of
  its arrival, nothing waits any more, and a relay is started for every data stream that has been announced.\<close>

theorem join_delivers_waiting:
  assumes "server_reachable c s" "map_of (sv_pairings s) (pairing_key e code) = Some i"
    and "se_now e < pg_expires_at (session_of i s)" "pg_join_attempts (session_of i s) < sg_max_join_attempts c"
    and "pg_accepter (session_of i s) = None" "\<forall>k. se_ticket e k \<noteq> None"
  shows "\<exists>responses s'. join_pairing e p code s = (Inr (i, responses), s')
    \<and> subseq (map (\<lambda>x. (pr_writer p, fst x)) (pg_pending_for_accepter (session_of i s))) responses
    \<and> pg_accepter (session_of i s') = Some p \<and> pg_pending_for_accepter (session_of i s') = []
    \<and> sv_relays s' = sv_relays s @ map (\<lambda>_. (i, pr_connection (pg_offerer (session_of i s)), pr_connection p))
        (filter (is_file_begin \<circ> fst) (pg_pending_for_accepter (session_of i s)))"
proof -
  let ?s = "purge_expired e s"
  have s: "server_reachable c ?s" "session_of i ?s = session_of i s" "sv_relays ?s = sv_relays s"
    using reach_purge [OF assms(1)] by (simp_all add: session_of_def purge_expired_def purge_expired_blocking_def Let_def add_count_def)
  have found: "map_of (sv_pairings ?s) (pairing_key e code) = Some i"
    using purge_keeps_unexpired server_reachable_inv [OF assms(1)] assms(2,3) by blast
  have at: "inv_at i ?s"
    using server_reachable_inv [OF s(1)] map_of_SomeD [OF found] by (force simp: inv_at_def server_inv_def)
  have "wp (join_session e i p) (\<lambda>j s'. jn_pending j = pg_pending_for_accepter (session_of i s) \<and> jn_offerer j = pg_offerer (session_of i s)
      \<and> pg_accepter (session_of i s') = Some p \<and> pg_pending_for_accepter (session_of i s') = []) (\<lambda>_. False) ?s"
    using join_session_enters [OF at] assms(3-6) server_reachable_inv [OF s(1)] by (simp add: s(2))
  then obtain j s' where j: "join_session e i p ?s = (Inr j, s')" "jn_pending j = pg_pending_for_accepter (session_of i s)"
      "jn_offerer j = pg_offerer (session_of i s)" "pg_accepter (session_of i s') = Some p" "pg_pending_for_accepter (session_of i s') = []"
    by (auto simp: wp_def split: prod.splits sum.splits)
  have relays: "sv_relays s' = sv_relays s"
    using keepsD [OF update_join [of "\<lambda>s'. sv_relays s' = sv_relays s" i e p], of ?s] j(1) s(3) by (simp add: add_count_def)
  obtain ticket where "se_ticket e (length (jn_pending j)) = Some ticket"
    using assms(6) by auto
  then show ?thesis
    using j relays found subseq_answer
    by (simp add: join_pairing_def join_answer_def Let_def ok_or_def random_ticket_def add_count_def session_of_def st_bind_def st_then_def)
qed

theorem join_delivers_waiting_witness:
  "\<exists>responses s'. join_pairing sample_server_env \<lparr>pr_connection = 1, pr_writer = 1\<rparr> (ascii ''23456789'') sample_waiting = (Inr (0, responses), s')
     \<and> subseq [(1, sample_offer)] responses"
proof -
  have "se_now sample_server_env < pg_expires_at (session_of 0 sample_waiting)"
      "pg_join_attempts (session_of 0 sample_waiting) < sg_max_join_attempts server_sample_config" "\<forall>k. se_ticket sample_server_env k \<noteq> None"
    by (simp_all add: sample_waiting_session) (simp_all add: sample_server_env_def server_sample_config_def server_config_new_def)
  then show ?thesis
    using join_delivers_waiting [OF sample_waiting_reachable sample_waiting_session(1), of "\<lparr>pr_connection = 1, pr_writer = 1\<rparr>"]
    by (auto simp: sample_waiting_session)
qed

section \<open>Reconnecting\<close>

lemma resume_session_cases:
  "case resume_session e p pid tid role ticket i s of
     (Inl _, s') \<Rightarrow> s' = s
   | (Inr None, s') \<Rightarrow> s' = s
   | (Inr (Some (j, prole, response, counterpart)), s') \<Rightarrow>
       j = i \<and> pg_id (session_of i s) = pid \<and> se_now e < pg_expires_at (session_of i s)
       \<and> (\<exists>resume. map_of (pg_transfers (session_of i s)) tid = Some resume \<and> se_now e < rs_expires_at resume
          \<and> response = Pairing (ResumeAccepted pid tid role (rs_manifest_digest resume) (rs_expires_at_millis resume))
          \<and> (case role of
               Offerer \<Rightarrow> ticket = rs_offerer_ticket resume \<and> prole = Offerer_PR \<and> counterpart = pg_accepter (session_of i s)
                 \<and> s' = update_session i (\<lambda>st. st\<lparr>pg_offerer := p\<rparr>) s
             | Accepter \<Rightarrow> Some ticket = rs_accepter_ticket resume \<and> prole = Accepter_PR \<and> counterpart = Some (pg_offerer (session_of i s))
                 \<and> s' = update_session i (\<lambda>st. st\<lparr>pg_accepter := Some p\<rparr>) s))"
  by (auto simp: resume_session_def ok_or_def Let_def split: option.splits transfer_role.splits)

text \<open>C13: A connection takes the place of a peer only with the ticket that this peer was given for the transfer, while neither the pairing nor
  the ticket has expired; then the connection of this peer is the only thing that changes, and the other peer is the one to be told. An
  attempt that fails changes nothing.\<close>

theorem resume_needs_ticket:
  "case resume_transfer e p pid tid role ticket s of
     (Inl _, s') \<Rightarrow> s' = s
   | (Inr (i, prole, response, counterpart), s') \<Rightarrow>
       i \<in> set (se_order e) \<and> pg_id (session_of i s) = pid \<and> se_now e < pg_expires_at (session_of i s)
       \<and> (\<exists>resume. map_of (pg_transfers (session_of i s)) tid = Some resume \<and> se_now e < rs_expires_at resume
          \<and> response = Pairing (ResumeAccepted pid tid role (rs_manifest_digest resume) (rs_expires_at_millis resume))
          \<and> (case role of
               Offerer \<Rightarrow> ticket = rs_offerer_ticket resume \<and> prole = Offerer_PR \<and> counterpart = pg_accepter (session_of i s)
                 \<and> s' = update_session i (\<lambda>st. st\<lparr>pg_offerer := p\<rparr>) s
             | Accepter \<Rightarrow> Some ticket = rs_accepter_ticket resume \<and> prole = Accepter_PR \<and> counterpart = Some (pg_offerer (session_of i s))
                 \<and> s' = update_session i (\<lambda>st. st\<lparr>pg_accepter := Some p\<rparr>) s))"
proof -
  have "case resume_loop e p pid tid role ticket is s of
     (Inl _, s') \<Rightarrow> s' = s
   | (Inr (i, prole, response, counterpart), s') \<Rightarrow>
       i \<in> set is \<and> resume_session e p pid tid role ticket i s = (Inr (Some (i, prole, response, counterpart)), s')" for "is"
  proof (induction "is")
    case (Cons i "is")
    then show ?case
      using resume_session_cases [where e = e and p = p and pid = pid and tid = tid and role = role and ticket = ticket and s = s and i = i]
      by (auto simp: st_bind_def split: prod.splits sum.splits option.splits)
  qed simp
  from this [of "se_order e"] show ?thesis
    unfolding resume_transfer_def using resume_session_cases [where e = e and p = p and pid = pid and tid = tid and role = role and ticket = ticket and s = s]
    by (fastforce split: prod.splits sum.splits)
qed

text \<open>C39: The peer that holds its ticket gets back in: among the sessions of the server exactly one has the identifier, neither it nor the
  ticket has expired, and the peer presents the ticket of its role.\<close>

theorem ticket_holder_resumes:
  assumes "i \<in> set (se_order e)" "\<forall>j \<in> set (se_order e). pg_id (session_of j s) = pid \<longleftrightarrow> j = i" "se_now e < pg_expires_at (session_of i s)"
    and "map_of (pg_transfers (session_of i s)) tid = Some resume" "se_now e < rs_expires_at resume"
    and "Some ticket = (case role of Offerer \<Rightarrow> Some (rs_offerer_ticket resume) | Accepter \<Rightarrow> rs_accepter_ticket resume)"
  shows "\<exists>prole response counterpart s'. resume_transfer e p pid tid role ticket s = (Inr (i, prole, response, counterpart), s')"
proof -
  have "pg_id (session_of i s) = pid"
    using assms(1,2) by simp
  then have hit: "\<exists>prole response counterpart s'. resume_session e p pid tid role ticket i s = (Inr (Some (i, prole, response, counterpart)), s')"
    using assms(3-5) assms(6) [symmetric] by (auto simp: resume_session_def ok_or_def Let_def split: transfer_role.splits)
  have "\<exists>prole response counterpart s'. resume_loop e p pid tid role ticket is s = (Inr (i, prole, response, counterpart), s')"
    if "i \<in> set is" "\<forall>j \<in> set is. pg_id (session_of j s) = pid \<longleftrightarrow> j = i" for "is"
    using that
  proof (induction "is")
    case (Cons j "is")
    show ?case
    proof (cases "j = i")
      case True
      then show ?thesis using hit by (auto simp: st_bind_def)
    next
      case False
      then have "resume_session e p pid tid role ticket j s = (Inr None, s)"
        using Cons.prems(2) by (simp add: resume_session_def)
      then show ?thesis using Cons False by (simp add: st_bind_def)
    qed
  qed simp
  then show ?thesis
    using assms(1,2) by (simp add: resume_transfer_def)
qed

theorem ticket_holder_resumes_witness:
  "\<exists>prole response counterpart s'. resume_transfer sample_server_env \<lparr>pr_connection = 1, pr_writer = 1\<rparr> (replicate 16 3) (replicate 16 5) Offerer
     sample_ticket sample_waiting = (Inr (0, prole, response, counterpart), s')"
proof (rule ticket_holder_resumes [OF _ _ _ sample_waiting_transfer(2)])
  show "0 \<in> set (se_order sample_server_env)" "\<forall>j \<in> set (se_order sample_server_env). pg_id (session_of j sample_waiting) = replicate 16 3 \<longleftrightarrow> j = 0"
    using sample_waiting_transfer(1) by (simp_all add: sample_server_env_def)
qed (simp_all add: sample_waiting_session, simp_all add: sample_server_env_def)

section \<open>Relaying\<close>





section \<open>Errors\<close>

lemma decimal_byte: "n < 10 \<Longrightarrow> unat (of_nat (48 + n) :: u8) = 48 + n"
  by (simp add: unat_of_nat del: of_nat_add)

lemma decimal_digits: "b \<in> set (decimal n) \<Longrightarrow> in_range 48 57 b"
proof (induction n rule: decimal.induct)
  case (1 n)
  have "in_range 48 57 (of_nat (48 + k) :: u8)" if "k < 10" for k
    using decimal_byte [OF that] that by (simp add: in_range_def word_le_nat_alt)
  then show ?case
    using 1 by (subst (asm) (2) decimal.simps) (auto split: if_splits)
qed

lemma decimal_nonempty: "decimal n \<noteq> []"
  by (subst decimal.simps) simp

lemma parse_digits_append: "parse_digits (xs @ ys) acc = Option.bind (parse_digits xs acc) (parse_digits ys)"
  by (induction xs acc rule: parse_digits.induct) (simp_all add: Let_def)

lemma parse_digit: "k < 10 \<Longrightarrow> 10 * acc + k < 2 ^ 32 \<Longrightarrow> parse_digits [of_nat (48 + k)] acc = Some (10 * acc + k)"
  using decimal_byte [of k] by (simp add: in_range_def word_le_nat_alt del: of_nat_add)

lemma parse_decimal: "n < 2 ^ 32 \<Longrightarrow> parse_digits (decimal n) 0 = Some n"
proof (induction n rule: decimal.induct)
  case (1 n)
  show ?case
  proof (cases "n < 10")
    case True
    then show ?thesis
      using parse_digit [of n 0] by (simp add: decimal.simps [of n] del: of_nat_add parse_digits.simps)
  next
    case False
    have "parse_digits (decimal (n div 10)) 0 = Some (n div 10)"
      using 1 False by simp
    then show ?thesis
      using False 1(2) parse_digit [of "n mod 10" "n div 10"]
      by (simp add: decimal.simps [of n] parse_digits_append del: of_nat_add parse_digits.simps)
  qed
qed

text \<open>The code of an error that the server names is found again in the text that is reported.\<close>

theorem server_error_code_round_trip: "server_error_code (server_error code msg) fallback = code"
proof -
  have digits: "in_range 48 57 b" if "b \<in> set (decimal (unat code))" for b
    using that by (rule decimal_digits)
  then have colon: "b \<noteq> 58" "b \<noteq> 43" if "b \<in> set (decimal (unat code))" for b
    using that by (fastforce simp: in_range_def)+
  have "takeWhile (\<lambda>b. b \<noteq> 58) (server_error code msg) = decimal (unat code)"
    using colon(1) by (simp add: server_error_def ascii_def takeWhile_append2)
  moreover have "parse_u32 (decimal (unat code)) = Some code"
  proof -
    have "unat code < 2 ^ 32"
      using unsigned_less [of code] by simp
    then show ?thesis
      using colon(2) parse_decimal [of "unat code"] decimal_nonempty [of "unat code"]
      by (cases "decimal (unat code)") (auto simp: parse_u32_def Let_def)
  qed
  moreover have "58 \<in> set (server_error code msg)"
    by (simp add: server_error_def ascii_def)
  ultimately show ?thesis
    by (simp add: server_error_code_def)
qed

end
