(* ===== verification/Spec2Isabelle.thy ===== *)
theory Spec2Isabelle
  imports Stream_Transfer Conn_Theorems Conn_Handshake Conn_Recovery Session_Sample Retry_Cookie Path_Selection Path_Interface Pairing_Properties
begin

text \<open>
  A verification library for \<open>dart-udp\<close>, a file transfer system over its own reliable transport on UDP. The
  library models the transport, which is the wire format (\<open>src/crates/udp-protocol\<close>), the timers
  (\<open>src/crates/time-wheel\<close>) and the connection (\<open>src/crates/reliable-core\<close>), and the file transfer on top of it: its
  messages (\<open>src/crates/transfer-protocol\<close>) and its sessions (\<open>src/crates/transfer-core\<close>). All of them are pure
  state machines without sockets or threads.

  \<^bold>\<open>How the parts interact.\<close> A \<open>Connection\<close> is driven by its owner: bytes from the socket go in
  through \<open>on_datagram_bytes\<close>, the passing of time through \<open>advance_time\<close>, the application's calls
  through \<open>open_stream\<close>, \<open>write_stream\<close>, \<open>read_stream\<close> and \<open>close\<close>; what is to be sent and reported comes
  out of \<open>drain_output\<close>, and packets are turned into bytes by \<open>encode_packet\<close>. Inside, the handshake
  agrees on keys, the stream manager keeps the two halves of every stream, the transport numbers packets,
  keeps the record of those in flight and retransmits, flow and congestion control say what may be sent,
  and one timing wheel holds all timers. A file transfer has a \<open>TransferSession\<close> at each end, driven in the same
  way: control messages, which the message codec turns into bytes, go in through \<open>handle_control\<close> and
  \<open>handle_pairing\<close>, the bytes of the files through \<open>queue_data\<close> and \<open>handle_data\<close>, and what is to be sent comes out of the
  queues that \<open>flush\<close> or \<open>drain_control\<close> empty.

  \<^bold>\<open>Foundations.\<close>
    \<^item> \<open>Prelude\<close>: the model's types (\<open>u8\<close> to \<open>u64\<close> as words, \<open>usize\<close> as \<open>nat\<close> with its limit written out where
      the code checks it, byte strings as lists), \<open>Result\<close> as a sum, checked and saturating arithmetic.
    \<^item> \<open>State_Result\<close>: operations \<open>&mut self -> Result\<close> as functions from a state to a result and a state; the
      state is returned for errors too, because the code keeps what it changed before a \<open>?\<close>.
    \<^item> \<open>Btree_Map\<close>: \<open>BTreeMap\<close> as an ordered association list. \<open>Protocol_Error\<close>, \<open>Core_Error\<close>: the error enums.

  \<^bold>\<open>Wire format\<close> (\<open>udp-protocol\<close>).
    \<^item> \<open>Varint\<close> (\<open>varint.rs\<close>), \<open>Wire\<close> (\<open>Reader\<close> and \<open>write_blob\<close> of \<open>frame.rs\<close>), \<open>Ack\<close> (\<open>ack.rs\<close>), \<open>Frame\<close> (\<open>frame.rs\<close>),
      \<open>Checksum\<close> (\<open>checksum.rs\<close>), \<open>Codec\<close> (\<open>packet.rs\<close>, \<open>codec.rs\<close>). The locale \<open>wire_codec\<close> states what an encoder and
      a reader promise each other and is interpreted for every frame. Shown: round trips, that decoding
      accepts only well-formed packets, that no single changed byte passes the checksum.
    \<^item> \<open>Replay_Window\<close>, \<open>Crypto\<close> (\<open>crypto.rs\<close>): the bitmap refines the set of all accepted numbers; a sealed
      packet is opened once; only an authenticated datagram changes the receiver.

  \<^bold>\<open>Streams, flow, congestion\<close> (\<open>reliable-core\<close>).
    \<^item> \<open>Receive_Stream\<close> (\<open>receive.rs\<close>), \<open>Send_Stream\<close> (\<open>send.rs\<close>), \<open>Stream_Transfer\<close>: whatever the order, duplication
      and splitting of segments, the reader gets what the writer wrote; a write is all or nothing.
    \<^item> \<open>Received_Packets\<close> (\<open>ack.rs\<close>), \<open>Flow_Control\<close> (\<open>flow_control.rs\<close>), \<open>Congestion\<close> (\<open>congestion.rs\<close>), \<open>Rtt\<close> (\<open>rtt.rs\<close>):
      what is acknowledged, and the bounds of windows and timeouts.

  \<^bold>\<open>Timers\<close> (\<open>time-wheel\<close>).
    \<^item> \<open>Wheel_Config\<close> (\<open>config.rs\<close>), \<open>Deadline_Heap\<close> (\<open>deadline.rs\<close>), \<open>Timer_Wheel\<close> (\<open>wheel.rs\<close>, \<open>level.rs\<close>): a hierarchical
      wheel whose slots are doubly linked lists through a slot map, with an indexed heap beside it. The slot
      map is another crate; which key an insertion yields and the order of iteration are the argument
      \<open>slotmap_api\<close>, with the laws of the crate's documentation as \<open>slotmap_laws\<close>.
    \<^item> \<open>Wheel_Lists\<close>, \<open>Wheel_Correct\<close>, \<open>Wheel_Properties\<close>: the linked lists, the invariant, and that the wheel
      refines a map from identifiers to payload and deadline: timers fire exactly when due.

  \<^bold>\<open>The connection\<close> (\<open>reliable-core\<close>).
    \<^item> \<open>Conn_Config\<close> (\<open>config.rs\<close>, \<open>timer.rs\<close>, \<open>event.rs\<close>, \<open>stream.rs\<close>), \<open>Conn_Timers\<close> (\<open>connection/timers.rs\<close>),
      \<open>Stream_Manager\<close> (\<open>connection/streams.rs\<close>), \<open>Conn_State\<close> (the records), \<open>Transport\<close> (\<open>connection/transport.rs\<close>),
      \<open>Handshake\<close> (\<open>connection/handshake.rs\<close>), \<open>Connection\<close> (\<open>connection.rs\<close>): one record field per struct field
      and one definition per method.
    \<^item> \<open>Conn_Steps\<close>, \<open>Conn_Relation\<close>: the proof library. \<open>steps R m\<close> says that \<open>m\<close> relates its start and end states by
      \<open>R\<close>, for errors too; the locales \<open>conn_base\<close>, \<open>conn_closing\<close> and \<open>conn_relation\<close> take a relation with the laws
      of the elementary updates and prove it for every method once. Their interpretations in
      \<open>Wheel_Issued\<close>, \<open>Conn_Invariants\<close> and \<open>Conn_Properties\<close> give each invariant.
    \<^item> \<open>Conn_Flush\<close>, \<open>Conn_Properties\<close>, \<open>Conn_Sample\<close>: termination, the connections reachable through any calls that
      succeed or fail, and concrete connections for the witnesses.
    \<^item> \<open>Conn_Theorems\<close>, \<open>Conn_Handshake\<close>, \<open>Conn_Recovery\<close>: packet numbers are never reused, packets in flight are
      accounted for, every call returns, states only move on, only a verified \<open>Finished\<close> tag establishes a
      connection, both ends agree on keys, acknowledgements settle exactly what they cover, lost frames
      are queued again.

  \<^bold>\<open>Messages of the file transfer\<close> (\<open>transfer-protocol\<close>).
    \<^item> \<open>Cursor\<close>: readers over a slice and an offset and writers over a buffer, with the locales \<open>safe_decoder\<close> and
      \<open>wire_codec\<close>; both codecs, \<open>Wire\<close> and \<open>Transfer_Wire\<close>, are built from it.
    \<^item> \<open>Transfer_Types\<close> (\<open>types.rs\<close>, \<open>error.rs\<close>), \<open>Transfer_Message\<close> (\<open>message.rs\<close>), \<open>Transfer_Wire\<close> and \<open>Transfer_Codec\<close>
      (\<open>codec.rs\<close>): all messages with their validation and their encoding. Shown: a message that is encoded is decoded
      as itself; what is decoded is well-formed, valid and within the limits; a generated pairing code spells its
      random bits and is accepted by the parser.

  \<^bold>\<open>Sessions of the file transfer\<close> (\<open>transfer-core\<close>).
    \<^item> \<open>Transfer_Manifest\<close> (\<open>manifest.rs\<close>, \<open>error.rs\<close>): exactly which lists of entries are a manifest, and which paths an
      entry may have. \<open>Transfer_Session\<close> (\<open>session.rs\<close>, \<open>channel.rs\<close>): one definition per method of \<open>TransferSession\<close>.
    \<^item> \<open>Session_Invariant\<close>: the invariant \<open>session_inv\<close> and its preservation by every method, errors included.
    \<^item> \<open>Session_Properties\<close>: the sessions reachable through any calls (\<open>session_step\<close>), in which offsets and counters
      never wrap and \<open>Completed\<close> means that every file is; the manifest and the bytes of a file arrive as they were
      sent; a reconnection keeps what is durable and both ends resume at the same place. \<open>Session_Sample\<close> runs one
      transfer for the witnesses.

  \<^bold>\<open>Fuel.\<close> Two loops of the code have no bound in the source. \<open>process_slot\<close> follows a linked list: its
  model has as fuel the number of timers, and \<open>wheel_never_inconsistent\<close> shows that it never runs out.
  The loop of \<open>flush\<close> has as fuel \<open>flush_fuel\<close>, the number of queued frames and a pending acknowledgement;
  running out is the value \<open>Endless\<close>, and \<open>calls_return\<close> shows that no call ends with it. The loop of
  \<open>start_pending_files\<close> is total: each round takes a file out of the pending ones.

  \<^bold>\<open>Parameters.\<close> X25519, SHA-256, HKDF, HMAC and ChaCha20-Poly1305 (other crates) are the fields of
  \<open>primitives\<close>; what a theorem needs of them is a named hypothesis (\<open>aead_correct\<close>, \<open>key_exchange_agrees\<close>,
  \<open>hmac_total\<close>), and \<open>sample_primitives\<close> satisfies them. Random nonces and keys are arguments of
  \<open>connection_new\<close>. A panic (a \<open>Duration\<close> that overflows in the estimator) is the value \<open>Panic\<close>. The traits that a session
  is generic over are arguments of its methods: \<open>storage_ops\<close> and \<open>path_selector\<close>, the sending functions of the channels,
  and the value of the clock; the invariant of a session holds for any of them.

  \<^bold>\<open>Not modelled.\<close> \<open>Display\<close> implementations and accessors that only read a field; debug assertions, which
  change no state; the event loop, endpoints and handles of \<open>reliable-udp\<close> (sockets, tasks and channels of
  an asynchronous runtime); \<open>network-probe\<close>; the files of \<open>transfer-storage\<close>; \<open>transfer-client\<close> and \<open>transfer-server\<close>, which
  drive sockets and sessions, and the applications.

  \<^bold>\<open>Plan.\<close> Next are the storage of \<open>transfer-storage\<close> as an implementor of \<open>storage_ops\<close>, the choice of a path of
  \<open>network-probe\<close>, the rooms of \<open>transfer-server\<close> and the retry cookies of \<open>reliable-udp\<close>.
\<close>

end
